(* ===== verification/Prelude.thy ===== *)
theory Prelude
  imports Complex_Main "HOL-Library.AList" "HOL-Library.Sublist" "HOL-Library.List_Lexorder"
    "HOL-Library.Char_ord" "HOL-Library.Product_Lexorder"
begin

text \<open>
  Shared ground of the PatchQuest development: the Python values, strings, dictionaries and
  loops the components use, the result type for code that raises, and the interfaces
  (\<^theory_text>\<open>locale\<close>s) that several components implement.

  \<^item> Results. Code that raises returns \<open>'e + 'a\<close>: \<open>Inl e\<close> is the exception, \<open>Inr v\<close> the value.
  \<^item> Dictionaries are association lists in insertion order; \<open>AList.update\<close> keeps the position of
    an existing key and appends a new one, as a Python dict does.
  \<^item> Strings are lists of characters with code points below 256; \<open>is_space\<close> is
    \<open>str.isspace\<close> on them. The texts of files (\<open>Unified\<close>, \<open>Edits\<close>, \<open>Patch_Engine\<close>) are kept as their UTF-8 bytes, and stripping them
    follows the white space of the decoded text.
  \<^item> Floats are exact rationals: the code only compares them and takes minima. NaN and the infinities are outside the model.
\<close>

named_theorems dict_simps \<open>lookups in dictionaries after an update\<close>
named_theorems result_simps \<open>unfolding of computations that may raise\<close>

type_synonym 'v dict = "(string \<times> 'v) list"

section \<open>Python values\<close>

datatype pyval =
    VNone
  | VBool bool
  | VInt int
  | VFloat rat
  | VStr string
  | VList "pyval list"
  | VDict "(string \<times> pyval) list"

text \<open>\<open>bool(v)\<close>: the truth value of a Python object.\<close>

fun truthy :: "pyval \<Rightarrow> bool" where
  "truthy VNone = False"
| "truthy (VBool b) = b"
| "truthy (VInt i) = (i \<noteq> 0)"
| "truthy (VFloat r) = (r \<noteq> 0)"
| "truthy (VStr s) = (s \<noteq> [])"
| "truthy (VList xs) = (xs \<noteq> [])"
| "truthy (VDict d) = (d \<noteq> [])"

text \<open>\<open>isinstance(v, Mapping)\<close> and the like, as partial projections.\<close>

fun as_dict :: "pyval \<Rightarrow> pyval dict option" where
  "as_dict (VDict d) = Some d"
| "as_dict _ = None"

fun as_list :: "pyval \<Rightarrow> pyval list option" where
  "as_list (VList xs) = Some xs"
| "as_list _ = None"

fun as_str :: "pyval \<Rightarrow> string option" where
  "as_str (VStr s) = Some s"
| "as_str _ = None"

text \<open>A number that is not a bool, as the rational it denotes.\<close>

fun as_number :: "pyval \<Rightarrow> rat option" where
  "as_number (VInt i) = Some (of_int i)"
| "as_number (VFloat r) = Some r"
| "as_number _ = None"

text \<open>Python's \<open>==\<close>: numbers and bools compare by value, dictionaries by their entries.\<close>

fun num_of :: "pyval \<Rightarrow> rat option" where
  "num_of (VBool b) = Some (if b then 1 else 0)"
| "num_of (VInt i) = Some (of_int i)"
| "num_of (VFloat r) = Some r"
| "num_of _ = None"

primrec py_eq :: "pyval \<Rightarrow> pyval \<Rightarrow> bool" where
  "py_eq VNone v = (v = VNone)"
| "py_eq (VBool b) v = (num_of v = Some (if b then 1 else 0))"
| "py_eq (VInt i) v = (num_of v = Some (of_int i))"
| "py_eq (VFloat r) v = (num_of v = Some r)"
| "py_eq (VStr a) v = (v = VStr a)"
| "py_eq (VList xs) v =
     (case v of VList ys \<Rightarrow> length xs = length ys \<and> list_all (\<lambda>(eq, y). eq y) (zip (map py_eq xs) ys)
      | _ \<Rightarrow> False)"
| "py_eq (VDict d) v =
     (case v of VDict e \<Rightarrow> length d = length e
        \<and> list_all (\<lambda>(k, eq). case map_of e k of None \<Rightarrow> False | Some y \<Rightarrow> eq y) (map (map_prod id py_eq) d)
      | _ \<Rightarrow> False)"

text \<open>
  \<open>str(v)\<close>: a string is itself; the text of any other object is the parameter \<open>show_val\<close>.
\<close>

definition py_str :: "(pyval \<Rightarrow> string) \<Rightarrow> pyval \<Rightarrow> string" where
  "py_str show_val v = (case v of VStr s \<Rightarrow> s | _ \<Rightarrow> show_val v)"

text \<open>\<open>a or b\<close>.\<close>

definition or_val :: "pyval \<Rightarrow> pyval \<Rightarrow> pyval" where
  "or_val a b = (if truthy a then a else b)"

text \<open>What a \<open>for\<close> loop over the value sees; \<open>None\<close> where Python raises \<open>TypeError\<close>.\<close>

fun py_iter :: "pyval \<Rightarrow> pyval list option" where
  "py_iter (VList xs) = Some xs"
| "py_iter (VStr s) = Some (map (\<lambda>c. VStr [c]) s)"
| "py_iter (VDict d) = Some (map (VStr \<circ> fst) d)"
| "py_iter _ = None"

section \<open>Dictionaries\<close>

text \<open>\<open>d.get(k, default)\<close>.\<close>

definition dget :: "'v dict \<Rightarrow> string \<Rightarrow> 'v \<Rightarrow> 'v" where
  "dget d k v = (case map_of d k of None \<Rightarrow> v | Some w \<Rightarrow> w)"

definition has_key :: "'v dict \<Rightarrow> string \<Rightarrow> bool" where
  "has_key d k = (map_of d k \<noteq> None)"

text \<open>The keys of a dictionary outside an allowed list: \<open>set(d) - allowed\<close>.\<close>

definition extra_keys :: "'v dict \<Rightarrow> string list \<Rightarrow> string list" where
  "extra_keys d allowed = filter (\<lambda>k. k \<notin> set allowed) (map fst d)"

lemma map_of_update [dict_simps]: "map_of (AList.update k v d) = (map_of d)(k \<mapsto> v)"
  by (simp add: update_conv')

lemma dget_update [dict_simps]:
  "dget (AList.update k v d) k' w = (if k' = k then v else dget d k' w)"
  by (simp add: dget_def map_of_update)

lemma has_key_update [dict_simps]: "has_key (AList.update k v d) k' \<longleftrightarrow> k' = k \<or> has_key d k'"
  by (auto simp: has_key_def map_of_update)

lemma has_key_iff: "has_key d k \<longleftrightarrow> k \<in> fst ` set d"
  by (auto simp: has_key_def map_of_eq_None_iff)

section \<open>Results\<close>

fun bind_r :: "'e + 'a \<Rightarrow> ('a \<Rightarrow> 'e + 'b) \<Rightarrow> 'e + 'b" where
  "bind_r (Inl e) f = Inl e"
| "bind_r (Inr x) f = f x"

text \<open>A loop whose body may raise: the first exception ends it.\<close>

fun map_r :: "('a \<Rightarrow> 'e + 'b) \<Rightarrow> 'a list \<Rightarrow> 'e + 'b list" where
  "map_r f [] = Inr []"
| "map_r f (x # xs) =
     (case f x of Inl e \<Rightarrow> Inl e
      | Inr y \<Rightarrow> (case map_r f xs of Inl e \<Rightarrow> Inl e | Inr ys \<Rightarrow> Inr (y # ys)))"

lemma bind_r_Inr [result_simps]: "bind_r m f = Inr y \<longleftrightarrow> (\<exists>x. m = Inr x \<and> f x = Inr y)"
  by (cases m) auto

lemma bind_r_Inl [result_simps]:
  "bind_r m f = Inl e \<longleftrightarrow> m = Inl e \<or> (\<exists>x. m = Inr x \<and> f x = Inl e)"
  by (cases m) auto

lemma map_r_Inr: "map_r f xs = Inr ys \<longleftrightarrow> list_all2 (\<lambda>x y. f x = Inr y) xs ys"
proof (induction xs arbitrary: ys)
  case Nil
  then show ?case by auto
next
  case (Cons x xs)
  show ?case by (cases ys) (auto split: sum.splits simp: Cons.IH [symmetric])
qed

lemma map_r_length: "map_r f xs = Inr ys \<Longrightarrow> length ys = length xs"
  by (auto simp: map_r_Inr dest: list_all2_lengthD)

lemma map_r_all:
  assumes "map_r f xs = Inr ys" and "\<And>x y. f x = Inr y \<Longrightarrow> P y"
  shows "\<forall>y \<in> set ys. P y"
proof
  fix y assume "y \<in> set ys"
  with assms(1) obtain x where "f x = Inr y"
    by (auto simp: map_r_Inr list_all2_conv_all_nth in_set_conv_nth)
  then show "P y" by (rule assms(2))
qed

section \<open>Choosing the best element, first come first kept\<close>

text \<open>
  The loop shape \<open>if best is None or key(x) > key(best): best = x\<close> and the built-in
  \<open>max(xs, key=key)\<close> both keep the first element with the greatest key.
\<close>

fun keep_best :: "('d \<Rightarrow> 'k::linorder) \<Rightarrow> 'd option \<Rightarrow> 'd list \<Rightarrow> 'd option" where
  "keep_best key best [] = best"
| "keep_best key best (x # xs) =
     keep_best key (case best of None \<Rightarrow> Some x | Some b \<Rightarrow> if key x > key b then Some x else Some b) xs"

lemma keep_best_None: "keep_best key best xs = None \<longleftrightarrow> best = None \<and> xs = []"
  by (induction xs arbitrary: best) (auto split: option.split)

text \<open>Starting from \<open>Some b\<close> the loop ends with \<open>b\<close> or an element of the list, no smaller than either.\<close>

lemma keep_best_Some:
  "\<exists>y. keep_best key (Some b) xs = Some y \<and> (y = b \<or> y \<in> set xs) \<and> key b \<le> key y
     \<and> (\<forall>x \<in> set xs. key x \<le> key y)"
proof (induction xs arbitrary: b)
  case Nil
  show ?case by simp
next
  case (Cons x xs)
  define c where "c = (if key x > key b then x else b)"
  obtain y where y: "keep_best key (Some c) xs = Some y" "y = c \<or> y \<in> set xs" "key c \<le> key y"
      "\<forall>x \<in> set xs. key x \<le> key y"
    using Cons.IH [of c] by blast
  have "key b \<le> key c" "key x \<le> key c" by (auto simp: c_def)
  with y(3) have "key b \<le> key y" "key x \<le> key y" by (blast intro: order_trans)+
  moreover have "keep_best key (Some b) (x # xs) = keep_best key (Some c) xs"
    by (simp add: c_def)
  moreover have "c = b \<or> c = x" by (simp add: c_def)
  ultimately show ?case using y by auto
qed

lemma keep_best_start: "keep_best key None (x # xs) = keep_best key (Some x) xs"
  by simp

lemma keep_best_in: "keep_best key None xs = Some y \<Longrightarrow> y \<in> set xs"
  using keep_best_Some [of key "hd xs" "tl xs"] by (cases xs) auto

lemma keep_best_ge: "keep_best key None xs = Some y \<Longrightarrow> x \<in> set xs \<Longrightarrow> key x \<le> key y"
  using keep_best_Some [of key "hd xs" "tl xs"] by (cases xs) auto

text \<open>
  The dictionary loop \<open>if key not in out or measure(value) < measure(out[key]): out[key] = value\<close>:
  per key, the first entry with the least measure is kept.
\<close>

definition keep_least :: "('x \<Rightarrow> 'k::linorder) \<Rightarrow> 'x dict \<Rightarrow> string \<times> 'x \<Rightarrow> 'x dict" where
  "keep_least m out kx =
     (case kx of (k, x) \<Rightarrow>
        (case map_of out k of None \<Rightarrow> AList.update k x out
         | Some y \<Rightarrow> if m x < m y then AList.update k x out else out))"

definition least_of :: "('x \<Rightarrow> 'k::linorder) \<Rightarrow> (string \<times> 'x) list \<Rightarrow> 'x dict \<Rightarrow> bool" where
  "least_of m es out \<longleftrightarrow>
     (\<forall>k. case map_of out k of None \<Rightarrow> k \<notin> fst ` set es
        | Some y \<Rightarrow> (k, y) \<in> set es \<and> (\<forall>x. (k, x) \<in> set es \<longrightarrow> m y \<le> m x))"

lemma least_of_step:
  assumes "least_of m es out"
  shows "least_of m (es @ [(k, x)]) (keep_least m out (k, x))"
  unfolding least_of_def
proof
  fix k'
  show "case map_of (keep_least m out (k, x)) k' of None \<Rightarrow> k' \<notin> fst ` set (es @ [(k, x)])
    | Some y \<Rightarrow> (k', y) \<in> set (es @ [(k, x)]) \<and> (\<forall>z. (k', z) \<in> set (es @ [(k, x)]) \<longrightarrow> m y \<le> m z)"
    using spec [OF assms [unfolded least_of_def], of k']
    by (auto simp: keep_least_def map_of_update image_iff split: option.splits if_splits)
qed

lemma keep_least_fold: "least_of m es (foldl (keep_least m) [] es)"
proof (induction es rule: rev_induct)
  case Nil
  show ?case by (simp add: least_of_def)
next
  case (snoc e es)
  then show ?case using least_of_step [of m es "foldl (keep_least m) [] es" "fst e" "snd e"] by simp
qed

lemma least_of_lookup:
  "least_of m es out \<Longrightarrow> map_of out k = Some y \<Longrightarrow> (k, y) \<in> set es \<and> (\<forall>x. (k, x) \<in> set es \<longrightarrow> m y \<le> m x)"
  unfolding least_of_def by (drule spec [of _ k]) simp

lemma least_of_key: "least_of m es out \<Longrightarrow> has_key out k \<longleftrightarrow> k \<in> fst ` set es"
  unfolding least_of_def has_key_def by (drule spec [of _ k]) (force split: option.splits)

lemma distinct_keep_least: "distinct (map fst out) \<Longrightarrow> distinct (map fst (keep_least m out e))"
  by (auto simp: keep_least_def distinct_update split: prod.split option.split)

lemma distinct_keep_least_fold: "distinct (map fst out) \<Longrightarrow> distinct (map fst (foldl (keep_least m) out es))"
  by (induction es arbitrary: out) (auto simp: distinct_keep_least)

text \<open>\<open>MAX(column)\<close> as a fold, and appending the greatest element to a sorted list.\<close>

lemma fold_max_ge: "r \<in> set rows \<Longrightarrow> f r \<le> fold (\<lambda>r m. max (f r) m) rows (m :: nat)"
proof -
  have ge: "m \<le> fold (\<lambda>r m. max (f r) m) rows (m :: nat)" for m and rows :: "'a list"
    by (induction rows arbitrary: m) (auto intro: order_trans [OF max.cobounded2])
  show "r \<in> set rows \<Longrightarrow> f r \<le> fold (\<lambda>r m. max (f r) m) rows m"
    by (induction rows arbitrary: m) (auto intro: order_trans [OF max.cobounded1 ge])
qed

lemma insort_key_snoc: "f y \<le> f x \<Longrightarrow> insort_key f y (zs @ [x]) = insort_key f y zs @ [x]"
  by (induction zs) auto

lemma sort_key_snoc: "(\<And>y. y \<in> set xs \<Longrightarrow> f y \<le> f x) \<Longrightarrow> sort_key f (xs @ [x]) = sort_key f xs @ [x]"
  by (induction xs) (auto simp: insort_key_snoc)

section \<open>Tables\<close>

text \<open>
  A SQL table is a list of rows; \<open>find_row\<close> is \<open>SELECT ... WHERE key = k\<close> with \<open>fetchone\<close> and
  \<open>update_row\<close> is \<open>UPDATE ... WHERE key = k\<close>.
\<close>

definition find_row :: "('r \<Rightarrow> 'k) \<Rightarrow> 'k \<Rightarrow> 'r list \<Rightarrow> 'r option" where
  "find_row key k rows = find (\<lambda>r. key r = k) rows"

definition update_row :: "('r \<Rightarrow> 'k) \<Rightarrow> 'k \<Rightarrow> ('r \<Rightarrow> 'r) \<Rightarrow> 'r list \<Rightarrow> 'r list" where
  "update_row key k f rows = map (\<lambda>r. if key r = k then f r else r) rows"

definition has_row :: "('r \<Rightarrow> 'k) \<Rightarrow> 'k \<Rightarrow> 'r list \<Rightarrow> bool" where
  "has_row key k rows \<longleftrightarrow> list_ex (\<lambda>r. key r = k) rows"

lemma find_row_Nil [simp]: "find_row key k [] = None"
  by (simp add: find_row_def)

lemma find_row_Cons: "find_row key k (r # rows) = (if key r = k then Some r else find_row key k rows)"
  by (simp add: find_row_def)

lemma find_row_SomeD: "find_row key k rows = Some r \<Longrightarrow> r \<in> set rows \<and> key r = k"
  by (auto simp: find_row_def find_Some_iff)

lemma has_row_iff: "has_row key k rows \<longleftrightarrow> find_row key k rows \<noteq> None"
  by (induction rows) (auto simp: has_row_def find_row_Cons)

lemma find_row_append:
  "find_row key k (xs @ ys) = (case find_row key k xs of None \<Rightarrow> find_row key k ys | Some r \<Rightarrow> Some r)"
  by (induction xs) (auto simp: find_row_Cons)

lemma find_row_distinct: "distinct (map key rows) \<Longrightarrow> r \<in> set rows \<Longrightarrow> find_row key (key r) rows = Some r"
  by (induction rows) (force simp: find_row_Cons)+

lemma find_row_insert:
  "\<not> has_row key (key r) rows \<Longrightarrow>
     find_row key k (rows @ [r]) = (if k = key r then Some r else find_row key k rows)"
  by (auto simp: find_row_append find_row_Cons has_row_iff split: option.split)

lemma distinct_insert: "\<not> has_row key (key r) rows \<Longrightarrow> distinct (map key rows) \<Longrightarrow> distinct (map key (rows @ [r]))"
  by (auto simp: has_row_def list_ex_iff)

lemma find_row_cond:
  "distinct (map key rows) \<Longrightarrow> find (\<lambda>r. key r = k \<and> P r) rows = Option.bind (find_row key k rows) (\<lambda>r. if P r then Some r else None)"
proof (induction rows)
  case Nil
  then show ?case by simp
next
  case (Cons r rows)
  have "find (\<lambda>r. key r = k \<and> P r) rows = None" if "key r = k"
    using Cons.prems that by (auto simp: find_None_iff image_iff)
  with Cons show ?case by (auto simp: find_row_Cons)
qed

lemma ex_row_cond:
  "distinct (map key rows) \<Longrightarrow> list_ex (\<lambda>r. key r = k \<and> P r) rows \<longleftrightarrow> (\<exists>r. find_row key k rows = Some r \<and> P r)"
  unfolding list_ex_iff using find_row_distinct [of key rows] find_row_SomeD [of key k rows] by blast

text \<open>A dictionary of lists built by \<open>out.setdefault(k, []).append(x)\<close> groups the entries by key.\<close>

lemma group_fold:
  "dget (foldl (\<lambda>out (k, x). AList.update k (dget out k [] @ [x]) out) out es) k [] =
     dget out k [] @ map snd (filter (\<lambda>(k', x). k' = k) es)"
  by (induction es arbitrary: out) (auto simp: dget_update)

lemma map_of_map_filter:
  "map_of (List.map_filter (\<lambda>k. map_option (Pair k) (f k)) ks) k = (if k \<in> set ks then f k else None)"
  by (induction ks) (auto simp: List.map_filter_def split: option.splits if_splits)

lemma length_update_row [simp]: "length (update_row key k f rows) = length rows"
  by (simp add: update_row_def)

text \<open>A component whose steps keep an invariant: it holds in every state the component can reach from one where it holds.\<close>

locale state_machine =
  fixes step :: "'d \<Rightarrow> 'd \<Rightarrow> bool" and ok :: "'d \<Rightarrow> bool"
  assumes ok_step: "step d d' \<Longrightarrow> ok d \<Longrightarrow> ok d'"
begin

lemma ok_steps: "step\<^sup>*\<^sup>* d d' \<Longrightarrow> ok d \<Longrightarrow> ok d'"
  by (induction rule: rtranclp_induct) (auto intro: ok_step)

end

text \<open>An update that does not change the key of a row, the contract every \<open>UPDATE\<close> of the code satisfies.\<close>

locale row_update =
  fixes key :: "'r \<Rightarrow> 'k" and upd :: "'a \<Rightarrow> 'r \<Rightarrow> 'r"
  assumes key_kept: "key (upd a r) = key r"
begin

lemma find_update:
  "find_row key k (update_row key k' (upd a) rows) =
     (if k = k' then map_option (upd a) (find_row key k rows) else find_row key k rows)"
  by (induction rows) (auto simp: update_row_def find_row_Cons key_kept)

lemma keys_update: "map key (update_row key k (upd a) rows) = map key rows"
  by (induction rows) (auto simp: update_row_def key_kept)

lemma distinct_update: "distinct (map key rows) \<Longrightarrow> distinct (map key (update_row key k (upd a) rows))"
  by (simp add: keys_update)

lemma mem_update:
  "r \<in> set (update_row key k (upd a) rows) \<Longrightarrow>
     (r \<in> set rows \<and> key r \<noteq> k) \<or> (\<exists>o' \<in> set rows. key o' = k \<and> r = upd a o')"
  by (auto simp: update_row_def)

lemma mem_update_other: "key r \<noteq> k \<Longrightarrow> r \<in> set (update_row key k (upd a) rows) \<longleftrightarrow> r \<in> set rows"
  by (induction rows) (auto simp: update_row_def key_kept)

end

section \<open>Strings\<close>

definition is_space :: "char \<Rightarrow> bool" where
  "is_space c \<longleftrightarrow> (let n = (of_char c :: nat) in n \<in> {9, 10, 11, 12, 13, 28, 29, 30, 31, 32, 133, 160})"

definition is_digit :: "char \<Rightarrow> bool" where
  "is_digit c \<longleftrightarrow> CHR ''0'' \<le> c \<and> c \<le> CHR ''9''"

definition is_lower :: "char \<Rightarrow> bool" where
  "is_lower c \<longleftrightarrow> CHR ''a'' \<le> c \<and> c \<le> CHR ''z''"

definition is_upper :: "char \<Rightarrow> bool" where
  "is_upper c \<longleftrightarrow> CHR ''A'' \<le> c \<and> c \<le> CHR ''Z''"

definition is_alnum :: "char \<Rightarrow> bool" where
  "is_alnum c \<longleftrightarrow> is_lower c \<or> is_upper c \<or> is_digit c"

definition char_upper :: "char \<Rightarrow> char" where
  "char_upper c = (if is_lower c then char_of (of_char c - (32::nat)) else c)"

definition char_lower :: "char \<Rightarrow> char" where
  "char_lower c = (if is_upper c then char_of (of_char c + (32::nat)) else c)"

definition str_upper :: "string \<Rightarrow> string" where
  "str_upper s = map char_upper s"

definition str_lower :: "string \<Rightarrow> string" where
  "str_lower s = map char_lower s"

definition lstrip_by :: "(char \<Rightarrow> bool) \<Rightarrow> string \<Rightarrow> string" where
  "lstrip_by p s = dropWhile p s"

definition rstrip_by :: "(char \<Rightarrow> bool) \<Rightarrow> string \<Rightarrow> string" where
  "rstrip_by p s = rev (dropWhile p (rev s))"

definition str_strip :: "string \<Rightarrow> string" where
  "str_strip s = rstrip_by is_space (lstrip_by is_space s)"

definition str_rstrip :: "string \<Rightarrow> string" where
  "str_rstrip s = rstrip_by is_space s"

definition str_lstrip :: "string \<Rightarrow> string" where
  "str_lstrip s = lstrip_by is_space s"

text \<open>\<open>s.strip("\n")\<close>.\<close>

definition strip_newlines :: "string \<Rightarrow> string" where
  "strip_newlines s = rstrip_by (\<lambda>c. c = CHR 0x0A) (lstrip_by (\<lambda>c. c = CHR 0x0A) s)"

text \<open>\<open>s.split(c)\<close> for a one-character separator, and \<open>sep.join(ws)\<close>.\<close>

fun split_on :: "'a \<Rightarrow> 'a list \<Rightarrow> 'a list list" where
  "split_on c [] = [[]]"
| "split_on c (x # xs) =
     (if x = c then [] # split_on c xs
      else (case split_on c xs of [] \<Rightarrow> [[x]] | w # ws \<Rightarrow> (x # w) # ws))"

fun join :: "'a list \<Rightarrow> 'a list list \<Rightarrow> 'a list" where
  "join s [] = []"
| "join s [w] = w"
| "join s (w # v # ws) = w @ s @ join s (v # ws)"

text \<open>\<open>s.replace(old, new)\<close> and \<open>s.count(sub)\<close>, for a non-empty first argument.\<close>

function str_replace :: "string \<Rightarrow> string \<Rightarrow> string \<Rightarrow> string" where
  "str_replace old new s =
     (case s of [] \<Rightarrow> []
      | c # cs \<Rightarrow> if old \<noteq> [] \<and> prefix old s then new @ str_replace old new (drop (length old) s)
                  else c # str_replace old new cs)"
  by pat_completeness auto
termination
  by (relation "measure (\<lambda>(old, new, s). length s)") auto

function str_count :: "string \<Rightarrow> string \<Rightarrow> nat" where
  "str_count sub s =
     (case s of [] \<Rightarrow> 0
      | c # cs \<Rightarrow> if sub \<noteq> [] \<and> prefix sub s then Suc (str_count sub (drop (length sub) s))
                  else str_count sub cs)"
  by pat_completeness auto
termination
  by (relation "measure (\<lambda>(sub, s). length s)") auto

declare str_replace.simps [simp del] str_count.simps [simp del]

text \<open>\<open>s.partition(c)\<close> for one character: the part before the first \<open>c\<close> and the part after it.\<close>

definition before_char :: "char \<Rightarrow> string \<Rightarrow> string" where
  "before_char c s = takeWhile (\<lambda>x. x \<noteq> c) s"

definition after_char :: "char \<Rightarrow> string \<Rightarrow> string" where
  "after_char c s = tl (dropWhile (\<lambda>x. x \<noteq> c) s)"

text \<open>\<open>os.path.basename\<close>: what follows the last slash.\<close>

definition basename :: "string \<Rightarrow> string" where
  "basename s = last (split_on (CHR ''/'') s)"

lemma split_on_nonempty [simp]: "split_on c s \<noteq> []"
  by (induction s) (auto split: list.splits)

lemma join_Cons: "ws \<noteq> [] \<Longrightarrow> join s (w # ws) = w @ s @ join s ws"
  by (cases ws) auto

lemma join_split_on [simp]: "join [c] (split_on c s) = s"
proof (induction s)
  case Nil
  then show ?case by simp
next
  case (Cons x s)
  obtain w ws where ws: "split_on c s = w # ws" by (metis neq_Nil_conv split_on_nonempty)
  with Cons show ?case by (cases ws) auto
qed

lemma split_on_single: "c \<notin> set w \<Longrightarrow> split_on c w = [w]"
  by (induction w) auto

lemma split_on_append: "c \<notin> set w \<Longrightarrow> split_on c (w @ c # s) = w # split_on c s"
  by (induction w) auto

lemma split_on_join:
  "ws \<noteq> [] \<Longrightarrow> \<forall>w \<in> set ws. c \<notin> set w \<Longrightarrow> split_on c (join [c] ws) = ws"
  by (induction ws rule: induct_list012) (auto simp: split_on_single split_on_append)

lemma split_on_pieces: "w \<in> set (split_on c s) \<Longrightarrow> c \<notin> set w"
  by (induction s arbitrary: w) (auto split: list.splits if_splits)

lemma str_replace_absent: "\<not> sublist old s \<Longrightarrow> str_replace old new s = s"
proof (induction s)
  case Nil
  then show ?case by (simp add: str_replace.simps)
next
  case (Cons c s)
  then have "\<not> prefix old (c # s)" and "\<not> sublist old s"
    by (auto simp: sublist_Cons_right)
  with Cons.IH show ?case by (subst str_replace.simps) simp
qed

lemma str_count_zero: "sub \<noteq> [] \<Longrightarrow> str_count sub s = 0 \<longleftrightarrow> \<not> sublist sub s"
proof (induction s)
  case Nil
  then show ?case by (subst str_count.simps) simp
next
  case (Cons c s)
  then show ?case by (subst str_count.simps) (auto simp: sublist_Cons_right)
qed

end
