(* ===== verification/Effects.thy ===== *)
theory Effects
  imports Prelude
begin

text \<open>
  The side-effect vocabulary of \<open>domain/effects.py\<close>: what an action can change in the world.
  Policies, approvals, commands, workflows and plugins all classify with it.
\<close>

datatype side_effect =
    PURE | READ_ONLY | NETWORK_READ | WORKSPACE_WRITE | REPOSITORY_WRITE
  | EXTERNAL_WRITE | HOST_MUTATION | DESTRUCTIVE | UNKNOWN

fun side_effect_value :: "side_effect \<Rightarrow> string" where
  "side_effect_value PURE = ''PURE''"
| "side_effect_value READ_ONLY = ''READ_ONLY''"
| "side_effect_value NETWORK_READ = ''NETWORK_READ''"
| "side_effect_value WORKSPACE_WRITE = ''WORKSPACE_WRITE''"
| "side_effect_value REPOSITORY_WRITE = ''REPOSITORY_WRITE''"
| "side_effect_value EXTERNAL_WRITE = ''EXTERNAL_WRITE''"
| "side_effect_value HOST_MUTATION = ''HOST_MUTATION''"
| "side_effect_value DESTRUCTIVE = ''DESTRUCTIVE''"
| "side_effect_value UNKNOWN = ''UNKNOWN''"

definition all_side_effects :: "side_effect list" where
  "all_side_effects = [PURE, READ_ONLY, NETWORK_READ, WORKSPACE_WRITE, REPOSITORY_WRITE,
     EXTERNAL_WRITE, HOST_MUTATION, DESTRUCTIVE, UNKNOWN]"

text \<open>The enum constructor \<open>SideEffect(text)\<close>: \<open>None\<close> where Python raises \<open>ValueError\<close>.\<close>

definition side_effect_of :: "string \<Rightarrow> side_effect option" where
  "side_effect_of s = find (\<lambda>e. side_effect_value e = s) all_side_effects"

text \<open>Remembering an approval for a run is offered only for effects that stay inside the sandbox.\<close>

definition GRANTABLE :: "side_effect set" where
  "GRANTABLE = {PURE, READ_ONLY, WORKSPACE_WRITE}"

lemma side_effect_of_value: "side_effect_of (side_effect_value e) = Some e"
  by (cases e) (simp_all add: side_effect_of_def all_side_effects_def)

lemma side_effect_value_inj: "side_effect_value a = side_effect_value b \<Longrightarrow> a = b"
  by (metis option.inject side_effect_of_value)

lemma grantable_effects:
  "e \<in> GRANTABLE \<longleftrightarrow>
     e \<notin> {NETWORK_READ, REPOSITORY_WRITE, EXTERNAL_WRITE, HOST_MUTATION, DESTRUCTIVE, UNKNOWN}"
  by (cases e) (simp_all add: GRANTABLE_def)

end
