(* ===== verification/Fnmatch.thy ===== *)
theory Fnmatch
  imports Prelude
begin

text \<open>
  \<open>fnmatch.fnmatchcase\<close> of the Python standard library, which policy rules match action ids
  with: \<open>*\<close> any text, \<open>?\<close> any character, \<open>[seq]\<close> and \<open>[!seq]\<close> a character in or not in a set.
  A pattern is first cut into tokens, as \<open>fnmatch.translate\<close> does, and then matched against the
  whole text.
\<close>

datatype cls_item = One char | Rng char char

datatype fn_tok = Star | AnyChar | Lit char | Cls bool "cls_item list"

text \<open>The items of a bracket expression: \<open>a-b\<close> is a range, a hyphen at either end stands for itself.\<close>

fun cls_items :: "string \<Rightarrow> cls_item list" where
  "cls_items [] = []"
| "cls_items [a] = [One a]"
| "cls_items [a, b] = [One a, One b]"
| "cls_items (a # b # c # r) =
     (if b = CHR ''-'' then Rng a c # cls_items r else One a # cls_items (b # c # r))"

fun nonempty_item :: "cls_item \<Rightarrow> bool" where
  "nonempty_item (One c) = True"
| "nonempty_item (Rng a b) = (a \<le> b)"

text \<open>Empty ranges are dropped first; a set that then starts with \<open>!\<close> is negated.\<close>

fun negate_items :: "cls_item list \<Rightarrow> fn_tok" where
  "negate_items (One a # r) = (if a = CHR ''!'' then Cls True r else Cls False (One a # r))"
| "negate_items (Rng a b # r) =
     (if a = CHR ''!'' then Cls True (One (CHR ''-'') # One b # r) else Cls False (Rng a b # r))"
| "negate_items [] = Cls False []"

definition cls_tok :: "string \<Rightarrow> fn_tok" where
  "cls_tok body =
     (let items = (case body of c # r \<Rightarrow> if c = CHR ''!'' then One c # cls_items r else cls_items body
                   | [] \<Rightarrow> [])
      in negate_items (filter nonempty_item items))"

text \<open>
  Where the bracket that opened just before \<open>s\<close> closes: a \<open>!\<close> first, and then a \<open>]\<close>, belong to
  the set. \<open>None\<close> when it never closes, and the bracket is then an ordinary character.
\<close>

definition cls_body :: "string \<Rightarrow> string option" where
  "cls_body s =
     (let neg = (if take 1 s = ''!'' then take 1 s else []);
          s1 = drop (length neg) s;
          lead = (if take 1 s1 = '']'' then take 1 s1 else []);
          s2 = drop (length lead) s1;
          mid = takeWhile (\<lambda>c. c \<noteq> CHR '']'') s2
      in if length mid < length s2 then Some (neg @ lead @ mid) else None)"

lemma cls_body_length: "cls_body s = Some b \<Longrightarrow> Suc (length b) \<le> length s"
  by (auto simp: cls_body_def Let_def split: if_splits)

function fn_toks :: "string \<Rightarrow> fn_tok list" where
  "fn_toks [] = []"
| "fn_toks (c # s) =
     (if c = CHR ''*'' then Star # fn_toks s
      else if c = CHR ''?'' then AnyChar # fn_toks s
      else if c = CHR ''['' then
        (case cls_body s of None \<Rightarrow> Lit c # fn_toks s
         | Some b \<Rightarrow> cls_tok b # fn_toks (drop (Suc (length b)) s))
      else Lit c # fn_toks s)"
  by pat_completeness auto
termination
  by (relation "measure length") auto

fun item_has :: "char \<Rightarrow> cls_item \<Rightarrow> bool" where
  "item_has c (One a) = (c = a)"
| "item_has c (Rng a b) = (a \<le> c \<and> c \<le> b)"

fun fn_match :: "fn_tok list \<Rightarrow> string \<Rightarrow> bool" where
  "fn_match [] s = (s = [])"
| "fn_match (Star # ts) [] = fn_match ts []"
| "fn_match (Star # ts) (c # s) = (fn_match ts (c # s) \<or> fn_match (Star # ts) s)"
| "fn_match (AnyChar # ts) s = (case s of [] \<Rightarrow> False | c # r \<Rightarrow> fn_match ts r)"
| "fn_match (Lit a # ts) s = (case s of [] \<Rightarrow> False | c # r \<Rightarrow> c = a \<and> fn_match ts r)"
| "fn_match (Cls neg items # ts) s =
     (case s of [] \<Rightarrow> False | c # r \<Rightarrow> (list_ex (item_has c) items \<noteq> neg) \<and> fn_match ts r)"

definition fnmatchcase :: "string \<Rightarrow> string \<Rightarrow> bool" where
  "fnmatchcase name pat = fn_match (fn_toks pat) name"

text \<open>Facts the policy proofs use: \<open>*\<close> matches everything, a literal prefix followed by \<open>*\<close> is a prefix test.\<close>

definition plain :: "string \<Rightarrow> bool" where
  "plain s \<longleftrightarrow> set s \<inter> set ''*?['' = {}"

lemma fn_match_star [simp]: "fn_match [Star] s"
  by (induction s) auto

lemma fnmatch_any [simp]: "fnmatchcase s ''*''"
  by (simp add: fnmatchcase_def)

lemma fn_toks_plain: "plain p \<Longrightarrow> fn_toks (p @ q) = map Lit p @ fn_toks q"
  by (induction p) (auto simp: plain_def)

lemma fn_match_lits: "fn_match (map Lit p @ ts) s \<longleftrightarrow> (\<exists>r. s = p @ r \<and> fn_match ts r)"
  by (induction p arbitrary: s) (auto split: list.splits)

lemma fnmatch_prefix_star: "plain p \<Longrightarrow> fnmatchcase s (p @ ''*'') \<longleftrightarrow> prefix p s"
  by (auto simp: fnmatchcase_def fn_toks_plain fn_match_lits prefix_def)

lemma fnmatch_plain: "plain p \<Longrightarrow> fnmatchcase s p \<longleftrightarrow> s = p"
  using fn_toks_plain [of p "[]"] fn_match_lits [of p "[]" s] by (simp add: fnmatchcase_def)

end
