(* ===== verification/Policy.thy ===== *)
theory Policy
  imports Effects Fnmatch
begin

text \<open>
  Policy (\<open>domain/policy.py\<close>), its stored form (\<open>persistence/policies.py\<close>), the clamping of run
  settings (\<open>runtime/policy.py\<close>) and the egress vocabulary (\<open>domain/egress.py\<close>,
  \<open>runtime/egress.py\<close>).

  The lemmas show that the strictest applicable answer wins, that adding a policy can only
  tighten a decision, that the built-in floor cannot be lowered, and what a parsed policy
  document guarantees.
\<close>

section \<open>Scopes and results\<close>

datatype scope = SYSTEM | ORGANIZATION | WORKSPACE | REPOSITORY | WORKFLOW | USER

fun scope_value :: "scope \<Rightarrow> nat" where
  "scope_value SYSTEM = 0"
| "scope_value ORGANIZATION = 1"
| "scope_value WORKSPACE = 2"
| "scope_value REPOSITORY = 3"
| "scope_value WORKFLOW = 4"
| "scope_value USER = 5"

fun scope_name :: "scope \<Rightarrow> string" where
  "scope_name SYSTEM = ''SYSTEM''"
| "scope_name ORGANIZATION = ''ORGANIZATION''"
| "scope_name WORKSPACE = ''WORKSPACE''"
| "scope_name REPOSITORY = ''REPOSITORY''"
| "scope_name WORKFLOW = ''WORKFLOW''"
| "scope_name USER = ''USER''"

definition all_scopes :: "scope list" where
  "all_scopes = [SYSTEM, ORGANIZATION, WORKSPACE, REPOSITORY, WORKFLOW, USER]"

lemma scope_value_inj: "scope_value a = scope_value b \<Longrightarrow> a = b"
  by (cases a; cases b) simp_all

instantiation scope :: linorder
begin

definition less_eq_scope :: "scope \<Rightarrow> scope \<Rightarrow> bool" where
  "less_eq_scope a b \<longleftrightarrow> scope_value a \<le> scope_value b"

definition less_scope :: "scope \<Rightarrow> scope \<Rightarrow> bool" where
  "less_scope a b \<longleftrightarrow> scope_value a < scope_value b"

instance
  by standard (auto simp: less_eq_scope_def less_scope_def intro: scope_value_inj)

end

datatype policy_result = ALLOW | ALLOW_WITH_LIMITS | REQUIRE_APPROVAL | DENY

fun result_value :: "policy_result \<Rightarrow> string" where
  "result_value ALLOW = ''ALLOW''"
| "result_value ALLOW_WITH_LIMITS = ''ALLOW_WITH_LIMITS''"
| "result_value REQUIRE_APPROVAL = ''REQUIRE_APPROVAL''"
| "result_value DENY = ''DENY''"

definition result_of :: "string \<Rightarrow> policy_result option" where
  "result_of s = find (\<lambda>r. result_value r = s) [ALLOW, ALLOW_WITH_LIMITS, REQUIRE_APPROVAL, DENY]"

fun STRICTNESS :: "policy_result \<Rightarrow> nat" where
  "STRICTNESS ALLOW = 0"
| "STRICTNESS ALLOW_WITH_LIMITS = 1"
| "STRICTNESS REQUIRE_APPROVAL = 2"
| "STRICTNESS DENY = 3"

lemma STRICTNESS_inj: "STRICTNESS a = STRICTNESS b \<Longrightarrow> a = b"
  by (cases a; cases b) simp_all

text \<open>The results are ordered by strictness, so that \<open>max\<close> is the stricter of two answers.\<close>

instantiation policy_result :: linorder
begin

definition less_eq_policy_result :: "policy_result \<Rightarrow> policy_result \<Rightarrow> bool" where
  "less_eq_policy_result a b \<longleftrightarrow> STRICTNESS a \<le> STRICTNESS b"

definition less_policy_result :: "policy_result \<Rightarrow> policy_result \<Rightarrow> bool" where
  "less_policy_result a b \<longleftrightarrow> STRICTNESS a < STRICTNESS b"

instance
  by standard (auto simp: less_eq_policy_result_def less_policy_result_def intro: STRICTNESS_inj)

end

section \<open>Rules, policies, decisions\<close>

record rule =
  rule_action :: string
  rule_result :: policy_result
  rule_reason :: string
  rule_effects :: "side_effect set"
  rule_constraints :: "rat dict"

record policy =
  pol_name :: string
  pol_scope :: scope
  pol_rules :: "rule list"
  pol_limits :: "rat dict"
  pol_scope_ref :: string
  pol_version :: nat
  is_malformed :: bool

record policy_decision =
  pd_action :: string
  pd_result :: policy_result
  pd_reason_code :: string
  pd_reason :: string
  pd_source_policy :: string
  pd_scope :: scope
  pd_constraints :: "rat dict"
  pd_side_effect :: "side_effect option"

definition rule_matches :: "rule \<Rightarrow> string \<Rightarrow> side_effect option \<Rightarrow> bool" where
  "rule_matches r action effect =
     (if \<not> fnmatchcase action (rule_action r) then False
      else rule_effects r = {} \<or> (case effect of None \<Rightarrow> False | Some e \<Rightarrow> e \<in> rule_effects r))"

definition approval_required :: "policy_decision \<Rightarrow> bool" where
  "approval_required d \<longleftrightarrow> pd_result d = REQUIRE_APPROVAL"

definition allowed :: "policy_decision \<Rightarrow> bool" where
  "allowed d \<longleftrightarrow> pd_result d \<in> {ALLOW, ALLOW_WITH_LIMITS}"

definition mk_rule :: "string \<Rightarrow> policy_result \<Rightarrow> string \<Rightarrow> side_effect set \<Rightarrow> rule" where
  "mk_rule action res reason effects =
     \<lparr>rule_action = action, rule_result = res, rule_reason = reason, rule_effects = effects, rule_constraints = []\<rparr>"

definition need_approval :: "string \<Rightarrow> side_effect \<Rightarrow> rule" where
  "need_approval reason e = mk_rule ''*'' REQUIRE_APPROVAL reason {e}"

definition SYSTEM_FLOOR :: policy where
  "SYSTEM_FLOOR = \<lparr>pol_name = ''system-floor'', pol_scope = SYSTEM,
     pol_rules =
       [mk_rule ''artifact.disclose:secret:*'' DENY ''secrets are never disclosed outside the runtime'' {},
        need_approval ''it changes the repository'' REPOSITORY_WRITE,
        need_approval ''it changes something outside this machine'' EXTERNAL_WRITE,
        need_approval ''it changes the host outside the repository'' HOST_MUTATION,
        need_approval ''it can delete or overwrite data'' DESTRUCTIVE,
        need_approval ''PatchQuest cannot tell what it does'' UNKNOWN],
     pol_limits = [], pol_scope_ref = '''', pol_version = 1, is_malformed = False\<rparr>"

text \<open>\<open>reason\<close> is the text the code formats from the policy's name and the problem.\<close>

definition malformed :: "string \<Rightarrow> scope \<Rightarrow> string \<Rightarrow> string \<Rightarrow> policy" where
  "malformed name sc ref reason = \<lparr>pol_name = name, pol_scope = sc,
     pol_rules = [mk_rule ''*'' DENY reason {}], pol_limits = [], pol_scope_ref = ref, pol_version = 1,
     is_malformed = True\<rparr>"

section \<open>Parsing a policy document\<close>

datatype policy_error =
    NotAMapping | UnknownPolicyFields "string list" | BadPolicyName | UnknownScope | SystemScope
  | BadRuleList | RuleShape nat | RulePattern nat | RuleResult nat | RuleEffects nat
  | NotNumbers nat | BadNumber nat string | ConstraintsMisplaced nat | ConstraintsMissing nat
  | NoScopeRef | BadLimit string | PyTypeError

definition scope_parse :: "pyval \<Rightarrow> policy_error + scope" where
  "scope_parse v =
     (case v of VStr s \<Rightarrow>
        (case find (\<lambda>x. scope_name x = str_upper (str_strip s)) all_scopes of
           None \<Rightarrow> Inl UnknownScope | Some x \<Rightarrow> Inr x)
      | _ \<Rightarrow> Inl UnknownScope)"

text \<open>
  \<open>what\<close> names the mapping in the message: rule \<open>i\<close>, or 0 for the policy's limits. Numbers are exact here. A document that holds NaN, which
  \<open>json.loads\<close> reads, is not covered: \<open>nan < 0\<close> is false, so the code accepts it as a limit.
\<close>

definition numbers :: "pyval \<Rightarrow> nat \<Rightarrow> policy_error + rat dict" where
  "numbers v what =
     (case as_dict v of None \<Rightarrow> Inl (NotNumbers what)
      | Some d \<Rightarrow> map_r (\<lambda>(k, x). case as_number x of None \<Rightarrow> Inl (BadNumber what k)
                          | Some r \<Rightarrow> if r < 0 then Inl (BadNumber what k) else Inr (k, r)) d)"

definition parse_effect :: "nat \<Rightarrow> pyval \<Rightarrow> policy_error + side_effect" where
  "parse_effect i v =
     (case v of VStr s \<Rightarrow> (case side_effect_of (str_upper s) of None \<Rightarrow> Inl (RuleEffects i) | Some e \<Rightarrow> Inr e)
      | _ \<Rightarrow> Inl (RuleEffects i))"

definition parse_effects :: "nat \<Rightarrow> pyval \<Rightarrow> policy_error + side_effect set" where
  "parse_effects i v =
     (case py_iter v of None \<Rightarrow> Inl PyTypeError
      | Some xs \<Rightarrow> (case map_r (parse_effect i) xs of Inl e \<Rightarrow> Inl e | Inr es \<Rightarrow> Inr (set es)))"

definition parse_result :: "nat \<Rightarrow> pyval \<Rightarrow> policy_error + policy_result" where
  "parse_result i v =
     (case v of VStr s \<Rightarrow> (case result_of (str_upper s) of None \<Rightarrow> Inl (RuleResult i) | Some r \<Rightarrow> Inr r)
      | _ \<Rightarrow> Inl (RuleResult i))"

definition parse_rule :: "(pyval \<Rightarrow> string) \<Rightarrow> nat \<times> pyval \<Rightarrow> policy_error + rule" where
  "parse_rule show_val ir =
     (case ir of (i, r) \<Rightarrow>
      (case as_dict r of None \<Rightarrow> Inl (RuleShape i)
      | Some d \<Rightarrow>
        if extra_keys d [''action'', ''result'', ''reason'', ''effects'', ''constraints''] \<noteq> [] then Inl (RuleShape i)
        else (case dget d ''action'' VNone of
          VStr pattern \<Rightarrow>
            if pattern = [] \<or> length pattern > 120 then Inl (RulePattern i)
            else bind_r (parse_result i (dget d ''result'' (VStr ''''))) (\<lambda>res.
                 bind_r (parse_effects i (dget d ''effects'' (VList []))) (\<lambda>effects.
                 bind_r (numbers (dget d ''constraints'' (VDict [])) i) (\<lambda>constraints.
                 if constraints \<noteq> [] \<and> res \<noteq> ALLOW_WITH_LIMITS then Inl (ConstraintsMisplaced i)
                 else if res = ALLOW_WITH_LIMITS \<and> constraints = [] then Inl (ConstraintsMissing i)
                 else Inr \<lparr>rule_action = pattern, rule_result = res,
                           rule_reason = take 200 (py_str show_val (dget d ''reason'' (VStr ''''))),
                           rule_effects = effects, rule_constraints = constraints\<rparr>)))
        | _ \<Rightarrow> Inl (RulePattern i))))"

definition parse_policy :: "(pyval \<Rightarrow> string) \<Rightarrow> pyval \<Rightarrow> string \<Rightarrow> nat \<Rightarrow> policy_error + policy" where
  "parse_policy show_val doc ref version =
     (case as_dict doc of None \<Rightarrow> Inl NotAMapping
      | Some d \<Rightarrow>
        if extra_keys d [''name'', ''scope'', ''rules'', ''limits''] \<noteq> []
        then Inl (UnknownPolicyFields (sort (extra_keys d [''name'', ''scope'', ''rules'', ''limits''])))
        else (case dget d ''name'' VNone of
          VStr name \<Rightarrow>
            if str_strip name = [] \<or> length name > 80 then Inl BadPolicyName
            else bind_r (scope_parse (dget d ''scope'' (VStr ''''))) (\<lambda>sc.
                 if sc = SYSTEM then Inl SystemScope
                 else (case dget d ''rules'' (VList []) of
                   VList rules_in \<Rightarrow>
                     if length rules_in > 200 then Inl BadRuleList
                     else bind_r (map_r (parse_rule show_val) (enumerate 1 rules_in)) (\<lambda>rules.
                          bind_r (numbers (dget d ''limits'' (VDict [])) 0) (\<lambda>limits.
                          Inr \<lparr>pol_name = str_strip name, pol_scope = sc, pol_rules = rules,
                               pol_limits = limits, pol_scope_ref = ref, pol_version = version,
                               is_malformed = False\<rparr>))
                   | _ \<Rightarrow> Inl BadRuleList))
        | _ \<Rightarrow> Inl BadPolicyName))"

section \<open>Deciding\<close>

definition reason_code :: "policy_result \<Rightarrow> string" where
  "reason_code r = (case r of DENY \<Rightarrow> ''POLICY_DENY'' | REQUIRE_APPROVAL \<Rightarrow> ''APPROVAL_REQUIRED''
     | ALLOW_WITH_LIMITS \<Rightarrow> ''LIMITED'' | ALLOW \<Rightarrow> ''POLICY_ALLOW'')"

text \<open>The first rule of a policy that matches speaks for it.\<close>

definition policy_rule :: "policy \<Rightarrow> string \<Rightarrow> side_effect option \<Rightarrow> rule option" where
  "policy_rule p action effect = find (\<lambda>r. rule_matches r action effect) (pol_rules p)"

definition rule_decision :: "string \<Rightarrow> side_effect option \<Rightarrow> policy \<Rightarrow> rule \<Rightarrow> policy_decision" where
  "rule_decision action effect p r = \<lparr>pd_action = action, pd_result = rule_result r,
     pd_reason_code = (if is_malformed p then ''POLICY_MALFORMED'' else reason_code (rule_result r)),
     pd_reason = rule_reason r, pd_source_policy = pol_name p, pd_scope = pol_scope p,
     pd_constraints = [], pd_side_effect = effect\<rparr>"

definition merge_limit :: "rat dict \<Rightarrow> string \<times> rat \<Rightarrow> rat dict" where
  "merge_limit limits kv =
     (case kv of (k, v) \<Rightarrow> AList.update k (min v (dget limits k v)) limits)"

text \<open>The loop of \<open>evaluate\<close> over the policies, with the best decision and the merged limits so far.\<close>

fun eval_loop :: "policy list \<Rightarrow> string \<Rightarrow> side_effect option \<Rightarrow> policy_decision option \<Rightarrow> rat dict
    \<Rightarrow> policy_decision option \<times> rat dict" where
  "eval_loop [] action effect best limits = (best, limits)"
| "eval_loop (p # ps) action effect best limits =
     (case policy_rule p action effect of None \<Rightarrow> eval_loop ps action effect best limits
      | Some r \<Rightarrow>
        let limits' = (if rule_result r = ALLOW_WITH_LIMITS then foldl merge_limit limits (rule_constraints r) else limits);
            d = rule_decision action effect p r;
            best' = (case best of None \<Rightarrow> Some d
                     | Some b \<Rightarrow> if STRICTNESS (pd_result d) > STRICTNESS (pd_result b) then Some d else Some b)
        in eval_loop ps action effect best' limits')"

definition evaluate_policy :: "policy list \<Rightarrow> string \<Rightarrow> side_effect option \<Rightarrow> policy_decision" where
  "evaluate_policy policies action effect =
     (case eval_loop (SYSTEM_FLOOR # sort_key pol_scope policies) action effect None [] of
        (None, limits) \<Rightarrow> \<lparr>pd_action = action, pd_result = ALLOW, pd_reason_code = ''NO_RESTRICTION'',
            pd_reason = ''no policy restricts this action'', pd_source_policy = pol_name SYSTEM_FLOOR,
            pd_scope = SYSTEM, pd_constraints = [], pd_side_effect = effect\<rparr>
      | (Some best, limits) \<Rightarrow>
          if limits \<noteq> [] \<and> pd_result best = ALLOW_WITH_LIMITS then best\<lparr>pd_constraints := limits\<rparr> else best)"

text \<open>\<open>max(decisions, key=...)\<close> raises \<open>ValueError\<close> on no decisions at all: \<open>None\<close>.\<close>

definition strictest :: "policy_decision list \<Rightarrow> policy_decision option" where
  "strictest ds = keep_best (\<lambda>d. STRICTNESS (pd_result d)) None ds"

section \<open>Ceilings on settings\<close>

definition cap_limit :: "policy \<Rightarrow> (rat \<times> policy) dict \<Rightarrow> string \<times> rat \<Rightarrow> (rat \<times> policy) dict" where
  "cap_limit p out kv =
     (case kv of (k, v) \<Rightarrow>
        (case map_of out k of None \<Rightarrow> AList.update k (v, p) out
         | Some (w, q) \<Rightarrow> if v < w then AList.update k (v, p) out else out))"

definition effective_limits :: "policy list \<Rightarrow> (rat \<times> policy) dict" where
  "effective_limits policies =
     foldl (\<lambda>out p. foldl (cap_limit p) out (pol_limits p)) [] (sort_key pol_scope policies)"

definition ZERO_IS_UNLIMITED :: "string list" where
  "ZERO_IS_UNLIMITED = [''max_total_tokens'', ''max_retries'', ''max_wall_seconds'', ''max_commands'']"

text \<open>
  \<open>clamp_overrides\<close>: \<open>base\<close> gives the configured default of an agent setting
  (\<open>getattr(base, name)\<close>); \<open>int(cap)\<close> truncates towards zero, which for a non-negative ceiling is the
  floor. \<open>None\<close> stands for no overrides.
\<close>

definition clamp_one :: "(string \<Rightarrow> int) \<Rightarrow> int dict \<Rightarrow> string \<times> rat \<times> policy \<Rightarrow> int dict" where
  "clamp_one base out kc =
     (case kc of (key, cap, _) \<Rightarrow>
        let name = after_char (CHR ''.'') key; wanted = dget out key (base name)
        in if name \<in> set ZERO_IS_UNLIMITED \<and> wanted = 0 then AList.update key \<lfloor>cap\<rfloor> out
           else if of_int wanted > cap then AList.update key \<lfloor>cap\<rfloor> out
           else out)"

definition clamp_overrides :: "(string \<Rightarrow> int) \<Rightarrow> int dict option \<Rightarrow> policy list \<Rightarrow> int dict option" where
  "clamp_overrides base overrides chain =
     (let caps = effective_limits chain in
      if caps = [] then overrides
      else let out = foldl (clamp_one base) (case overrides of None \<Rightarrow> [] | Some o' \<Rightarrow> o') caps
           in if out = [] then None else Some out)"

section \<open>Data leaving the runtime\<close>

definition DATA_CLASSES :: "string list" where
  "DATA_CLASSES = [''metadata'', ''logs'', ''diff'', ''source_code'', ''test_output'', ''model_io'',
     ''trajectory'', ''artifact'', ''secret'']"

definition DESTINATION_KINDS :: "string list" where
  "DESTINATION_KINDS = [''model_provider'', ''connector'', ''portable_bundle'', ''external_api'']"

definition NETWORK_READ_PREFIX :: string where
  "NETWORK_READ_PREFIX = ''network.read.domain:''"

definition DISCLOSE_PREFIX :: string where
  "DISCLOSE_PREFIX = ''artifact.disclose:''"

datatype egress_error = UnknownDataClass string | UnknownDestination string

text \<open>The destination name is \<open>None\<close> or a string; the empty string counts as no name.\<close>

definition disclosure_actions :: "string \<Rightarrow> string \<Rightarrow> string option \<Rightarrow> egress_error + string list" where
  "disclosure_actions data_class kind name =
     (if data_class \<notin> set DATA_CLASSES then Inl (UnknownDataClass data_class)
      else if kind \<notin> set DESTINATION_KINDS then Inl (UnknownDestination kind)
      else Inr ((DISCLOSE_PREFIX @ data_class @ '':'' @ kind)
        # (case name of None \<Rightarrow> []
           | Some n \<Rightarrow> if n \<noteq> [] \<and> n \<noteq> kind then [DISCLOSE_PREFIX @ data_class @ '':'' @ str_lower n] else [])))"

text \<open>\<open>runtime/egress.py\<close>: the strictest answer over every class being disclosed.\<close>

definition unknown_disclosure :: "string \<Rightarrow> string \<Rightarrow> string \<Rightarrow> policy_decision" where
  "unknown_disclosure data_class kind reason = \<lparr>pd_action = DISCLOSE_PREFIX @ data_class @ '':'' @ kind,
     pd_result = DENY, pd_reason_code = ''UNKNOWN_DISCLOSURE'', pd_reason = reason,
     pd_source_policy = ''system-floor'', pd_scope = SYSTEM, pd_constraints = [], pd_side_effect = None\<rparr>"

definition nothing_disclosed :: "string \<Rightarrow> policy_decision" where
  "nothing_disclosed kind = \<lparr>pd_action = DISCLOSE_PREFIX @ ''-:'' @ kind,
     pd_result = ALLOW, pd_reason_code = ''NOTHING_DISCLOSED'', pd_reason = ''no data leaves'',
     pd_source_policy = ''system-floor'', pd_scope = SYSTEM, pd_constraints = [], pd_side_effect = None\<rparr>"

text \<open>
  The loop of \<open>decide_disclosure\<close>: an unknown class or destination ends it with a refusal, whose
  text \<open>message\<close> renders from the error.
\<close>

fun disclosure_loop :: "(egress_error \<Rightarrow> string) \<Rightarrow> policy list \<Rightarrow> string list \<Rightarrow> string \<Rightarrow> string option
    \<Rightarrow> policy_decision list \<Rightarrow> policy_decision" where
  "disclosure_loop message chain [] kind name ds =
     (case strictest ds of None \<Rightarrow> nothing_disclosed kind | Some d \<Rightarrow> d)"
| "disclosure_loop message chain (c # cs) kind name ds =
     (case disclosure_actions c kind name of
        Inl e \<Rightarrow> unknown_disclosure c kind (message e)
      | Inr actions \<Rightarrow>
          disclosure_loop message chain cs kind name (ds @ map (\<lambda>a. evaluate_policy chain a None) actions))"

definition decide_disclosure ::
  "(egress_error \<Rightarrow> string) \<Rightarrow> policy list \<Rightarrow> string list \<Rightarrow> string \<Rightarrow> string option \<Rightarrow> policy_decision" where
  "decide_disclosure message chain data_classes kind name = disclosure_loop message chain data_classes kind name []"

section \<open>The strictest answer wins\<close>

text \<open>The decisions of the policies that have something to say, in the order of the list.\<close>

definition answers :: "policy list \<Rightarrow> string \<Rightarrow> side_effect option \<Rightarrow> policy_decision list" where
  "answers ps action effect =
     List.map_filter (\<lambda>p. map_option (rule_decision action effect p) (policy_rule p action effect)) ps"

text \<open>What the documentation promises: the strictest of the floor's and the policies' answers.\<close>

definition strictest_answer :: "policy list \<Rightarrow> string \<Rightarrow> side_effect option \<Rightarrow> policy_result" where
  "strictest_answer ps action effect =
     Max (insert ALLOW {rule_result r | p r. p \<in> insert SYSTEM_FLOOR (set ps) \<and> policy_rule p action effect = Some r})"

lemma ALLOW_least [simp]: "ALLOW \<le> r"
  by (simp add: less_eq_policy_result_def)

lemma DENY_greatest [simp]: "r \<le> DENY"
  by (cases r) (simp_all add: less_eq_policy_result_def)

lemma answers_Cons:
  "answers (p # ps) action effect =
     (case policy_rule p action effect of None \<Rightarrow> answers ps action effect
      | Some r \<Rightarrow> rule_decision action effect p r # answers ps action effect)"
  by (simp add: answers_def List.map_filter_def split: option.split)

lemma set_answers:
  "set (answers ps action effect) =
     {rule_decision action effect p r | p r. p \<in> set ps \<and> policy_rule p action effect = Some r}"
proof (induction ps)
  case Nil
  show ?case by (simp add: answers_def List.map_filter_def)
next
  case (Cons p ps)
  show ?case by (cases "policy_rule p action effect") (auto simp: answers_Cons Cons.IH)
qed

lemma eval_loop_best:
  "fst (eval_loop ps action effect best limits) =
     keep_best (\<lambda>d. STRICTNESS (pd_result d)) best (answers ps action effect)"
  by (induction ps arbitrary: best limits)
     (simp_all add: answers_Cons Let_def answers_def List.map_filter_def split: option.split)

lemma pd_result_rule_decision [simp]: "pd_result (rule_decision a e p r) = rule_result r"
  by (simp add: rule_decision_def)

lemma finite_answers:
  "finite {rule_result r | p r. p \<in> insert SYSTEM_FLOOR (set ps) \<and> policy_rule p action effect = Some r}"
proof -
  have "{rule_result r | p r. p \<in> insert SYSTEM_FLOOR (set ps) \<and> policy_rule p action effect = Some r}
      = pd_result ` set (answers (SYSTEM_FLOOR # ps) action effect)"
    by (auto simp: set_answers image_def) force+
  then show ?thesis by simp
qed

lemma strictest_answer_ge:
  "p \<in> insert SYSTEM_FLOOR (set ps) \<Longrightarrow> policy_rule p action effect = Some r
     \<Longrightarrow> rule_result r \<le> strictest_answer ps action effect"
  unfolding strictest_answer_def by (rule Max_ge) (use finite_answers in auto)

lemma evaluate_best:
  "pd_result (evaluate_policy ps action effect) =
     (case keep_best (\<lambda>d. STRICTNESS (pd_result d)) None
             (answers (SYSTEM_FLOOR # sort_key pol_scope ps) action effect) of
        None \<Rightarrow> ALLOW | Some b \<Rightarrow> pd_result b)"
  using eval_loop_best [of "SYSTEM_FLOOR # sort_key pol_scope ps" action effect None "[]"]
  unfolding evaluate_policy_def
  by (cases "eval_loop (SYSTEM_FLOOR # sort_key pol_scope ps) action effect None []")
     (auto split: option.split)

lemma evaluate_is_strictest:
  "pd_result (evaluate_policy ps action effect) = strictest_answer ps action effect"
proof (cases "keep_best (\<lambda>d. STRICTNESS (pd_result d)) None
    (answers (SYSTEM_FLOOR # sort_key pol_scope ps) action effect)")
  case None
  then have "set (answers (SYSTEM_FLOOR # sort_key pol_scope ps) action effect) = {}"
    by (simp add: keep_best_None)
  then have "{rule_result r | p r. p \<in> insert SYSTEM_FLOOR (set ps) \<and> policy_rule p action effect = Some r} = {}"
    by (auto simp: set_answers)
  then have "strictest_answer ps action effect = ALLOW" unfolding strictest_answer_def by (simp only: Max_singleton)
  with None show ?thesis by (simp add: evaluate_best)
next
  case (Some b)
  then obtain p r where pr: "p \<in> insert SYSTEM_FLOOR (set ps)" "policy_rule p action effect = Some r"
      "pd_result b = rule_result r"
    using keep_best_in by (fastforce simp: set_answers)
  have "strictest_answer ps action effect \<le> pd_result b"
    unfolding strictest_answer_def
  proof (rule Max.boundedI)
    fix x assume "x \<in> insert ALLOW
      {rule_result r | p r. p \<in> insert SYSTEM_FLOOR (set ps) \<and> policy_rule p action effect = Some r}"
    then consider "x = ALLOW" | q s where "q \<in> insert SYSTEM_FLOOR (set ps)"
        "policy_rule q action effect = Some s" "x = rule_result s" by auto
    then show "x \<le> pd_result b"
    proof cases
      case 2
      then have "rule_decision action effect q s
          \<in> set (answers (SYSTEM_FLOOR # sort_key pol_scope ps) action effect)"
        by (auto simp: set_answers)
      with keep_best_ge [OF Some] 2 show ?thesis by (fastforce simp: less_eq_policy_result_def)
    qed simp
  qed (use finite_answers in auto)
  moreover have "pd_result b \<le> strictest_answer ps action effect"
    using strictest_answer_ge [OF pr(1,2)] pr(3) by simp
  ultimately show ?thesis using Some by (simp add: evaluate_best)
qed


section \<open>Consequences for every policy\<close>

lemma strictest_answer_le:
  assumes "\<And>p r. p \<in> insert SYSTEM_FLOOR (set ps) \<Longrightarrow> policy_rule p action effect = Some r \<Longrightarrow> rule_result r \<le> x"
  shows "strictest_answer ps action effect \<le> x"
  unfolding strictest_answer_def using assms finite_answers by (intro Max.boundedI) auto

lemma strictest_answer_mono:
  "set ps \<subseteq> set qs \<Longrightarrow> strictest_answer ps action effect \<le> strictest_answer qs action effect"
  by (rule strictest_answer_le) (blast intro: strictest_answer_ge)

lemma policy_rule_star:
  "pol_rules p = [mk_rule ''*'' res reason {}] \<Longrightarrow>
     policy_rule p action effect = Some (mk_rule ''*'' res reason {})"
  by (simp add: policy_rule_def rule_matches_def mk_rule_def fnmatch_any)

lemma malformed_rule:
  "policy_rule (malformed name sc ref reason) action effect = Some (mk_rule ''*'' DENY reason {})"
  by (rule policy_rule_star) (simp add: malformed_def)

lemma floor_discloses_no_secret:
  "prefix ''artifact.disclose:secret:'' action \<Longrightarrow>
     \<exists>r. policy_rule SYSTEM_FLOOR action effect = Some r \<and> rule_result r = DENY"
  using fnmatch_prefix_star [of "''artifact.disclose:secret:''" action]
  by (simp add: policy_rule_def SYSTEM_FLOOR_def rule_matches_def mk_rule_def plain_def)

lemma floor_stops_writes:
  assumes "effect \<in> {REPOSITORY_WRITE, EXTERNAL_WRITE, HOST_MUTATION, DESTRUCTIVE, UNKNOWN}"
  shows "\<exists>r. policy_rule SYSTEM_FLOOR action (Some effect) = Some r \<and> REQUIRE_APPROVAL \<le> rule_result r"
  using assms
  by (auto simp: policy_rule_def SYSTEM_FLOOR_def rule_matches_def mk_rule_def need_approval_def
      less_eq_policy_result_def)

lemma allowed_iff: "allowed d \<longleftrightarrow> \<not> REQUIRE_APPROVAL \<le> pd_result d"
  by (cases "pd_result d") (auto simp: allowed_def less_eq_policy_result_def)

text \<open>
  C11: For every chain of policies, action and effect, the result of \<open>evaluate\<close> is the strictest of the
  answers given by the built-in floor and by every policy of the chain (each policy answers with its
  first matching rule), and \<open>ALLOW\<close> when none of them says anything.
\<close>

theorem evaluate_policy_strictest:
  "pd_result (evaluate_policy policies action effect) = strictest_answer policies action effect"
  by (rule evaluate_is_strictest)

text \<open>
  A narrower layer can only tighten: with more policies attached (in any order), the decision for the
  same action and effect is at least as strict.
\<close>

theorem policy_only_tightens:
  assumes "set policies \<subseteq> set further"
  shows "pd_result (evaluate_policy policies action effect) \<le> pd_result (evaluate_policy further action effect)"
  using strictest_answer_mono [OF assms] by (simp add: evaluate_is_strictest)

definition allow_all :: policy where
  "allow_all = \<lparr>pol_name = ''open'', pol_scope = USER, pol_rules = [mk_rule ''*'' ALLOW '''' {}],
     pol_limits = [(''agent.max_steps'', 50)], pol_scope_ref = ''u'', pol_version = 1, is_malformed = False\<rparr>"

theorem policy_only_tightens_witness:
  "set [allow_all] \<subseteq> set [malformed ''m'' WORKSPACE ''w'' ''bad'', allow_all] \<and>
   pd_result (evaluate_policy [allow_all] ''x'' None)
     \<le> pd_result (evaluate_policy [malformed ''m'' WORKSPACE ''w'' ''bad'', allow_all] ''x'' None)"
  using policy_only_tightens [of "[allow_all]" "[malformed ''m'' WORKSPACE ''w'' ''bad'', allow_all]" "''x''" None] by simp

text \<open>
  C4: The built-in floor cannot be lowered by any policy: an action whose effect is a repository, external or
  host write, destructive or unknown is never plainly allowed.
\<close>

theorem floor_cannot_be_lowered:
  assumes "effect \<in> {REPOSITORY_WRITE, EXTERNAL_WRITE, HOST_MUTATION, DESTRUCTIVE, UNKNOWN}"
  shows "\<not> allowed (evaluate_policy policies action (Some effect))"
proof -
  obtain r where r: "policy_rule SYSTEM_FLOOR action (Some effect) = Some r" "REQUIRE_APPROVAL \<le> rule_result r"
    using floor_stops_writes [OF assms] by blast
  then have "REQUIRE_APPROVAL \<le> strictest_answer policies action (Some effect)"
    using strictest_answer_ge by (blast intro: order_trans)
  then show ?thesis by (simp add: allowed_iff evaluate_is_strictest)
qed

theorem floor_cannot_be_lowered_witness:
  "DESTRUCTIVE \<in> {REPOSITORY_WRITE, EXTERNAL_WRITE, HOST_MUTATION, DESTRUCTIVE, UNKNOWN} \<and>
   \<not> allowed (evaluate_policy [allow_all] ''repo.clean'' (Some DESTRUCTIVE))"
  using floor_cannot_be_lowered [of DESTRUCTIVE "[allow_all]" "''repo.clean''"] by simp

text \<open>A policy that could not be parsed refuses everything.\<close>

lemma malformed_policy_denies:
  "malformed name sc ref reason \<in> set policies \<Longrightarrow> pd_result (evaluate_policy policies action effect) = DENY"
  using strictest_answer_ge [OF _ malformed_rule, of name sc ref reason policies action effect]
  by (auto simp: evaluate_is_strictest mk_rule_def intro: antisym)

section \<open>Limits are merged by taking the smallest\<close>

lemma merge_limit_keep_least: "merge_limit = keep_least id"
proof (intro ext)
  fix out :: "rat dict" and kv :: "string \<times> rat"
  obtain k v where [simp]: "kv = (k, v)" by (cases kv)
  show "merge_limit out kv = keep_least id out kv"
  proof (cases "map_of out k")
    case None
    then show ?thesis by (simp add: merge_limit_def keep_least_def dget_def)
  next
    case (Some w)
    have "AList.update k w out = out" using Some by (induction out) (auto split: if_splits)
    with Some show ?thesis by (auto simp: merge_limit_def keep_least_def dget_def min_def)
  qed
qed

lemma cap_limit_keep_least: "cap_limit p out (k, v) = keep_least fst out (k, (v, p))"
  by (simp add: cap_limit_def keep_least_def split: option.split prod.split)

text \<open>Every ceiling any policy sets, in the order of the loop.\<close>

definition limit_entries :: "policy list \<Rightarrow> (string \<times> rat \<times> policy) list" where
  "limit_entries ps = concat (map (\<lambda>p. map (\<lambda>(k, v). (k, v, p)) (pol_limits p)) ps)"

lemma cap_fold: "foldl (cap_limit p) out kvs = foldl (keep_least fst) out (map (\<lambda>(k, v). (k, v, p)) kvs)"
  by (induction kvs arbitrary: out) (auto simp: cap_limit_keep_least)

lemma effective_limits_fold:
  "effective_limits ps = foldl (keep_least fst) [] (limit_entries (sort_key pol_scope ps))"
proof -
  have "foldl (\<lambda>out p. foldl (cap_limit p) out (pol_limits p)) o' ps'
      = foldl (keep_least fst) o' (limit_entries ps')" for o' ps'
    by (induction ps' arbitrary: o') (auto simp: limit_entries_def cap_fold)
  then show ?thesis by (simp add: effective_limits_def)
qed

lemma limit_entries_iff: "(k, v, p) \<in> set (limit_entries ps) \<longleftrightarrow> p \<in> set ps \<and> (k, v) \<in> set (pol_limits p)"
  by (auto simp: limit_entries_def)

lemmas effective_least = keep_least_fold [of fst "limit_entries (sort_key pol_scope ps)" for ps,
  folded effective_limits_fold]

lemma effective_limit_min:
  assumes "map_of (effective_limits ps) k = Some (v, p)"
  shows "p \<in> set ps" "(k, v) \<in> set (pol_limits p)" "q \<in> set ps \<Longrightarrow> (k, w) \<in> set (pol_limits q) \<Longrightarrow> v \<le> w"
  using least_of_lookup [OF effective_least assms] by (fastforce simp: limit_entries_iff)+

lemma distinct_effective: "distinct (map fst (effective_limits ps))"
  by (simp add: effective_limits_fold distinct_keep_least_fold)

lemma limit_entries_keys: "fst ` set (limit_entries ps) = (\<Union>p \<in> set ps. fst ` set (pol_limits p))"
  unfolding limit_entries_def by (induction ps) (auto simp: image_Un image_image split_beta)

lemma has_effective_limit:
  "has_key (effective_limits ps) k \<longleftrightarrow> (\<exists>p \<in> set ps. k \<in> fst ` set (pol_limits p))"
  unfolding least_of_key [OF effective_least] limit_entries_keys by simp

text \<open>
  A setting has an effective ceiling exactly when some policy of the chain sets one; the ceiling is set by
  a policy of the chain and no policy sets a smaller one.
\<close>

theorem effective_limits_smallest:
  "(has_key (effective_limits policies) key \<longleftrightarrow> (\<exists>p \<in> set policies. has_key (pol_limits p) key)) \<and>
   (\<forall>v p. map_of (effective_limits policies) key = Some (v, p) \<longrightarrow>
      p \<in> set policies \<and> (key, v) \<in> set (pol_limits p) \<and>
      (\<forall>q w. q \<in> set policies \<and> (key, w) \<in> set (pol_limits q) \<longrightarrow> v \<le> w))"
proof (intro conjI allI impI)
  show "has_key (effective_limits policies) key \<longleftrightarrow> (\<exists>p \<in> set policies. has_key (pol_limits p) key)"
    unfolding has_effective_limit by (simp add: has_key_iff)
qed (use effective_limit_min in blast)+

theorem effective_limits_smallest_witness:
  "map_of (effective_limits [allow_all, allow_all\<lparr>pol_limits := [(''agent.max_steps'', 20)]\<rparr>]) ''agent.max_steps''
     = Some (20, allow_all\<lparr>pol_limits := [(''agent.max_steps'', 20)]\<rparr>) \<and>
   (20 :: rat) \<le> 50"
proof -
  let ?ps = "[allow_all, allow_all\<lparr>pol_limits := [(''agent.max_steps'', 20)]\<rparr>]"
  have m: "map_of (effective_limits ?ps) ''agent.max_steps'' = Some (20, allow_all\<lparr>pol_limits := [(''agent.max_steps'', 20)]\<rparr>)"
    by (simp add: effective_limits_def cap_limit_def allow_all_def)
  have "(''agent.max_steps'', 50) \<in> set (pol_limits allow_all)" by (simp add: allow_all_def)
  then have "(20 :: rat) \<le> 50"
    using conjunct2 [OF effective_limits_smallest [of ?ps "''agent.max_steps''"]] m by force
  with m show ?thesis by blast
qed

section \<open>A run never gets more than a ceiling\<close>

text \<open>The value a run ends up with: its override, or the configured default.\<close>

definition setting :: "(string \<Rightarrow> int) \<Rightarrow> int dict option \<Rightarrow> string \<Rightarrow> int" where
  "setting base overrides key =
     dget (case overrides of None \<Rightarrow> [] | Some o' \<Rightarrow> o') key (base (after_char (CHR ''.'') key))"

definition no_limit :: "string \<Rightarrow> int \<Rightarrow> bool" where
  "no_limit key w \<longleftrightarrow> after_char (CHR ''.'') key \<in> set ZERO_IS_UNLIMITED \<and> w = 0"

definition clamped :: "string \<Rightarrow> rat \<Rightarrow> int \<Rightarrow> int" where
  "clamped key cap w = (if no_limit key w \<or> of_int w > cap then \<lfloor>cap\<rfloor> else w)"

lemma clamp_one_lookup:
  "dget (clamp_one base out (key, cap, p)) k (base (after_char (CHR ''.'') k)) =
     (if k = key then clamped key cap (dget out k (base (after_char (CHR ''.'') k)))
      else dget out k (base (after_char (CHR ''.'') k)))"
  by (auto simp: clamp_one_def clamped_def no_limit_def Let_def dget_update)

lemma clamp_fold_lookup:
  "distinct (map fst caps) \<Longrightarrow>
   dget (foldl (clamp_one base) out caps) k (base (after_char (CHR ''.'') k)) =
     (case map_of caps k of None \<Rightarrow> dget out k (base (after_char (CHR ''.'') k))
      | Some (cap, p) \<Rightarrow> clamped k cap (dget out k (base (after_char (CHR ''.'') k))))"
proof (induction caps arbitrary: out)
  case Nil
  then show ?case by simp
next
  case (Cons c caps)
  obtain key cap p where c: "c = (key, cap, p)" by (cases c) auto
  with Cons.prems have "map_of caps key = None" by (auto simp: map_of_eq_None_iff)
  with Cons c show ?case by (auto simp: clamp_one_lookup split: option.splits)
qed

lemma clamp_overrides_setting:
  "setting base (clamp_overrides base overrides chain) key =
     (case map_of (effective_limits chain) key of None \<Rightarrow> setting base overrides key
      | Some (cap, p) \<Rightarrow> clamped key cap (setting base overrides key))"
proof (cases "effective_limits chain = []")
  case True
  then show ?thesis by (simp add: clamp_overrides_def)
next
  case False
  let ?out = "foldl (clamp_one base) (case overrides of None \<Rightarrow> [] | Some o' \<Rightarrow> o') (effective_limits chain)"
  have "setting base (clamp_overrides base overrides chain) key = dget ?out key (base (after_char (CHR ''.'') key))"
    using False by (auto simp: clamp_overrides_def setting_def Let_def)
  then show ?thesis using clamp_fold_lookup [OF distinct_effective [of chain]] by (simp add: setting_def split: option.split)
qed

text \<open>
  A ceiling of at least one is enforced by \<open>clamp_overrides\<close>: whatever the run asked for and whatever the
  configured default is, the setting the run ends up with does not exceed the smallest ceiling of the
  chain and is not the value that means \<open>no limit\<close>; a setting already within the ceiling is kept.
\<close>

theorem clamp_enforces_ceilings:
  assumes "map_of (effective_limits chain) key = Some (cap, p)" and "1 \<le> cap"
  shows "of_int (setting base (clamp_overrides base overrides chain) key) \<le> cap \<and>
    \<not> no_limit key (setting base (clamp_overrides base overrides chain) key) \<and>
    (of_int (setting base overrides key) \<le> cap \<and> \<not> no_limit key (setting base overrides key) \<longrightarrow>
       setting base (clamp_overrides base overrides chain) key = setting base overrides key)"
proof -
  have "1 \<le> \<lfloor>cap\<rfloor>" using assms(2) by (simp add: le_floor_iff)
  then have "\<lfloor>cap\<rfloor> \<noteq> 0" by linarith
  with assms show ?thesis by (auto simp: clamp_overrides_setting clamped_def no_limit_def)
qed

theorem clamp_enforces_ceilings_witness:
  "of_int (setting (\<lambda>_. 100) (clamp_overrides (\<lambda>_. 100) None [allow_all]) ''agent.max_steps'') \<le> (50 :: rat)"
proof -
  have "map_of (effective_limits [allow_all]) ''agent.max_steps'' = Some (50, allow_all)"
    by (simp add: effective_limits_def cap_limit_def allow_all_def)
  then show ?thesis using clamp_enforces_ceilings [of "[allow_all]" "''agent.max_steps''" 50 allow_all "\<lambda>_. 100" None] by simp
qed

text \<open>
  A ceiling below one on a setting where zero means \<open>no limit\<close> is not enforced: a run that asks for
  some positive amount, or for no limit, ends up with no limit at all.
\<close>

theorem clamp_zero_ceiling_lifts_limit:
  assumes "map_of (effective_limits chain) key = Some (cap, p)" and "0 \<le> cap" and "cap < 1"
    and "after_char (CHR ''.'') key \<in> set ZERO_IS_UNLIMITED" and "0 \<le> setting base overrides key"
  shows "no_limit key (setting base (clamp_overrides base overrides chain) key)"
proof -
  have "\<lfloor>cap\<rfloor> = 0" using assms(2,3) by (simp add: floor_eq_iff)
  moreover have "of_int (setting base overrides key) > cap" if "setting base overrides key \<noteq> 0"
  proof -
    have "1 \<le> setting base overrides key" using that assms(5) by simp
    then have "(1 :: rat) \<le> of_int (setting base overrides key)" by simp
    with assms(3) show ?thesis by linarith
  qed
  ultimately show ?thesis using assms by (auto simp: clamp_overrides_setting clamped_def no_limit_def)
qed

definition no_commands :: policy where
  "no_commands = allow_all\<lparr>pol_limits := [(''agent.max_commands'', 0)]\<rparr>"

theorem clamp_zero_ceiling_lifts_limit_witness:
  "setting (\<lambda>_. 10) None ''agent.max_commands'' = 10 \<and>
   no_limit ''agent.max_commands'' (setting (\<lambda>_. 10) (clamp_overrides (\<lambda>_. 10) None [no_commands]) ''agent.max_commands'')"
proof
  show s: "setting (\<lambda>_. 10) None ''agent.max_commands'' = 10" by (simp add: setting_def dget_def)
  have "map_of (effective_limits [no_commands]) ''agent.max_commands'' = Some (0, no_commands)"
    by (simp add: effective_limits_def cap_limit_def no_commands_def allow_all_def)
  then show "no_limit ''agent.max_commands'' (setting (\<lambda>_. 10) (clamp_overrides (\<lambda>_. 10) None [no_commands]) ''agent.max_commands'')"
    using clamp_zero_ceiling_lifts_limit [of "[no_commands]" "''agent.max_commands''" 0 no_commands "\<lambda>_. 10" None] s
    by (simp add: after_char_def ZERO_IS_UNLIMITED_def)
qed

section \<open>What a parsed policy guarantees\<close>

definition rule_wf :: "rule \<Rightarrow> bool" where
  "rule_wf r \<longleftrightarrow> rule_action r \<noteq> [] \<and> length (rule_action r) \<le> 120 \<and> length (rule_reason r) \<le> 200 \<and>
     (rule_constraints r \<noteq> [] \<longleftrightarrow> rule_result r = ALLOW_WITH_LIMITS) \<and> (\<forall>(k, v) \<in> set (rule_constraints r). 0 \<le> v)"

definition policy_wf :: "policy \<Rightarrow> bool" where
  "policy_wf p \<longleftrightarrow> pol_scope p \<noteq> SYSTEM \<and> pol_name p \<noteq> [] \<and> length (pol_name p) \<le> 80 \<and>
     length (pol_rules p) \<le> 200 \<and> (\<forall>r \<in> set (pol_rules p). rule_wf r) \<and>
     (\<forall>(k, v) \<in> set (pol_limits p). 0 \<le> v) \<and> \<not> is_malformed p"

lemma numbers_nonneg: "numbers v i = Inr d \<Longrightarrow> \<forall>(k, x) \<in> set d. 0 \<le> x"
  unfolding numbers_def
  by (auto split: option.splits dest!: map_r_all [where P = "\<lambda>(k, x). 0 \<le> x"] split: if_splits)

lemma length_str_strip: "length (str_strip s) \<le> length s"
  unfolding str_strip_def rstrip_by_def lstrip_by_def
  by (metis length_dropWhile_le length_rev order_trans)

lemma parse_rule_wf: "parse_rule show_val ir = Inr r \<Longrightarrow> rule_wf r"
  by (auto simp: parse_rule_def rule_wf_def result_simps split: prod.splits option.splits if_splits pyval.splits
      dest!: numbers_nonneg)

lemma parse_policy_sound:
  assumes "parse_policy show_val doc ref version = Inr p"
  shows "policy_wf p" "pol_scope_ref p = ref" "pol_version p = version"
proof -
  obtain d name sc xs rs ls where p:
    "str_strip name \<noteq> []" "length name \<le> 80" "sc \<noteq> SYSTEM" "length xs \<le> 200"
    "map_r (parse_rule show_val) (enumerate 1 xs) = Inr rs" "numbers (dget d ''limits'' (VDict [])) 0 = Inr ls"
    "p = \<lparr>pol_name = str_strip name, pol_scope = sc, pol_rules = rs, pol_limits = ls, pol_scope_ref = ref,
          pol_version = version, is_malformed = False\<rparr>"
    using assms by (auto simp: parse_policy_def result_simps not_less split: option.splits if_splits pyval.splits)
  have "length (str_strip name) \<le> 80" using p(2) length_str_strip [of name] by linarith
  moreover have "\<forall>r \<in> set rs. rule_wf r" by (rule map_r_all [OF p(5) parse_rule_wf])
  moreover have "length rs \<le> 200" using map_r_length [OF p(5)] p(4) by simp
  ultimately show "policy_wf p" "pol_scope_ref p = ref" "pol_version p = version"
    using p numbers_nonneg [OF p(6)] by (simp_all add: policy_wf_def)
qed

text \<open>
  Whatever document without NaN it is given (see \<open>numbers\<close>), \<open>parse_policy\<close> either raises or returns a policy that is not attached to the
  system scope, has a name of at most 80 characters and at most 200 rules, in which exactly the
  \<open>ALLOW_WITH_LIMITS\<close> rules carry constraints, and every number of which is non-negative.
\<close>

theorem parse_policy_well_formed:
  "case parse_policy show_val doc ref version of Inl e \<Rightarrow> True
   | Inr p \<Rightarrow> policy_wf p \<and> pol_scope_ref p = ref \<and> pol_version p = version"
  using parse_policy_sound [of show_val doc ref version] by (cases "parse_policy show_val doc ref version") auto

section \<open>Secrets never leave\<close>

lemma strictest_Some: "ds \<noteq> [] \<Longrightarrow> \<exists>d. strictest ds = Some d \<and> d \<in> set ds"
  unfolding strictest_def
  by (cases "keep_best (\<lambda>d. STRICTNESS (pd_result d)) None ds") (auto simp: keep_best_None dest: keep_best_in)

lemma strictest_DENY:
  assumes "d \<in> set ds" "pd_result d = DENY"
  shows "\<exists>b. strictest ds = Some b \<and> pd_result b = DENY"
proof -
  have "ds \<noteq> []" using assms(1) by auto
  then obtain b where b: "strictest ds = Some b" using strictest_Some [of ds] by blast
  then have "STRICTNESS (pd_result d) \<le> STRICTNESS (pd_result b)"
    unfolding strictest_def using keep_best_ge [OF _ assms(1), of "\<lambda>d. STRICTNESS (pd_result d)"] by simp
  with assms(2) b show ?thesis by (cases "pd_result b") auto
qed

lemma evaluate_secret: "prefix ''artifact.disclose:secret:'' action \<Longrightarrow> pd_result (evaluate_policy ps action effect) = DENY"
  using floor_discloses_no_secret [of action effect] strictest_answer_ge [of SYSTEM_FLOOR ps action effect]
  by (auto simp: evaluate_is_strictest intro: antisym)

lemma disclosure_loop_DENY:
  "(\<exists>d \<in> set ds. pd_result d = DENY) \<or> ''secret'' \<in> set cs \<Longrightarrow>
     pd_result (disclosure_loop message chain cs kind name ds) = DENY"
proof (induction cs arbitrary: ds)
  case Nil
  then show ?case using strictest_DENY by fastforce
next
  case (Cons c cs)
  show ?case
  proof (cases "disclosure_actions c kind name")
    case (Inl e)
    then show ?thesis by (simp add: unknown_disclosure_def)
  next
    case (Inr actions)
    have "(\<exists>d \<in> set (ds @ map (\<lambda>a. evaluate_policy chain a None) actions). pd_result d = DENY) \<or> ''secret'' \<in> set cs"
    proof (cases "c = ''secret''")
      case True
      with Inr have "DISCLOSE_PREFIX @ ''secret'' @ '':'' @ kind \<in> set actions"
        by (auto simp: disclosure_actions_def split: if_splits)
      moreover have "pd_result (evaluate_policy chain (DISCLOSE_PREFIX @ ''secret'' @ '':'' @ kind) None) = DENY"
        by (rule evaluate_secret) (simp add: DISCLOSE_PREFIX_def)
      ultimately show ?thesis by auto
    next
      case False
      with Cons.prems show ?thesis by auto
    qed
    then show ?thesis using Inr by (simp add: Cons.IH)
  qed
qed

text \<open>
  A disclosure that includes the \<open>secret\<close> data class is refused, whatever policies are attached, whatever
  else is disclosed with it and whoever the destination is.
\<close>

theorem secrets_never_disclosed:
  assumes "''secret'' \<in> set data_classes"
  shows "pd_result (decide_disclosure message chain data_classes kind name) = DENY"
  unfolding decide_disclosure_def using assms disclosure_loop_DENY by blast

theorem secrets_never_disclosed_witness:
  "''secret'' \<in> set [''logs'', ''secret''] \<and>
   pd_result (decide_disclosure (\<lambda>_. []) [allow_all] [''logs'', ''secret''] ''connector'' (Some ''github'')) = DENY"
  using secrets_never_disclosed [of "[''logs'', ''secret'']" "\<lambda>_. []" "[allow_all]" "''connector''" "Some ''github''"] by simp

end
