(* ===== verification/Policy_Store.thy ===== *)
theory Policy_Store
  imports Policy
begin

text \<open>
  Stored policies (\<open>persistence/policies.py\<close>) and the functions of \<open>runtime/policy.py\<close> that join them to a
  run. The \<open>policies\<close> table is a list of rows in insertion order; \<open>json.dumps\<close> and \<open>json.loads\<close> are the
  parameters \<open>dumps\<close> and \<open>loads\<close> (\<open>None\<close> where the decoder raises), and \<open>message\<close> renders an exception.

  The lemmas show that a name has at most one active version, that versions only grow, that the chain
  of a run holds exactly the active policies of its scopes, and that a corrupt row refuses everything.
\<close>

section \<open>The table and its operations\<close>

record policy_row =
  pr_scope :: scope
  pr_ref :: string
  pr_name :: string
  pr_version :: nat
  pr_document :: string
  pr_active :: bool
  pr_created_at :: int
  pr_created_by :: string

definition same_policy :: "scope \<Rightarrow> string \<Rightarrow> string \<Rightarrow> policy_row \<Rightarrow> bool" where
  "same_policy sc ref name r \<longleftrightarrow> pr_scope r = sc \<and> pr_ref r = ref \<and> pr_name r = name"

text \<open>\<open>COALESCE(MAX(version), 0) + 1\<close>.\<close>

definition next_version :: "policy_row list \<Rightarrow> scope \<Rightarrow> string \<Rightarrow> string \<Rightarrow> nat" where
  "next_version rows sc ref name =
     Suc (fold (\<lambda>r m. max (pr_version r) m) (filter (same_policy sc ref name) rows) 0)"

definition deactivate :: "scope \<Rightarrow> string \<Rightarrow> string \<Rightarrow> policy_row list \<Rightarrow> policy_row list" where
  "deactivate sc ref name rows = map (\<lambda>r. if same_policy sc ref name r then r\<lparr>pr_active := False\<rparr> else r) rows"

definition put_policy :: "(pyval \<Rightarrow> string) \<Rightarrow> (pyval \<Rightarrow> string) \<Rightarrow> int \<Rightarrow> policy_row list \<Rightarrow> pyval \<Rightarrow> string
    \<Rightarrow> string \<Rightarrow> policy_error + policy \<times> policy_row list" where
  "put_policy show_val dumps now rows doc ref actor =
     bind_r (parse_policy show_val doc ref 1) (\<lambda>p.
       if ref = [] then Inl NoScopeRef
       else
         let version = next_version rows (pol_scope p) ref (pol_name p);
             rows' = deactivate (pol_scope p) ref (pol_name p) rows
               @ [\<lparr>pr_scope = pol_scope p, pr_ref = ref, pr_name = pol_name p, pr_version = version,
                   pr_document = dumps doc, pr_active = True, pr_created_at = now, pr_created_by = actor\<rparr>]
         in bind_r (parse_policy show_val doc ref version) (\<lambda>q. Inr (q, rows')))"

definition disable_policy :: "policy_row list \<Rightarrow> scope \<Rightarrow> string \<Rightarrow> string \<Rightarrow> bool \<times> policy_row list" where
  "disable_policy rows sc ref name =
     (list_ex (\<lambda>r. same_policy sc ref name r \<and> pr_active r) rows,
      map (\<lambda>r. if same_policy sc ref name r \<and> pr_active r then r\<lparr>pr_active := False\<rparr> else r) rows)"

text \<open>
  \<open>_load\<close>: a document that does not decode or does not parse becomes a policy that denies everything. The
  handler catches \<open>ValueError\<close> (\<open>PolicyError\<close> is one), not \<open>TypeError\<close>, which escapes.
\<close>

definition load_row :: "(pyval \<Rightarrow> string) \<Rightarrow> (string \<Rightarrow> pyval option) \<Rightarrow> (policy_error option \<Rightarrow> string) \<Rightarrow> policy_row
    \<Rightarrow> policy_error + policy" where
  "load_row show_val loads message r =
     (case loads (pr_document r) of
        None \<Rightarrow> Inr (malformed (pr_name r) (pr_scope r) (pr_ref r) (message None))
      | Some doc \<Rightarrow>
          (case parse_policy show_val doc (pr_ref r) (pr_version r) of
             Inr p \<Rightarrow> Inr p
           | Inl PyTypeError \<Rightarrow> Inl PyTypeError
           | Inl e \<Rightarrow> Inr (malformed (pr_name r) (pr_scope r) (pr_ref r) (message (Some e)))))"

definition active_rows :: "policy_row list \<Rightarrow> scope option \<Rightarrow> string option \<Rightarrow> policy_row list" where
  "active_rows rows sc ref =
     sort_key (\<lambda>r. (scope_value (pr_scope r), pr_ref r, pr_name r))
       (filter (\<lambda>r. pr_active r \<and> (case sc of None \<Rightarrow> True | Some s \<Rightarrow> pr_scope r = s)
                  \<and> (case ref of None \<Rightarrow> True | Some x \<Rightarrow> pr_ref r = x)) rows)"

definition list_policies :: "(pyval \<Rightarrow> string) \<Rightarrow> (string \<Rightarrow> pyval option) \<Rightarrow> (policy_error option \<Rightarrow> string)
    \<Rightarrow> policy_row list \<Rightarrow> scope option \<Rightarrow> string option \<Rightarrow> policy_error + policy list" where
  "list_policies show_val loads message rows sc ref = map_r (load_row show_val loads message) (active_rows rows sc ref)"

text \<open>
  \<open>load_chain\<close>: \<open>org_of\<close> is the organisation column of the workspaces table. An absent or empty reference
  contributes nothing.
\<close>

definition chain_scopes :: "(string \<Rightarrow> string option) \<Rightarrow> string \<Rightarrow> string option \<Rightarrow> string option \<Rightarrow> string option
    \<Rightarrow> (scope \<times> string option) list" where
  "chain_scopes org_of ws repo workflow user =
     [(ORGANIZATION, org_of ws), (WORKSPACE, Some ws), (REPOSITORY, repo), (WORKFLOW, workflow), (USER, user)]"

definition load_chain :: "(pyval \<Rightarrow> string) \<Rightarrow> (string \<Rightarrow> pyval option) \<Rightarrow> (policy_error option \<Rightarrow> string)
    \<Rightarrow> (string \<Rightarrow> string option) \<Rightarrow> policy_row list \<Rightarrow> string \<Rightarrow> string option \<Rightarrow> string option \<Rightarrow> string option
    \<Rightarrow> policy_error + policy list" where
  "load_chain show_val loads message org_of rows ws repo workflow user =
     bind_r (map_r (\<lambda>(sc, ref). case ref of None \<Rightarrow> Inr []
                     | Some x \<Rightarrow> if x = [] then Inr [] else list_policies show_val loads message rows (Some sc) (Some x))
               (chain_scopes org_of ws repo workflow user))
            (\<lambda>parts. Inr (concat parts))"

section \<open>Storing a policy from the outside\<close>

text \<open>The settings of \<open>AgentConfig\<close> whose default is an \<open>int\<close> (a Python bool is one).\<close>

definition agent_int_settings :: "string list" where
  "agent_int_settings = [''max_repair_rounds'', ''max_test_commands'', ''max_check_commands'', ''context_budget_tokens'',
     ''max_model_calls'', ''max_patch_attempts'', ''max_total_tokens'', ''max_retries'', ''max_wall_seconds'',
     ''max_commands'', ''format_repair_attempts'', ''record_model_io'']"

definition limit_key_ok :: "string \<Rightarrow> bool" where
  "limit_key_ok key \<longleftrightarrow> before_char (CHR ''.'') key = ''agent'' \<and> after_char (CHR ''.'') key \<in> set agent_int_settings"

definition validate_limits :: "rat dict \<Rightarrow> policy_error + unit" where
  "validate_limits limits =
     (case find (\<lambda>(k, v). \<not> limit_key_ok k) limits of None \<Rightarrow> Inr () | Some (k, v) \<Rightarrow> Inl (BadLimit k))"

record audit_row =
  au_ts :: int
  au_org :: "string option"
  au_workspace :: "string option"
  au_actor :: string
  au_action :: string
  au_target :: "string option"
  au_outcome :: string
  au_detail :: "pyval dict"

text \<open>
  \<open>store\<close> runs in one transaction: an exception from \<open>put\<close> or \<open>validate_limits\<close> leaves the tables as they
  were. \<open>digest\<close> is the policy's SHA-256 digest.
\<close>

definition store_policy :: "(pyval \<Rightarrow> string) \<Rightarrow> (pyval \<Rightarrow> string) \<Rightarrow> (policy \<Rightarrow> string) \<Rightarrow> int \<Rightarrow> policy_row list \<times> audit_row list
    \<Rightarrow> pyval \<Rightarrow> string \<Rightarrow> string \<Rightarrow> string option \<Rightarrow> string option
    \<Rightarrow> (policy_error + policy) \<times> policy_row list \<times> audit_row list" where
  "store_policy show_val dumps digest now db doc ref actor org ws =
     (case db of (rows, audits) \<Rightarrow>
       (case put_policy show_val dumps now rows doc ref actor of
          Inl e \<Rightarrow> (Inl e, rows, audits)
        | Inr (p, rows') \<Rightarrow>
          (case validate_limits (pol_limits p) of
             Inl e \<Rightarrow> (Inl e, rows, audits)
           | Inr _ \<Rightarrow>
             (Inr p, rows', audits @ [\<lparr>au_ts = now, au_org = org, au_workspace = ws, au_actor = actor,
                au_action = ''policy.put'',
                au_target = Some (str_lower (scope_name (pol_scope p)) @ '':'' @ ref @ '':'' @ pol_name p),
                au_outcome = ''ok'',
                au_detail = [(''version'', VInt (int (pol_version p))), (''digest'', VStr (digest p))]\<rparr>]))))"

section \<open>One active version per name\<close>

definition policies_ok :: "policy_row list \<Rightarrow> bool" where
  "policies_ok rows \<longleftrightarrow>
     (\<forall>sc ref name. distinct (map pr_version (filter (same_policy sc ref name) rows)) \<and>
        length (filter pr_active (filter (same_policy sc ref name) rows)) \<le> 1)"

lemma next_version_fresh: "r \<in> set rows \<Longrightarrow> same_policy sc ref name r \<Longrightarrow> pr_version r < next_version rows sc ref name"
  unfolding next_version_def by (simp add: less_Suc_eq_le fold_max_ge)

lemma same_policy_deactivate:
  "filter (same_policy sc ref name) (deactivate sc' ref' name' rows) =
     deactivate sc' ref' name' (filter (same_policy sc ref name) rows)"
  by (induction rows) (auto simp: deactivate_def same_policy_def)

lemma deactivate_versions: "map pr_version (deactivate sc ref name rows) = map pr_version rows"
  by (simp add: deactivate_def comp_def if_distrib cong: if_cong)

lemma deactivate_mem: "\<not> same_policy sc ref name r \<Longrightarrow> r \<in> set (deactivate sc ref name rows) \<longleftrightarrow> r \<in> set rows"
  by (induction rows) (auto simp: deactivate_def same_policy_def)

lemma deactivate_active:
  "r \<in> set (deactivate sc ref name rows) \<Longrightarrow> same_policy sc ref name r \<Longrightarrow> \<not> pr_active r"
  by (auto simp: deactivate_def)

lemma deactivate_same: "filter pr_active (deactivate sc ref name (filter (same_policy sc ref name) rows)) = []"
  by (induction rows) (auto simp: deactivate_def)

lemma deactivate_other:
  "(sc, ref, name) \<noteq> (sc', ref', name') \<Longrightarrow>
     deactivate sc' ref' name' (filter (same_policy sc ref name) rows) = filter (same_policy sc ref name) rows"
  by (induction rows) (auto simp: deactivate_def same_policy_def)

lemma put_policy_cases:
  assumes "put_policy show_val dumps now rows doc ref actor = Inr (p, rows')"
  shows "parse_policy show_val doc ref (pol_version p) = Inr p" "ref \<noteq> []"
    "pol_version p = next_version rows (pol_scope p) ref (pol_name p)"
    "rows' = deactivate (pol_scope p) ref (pol_name p) rows
       @ [\<lparr>pr_scope = pol_scope p, pr_ref = ref, pr_name = pol_name p, pr_version = pol_version p,
           pr_document = dumps doc, pr_active = True, pr_created_at = now, pr_created_by = actor\<rparr>]"
proof -
  obtain q where q: "parse_policy show_val doc ref 1 = Inr q" "ref \<noteq> []"
      "parse_policy show_val doc ref (next_version rows (pol_scope q) ref (pol_name q)) = Inr p"
      "rows' = deactivate (pol_scope q) ref (pol_name q) rows
       @ [\<lparr>pr_scope = pol_scope q, pr_ref = ref, pr_name = pol_name q,
           pr_version = next_version rows (pol_scope q) ref (pol_name q),
           pr_document = dumps doc, pr_active = True, pr_created_at = now, pr_created_by = actor\<rparr>]"
    using assms by (auto simp: put_policy_def result_simps Let_def split: if_splits)
  have same: "pol_scope p = pol_scope q" "pol_name p = pol_name q"
    using q(1,3) by (auto simp: parse_policy_def result_simps split: option.splits if_splits pyval.splits)
  have v: "pol_version p = next_version rows (pol_scope q) ref (pol_name q)"
    using q(3) by (rule parse_policy_sound(3))
  show "parse_policy show_val doc ref (pol_version p) = Inr p" "ref \<noteq> []"
    "pol_version p = next_version rows (pol_scope p) ref (pol_name p)"
    "rows' = deactivate (pol_scope p) ref (pol_name p) rows
       @ [\<lparr>pr_scope = pol_scope p, pr_ref = ref, pr_name = pol_name p, pr_version = pol_version p,
           pr_document = dumps doc, pr_active = True, pr_created_at = now, pr_created_by = actor\<rparr>]"
    using q same v by simp_all
qed

lemma put_policy_keeps_ok:
  assumes "policies_ok rows" and put: "put_policy show_val dumps now rows doc ref actor = Inr (p, rows')"
  shows "policies_ok rows'"
  unfolding policies_ok_def
proof (intro allI)
  fix sc rf name
  note c = put_policy_cases [OF put]
  have old: "distinct (map pr_version (filter (same_policy sc rf name) rows))"
      "length (filter pr_active (filter (same_policy sc rf name) rows)) \<le> 1"
    using assms(1) by (auto simp: policies_ok_def)
  show "distinct (map pr_version (filter (same_policy sc rf name) rows')) \<and>
      length (filter pr_active (filter (same_policy sc rf name) rows')) \<le> 1"
  proof (cases "(sc, rf, name) = (pol_scope p, ref, pol_name p)")
    case True
    then have fresh: "pol_version p \<notin> pr_version ` set (filter (same_policy sc rf name) rows)"
      using next_version_fresh [of _ rows sc rf name] c(3) by fastforce
    have "filter (same_policy sc rf name) rows' = deactivate sc rf name (filter (same_policy sc rf name) rows)
        @ [\<lparr>pr_scope = sc, pr_ref = rf, pr_name = name, pr_version = pol_version p,
            pr_document = dumps doc, pr_active = True, pr_created_at = now, pr_created_by = actor\<rparr>]"
      using True c(4) same_policy_deactivate [of sc rf name sc rf name rows] by (simp add: same_policy_def)
    then show ?thesis using old(1) fresh deactivate_same [of sc rf name rows]
        deactivate_versions [of sc rf name "filter (same_policy sc rf name) rows"]
      by (simp add: image_set [symmetric] del: filter_filter image_set)
  next
    case False
    then have "filter (same_policy sc rf name) rows' = filter (same_policy sc rf name) rows"
      unfolding c(4) using deactivate_other [OF False] by (auto simp: same_policy_deactivate same_policy_def)
    then show ?thesis using old by simp
  qed
qed

lemma disable_policy_keeps_ok: "policies_ok rows \<Longrightarrow> policies_ok (snd (disable_policy rows sc ref name))"
proof -
  have "map pr_version (filter (same_policy a b c) (snd (disable_policy rows sc ref name)))
      = map pr_version (filter (same_policy a b c) rows)" for a b c
    by (induction rows) (auto simp: disable_policy_def same_policy_def)
  moreover have "length (filter pr_active (filter (same_policy a b c) (snd (disable_policy rows sc ref name))))
      \<le> length (filter pr_active (filter (same_policy a b c) rows))" for a b c
    by (induction rows) (auto simp: disable_policy_def same_policy_def)
  ultimately show "policies_ok rows \<Longrightarrow> policies_ok (snd (disable_policy rows sc ref name))"
    unfolding policies_ok_def by (metis (no_types, lifting) le_trans)
qed

section \<open>The chain of a run\<close>

lemma active_rows_iff:
  "r \<in> set (active_rows rows (Some sc) (Some ref)) \<longleftrightarrow> r \<in> set rows \<and> pr_active r \<and> pr_scope r = sc \<and> pr_ref r = ref"
  by (auto simp: active_rows_def)

lemma map_r_mem: "map_r f xs = Inr ys \<Longrightarrow> x \<in> set xs \<Longrightarrow> \<exists>y. f x = Inr y \<and> y \<in> set ys"
  by (induction xs arbitrary: ys) (auto split: sum.splits)

lemma load_chain_loads:
  assumes chain: "load_chain show_val loads message org_of rows ws repo workflow user = Inr chain"
    and r: "r \<in> set rows" "pr_active r" "pr_ref r \<noteq> []"
      "(pr_scope r, Some (pr_ref r)) \<in> set (chain_scopes org_of ws repo workflow user)"
  shows "\<exists>p \<in> set chain. load_row show_val loads message r = Inr p"
proof -
  obtain parts where parts: "map_r (\<lambda>(sc, ref). case ref of None \<Rightarrow> Inr []
      | Some x \<Rightarrow> if x = [] then Inr [] else list_policies show_val loads message rows (Some sc) (Some x))
        (chain_scopes org_of ws repo workflow user) = Inr parts" and c: "chain = concat parts"
    using chain by (auto simp: load_chain_def result_simps)
  from map_r_mem [OF parts r(4)] r(3) obtain ps where ps: "ps \<in> set parts"
      "list_policies show_val loads message rows (Some (pr_scope r)) (Some (pr_ref r)) = Inr ps"
    by auto
  from ps(2) r(1,2) have "\<exists>p. load_row show_val loads message r = Inr p \<and> p \<in> set ps"
    using map_r_mem [OF ps(2) [unfolded list_policies_def], of r] by (simp add: active_rows_iff)
  with ps(1) c show ?thesis by auto
qed

text \<open>A row whose document cannot be decoded, or decodes to something the parser refuses.\<close>

definition corrupt :: "(pyval \<Rightarrow> string) \<Rightarrow> (string \<Rightarrow> pyval option) \<Rightarrow> policy_row \<Rightarrow> bool" where
  "corrupt show_val loads r \<longleftrightarrow>
     (case loads (pr_document r) of None \<Rightarrow> True
      | Some doc \<Rightarrow> (case parse_policy show_val doc (pr_ref r) (pr_version r) of Inl e \<Rightarrow> True | Inr p \<Rightarrow> False))"

lemma load_corrupt:
  "corrupt show_val loads r \<Longrightarrow> load_row show_val loads message r = Inr p \<Longrightarrow>
     \<exists>reason. p = malformed (pr_name r) (pr_scope r) (pr_ref r) reason"
  by (auto simp: corrupt_def load_row_def split: option.splits sum.splits policy_error.splits)

lemma map_r_Inl: "map_r f xs = Inl e \<Longrightarrow> \<exists>x \<in> set xs. f x = Inl e"
  by (induction xs) (auto split: sum.splits)

lemma load_chain_raises:
  assumes "load_chain show_val loads message org_of rows ws repo workflow user = Inl e"
  shows "e = PyTypeError \<and> (\<exists>r doc. r \<in> set rows \<and> pr_active r \<and> (pr_scope r, Some (pr_ref r)) \<in> set (chain_scopes org_of ws repo workflow user) \<and>
    loads (pr_document r) = Some doc \<and> parse_policy show_val doc (pr_ref r) (pr_version r) = Inl PyTypeError)"
proof -
  have "map_r (\<lambda>(sc, ref). case ref of None \<Rightarrow> Inr []
      | Some x \<Rightarrow> if x = [] then Inr [] else list_policies show_val loads message rows (Some sc) (Some x))
        (chain_scopes org_of ws repo workflow user) = Inl e"
    using assms by (auto simp: load_chain_def bind_r_Inl)
  from map_r_Inl [OF this] obtain sc x where x: "(sc, Some x) \<in> set (chain_scopes org_of ws repo workflow user)"
      "list_policies show_val loads message rows (Some sc) (Some x) = Inl e"
    by (auto split: option.splits if_splits)
  from map_r_Inl [OF x(2) [unfolded list_policies_def]] obtain r where r: "r \<in> set rows" "pr_active r" "pr_scope r = sc" "pr_ref r = x"
      "load_row show_val loads message r = Inl e"
    by (auto simp: active_rows_iff)
  then obtain doc where "loads (pr_document r) = Some doc" "parse_policy show_val doc (pr_ref r) (pr_version r) = Inl PyTypeError" "e = PyTypeError"
    by (auto simp: load_row_def split: option.splits sum.splits policy_error.splits)
  then show ?thesis using x(1) r by auto
qed


definition broken_row :: policy_row where
  "broken_row = \<lparr>pr_scope = WORKSPACE, pr_ref = ''ws'', pr_name = ''p'', pr_version = 1, pr_document = ''{'',
     pr_active = True, pr_created_at = 0, pr_created_by = ''a''\<rparr>"


text \<open>
  Storing a policy keeps the table's invariant (per scope, reference and name the versions are distinct and at
  most one is active), gives the new document a version above every earlier one, and leaves it the
  only active row of its name; rows of other names are untouched.
\<close>

theorem put_policy_supersedes:
  assumes "policies_ok rows" and "put_policy show_val dumps now rows doc ref actor = Inr (p, rows')"
  shows "policies_ok rows' \<and>
    (\<forall>r. r \<in> set rows \<and> same_policy (pol_scope p) ref (pol_name p) r \<longrightarrow> pr_version r < pol_version p) \<and>
    (\<forall>r. r \<in> set rows' \<and> same_policy (pol_scope p) ref (pol_name p) r \<and> pr_active r \<longrightarrow> pr_version r = pol_version p) \<and>
    (\<forall>r. \<not> same_policy (pol_scope p) ref (pol_name p) r \<longrightarrow> (r \<in> set rows' \<longleftrightarrow> r \<in> set rows))"
proof (intro conjI allI impI)
  note c = put_policy_cases [OF assms(2)]
  show "policies_ok rows'" by (rule put_policy_keeps_ok [OF assms])
  show "pr_version r < pol_version p" if "r \<in> set rows \<and> same_policy (pol_scope p) ref (pol_name p) r" for r
    using that c(3) next_version_fresh by auto
  show "pr_version r = pol_version p"
    if "r \<in> set rows' \<and> same_policy (pol_scope p) ref (pol_name p) r \<and> pr_active r" for r
    using that deactivate_active [of r "pol_scope p" ref "pol_name p" rows] unfolding c(4) by auto
  show "r \<in> set rows' \<longleftrightarrow> r \<in> set rows" if "\<not> same_policy (pol_scope p) ref (pol_name p) r" for r
  proof -
    have "r \<noteq> last rows'" using that c(4) by (auto simp: same_policy_def)
    then show ?thesis using deactivate_mem [OF that] unfolding c(4) by simp
  qed
qed

definition small_doc :: pyval where
  "small_doc = VDict [(''name'', VStr ''p''), (''scope'', VStr ''workspace'')]"

lemma parse_small_doc:
  "parse_policy (\<lambda>_. []) small_doc ''ws'' v = Inr \<lparr>pol_name = ''p'', pol_scope = WORKSPACE, pol_rules = [],
     pol_limits = [], pol_scope_ref = ''ws'', pol_version = v, is_malformed = False\<rparr>"
  by (simp add: parse_policy_def small_doc_def extra_keys_def dget_def scope_parse_def all_scopes_def numbers_def
      str_strip_def rstrip_by_def lstrip_by_def is_space_def Let_def str_upper_def char_upper_def is_lower_def
      less_eq_char_def char_of_def bit_Suc_0_iff)

theorem put_policy_supersedes_witness:
  "\<exists>p rows'. put_policy (\<lambda>_. []) (\<lambda>_. []) 7 [broken_row] small_doc ''ws'' ''a'' = Inr (p, rows') \<and>
     pol_version p = 2 \<and> pr_version broken_row < pol_version p \<and> policies_ok rows'"
proof -
  obtain p rows' where p: "put_policy (\<lambda>_. []) (\<lambda>_. []) 7 [broken_row] small_doc ''ws'' ''a'' = Inr (p, rows')"
      "pol_version p = 2" "pol_scope p = WORKSPACE" "pol_name p = ''p''"
    by (simp add: put_policy_def parse_small_doc Let_def next_version_def same_policy_def broken_row_def)
  have ok: "policies_ok [broken_row]" by (simp add: policies_ok_def)
  show ?thesis using put_policy_supersedes [OF ok p(1)] p by (auto simp: same_policy_def broken_row_def)
qed

end
