(* ===== verification/Identity.thy ===== *)
theory Identity
  imports Prelude
begin

text \<open>
  Roles and permissions (\<open>domain/identity.py\<close>), the choice among several roles
  (\<open>domain/tenancy.py\<close>), and the tables of organisations, workspaces, principals, memberships, API tokens
  and teams (\<open>persistence/identity.py\<close>, the team half of \<open>persistence/tenancy.py\<close>).

  Fresh identifiers, the clock and \<open>sha256\<close> are arguments. A violated \<open>PRIMARY KEY\<close>, \<open>UNIQUE\<close> or
  foreign-key constraint of the schema is the error \<open>IntegrityError\<close>.

  The lemmas show that roles never reach outside the principal's organisation, which role wins, that
  automation cannot decide approvals, and when a bearer token is accepted.
\<close>

section \<open>Roles and permissions\<close>

datatype role = OWNER | ADMIN | DEVELOPER | OPERATOR | VIEWER | SERVICE

datatype permission =
    RUN_READ | RUN_CREATE | RUN_CONTROL | WORKFLOW_MANAGE | APPROVAL_DECIDE | SETTINGS_READ | SETTINGS_WRITE
  | MEMBERS_MANAGE | TOKENS_MANAGE | AUDIT_READ | REPOSITORY_MANAGE | CONNECTOR_MANAGE | ORG_MANAGE

definition all_permissions :: "permission set" where
  "all_permissions = {RUN_READ, RUN_CREATE, RUN_CONTROL, WORKFLOW_MANAGE, APPROVAL_DECIDE, SETTINGS_READ,
     SETTINGS_WRITE, MEMBERS_MANAGE, TOKENS_MANAGE, AUDIT_READ, REPOSITORY_MANAGE, CONNECTOR_MANAGE, ORG_MANAGE}"

fun ROLE_PERMISSIONS :: "role \<Rightarrow> permission set" where
  "ROLE_PERMISSIONS OWNER = all_permissions"
| "ROLE_PERMISSIONS ADMIN = all_permissions - {ORG_MANAGE}"
| "ROLE_PERMISSIONS DEVELOPER = {RUN_READ, RUN_CREATE, RUN_CONTROL, APPROVAL_DECIDE, SETTINGS_READ, WORKFLOW_MANAGE}"
| "ROLE_PERMISSIONS OPERATOR = {RUN_READ, RUN_CONTROL, APPROVAL_DECIDE, SETTINGS_READ, AUDIT_READ}"
| "ROLE_PERMISSIONS VIEWER = {RUN_READ, SETTINGS_READ}"
| "ROLE_PERMISSIONS SERVICE = {RUN_READ, RUN_CREATE}"

record principal =
  p_id :: string
  p_kind :: string
  p_name :: string
  p_org :: string
  p_roles :: "role dict"

definition actor :: "principal \<Rightarrow> string" where
  "actor p = p_kind p @ '':'' @ p_id p"

definition role_in :: "principal \<Rightarrow> string \<Rightarrow> role option" where
  "role_in p ws = map_of (p_roles p) ws"

definition can :: "principal \<Rightarrow> permission \<Rightarrow> string \<Rightarrow> bool" where
  "can p perm ws = (case map_of (p_roles p) ws of None \<Rightarrow> False | Some r \<Rightarrow> perm \<in> ROLE_PERMISSIONS r)"

definition workspaces_with :: "principal \<Rightarrow> permission \<Rightarrow> string list" where
  "workspaces_with p perm = sort (map fst (filter (\<lambda>(ws, r). perm \<in> ROLE_PERMISSIONS r) (p_roles p)))"

datatype identity_error =
    Forbidden permission string | UnknownToken | BadPrincipalKind string | UnknownPrincipalOrWorkspace
  | OtherOrganisation | IntegrityError | BadName string | TeamExists string | NoSuchTeam | NotInOrganisation
  | WorkspaceOutsideOrg

definition authorize :: "principal \<Rightarrow> permission \<Rightarrow> string \<Rightarrow> identity_error + unit" where
  "authorize p perm ws = (if \<not> can p perm ws then Inl (Forbidden perm ws) else Inr ())"

definition may_grant :: "role \<Rightarrow> role \<Rightarrow> bool" where
  "may_grant granter target =
     (if target \<in> {OWNER, ADMIN} then granter = OWNER else granter \<in> {OWNER, ADMIN})"

definition ROLE_STRENGTH :: "role list" where
  "ROLE_STRENGTH = [OWNER, ADMIN, DEVELOPER, OPERATOR, VIEWER, SERVICE]"

definition strongest :: "role list \<Rightarrow> role option" where
  "strongest rs = find (\<lambda>r. r \<in> set rs) ROLE_STRENGTH"

definition effective_role :: "role option \<Rightarrow> role list \<Rightarrow> role option" where
  "effective_role direct via_teams = strongest (case direct of None \<Rightarrow> via_teams | Some r \<Rightarrow> r # via_teams)"

text \<open>The name pattern: a letter or digit, then at most 63 letters, digits, spaces, dots, underscores or dashes.\<close>

definition name_char :: "char \<Rightarrow> bool" where
  "name_char c \<longleftrightarrow> is_alnum c \<or> c \<in> set '' ._-''"

definition clean_name :: "string option \<Rightarrow> string \<Rightarrow> identity_error + string" where
  "clean_name raw what =
     (let name = str_strip (case raw of None \<Rightarrow> [] | Some s \<Rightarrow> s) in
      case name of [] \<Rightarrow> Inl (BadName what)
      | c # cs \<Rightarrow> if is_alnum c \<and> list_all name_char cs \<and> length cs \<le> 63 then Inr name else Inl (BadName what))"

section \<open>The tables\<close>

record ws_row =
  ws_id :: string
  ws_org :: string
  ws_name :: string

record principal_row =
  pn_id :: string
  pn_org :: string
  pn_kind :: string
  pn_name :: string
  pn_disabled :: bool

record token_row =
  tk_id :: string
  tk_principal :: string
  tk_hash :: string
  tk_prefix :: string
  tk_label :: string
  tk_created :: int
  tk_expires :: "int option"
  tk_revoked :: "int option"
  tk_last_used :: "int option"

record team_row =
  tm_id :: string
  tm_org :: string
  tm_name :: string

record identity_db =
  organizations :: "(string \<times> string) list"
  workspaces :: "ws_row list"
  principals :: "principal_row list"
  memberships :: "((string \<times> string) \<times> role) list"
  api_tokens :: "token_row list"
  teams :: "team_row list"
  team_members :: "(string \<times> string) list"
  team_roles :: "((string \<times> string) \<times> role) list"

definition create_org :: "identity_db \<Rightarrow> string \<Rightarrow> string \<Rightarrow> identity_error + identity_db" where
  "create_org db new_id name =
     (if new_id \<in> fst ` set (organizations db) then Inl IntegrityError
      else Inr (db\<lparr>organizations := organizations db @ [(new_id, name)]\<rparr>))"

definition create_workspace :: "identity_db \<Rightarrow> string \<Rightarrow> string \<Rightarrow> string \<Rightarrow> identity_error + identity_db" where
  "create_workspace db new_id org name =
     (if has_row ws_id new_id (workspaces db) \<or> org \<notin> fst ` set (organizations db)
         \<or> list_ex (\<lambda>w. ws_org w = org \<and> ws_name w = name) (workspaces db) then Inl IntegrityError
      else Inr (db\<lparr>workspaces := workspaces db @ [\<lparr>ws_id = new_id, ws_org = org, ws_name = name\<rparr>]\<rparr>))"

definition create_principal :: "identity_db \<Rightarrow> string \<Rightarrow> string \<Rightarrow> string \<Rightarrow> string \<Rightarrow> identity_error + identity_db" where
  "create_principal db new_id org name kind =
     (if kind \<notin> {''user'', ''service''} then Inl (BadPrincipalKind kind)
      else if has_row pn_id new_id (principals db) \<or> org \<notin> fst ` set (organizations db) then Inl IntegrityError
      else Inr (db\<lparr>principals := principals db
              @ [\<lparr>pn_id = new_id, pn_org = org, pn_kind = kind, pn_name = name, pn_disabled = False\<rparr>]\<rparr>))"

definition set_role :: "identity_db \<Rightarrow> string \<Rightarrow> string \<Rightarrow> role \<Rightarrow> identity_error + identity_db" where
  "set_role db pid ws r =
     (case (find_row pn_id pid (principals db), find_row ws_id ws (workspaces db)) of
        (Some p, Some w) \<Rightarrow>
          if pn_org p \<noteq> ws_org w then Inl OtherOrganisation
          else Inr (db\<lparr>memberships := AList.update (pid, ws) r (memberships db)\<rparr>)
      | _ \<Rightarrow> Inl UnknownPrincipalOrWorkspace)"

text \<open>\<open>issue_token\<close>: \<open>secret\<close> is the random token text, \<open>hash_token\<close> its SHA-256; no expiry or zero days never expires.\<close>

definition issue_token :: "(string \<Rightarrow> string) \<Rightarrow> int \<Rightarrow> identity_db \<Rightarrow> string \<Rightarrow> string \<Rightarrow> string \<Rightarrow> string \<Rightarrow> int option
    \<Rightarrow> identity_error + identity_db" where
  "issue_token hash_token now db new_id secret pid label expires_in =
     (let expires = (case expires_in of None \<Rightarrow> None | Some d \<Rightarrow> if d = 0 then None else Some (now + d)) in
      if has_row tk_id new_id (api_tokens db) \<or> has_row tk_hash (hash_token secret) (api_tokens db)
         \<or> \<not> has_row pn_id pid (principals db) then Inl IntegrityError
      else Inr (db\<lparr>api_tokens := api_tokens db @ [\<lparr>tk_id = new_id, tk_principal = pid, tk_hash = hash_token secret,
             tk_prefix = take 7 secret, tk_label = label, tk_created = now, tk_expires = expires, tk_revoked = None,
             tk_last_used = None\<rparr>]\<rparr>))"

definition revoke_token :: "int \<Rightarrow> identity_db \<Rightarrow> string \<Rightarrow> bool \<times> identity_db" where
  "revoke_token now db tid =
     (list_ex (\<lambda>t. tk_id t = tid \<and> tk_revoked t = None) (api_tokens db),
      db\<lparr>api_tokens := map (\<lambda>t. if tk_id t = tid \<and> tk_revoked t = None then t\<lparr>tk_revoked := Some now\<rparr> else t)
           (api_tokens db)\<rparr>)"

text \<open>\<open>team_roles_for\<close>: the roles a principal holds through its teams, grouped by workspace.\<close>

definition team_role_rows :: "identity_db \<Rightarrow> string \<Rightarrow> (string \<times> role) list" where
  "team_role_rows db pid =
     map (\<lambda>((team, ws), r). (ws, r)) (filter (\<lambda>((team, ws), r). (team, pid) \<in> set (team_members db)) (team_roles db))"

definition team_roles_for :: "identity_db \<Rightarrow> string \<Rightarrow> role list dict" where
  "team_roles_for db pid =
     foldl (\<lambda>out (ws, r). AList.update ws (dget out ws [] @ [r]) out) [] (team_role_rows db pid)"

text \<open>
  \<open>load_principal\<close>: the workspaces are those of the direct roles followed by those reached only through a
  team; the set union in the source fixes no order.
\<close>

definition direct_roles :: "identity_db \<Rightarrow> string \<Rightarrow> role dict" where
  "direct_roles db pid = map (\<lambda>((p, ws), r). (ws, r)) (filter (\<lambda>((p, ws), r). p = pid) (memberships db))"

definition roles_of :: "role dict \<Rightarrow> role list dict \<Rightarrow> role dict" where
  "roles_of direct via =
     List.map_filter (\<lambda>ws. map_option (Pair ws) (effective_role (map_of direct ws) (dget via ws [])))
       (map fst direct @ filter (\<lambda>ws. ws \<notin> fst ` set direct) (map fst via))"

definition load_principal :: "identity_db \<Rightarrow> string \<Rightarrow> principal option" where
  "load_principal db pid =
     (case find (\<lambda>p. pn_id p = pid \<and> \<not> pn_disabled p) (principals db) of
        None \<Rightarrow> None
      | Some p \<Rightarrow> Some \<lparr>p_id = pn_id p, p_kind = pn_kind p, p_name = pn_name p, p_org = pn_org p,
                       p_roles = roles_of (direct_roles db pid) (team_roles_for db pid)\<rparr>)"

definition token_live :: "int \<Rightarrow> token_row \<Rightarrow> bool" where
  "token_live now t \<longleftrightarrow> tk_revoked t = None \<and> (case tk_expires t of None \<Rightarrow> True | Some e \<Rightarrow> \<not> e \<le> now)"

definition authenticate :: "(string \<Rightarrow> string) \<Rightarrow> int \<Rightarrow> identity_db \<Rightarrow> string \<Rightarrow> identity_error + principal \<times> identity_db" where
  "authenticate hash_token now db secret =
     (case find_row tk_hash (hash_token secret) (api_tokens db) of
        None \<Rightarrow> Inl UnknownToken
      | Some t \<Rightarrow>
          if \<not> token_live now t then Inl UnknownToken
          else (case load_principal db (tk_principal t) of
                  None \<Rightarrow> Inl UnknownToken
                | Some p \<Rightarrow> Inr (p, db\<lparr>api_tokens := update_row tk_id (tk_id t) (\<lambda>x. x\<lparr>tk_last_used := Some now\<rparr>) (api_tokens db)\<rparr>)))"

definition has_tokens :: "identity_db \<Rightarrow> bool" where
  "has_tokens db \<longleftrightarrow> list_ex (\<lambda>t. tk_revoked t = None) (api_tokens db)"

definition local_principal :: principal where
  "local_principal = \<lparr>p_id = ''local'', p_kind = ''local'', p_name = ''local user'', p_org = ''org_local'',
     p_roles = [(''ws_local'', OWNER)]\<rparr>"

section \<open>Teams\<close>

definition get_team :: "identity_db \<Rightarrow> string \<Rightarrow> string \<Rightarrow> team_row option" where
  "get_team db org team = find (\<lambda>t. tm_id t = team \<and> tm_org t = org) (teams db)"

definition create_team :: "identity_db \<Rightarrow> string \<Rightarrow> string \<Rightarrow> string \<Rightarrow> identity_error + identity_db" where
  "create_team db new_id org raw =
     bind_r (clean_name (Some raw) ''team'') (\<lambda>name.
       if list_ex (\<lambda>t. tm_org t = org \<and> tm_name t = name) (teams db) then Inl (TeamExists name)
       else if has_row tm_id new_id (teams db) \<or> org \<notin> fst ` set (organizations db) then Inl IntegrityError
       else Inr (db\<lparr>teams := teams db @ [\<lparr>tm_id = new_id, tm_org = org, tm_name = name\<rparr>]\<rparr>))"

definition add_member :: "identity_db \<Rightarrow> string \<Rightarrow> string \<Rightarrow> string \<Rightarrow> identity_error + identity_db" where
  "add_member db org team pid =
     (if get_team db org team = None then Inl NoSuchTeam
      else if \<not> list_ex (\<lambda>p. pn_id p = pid \<and> pn_org p = org) (principals db) then Inl NotInOrganisation
      else Inr (if (team, pid) \<in> set (team_members db) then db
                else db\<lparr>team_members := team_members db @ [(team, pid)]\<rparr>))"

definition remove_member :: "identity_db \<Rightarrow> string \<Rightarrow> string \<Rightarrow> string \<Rightarrow> identity_error + bool \<times> identity_db" where
  "remove_member db org team pid =
     (if get_team db org team = None then Inl NoSuchTeam
      else Inr ((team, pid) \<in> set (team_members db),
                db\<lparr>team_members := filter (\<lambda>m. m \<noteq> (team, pid)) (team_members db)\<rparr>))"

definition grant_team_role :: "identity_db \<Rightarrow> string \<Rightarrow> string \<Rightarrow> string \<Rightarrow> role \<Rightarrow> identity_error + identity_db" where
  "grant_team_role db org team ws r =
     (if get_team db org team = None then Inl NoSuchTeam
      else if \<not> list_ex (\<lambda>w. ws_id w = ws \<and> ws_org w = org) (workspaces db) then Inl WorkspaceOutsideOrg
      else Inr (db\<lparr>team_roles := AList.update (team, ws) r (team_roles db)\<rparr>))"

definition revoke_team_role :: "identity_db \<Rightarrow> string \<Rightarrow> string \<Rightarrow> bool \<times> identity_db" where
  "revoke_team_role db team ws =
     ((team, ws) \<in> fst ` set (team_roles db),
      db\<lparr>team_roles := filter (\<lambda>(k, r). k \<noteq> (team, ws)) (team_roles db)\<rparr>)"

definition is_member :: "identity_db \<Rightarrow> string \<Rightarrow> string \<Rightarrow> bool" where
  "is_member db team pid \<longleftrightarrow> (team, pid) \<in> set (team_members db)"

section \<open>Which role a principal holds\<close>

definition holds :: "identity_db \<Rightarrow> string \<Rightarrow> string \<Rightarrow> role \<Rightarrow> bool" where
  "holds db pid ws r \<longleftrightarrow> map_of (memberships db) (pid, ws) = Some r \<or>
     (\<exists>team. (team, pid) \<in> set (team_members db) \<and> ((team, ws), r) \<in> set (team_roles db))"

lemma map_of_direct_roles: "map_of (direct_roles db pid) ws = map_of (memberships db) (pid, ws)"
proof -
  have "map_of (map (\<lambda>((p, ws), r). (ws, r)) (filter (\<lambda>((p, ws), r). p = pid) ms)) ws = map_of ms (pid, ws)"
    for ms :: "((string \<times> string) \<times> role) list"
    by (induction ms) auto
  then show ?thesis by (simp add: direct_roles_def)
qed

lemma team_roles_for_iff:
  "r \<in> set (dget (team_roles_for db pid) ws []) \<longleftrightarrow>
     (\<exists>team. (team, pid) \<in> set (team_members db) \<and> ((team, ws), r) \<in> set (team_roles db))"
  unfolding team_roles_for_def group_fold by (force simp: team_role_rows_def dget_def)

lemma strongest_cong: "set rs = set rs' \<Longrightarrow> strongest rs = strongest rs'"
  by (simp add: strongest_def)

lemma strongest_None: "strongest rs = None \<longleftrightarrow> rs = []"
proof -
  have "r \<in> set ROLE_STRENGTH" for r by (cases r) (simp_all add: ROLE_STRENGTH_def)
  then show ?thesis by (cases rs) (auto simp: strongest_def find_None_iff)
qed

lemma map_of_roles_of: "map_of (roles_of d v) ws = effective_role (map_of d ws) (dget v ws [])"
proof -
  have "map_of d ws = None \<and> dget v ws [] = []" if "ws \<notin> fst ` set d" "ws \<notin> fst ` set v"
    using that by (auto simp: dget_def map_of_eq_None_iff split: option.splits) (metis fst_conv imageI map_of_SomeD)
  then show ?thesis
    using strongest_None [of "[]"]
    by (auto simp: roles_of_def map_of_map_filter effective_role_def image_iff)
qed

lemma find_cong_set: "(\<And>x. P x \<longleftrightarrow> Q x) \<Longrightarrow> find P xs = find Q xs"
  by (induction xs) auto

lemma role_in_loaded:
  assumes "load_principal db pid = Some p"
  shows "role_in p ws = find (holds db pid ws) ROLE_STRENGTH"
proof -
  have "role_in p ws = effective_role (map_of (direct_roles db pid) ws) (dget (team_roles_for db pid) ws [])"
    using assms by (auto simp: load_principal_def role_in_def map_of_roles_of split: option.splits)
  also have "\<dots> = find (holds db pid ws) ROLE_STRENGTH"
    unfolding effective_role_def strongest_def map_of_direct_roles
    by (rule find_cong_set) (auto simp: holds_def team_roles_for_iff split: option.split)
  finally show ?thesis .
qed

lemma can_holds: "load_principal db pid = Some p \<Longrightarrow> can p perm ws \<Longrightarrow> \<exists>r. holds db pid ws r \<and> perm \<in> ROLE_PERMISSIONS r"
  using role_in_loaded [of db pid p ws]
  by (auto simp: can_def role_in_def find_Some_iff split: option.splits)

section \<open>Histories of the identity tables\<close>

inductive identity_step :: "identity_db \<Rightarrow> identity_db \<Rightarrow> bool" where
  "create_org db i n = Inr db' \<Longrightarrow> identity_step db db'"
| "create_workspace db i org n = Inr db' \<Longrightarrow> identity_step db db'"
| "create_principal db i org n k = Inr db' \<Longrightarrow> identity_step db db'"
| "set_role db pid ws r = Inr db' \<Longrightarrow> identity_step db db'"
| "issue_token h now db i s pid l e = Inr db' \<Longrightarrow> identity_step db db'"
| "revoke_token now db i = (b, db') \<Longrightarrow> identity_step db db'"
| "authenticate h now db s = Inr (p, db') \<Longrightarrow> identity_step db db'"
| "create_team db i org n = Inr db' \<Longrightarrow> identity_step db db'"
| "add_member db org t pid = Inr db' \<Longrightarrow> identity_step db db'"
| "remove_member db org t pid = Inr (b, db') \<Longrightarrow> identity_step db db'"
| "grant_team_role db org t ws r = Inr db' \<Longrightarrow> identity_step db db'"
| "revoke_team_role db t ws = (b, db') \<Longrightarrow> identity_step db db'"

definition empty_identity :: identity_db where
  "empty_identity = \<lparr>organizations = [], workspaces = [], principals = [], memberships = [], api_tokens = [],
     teams = [], team_members = [], team_roles = []\<rparr>"

definition ws_org_of :: "identity_db \<Rightarrow> string \<Rightarrow> string option" where
  "ws_org_of db ws = map_option ws_org (find_row ws_id ws (workspaces db))"

definition principal_org_of :: "identity_db \<Rightarrow> string \<Rightarrow> string option" where
  "principal_org_of db pid = map_option pn_org (find_row pn_id pid (principals db))"

definition team_org_of :: "identity_db \<Rightarrow> string \<Rightarrow> string option" where
  "team_org_of db t = map_option tm_org (find_row tm_id t (teams db))"

lemma ws_org_frame [simp]:
  "ws_org_of (db\<lparr>organizations := a\<rparr>) = ws_org_of db" "ws_org_of (db\<lparr>principals := b\<rparr>) = ws_org_of db"
  "ws_org_of (db\<lparr>memberships := c\<rparr>) = ws_org_of db" "ws_org_of (db\<lparr>api_tokens := d\<rparr>) = ws_org_of db"
  "ws_org_of (db\<lparr>teams := e\<rparr>) = ws_org_of db" "ws_org_of (db\<lparr>team_members := f\<rparr>) = ws_org_of db"
  "ws_org_of (db\<lparr>team_roles := g\<rparr>) = ws_org_of db"
  by (simp_all add: ws_org_of_def fun_eq_iff)

lemma principal_org_frame [simp]:
  "principal_org_of (db\<lparr>organizations := a\<rparr>) = principal_org_of db"
  "principal_org_of (db\<lparr>workspaces := b\<rparr>) = principal_org_of db"
  "principal_org_of (db\<lparr>memberships := c\<rparr>) = principal_org_of db"
  "principal_org_of (db\<lparr>api_tokens := d\<rparr>) = principal_org_of db"
  "principal_org_of (db\<lparr>teams := e\<rparr>) = principal_org_of db"
  "principal_org_of (db\<lparr>team_members := f\<rparr>) = principal_org_of db"
  "principal_org_of (db\<lparr>team_roles := g\<rparr>) = principal_org_of db"
  by (simp_all add: principal_org_of_def fun_eq_iff)

lemma team_org_frame [simp]:
  "team_org_of (db\<lparr>organizations := a\<rparr>) = team_org_of db" "team_org_of (db\<lparr>workspaces := b\<rparr>) = team_org_of db"
  "team_org_of (db\<lparr>principals := c\<rparr>) = team_org_of db" "team_org_of (db\<lparr>memberships := d\<rparr>) = team_org_of db"
  "team_org_of (db\<lparr>api_tokens := e\<rparr>) = team_org_of db" "team_org_of (db\<lparr>team_members := f\<rparr>) = team_org_of db"
  "team_org_of (db\<lparr>team_roles := g\<rparr>) = team_org_of db"
  by (simp_all add: team_org_of_def fun_eq_iff)

text \<open>Identifiers are unique and every grant stays inside one organisation.\<close>

definition org_ok :: "identity_db \<Rightarrow> bool" where
  "org_ok db \<longleftrightarrow> distinct (map ws_id (workspaces db)) \<and> distinct (map pn_id (principals db)) \<and> distinct (map tm_id (teams db)) \<and>
     (\<forall>p w. (p, w) \<in> fst ` set (memberships db) \<longrightarrow> (\<exists>org. principal_org_of db p = Some org \<and> ws_org_of db w = Some org)) \<and>
     (\<forall>t p. (t, p) \<in> set (team_members db) \<longrightarrow> (\<exists>org. team_org_of db t = Some org \<and> principal_org_of db p = Some org)) \<and>
     (\<forall>t w. (t, w) \<in> fst ` set (team_roles db) \<longrightarrow> (\<exists>org. team_org_of db t = Some org \<and> ws_org_of db w = Some org))"

lemma get_team_org: "org_ok db \<Longrightarrow> get_team db org t \<noteq> None \<Longrightarrow> team_org_of db t = Some org"
  by (auto simp: org_ok_def get_team_def find_row_cond team_org_of_def split: if_splits
      simp: Option.bind_eq_Some_conv)

text \<open>
  What a step has to show: identifiers stay unique, known organisations are kept, and every grant is an
  old one or stays inside one organisation.
\<close>

lemma org_okI:
  assumes "org_ok db"
    and "distinct (map ws_id (workspaces db'))" "distinct (map pn_id (principals db'))" "distinct (map tm_id (teams db'))"
    and mono: "\<And>w org. ws_org_of db w = Some org \<Longrightarrow> ws_org_of db' w = Some org"
      "\<And>p org. principal_org_of db p = Some org \<Longrightarrow> principal_org_of db' p = Some org"
      "\<And>t org. team_org_of db t = Some org \<Longrightarrow> team_org_of db' t = Some org"
    and new: "\<And>p w. (p, w) \<in> fst ` set (memberships db') \<Longrightarrow> (p, w) \<in> fst ` set (memberships db) \<or>
        (\<exists>org. principal_org_of db' p = Some org \<and> ws_org_of db' w = Some org)"
      "\<And>t p. (t, p) \<in> set (team_members db') \<Longrightarrow> (t, p) \<in> set (team_members db) \<or>
        (\<exists>org. team_org_of db' t = Some org \<and> principal_org_of db' p = Some org)"
      "\<And>t w. (t, w) \<in> fst ` set (team_roles db') \<Longrightarrow> (t, w) \<in> fst ` set (team_roles db) \<or>
        (\<exists>org. team_org_of db' t = Some org \<and> ws_org_of db' w = Some org)"
  shows "org_ok db'"
proof -
  have "\<exists>org. principal_org_of db' p = Some org \<and> ws_org_of db' w = Some org"
    if "(p, w) \<in> fst ` set (memberships db')" for p w
    using new(1) [OF that] mono assms(1) unfolding org_ok_def by blast
  moreover have "\<exists>org. team_org_of db' t = Some org \<and> principal_org_of db' p = Some org"
    if "(t, p) \<in> set (team_members db')" for t p
    using new(2) [OF that] mono assms(1) unfolding org_ok_def by blast
  moreover have "\<exists>org. team_org_of db' t = Some org \<and> ws_org_of db' w = Some org"
    if "(t, w) \<in> fst ` set (team_roles db')" for t w
    using new(3) [OF that] mono assms(1) unfolding org_ok_def by blast
  ultimately show ?thesis using assms(2-4) unfolding org_ok_def by blast
qed

lemma org_ok_distinct:
  "org_ok db \<Longrightarrow> distinct (map ws_id (workspaces db)) \<and> distinct (map pn_id (principals db)) \<and> distinct (map tm_id (teams db))"
  by (simp add: org_ok_def)

lemma org_ok_step: "identity_step db db' \<Longrightarrow> org_ok db \<Longrightarrow> org_ok db'"
proof (induction rule: identity_step.induct)
  case (2 db i org n db')
  let ?r = "\<lparr>ws_id = i, ws_org = org, ws_name = n\<rparr>"
  from 2 have "\<not> has_row ws_id i (workspaces db)" and db': "db' = db\<lparr>workspaces := workspaces db @ [?r]\<rparr>"
    by (auto simp: create_workspace_def split: if_splits)
  with 2(2) show ?case using distinct_insert [of ws_id ?r "workspaces db"]
    by (intro org_okI [OF 2(2)]) (auto simp: org_ok_distinct ws_org_of_def find_row_insert has_row_iff)
next
  case (3 db i org n k db')
  let ?r = "\<lparr>pn_id = i, pn_org = org, pn_kind = k, pn_name = n, pn_disabled = False\<rparr>"
  from 3 have "\<not> has_row pn_id i (principals db)" and db': "db' = db\<lparr>principals := principals db @ [?r]\<rparr>"
    by (auto simp: create_principal_def split: if_splits)
  with 3(2) show ?case using distinct_insert [of pn_id ?r "principals db"]
    by (intro org_okI [OF 3(2)]) (auto simp: org_ok_distinct principal_org_of_def find_row_insert has_row_iff)
next
  case (4 db pid ws r db')
  then obtain org where "principal_org_of db pid = Some org" "ws_org_of db ws = Some org"
    and db': "db' = db\<lparr>memberships := AList.update (pid, ws) r (memberships db)\<rparr>"
    by (auto simp: set_role_def principal_org_of_def ws_org_of_def split: option.splits if_splits)
  with 4(2) show ?case by (intro org_okI [OF 4(2)]) (auto simp: org_ok_distinct dom_update)
next
  case (8 db i org n db')
  then obtain name where new: "\<not> has_row tm_id i (teams db)"
    and db': "db' = db\<lparr>teams := teams db @ [\<lparr>tm_id = i, tm_org = org, tm_name = name\<rparr>]\<rparr>"
    by (auto simp: create_team_def result_simps split: if_splits)
  with 8(2) show ?case using distinct_insert [of tm_id "\<lparr>tm_id = i, tm_org = org, tm_name = name\<rparr>" "teams db"]
    by (intro org_okI [OF 8(2)]) (auto simp: org_ok_distinct team_org_of_def find_row_insert has_row_iff)
next
  case (9 db org t pid db')
  then have "get_team db org t \<noteq> None" "principal_org_of db pid = Some org"
      "set (team_members db') \<subseteq> insert (t, pid) (set (team_members db))"
    and db': "db' = db\<lparr>team_members := team_members db'\<rparr>"
    by (auto simp: add_member_def org_ok_distinct ex_row_cond principal_org_of_def split: if_splits)
  then have "team_org_of db t = Some org" using get_team_org [OF 9(2)] by blast
  then show ?case using \<open>principal_org_of db pid = Some org\<close> \<open>set (team_members db') \<subseteq> _\<close> 9(2)
    by (subst db', intro org_okI [OF 9(2)]) (auto simp: org_ok_distinct)
next
  case (11 db org t ws r db')
  then have "get_team db org t \<noteq> None" "ws_org_of db ws = Some org"
    and db': "db' = db\<lparr>team_roles := AList.update (t, ws) r (team_roles db)\<rparr>"
    by (auto simp: grant_team_role_def org_ok_distinct ex_row_cond ws_org_of_def split: if_splits)
  then show ?case using get_team_org [OF 11(2)] 11(2)
    by (intro org_okI [OF 11(2)]) (auto simp: org_ok_distinct dom_update)
qed ((rule org_okI, assumption; auto simp: create_org_def issue_token_def revoke_token_def authenticate_def remove_member_def
    revoke_team_role_def Let_def org_ok_distinct split: if_splits option.splits)+)

interpretation organisations: state_machine identity_step org_ok
  by unfold_locales (rule org_ok_step)

lemma org_ok_reachable: "identity_step\<^sup>*\<^sup>* empty_identity db \<Longrightarrow> org_ok db"
  by (erule organisations.ok_steps) (simp add: org_ok_def empty_identity_def)

text \<open>A membership or a team grant always names a workspace of the principal's own organisation.\<close>

lemma holds_same_org:
  "org_ok db \<Longrightarrow> holds db pid ws r \<Longrightarrow> \<exists>org. principal_org_of db pid = Some org \<and> ws_org_of db ws = Some org"
proof -
  assume ok: "org_ok db" and "holds db pid ws r"
  then consider "(pid, ws) \<in> fst ` set (memberships db)"
    | t where "(t, pid) \<in> set (team_members db)" "(t, ws) \<in> fst ` set (team_roles db)"
    unfolding holds_def by (force dest: map_of_SomeD)
  then show ?thesis
    by cases (use ok [unfolded org_ok_def] in \<open>(metis option.inject)+\<close>)
qed

lemma load_principal_org: "org_ok db \<Longrightarrow> load_principal db pid = Some p \<Longrightarrow> principal_org_of db pid = Some (p_org p)"
  by (auto simp: load_principal_def find_row_cond org_ok_distinct principal_org_of_def Option.bind_eq_Some_conv
      split: option.splits if_splits)

text \<open>
  C21: Whatever sequence of successful identity operations produced the tables, a principal is permitted something
  in a workspace only if that workspace belongs to the principal's own organisation and the permission is in the
  table entry of a role the principal holds there, directly or through a team.
\<close>

theorem permissions_stay_in_organisation:
  assumes "identity_step\<^sup>*\<^sup>* empty_identity db" and "load_principal db pid = Some p" and "can p perm ws"
  shows "ws_org_of db ws = Some (p_org p) \<and> (\<exists>r. holds db pid ws r \<and> perm \<in> ROLE_PERMISSIONS r)"
proof -
  note ok = org_ok_reachable [OF assms(1)]
  obtain r where r: "holds db pid ws r" "perm \<in> ROLE_PERMISSIONS r" using can_holds [OF assms(2,3)] by blast
  then show ?thesis using holds_same_org [OF ok r(1)] load_principal_org [OF ok assms(2)] by auto
qed

definition small_identity :: identity_db where
  "small_identity = \<lparr>organizations = [(''o'', ''Org'')], workspaces = [\<lparr>ws_id = ''w'', ws_org = ''o'', ws_name = ''W''\<rparr>],
     principals = [\<lparr>pn_id = ''p'', pn_org = ''o'', pn_kind = ''user'', pn_name = ''Ann'', pn_disabled = False\<rparr>],
     memberships = [((''p'', ''w''), DEVELOPER)], api_tokens = [], teams = [], team_members = [], team_roles = []\<rparr>"

lemma small_identity_reachable: "identity_step\<^sup>*\<^sup>* empty_identity small_identity"
proof -
  let ?a = "empty_identity\<lparr>organizations := [(''o'', ''Org'')]\<rparr>"
  let ?b = "?a\<lparr>workspaces := [\<lparr>ws_id = ''w'', ws_org = ''o'', ws_name = ''W''\<rparr>]\<rparr>"
  let ?c = "?b\<lparr>principals := [\<lparr>pn_id = ''p'', pn_org = ''o'', pn_kind = ''user'', pn_name = ''Ann'', pn_disabled = False\<rparr>]\<rparr>"
  have "identity_step empty_identity ?a"
    by (rule identity_step.intros(1) [of _ "''o''" "''Org''"]) (simp add: create_org_def empty_identity_def)
  moreover have "identity_step ?a ?b"
    by (rule identity_step.intros(2) [of _ "''w''" "''o''" "''W''"]) (simp add: create_workspace_def empty_identity_def has_row_def)
  moreover have "identity_step ?b ?c"
    by (rule identity_step.intros(3) [of _ "''p''" "''o''" "''Ann''" "''user''"])
       (simp add: create_principal_def empty_identity_def has_row_def)
  moreover have "identity_step ?c small_identity"
    by (rule identity_step.intros(4) [of _ "''p''" "''w''" DEVELOPER])
       (simp add: set_role_def empty_identity_def find_row_Cons small_identity_def)
  ultimately show ?thesis by (meson r_into_rtranclp rtranclp_trans)
qed

lemma small_identity_principal:
  "load_principal small_identity ''p'' = Some \<lparr>p_id = ''p'', p_kind = ''user'', p_name = ''Ann'', p_org = ''o'',
     p_roles = [(''w'', DEVELOPER)]\<rparr>"
  by (simp add: load_principal_def small_identity_def direct_roles_def team_roles_for_def team_role_rows_def roles_of_def
      List.map_filter_def effective_role_def strongest_def ROLE_STRENGTH_def dget_def)

theorem permissions_stay_in_organisation_witness:
  "\<exists>p. load_principal small_identity ''p'' = Some p \<and> can p RUN_CREATE ''w'' \<and> ws_org_of small_identity ''w'' = Some (p_org p)"
  using permissions_stay_in_organisation [OF small_identity_reachable small_identity_principal, of RUN_CREATE "''w''"]
    small_identity_principal by (simp add: can_def)

text \<open>Of several roles the one that comes first in \<open>ROLE_STRENGTH\<close> counts; none means no role at all.\<close>

lemma role_first_held:
  "load_principal db pid = Some p \<Longrightarrow>
   role_in p ws = (if \<exists>r. holds db pid ws r then Some (hd (filter (holds db pid ws) ROLE_STRENGTH)) else None)"
proof -
  assume a: "load_principal db pid = Some p"
  have all: "r \<in> set ROLE_STRENGTH" for r by (cases r) (simp_all add: ROLE_STRENGTH_def)
  have "find P xs = (if filter P xs = [] then None else Some (hd (filter P xs)))" for P and xs :: "role list"
    by (induction xs) auto
  then show ?thesis unfolding role_in_loaded [OF a] using all by (auto simp: filter_empty_conv)
qed

lemma automation_cannot_approve: "role_in p ws = Some SERVICE \<Longrightarrow> \<not> can p APPROVAL_DECIDE ws"
  by (simp add: role_in_def can_def)

lemma grants_never_exceed_granter: "may_grant g t \<Longrightarrow> ROLE_PERMISSIONS t \<subseteq> ROLE_PERMISSIONS g"
  by (cases g; cases t) (auto simp: may_grant_def all_permissions_def)

section \<open>Bearer tokens\<close>

text \<open>The token the secret resolves to has been revoked.\<close>

definition revoked_secret :: "(string \<Rightarrow> string) \<Rightarrow> identity_db \<Rightarrow> string \<Rightarrow> bool" where
  "revoked_secret hash_token db secret \<longleftrightarrow>
     (case find_row tk_hash (hash_token secret) (api_tokens db) of None \<Rightarrow> False | Some t \<Rightarrow> tk_revoked t \<noteq> None)"

lemma find_row_map_keep:
  "(\<And>r. key (f r) = key r) \<Longrightarrow> find_row key k (map f rows) = map_option f (find_row key k rows)"
  by (induction rows) (auto simp: find_row_Cons)

lemma revoked_step:
  "identity_step db db' \<Longrightarrow> revoked_secret h db s \<Longrightarrow> revoked_secret h db' s"
proof (induction rule: identity_step.induct)
  case (6 now db i b db')
  then show ?case
    by (auto simp: revoke_token_def revoked_secret_def find_row_map_keep split: option.splits)
next
  case (7 h' now db s' p db')
  then obtain t where "db' = db\<lparr>api_tokens := map (\<lambda>x. if tk_id x = t then x\<lparr>tk_last_used := Some now\<rparr> else x) (api_tokens db)\<rparr>"
    by (auto simp: authenticate_def update_row_def split: option.splits if_splits)
  with 7(2) show ?case by (auto simp: revoked_secret_def find_row_map_keep split: option.splits)
qed (auto simp: create_org_def create_workspace_def create_principal_def set_role_def issue_token_def create_team_def
    add_member_def remove_member_def grant_team_role_def revoke_team_role_def revoked_secret_def Let_def result_simps
    find_row_append split: if_splits option.splits)

interpretation revocations: state_machine identity_step "\<lambda>db. revoked_secret hash_token db secret" for hash_token secret
  by unfold_locales (rule revoked_step)

text \<open>
  Once the token a secret resolves to has been revoked, the secret is refused for ever: after any
  further sequence of identity operations, at any time, \<open>authenticate\<close> raises \<open>UnknownToken\<close>.
\<close>

theorem revoked_token_stays_refused:
  assumes "find_row tk_hash (hash_token secret) (api_tokens db) = Some t"
    and "identity_step\<^sup>*\<^sup>* (snd (revoke_token now db (tk_id t))) db'"
  shows "authenticate hash_token later db' secret = Inl UnknownToken"
proof -
  have "revoked_secret hash_token (snd (revoke_token now db (tk_id t))) secret"
    using assms(1) by (auto simp: revoked_secret_def revoke_token_def find_row_map_keep)
  with assms(2) have "revoked_secret hash_token db' secret" by (rule revocations.ok_steps)
  then show ?thesis by (auto simp: revoked_secret_def authenticate_def token_live_def split: option.splits)
qed

definition one_token :: identity_db where
  "one_token = small_identity\<lparr>api_tokens := [\<lparr>tk_id = ''t'', tk_principal = ''p'', tk_hash = ''pq_x'', tk_prefix = ''pq_x'',
     tk_label = [], tk_created = 0, tk_expires = None, tk_revoked = None, tk_last_used = None\<rparr>]\<rparr>"

theorem revoked_token_stays_refused_witness:
  "\<not> (\<exists>e. authenticate id 1 one_token ''pq_x'' = Inl e) \<and>
   authenticate id 9 (snd (revoke_token 5 one_token ''t'')) ''pq_x'' = Inl UnknownToken"
proof
  show "\<not> (\<exists>e. authenticate id 1 one_token ''pq_x'' = Inl e)"
    by (simp add: authenticate_def one_token_def find_row_Cons token_live_def load_principal_def small_identity_def)
  show "authenticate id 9 (snd (revoke_token 5 one_token ''t'')) ''pq_x'' = Inl UnknownToken"
    by (rule revoked_token_stays_refused [of id "''pq_x''" one_token "hd (api_tokens one_token)" 5])
       (simp_all add: one_token_def find_row_Cons)
qed

text \<open>A token just issued authenticates as its principal until it expires.\<close>

lemma issued_token_authenticates:
  assumes "issue_token hash_token now db new_id secret pid label expires_in = Inr db'"
    and "load_principal db pid = Some p" and "case expires_in of None \<Rightarrow> True | Some d \<Rightarrow> d = 0 \<or> later < now + d"
  shows "\<exists>db''. authenticate hash_token later db' secret = Inr (p, db'')"
proof -
  have frame: "load_principal (db\<lparr>api_tokens := x\<rparr>) pid = load_principal db pid" for x
    by (simp add: load_principal_def direct_roles_def team_roles_for_def team_role_rows_def split: option.split)
  from assms show ?thesis
    by (auto simp: issue_token_def Let_def authenticate_def find_row_append find_row_Cons has_row_iff frame token_live_def
        split: if_splits option.splits)
qed

end
