(* ===== verification/Paths.thy ===== *)
theory Paths
  imports Prelude
begin

text \<open>
  Path safety (\<open>paths.py\<close>): paths as lists of components. What a path really points at, after following
  symbolic links, depends on the file system and is the parameter \<open>follow\<close>; the credential directories that are
  always refused are the parameter \<open>forbidden\<close> (they are computed from the home directory).
\<close>

text \<open>\<open>Path(p).parts\<close> below the root: empty and \<open>.\<close> components disappear.\<close>

definition path_parts :: "string \<Rightarrow> string list" where
  "path_parts p = filter (\<lambda>w. w \<noteq> [] \<and> w \<noteq> ''.'') (split_on (CHR ''/'') p)"

definition is_within :: "string list \<Rightarrow> string list \<Rightarrow> bool" where
  "is_within path base \<longleftrightarrow> prefix base path"

definition PROTECTED_DIRS :: "string list" where
  "PROTECTED_DIRS = [''.git'']"

datatype path_error = EmptyPath | AbsolutePath string | PathTraversal string | ProtectedDir string | OutsideRepo string | ForbiddenDir

definition resolve_in_repo :: "(string list \<Rightarrow> string list) \<Rightarrow> string list list \<Rightarrow> string list \<Rightarrow> string \<Rightarrow> bool
    \<Rightarrow> path_error + string list" where
  "resolve_in_repo follow forbidden repo rel for_write =
     (if rel = [] \<or> CHR 0x00 \<in> set rel then Inl EmptyPath
      else if hd rel \<in> {CHR ''/'', CHR ''~'', CHR 0x5C} then Inl (AbsolutePath rel)
      else
        let parts = path_parts rel in
        if ''..'' \<in> set parts then Inl (PathTraversal rel)
        else if for_write \<and> parts \<noteq> [] \<and> hd parts \<in> set PROTECTED_DIRS then Inl (ProtectedDir rel)
        else
          let base = follow repo; target = follow (base @ parts) in
          if \<not> is_within target base then Inl (OutsideRepo rel)
          else if list_ex (is_within target) forbidden then Inl ForbiddenDir
          else Inr target)"

definition is_inside_repo :: "(string list \<Rightarrow> string list) \<Rightarrow> string list \<Rightarrow> string list \<Rightarrow> bool" where
  "is_inside_repo follow path repo \<longleftrightarrow> is_within (follow path) (follow repo)"

definition is_path_safe :: "(string list \<Rightarrow> string list) \<Rightarrow> string list list \<Rightarrow> bool \<Rightarrow> string list \<Rightarrow> string list \<Rightarrow> bool" where
  "is_path_safe follow forbidden allow_outside_repo path repo =
     (if list_ex (is_within (follow path)) forbidden then False
      else if \<not> is_within (follow path) (follow repo) \<and> \<not> allow_outside_repo then False
      else True)"

lemma resolve_in_repo_sound:
  assumes "resolve_in_repo follow forbidden base rel w = Inr target"
  shows "is_within target (follow base)" "\<not> list_ex (is_within target) forbidden" "target = follow (follow base @ path_parts rel)"
    "''..'' \<notin> set (path_parts rel)" "w \<Longrightarrow> path_parts rel = [] \<or> hd (path_parts rel) \<notin> set PROTECTED_DIRS"
  using assms by (auto simp: resolve_in_repo_def Let_def split: if_splits)

text \<open>A write check accepts exactly the paths a read check accepts, less the protected directories.\<close>

lemma resolve_write_read:
  "resolve_in_repo follow forbidden base rel True = Inr t \<Longrightarrow> resolve_in_repo follow forbidden base rel False = Inr t"
  by (auto simp: resolve_in_repo_def Let_def split: if_splits)

text \<open>
  Containment. Whatever a model or user supplies as a path, \<open>resolve_in_repo\<close> either raises or returns the real
  location of a path that lies inside the real repository root and outside every forbidden directory; the
  text itself has no parent reference and, for writes, does not start in a protected directory.
\<close>

theorem resolve_in_repo_contained:
  "case resolve_in_repo follow forbidden base rel for_write of
     Inl e \<Rightarrow> True
   | Inr target \<Rightarrow> prefix (follow base) target \<and> (\<forall>d. d \<in> set forbidden \<longrightarrow> \<not> prefix d target) \<and>
       target = follow (follow base @ path_parts rel) \<and> ''..'' \<notin> set (path_parts rel) \<and>
       (for_write \<longrightarrow> path_parts rel = [] \<or> hd (path_parts rel) \<notin> set PROTECTED_DIRS)"
  using resolve_in_repo_sound [of follow forbidden base rel for_write]
  by (cases "resolve_in_repo follow forbidden base rel for_write") (auto simp: is_within_def list_ex_iff)

text \<open>
  A concrete run of the check: a plain file passes, and so does the example of \<open>resolve_in_repo_contained\<close>.
\<close>

definition link_to_git :: "string list \<Rightarrow> string list" where
  "link_to_git p = (if prefix [''r'', ''link''] p then [''r'', ''.git''] @ drop 2 p else p)"

theorem resolve_in_repo_contained_witness:
  "resolve_in_repo id [[''home'', ''.ssh'']] [''r''] ''src/a.py'' True = Inr [''r'', ''src'', ''a.py''] \<and>
   prefix [''r''] [''r'', ''src'', ''a.py'']"
proof -
  have r: "resolve_in_repo id [[''home'', ''.ssh'']] [''r''] ''src/a.py'' True = Inr [''r'', ''src'', ''a.py'']"
    by (simp add: resolve_in_repo_def path_parts_def Let_def PROTECTED_DIRS_def is_within_def)
  show ?thesis using resolve_in_repo_contained [where follow = id and forbidden = "[[''home'', ''.ssh'']]" and base = "[''r'']"
      and rel = "''src/a.py''" and for_write = True] r by simp
qed

text \<open>
  The write check looks at the first component of the text, not at where the path leads: through a symbolic link inside the
  repository that points at \<open>.git\<close>, a write into \<open>.git\<close> is accepted.
\<close>

theorem protected_dir_reachable_through_link:
  "resolve_in_repo link_to_git forbidden [''r''] ''link/hooks/pre-commit'' True
     = (if list_ex (is_within [''r'', ''.git'', ''hooks'', ''pre-commit'']) forbidden then Inl ForbiddenDir
        else Inr [''r'', ''.git'', ''hooks'', ''pre-commit''])"
  by (simp add: resolve_in_repo_def path_parts_def Let_def PROTECTED_DIRS_def is_within_def link_to_git_def)

end
