(* ===== verification/Tenancy.thy ===== *)
theory Tenancy
  imports Identity Paths
begin

text \<open>
  Projects and repositories (\<open>persistence/tenancy.py\<close>): which workspace a path belongs to, and who may start a run
  on it. \<open>Path.resolve\<close> depends on the file system and is the parameter \<open>resolve\<close>; resolved paths are
  absolute, so a path is its list of components. The scan of \<open>check_registrable\<close> is a parameter of the API
  layer and not part of the registration modelled here.

  The lemmas show that registered paths of different workspaces never overlap, hence that two
  workspaces can never act on the same path.
\<close>

section \<open>Paths\<close>

definition is_relative_to :: "string \<Rightarrow> string \<Rightarrow> bool" where
  "is_relative_to a b \<longleftrightarrow> prefix (path_parts b) (path_parts a)"

definition overlaps :: "string \<Rightarrow> string \<Rightarrow> bool" where
  "overlaps a b \<longleftrightarrow> path_parts a = path_parts b \<or> is_relative_to a b \<or> is_relative_to b a"

definition path_name :: "string \<Rightarrow> string" where
  "path_name p = (case rev (path_parts p) of [] \<Rightarrow> [] | w # _ \<Rightarrow> w)"

section \<open>The tables\<close>

record project_row =
  pj_id :: string
  pj_workspace :: string
  pj_name :: string
  pj_team :: "string option"

record repo_row =
  rp_id :: string
  rp_workspace :: string
  rp_project :: "string option"
  rp_name :: string
  rp_path :: string
  rp_created_by :: string
  rp_archived :: "int option"

record tenancy_db =
  ids :: identity_db
  projects :: "project_row list"
  repositories :: "repo_row list"

datatype tenancy_error =
    TenancyName identity_error | NoSuchTeamInOrg | ProjectExists string | NoSuchProject | NoSuchRepository
  | RepositoryClaimed | RepositoryNotRegistered string string | ProjectAccessDenied string | TenancyIntegrity

definition live :: "repo_row \<Rightarrow> bool" where
  "live r \<longleftrightarrow> rp_archived r = None"

definition get_project :: "tenancy_db \<Rightarrow> string \<Rightarrow> string \<Rightarrow> project_row option" where
  "get_project db ws pid = find (\<lambda>p. pj_id p = pid \<and> pj_workspace p = ws) (projects db)"

definition create_project :: "tenancy_db \<Rightarrow> string \<Rightarrow> string \<Rightarrow> string \<Rightarrow> string \<Rightarrow> string option \<Rightarrow> tenancy_error + tenancy_db" where
  "create_project db new_id org ws raw team =
     (case clean_name (Some raw) ''project'' of
        Inl e \<Rightarrow> Inl (TenancyName e)
      | Inr name \<Rightarrow>
          if (case team of None \<Rightarrow> False | Some t \<Rightarrow> get_team (ids db) org t = None) then Inl NoSuchTeamInOrg
          else if list_ex (\<lambda>p. pj_workspace p = ws \<and> pj_name p = name) (projects db) then Inl (ProjectExists name)
          else if has_row pj_id new_id (projects db) \<or> \<not> has_row ws_id ws (workspaces (ids db)) then Inl TenancyIntegrity
          else Inr (db\<lparr>projects := projects db @ [\<lparr>pj_id = new_id, pj_workspace = ws, pj_name = name, pj_team = team\<rparr>]\<rparr>))"

definition set_project_team :: "tenancy_db \<Rightarrow> string \<Rightarrow> string \<Rightarrow> string \<Rightarrow> string option \<Rightarrow> tenancy_error + tenancy_db" where
  "set_project_team db org ws pid team =
     (if get_project db ws pid = None then Inl NoSuchProject
      else if (case team of None \<Rightarrow> False | Some t \<Rightarrow> get_team (ids db) org t = None) then Inl NoSuchTeamInOrg
      else Inr (db\<lparr>projects := update_row pj_id pid (\<lambda>p. p\<lparr>pj_team := team\<rparr>) (projects db)\<rparr>))"

text \<open>
  The loop of \<open>register_repository\<close> over the live rows: the owner's own row ends it with that row, another
  workspace's overlapping row with an error.
\<close>

fun claim_loop :: "string \<Rightarrow> string \<Rightarrow> repo_row list \<Rightarrow> tenancy_error + repo_row option" where
  "claim_loop ws canonical [] = Inr None"
| "claim_loop ws canonical (r # rs) =
     (if rp_workspace r = ws then if rp_path r = canonical then Inr (Some r) else claim_loop ws canonical rs
      else if overlaps canonical (rp_path r) then Inl RepositoryClaimed
      else claim_loop ws canonical rs)"

definition register_repository :: "(string \<Rightarrow> string) \<Rightarrow> tenancy_db \<Rightarrow> string \<Rightarrow> string \<Rightarrow> string \<Rightarrow> string option
    \<Rightarrow> string option \<Rightarrow> string \<Rightarrow> tenancy_error + repo_row \<times> tenancy_db" where
  "register_repository resolve db new_id ws path name project created_by =
     (let canonical = resolve path in
      bind_r (claim_loop ws canonical (filter live (repositories db))) (\<lambda>found.
        case found of Some r \<Rightarrow> Inr (r, db)
        | None \<Rightarrow>
          if (case project of None \<Rightarrow> False | Some p \<Rightarrow> get_project db ws p = None) then Inl NoSuchProject
          else (case clean_name (Some (case name of None \<Rightarrow> path_name canonical
                                  | Some n \<Rightarrow> if n = [] then path_name canonical else n)) ''repository'' of
                  Inl e \<Rightarrow> Inl (TenancyName e)
                | Inr label \<Rightarrow>
                    let r = \<lparr>rp_id = new_id, rp_workspace = ws, rp_project = project, rp_name = label, rp_path = canonical,
                             rp_created_by = created_by, rp_archived = None\<rparr>
                    in if has_row rp_id new_id (repositories db) \<or> \<not> has_row ws_id ws (workspaces (ids db))
                          \<or> list_ex (\<lambda>x. live x \<and> rp_path x = canonical) (repositories db)
                       then Inl TenancyIntegrity
                       else Inr (r, db\<lparr>repositories := repositories db @ [r]\<rparr>))))"

definition get_repository :: "tenancy_db \<Rightarrow> string \<Rightarrow> string \<Rightarrow> repo_row option" where
  "get_repository db ws rid = find (\<lambda>r. rp_id r = rid \<and> rp_workspace r = ws) (repositories db)"

definition list_repositories :: "tenancy_db \<Rightarrow> string \<Rightarrow> string option \<Rightarrow> repo_row list" where
  "list_repositories db ws project =
     sort_key rp_name (filter (\<lambda>r. rp_workspace r = ws \<and> live r \<and>
        (case project of None \<Rightarrow> True | Some p \<Rightarrow> p = [] \<or> rp_project r = Some p)) (repositories db))"

definition archive_repository :: "int \<Rightarrow> tenancy_db \<Rightarrow> string \<Rightarrow> string \<Rightarrow> bool \<times> tenancy_db" where
  "archive_repository now db ws rid =
     (list_ex (\<lambda>r. rp_id r = rid \<and> rp_workspace r = ws \<and> live r) (repositories db),
      db\<lparr>repositories := map (\<lambda>r. if rp_id r = rid \<and> rp_workspace r = ws \<and> live r then r\<lparr>rp_archived := Some now\<rparr> else r)
           (repositories db)\<rparr>)"

definition assign_repository :: "tenancy_db \<Rightarrow> string \<Rightarrow> string \<Rightarrow> string option \<Rightarrow> tenancy_error + tenancy_db" where
  "assign_repository db ws rid project =
     (if get_repository db ws rid = None then Inl NoSuchRepository
      else if (case project of None \<Rightarrow> False | Some p \<Rightarrow> get_project db ws p = None) then Inl NoSuchProject
      else Inr (db\<lparr>repositories := update_row rp_id rid (\<lambda>r. r\<lparr>rp_project := project\<rparr>) (repositories db)\<rparr>))"

text \<open>\<open>repository_for_path\<close>: of the workspace's roots that enclose the path, the first with the longest text.\<close>

definition encloses :: "string \<Rightarrow> repo_row \<Rightarrow> bool" where
  "encloses canonical r \<longleftrightarrow> path_parts canonical = path_parts (rp_path r) \<or> is_relative_to canonical (rp_path r)"

definition repository_for_path :: "(string \<Rightarrow> string) \<Rightarrow> tenancy_db \<Rightarrow> string \<Rightarrow> string \<Rightarrow> repo_row option" where
  "repository_for_path resolve db ws path =
     keep_best (\<lambda>r. length (rp_path r)) None
       (filter (\<lambda>r. rp_workspace r = ws \<and> live r \<and> encloses (resolve path) r) (repositories db))"

definition IMPLICIT_WORKSPACE :: string where
  "IMPLICIT_WORKSPACE = ''ws_local''"

text \<open>An actor text of the form \<open>user:id\<close> or \<open>service:id\<close> names a person or an automation; anything else is the system.\<close>

definition named_principal :: "string option \<Rightarrow> string option" where
  "named_principal who =
     (case who of None \<Rightarrow> None
      | Some a \<Rightarrow> if CHR '':'' \<in> set a \<and> before_char (CHR '':'') a \<in> {''user'', ''service''}
                  then Some (after_char (CHR '':'') a) else None)"

definition check_run_allowed :: "(string \<Rightarrow> string) \<Rightarrow> tenancy_db \<Rightarrow> string \<Rightarrow> string \<Rightarrow> string option
    \<Rightarrow> tenancy_error + repo_row option" where
  "check_run_allowed resolve db ws path who =
     (if ws = IMPLICIT_WORKSPACE then Inr None
      else (case repository_for_path resolve db ws path of
          None \<Rightarrow> Inl (RepositoryNotRegistered path ws)
        | Some repo \<Rightarrow>
            (case (case rp_project repo of None \<Rightarrow> None | Some p \<Rightarrow> if p = [] then None else get_project db ws p) of
               None \<Rightarrow> Inr (Some repo)
             | Some project \<Rightarrow>
                (case (pj_team project, named_principal who) of
                   (Some team, Some pid) \<Rightarrow>
                     if team = [] then Inr (Some repo)
                     else let r = (case load_principal (ids db) pid of None \<Rightarrow> None | Some p \<Rightarrow> role_in p ws)
                          in if \<not> (is_member (ids db) team pid \<or> r \<in> {Some OWNER, Some ADMIN})
                             then Inl (ProjectAccessDenied (pj_name project)) else Inr (Some repo)
                 | _ \<Rightarrow> Inr (Some repo)))))"

section \<open>Tenants never share a path\<close>

definition isolated :: "tenancy_db \<Rightarrow> bool" where
  "isolated db \<longleftrightarrow> (\<forall>a b. a \<in> set (repositories db) \<and> b \<in> set (repositories db) \<and> live a \<and> live b \<and>
     rp_workspace a \<noteq> rp_workspace b \<longrightarrow> \<not> overlaps (rp_path a) (rp_path b))"

lemma overlaps_sym: "overlaps a b \<longleftrightarrow> overlaps b a"
  by (auto simp: overlaps_def)

lemma claim_loop_None:
  "claim_loop ws c rs = Inr None \<Longrightarrow> r \<in> set rs \<Longrightarrow> rp_workspace r \<noteq> ws \<Longrightarrow> \<not> overlaps c (rp_path r)"
  by (induction rs) (auto split: if_splits)

lemma isolatedI:
  assumes "isolated db"
    and "\<And>r. r \<in> set (repositories db') \<Longrightarrow> live r \<Longrightarrow>
      (\<exists>o' \<in> set (repositories db). live o' \<and> rp_workspace o' = rp_workspace r \<and> rp_path o' = rp_path r)"
  shows "isolated db'"
  unfolding isolated_def
proof (intro allI impI)
  fix a b
  assume ab: "a \<in> set (repositories db') \<and> b \<in> set (repositories db') \<and> live a \<and> live b \<and> rp_workspace a \<noteq> rp_workspace b"
  with assms(2) [of a] assms(2) [of b] obtain a' b' where
    "a' \<in> set (repositories db)" "live a'" "rp_workspace a' = rp_workspace a" "rp_path a' = rp_path a"
    "b' \<in> set (repositories db)" "live b'" "rp_workspace b' = rp_workspace b" "rp_path b' = rp_path b" by blast
  with assms(1) ab show "\<not> overlaps (rp_path a) (rp_path b)" unfolding isolated_def by metis
qed

inductive tenancy_step :: "tenancy_db \<Rightarrow> tenancy_db \<Rightarrow> bool" where
  identity: "identity_step (ids db) i \<Longrightarrow> tenancy_step db (db\<lparr>ids := i\<rparr>)"
| new_project: "create_project db i org ws n t = Inr db' \<Longrightarrow> tenancy_step db db'"
| project_team: "set_project_team db org ws p t = Inr db' \<Longrightarrow> tenancy_step db db'"
| register: "register_repository resolve db i ws path n p c = Inr (r, db') \<Longrightarrow> tenancy_step db db'"
| archive: "archive_repository now db ws rid = (b, db') \<Longrightarrow> tenancy_step db db'"
| assign: "assign_repository db ws rid p = Inr db' \<Longrightarrow> tenancy_step db db'"

lemma register_isolated:
  assumes "register_repository resolve db i ws path n p c = Inr (r, db')" and "isolated db"
  shows "isolated db'"
proof -
  obtain found where found: "claim_loop ws (resolve path) (filter live (repositories db)) = Inr found"
    using assms(1) by (auto simp: register_repository_def Let_def result_simps)
  from assms(1) consider "db' = db"
    | new where "claim_loop ws (resolve path) (filter live (repositories db)) = Inr None"
      "db' = db\<lparr>repositories := repositories db @ [new]\<rparr>" "rp_workspace new = ws" "rp_path new = resolve path"
    unfolding register_repository_def using found
    by (cases found) (auto simp: Let_def result_simps split: if_splits sum.splits)
  then show ?thesis
  proof cases
    case 2
    have "\<not> overlaps (resolve path) (rp_path x)" if "x \<in> set (repositories db)" "live x" "rp_workspace x \<noteq> ws" for x
      using claim_loop_None [OF 2(1), of x] that by simp
    with 2 assms(2) show ?thesis by (auto simp: isolated_def overlaps_sym)
  qed (use assms(2) in simp)
qed

lemma isolated_step: "tenancy_step db db' \<Longrightarrow> isolated db \<Longrightarrow> isolated db'"
proof (induction rule: tenancy_step.induct)
  case (register resolve db i ws path n p c r db')
  then show ?case by (rule register_isolated)
qed (erule isolatedI; force simp: create_project_def set_project_team_def archive_repository_def assign_repository_def
    update_row_def live_def split: sum.splits option.splits if_splits)+

lemma repository_for_path_encloses:
  assumes "repository_for_path resolve db ws path = Some r"
  shows "r \<in> set (repositories db)" "live r" "rp_workspace r = ws" "prefix (path_parts (rp_path r)) (path_parts (resolve path))"
  using keep_best_in [OF assms [unfolded repository_for_path_def]] by (auto simp: encloses_def is_relative_to_def)

lemma check_run_allowed_repo:
  assumes "check_run_allowed resolve db ws path who = Inr x" and "ws \<noteq> IMPLICIT_WORKSPACE"
  shows "\<exists>r. x = Some r \<and> repository_for_path resolve db ws path = Some r"
  using assms by (auto simp: check_run_allowed_def Let_def split: option.splits if_splits)

interpretation tenants: state_machine tenancy_step isolated
  by unfold_locales (rule isolated_step)

lemma isolated_reachable:
  "tenancy_step\<^sup>*\<^sup>* \<lparr>ids = empty_identity, projects = [], repositories = []\<rparr> db \<Longrightarrow> isolated db"
  by (erule tenants.ok_steps) (simp add: isolated_def)

text \<open>
  Tenant isolation. Whatever sequence of operations on identities, projects and repositories built
  the tables: if a run on a path is allowed in one named workspace, every other named workspace is refused the same
  path as not registered, whoever asks.
\<close>

theorem workspaces_never_share_a_path:
  assumes "tenancy_step\<^sup>*\<^sup>* \<lparr>ids = empty_identity, projects = [], repositories = []\<rparr> db"
    and "check_run_allowed resolve db ws path who = Inr x"
    and "ws \<noteq> IMPLICIT_WORKSPACE" and "ws' \<noteq> IMPLICIT_WORKSPACE" and "ws \<noteq> ws'"
  shows "check_run_allowed resolve db ws' path who' = Inl (RepositoryNotRegistered path ws')"
proof (cases "repository_for_path resolve db ws' path")
  case None
  then show ?thesis using assms(4) by (simp add: check_run_allowed_def)
next
  case (Some r')
  obtain r where "repository_for_path resolve db ws path = Some r"
    using check_run_allowed_repo [OF assms(2,3)] by blast
  note r = repository_for_path_encloses [OF this] repository_for_path_encloses [OF Some]
  have "overlaps (rp_path r) (rp_path r')"
    using prefix_same_cases [OF r(4) r(8)] by (auto simp: overlaps_def is_relative_to_def)
  with isolated_reachable [OF assms(1)] r assms(5) show ?thesis unfolding isolated_def by blast
qed

definition small_tenancy :: tenancy_db where
  "small_tenancy = \<lparr>ids = small_identity, projects = [],
     repositories = [\<lparr>rp_id = ''r'', rp_workspace = ''w'', rp_project = None, rp_name = ''r'', rp_path = ''/r'',
        rp_created_by = ''user:p'', rp_archived = None\<rparr>]\<rparr>"

lemma tenancy_identity_steps:
  "identity_step\<^sup>*\<^sup>* i j \<Longrightarrow> tenancy_step\<^sup>*\<^sup>* (db\<lparr>ids := i\<rparr>) (db\<lparr>ids := j\<rparr>)"
proof (induction rule: rtranclp_induct)
  case base
  show ?case by simp
next
  case (step y z)
  have "tenancy_step (db\<lparr>ids := y\<rparr>) (db\<lparr>ids := z\<rparr>)"
    using tenancy_step.identity [of "db\<lparr>ids := y\<rparr>" z] step(2) by simp
  with step.IH show ?case by (rule rtranclp.rtrancl_into_rtrancl)
qed

lemma small_tenancy_reachable:
  "tenancy_step\<^sup>*\<^sup>* \<lparr>ids = empty_identity, projects = [], repositories = []\<rparr> small_tenancy"
proof -
  let ?d = "\<lparr>ids = small_identity, projects = [], repositories = []\<rparr>"
  have "tenancy_step\<^sup>*\<^sup>* \<lparr>ids = empty_identity, projects = [], repositories = []\<rparr> ?d"
    using tenancy_identity_steps [OF small_identity_reachable, of ?d] by simp
  moreover have "\<exists>r. register_repository id ?d ''r'' ''w'' ''/r'' None None ''user:p'' = Inr (r, small_tenancy)"
    by (simp add: register_repository_def clean_name_def path_name_def path_parts_def str_strip_def rstrip_by_def
        lstrip_by_def is_space_def is_alnum_def is_lower_def less_eq_char_def has_row_def small_identity_def small_tenancy_def Let_def)
  ultimately show ?thesis by (meson rtranclp.rtrancl_into_rtrancl tenancy_step.register)
qed

theorem workspaces_never_share_a_path_witness:
  "check_run_allowed id small_tenancy ''w'' ''/r/src'' None = Inr (Some (hd (repositories small_tenancy))) \<and>
   check_run_allowed id small_tenancy ''v'' ''/r/src'' None = Inl (RepositoryNotRegistered ''/r/src'' ''v'')"
proof
  show a: "check_run_allowed id small_tenancy ''w'' ''/r/src'' None = Inr (Some (hd (repositories small_tenancy)))"
    by (simp add: check_run_allowed_def IMPLICIT_WORKSPACE_def repository_for_path_def small_tenancy_def live_def
        encloses_def is_relative_to_def path_parts_def)
  show "check_run_allowed id small_tenancy ''v'' ''/r/src'' None = Inl (RepositoryNotRegistered ''/r/src'' ''v'')"
    by (rule workspaces_never_share_a_path [OF small_tenancy_reachable a]) (simp_all add: IMPLICIT_WORKSPACE_def)
qed

text \<open>
  A repository of a team-owned project is closed to people outside the team who are not administrators.
\<close>

lemma team_project_access:
  assumes "check_run_allowed resolve db ws path (Some who) = Inr (Some r)" and "ws \<noteq> IMPLICIT_WORKSPACE"
    and "rp_project r = Some pj" "pj \<noteq> []" "get_project db ws pj = Some project" "pj_team project = Some team" "team \<noteq> []"
    and "named_principal (Some who) = Some pid"
  shows "is_member (ids db) team pid \<or>
    (\<exists>p. load_principal (ids db) pid = Some p \<and> role_in p ws \<in> {Some OWNER, Some ADMIN})"
proof -
  have "repository_for_path resolve db ws path = Some r" using check_run_allowed_repo [OF assms(1,2)] by simp
  with assms show ?thesis by (auto simp: check_run_allowed_def Let_def split: option.splits if_splits)
qed

end
