(* ===== verification/Failures.thy ===== *)
theory Failures
  imports Prelude
begin

text \<open>
  Failures (\<open>domain/failures.py\<close>), retries (\<open>runtime/retry.py\<close>) and budgets (\<open>domain/budget.py\<close>).

  An exception is one of the classes \<open>classify\<close> distinguishes, in the order of its tests; \<open>float(text)\<close> is the
  parameter \<open>parse_float\<close>, whose result may be an infinity or not a number.

  The lemmas show what is never retried, how often and after which delay an operation is repeated, and
  that the retry loop returns.
\<close>

section \<open>The failure table\<close>

datatype severity = INFO | WARNING | ERROR | CRITICAL

datatype origin =
    O_MODEL | O_CONNECTOR | O_TOOL | O_COMMAND | O_PATCH | O_TEST | O_REPOSITORY | O_SANDBOX | O_ENVIRONMENT
  | O_PLUGIN | O_STORAGE | O_BUDGET | O_USER | O_RUNTIME

record failure_spec =
  fs_retryable :: bool
  fs_severity :: severity
  fs_origin :: origin
  fs_message :: string
  fs_recovery :: "string list"

definition mk_spec :: "bool \<Rightarrow> severity \<Rightarrow> origin \<Rightarrow> string \<Rightarrow> string list \<Rightarrow> failure_spec" where
  "mk_spec r s o' m rec = \<lparr>fs_retryable = r, fs_severity = s, fs_origin = o', fs_message = m, fs_recovery = rec\<rparr>"

datatype failure_kind =
    MODEL_TIMEOUT | MODEL_RATE_LIMIT | MODEL_CONTEXT_OVERFLOW | MODEL_INVALID_OUTPUT
  | MODEL_UNAVAILABLE | MODEL_CAPABILITY | MODEL_AUTH | CONNECTOR_AUTH
  | CONNECTOR_RATE_LIMIT | CONNECTOR_UNAVAILABLE | TOOL_FAILURE | TOOL_TIMEOUT
  | COMMAND_DENIED | POLICY_DENIED | COMMAND_TIMEOUT | COMMAND_FAILED
  | PATCH_PARSE | PATCH_CONFLICT | PATCH_APPLY | PATCH_VALIDATION
  | TEST_FAILURE | BASELINE_FAILURE | REPOSITORY_DRIFT | SANDBOX_FAILURE
  | ENVIRONMENT_FAILURE | PLUGIN_FAILURE | DATABASE_FAILURE | CHECKPOINT_FAILURE
  | BUDGET_EXHAUSTED | USER_CANCELLED | REPLAY_DIVERGED | INTERNAL_INVARIANT

primrec kind_value :: "failure_kind \<Rightarrow> string" where
  "kind_value MODEL_TIMEOUT = ''MODEL_TIMEOUT''"
| "kind_value MODEL_RATE_LIMIT = ''MODEL_RATE_LIMIT''"
| "kind_value MODEL_CONTEXT_OVERFLOW = ''MODEL_CONTEXT_OVERFLOW''"
| "kind_value MODEL_INVALID_OUTPUT = ''MODEL_INVALID_OUTPUT''"
| "kind_value MODEL_UNAVAILABLE = ''MODEL_UNAVAILABLE''"
| "kind_value MODEL_CAPABILITY = ''MODEL_CAPABILITY''"
| "kind_value MODEL_AUTH = ''MODEL_AUTH''"
| "kind_value CONNECTOR_AUTH = ''CONNECTOR_AUTH''"
| "kind_value CONNECTOR_RATE_LIMIT = ''CONNECTOR_RATE_LIMIT''"
| "kind_value CONNECTOR_UNAVAILABLE = ''CONNECTOR_UNAVAILABLE''"
| "kind_value TOOL_FAILURE = ''TOOL_FAILURE''"
| "kind_value TOOL_TIMEOUT = ''TOOL_TIMEOUT''"
| "kind_value COMMAND_DENIED = ''COMMAND_DENIED''"
| "kind_value POLICY_DENIED = ''POLICY_DENIED''"
| "kind_value COMMAND_TIMEOUT = ''COMMAND_TIMEOUT''"
| "kind_value COMMAND_FAILED = ''COMMAND_FAILED''"
| "kind_value PATCH_PARSE = ''PATCH_PARSE''"
| "kind_value PATCH_CONFLICT = ''PATCH_CONFLICT''"
| "kind_value PATCH_APPLY = ''PATCH_APPLY''"
| "kind_value PATCH_VALIDATION = ''PATCH_VALIDATION''"
| "kind_value TEST_FAILURE = ''TEST_FAILURE''"
| "kind_value BASELINE_FAILURE = ''BASELINE_FAILURE''"
| "kind_value REPOSITORY_DRIFT = ''REPOSITORY_DRIFT''"
| "kind_value SANDBOX_FAILURE = ''SANDBOX_FAILURE''"
| "kind_value ENVIRONMENT_FAILURE = ''ENVIRONMENT_FAILURE''"
| "kind_value PLUGIN_FAILURE = ''PLUGIN_FAILURE''"
| "kind_value DATABASE_FAILURE = ''DATABASE_FAILURE''"
| "kind_value CHECKPOINT_FAILURE = ''CHECKPOINT_FAILURE''"
| "kind_value BUDGET_EXHAUSTED = ''BUDGET_EXHAUSTED''"
| "kind_value USER_CANCELLED = ''USER_CANCELLED''"
| "kind_value REPLAY_DIVERGED = ''REPLAY_DIVERGED''"
| "kind_value INTERNAL_INVARIANT = ''INTERNAL_INVARIANT''"

primrec SPECS :: "failure_kind \<Rightarrow> failure_spec" where
  "SPECS MODEL_TIMEOUT = mk_spec True WARNING O_MODEL ''The model took too long to answer.''
     [''retry'', ''use a faster or smaller model'', ''raise the model timeout'']"
| "SPECS MODEL_RATE_LIMIT = mk_spec True WARNING O_MODEL ''The model provider is rate limiting requests.''
     [''wait and retry'', ''switch provider'']"
| "SPECS MODEL_CONTEXT_OVERFLOW = mk_spec False ERROR O_MODEL (''The prompt does not fit in the model'' @ [CHR 0x27] @ ''s context window.'')
     [''use a model with a larger context'', ''narrow the task'']"
| "SPECS MODEL_INVALID_OUTPUT = mk_spec False ERROR O_MODEL (''The model'' @ [CHR 0x27] @ ''s reply could not be understood, even after a repair attempt.'')
     [''use a more capable model'', ''enable constrained output'']"
| "SPECS MODEL_UNAVAILABLE = mk_spec True ERROR O_MODEL ''The model endpoint is not reachable.''
     [''check that the engine is running'', ''retry'', ''switch provider'']"
| "SPECS MODEL_CAPABILITY = mk_spec False ERROR O_MODEL ''This model does not support something the task needs.''
     [''choose a model with the missing capability'']"
| "SPECS MODEL_AUTH = mk_spec False ERROR O_MODEL ''The model provider rejected the credentials.''
     [''check the API key'', ''switch provider'']"
| "SPECS CONNECTOR_AUTH = mk_spec False ERROR O_CONNECTOR (''An integration'' @ [CHR 0x27] @ ''s credentials were rejected.'')
     [''reconnect the integration'']"
| "SPECS CONNECTOR_RATE_LIMIT = mk_spec True WARNING O_CONNECTOR ''An integration is rate limiting requests.''
     [''wait and retry'']"
| "SPECS CONNECTOR_UNAVAILABLE = mk_spec True ERROR O_CONNECTOR ''An integration could not be reached.''
     [''retry'', (''check the integration'' @ [CHR 0x27] @ ''s status'')]"
| "SPECS TOOL_FAILURE = mk_spec False ERROR O_TOOL ''A tool failed.''
     [''inspect the tool output'']"
| "SPECS TOOL_TIMEOUT = mk_spec True WARNING O_TOOL ''A tool did not finish in time.''
     [''retry'', ''raise the tool timeout'']"
| "SPECS COMMAND_DENIED = mk_spec False WARNING O_COMMAND ''A command was not allowed to run.''
     [''approve it if it is safe'', ''change the command policy'']"
| "SPECS POLICY_DENIED = mk_spec False WARNING O_RUNTIME ''A policy does not allow this run to do something it needs.''
     [''ask a workspace admin to review the policy'', (''change the run'' @ [CHR 0x27] @ ''s provider or settings'')]"
| "SPECS COMMAND_TIMEOUT = mk_spec False WARNING O_COMMAND ''A command exceeded its time limit and was stopped.''
     [''raise the command timeout'', ''narrow what the command runs'']"
| "SPECS COMMAND_FAILED = mk_spec False INFO O_COMMAND ''A command exited with an error.''
     [''inspect the command output'']"
| "SPECS PATCH_PARSE = mk_spec False ERROR O_PATCH ''The proposed change was malformed.''
     [''retry with feedback'', ''use a more capable model'']"
| "SPECS PATCH_CONFLICT = mk_spec False ERROR O_PATCH ''The change conflicts with the current file contents.''
     [''re-plan against the current files'']"
| "SPECS PATCH_APPLY = mk_spec False ERROR O_PATCH ''The proposed change could not be applied.''
     [''retry with feedback'', ''inspect the proposed edit'']"
| "SPECS PATCH_VALIDATION = mk_spec False ERROR O_PATCH ''The change did not pass validation.''
     [''review the failing checks'', ''retry from the last checkpoint with another model'']"
| "SPECS TEST_FAILURE = mk_spec False INFO O_TEST ''Tests failed after the change.''
     [''inspect the failing tests'']"
| "SPECS BASELINE_FAILURE = mk_spec False INFO O_TEST ''Tests were already failing before the change.''
     [''fix the existing failures first'']"
| "SPECS REPOSITORY_DRIFT = mk_spec False ERROR O_REPOSITORY ''Files changed in the repository while the run was in progress.''
     [''review the changes and confirm'', ''start a new run'']"
| "SPECS SANDBOX_FAILURE = mk_spec True ERROR O_SANDBOX ''The isolated workspace could not be used.''
     [''retry'', ''run `patchquest doctor`'']"
| "SPECS ENVIRONMENT_FAILURE = mk_spec False ERROR O_ENVIRONMENT ''A required tool or setting is missing.''
     [''run `patchquest doctor`'']"
| "SPECS PLUGIN_FAILURE = mk_spec False ERROR O_PLUGIN ''A plugin failed and was disabled for this run.''
     [(''check the plugin'' @ [CHR 0x27] @ ''s logs'')]"
| "SPECS DATABASE_FAILURE = mk_spec True CRITICAL O_STORAGE (''PatchQuest'' @ [CHR 0x27] @ ''s database could not be used.'')
     [''retry'', ''check disk space and permissions'']"
| "SPECS CHECKPOINT_FAILURE = mk_spec False WARNING O_STORAGE ''A checkpoint could not be saved; the run can only resume from an earlier one.''
     [''check disk space'']"
| "SPECS BUDGET_EXHAUSTED = mk_spec False WARNING O_BUDGET ''The run used up its allowed budget.''
     [''raise the limit and fork the run'', ''narrow the task'']"
| "SPECS USER_CANCELLED = mk_spec False INFO O_USER ''The run was cancelled.''
     [''fork it to try again'']"
| "SPECS REPLAY_DIVERGED = mk_spec False WARNING O_RUNTIME ''The replay no longer matches the recorded run, so it was stopped.''
     [''compare the two runs to see where they differ'']"
| "SPECS INTERNAL_INVARIANT = mk_spec False CRITICAL O_RUNTIME ''PatchQuest hit an internal error. Nothing was changed in your repository.''
     [''export the run bundle and report it'']"

section \<open>Classifying exceptions\<close>

text \<open>A Python float: a finite value, an infinity, or not a number.\<close>

datatype pyfloat = Fin rat | PosInf | NegInf | NaN

fun float_less :: "pyfloat \<Rightarrow> pyfloat \<Rightarrow> bool" where
  "float_less NaN y = False"
| "float_less x NaN = False"
| "float_less PosInf y = False"
| "float_less x PosInf = True"
| "float_less x NegInf = False"
| "float_less NegInf y = True"
| "float_less (Fin a) (Fin b) = (a < b)"

text \<open>\<open>max(a, b)\<close> and \<open>min(a, b)\<close> return the first argument unless the second is strictly better.\<close>

definition py_max :: "pyfloat \<Rightarrow> pyfloat \<Rightarrow> pyfloat" where
  "py_max a b = (if float_less a b then b else a)"

definition py_min :: "pyfloat \<Rightarrow> pyfloat \<Rightarrow> pyfloat" where
  "py_min a b = (if float_less b a then b else a)"

definition MAX_RETRY_AFTER_S :: pyfloat where
  "MAX_RETRY_AFTER_S = Fin 120"

definition parse_retry_after :: "(string \<Rightarrow> pyfloat option) \<Rightarrow> string option \<Rightarrow> pyfloat option" where
  "parse_retry_after parse_float v =
     (case v of None \<Rightarrow> None
      | Some s \<Rightarrow> if s = [] then None
                  else (case parse_float s of None \<Rightarrow> None
                        | Some seconds \<Rightarrow> Some (py_min (py_max seconds (Fin 0)) MAX_RETRY_AFTER_S)))"

record failure =
  f_kind :: failure_kind
  f_detail :: string
  f_retry_after :: "pyfloat option"

datatype py_exception =
    PatchQuestError failure_kind string "pyfloat option"
  | HTTPStatusError nat string "string option"
  | TimeoutException string
  | TransportError string
  | JSONDecodeError string
  | OperationalError string
  | MissingOrDenied string
  | OtherException string

definition OVERFLOW_WORDS :: "string list" where
  "OVERFLOW_WORDS = [''context'', ''maximum'', ''too long'', ''exceed'', ''token limit'', ''max_model_len'']"

definition from_http :: "nat \<Rightarrow> string \<Rightarrow> origin \<Rightarrow> failure_kind" where
  "from_http status body default_origin =
     (let connector = (default_origin = O_CONNECTOR) in
      if status \<in> {400, 413, 422} \<and> list_ex (\<lambda>w. sublist w (str_lower body)) OVERFLOW_WORDS then MODEL_CONTEXT_OVERFLOW
      else if status = 429 then (if connector then CONNECTOR_RATE_LIMIT else MODEL_RATE_LIMIT)
      else if status \<in> {401, 403} then (if connector then CONNECTOR_AUTH else MODEL_AUTH)
      else if status \<in> {408, 504} then (if connector then CONNECTOR_UNAVAILABLE else MODEL_TIMEOUT)
      else if status \<ge> 500 \<or> status \<in> {409, 425} then (if connector then CONNECTOR_UNAVAILABLE else MODEL_UNAVAILABLE)
      else if connector then CONNECTOR_UNAVAILABLE else MODEL_INVALID_OUTPUT)"

text \<open>The detail texts formatted from the exception are the arguments of its constructor.\<close>

definition mk_failure :: "failure_kind \<Rightarrow> string \<Rightarrow> failure" where
  "mk_failure k d = \<lparr>f_kind = k, f_detail = d, f_retry_after = None\<rparr>"

fun classify_exception :: "(string \<Rightarrow> pyfloat option) \<Rightarrow> (nat \<Rightarrow> string) \<Rightarrow> origin \<Rightarrow> py_exception \<Rightarrow> failure" where
  "classify_exception parse_float show_status orig (PatchQuestError k d ra) = \<lparr>f_kind = k, f_detail = d, f_retry_after = ra\<rparr>"
| "classify_exception parse_float show_status orig (HTTPStatusError status body header) =
     \<lparr>f_kind = from_http status body orig, f_detail = ''HTTP '' @ show_status status,
      f_retry_after = parse_retry_after parse_float header\<rparr>"
| "classify_exception parse_float show_status orig (TimeoutException d) =
     mk_failure (if orig = O_CONNECTOR then CONNECTOR_UNAVAILABLE else MODEL_TIMEOUT) d"
| "classify_exception parse_float show_status orig (TransportError d) =
     mk_failure (if orig = O_CONNECTOR then CONNECTOR_UNAVAILABLE else MODEL_UNAVAILABLE) d"
| "classify_exception parse_float show_status orig (JSONDecodeError d) = mk_failure MODEL_INVALID_OUTPUT d"
| "classify_exception parse_float show_status orig (OperationalError d) = mk_failure DATABASE_FAILURE d"
| "classify_exception parse_float show_status orig (MissingOrDenied d) = mk_failure ENVIRONMENT_FAILURE d"
| "classify_exception parse_float show_status orig (OtherException d) = mk_failure INTERNAL_INVARIANT d"

section \<open>Retrying\<close>

definition NEVER_RETRY :: "failure_kind list" where
  "NEVER_RETRY = [COMMAND_DENIED, POLICY_DENIED, USER_CANCELLED, BUDGET_EXHAUSTED, INTERNAL_INVARIANT, REPOSITORY_DRIFT,
     MODEL_CAPABILITY, CONNECTOR_AUTH, MODEL_AUTH, REPLAY_DIVERGED, PATCH_PARSE, MODEL_INVALID_OUTPUT]"

record retry_policy =
  max_attempts :: nat
  base_delay_s :: rat
  max_delay_s :: rat

definition DEFAULT_POLICY :: retry_policy where
  "DEFAULT_POLICY = \<lparr>max_attempts = 3, base_delay_s = 1 / 2, max_delay_s = 30\<rparr>"

datatype retry_reason = NotRetryable failure_kind | MayHaveTakenEffect | GaveUp nat | BudgetUsedUp | Retrying failure_kind

record retry_decision =
  rd_retry :: bool
  rd_delay :: pyfloat
  rd_reason :: retry_reason

text \<open>\<open>uniform c\<close> is the draw of \<open>random.uniform(0, c)\<close>.\<close>

definition backoff_ceiling :: "retry_policy \<Rightarrow> nat \<Rightarrow> rat" where
  "backoff_ceiling policy attempt = min (max_delay_s policy) (base_delay_s policy * 2 ^ (attempt - 1))"

definition backoff :: "(rat \<Rightarrow> rat) \<Rightarrow> retry_policy \<Rightarrow> nat \<Rightarrow> rat" where
  "backoff uniform policy attempt = uniform (backoff_ceiling policy attempt)"

definition no_retry :: "retry_reason \<Rightarrow> retry_decision" where
  "no_retry why = \<lparr>rd_retry = False, rd_delay = Fin 0, rd_reason = why\<rparr>"

definition decide_retry :: "(rat \<Rightarrow> rat) \<Rightarrow> failure \<Rightarrow> nat \<Rightarrow> retry_policy \<Rightarrow> bool \<Rightarrow> bool \<Rightarrow> int option \<Rightarrow> retry_decision" where
  "decide_retry uniform fl attempt policy idempotent uncertain retries_left =
     (if f_kind fl \<in> set NEVER_RETRY \<or> \<not> fs_retryable (SPECS (f_kind fl)) then no_retry (NotRetryable (f_kind fl))
      else if uncertain \<and> \<not> idempotent then no_retry MayHaveTakenEffect
      else if attempt \<ge> max_attempts policy then no_retry (GaveUp attempt)
      else if (case retries_left of None \<Rightarrow> False | Some n \<Rightarrow> n \<le> 0) then no_retry BudgetUsedUp
      else \<lparr>rd_retry = True,
            rd_delay = (case f_retry_after fl of Some d \<Rightarrow> d | None \<Rightarrow> Fin (backoff uniform policy attempt)),
            rd_reason = Retrying (f_kind fl)\<rparr>)"

text \<open>
  \<open>run_with_retry\<close>: \<open>operation n\<close> is what the \<open>n\<close>-th call does, \<open>uncertain n\<close> and \<open>left n\<close> what the two
  callbacks answer after it, \<open>between n\<close> the exception the \<open>on_retry\<close> callback or the sleep raises, if any. The trace
  lists the failed attempts that were followed by another one, with their decisions.
\<close>

datatype 'a outcome = Returned 'a | Raised py_exception | Cancelled

record retry_env =
  re_parse_float :: "string \<Rightarrow> pyfloat option"
  re_show_status :: "nat \<Rightarrow> string"
  re_uniform :: "nat \<Rightarrow> rat \<Rightarrow> rat"
  re_policy :: retry_policy
  re_origin :: origin
  re_idempotent :: bool
  re_uncertain :: "nat \<Rightarrow> bool"
  re_left :: "nat \<Rightarrow> int option"
  re_between :: "nat \<Rightarrow> py_exception option"

definition decision_at :: "retry_env \<Rightarrow> nat \<Rightarrow> py_exception \<Rightarrow> failure \<times> retry_decision" where
  "decision_at env n exc =
     (let fl = classify_exception (re_parse_float env) (re_show_status env) (re_origin env) exc
      in (fl, decide_retry (re_uniform env n) fl n (re_policy env) (re_idempotent env) (re_uncertain env n) (re_left env n)))"

lemma retry_below_cap: "rd_retry (snd (decision_at env n exc)) \<Longrightarrow> n < max_attempts (re_policy env)"
  by (auto simp: decision_at_def decide_retry_def no_retry_def Let_def split: if_splits)

function retry_loop :: "retry_env \<Rightarrow> (nat \<Rightarrow> 'a outcome) \<Rightarrow> nat \<Rightarrow> (nat \<times> failure \<times> retry_decision) list
    \<Rightarrow> 'a outcome \<times> nat \<times> (nat \<times> failure \<times> retry_decision) list" where
  "retry_loop env operation attempt trace =
     (let n = Suc attempt in
      case operation n of
        Returned v \<Rightarrow> (Returned v, n, trace)
      | Cancelled \<Rightarrow> (Cancelled, n, trace)
      | Raised exc \<Rightarrow>
          if \<not> rd_retry (snd (decision_at env n exc)) then (Raised exc, n, trace)
          else (case re_between env n of
                  Some e \<Rightarrow> (Raised e, n, trace)
                | None \<Rightarrow> retry_loop env operation n (trace @ [(n, decision_at env n exc)])))"
  by pat_completeness auto
termination
  by (relation "measure (\<lambda>(env, operation, attempt, trace). max_attempts (re_policy env) - attempt)")
     (auto dest: retry_below_cap)

declare retry_loop.simps [simp del]

definition run_with_retry :: "retry_env \<Rightarrow> (nat \<Rightarrow> 'a outcome) \<Rightarrow> 'a outcome \<times> nat \<times> (nat \<times> failure \<times> retry_decision) list" where
  "run_with_retry env operation = retry_loop env operation 0 []"

section \<open>Budgets\<close>

datatype budget_kind = B_MODEL_CALLS | B_TOKENS | B_WALL_TIME | B_COMMANDS | B_PATCH_ATTEMPTS | B_REPAIR_ROUNDS | B_RETRIES

record budget_line =
  bl_kind :: budget_kind
  bl_used :: rat
  bl_limit :: rat

definition unlimited :: "budget_line \<Rightarrow> bool" where
  "unlimited l \<longleftrightarrow> bl_limit l \<le> 0"

definition line_exhausted :: "budget_line \<Rightarrow> bool" where
  "line_exhausted l \<longleftrightarrow> \<not> unlimited l \<and> bl_used l \<ge> bl_limit l"

definition budget_fraction :: "budget_line \<Rightarrow> rat option" where
  "budget_fraction l = (if unlimited l then None else Some (min 1 (bl_used l / bl_limit l)))"

record counters =
  c_model_calls :: nat
  c_tokens_used :: nat
  c_wall_seconds :: rat
  c_patch_attempts :: nat
  c_repair_rounds :: nat
  c_retries :: nat
  c_commands_run :: nat

record limits =
  l_max_model_calls :: int
  l_max_total_tokens :: int
  l_max_wall_seconds :: int
  l_max_commands :: int
  l_max_patch_attempts :: int
  l_max_repair_rounds :: int
  l_max_retries :: int

definition snapshot :: "counters \<Rightarrow> limits \<Rightarrow> budget_line list" where
  "snapshot c l =
     [\<lparr>bl_kind = B_MODEL_CALLS, bl_used = of_nat (c_model_calls c), bl_limit = of_int (l_max_model_calls l)\<rparr>,
      \<lparr>bl_kind = B_TOKENS, bl_used = of_nat (c_tokens_used c), bl_limit = of_int (l_max_total_tokens l)\<rparr>,
      \<lparr>bl_kind = B_WALL_TIME, bl_used = c_wall_seconds c, bl_limit = of_int (l_max_wall_seconds l)\<rparr>,
      \<lparr>bl_kind = B_COMMANDS, bl_used = of_nat (c_commands_run c), bl_limit = of_int (l_max_commands l)\<rparr>,
      \<lparr>bl_kind = B_PATCH_ATTEMPTS, bl_used = of_nat (c_patch_attempts c), bl_limit = of_int (l_max_patch_attempts l)\<rparr>,
      \<lparr>bl_kind = B_REPAIR_ROUNDS, bl_used = of_nat (c_repair_rounds c), bl_limit = of_int (l_max_repair_rounds l)\<rparr>,
      \<lparr>bl_kind = B_RETRIES, bl_used = of_nat (c_retries c), bl_limit = of_int (l_max_retries l)\<rparr>]"

definition exhausted :: "counters \<Rightarrow> limits \<Rightarrow> budget_kind list \<Rightarrow> budget_line option" where
  "exhausted c l among = find (\<lambda>x. bl_kind x \<in> set among \<and> line_exhausted x) (snapshot c l)"

section \<open>What the retry loop guarantees\<close>

text \<open>An entry of the trace that the rules of \<open>runtime/retry.py\<close> permit: attempt \<open>i\<close> raised, and repeating it was allowed.\<close>

definition retry_permitted :: "retry_env \<Rightarrow> (nat \<Rightarrow> 'a outcome) \<Rightarrow> nat \<times> failure \<times> retry_decision \<Rightarrow> bool" where
  "retry_permitted env operation e \<longleftrightarrow>
     (case e of (i, fl, d) \<Rightarrow>
        (\<exists>exc. operation i = Raised exc \<and> decision_at env i exc = (fl, d)) \<and>
        fs_retryable (SPECS (f_kind fl)) \<and> f_kind fl \<notin> set NEVER_RETRY \<and>
        (re_uncertain env i \<longrightarrow> re_idempotent env) \<and> (\<forall>left. re_left env i = Some left \<longrightarrow> 0 < left) \<and>
        i < max_attempts (re_policy env))"

lemma retry_permittedI:
  "operation i = Raised exc \<Longrightarrow> rd_retry (snd (decision_at env i exc)) \<Longrightarrow>
     retry_permitted env operation (i, decision_at env i exc)"
  by (auto simp: retry_permitted_def decision_at_def decide_retry_def no_retry_def Let_def split: if_splits option.splits)

lemma retry_loop_trace:
  "retry_loop env operation attempt trace = (out, n, trace') \<Longrightarrow>
     attempt < n \<and> n \<le> max (Suc attempt) (max_attempts (re_policy env)) \<and>
     (\<exists>new. trace' = trace @ new \<and> map fst new = [Suc attempt ..< n] \<and>
        (\<forall>e \<in> set new. retry_permitted env operation e)) \<and>
     (out = operation n \<or> (\<exists>e. re_between env n = Some e \<and> out = Raised e))"
proof (induction env operation attempt trace rule: retry_loop.induct)
  case (1 env operation attempt trace)
  show ?case
  proof (cases "operation (Suc attempt)")
    case (Raised exc)
    show ?thesis
    proof (cases "rd_retry (snd (decision_at env (Suc attempt) exc)) \<and> re_between env (Suc attempt) = None")
      case True
      let ?e = "(Suc attempt, decision_at env (Suc attempt) exc)"
      have "retry_loop env operation (Suc attempt) (trace @ [?e]) = (out, n, trace')"
        using "1.prems" Raised True by (subst (asm) retry_loop.simps) (simp add: Let_def)
      with "1.IH" [OF refl Raised] True
      have IH: "Suc attempt < n" "n \<le> max (Suc (Suc attempt)) (max_attempts (re_policy env))"
        "\<exists>new. trace' = (trace @ [?e]) @ new \<and> map fst new = [Suc (Suc attempt) ..< n] \<and>
            (\<forall>e \<in> set new. retry_permitted env operation e)"
        "out = operation n \<or> (\<exists>e. re_between env n = Some e \<and> out = Raised e)"
        by auto
      then obtain new where new: "trace' = (trace @ [?e]) @ new" "map fst new = [Suc (Suc attempt) ..< n]"
          "\<forall>e \<in> set new. retry_permitted env operation e" by blast
      have "retry_permitted env operation ?e" using Raised True by (intro retry_permittedI) auto
      moreover have "map fst (?e # new) = [Suc attempt ..< n]" using new(2) IH(1) by (simp add: upt_conv_Cons)
      moreover have "Suc attempt < max_attempts (re_policy env)" using True retry_below_cap by blast
      ultimately show ?thesis using new IH by (intro conjI exI [of _ "?e # new"]) auto
    next
      case False
      with "1.prems" Raised show ?thesis
        by (subst (asm) retry_loop.simps) (auto simp: Let_def split: if_splits option.splits)
    qed
  qed (use "1.prems" in \<open>(subst (asm) retry_loop.simps, auto simp: Let_def)+\<close>)
qed

text \<open>
  C22: Discipline of \<open>run_with_retry\<close>. The loop always returns; it calls the operation between one and
  \<open>max_attempts\<close> times (once when the cap is below one), and every call but the last raised a retryable failure
  whose repetition the rules permit: not in the never-retry list, no unspent side effect of a non-idempotent operation,
  retry budget left. What it returns is what the last call did, unless the pause before the next call itself raised.
\<close>

theorem run_with_retry_disciplined:
  "case run_with_retry env operation of (out, n, trace) \<Rightarrow>
     1 \<le> n \<and> n \<le> max 1 (max_attempts (re_policy env)) \<and> map fst trace = [1 ..< n] \<and>
     list_all (retry_permitted env operation) trace \<and>
     (out = operation n \<or> (\<exists>e. re_between env n = Some e \<and> out = Raised e))"
proof -
  obtain out n trace where r: "run_with_retry env operation = (out, n, trace)" by (metis prod_cases3)
  then show ?thesis using retry_loop_trace [of env operation 0 "[]" out n trace]
    by (auto simp: run_with_retry_def list_all_iff)
qed

text \<open>
  A delay before a retry is either exactly what the other side asked for, or between zero and the
  policy's maximum delay, given that the random source draws from the interval it is asked for.
\<close>

theorem retry_delay_bounded:
  assumes "\<And>c. 0 \<le> c \<Longrightarrow> 0 \<le> uniform c \<and> uniform c \<le> c"
    and "0 \<le> base_delay_s policy" and "0 \<le> max_delay_s policy"
    and "rd_retry (decide_retry uniform fl attempt policy idempotent uncertain left)"
  shows "case f_retry_after fl of
     Some d \<Rightarrow> rd_delay (decide_retry uniform fl attempt policy idempotent uncertain left) = d
   | None \<Rightarrow> \<exists>x. rd_delay (decide_retry uniform fl attempt policy idempotent uncertain left) = Fin x \<and>
       0 \<le> x \<and> x \<le> max_delay_s policy \<and> x \<le> base_delay_s policy * 2 ^ (attempt - 1)"
proof -
  have "0 \<le> backoff_ceiling policy attempt" using assms(2,3) by (simp add: backoff_ceiling_def)
  from assms(1) [OF this] show ?thesis using assms(4)
    by (auto simp: decide_retry_def no_retry_def backoff_def backoff_ceiling_def split: if_splits option.splits)
qed

theorem retry_delay_bounded_witness:
  "rd_delay (decide_retry (\<lambda>c. c) (mk_failure MODEL_TIMEOUT []) 2 DEFAULT_POLICY True False None) = Fin 1 \<and>
   (\<exists>x. rd_delay (decide_retry (\<lambda>c. c) (mk_failure MODEL_TIMEOUT []) 2 DEFAULT_POLICY True False None) = Fin x \<and>
      0 \<le> x \<and> x \<le> 30 \<and> x \<le> 1 / 2 * 2 ^ 1)"
proof
  let ?d = "decide_retry (\<lambda>c. c) (mk_failure MODEL_TIMEOUT []) 2 DEFAULT_POLICY True False None"
  have r: "rd_retry ?d" by (simp add: decide_retry_def mk_failure_def NEVER_RETRY_def mk_spec_def DEFAULT_POLICY_def)
  show "rd_delay ?d = Fin 1"
    by (simp add: decide_retry_def mk_failure_def NEVER_RETRY_def mk_spec_def DEFAULT_POLICY_def backoff_def backoff_ceiling_def)
  show "\<exists>x. rd_delay ?d = Fin x \<and> 0 \<le> x \<and> x \<le> 30 \<and> x \<le> 1 / 2 * 2 ^ 1"
    using retry_delay_bounded [OF _ _ _ r] by (simp add: mk_failure_def DEFAULT_POLICY_def)
qed

text \<open>
  \<open>parse_retry_after\<close> caps what a server asks for: the result is a number of seconds between 0 and 120,
  with one exception: a header that reads as not-a-number comes through uncapped.
\<close>

theorem parse_retry_after_capped:
  "case parse_retry_after parse_float (Some header) of
     None \<Rightarrow> header = [] \<or> parse_float header = None
   | Some (Fin x) \<Rightarrow> 0 \<le> x \<and> x \<le> 120
   | Some NaN \<Rightarrow> parse_float header = Some NaN
   | Some _ \<Rightarrow> False"
  by (cases "parse_float header")
     (auto simp: parse_retry_after_def py_min_def py_max_def MAX_RETRY_AFTER_S_def split: pyfloat.split)

text \<open>Nothing the failure table calls permanent is retried, and the never-retry list only repeats it.\<close>

lemma never_retry_subset: "k \<in> set NEVER_RETRY \<Longrightarrow> \<not> fs_retryable (SPECS k)"
  by (auto simp: NEVER_RETRY_def mk_spec_def)

lemma unknown_exception_final:
  "\<not> rd_retry (decide_retry u (classify_exception pf ss orig (OtherException d)) n p i su l)"
  by (simp add: decide_retry_def mk_failure_def NEVER_RETRY_def no_retry_def)

lemma exhausted_Some:
  "exhausted c l among = Some x \<Longrightarrow>
     x \<in> set (snapshot c l) \<and> bl_kind x \<in> set among \<and> 0 < bl_limit x \<and> bl_limit x \<le> bl_used x"
  by (auto simp: exhausted_def find_Some_iff line_exhausted_def unlimited_def set_conv_nth simp del: nth_Cons_Suc
      split del: if_split)

lemma exhausted_None:
  "exhausted c l among = None \<longleftrightarrow>
     (\<forall>x \<in> set (snapshot c l). bl_kind x \<in> set among \<longrightarrow> bl_limit x \<le> 0 \<or> bl_used x < bl_limit x)"
  by (simp add: exhausted_def find_None_iff line_exhausted_def unlimited_def) (metis leD leI)

end
