(* ===== verification/Runs.thy ===== *)
theory Runs
  imports Effects
begin

text \<open>
  The run lifecycle (\<open>domain/runs.py\<close>), the event ledger (\<open>persistence/ledger.py\<close>) and status changes
  (\<open>persistence/runs.py\<close>), with the tables they share with approvals and the queue.

  A status change is one function from the tables to the tables; an exception leaves them unchanged, because
  every caller runs inside one transaction. The clock (\<open>now\<close>, read once per operation) and fresh
  identifiers are arguments. The payload column holds the JSON text of a dictionary; the model keeps the dictionary.
\<close>

section \<open>Run statuses\<close>

datatype run_status =
    CREATED | QUEUED | RUNNING | WAITING_APPROVAL | CANCEL_REQUESTED | INTERRUPTED | COMPLETED | FAILED | CANCELLED

fun status_value :: "run_status \<Rightarrow> string" where
  "status_value CREATED = ''created''"
| "status_value QUEUED = ''queued''"
| "status_value RUNNING = ''running''"
| "status_value WAITING_APPROVAL = ''waiting_approval''"
| "status_value CANCEL_REQUESTED = ''cancel_requested''"
| "status_value INTERRUPTED = ''interrupted''"
| "status_value COMPLETED = ''completed''"
| "status_value FAILED = ''failed''"
| "status_value CANCELLED = ''cancelled''"

fun TRANSITIONS :: "run_status \<Rightarrow> run_status list" where
  "TRANSITIONS CREATED = [RUNNING, QUEUED, CANCELLED, FAILED]"
| "TRANSITIONS QUEUED = [RUNNING, CANCELLED, FAILED]"
| "TRANSITIONS RUNNING = [WAITING_APPROVAL, CANCEL_REQUESTED, COMPLETED, FAILED, CANCELLED, INTERRUPTED]"
| "TRANSITIONS WAITING_APPROVAL = [RUNNING, CANCEL_REQUESTED, CANCELLED, FAILED, INTERRUPTED]"
| "TRANSITIONS CANCEL_REQUESTED = [CANCELLED, COMPLETED, FAILED, INTERRUPTED]"
| "TRANSITIONS INTERRUPTED = [RUNNING, QUEUED, CANCELLED, FAILED]"
| "TRANSITIONS COMPLETED = []"
| "TRANSITIONS FAILED = []"
| "TRANSITIONS CANCELLED = []"

definition TERMINAL :: "run_status \<Rightarrow> bool" where
  "TERMINAL s \<longleftrightarrow> TRANSITIONS s = []"

definition ACTIVE :: "run_status set" where
  "ACTIVE = {RUNNING, WAITING_APPROVAL, CANCEL_REQUESTED}"

definition can_transition :: "run_status \<Rightarrow> run_status \<Rightarrow> bool" where
  "can_transition current target \<longleftrightarrow> target \<in> set (TRANSITIONS current)"

section \<open>Tables\<close>

record run_row =
  run_id :: string
  run_status :: run_status
  updated_at :: int
  completed_at :: "int option"
  outcome_col :: "string option"
  verdict :: "string option"
  current_phase :: "string option"
  failure_kind_col :: "string option"
  attempt_col :: nat
  queued_at :: "int option"
  lease_owner :: "string option"
  lease_expires_at :: "int option"
  lease_epoch :: nat

record event_row =
  ev_id :: nat
  ev_run :: string
  ev_type :: string
  ev_phase :: "string option"
  ev_status :: "string option"
  ev_message :: "string option"
  ev_payload :: "pyval dict option"
  ev_created_at :: int
  ev_uid :: string
  ev_schema_version :: nat
  ev_actor :: string
  ev_attempt :: nat
  ev_correlation :: "string option"
  ev_causation :: "string option"
  ev_redacted :: bool

datatype approval_status = A_PENDING | A_APPROVED | A_DENIED | A_EXPIRED | A_CANCELLED

datatype decision = APPROVE_ONCE | APPROVE_FOR_RUN | DENY_ONCE | MODIFY | CANCEL_RUN

record approval_row =
  ap_id :: string
  ap_run :: string
  ap_type :: string
  ap_command :: "string option"
  ap_reason :: "string option"
  ap_status :: approval_status
  ap_decision :: "decision option"
  ap_note :: "string option"
  ap_created_at :: int
  ap_resolved_at :: "int option"
  ap_effect :: "side_effect option"
  ap_risk :: "string option"
  ap_phase :: "string option"
  ap_requested_by :: string
  ap_decided_by :: "string option"
  ap_expires_at :: "int option"
  ap_modified_command :: "string option"
  ap_resources :: "string list option"

record grant_row =
  gr_run :: string
  gr_signature :: string
  gr_effect :: side_effect
  gr_approval :: string
  gr_created_at :: int

text \<open>\<open>event_seq\<close> is the AUTOINCREMENT counter of \<open>run_events\<close>: the last id handed out.\<close>

record run_db =
  runs :: "run_row list"
  run_events :: "event_row list"
  event_seq :: nat
  approvals :: "approval_row list"
  approval_grants :: "grant_row list"

section \<open>The ledger\<close>

definition EVENT_SCHEMA_VERSION :: nat where
  "EVENT_SCHEMA_VERSION = 1"

record event_args =
  ea_phase :: "string option"
  ea_status :: "string option"
  ea_message :: "string option"
  ea_payload :: "pyval dict"
  ea_actor :: string
  ea_attempt :: nat
  ea_correlation :: "string option"
  ea_causation :: "string option"

text \<open>The keyword defaults of \<open>append\<close>.\<close>

definition event_defaults :: event_args where
  "event_defaults = \<lparr>ea_phase = None, ea_status = None, ea_message = None, ea_payload = [], ea_actor = ''runtime'',
     ea_attempt = 1, ea_correlation = None, ea_causation = None\<rparr>"

definition append_event :: "int \<Rightarrow> string \<Rightarrow> run_db \<Rightarrow> string \<Rightarrow> string \<Rightarrow> event_args \<Rightarrow> (nat \<times> string) \<times> run_db" where
  "append_event now uid db rid ty a =
     (let i = Suc (event_seq db);
          e = \<lparr>ev_id = i, ev_run = rid, ev_type = ty, ev_phase = ea_phase a, ev_status = ea_status a,
               ev_message = ea_message a, ev_payload = (if ea_payload a = [] then None else Some (ea_payload a)),
               ev_created_at = now, ev_uid = uid, ev_schema_version = EVENT_SCHEMA_VERSION, ev_actor = ea_actor a,
               ev_attempt = ea_attempt a, ev_correlation = ea_correlation a, ev_causation = ea_causation a,
               ev_redacted = False\<rparr>
      in ((i, uid), db\<lparr>run_events := run_events db @ [e], event_seq := i\<rparr>))"

definition redact_event :: "event_row \<Rightarrow> event_row" where
  "redact_event e = e\<lparr>ev_payload := None, ev_message := None, ev_redacted := True\<rparr>"

definition redact :: "run_db \<Rightarrow> nat \<Rightarrow> run_db" where
  "redact db i = db\<lparr>run_events := update_row ev_id i redact_event (run_events db)\<rparr>"

text \<open>\<open>read\<close>: the first \<open>limit\<close> events of the run after the cursor, in the order of their ids.\<close>

definition read_events :: "run_db \<Rightarrow> string \<Rightarrow> nat \<Rightarrow> nat \<Rightarrow> event_row list" where
  "read_events db rid cursor limit =
     take limit (sort_key ev_id (filter (\<lambda>e. ev_run e = rid \<and> ev_id e > cursor) (run_events db)))"

section \<open>Changing the status of a run\<close>

datatype run_error =
    RunNotFound string | IllegalTransition string run_status run_status | StaleTransition string | LeaseLost string string

definition SETTABLE :: "string list" where
  "SETTABLE = [''outcome'', ''verdict'', ''current_phase'', ''failure_kind'']"

text \<open>\<open>SET k = ?\<close> for one of the settable columns; any other key has been filtered out.\<close>

definition set_column :: "run_row \<Rightarrow> string \<times> string option \<Rightarrow> run_row" where
  "set_column r kv =
     (case kv of (k, v) \<Rightarrow>
        if k = ''outcome'' then r\<lparr>outcome_col := v\<rparr> else if k = ''verdict'' then r\<lparr>verdict := v\<rparr>
        else if k = ''current_phase'' then r\<lparr>current_phase := v\<rparr>
        else if k = ''failure_kind'' then r\<lparr>failure_kind_col := v\<rparr> else r)"

definition finish_time :: "int \<Rightarrow> run_status \<Rightarrow> run_status \<Rightarrow> int option \<Rightarrow> int option" where
  "finish_time now current target old =
     (if TERMINAL target \<or> target = INTERRUPTED then Some now
      else if current = INTERRUPTED then None else old)"

definition move_row :: "int \<Rightarrow> run_status \<Rightarrow> run_status \<Rightarrow> string option dict \<Rightarrow> run_row \<Rightarrow> run_row" where
  "move_row now current target flds r =
     (let r' = foldl set_column (r\<lparr>run_status := target, updated_at := now\<rparr>) (filter (\<lambda>(k, v). k \<in> set SETTABLE) flds)
      in r'\<lparr>completed_at := finish_time now current target (completed_at r)\<rparr>)"

record transition_args =
  ta_actor :: string
  ta_reason :: string
  ta_attempt :: nat
  ta_correlation :: "string option"
  ta_causation :: "string option"
  ta_fields :: "string option dict"

definition by_actor :: "string \<Rightarrow> string \<Rightarrow> nat \<Rightarrow> string option dict \<Rightarrow> transition_args" where
  "by_actor who why n flds = \<lparr>ta_actor = who, ta_reason = why, ta_attempt = n, ta_correlation = None,
     ta_causation = None, ta_fields = flds\<rparr>"

record transition_result =
  tr_previous :: run_status
  tr_event_id :: nat
  tr_event_uid :: string

definition transition :: "int \<Rightarrow> string \<Rightarrow> run_db \<Rightarrow> string \<Rightarrow> run_status \<Rightarrow> transition_args
    \<Rightarrow> run_error + transition_result \<times> run_db" where
  "transition now uid db rid target a =
     (case find_row run_id rid (runs db) of
        None \<Rightarrow> Inl (RunNotFound rid)
      | Some row \<Rightarrow>
        let current = run_status row in
        if \<not> can_transition current target then Inl (IllegalTransition rid current target)
        else if length (filter (\<lambda>r. run_id r = rid \<and> run_status r = current) (runs db)) \<noteq> 1 then Inl (StaleTransition rid)
        else
          let db1 = db\<lparr>runs := map (\<lambda>r. if run_id r = rid \<and> run_status r = current
                                        then move_row now current target (ta_fields a) r else r) (runs db)\<rparr>
          in case append_event now uid db1 rid ''run_state_changed''
                (event_defaults\<lparr>ea_status := Some (status_value target), ea_message := Some (ta_reason a),
                   ea_payload := [(''from'', VStr (status_value current)), (''to'', VStr (status_value target))],
                   ea_actor := ta_actor a, ea_attempt := ta_attempt a, ea_correlation := ta_correlation a,
                   ea_causation := ta_causation a\<rparr>)
             of ((i, u), db2) \<Rightarrow> Inr (\<lparr>tr_previous = current, tr_event_id = i, tr_event_uid = u\<rparr>, db2))"

section \<open>Statuses\<close>

lemma TERMINAL_iff: "TERMINAL s \<longleftrightarrow> s \<in> {COMPLETED, FAILED, CANCELLED}"
  by (cases s) (simp_all add: TERMINAL_def)

lemma status_value_inj: "status_value a = status_value b \<Longrightarrow> a = b"
  by (cases a; cases b) simp_all

text \<open>
  A component whose entries carry a status that only moves along a transition table: whatever
  the component does, the status of an entry stays or moves along a path of the table, so an entry
  in a status without successors keeps it for ever.
\<close>

locale status_machine = state_machine step ok
  for step :: "'d \<Rightarrow> 'd \<Rightarrow> bool" and ok :: "'d \<Rightarrow> bool" +
  fixes status :: "'d \<Rightarrow> 'k \<Rightarrow> 's option" and next_of :: "'s \<Rightarrow> 's set"
  assumes status_step: "step d d' \<Longrightarrow> ok d \<Longrightarrow> status d k = Some s \<Longrightarrow>
      \<exists>s'. status d' k = Some s' \<and> (\<lambda>a b. b \<in> next_of a)\<^sup>*\<^sup>* s s'"
begin

lemma status_path:
  assumes "step\<^sup>*\<^sup>* d d'" "ok d" "status d k = Some s"
  shows "\<exists>s'. status d' k = Some s' \<and> (\<lambda>a b. b \<in> next_of a)\<^sup>*\<^sup>* s s'"
  using assms(1)
proof (induction rule: rtranclp_induct)
  case base
  then show ?case using assms(3) by blast
next
  case (step y z)
  then obtain t where t: "status y k = Some t" "(\<lambda>a b. b \<in> next_of a)\<^sup>*\<^sup>* s t" by blast
  from status_step [OF step(2) ok_steps [OF step(1) assms(2)] t(1)] t(2) show ?case by (meson rtranclp_trans)
qed

lemma no_successor: "(\<lambda>a b. b \<in> next_of a)\<^sup>*\<^sup>* s s' \<Longrightarrow> next_of s = {} \<Longrightarrow> s' = s"
  by (erule converse_rtranclpE) auto

lemma terminal_absorbing:
  "step\<^sup>*\<^sup>* d d' \<Longrightarrow> ok d \<Longrightarrow> status d k = Some s \<Longrightarrow> next_of s = {} \<Longrightarrow> status d' k = Some s"
  using status_path no_successor by metis

end

section \<open>What one status change does\<close>

text \<open>Identifiers are unique, ledger ids ascend, and the finish time is set exactly on finished or interrupted runs.\<close>

definition run_ok :: "run_row \<Rightarrow> bool" where
  "run_ok r \<longleftrightarrow> (completed_at r \<noteq> None \<longleftrightarrow> TERMINAL (run_status r) \<or> run_status r = INTERRUPTED)"

definition run_db_ok :: "run_db \<Rightarrow> bool" where
  "run_db_ok db \<longleftrightarrow> distinct (map run_id (runs db)) \<and> (\<forall>r \<in> set (runs db). run_ok r) \<and>
     sorted_wrt (<) (map ev_id (run_events db)) \<and> (\<forall>e \<in> set (run_events db). ev_id e \<le> event_seq db)"

definition run_status_of :: "run_db \<Rightarrow> string \<Rightarrow> run_status option" where
  "run_status_of db rid = map_option run_status (find_row run_id rid (runs db))"

lemma set_column_keeps [simp]:
  "run_id (set_column r kv) = run_id r" "run_status (set_column r kv) = run_status r"
  "completed_at (set_column r kv) = completed_at r" "lease_owner (set_column r kv) = lease_owner r"
  "lease_epoch (set_column r kv) = lease_epoch r" "lease_expires_at (set_column r kv) = lease_expires_at r"
  "queued_at (set_column r kv) = queued_at r" "attempt_col (set_column r kv) = attempt_col r"
  by (simp_all add: set_column_def split: prod.split)

lemma fold_set_column_keeps [simp]:
  "run_id (foldl set_column r xs) = run_id r" "run_status (foldl set_column r xs) = run_status r"
  "completed_at (foldl set_column r xs) = completed_at r" "lease_owner (foldl set_column r xs) = lease_owner r"
  "lease_epoch (foldl set_column r xs) = lease_epoch r" "lease_expires_at (foldl set_column r xs) = lease_expires_at r"
  "queued_at (foldl set_column r xs) = queued_at r" "attempt_col (foldl set_column r xs) = attempt_col r"
  by (induction xs arbitrary: r) simp_all

lemma move_row_keeps [simp]:
  "run_id (move_row now c t f r) = run_id r" "run_status (move_row now c t f r) = t"
  "lease_owner (move_row now c t f r) = lease_owner r" "lease_epoch (move_row now c t f r) = lease_epoch r"
  "queued_at (move_row now c t f r) = queued_at r" "attempt_col (move_row now c t f r) = attempt_col r"
  "lease_expires_at (move_row now c t f r) = lease_expires_at r"
  "completed_at (move_row now c t f r) = finish_time now c t (completed_at r)"
  by (simp_all add: move_row_def Let_def)

interpretation moved: row_update run_id "\<lambda>(now, c, t, f). move_row now c t f"
  by unfold_locales auto

interpretation redacted: row_update ev_id "\<lambda>_ :: unit. redact_event"
  by unfold_locales (simp add: redact_event_def)

text \<open>The event a status change writes.\<close>

definition state_event :: "int \<Rightarrow> string \<Rightarrow> nat \<Rightarrow> string \<Rightarrow> run_status \<Rightarrow> run_status \<Rightarrow> transition_args \<Rightarrow> event_row" where
  "state_event now uid i rid current target a =
     \<lparr>ev_id = i, ev_run = rid, ev_type = ''run_state_changed'', ev_phase = None,
      ev_status = Some (status_value target), ev_message = Some (ta_reason a),
      ev_payload = Some [(''from'', VStr (status_value current)), (''to'', VStr (status_value target))],
      ev_created_at = now, ev_uid = uid, ev_schema_version = EVENT_SCHEMA_VERSION, ev_actor = ta_actor a,
      ev_attempt = ta_attempt a, ev_correlation = ta_correlation a, ev_causation = ta_causation a, ev_redacted = False\<rparr>"

lemma append_event_db:
  "\<exists>e. snd (append_event now uid db rid ty a) = db\<lparr>run_events := run_events db @ [e], event_seq := Suc (event_seq db)\<rparr>
     \<and> ev_id e = Suc (event_seq db) \<and> ev_run e = rid \<and> ev_type e = ty \<and> ev_status e = ea_status a"
  unfolding append_event_def Let_def snd_conv by (rule exI, rule conjI [OF refl]) simp

lemma move_matching_rows:
  assumes "distinct (map run_id rows)" "find_row run_id rid rows = Some r"
  shows "map (\<lambda>x. if run_id x = rid \<and> run_status x = run_status r then f x else x) rows = update_row run_id rid f rows"
    "length (filter (\<lambda>x. run_id x = rid \<and> run_status x = run_status r) rows) = 1"
proof -
  have uniq: "x = r" if "x \<in> set rows" "run_id x = rid" for x
    using find_row_distinct [OF assms(1) that(1)] assms(2) that(2) by simp
  have "(if run_id x = rid \<and> run_status x = run_status r then f x else x) = (if run_id x = rid then f x else x)"
    if "x \<in> set rows" for x
    using uniq [OF that] by (cases "run_id x = rid") auto
  then show "map (\<lambda>x. if run_id x = rid \<and> run_status x = run_status r then f x else x) rows = update_row run_id rid f rows"
    unfolding update_row_def map_eq_conv by blast
  have r: "r \<in> set rows" "run_id r = rid" using find_row_SomeD [OF assms(2)] by auto
  have "distinct (filter (\<lambda>x. run_id x = rid \<and> run_status x = run_status r) rows)"
    using assms(1) by (simp add: distinct_map)
  moreover have "set (filter (\<lambda>x. run_id x = rid \<and> run_status x = run_status r) rows) = {r}"
    using r by (auto dest: uniq)
  ultimately show "length (filter (\<lambda>x. run_id x = rid \<and> run_status x = run_status r) rows) = 1"
    using distinct_card [of "filter (\<lambda>x. run_id x = rid \<and> run_status x = run_status r) rows"] by simp
qed

text \<open>With unique run ids the compare-and-set cannot fail, and the result is determined by the table of transitions.\<close>

lemma transition_cases:
  assumes "distinct (map run_id (runs db))"
  shows "transition now uid db rid target a =
    (case find_row run_id rid (runs db) of None \<Rightarrow> Inl (RunNotFound rid)
     | Some r \<Rightarrow>
       if \<not> can_transition (run_status r) target then Inl (IllegalTransition rid (run_status r) target)
       else Inr (\<lparr>tr_previous = run_status r, tr_event_id = Suc (event_seq db), tr_event_uid = uid\<rparr>,
                 db\<lparr>runs := update_row run_id rid (move_row now (run_status r) target (ta_fields a)) (runs db),
                    run_events := run_events db @ [state_event now uid (Suc (event_seq db)) rid (run_status r) target a],
                    event_seq := Suc (event_seq db)\<rparr>))"
  using move_matching_rows [OF assms]
  by (auto simp: transition_def Let_def append_event_def state_event_def event_defaults_def split: option.split)

lemma transition_ok:
  assumes "run_db_ok db" "transition now uid db rid target a = Inr (x, db')"
  obtains r where "find_row run_id rid (runs db) = Some r" "can_transition (run_status r) target"
    "tr_previous x = run_status r" "tr_event_id x = Suc (event_seq db)"
    "db' = db\<lparr>runs := update_row run_id rid (move_row now (run_status r) target (ta_fields a)) (runs db),
       run_events := run_events db @ [state_event now uid (Suc (event_seq db)) rid (run_status r) target a],
       event_seq := Suc (event_seq db)\<rparr>"
  using assms transition_cases [of db now uid rid target a]
  by (auto simp: run_db_ok_def split: option.splits if_splits)

lemma finish_time_ok: "can_transition c t \<Longrightarrow> run_status r = c \<Longrightarrow> run_ok r \<Longrightarrow> run_ok (move_row now c t f r)"
  by (cases c; cases t) (auto simp: run_ok_def finish_time_def can_transition_def TERMINAL_def)

end
