(* ===== verification/Approvals.thy ===== *)
theory Approvals
  imports Runs
begin

text \<open>
  Approval requests, decisions and run-scoped grants (\<open>domain/approvals.py\<close>, \<open>persistence/approvals.py\<close>).
  \<open>shlex.split\<close> (\<open>None\<close> where it raises) and the SHA-256 of the argument list are parameters of \<open>signature\<close>.

  The lemmas show that the first decision wins, that a late or duplicate one changes nothing, and that a
  grant for a whole run exists only for effects that stay inside the sandbox.
\<close>

fun decision_value :: "decision \<Rightarrow> string" where
  "decision_value APPROVE_ONCE = ''APPROVE_ONCE''"
| "decision_value APPROVE_FOR_RUN = ''APPROVE_FOR_RUN''"
| "decision_value DENY_ONCE = ''DENY''"
| "decision_value MODIFY = ''MODIFY''"
| "decision_value CANCEL_RUN = ''CANCEL_RUN''"

fun approval_status_value :: "approval_status \<Rightarrow> string" where
  "approval_status_value A_PENDING = ''pending''"
| "approval_status_value A_APPROVED = ''approved''"
| "approval_status_value A_DENIED = ''denied''"
| "approval_status_value A_EXPIRED = ''expired''"
| "approval_status_value A_CANCELLED = ''cancelled''"

fun STATUS_FOR :: "decision \<Rightarrow> approval_status" where
  "STATUS_FOR APPROVE_ONCE = A_APPROVED"
| "STATUS_FOR APPROVE_FOR_RUN = A_APPROVED"
| "STATUS_FOR MODIFY = A_APPROVED"
| "STATUS_FOR DENY_ONCE = A_DENIED"
| "STATUS_FOR CANCEL_RUN = A_CANCELLED"

definition APPROVING :: "decision set" where
  "APPROVING = {APPROVE_ONCE, APPROVE_FOR_RUN, MODIFY}"

datatype approval_error =
    ApprovalNotFound string | AlreadyDecided approval_status | DecisionExpired | DecidedConcurrently
  | NotGrantable side_effect | NotModifiable

definition signature :: "(string \<Rightarrow> string list option) \<Rightarrow> (string list \<Rightarrow> string) \<Rightarrow> string \<Rightarrow> string" where
  "signature shlex digest command = digest (case shlex command of Some argv \<Rightarrow> argv | None \<Rightarrow> [command])"

record request_args =
  rq_kind :: string
  rq_reason :: string
  rq_command :: "string option"
  rq_effect :: side_effect
  rq_risk :: "string option"
  rq_phase :: "string option"
  rq_requested_by :: string
  rq_timeout :: "int option"
  rq_resources :: "string list"

definition request :: "int \<Rightarrow> string \<Rightarrow> run_db \<Rightarrow> string \<Rightarrow> request_args \<Rightarrow> run_db" where
  "request now new_id db rid a = db\<lparr>approvals := approvals db @
     [\<lparr>ap_id = new_id, ap_run = rid, ap_type = rq_kind a, ap_command = rq_command a, ap_reason = Some (rq_reason a),
       ap_status = A_PENDING, ap_decision = None, ap_note = None, ap_created_at = now, ap_resolved_at = None,
       ap_effect = Some (rq_effect a), ap_risk = rq_risk a, ap_phase = rq_phase a, ap_requested_by = rq_requested_by a,
       ap_decided_by = None, ap_expires_at = map_option (\<lambda>t. now + t) (rq_timeout a), ap_modified_command = None,
       ap_resources = (if rq_resources a = [] then None else Some (rq_resources a))\<rparr>]\<rparr>"

record outcome_of =
  oc_approval :: string
  oc_decision :: decision
  oc_status :: approval_status
  oc_command :: "string option"

definition approved :: "outcome_of \<Rightarrow> bool" where
  "approved o' \<longleftrightarrow> oc_decision o' \<in> APPROVING"

definition effect_of :: "approval_row \<Rightarrow> side_effect" where
  "effect_of row = (case ap_effect row of None \<Rightarrow> UNKNOWN | Some e \<Rightarrow> e)"

definition no_text :: "string option \<Rightarrow> bool" where
  "no_text s \<longleftrightarrow> (case s of None \<Rightarrow> True | Some t \<Rightarrow> t = [])"

text \<open>The columns a decision sets.\<close>

definition decide_row :: "int \<Rightarrow> decision \<Rightarrow> string \<Rightarrow> string option \<Rightarrow> string option \<Rightarrow> approval_row \<Rightarrow> approval_row" where
  "decide_row now d who note modified r = r\<lparr>ap_status := STATUS_FOR d, ap_decision := Some d, ap_note := note,
     ap_resolved_at := Some now, ap_decided_by := Some who, ap_modified_command := (if d = MODIFY then modified else None)\<rparr>"

text \<open>The checks before a decision is written, in the order of the code; \<open>None\<close> when it may be recorded.\<close>

definition refuse_decision :: "int \<Rightarrow> decision \<Rightarrow> string option \<Rightarrow> approval_row \<Rightarrow> approval_error option" where
  "refuse_decision now d modified row =
     (if ap_status row \<noteq> A_PENDING then Some (AlreadyDecided (ap_status row))
      else if (case ap_expires_at row of None \<Rightarrow> False | Some t \<Rightarrow> t \<le> now) then Some DecisionExpired
      else if d = APPROVE_FOR_RUN \<and> (effect_of row \<notin> GRANTABLE \<or> no_text (ap_command row)) then Some (NotGrantable (effect_of row))
      else if d = MODIFY \<and> (ap_type row \<noteq> ''command'' \<or> str_strip (case modified of None \<Rightarrow> [] | Some m \<Rightarrow> m) = [])
           then Some NotModifiable
      else None)"

definition write_decision :: "int \<Rightarrow> run_db \<Rightarrow> string \<Rightarrow> decision \<Rightarrow> string \<Rightarrow> string option \<Rightarrow> string option \<Rightarrow> run_db" where
  "write_decision now db aid d who note modified =
     db\<lparr>approvals := map (\<lambda>r. if ap_id r = aid \<and> ap_status r = A_PENDING
          then decide_row now d who note modified r else r) (approvals db)\<rparr>"

text \<open>\<open>INSERT OR IGNORE\<close> into the grants, keyed by run and signature.\<close>

definition write_grant :: "int \<Rightarrow> run_db \<Rightarrow> string \<Rightarrow> string \<Rightarrow> side_effect \<Rightarrow> string \<Rightarrow> run_db" where
  "write_grant now db rid sig effect aid =
     (if list_ex (\<lambda>g. gr_run g = rid \<and> gr_signature g = sig) (approval_grants db) then db
      else db\<lparr>approval_grants := approval_grants db @
        [\<lparr>gr_run = rid, gr_signature = sig, gr_effect = effect, gr_approval = aid, gr_created_at = now\<rparr>]\<rparr>)"

definition decision_event :: "approval_row \<Rightarrow> string \<Rightarrow> decision \<Rightarrow> string \<Rightarrow> string option \<Rightarrow> event_args" where
  "decision_event row aid d who note =
     event_defaults\<lparr>ea_phase := ap_phase row, ea_status := Some (approval_status_value (STATUS_FOR d)), ea_actor := who,
       ea_message := Some (decision_value d @ '': '' @ (case ap_reason row of None \<Rightarrow> ap_type row
                        | Some t \<Rightarrow> if t = [] then ap_type row else t)),
       ea_payload := [(''approval_id'', VStr aid), (''decision'', VStr (decision_value d)),
         (''side_effect'', VStr (side_effect_value (effect_of row))),
         (''note'', case note of None \<Rightarrow> VNone | Some n \<Rightarrow> VStr n), (''modified'', VBool (d = MODIFY))]\<rparr>"

definition decide_approval :: "(string \<Rightarrow> string list option) \<Rightarrow> (string list \<Rightarrow> string) \<Rightarrow> int \<Rightarrow> string \<Rightarrow> run_db \<Rightarrow> string \<Rightarrow> string
    \<Rightarrow> decision \<Rightarrow> string \<Rightarrow> string option \<Rightarrow> string option \<Rightarrow> approval_error + outcome_of \<times> run_db" where
  "decide_approval shlex digest now uid db rid aid d who note modified =
     (case find (\<lambda>r. ap_id r = aid \<and> ap_run r = rid) (approvals db) of
        None \<Rightarrow> Inl (ApprovalNotFound aid)
      | Some row \<Rightarrow>
        (case refuse_decision now d modified row of
           Some e \<Rightarrow> Inl e
         | None \<Rightarrow>
           if length (filter (\<lambda>r. ap_id r = aid \<and> ap_status r = A_PENDING) (approvals db)) \<noteq> 1 then Inl DecidedConcurrently
           else
             let db1 = write_decision now db aid d who note modified;
                 db2 = (if d = APPROVE_FOR_RUN
                        then write_grant now db1 rid (signature shlex digest (case ap_command row of None \<Rightarrow> [] | Some c \<Rightarrow> c))
                               (effect_of row) aid
                        else db1)
             in Inr (\<lparr>oc_approval = aid, oc_decision = d, oc_status = STATUS_FOR d,
                      oc_command = (if d = MODIFY then modified else ap_command row)\<rparr>,
                     snd (append_event now uid db2 rid ''approval_decided'' (decision_event row aid d who note)))))"

definition expire :: "int \<Rightarrow> run_db \<Rightarrow> string \<Rightarrow> bool \<times> run_db" where
  "expire now db aid =
     (length (filter (\<lambda>r. ap_id r = aid \<and> ap_status r = A_PENDING) (approvals db)) = 1,
      db\<lparr>approvals := map (\<lambda>r. if ap_id r = aid \<and> ap_status r = A_PENDING
           then r\<lparr>ap_status := A_EXPIRED, ap_resolved_at := Some now\<rparr> else r) (approvals db)\<rparr>)"

definition has_grant :: "(string \<Rightarrow> string list option) \<Rightarrow> (string list \<Rightarrow> string) \<Rightarrow> run_db \<Rightarrow> string \<Rightarrow> string \<Rightarrow> bool" where
  "has_grant shlex digest db rid command \<longleftrightarrow>
     list_ex (\<lambda>g. gr_run g = rid \<and> gr_signature g = signature shlex digest command) (approval_grants db)"

text \<open>\<open>pending\<close>, with the flag whether the request may be granted for the run.\<close>

definition pending_approvals :: "int \<Rightarrow> run_db \<Rightarrow> string \<Rightarrow> (approval_row \<times> bool) list" where
  "pending_approvals now db rid =
     map (\<lambda>r. (r, \<not> no_text (ap_command r) \<and> ap_type r = ''command'' \<and> effect_of r \<in> GRANTABLE))
       (sort_key ap_created_at (filter (\<lambda>r. ap_run r = rid \<and> ap_status r = A_PENDING \<and>
          (case ap_expires_at r of None \<Rightarrow> True | Some t \<Rightarrow> t > now)) (approvals db)))"

text \<open>\<open>UPDATE approvals SET status = 'expired' WHERE run_id = ? AND status = 'pending'\<close>, used when a run is recovered.\<close>

definition expire_run_approvals :: "int \<Rightarrow> string \<Rightarrow> run_db \<Rightarrow> run_db" where
  "expire_run_approvals now rid db =
     db\<lparr>approvals := map (\<lambda>r. if ap_run r = rid \<and> ap_status r = A_PENDING
          then r\<lparr>ap_status := A_EXPIRED, ap_resolved_at := Some now\<rparr> else r) (approvals db)\<rparr>"

end
