(* ===== verification/Queue.thy ===== *)
theory Queue
  imports Approvals
begin

text \<open>
  The durable run queue with worker leases (\<open>runtime/queue.py\<close>), the write fence of \<open>database.py\<close> and the
  startup recovery of \<open>recovery.py\<close>. Each operation is one transaction: an exception leaves the tables as
  they were.

  The lemmas show that a claim takes the oldest queued run, that every claim raises the lease epoch, that a worker
  whose lease moved on can never write again, and that the ledger records every status change.
\<close>

section \<open>Operations\<close>

definition LIVE :: "run_status list" where
  "LIVE = [RUNNING, WAITING_APPROVAL, CANCEL_REQUESTED]"

record claim =
  cl_run :: string
  cl_kind :: string
  cl_epoch :: nat
  cl_attempt :: nat

definition enqueue :: "int \<Rightarrow> string \<Rightarrow> run_db \<Rightarrow> string \<Rightarrow> string \<Rightarrow> string \<Rightarrow> run_error + run_db" where
  "enqueue now uid db rid who reason =
     bind_r (transition now uid db rid QUEUED (by_actor who reason 1 [])) (\<lambda>(t, db1).
       Inr (db1\<lparr>runs := update_row run_id rid
              (\<lambda>r. r\<lparr>queued_at := Some now, lease_owner := None, lease_expires_at := None\<rparr>) (runs db1)\<rparr>))"

text \<open>\<open>ORDER BY queued_at, id\<close>: SQLite puts \<open>NULL\<close> first.\<close>

definition null_first :: "int option \<Rightarrow> nat \<times> int" where
  "null_first t = (case t of None \<Rightarrow> (0, 0) | Some x \<Rightarrow> (1, x))"

definition oldest_queued :: "run_db \<Rightarrow> run_row option" where
  "oldest_queued db =
     (case sort_key (\<lambda>r. (null_first (queued_at r), run_id r)) (filter (\<lambda>r. run_status r = QUEUED) (runs db)) of
        [] \<Rightarrow> None | r # _ \<Rightarrow> Some r)"

definition lease_expired :: "int \<Rightarrow> run_row \<Rightarrow> bool" where
  "lease_expired now r \<longleftrightarrow> lease_owner r \<noteq> None \<and> (case lease_expires_at r of None \<Rightarrow> False | Some t \<Rightarrow> t < now)"

definition dead_run :: "int \<Rightarrow> run_db \<Rightarrow> run_row option" where
  "dead_run now db =
     (case sort_key (\<lambda>r. (null_first (lease_expires_at r), run_id r))
             (filter (\<lambda>r. run_status r \<in> set LIVE \<and> lease_expired now r) (runs db)) of
        [] \<Rightarrow> None | r # _ \<Rightarrow> Some r)"

definition clear_lease :: "run_row \<Rightarrow> run_row" where
  "clear_lease r = r\<lparr>lease_owner := None, lease_expires_at := None\<rparr>"

text \<open>Claiming a queued run: \<open>uid\<close> and \<open>uid'\<close> are the ids of the events that may be written.\<close>

definition claim_queued :: "int \<Rightarrow> string \<Rightarrow> string \<Rightarrow> int \<Rightarrow> run_db \<Rightarrow> run_row \<Rightarrow> run_error + claim \<times> run_db" where
  "claim_queued now uid worker lease_s db row =
     bind_r (transition now uid db (run_id row) RUNNING
               (by_actor (''worker:'' @ worker) ''claimed by a worker'' (attempt_col row) []))
       (\<lambda>(t, db1). Inr (\<lparr>cl_run = run_id row, cl_kind = ''start'', cl_epoch = Suc (lease_epoch row), cl_attempt = attempt_col row\<rparr>,
          db1\<lparr>runs := update_row run_id (run_id row) (\<lambda>r. r\<lparr>lease_owner := Some worker,
                lease_expires_at := Some (now + lease_s), lease_epoch := Suc (lease_epoch row)\<rparr>) (runs db1)\<rparr>))"

definition lost_reason :: "run_row \<Rightarrow> string" where
  "lost_reason row = ''worker '' @ (case lease_owner row of None \<Rightarrow> ''None'' | Some w \<Rightarrow> w) @ '' stopped renewing its lease''"

definition interrupt_run :: "int \<Rightarrow> string \<Rightarrow> string \<Rightarrow> string \<Rightarrow> run_db \<Rightarrow> run_row \<Rightarrow> run_error + run_db" where
  "interrupt_run now uid uid' reason db row =
     bind_r (transition now uid db (run_id row) INTERRUPTED
               (by_actor ''recovery'' reason (attempt_col row) [(''outcome'', Some ''interrupted'')]))
       (\<lambda>(t, db1). Inr (snd (append_event now uid' db1 (run_id row) ''run_interrupted''
          (event_defaults\<lparr>ea_phase := current_phase row, ea_status := Some ''interrupted'', ea_message := Some reason,
             ea_actor := ''recovery'', ea_attempt := attempt_col row\<rparr>))))"

definition cancel_run_by :: "int \<Rightarrow> string \<Rightarrow> string \<Rightarrow> run_db \<Rightarrow> run_row \<Rightarrow> run_error + run_db" where
  "cancel_run_by now uid reason db row =
     bind_r (transition now uid db (run_id row) CANCELLED
               (by_actor ''recovery'' reason (attempt_col row) [(''outcome'', Some ''cancelled'')]))
       (\<lambda>(t, db1). Inr db1)"

definition claim_dead :: "int \<Rightarrow> string \<Rightarrow> string \<Rightarrow> run_db \<Rightarrow> run_row \<Rightarrow> run_error + claim \<times> run_db" where
  "claim_dead now uid uid' db row =
     bind_r (if run_status row = CANCEL_REQUESTED then cancel_run_by now uid (lost_reason row) db row
             else interrupt_run now uid uid' (lost_reason row) db row)
       (\<lambda>db1. let db2 = expire_run_approvals now (run_id row) db1
              in Inr (\<lparr>cl_run = run_id row, cl_kind = ''recover'', cl_epoch = 0, cl_attempt = attempt_col row\<rparr>,
                      db2\<lparr>runs := update_row run_id (run_id row) clear_lease (runs db2)\<rparr>))"

definition claim_run :: "int \<Rightarrow> string \<Rightarrow> string \<Rightarrow> string \<Rightarrow> int \<Rightarrow> run_db \<Rightarrow> run_error + claim option \<times> run_db" where
  "claim_run now uid uid' worker lease_s db =
     (case oldest_queued db of
        Some row \<Rightarrow> bind_r (claim_queued now uid worker lease_s db row) (\<lambda>(c, db'). Inr (Some c, db'))
      | None \<Rightarrow>
          (case dead_run now db of
             None \<Rightarrow> Inr (None, db)
           | Some row \<Rightarrow> bind_r (claim_dead now uid uid' db row) (\<lambda>(c, db'). Inr (Some c, db'))))"

definition holds_lease :: "run_db \<Rightarrow> string \<Rightarrow> string \<Rightarrow> nat \<Rightarrow> bool" where
  "holds_lease db rid worker epoch \<longleftrightarrow>
     list_ex (\<lambda>r. run_id r = rid \<and> lease_owner r = Some worker \<and> lease_epoch r = epoch) (runs db)"

definition leased_rows :: "string \<Rightarrow> string \<Rightarrow> nat \<Rightarrow> (run_row \<Rightarrow> run_row) \<Rightarrow> run_row list \<Rightarrow> run_row list" where
  "leased_rows rid worker epoch f rows =
     map (\<lambda>r. if run_id r = rid \<and> lease_owner r = Some worker \<and> lease_epoch r = epoch then f r else r) rows"

definition heartbeat :: "int \<Rightarrow> run_db \<Rightarrow> string \<Rightarrow> string \<Rightarrow> nat \<Rightarrow> int \<Rightarrow> run_error + run_db" where
  "heartbeat now db rid worker epoch lease_s =
     (if length (filter (\<lambda>r. run_id r = rid \<and> lease_owner r = Some worker \<and> lease_epoch r = epoch) (runs db)) \<noteq> 1
      then Inl (LeaseLost worker rid)
      else Inr (db\<lparr>runs := leased_rows rid worker epoch (\<lambda>r. r\<lparr>lease_expires_at := Some (now + lease_s)\<rparr>) (runs db)\<rparr>))"

definition release :: "run_db \<Rightarrow> string \<Rightarrow> string \<Rightarrow> nat \<Rightarrow> run_db" where
  "release db rid worker epoch = db\<lparr>runs := leased_rows rid worker epoch clear_lease (runs db)\<rparr>"

record queue_stats =
  qs_queued :: nat
  qs_leased :: nat
  qs_expired_leases :: nat
  qs_oldest_wait :: "int option"

definition stats :: "int \<Rightarrow> run_db \<Rightarrow> queue_stats" where
  "stats now db =
     (let queued = filter (\<lambda>r. run_status r = QUEUED) (runs db);
          times = List.map_filter queued_at queued
      in \<lparr>qs_queued = length queued,
          qs_leased = length (filter (\<lambda>r. lease_owner r \<noteq> None \<and>
             (case lease_expires_at r of None \<Rightarrow> False | Some t \<Rightarrow> t \<ge> now)) (runs db)),
          qs_expired_leases = length (filter (lease_expired now) (runs db)),
          qs_oldest_wait = (if times = [] then None else Some (max 0 (now - Min (set times))))\<rparr>)"

section \<open>The write fence\<close>

text \<open>
  A transaction of a fenced worker: after the body has run, the fence is checked on the resulting tables and the whole
  transaction is rolled back if the lease is gone.
\<close>

definition check_fence :: "(string \<times> string \<times> nat) option \<Rightarrow> run_db \<Rightarrow> run_error + unit" where
  "check_fence fence db =
     (case fence of None \<Rightarrow> Inr ()
      | Some (rid, worker, epoch) \<Rightarrow> if holds_lease db rid worker epoch then Inr () else Inl (LeaseLost worker rid))"

definition fenced :: "(string \<times> string \<times> nat) option \<Rightarrow> (run_db \<Rightarrow> run_error + 'a \<times> run_db) \<Rightarrow> run_db
    \<Rightarrow> (run_error + 'a) \<times> run_db" where
  "fenced fence body db =
     (case body db of Inl e \<Rightarrow> (Inl e, db)
      | Inr (x, db') \<Rightarrow> (case check_fence fence db' of Inl e \<Rightarrow> (Inl e, db) | Inr _ \<Rightarrow> (Inr x, db')))"

section \<open>Startup recovery\<close>

definition needs_recovery :: "run_row \<Rightarrow> bool" where
  "needs_recovery r \<longleftrightarrow> (run_status r \<in> set LIVE \<or> run_status r = CREATED \<and> current_phase r \<noteq> None)
     \<and> (case lease_owner r of None \<Rightarrow> True | Some w \<Rightarrow> w = [])"

text \<open>
  The body of the loop of \<open>recover_interrupted_runs\<close> for one row. An \<open>IllegalTransition\<close> is logged and the row is
  skipped, keeping what was already written; any other exception ends the transaction. The flag says
  whether the run counts as recovered.
\<close>

definition recover_one :: "int \<Rightarrow> (nat \<Rightarrow> string) \<Rightarrow> run_db \<Rightarrow> run_row \<Rightarrow> run_error + bool \<times> run_db" where
  "recover_one now uids db row =
     (case (if run_status row = CREATED
            then (case transition now (uids 0) db (run_id row) RUNNING
                         (by_actor ''recovery'' ''adopted legacy in-flight run'' (attempt_col row) []) of
                    Inl e \<Rightarrow> Inl e | Inr (t, db1) \<Rightarrow> Inr db1)
            else Inr db) of
        Inl (IllegalTransition i c t) \<Rightarrow> Inr (False, db)
      | Inl e \<Rightarrow> Inl e
      | Inr db1 \<Rightarrow>
        (case (if run_status row = CANCEL_REQUESTED
               then cancel_run_by now (uids 1) ''cancel was requested before the process stopped'' db1 row
               else interrupt_run now (uids 1) (uids 2) ''process stopped while this run was in progress'' db1 row) of
           Inl (IllegalTransition i c t) \<Rightarrow> Inr (False, db1)
         | Inl e \<Rightarrow> Inl e
         | Inr db2 \<Rightarrow> Inr (True, expire_run_approvals now (run_id row) db2)))"

fun recover_loop :: "int \<Rightarrow> (nat \<Rightarrow> nat \<Rightarrow> string) \<Rightarrow> run_row list \<Rightarrow> nat \<Rightarrow> run_db \<Rightarrow> run_error + nat \<times> run_db" where
  "recover_loop now uids [] n db = Inr (n, db)"
| "recover_loop now uids (row # rows) n db =
     (case recover_one now (uids (length rows)) db row of
        Inl e \<Rightarrow> Inl e
      | Inr (ok, db') \<Rightarrow> recover_loop now uids rows (if ok then Suc n else n) db')"

definition recover_interrupted_runs :: "int \<Rightarrow> (nat \<Rightarrow> nat \<Rightarrow> string) \<Rightarrow> run_db \<Rightarrow> run_error + nat \<times> run_db" where
  "recover_interrupted_runs now uids db = recover_loop now uids (filter needs_recovery (runs db)) 0 db"

section \<open>New runs\<close>

text \<open>A run enters the table as \<open>created\<close>, with no lease and epoch 0 (\<open>create_child\<close> of \<open>runtime/lineage.py\<close>).\<close>

definition new_run :: "int \<Rightarrow> string \<Rightarrow> run_row" where
  "new_run now rid = \<lparr>run_id = rid, run_status = CREATED, updated_at = now, completed_at = None, outcome_col = None,
     verdict = None, current_phase = None, failure_kind_col = None, attempt_col = 1, queued_at = None, lease_owner = None,
     lease_expires_at = None, lease_epoch = 0\<rparr>"

section \<open>Elementary changes of the tables\<close>

text \<open>
  Every operation above is a sequence of elementary changes; the invariants are proved for these. A row
  of the runs table may change apart from its status as long as its lease moves forward; a row of the
  approvals table only while it is pending; a grant needs a decided approval behind it.
\<close>

definition row_kept :: "run_row \<Rightarrow> run_row \<Rightarrow> bool" where
  "row_kept r r' \<longleftrightarrow> run_id r' = run_id r \<and> run_status r' = run_status r \<and> completed_at r' = completed_at r \<and>
     lease_epoch r \<le> lease_epoch r' \<and>
     (lease_owner r' = None \<or> lease_owner r' = lease_owner r \<and> lease_epoch r' = lease_epoch r \<or> lease_epoch r < lease_epoch r')"

definition approval_kept :: "approval_row \<Rightarrow> approval_row \<Rightarrow> bool" where
  "approval_kept a a' \<longleftrightarrow> a' = a \<or> (ap_status a = A_PENDING \<and> ap_status a' \<noteq> A_PENDING \<and> ap_id a' = ap_id a \<and> ap_run a' = ap_run a)"

text \<open>What stands behind a grant: an approval for the whole run of a command with that signature, of a grantable effect.\<close>

definition grant_backed :: "(string \<Rightarrow> string) \<Rightarrow> approval_row list \<Rightarrow> grant_row \<Rightarrow> bool" where
  "grant_backed sig aps g \<longleftrightarrow> gr_effect g \<in> GRANTABLE \<and>
     (\<exists>a \<in> set aps. ap_id a = gr_approval g \<and> ap_run a = gr_run g \<and> ap_status a = A_APPROVED \<and>
        ap_decision a = Some APPROVE_FOR_RUN \<and> effect_of a = gr_effect g \<and> ap_decided_by a \<noteq> None \<and>
        (\<exists>c. ap_command a = Some c \<and> gr_signature g = sig c))"

inductive change :: "(string \<Rightarrow> string) \<Rightarrow> run_db \<Rightarrow> run_db \<Rightarrow> bool" for sig where
  moved: "transition now uid db rid t a = Inr (x, db') \<Longrightarrow> change sig db db'"
| appended: "ty \<noteq> ''run_state_changed'' \<Longrightarrow> change sig db (snd (append_event now uid db rid ty a))"
| redacted: "change sig db (redact db i)"
| rows: "list_all2 row_kept (runs db) rs \<Longrightarrow> change sig db (db\<lparr>runs := rs\<rparr>)"
| created: "\<not> has_row run_id rid (runs db) \<Longrightarrow> change sig db (db\<lparr>runs := runs db @ [new_run now rid]\<rparr>)"
| decided: "list_all2 approval_kept (approvals db) aps \<Longrightarrow> change sig db (db\<lparr>approvals := aps\<rparr>)"
| requested: "\<not> has_row ap_id (ap_id a) (approvals db) \<Longrightarrow> ap_status a = A_PENDING \<Longrightarrow>
    change sig db (db\<lparr>approvals := approvals db @ [a]\<rparr>)"
| granted: "grant_backed sig (approvals db) g \<Longrightarrow> change sig db (db\<lparr>approval_grants := approval_grants db @ [g]\<rparr>)"

definition db_ok :: "(string \<Rightarrow> string) \<Rightarrow> run_db \<Rightarrow> bool" where
  "db_ok sig db \<longleftrightarrow> run_db_ok db \<and> distinct (map ap_id (approvals db)) \<and>
     (\<forall>g \<in> set (approval_grants db). grant_backed sig (approvals db) g)"

lemma all2_keys: "list_all2 R xs ys \<Longrightarrow> (\<And>x y. R x y \<Longrightarrow> key y = key x) \<Longrightarrow> map key ys = map key xs"
  by (induction rule: list_all2_induct) auto

lemma all2_find_row:
  assumes "list_all2 R xs ys" "\<And>x y. R x y \<Longrightarrow> key y = key x" "find_row key k xs = Some x"
  shows "\<exists>y. find_row key k ys = Some y \<and> R x y"
  using assms by (induction rule: list_all2_induct) (auto simp: find_row_Cons split: if_splits)

lemma all2_find_row_None:
  assumes "list_all2 R xs ys" "\<And>x y. R x y \<Longrightarrow> key y = key x" "find_row key k xs = None"
  shows "find_row key k ys = None"
  using assms by (induction rule: list_all2_induct) (auto simp: find_row_Cons split: if_splits)

lemma all2_mem: "list_all2 R xs ys \<Longrightarrow> y \<in> set ys \<Longrightarrow> \<exists>x \<in> set xs. R x y"
  by (induction rule: list_all2_induct) auto

lemma all2_mem': "list_all2 R xs ys \<Longrightarrow> x \<in> set xs \<Longrightarrow> \<exists>y \<in> set ys. R x y"
  by (induction rule: list_all2_induct) auto

lemma all2_self: "(\<And>x. x \<in> set xs \<Longrightarrow> R x (f x)) \<Longrightarrow> list_all2 R xs (map f xs)"
  by (induction xs) auto

lemma row_kept_refl [simp]: "row_kept r r"
  by (simp add: row_kept_def)

lemma approval_kept_refl [simp]: "approval_kept a a"
  by (simp add: approval_kept_def)

lemma row_kept_id: "row_kept r r' \<Longrightarrow> run_id r' = run_id r"
  by (simp add: row_kept_def)

lemma approval_kept_id: "approval_kept a a' \<Longrightarrow> ap_id a' = ap_id a"
  by (auto simp: approval_kept_def)

lemma grant_backed_kept: "list_all2 approval_kept aps aps' \<Longrightarrow> grant_backed sig aps g \<Longrightarrow> grant_backed sig aps' g"
  unfolding grant_backed_def by (metis (no_types, lifting) all2_mem' approval_kept_def approval_status.distinct(1))

lemma run_db_ok_append:
  "run_db_ok db \<Longrightarrow> run_db_ok (snd (append_event now uid db rid ty a))"
  using append_event_db [of now uid db rid ty a]
  by (auto simp: run_db_ok_def sorted_wrt_append less_Suc_eq_le le_Suc_eq)

lemma run_db_ok_transition:
  assumes "run_db_ok db" "transition now uid db rid t a = Inr (x, db')"
  shows "run_db_ok db'"
proof -
  from transition_ok [OF assms] obtain r where r: "find_row run_id rid (runs db) = Some r" "can_transition (run_status r) t"
    and db': "db' = db\<lparr>runs := update_row run_id rid (move_row now (run_status r) t (ta_fields a)) (runs db),
       run_events := run_events db @ [state_event now uid (Suc (event_seq db)) rid (run_status r) t a],
       event_seq := Suc (event_seq db)\<rparr>" .
  have "run_ok y" if "y \<in> set (runs db')" for y
  proof -
    have uniq: "z = r" if "z \<in> set (runs db)" "run_id z = rid" for z
      using find_row_distinct [of run_id "runs db" z] that assms(1) r(1) by (simp add: run_db_ok_def)
    from that obtain z where z: "z \<in> set (runs db)"
        "y = (if run_id z = rid then move_row now (run_status r) t (ta_fields a) z else z)"
      by (auto simp: db' update_row_def)
    then show ?thesis using assms(1) finish_time_ok [OF r(2)] uniq [OF z(1)]
      by (cases "run_id z = rid") (auto simp: run_db_ok_def)
  qed
  moreover have "map run_id (runs db') = map run_id (runs db)"
    using moved.keys_update [of rid "(now, run_status r, t, ta_fields a)" "runs db"] by (simp add: db')
  ultimately show ?thesis using assms(1)
    by (auto simp: run_db_ok_def db' sorted_wrt_append state_event_def less_Suc_eq_le le_Suc_eq)
qed

lemma transition_effect:
  assumes "run_db_ok db" "transition now uid db rid t a = Inr (x, db')"
  shows "\<exists>r. find_row run_id rid (runs db) = Some r \<and> can_transition (run_status r) t \<and>
    runs db' = update_row run_id rid (move_row now (run_status r) t (ta_fields a)) (runs db) \<and>
    run_events db' = run_events db @ [state_event now uid (Suc (event_seq db)) rid (run_status r) t a] \<and>
    event_seq db' = Suc (event_seq db)"
  by (rule transition_ok [OF assms]) simp

lemma transition_approvals:
  "transition now uid db rid t a = Inr (x, db') \<Longrightarrow> approvals db' = approvals db \<and> approval_grants db' = approval_grants db"
  by (auto simp: transition_def append_event_def Let_def split: option.splits if_splits)

lemma change_ok: "change sig db db' \<Longrightarrow> db_ok sig db \<Longrightarrow> db_ok sig db'"
proof (induction rule: change.induct)
  case (moved now uid db rid t a x db')
  then show ?case using run_db_ok_transition [of db now uid rid t a x db'] transition_approvals [OF moved(1)]
    by (simp add: db_ok_def)
next
  case (appended ty db now uid rid a)
  then show ?case using run_db_ok_append [of db] append_event_db [of now uid db rid ty a] by (auto simp: db_ok_def)
next
  case (redacted db i)
  have "map ev_id (update_row ev_id i redact_event (run_events db)) = map ev_id (run_events db)"
    using redacted.keys_update [of i "run_events db"] by simp
  moreover from this have "ev_id ` set (update_row ev_id i redact_event (run_events db)) = ev_id ` set (run_events db)"
    by (metis list.set_map)
  ultimately show ?case using redacted by (auto simp: db_ok_def run_db_ok_def redact_def image_iff) (metis image_iff)
next
  case (rows db rs)
  have "run_ok y" if "y \<in> set rs" for y
    using all2_mem [OF rows(1) that] rows(2) by (auto simp: row_kept_def run_ok_def db_ok_def run_db_ok_def)
  then show ?case using all2_keys [OF rows(1) row_kept_id] rows(2) by (auto simp: db_ok_def run_db_ok_def)
next
  case (created rid db now)
  then show ?case using distinct_insert [of run_id "new_run now rid" "runs db"]
    by (auto simp: db_ok_def run_db_ok_def new_run_def run_ok_def TERMINAL_def)
next
  case (decided db aps)
  then show ?case using all2_keys [OF decided(1) approval_kept_id] grant_backed_kept [OF decided(1)]
    by (auto simp: db_ok_def run_db_ok_def)
next
  case (requested a db)
  then show ?case using distinct_insert [of ap_id a "approvals db"]
    by (auto simp: db_ok_def run_db_ok_def grant_backed_def)
next
  case (granted db g)
  then show ?case by (auto simp: db_ok_def run_db_ok_def)
qed

section \<open>The operations as sequences of elementary changes\<close>

inductive runtime_step :: "(string \<Rightarrow> string list option) \<Rightarrow> (string list \<Rightarrow> string) \<Rightarrow> run_db \<Rightarrow> run_db \<Rightarrow> bool" for shlex digest where
  s_create: "\<not> has_row run_id rid (runs db) \<Longrightarrow> runtime_step shlex digest db (db\<lparr>runs := runs db @ [new_run now rid]\<rparr>)"
| s_transition: "transition now uid db rid t a = Inr (x, db') \<Longrightarrow> runtime_step shlex digest db db'"
| s_append: "ty \<noteq> ''run_state_changed'' \<Longrightarrow> runtime_step shlex digest db (snd (append_event now uid db rid ty a))"
| s_redact: "runtime_step shlex digest db (redact db i)"
| s_enqueue: "enqueue now uid db rid who why = Inr db' \<Longrightarrow> runtime_step shlex digest db db'"
| s_claim: "claim_run now uid uid' w lease db = Inr (c, db') \<Longrightarrow> runtime_step shlex digest db db'"
| s_heartbeat: "heartbeat now db rid w e lease = Inr db' \<Longrightarrow> runtime_step shlex digest db db'"
| s_release: "runtime_step shlex digest db (release db rid w e)"
| s_recover: "recover_interrupted_runs now uids db = Inr (n, db') \<Longrightarrow> runtime_step shlex digest db db'"
| s_request: "\<not> has_row ap_id i (approvals db) \<Longrightarrow> runtime_step shlex digest db (request now i db rid q)"
| s_decide: "decide_approval shlex digest now uid db rid aid d who note m = Inr (oc, db') \<Longrightarrow> runtime_step shlex digest db db'"
| s_expire: "expire now db aid = (b, db') \<Longrightarrow> runtime_step shlex digest db db'"

lemma rows_map: "(\<And>r. r \<in> set (runs db) \<Longrightarrow> row_kept r (f r)) \<Longrightarrow> change sig db (db\<lparr>runs := map f (runs db)\<rparr>)"
  by (rule change.rows) (rule all2_self)

lemma decided_map:
  "(\<And>a. a \<in> set (approvals db) \<Longrightarrow> approval_kept a (f a)) \<Longrightarrow> change sig db (db\<lparr>approvals := map f (approvals db)\<rparr>)"
  by (rule change.decided) (rule all2_self)

lemma expire_run_approvals_change: "change sig db (expire_run_approvals now rid db)"
  unfolding expire_run_approvals_def by (rule decided_map) (simp add: approval_kept_def)

lemma clear_lease_kept: "row_kept r (clear_lease r)"
  by (simp add: row_kept_def clear_lease_def)

lemma enqueue_changes: "enqueue now uid db rid who why = Inr db' \<Longrightarrow> (change sig)\<^sup>*\<^sup>* db db'"
proof -
  assume "enqueue now uid db rid who why = Inr db'"
  then obtain t db1 where t: "transition now uid db rid QUEUED (by_actor who why 1 []) = Inr (t, db1)"
    and db': "db' = db1\<lparr>runs := update_row run_id rid
        (\<lambda>r. r\<lparr>queued_at := Some now, lease_owner := None, lease_expires_at := None\<rparr>) (runs db1)\<rparr>"
    by (auto simp: enqueue_def result_simps)
  have "change sig db1 db'" unfolding db' update_row_def by (rule rows_map) (simp add: row_kept_def)
  then show ?thesis using change.moved [OF t, of sig] by (meson converse_rtranclp_into_rtranclp r_into_rtranclp)
qed

lemma interrupt_changes:
  "interrupt_run now uid uid' why db row = Inr db' \<Longrightarrow> (change sig)\<^sup>*\<^sup>* db db'"
proof -
  assume "interrupt_run now uid uid' why db row = Inr db'"
  then obtain t db1 a where t: "transition now uid db (run_id row) INTERRUPTED
      (by_actor ''recovery'' why (attempt_col row) [(''outcome'', Some ''interrupted'')]) = Inr (t, db1)"
    and db': "db' = snd (append_event now uid' db1 (run_id row) ''run_interrupted'' a)"
    by (auto simp: interrupt_run_def result_simps)
  have "change sig db1 db'" unfolding db' by (rule change.appended) simp
  then show ?thesis using change.moved [OF t, of sig] by (meson converse_rtranclp_into_rtranclp r_into_rtranclp)
qed

lemma cancel_changes: "cancel_run_by now uid why db row = Inr db' \<Longrightarrow> (change sig)\<^sup>*\<^sup>* db db'"
  unfolding cancel_run_by_def result_simps by (auto intro: change.moved)

lemma sorted_head_mem: "sort_key f xs = r # rs \<Longrightarrow> r \<in> set xs \<and> (\<forall>x \<in> set xs. f r \<le> f x)"
proof -
  assume s: "sort_key f xs = r # rs"
  have "sorted (map f (r # rs))" using sorted_sort_key [of f xs] s by simp
  moreover have "set xs = set (r # rs)" using set_sort [of f xs] s by simp
  ultimately show ?thesis by auto
qed

lemma oldest_queued_Some:
  "oldest_queued db = Some r \<Longrightarrow> r \<in> set (runs db) \<and> run_status r = QUEUED \<and>
     (\<forall>x \<in> set (runs db). run_status x = QUEUED \<longrightarrow> (null_first (queued_at r), run_id r) \<le> (null_first (queued_at x), run_id x))"
  unfolding oldest_queued_def by (auto split: list.splits simp del: less_eq_prod_simp dest!: sorted_head_mem)

lemma dead_run_Some:
  "dead_run now db = Some r \<Longrightarrow> r \<in> set (runs db) \<and> run_status r \<in> set LIVE \<and> lease_expired now r"
  unfolding dead_run_def by (auto split: list.splits dest: sorted_head_mem)

text \<open>The row a transition leaves behind carries the lease it had before.\<close>

lemma transition_rows:
  assumes "run_db_ok db" "transition now uid db rid t a = Inr (x, db')" "r \<in> set (runs db)" "run_id r = rid"
  shows "\<forall>y \<in> set (runs db'). run_id y = rid \<longrightarrow> y = move_row now (run_status r) t (ta_fields a) r"
proof -
  obtain r0 where r0: "find_row run_id rid (runs db) = Some r0"
    and db': "runs db' = update_row run_id rid (move_row now (run_status r0) t (ta_fields a)) (runs db)"
    by (rule transition_ok [OF assms(1,2)]) simp
  have uniq: "z = r0" if "z \<in> set (runs db)" "run_id z = rid" for z
    using find_row_distinct [of run_id "runs db" z] that assms(1) r0 by (simp add: run_db_ok_def)
  show ?thesis
  proof (intro ballI impI)
    fix y assume y: "y \<in> set (runs db')" "run_id y = rid"
    obtain z where z: "z \<in> set (runs db)" "y = (if run_id z = rid then move_row now (run_status r0) t (ta_fields a) z else z)"
      using y(1) unfolding db' update_row_def by auto
    have "run_id z = rid" using y(2) z(2) by (simp split: if_splits)
    then show "y = move_row now (run_status r) t (ta_fields a) r"
      using uniq [OF z(1)] uniq [OF assms(3,4)] z(2) by simp
  qed
qed

lemma claim_queued_changes:
  assumes "run_db_ok db" "row \<in> set (runs db)" "claim_queued now uid w lease db row = Inr (c, db')"
  shows "(change sig)\<^sup>*\<^sup>* db db'"
proof -
  obtain t db1 where t: "transition now uid db (run_id row) RUNNING
        (by_actor (''worker:'' @ w) ''claimed by a worker'' (attempt_col row) []) = Inr (t, db1)"
    and db': "db' = db1\<lparr>runs := update_row run_id (run_id row) (\<lambda>r. r\<lparr>lease_owner := Some w,
        lease_expires_at := Some (now + lease), lease_epoch := Suc (lease_epoch row)\<rparr>) (runs db1)\<rparr>"
    using assms(3) by (auto simp: claim_queued_def result_simps)
  note kept = transition_rows [OF assms(1) t assms(2) refl]
  have "change sig db1 db'" unfolding db' update_row_def
    by (rule rows_map) (use kept in \<open>auto simp: row_kept_def\<close>)
  then show ?thesis using change.moved [OF t, of sig] by (meson converse_rtranclp_into_rtranclp r_into_rtranclp)
qed

lemma claim_dead_changes:
  assumes "claim_dead now uid uid' db row = Inr (c, db')"
  shows "(change sig)\<^sup>*\<^sup>* db db'"
proof -
  obtain db1 where db1: "(if run_status row = CANCEL_REQUESTED then cancel_run_by now uid (lost_reason row) db row
        else interrupt_run now uid uid' (lost_reason row) db row) = Inr db1"
    and db': "db' = (expire_run_approvals now (run_id row) db1)\<lparr>runs :=
        map (\<lambda>r. if run_id r = run_id row then clear_lease r else r) (runs (expire_run_approvals now (run_id row) db1))\<rparr>"
    using assms by (auto simp: claim_dead_def result_simps Let_def update_row_def)
  have a: "(change sig)\<^sup>*\<^sup>* db db1" using db1 cancel_changes interrupt_changes by (auto split: if_splits)
  have b: "change sig db1 (expire_run_approvals now (run_id row) db1)" by (rule expire_run_approvals_change)
  have c: "change sig (expire_run_approvals now (run_id row) db1) db'"
    unfolding db' by (rule rows_map) (simp add: clear_lease_kept)
  from a b c show ?thesis by (meson rtranclp.rtrancl_into_rtrancl)
qed

lemma claim_changes:
  assumes "run_db_ok db" "claim_run now uid uid' w lease db = Inr (c, db')"
  shows "(change sig)\<^sup>*\<^sup>* db db'"
proof (cases "oldest_queued db")
  case None
  then show ?thesis using assms claim_dead_changes by (auto simp: claim_run_def result_simps split: option.splits)
next
  case (Some row)
  then show ?thesis using assms claim_queued_changes oldest_queued_Some [OF Some]
    by (auto simp: claim_run_def result_simps)
qed

lemma recover_one_changes:
  assumes "recover_one now uids db row = Inr (b, db')"
  shows "(change sig)\<^sup>*\<^sup>* db db'"
proof -
  obtain db1 where a: "(change sig)\<^sup>*\<^sup>* db db1" and
    rest: "db' = db1 \<or> (\<exists>db2. (cancel_run_by now (uids 1) ''cancel was requested before the process stopped'' db1 row = Inr db2 \<or>
        interrupt_run now (uids 1) (uids 2) ''process stopped while this run was in progress'' db1 row = Inr db2) \<and>
        db' = expire_run_approvals now (run_id row) db2)"
    using assms unfolding recover_one_def
    by (auto split: if_splits sum.splits run_error.splits intro: change.moved)
  from rest show ?thesis
  proof
    assume "\<exists>db2. (cancel_run_by now (uids 1) ''cancel was requested before the process stopped'' db1 row = Inr db2 \<or>
        interrupt_run now (uids 1) (uids 2) ''process stopped while this run was in progress'' db1 row = Inr db2) \<and>
        db' = expire_run_approvals now (run_id row) db2"
    then obtain db2 where "(change sig)\<^sup>*\<^sup>* db1 db2" "db' = expire_run_approvals now (run_id row) db2"
      using cancel_changes interrupt_changes by blast
    then show ?thesis using a expire_run_approvals_change by (metis rtranclp.rtrancl_into_rtrancl rtranclp_trans)
  qed (use a in simp)
qed

lemma recover_changes: "recover_loop now uids rows n db = Inr (m, db') \<Longrightarrow> (change sig)\<^sup>*\<^sup>* db db'"
  by (induction rows arbitrary: n db)
     (auto split: sum.splits dest!: recover_one_changes [where sig = sig] intro: rtranclp_trans)

lemma STATUS_FOR_decided [simp]: "STATUS_FOR d \<noteq> A_PENDING"
  by (cases d) simp_all

lemma write_decision_change: "change sig db (write_decision now db aid d who note m)"
  unfolding write_decision_def by (rule decided_map) (simp add: approval_kept_def decide_row_def)

lemma write_grant_changes:
  "grant_backed sig (approvals db) \<lparr>gr_run = rid, gr_signature = s, gr_effect = e, gr_approval = aid, gr_created_at = now\<rparr> \<Longrightarrow>
     (change sig)\<^sup>*\<^sup>* db (write_grant now db rid s e aid)"
  unfolding write_grant_def by (auto intro: change.granted)

lemma refuse_decision_None:
  "refuse_decision now d m row = None \<Longrightarrow> ap_status row = A_PENDING \<and>
     (case ap_expires_at row of None \<Rightarrow> True | Some t \<Rightarrow> now < t) \<and>
     (d = APPROVE_FOR_RUN \<longrightarrow> effect_of row \<in> GRANTABLE \<and> (\<exists>c. ap_command row = Some c \<and> c \<noteq> []))"
  by (auto simp: refuse_decision_def no_text_def split: if_splits option.splits)

lemma decision_backs_grant:
  assumes "row \<in> set (approvals db)" "ap_id row = aid" "ap_run row = rid"
    and "refuse_decision now APPROVE_FOR_RUN m row = None"
  shows "grant_backed (signature shlex digest) (approvals (write_decision now db aid APPROVE_FOR_RUN who note m))
    \<lparr>gr_run = rid, gr_signature = signature shlex digest (case ap_command row of None \<Rightarrow> [] | Some c \<Rightarrow> c),
     gr_effect = effect_of row, gr_approval = aid, gr_created_at = now\<rparr>"
proof -
  note row = refuse_decision_None [OF assms(4)]
  have "decide_row now APPROVE_FOR_RUN who note m row \<in> set (approvals (write_decision now db aid APPROVE_FOR_RUN who note m))"
    unfolding write_decision_def using assms(1,2) row by (auto intro!: image_eqI [of _ _ row])
  then show ?thesis unfolding grant_backed_def using row assms(2,3)
    by (intro conjI bexI [of _ "decide_row now APPROVE_FOR_RUN who note m row"]) (auto simp: decide_row_def effect_of_def)
qed

lemma decide_changes:
  assumes "decide_approval shlex digest now uid db rid aid d who note m = Inr (oc, db')"
  shows "(change (signature shlex digest))\<^sup>*\<^sup>* db db'"
proof -
  let ?sig = "signature shlex digest" and ?db1 = "write_decision now db aid d who note m"
  obtain row where row: "find (\<lambda>r. ap_id r = aid \<and> ap_run r = rid) (approvals db) = Some row" "refuse_decision now d m row = None"
    using assms by (auto simp: decide_approval_def split: option.splits)
  define db2 where "db2 = (if d = APPROVE_FOR_RUN then write_grant now ?db1 rid
      (?sig (case ap_command row of None \<Rightarrow> [] | Some c \<Rightarrow> c)) (effect_of row) aid else ?db1)"
  have db': "db' = snd (append_event now uid db2 rid ''approval_decided'' (decision_event row aid d who note))"
    using assms row unfolding decide_approval_def db2_def by (simp add: Let_def split: if_splits)
  have "row \<in> set (approvals db)" "ap_id row = aid" "ap_run row = rid" using row(1) by (auto simp: find_Some_iff)
  then have "(change ?sig)\<^sup>*\<^sup>* ?db1 db2"
    unfolding db2_def using decision_backs_grant row(2) write_grant_changes by auto
  moreover have "change ?sig db2 db'" unfolding db' by (rule change.appended) simp
  ultimately show ?thesis using write_decision_change [of ?sig db now aid d who "note" m]
    by (meson converse_rtranclp_into_rtranclp rtranclp.rtrancl_into_rtrancl)
qed

lemma step_changes:
  assumes "runtime_step shlex digest db db'" "db_ok (signature shlex digest) db"
  shows "(change (signature shlex digest))\<^sup>*\<^sup>* db db'"
  using assms
proof (cases rule: runtime_step.cases)
  case (s_heartbeat now rid w e lease)
  then show ?thesis
    by (auto simp: heartbeat_def leased_rows_def row_kept_def split: if_splits intro!: r_into_rtranclp rows_map)
next
  case (s_release rid w e)
  then show ?thesis
    by (auto simp: release_def leased_rows_def clear_lease_kept intro!: r_into_rtranclp rows_map)
next
  case (s_request i now rid q)
  then show ?thesis by (auto simp: request_def intro!: r_into_rtranclp change.requested)
next
  case (s_expire now aid b)
  then show ?thesis by (auto simp: expire_def approval_kept_def intro!: r_into_rtranclp decided_map)
qed (use assms(2) in \<open>auto simp: db_ok_def recover_interrupted_runs_def intro: change.intros enqueue_changes claim_changes
     recover_changes decide_changes\<close>)

lemma step_ok: "runtime_step shlex digest db db' \<Longrightarrow> db_ok (signature shlex digest) db \<Longrightarrow> db_ok (signature shlex digest) db'"
proof -
  assume a: "runtime_step shlex digest db db'" "db_ok (signature shlex digest) db"
  from step_changes [OF this] a(2) show ?thesis by (induction rule: rtranclp_induct) (auto intro: change_ok)
qed

section \<open>Statuses move along the table, finished runs stay finished\<close>

lemma change_status:
  assumes "change sig db db'" "db_ok sig db" "run_status_of db rid = Some s"
  shows "\<exists>s'. run_status_of db' rid = Some s' \<and> (s' = s \<or> can_transition s s')"
  using assms
proof (cases rule: change.cases)
  case (moved now uid rid' t a x)
  have "run_db_ok db" using assms(2) by (simp add: db_ok_def)
  from transition_effect [OF this moved] obtain r where r: "find_row run_id rid' (runs db) = Some r" "can_transition (run_status r) t"
    "runs db' = update_row run_id rid' (move_row now (run_status r) t (ta_fields a)) (runs db)" by blast
  then show ?thesis using assms(3) moved.find_update [of rid rid' "(now, run_status r, t, ta_fields a)" "runs db"]
    by (auto simp: run_status_of_def)
next
  case (appended ty now uid rid' a)
  then show ?thesis using append_event_db [of now uid db rid' ty a] assms(3) by (auto simp: run_status_of_def)
next
  case (rows rs)
  obtain r where "find_row run_id rid (runs db) = Some r" "run_status r = s" using assms(3) by (auto simp: run_status_of_def)
  then show ?thesis using all2_find_row [OF rows(2) row_kept_id] rows(1) by (fastforce simp: run_status_of_def row_kept_def)
next
  case (created rid' now)
  then show ?thesis using assms(3) by (auto simp: run_status_of_def find_row_append)
qed (use assms(3) in \<open>auto simp: run_status_of_def redact_def\<close>)

lemma step_status:
  assumes "runtime_step shlex digest db db'" "db_ok (signature shlex digest) db" "run_status_of db rid = Some s"
  shows "\<exists>s'. run_status_of db' rid = Some s' \<and> (\<lambda>a b. b \<in> set (TRANSITIONS a))\<^sup>*\<^sup>* s s'"
proof -
  from step_changes [OF assms(1,2)]
  have "db_ok (signature shlex digest) db' \<and> (\<exists>s'. run_status_of db' rid = Some s' \<and> (\<lambda>a b. b \<in> set (TRANSITIONS a))\<^sup>*\<^sup>* s s')"
  proof (induction rule: rtranclp_induct)
    case base
    then show ?case using assms(2,3) by blast
  next
    case (step y z)
    then obtain t where t: "run_status_of y rid = Some t" "(\<lambda>a b. b \<in> set (TRANSITIONS a))\<^sup>*\<^sup>* s t" by blast
    obtain u where "run_status_of z rid = Some u" "u = t \<or> can_transition t u"
      using change_status [OF step(2) _ t(1)] step.IH by blast
    then show ?case using t step.IH change_ok [OF step(2)] by (auto simp: can_transition_def intro: rtranclp.rtrancl_into_rtrancl)
  qed
  then show ?thesis by blast
qed

interpretation run_machine: status_machine "runtime_step shlex digest" "db_ok (signature shlex digest)" run_status_of
  "\<lambda>s. set (TRANSITIONS s)" for shlex digest
  by unfold_locales (auto intro: step_ok dest: step_status)

definition approval_status_of :: "run_db \<Rightarrow> string \<Rightarrow> approval_row option" where
  "approval_status_of db aid = find_row ap_id aid (approvals db)"

definition approval_next :: "approval_row \<Rightarrow> approval_row set" where
  "approval_next a = (if ap_status a = A_PENDING
     then {b. ap_status b \<noteq> A_PENDING \<and> ap_id b = ap_id a \<and> ap_run b = ap_run a} else {})"

lemma change_approval:
  assumes "change sig db db'" "approval_status_of db aid = Some a"
  shows "\<exists>b. approval_status_of db' aid = Some b \<and> (b = a \<or> b \<in> approval_next a)"
  using assms
proof (cases rule: change.cases)
  case (decided aps)
  then show ?thesis using all2_find_row [OF decided(2) approval_kept_id assms(2) [unfolded approval_status_of_def]]
    by (auto simp: approval_status_of_def approval_next_def approval_kept_def)
next
  case (appended ty now uid rid x)
  then show ?thesis using append_event_db [of now uid db rid ty x] assms(2) by (auto simp: approval_status_of_def)
qed (use assms(2) in \<open>auto simp: approval_status_of_def redact_def find_row_append dest: transition_approvals\<close>)

lemma step_approval:
  assumes "runtime_step shlex digest db db'" "db_ok (signature shlex digest) db" "approval_status_of db aid = Some a"
  shows "\<exists>b. approval_status_of db' aid = Some b \<and> (\<lambda>x y. y \<in> approval_next x)\<^sup>*\<^sup>* a b"
  using step_changes [OF assms(1,2)]
proof (induction rule: rtranclp_induct)
  case base
  then show ?case using assms(3) by blast
next
  case (step y z)
  then obtain b where b: "approval_status_of y aid = Some b" "(\<lambda>x y. y \<in> approval_next x)\<^sup>*\<^sup>* a b" by blast
  then show ?case using change_approval [OF step(2) b(1)] by (auto intro: rtranclp.rtrancl_into_rtrancl)
qed

interpretation approval_machine: status_machine "runtime_step shlex digest" "db_ok (signature shlex digest)" approval_status_of
  approval_next for shlex digest
  by unfold_locales (auto intro: step_ok dest: step_approval)

section \<open>A lost lease is lost for good\<close>

text \<open>
  What a lease table promises its holders: epochs never fall, and an owner appears only together with a
  higher epoch.
\<close>

locale lease_table = state_machine step ok
  for step :: "'d \<Rightarrow> 'd \<Rightarrow> bool" and ok :: "'d \<Rightarrow> bool" +
  fixes owner :: "'d \<Rightarrow> 'k \<Rightarrow> 'w option" and epoch :: "'d \<Rightarrow> 'k \<Rightarrow> nat"
  assumes epoch_step: "step d d' \<Longrightarrow> ok d \<Longrightarrow> epoch d k \<le> epoch d' k"
    and owner_step: "step d d' \<Longrightarrow> ok d \<Longrightarrow>
      owner d' k = None \<or> owner d' k = owner d k \<and> epoch d' k = epoch d k \<or> epoch d k < epoch d' k"
begin

lemma lease_steps:
  assumes "step\<^sup>*\<^sup>* d d'" "ok d"
  shows "ok d' \<and> epoch d k \<le> epoch d' k \<and>
    (owner d' k = None \<or> owner d' k = owner d k \<and> epoch d' k = epoch d k \<or> epoch d k < epoch d' k)"
  using assms(1)
proof (induction rule: rtranclp_induct)
  case base
  then show ?case using assms(2) by simp
next
  case (step y z)
  from step.IH epoch_step [OF step(2), of k] owner_step [OF step(2), of k] ok_step [OF step(2)] show ?case by auto
qed

text \<open>A holder at epoch \<open>e\<close> that does not hold the lease any more never holds it at \<open>e\<close> again.\<close>

lemma lost_forever:
  assumes "step\<^sup>*\<^sup>* d d'" "ok d" "\<not> (owner d k = Some w \<and> epoch d k = e)" "e \<le> epoch d k"
  shows "\<not> (owner d' k = Some w \<and> epoch d' k = e)"
  using lease_steps [OF assms(1,2), of k] assms(3,4) by auto

end

definition lease_owner_of :: "run_db \<Rightarrow> string \<Rightarrow> string option" where
  "lease_owner_of db rid = Option.bind (find_row run_id rid (runs db)) lease_owner"

definition lease_epoch_of :: "run_db \<Rightarrow> string \<Rightarrow> nat" where
  "lease_epoch_of db rid = (case find_row run_id rid (runs db) of None \<Rightarrow> 0 | Some r \<Rightarrow> lease_epoch r)"

lemma holds_lease_iff:
  assumes "distinct (map run_id (runs db))"
  shows "holds_lease db rid w e \<longleftrightarrow> lease_owner_of db rid = Some w \<and> find_row run_id rid (runs db) \<noteq> None \<and> lease_epoch_of db rid = e"
  unfolding holds_lease_def ex_row_cond [OF assms] by (auto simp: lease_owner_of_def lease_epoch_of_def)

lemma change_lease:
  assumes "change sig db db'" "db_ok sig db"
  shows "lease_epoch_of db rid \<le> lease_epoch_of db' rid \<and>
    (lease_owner_of db' rid = None \<or> lease_owner_of db' rid = lease_owner_of db rid \<and> lease_epoch_of db' rid = lease_epoch_of db rid
     \<or> lease_epoch_of db rid < lease_epoch_of db' rid)"
  using assms
proof (cases rule: change.cases)
  case (moved now uid rid' t a x)
  have "run_db_ok db" using assms(2) by (simp add: db_ok_def)
  from transition_effect [OF this moved] obtain r :: run_row where
    "runs db' = update_row run_id rid' (move_row now (run_status r) t (ta_fields a)) (runs db)" by blast
  then show ?thesis using moved.find_update [of rid rid' "(now, run_status r, t, ta_fields a)" "runs db"]
    by (auto simp: lease_owner_of_def lease_epoch_of_def split: option.split)
next
  case (appended ty now uid rid' a)
  then show ?thesis using append_event_db [of now uid db rid' ty a] by (auto simp: lease_owner_of_def lease_epoch_of_def)
next
  case (rows rs)
  show ?thesis
  proof (cases "find_row run_id rid (runs db)")
    case None
    have "find_row run_id rid rs = None" by (rule all2_find_row_None [OF rows(2) row_kept_id None])
    with None rows(1) show ?thesis by (simp add: lease_owner_of_def lease_epoch_of_def)
  next
    case (Some r)
    then show ?thesis using all2_find_row [OF rows(2) row_kept_id Some] rows(1)
      by (auto simp: lease_owner_of_def lease_epoch_of_def row_kept_def)
  qed
next
  case (created rid' now)
  then show ?thesis by (auto simp: lease_owner_of_def lease_epoch_of_def find_row_append find_row_Cons new_run_def split: option.split)
qed (auto simp: lease_owner_of_def lease_epoch_of_def redact_def)

interpretation change_leases: lease_table "change sig" "db_ok sig" lease_owner_of lease_epoch_of for sig
  using change_ok change_lease by unfold_locales blast+

interpretation leases: lease_table "runtime_step shlex digest" "db_ok (signature shlex digest)" lease_owner_of lease_epoch_of
  for shlex digest
  using change_leases.lease_steps [OF step_changes] by unfold_locales blast+

interpretation leased: row_update run_id
  "\<lambda>(w, t, e) r. r\<lparr>lease_owner := Some w, lease_expires_at := Some t, lease_epoch := e\<rparr> :: run_row"
  by unfold_locales auto

lemma claim_gives_lease:
  assumes "run_db_ok db" "claim_run now uid uid' w lease db = Inr (Some c, db')" "cl_kind c = ''start''"
  shows "\<exists>r. oldest_queued db = Some r \<and> cl_run c = run_id r \<and> cl_epoch c = Suc (lease_epoch r) \<and> cl_attempt c = attempt_col r \<and>
     (\<exists>r'. find_row run_id (run_id r) (runs db') = Some r' \<and> run_status r' = RUNNING \<and> lease_owner r' = Some w \<and>
        lease_epoch r' = Suc (lease_epoch r) \<and> lease_expires_at r' = Some (now + lease))"
proof (cases "oldest_queued db")
  case None
  then show ?thesis using assms(2,3)
    by (auto simp: claim_run_def claim_dead_def result_simps Let_def split: option.splits)
next
  case (Some r)
  let ?f = "\<lambda>x. x\<lparr>lease_owner := Some w, lease_expires_at := Some (now + lease), lease_epoch := Suc (lease_epoch r)\<rparr>"
  obtain t db1 where t: "transition now uid db (run_id r) RUNNING
        (by_actor (''worker:'' @ w) ''claimed by a worker'' (attempt_col r) []) = Inr (t, db1)"
    and db': "db' = db1\<lparr>runs := update_row run_id (run_id r) ?f (runs db1)\<rparr>"
    and c: "c = \<lparr>cl_run = run_id r, cl_kind = ''start'', cl_epoch = Suc (lease_epoch r), cl_attempt = attempt_col r\<rparr>"
    using assms(2) Some by (auto simp: claim_run_def claim_queued_def result_simps)
  from transition_effect [OF assms(1) t] obtain r0 where "find_row run_id (run_id r) (runs db) = Some r0"
      "runs db1 = update_row run_id (run_id r) (move_row now (run_status r0) RUNNING []) (runs db)"
    by (auto simp: by_actor_def)
  then obtain r1 where r1: "find_row run_id (run_id r) (runs db1) = Some r1" "run_status r1 = RUNNING"
    using moved.find_update [of "run_id r" "run_id r" "(now, run_status r0, RUNNING, [])" "runs db"] by simp
  have "find_row run_id (run_id r) (runs db') = Some (?f r1)"
    using r1(1) leased.find_update [of "run_id r" "run_id r" "(w, now + lease, Suc (lease_epoch r))" "runs db1"] by (simp add: db')
  then show ?thesis using Some c r1(2) by simp
qed

section \<open>The ledger records every status change\<close>

text \<open>The statuses recorded for a run after a cursor, in the order of the ledger.\<close>

definition trail :: "run_db \<Rightarrow> nat \<Rightarrow> string \<Rightarrow> string option list" where
  "trail db cursor rid =
     map ev_status (filter (\<lambda>e. ev_type e = ''run_state_changed'' \<and> ev_run e = rid \<and> ev_id e > cursor) (run_events db))"

fun legal_path :: "run_status \<Rightarrow> string option list \<Rightarrow> run_status \<Rightarrow> bool" where
  "legal_path s [] t \<longleftrightarrow> s = t"
| "legal_path s (x # xs) t \<longleftrightarrow> (\<exists>u. x = Some (status_value u) \<and> can_transition s u \<and> legal_path u xs t)"

lemma legal_path_snoc:
  "legal_path s xs t \<Longrightarrow> can_transition t u \<Longrightarrow> legal_path s (xs @ [Some (status_value u)]) u"
  by (induction xs arbitrary: s) auto

lemma change_trail:
  assumes "change sig db db'" "db_ok sig db" "cursor \<le> event_seq db" "run_status_of db rid = Some t"
    "legal_path s (trail db cursor rid) t"
  shows "cursor \<le> event_seq db' \<and> (\<exists>t'. run_status_of db' rid = Some t' \<and> legal_path s (trail db' cursor rid) t')"
  using assms
proof (cases rule: change.cases)
  case (moved now uid rid' u a x)
  have "run_db_ok db" using assms(2) by (simp add: db_ok_def)
  from transition_effect [OF this moved] obtain r :: run_row where r: "find_row run_id rid' (runs db) = Some r"
    "can_transition (run_status r) u"
    "runs db' = update_row run_id rid' (move_row now (run_status r) u (ta_fields a)) (runs db)"
    "run_events db' = run_events db @ [state_event now uid (Suc (event_seq db)) rid' (run_status r) u a]"
    "event_seq db' = Suc (event_seq db)" by blast
  have st: "run_status_of db' rid = (if rid = rid' then Some u else Some t)"
    using assms(4) r(1,3) moved.find_update [of rid rid' "(now, run_status r, u, ta_fields a)" "runs db"]
    by (auto simp: run_status_of_def)
  have tr: "trail db' cursor rid = trail db cursor rid @ (if rid = rid' then [Some (status_value u)] else [])"
    using r(4) assms(3) by (auto simp: trail_def state_event_def)
  show ?thesis
  proof (cases "rid = rid'")
    case True
    then have "can_transition t u" using r(1,2) assms(4) by (auto simp: run_status_of_def)
    then show ?thesis using legal_path_snoc [OF assms(5)] st tr r(5) assms(3) True by simp
  next
    case False
    then show ?thesis using st tr r(5) assms(3,5) by simp
  qed
next
  case (appended ty now uid rid' a)
  then show ?thesis using append_event_db [of now uid db rid' ty a] assms(3-5)
    by (auto simp: run_status_of_def trail_def)
next
  case (redacted i)
  have "map ev_status (filter (\<lambda>e. ev_type e = ''run_state_changed'' \<and> ev_run e = rid \<and> ev_id e > cursor)
      (update_row ev_id i redact_event es))
    = map ev_status (filter (\<lambda>e. ev_type e = ''run_state_changed'' \<and> ev_run e = rid \<and> ev_id e > cursor) es)"
    for es :: "event_row list"
    by (induction es) (auto simp: update_row_def redact_event_def)
  then have "trail (redact db i) cursor rid = trail db cursor rid" by (simp add: trail_def redact_def)
  then show ?thesis using redacted assms(3-5) by (auto simp: run_status_of_def redact_def)
next
  case (rows rs)
  then show ?thesis using change_status [OF assms(1,2,4)] assms(3-5) all2_find_row [OF rows(2) row_kept_id]
    by (fastforce simp: run_status_of_def trail_def row_kept_def)
next
  case (created rid' now)
  then show ?thesis using assms(3-5) by (auto simp: run_status_of_def trail_def find_row_append)
qed (use assms(3-5) in \<open>auto simp: run_status_of_def trail_def\<close>)

section \<open>Properties of runs, leases and approvals\<close>

definition empty_run_db :: run_db where
  "empty_run_db = \<lparr>runs = [], run_events = [], event_seq = 0, approvals = [], approval_grants = []\<rparr>"

lemma reachable_ok: "(runtime_step shlex digest)\<^sup>*\<^sup>* empty_run_db db \<Longrightarrow> db_ok (signature shlex digest) db"
  by (erule run_machine.ok_steps) (simp add: db_ok_def run_db_ok_def empty_run_db_def)

lemma trail_steps:
  assumes "(runtime_step shlex digest)\<^sup>*\<^sup>* db db'" "db_ok (signature shlex digest) db" "run_status_of db rid = Some s"
  shows "event_seq db \<le> event_seq db' \<and> (\<exists>t. run_status_of db' rid = Some t \<and> legal_path s (trail db' (event_seq db) rid) t)"
proof -
  have start: "trail db (event_seq db) rid = []"
    using assms(2) by (force simp: trail_def db_ok_def run_db_ok_def filter_empty_conv)
  have many: "db_ok (signature shlex digest) z \<and> event_seq db \<le> event_seq z \<and>
      (\<exists>t. run_status_of z rid = Some t \<and> legal_path s (trail z (event_seq db) rid) t)"
    if "(change (signature shlex digest))\<^sup>*\<^sup>* y z" "db_ok (signature shlex digest) y" "event_seq db \<le> event_seq y"
      "\<exists>t. run_status_of y rid = Some t \<and> legal_path s (trail y (event_seq db) rid) t" for y z
    using that by (induction rule: rtranclp_induct) (blast dest: change_ok change_trail)+
  from assms(1) have "db_ok (signature shlex digest) db' \<and> event_seq db \<le> event_seq db' \<and>
      (\<exists>t. run_status_of db' rid = Some t \<and> legal_path s (trail db' (event_seq db) rid) t)"
  proof (induction rule: rtranclp_induct)
    case base
    then show ?case using assms(2,3) start by simp
  next
    case (step y z)
    then show ?case using many [OF step_changes [OF step(2)]] by blast
  qed
  then show ?thesis by blast
qed

text \<open>
  C15: The ledger is the full history of a run's status: over any further sequence of operations (status changes,
  queueing, claims, heartbeats, recovery, approvals, redactions) the statuses recorded since form a legal
  path, in the table of transitions, from the status the run had to the status it has.
\<close>

theorem ledger_records_every_status_change:
  assumes "(runtime_step shlex digest)\<^sup>*\<^sup>* empty_run_db db" and "run_status_of db rid = Some s"
    and "(runtime_step shlex digest)\<^sup>*\<^sup>* db db'"
  shows "\<exists>t. run_status_of db' rid = Some t \<and> legal_path s (trail db' (event_seq db) rid) t"
  using trail_steps [OF assms(3) reachable_ok [OF assms(1)] assms(2)] by blast

definition one_run :: run_db where
  "one_run = empty_run_db\<lparr>runs := [new_run 0 ''r'']\<rparr>"

lemma one_run_reachable: "(runtime_step shlex digest)\<^sup>*\<^sup>* empty_run_db one_run"
  using runtime_step.s_create [of "''r''" empty_run_db shlex digest 0]
  by (simp add: one_run_def empty_run_db_def has_row_def r_into_rtranclp)

definition queued_run :: run_db where
  "queued_run = \<lparr>runs = [(new_run 0 ''r'')\<lparr>run_status := QUEUED, updated_at := 1, queued_at := Some 1\<rparr>],
     run_events = [state_event 1 ''e1'' 1 ''r'' CREATED QUEUED (by_actor ''user:u'' ''go'' 1 [])], event_seq = 1,
     approvals = [], approval_grants = []\<rparr>"

lemma enqueue_one_run: "enqueue 1 ''e1'' one_run ''r'' ''user:u'' ''go'' = Inr queued_run"
  by (simp add: enqueue_def transition_def one_run_def empty_run_db_def new_run_def find_row_Cons can_transition_def
      append_event_def move_row_def finish_time_def TERMINAL_def update_row_def event_defaults_def by_actor_def queued_run_def
      state_event_def)

lemma queued_run_reachable: "(runtime_step shlex digest)\<^sup>*\<^sup>* one_run queued_run"
  by (rule r_into_rtranclp, rule runtime_step.s_enqueue, rule enqueue_one_run)

theorem ledger_records_every_status_change_witness:
  "run_status_of one_run ''r'' = Some CREATED \<and>
   (\<exists>t. run_status_of queued_run ''r'' = Some t \<and> legal_path CREATED (trail queued_run (event_seq one_run) ''r'') t)"
proof
  show s: "run_status_of one_run ''r'' = Some CREATED" by (simp add: run_status_of_def one_run_def find_row_Cons new_run_def)
  show "\<exists>t. run_status_of queued_run ''r'' = Some t \<and> legal_path CREATED (trail queued_run (event_seq one_run) ''r'') t"
    by (rule ledger_records_every_status_change [OF one_run_reachable s queued_run_reachable])
qed

text \<open>
  A finished run stays finished: once its status is completed, failed or cancelled, no sequence of
  operations changes it, and every attempt to move it is refused as an illegal transition.
\<close>

theorem finished_runs_stay_finished:
  assumes "(runtime_step shlex digest)\<^sup>*\<^sup>* empty_run_db db" and "run_status_of db rid = Some s" and "TERMINAL s"
    and "(runtime_step shlex digest)\<^sup>*\<^sup>* db db'"
  shows "run_status_of db' rid = Some s \<and> transition now uid db' rid target a = Inl (IllegalTransition rid s target)"
proof -
  note ok = reachable_ok [OF assms(1)]
  have s: "run_status_of db' rid = Some s"
    using run_machine.terminal_absorbing [OF assms(4) ok assms(2)] assms(3) by (simp add: TERMINAL_def)
  then obtain r where "find_row run_id rid (runs db') = Some r" "run_status r = s" by (auto simp: run_status_of_def)
  then show ?thesis using s assms(3) by (simp add: transition_def can_transition_def TERMINAL_def)
qed

definition failed_run :: run_db where
  "failed_run = \<lparr>runs = [(new_run 0 ''r'')\<lparr>run_status := FAILED, updated_at := 2, completed_at := Some 2\<rparr>],
     run_events = [state_event 2 ''e1'' 1 ''r'' CREATED FAILED (by_actor ''runtime'' ''no'' 1 [])], event_seq = 1,
     approvals = [], approval_grants = []\<rparr>"

lemma failed_run_reachable: "(runtime_step shlex digest)\<^sup>*\<^sup>* empty_run_db failed_run"
proof -
  have "\<exists>x. transition 2 ''e1'' one_run ''r'' FAILED (by_actor ''runtime'' ''no'' 1 []) = Inr (x, failed_run)"
    by (simp add: transition_def one_run_def empty_run_db_def new_run_def find_row_Cons can_transition_def
      append_event_def move_row_def finish_time_def TERMINAL_def event_defaults_def by_actor_def failed_run_def state_event_def)
  then show ?thesis using one_run_reachable runtime_step.s_transition by (meson rtranclp.rtrancl_into_rtrancl)
qed

theorem finished_runs_stay_finished_witness:
  "run_status_of failed_run ''r'' = Some FAILED \<and>
   transition 3 ''e2'' failed_run ''r'' RUNNING (by_actor ''user:u'' ''again'' 1 []) = Inl (IllegalTransition ''r'' FAILED RUNNING)"
  using finished_runs_stay_finished [OF failed_run_reachable, of "''r''" FAILED "\<lambda>_. None" "\<lambda>_. []" failed_run 3 "''e2''" RUNNING
      "by_actor ''user:u'' ''again'' 1 []"]
  by (simp add: run_status_of_def failed_run_def find_row_Cons new_run_def TERMINAL_def)

lemma transition_other_rows:
  assumes "run_db_ok db" "transition now uid db rid t a = Inr (x, db')" "k \<noteq> rid"
  shows "find_row run_id k (runs db') = find_row run_id k (runs db)"
proof -
  obtain r :: run_row where "runs db' = update_row run_id rid (move_row now (run_status r) t (ta_fields a)) (runs db)"
    using transition_effect [OF assms(1,2)] by blast
  then show ?thesis using moved.find_update [of k rid "(now, run_status r, t, ta_fields a)" "runs db"] assms(3) by simp
qed

lemma claim_queued_other_rows:
  assumes "run_db_ok db" "claim_queued now uid w lease db row = Inr (c, db')" "k \<noteq> run_id row"
  shows "find_row run_id k (runs db') = find_row run_id k (runs db)"
proof -
  obtain t db1 where t: "transition now uid db (run_id row) RUNNING
        (by_actor (''worker:'' @ w) ''claimed by a worker'' (attempt_col row) []) = Inr (t, db1)"
    and db': "db' = db1\<lparr>runs := update_row run_id (run_id row) (\<lambda>r. r\<lparr>lease_owner := Some w,
        lease_expires_at := Some (now + lease), lease_epoch := Suc (lease_epoch row)\<rparr>) (runs db1)\<rparr>"
    using assms(2) by (auto simp: claim_queued_def result_simps)
  show ?thesis using transition_other_rows [OF assms(1) t assms(3)] assms(3)
      leased.find_update [of k "run_id row" "(w, now + lease, Suc (lease_epoch row))" "runs db1"] by (simp add: db')
qed

text \<open>A queued run can be moved to running: the transition is allowed and no other row has its id.\<close>

lemma claim_queued_succeeds:
  assumes "run_db_ok db" and "r \<in> set (runs db)" and "run_status r = QUEUED"
  shows "\<exists>db'. claim_queued now uid w lease db r =
    Inr (\<lparr>cl_run = run_id r, cl_kind = ''start'', cl_epoch = Suc (lease_epoch r), cl_attempt = attempt_col r\<rparr>, db')"
proof -
  have "find_row run_id (run_id r) (runs db) = Some r" using find_row_distinct assms by (auto simp: run_db_ok_def)
  then show ?thesis using assms(1,3) by (simp add: claim_queued_def transition_cases run_db_ok_def can_transition_def)
qed

lemma oldest_queued_exists: "\<exists>x \<in> set (runs db). run_status x = QUEUED \<Longrightarrow> \<exists>r. oldest_queued db = Some r"
proof (rule ccontr)
  let ?key = "\<lambda>r. (null_first (queued_at r), run_id r)"
  assume ex: "\<exists>x \<in> set (runs db). run_status x = QUEUED" and "\<nexists>r. oldest_queued db = Some r"
  then have "sort_key ?key (filter (\<lambda>r. run_status r = QUEUED) (runs db)) = []" by (auto simp: oldest_queued_def split: list.splits)
  then have "set (sort_key ?key (filter (\<lambda>r. run_status r = QUEUED) (runs db))) = {}" by simp
  then show False using ex by auto
qed

text \<open>
  C16: If any run is queued, a claim succeeds, whatever else the database holds, and starts the oldest queued run (by queueing time, then
  id): the run was queued, is now running and carries a lease of the claiming worker with the next epoch, and no other run changed.
\<close>

theorem claim_takes_oldest_queued:
  assumes "(runtime_step shlex digest)\<^sup>*\<^sup>* empty_run_db db" and "x \<in> set (runs db)" and "run_status x = QUEUED"
  shows "\<exists>c db' r r'. claim_run now uid uid' w lease db = Inr (Some c, db') \<and> cl_kind c = ''start'' \<and>
     find_row run_id (cl_run c) (runs db) = Some r \<and> run_status r = QUEUED \<and>
     (\<forall>x. x \<in> set (runs db) \<and> run_status x = QUEUED \<longrightarrow>
        (null_first (queued_at r), run_id r) \<le> (null_first (queued_at x), run_id x)) \<and>
     find_row run_id (cl_run c) (runs db') = Some r' \<and> run_status r' = RUNNING \<and> lease_owner r' = Some w \<and>
     lease_epoch r' = Suc (lease_epoch r) \<and> cl_epoch c = lease_epoch r' \<and> lease_expires_at r' = Some (now + lease) \<and>
     (\<forall>k. k \<noteq> cl_run c \<longrightarrow> find_row run_id k (runs db') = find_row run_id k (runs db))"
proof -
  have ok: "run_db_ok db" using reachable_ok [OF assms(1)] by (simp add: db_ok_def)
  obtain r0 where r0: "oldest_queued db = Some r0" using oldest_queued_exists assms(2,3) by blast
  have mem: "r0 \<in> set (runs db)" "run_status r0 = QUEUED" using oldest_queued_Some [OF r0] by auto
  obtain c db' where c: "claim_queued now uid w lease db r0 = Inr (c, db')" "cl_kind c = ''start''"
    using claim_queued_succeeds [OF ok mem, of now uid w lease] by force
  then have run: "claim_run now uid uid' w lease db = Inr (Some c, db')" using r0 by (simp add: claim_run_def)
  from claim_gives_lease [OF ok run c(2)] obtain r r' where r: "oldest_queued db = Some r" "cl_run c = run_id r"
      "cl_epoch c = Suc (lease_epoch r)" "find_row run_id (run_id r) (runs db') = Some r'" "run_status r' = RUNNING"
      "lease_owner r' = Some w" "lease_epoch r' = Suc (lease_epoch r)" "lease_expires_at r' = Some (now + lease)" by blast
  have same: "r0 = r" using r(1) r0 by simp
  have "find_row run_id (run_id r) (runs db) = Some r" using find_row_distinct mem(1) ok same by (auto simp: run_db_ok_def)
  then show ?thesis using run c r mem same oldest_queued_Some [OF r(1)] claim_queued_other_rows [OF ok c(1)]
    by (intro exI [of _ c] exI [of _ db'] exI [of _ r] exI [of _ r']) simp
qed

definition claimed_run :: run_db where
  "claimed_run = \<lparr>runs = [(new_run 0 ''r'')\<lparr>run_status := RUNNING, updated_at := 5, queued_at := Some 1,
       lease_owner := Some ''w1'', lease_expires_at := Some 35, lease_epoch := 1\<rparr>],
     run_events = run_events queued_run @ [state_event 5 ''e2'' 2 ''r'' QUEUED RUNNING
        (by_actor ''worker:w1'' ''claimed by a worker'' 1 [])],
     event_seq = 2, approvals = [], approval_grants = []\<rparr>"

lemma claim_queued_run:
  "claim_run 5 ''e2'' ''e3'' ''w1'' 30 queued_run =
     Inr (Some \<lparr>cl_run = ''r'', cl_kind = ''start'', cl_epoch = 1, cl_attempt = 1\<rparr>, claimed_run)"
  by (simp add: claim_run_def oldest_queued_def queued_run_def new_run_def claim_queued_def transition_def find_row_Cons
      can_transition_def append_event_def move_row_def finish_time_def TERMINAL_def event_defaults_def by_actor_def
      claimed_run_def state_event_def update_row_def)

lemma queued_run_reachable': "(runtime_step shlex digest)\<^sup>*\<^sup>* empty_run_db queued_run"
  using one_run_reachable queued_run_reachable by (rule rtranclp_trans)

theorem claim_takes_oldest_queued_witness:
  "\<exists>c db'. claim_run 5 ''e2'' ''e3'' ''w1'' 30 queued_run = Inr (Some c, db') \<and> cl_kind c = ''start'' \<and>
     (\<exists>r'. find_row run_id (cl_run c) (runs db') = Some r' \<and> lease_owner r' = Some ''w1'')"
proof -
  have "\<exists>x. x \<in> set (runs queued_run) \<and> run_status x = QUEUED" by (simp add: queued_run_def)
  then show ?thesis using claim_takes_oldest_queued [OF queued_run_reachable'] by meson
qed

text \<open>
  C6: Fencing. Let a worker have claimed a run at some epoch, and let there be a later moment at which it no longer
  holds the run at that epoch (its lease expired and the run was recovered, released, requeued or claimed by someone else).
  Then from that moment on every transaction of the worker for this claim is rolled back with \<open>LeaseLost\<close> and
  changes nothing, whatever its body does and whatever happened in between.
\<close>

theorem stale_worker_is_fenced_off:
  assumes "(runtime_step shlex digest)\<^sup>*\<^sup>* empty_run_db db0"
    and "claim_run now uid uid' w lease db0 = Inr (Some c, db1)" and "cl_kind c = ''start''"
    and "(runtime_step shlex digest)\<^sup>*\<^sup>* db1 db2" and "\<not> holds_lease db2 (cl_run c) w (cl_epoch c)"
    and "(runtime_step shlex digest)\<^sup>*\<^sup>* db2 db3"
    and "body db3 = Inr (x, db4)" and "(runtime_step shlex digest)\<^sup>*\<^sup>* db3 db4"
  shows "fenced (Some (cl_run c, w, cl_epoch c)) body db3 = (Inl (LeaseLost w (cl_run c)), db3)"
proof -
  let ?sig = "signature shlex digest"
  have ok0: "db_ok ?sig db0" by (rule reachable_ok [OF assms(1)])
  have ok1: "db_ok ?sig db1" using step_ok [OF runtime_step.s_claim [OF assms(2)] ok0] .
  have ok2: "db_ok ?sig db2" by (rule run_machine.ok_steps [OF assms(4) ok1])
  have steps: "(runtime_step shlex digest)\<^sup>*\<^sup>* db2 db4" using assms(6,8) by (rule rtranclp_trans)
  have ok4: "db_ok ?sig db4" by (rule run_machine.ok_steps [OF steps ok2])
  have ids: "distinct (map run_id (runs db2))" "distinct (map run_id (runs db4))" "run_db_ok db0"
    using ok0 ok2 ok4 by (simp_all add: db_ok_def run_db_ok_def)
  obtain r r' where r: "oldest_queued db0 = Some r" "cl_run c = run_id r" "cl_epoch c = Suc (lease_epoch r)"
      "find_row run_id (run_id r) (runs db1) = Some r'" "lease_epoch r' = Suc (lease_epoch r)"
    using claim_gives_lease [OF ids(3) assms(2,3)] by blast
  have "lease_epoch_of db1 (cl_run c) = cl_epoch c" using r by (simp add: lease_epoch_of_def)
  then have e: "cl_epoch c \<le> lease_epoch_of db2 (cl_run c)"
    using leases.lease_steps [OF assms(4) ok1, of "cl_run c"] by simp
  have pos: "0 < cl_epoch c" using r(3) by simp
  have "\<not> (lease_owner_of db2 (cl_run c) = Some w \<and> lease_epoch_of db2 (cl_run c) = cl_epoch c)"
    using assms(5) pos unfolding holds_lease_iff [OF ids(1)] by (auto simp: lease_epoch_of_def split: option.splits)
  from leases.lost_forever [OF steps ok2 this e] have "\<not> holds_lease db4 (cl_run c) w (cl_epoch c)"
    unfolding holds_lease_iff [OF ids(2)] by blast
  then show ?thesis using assms(7) by (simp add: fenced_def check_fence_def)
qed

theorem stale_worker_is_fenced_off_witness:
  "holds_lease claimed_run ''r'' ''w1'' 1 \<and> \<not> holds_lease (release claimed_run ''r'' ''w1'' 1) ''r'' ''w1'' 1 \<and>
   fenced (Some (''r'', ''w1'', 1)) (\<lambda>d. Inr ((), redact d 1)) (release claimed_run ''r'' ''w1'' 1)
     = (Inl (LeaseLost ''w1'' ''r''), release claimed_run ''r'' ''w1'' 1)"
proof (intro conjI)
  let ?db = "release claimed_run ''r'' ''w1'' 1"
  show "holds_lease claimed_run ''r'' ''w1'' 1" by (simp add: holds_lease_def claimed_run_def new_run_def)
  show gone: "\<not> holds_lease ?db ''r'' ''w1'' 1"
    by (simp add: holds_lease_def claimed_run_def new_run_def release_def leased_rows_def clear_lease_def)
  have rel: "(runtime_step (\<lambda>_. None) (\<lambda>_. []))\<^sup>*\<^sup>* claimed_run ?db" by (rule r_into_rtranclp) (rule runtime_step.s_release)
  have red: "(runtime_step (\<lambda>_. None) (\<lambda>_. []))\<^sup>*\<^sup>* ?db (redact ?db 1)" by (rule r_into_rtranclp) (rule runtime_step.s_redact)
  show "fenced (Some (''r'', ''w1'', 1)) (\<lambda>d. Inr ((), redact d 1)) ?db = (Inl (LeaseLost ''w1'' ''r''), ?db)"
    using stale_worker_is_fenced_off [OF queued_run_reachable' claim_queued_run _ rel _ rtranclp.rtrancl_refl _ red,
        of "\<lambda>d. Inr ((), redact d 1)" "()"] gone by simp
qed

text \<open>
  C17: The first decision wins. An approval that is no longer pending keeps its row (status, decision, who decided, the
  modified command) through every later operation, and every further decision on it is refused without any change.
\<close>

theorem first_decision_wins:
  assumes "(runtime_step shlex digest)\<^sup>*\<^sup>* empty_run_db db"
    and "find_row ap_id aid (approvals db) = Some a" and "ap_status a \<noteq> A_PENDING"
    and "(runtime_step shlex digest)\<^sup>*\<^sup>* db db'"
  shows "find_row ap_id aid (approvals db') = Some a \<and>
    decide_approval shlex digest now uid db' (ap_run a) aid d who note m = Inl (AlreadyDecided (ap_status a))"
proof -
  note ok = reachable_ok [OF assms(1)]
  have row: "find_row ap_id aid (approvals db') = Some a"
    using approval_machine.terminal_absorbing [OF assms(4) ok, of aid a] assms(2,3)
    by (simp add: approval_status_of_def approval_next_def)
  have "distinct (map ap_id (approvals db'))"
    using run_machine.ok_steps [OF assms(4) ok] by (simp add: db_ok_def)
  then have "find (\<lambda>r. ap_id r = aid \<and> ap_run r = ap_run a) (approvals db') = Some a"
    using row by (simp add: find_row_cond)
  then show ?thesis using row assms(3) by (simp add: decide_approval_def refuse_decision_def)
qed

definition ask_pytest :: request_args where
  "ask_pytest = \<lparr>rq_kind = ''command'', rq_reason = ''tests'', rq_command = Some ''pytest -q'', rq_effect = WORKSPACE_WRITE,
     rq_risk = None, rq_phase = None, rq_requested_by = ''runtime'', rq_timeout = Some 60, rq_resources = []\<rparr>"

definition granted_run :: run_db where
  "granted_run = snd (projr (decide_approval (\<lambda>c. Some [c]) concat 10 ''e1'' (request 5 ''a1'' one_run ''r'' ask_pytest)
     ''r'' ''a1'' APPROVE_FOR_RUN ''user:u'' None None))"

lemma granted_run_row:
  "\<exists>oc. decide_approval (\<lambda>c. Some [c]) concat 10 ''e1'' (request 5 ''a1'' one_run ''r'' ask_pytest)
     ''r'' ''a1'' APPROVE_FOR_RUN ''user:u'' None None = Inr (oc, granted_run)"
  "\<exists>a. find_row ap_id ''a1'' (approvals granted_run) = Some a \<and> ap_status a = A_APPROVED \<and> ap_run a = ''r''"
  "has_grant (\<lambda>c. Some [c]) concat granted_run ''r'' ''pytest -q''"
  by (simp_all add: granted_run_def decide_approval_def request_def one_run_def empty_run_db_def ask_pytest_def
      refuse_decision_def effect_of_def GRANTABLE_def no_text_def write_decision_def write_grant_def decide_row_def Let_def
      append_event_def signature_def has_grant_def find_row_Cons)

lemma granted_run_reachable: "(runtime_step (\<lambda>c. Some [c]) concat)\<^sup>*\<^sup>* empty_run_db granted_run"
proof -
  have "runtime_step (\<lambda>c. Some [c]) concat one_run (request 5 ''a1'' one_run ''r'' ask_pytest)"
    by (rule runtime_step.s_request) (simp add: has_row_def one_run_def empty_run_db_def)
  moreover obtain oc where "decide_approval (\<lambda>c. Some [c]) concat 10 ''e1'' (request 5 ''a1'' one_run ''r'' ask_pytest)
     ''r'' ''a1'' APPROVE_FOR_RUN ''user:u'' None None = Inr (oc, granted_run)" using granted_run_row(1) by blast
  ultimately show ?thesis using one_run_reachable runtime_step.s_decide by (meson rtranclp.rtrancl_into_rtrancl)
qed

theorem first_decision_wins_witness:
  "decide_approval (\<lambda>c. Some [c]) concat 20 ''e2'' granted_run ''r'' ''a1'' DENY_ONCE ''user:v'' None None
     = Inl (AlreadyDecided A_APPROVED)"
proof -
  obtain a where a: "find_row ap_id ''a1'' (approvals granted_run) = Some a" "ap_status a = A_APPROVED" "ap_run a = ''r''"
    using granted_run_row(2) by blast
  then show ?thesis using first_decision_wins [OF granted_run_reachable a(1) _ rtranclp.rtrancl_refl,
        of 20 "''e2''" DENY_ONCE "''user:v''" None None] by simp
qed

text \<open>
  C18: A command runs under a run-wide grant only if someone approved, for that run as a whole, a command
  with the same signature, and its effect stays inside the sandbox.
\<close>

theorem grants_only_for_sandbox_effects:
  assumes "(runtime_step shlex digest)\<^sup>*\<^sup>* empty_run_db db" and "has_grant shlex digest db rid command"
  shows "\<exists>a c who. a \<in> set (approvals db) \<and> ap_run a = rid \<and> ap_decision a = Some APPROVE_FOR_RUN \<and>
    ap_decided_by a = Some who \<and> effect_of a \<in> {PURE, READ_ONLY, WORKSPACE_WRITE} \<and> ap_command a = Some c \<and>
    signature shlex digest c = signature shlex digest command"
proof -
  obtain g where g: "g \<in> set (approval_grants db)" "gr_run g = rid" "gr_signature g = signature shlex digest command"
    using assms(2) by (auto simp: has_grant_def list_ex_iff)
  then have "grant_backed (signature shlex digest) (approvals db) g"
    using reachable_ok [OF assms(1)] by (simp add: db_ok_def)
  then show ?thesis using g unfolding grant_backed_def GRANTABLE_def by (metis not_None_eq)
qed

theorem grants_only_for_sandbox_effects_witness:
  "has_grant (\<lambda>c. Some [c]) concat granted_run ''r'' ''pytest -q'' \<and>
   (\<exists>a \<in> set (approvals granted_run). ap_run a = ''r'' \<and> ap_decision a = Some APPROVE_FOR_RUN)"
  using grants_only_for_sandbox_effects [OF granted_run_reachable granted_run_row(3)] granted_run_row(3) by blast

section \<open>Startup recovery settles every orphaned run\<close>

lemma expire_run_approvals_runs [simp]: "runs (expire_run_approvals now rid db) = runs db"
  by (simp add: expire_run_approvals_def)

lemma append_event_runs [simp]: "runs (snd (append_event now uid db rid ty a)) = runs db"
  by (simp add: append_event_def Let_def)

lemma transition_succeeds:
  assumes "run_db_ok db" "find_row run_id rid (runs db) = Some r" "can_transition (run_status r) t"
  shows "\<exists>x db'. transition now uid db rid t a = Inr (x, db') \<and> run_db_ok db' \<and> run_status_of db' rid = Some t \<and>
    (\<forall>k. k \<noteq> rid \<longrightarrow> find_row run_id k (runs db') = find_row run_id k (runs db))"
proof -
  obtain x db' where t: "transition now uid db rid t a = Inr (x, db')"
    using transition_cases [of db now uid rid t a] assms by (auto simp: run_db_ok_def)
  have "run_status_of db' rid = Some t"
  proof -
    obtain r0 :: run_row where "find_row run_id rid (runs db) = Some r0"
        "runs db' = update_row run_id rid (move_row now (run_status r0) t (ta_fields a)) (runs db)"
      using transition_effect [OF assms(1) t] by blast
    then show ?thesis using moved.find_update [of rid rid "(now, run_status r0, t, ta_fields a)" "runs db"]
      by (simp add: run_status_of_def)
  qed
  then show ?thesis using t run_db_ok_transition [OF assms(1) t] transition_other_rows [OF assms(1) t] by blast
qed

text \<open>\<open>settles db db' rid\<close>: the run is now interrupted or cancelled, and every other row is as before.\<close>

definition settles :: "run_db \<Rightarrow> run_db \<Rightarrow> string \<Rightarrow> bool" where
  "settles db db' rid \<longleftrightarrow> run_db_ok db' \<and> run_status_of db' rid \<in> {Some INTERRUPTED, Some CANCELLED} \<and>
     (\<forall>k. k \<noteq> rid \<longrightarrow> find_row run_id k (runs db') = find_row run_id k (runs db))"

lemma interrupt_settles:
  assumes "run_db_ok db" "run_status_of db (run_id row) = Some s" "s \<in> {RUNNING, WAITING_APPROVAL}"
  shows "\<exists>db'. interrupt_run now uid uid' why db row = Inr db' \<and> settles db db' (run_id row)"
proof -
  obtain r where r: "find_row run_id (run_id row) (runs db) = Some r" "run_status r = s"
    using assms(2) by (auto simp: run_status_of_def)
  have "can_transition (run_status r) INTERRUPTED" using r(2) assms(3) by (auto simp: can_transition_def)
  then obtain x db1 where "transition now uid db (run_id row) INTERRUPTED
        (by_actor ''recovery'' why (attempt_col row) [(''outcome'', Some ''interrupted'')]) = Inr (x, db1)"
      "run_db_ok db1" "run_status_of db1 (run_id row) = Some INTERRUPTED"
      "\<forall>k. k \<noteq> run_id row \<longrightarrow> find_row run_id k (runs db1) = find_row run_id k (runs db)"
    using transition_succeeds [OF assms(1) r(1)] by meson
  then show ?thesis
    by (auto simp: interrupt_run_def settles_def run_db_ok_append run_status_of_def)
qed

lemma cancel_settles:
  assumes "run_db_ok db" "run_status_of db (run_id row) = Some CANCEL_REQUESTED"
  shows "\<exists>db'. cancel_run_by now uid why db row = Inr db' \<and> settles db db' (run_id row)"
proof -
  obtain r where r: "find_row run_id (run_id row) (runs db) = Some r" "run_status r = CANCEL_REQUESTED"
    using assms(2) by (auto simp: run_status_of_def)
  have "can_transition (run_status r) CANCELLED" using r(2) by (simp add: can_transition_def)
  then obtain x db1 where "transition now uid db (run_id row) CANCELLED
        (by_actor ''recovery'' why (attempt_col row) [(''outcome'', Some ''cancelled'')]) = Inr (x, db1)"
      "run_db_ok db1" "run_status_of db1 (run_id row) = Some CANCELLED"
      "\<forall>k. k \<noteq> run_id row \<longrightarrow> find_row run_id k (runs db1) = find_row run_id k (runs db)"
    using transition_succeeds [OF assms(1) r(1)] by meson
  then show ?thesis by (auto simp: cancel_run_by_def settles_def)
qed

lemma settles_expire: "settles db db' rid \<Longrightarrow> settles db (expire_run_approvals now k db') rid"
  by (simp add: settles_def run_status_of_def run_db_ok_def expire_run_approvals_def)

lemma settles_trans:
  "settles db1 db2 rid \<Longrightarrow> \<forall>k. k \<noteq> rid \<longrightarrow> find_row run_id k (runs db1) = find_row run_id k (runs db) \<Longrightarrow> settles db db2 rid"
  by (simp add: settles_def)

lemma recover_one_settles:
  assumes "run_db_ok db" "run_status_of db (run_id row) = Some (run_status row)" "needs_recovery row"
  shows "\<exists>db'. recover_one now uids db row = Inr (True, db') \<and> settles db db' (run_id row)"
proof -
  obtain r where r: "find_row run_id (run_id row) (runs db) = Some r" "run_status r = run_status row"
    using assms(2) by (auto simp: run_status_of_def)
  consider "run_status row = CREATED" | "run_status row = CANCEL_REQUESTED" | "run_status row \<in> {RUNNING, WAITING_APPROVAL}"
    using assms(3) by (auto simp: needs_recovery_def LIVE_def)
  then show ?thesis
  proof cases
    case 1
    have "can_transition (run_status r) RUNNING" using r(2) 1 by (simp add: can_transition_def)
    then obtain x db1 where t: "transition now (uids 0) db (run_id row) RUNNING
          (by_actor ''recovery'' ''adopted legacy in-flight run'' (attempt_col row) []) = Inr (x, db1)"
        "run_db_ok db1" "run_status_of db1 (run_id row) = Some RUNNING"
        "\<forall>k. k \<noteq> run_id row \<longrightarrow> find_row run_id k (runs db1) = find_row run_id k (runs db)"
      using transition_succeeds [OF assms(1) r(1)] by meson
    obtain db2 where "interrupt_run now (uids 1) (uids 2) ''process stopped while this run was in progress'' db1 row = Inr db2"
        "settles db1 db2 (run_id row)" using interrupt_settles [OF t(2,3)] by blast
    then show ?thesis using 1 t(1) settles_expire settles_trans [OF _ t(4)] by (auto simp: recover_one_def)
  next
    case 2
    then obtain db2 where "cancel_run_by now (uids 1) ''cancel was requested before the process stopped'' db row = Inr db2"
        "settles db db2 (run_id row)" using cancel_settles [OF assms(1)] assms(2) by fastforce
    then show ?thesis using 2 settles_expire by (auto simp: recover_one_def)
  next
    case 3
    then obtain db2 where "interrupt_run now (uids 1) (uids 2) ''process stopped while this run was in progress'' db row = Inr db2"
        "settles db db2 (run_id row)" using interrupt_settles [OF assms(1,2)] by blast
    then show ?thesis using 3 settles_expire by (auto simp: recover_one_def)
  qed
qed

lemma recover_loop_settles:
  assumes "run_db_ok db" "distinct (map run_id rows)"
    and "\<And>row. row \<in> set rows \<Longrightarrow> run_status_of db (run_id row) = Some (run_status row) \<and> needs_recovery row"
  shows "\<exists>db'. recover_loop now uids rows n db = Inr (n + length rows, db') \<and> run_db_ok db' \<and>
    (\<forall>row \<in> set rows. run_status_of db' (run_id row) \<in> {Some INTERRUPTED, Some CANCELLED}) \<and>
    (\<forall>k. k \<notin> run_id ` set rows \<longrightarrow> find_row run_id k (runs db') = find_row run_id k (runs db))"
  using assms
proof (induction rows arbitrary: n db)
  case Nil
  then show ?case by simp
next
  case (Cons row rows)
  obtain db1 where one: "recover_one now (uids (length rows)) db row = Inr (True, db1)" "settles db db1 (run_id row)"
    using recover_one_settles [OF Cons.prems(1)] Cons.prems(3) by (meson list.set_intros(1))
  have "run_status_of db1 (run_id x) = Some (run_status x) \<and> needs_recovery x" if "x \<in> set rows" for x
  proof -
    have "run_id x \<noteq> run_id row" using Cons.prems(2) imageI [OF that, of run_id] by auto
    then show ?thesis using Cons.prems(3) [of x] that one(2) by (simp add: settles_def run_status_of_def)
  qed
  then obtain db2 where two: "recover_loop now uids rows (Suc n) db1 = Inr (Suc n + length rows, db2)" "run_db_ok db2"
      "\<forall>row \<in> set rows. run_status_of db2 (run_id row) \<in> {Some INTERRUPTED, Some CANCELLED}"
      "\<forall>k. k \<notin> run_id ` set rows \<longrightarrow> find_row run_id k (runs db2) = find_row run_id k (runs db1)"
    using Cons.IH [of db1 "Suc n"] Cons.prems(2) one(2) by (fastforce simp: settles_def)
  have "run_status_of db2 (run_id row) = run_status_of db1 (run_id row)"
    using two(4) Cons.prems(2) by (simp add: run_status_of_def)
  then show ?case using one two by (auto simp: settles_def)
qed

text \<open>
  Startup recovery always succeeds and settles exactly the runs left behind: no run without a lease is active any more,
  each of them counts as recovered and is interrupted or cancelled, and every other run is untouched.
\<close>

theorem recovery_settles_orphaned_runs:
  assumes "(runtime_step shlex digest)\<^sup>*\<^sup>* empty_run_db db"
  shows "\<exists>db'. recover_interrupted_runs now uids db = Inr (length (filter needs_recovery (runs db)), db') \<and>
    filter needs_recovery (runs db') = [] \<and>
    (\<forall>r. r \<in> set (runs db) \<and> needs_recovery r \<longrightarrow> run_status_of db' (run_id r) \<in> {Some INTERRUPTED, Some CANCELLED}) \<and>
    (\<forall>r. r \<in> set (runs db) \<and> \<not> needs_recovery r \<longrightarrow> find_row run_id (run_id r) (runs db') = Some r)"
proof -
  let ?rows = "filter needs_recovery (runs db)"
  have ok: "run_db_ok db" using reachable_ok [OF assms] by (simp add: db_ok_def)
  then have ids: "distinct (map run_id (runs db))" by (simp add: run_db_ok_def)
  then have d: "distinct (map run_id ?rows)" by (simp add: distinct_map_filter)
  have st: "run_status_of db (run_id r) = Some (run_status r) \<and> needs_recovery r" if "r \<in> set ?rows" for r
    using that find_row_distinct [OF ids] by (simp add: run_status_of_def)
  obtain db' where db': "recover_loop now uids ?rows 0 db = Inr (0 + length ?rows, db')" "run_db_ok db'"
      "\<forall>row \<in> set ?rows. run_status_of db' (run_id row) \<in> {Some INTERRUPTED, Some CANCELLED}"
      "\<forall>k. k \<notin> run_id ` set ?rows \<longrightarrow> find_row run_id k (runs db') = find_row run_id k (runs db)"
    using recover_loop_settles [OF ok d st, of now uids 0] by blast
  have "\<not> needs_recovery r" if "r \<in> set (runs db')" for r
  proof -
    have f: "find_row run_id (run_id r) (runs db') = Some r"
      using find_row_distinct that db'(2) by (auto simp: run_db_ok_def)
    show ?thesis
    proof (cases "run_id r \<in> run_id ` set ?rows")
      case True
      then have "run_status_of db' (run_id r) \<in> {Some INTERRUPTED, Some CANCELLED}" using db'(3) by (metis imageE)
      with f show ?thesis by (auto simp: run_status_of_def needs_recovery_def LIVE_def)
    next
      case False
      then have "r \<in> set (runs db)" using f db'(4) by (metis find_row_SomeD)
      then show ?thesis using False by auto
    qed
  qed
  moreover have "find_row run_id (run_id r) (runs db') = Some r" if "r \<in> set (runs db)" "\<not> needs_recovery r" for r
  proof -
    have "run_id r \<notin> run_id ` set ?rows"
    proof
      assume "run_id r \<in> run_id ` set ?rows"
      then obtain z where z: "z \<in> set (runs db)" "needs_recovery z" "run_id z = run_id r" by auto
      have "find_row run_id (run_id r) (runs db) = Some z" using find_row_distinct [OF ids z(1)] z(3) by simp
      then have "z = r" using find_row_distinct [OF ids that(1)] by simp
      with z that show False by simp
    qed
    then show ?thesis using db'(4) find_row_distinct [OF ids that(1)] by simp
  qed
  ultimately show ?thesis using db' by (auto simp: recover_interrupted_runs_def filter_empty_conv)
qed

theorem recovery_settles_orphaned_runs_witness:
  "\<exists>db'. recover_interrupted_runs 9 (\<lambda>_ _. ''u'') queued_run = Inr (0, db') \<and> find_row run_id ''r'' (runs db') = Some (hd (runs queued_run))"
  using recovery_settles_orphaned_runs [OF queued_run_reachable', of 9 "\<lambda>_ _. ''u''"]
  by (auto simp: queued_run_def new_run_def needs_recovery_def LIVE_def)

end
