(* ===== verification/Checkpoints.thy ===== *)
theory Checkpoints
  imports Prelude
begin

text \<open>
  Durable, checksummed run checkpoints (\<open>persistence/checkpoints.py\<close>). The SHA-256 of the identity and content is the
  parameter \<open>digest\<close>, JSON encoding and decoding are \<open>dump\<close> and \<open>loads\<close> (\<open>None\<close> where the decoder raises).
  A stored row may have lost its content (\<open>None\<close> in a text column), as the code allows for.

  The lemmas show that a saved checkpoint is read back, that checkpoints of a run are numbered upwards, and that
  a damaged newest checkpoint only falls back to the newest good one.
\<close>

section \<open>Saving and loading\<close>

definition CHECKPOINT_SCHEMA_VERSION :: nat where
  "CHECKPOINT_SCHEMA_VERSION = 1"

definition MAX_CHECKPOINT_BYTES :: nat where
  "MAX_CHECKPOINT_BYTES = 16 * 1024 * 1024"

record checkpoint =
  cp_id :: string
  cp_run :: string
  cp_seq :: nat
  cp_schema_version :: nat
  cp_runtime_version :: string
  cp_phase :: string
  cp_event_cursor :: nat
  cp_attempt :: nat
  cp_created_at :: int
  cp_state :: pyval
  cp_fingerprint :: pyval

record checkpoint_row =
  ck_id :: string
  ck_run :: string
  ck_seq :: nat
  ck_schema_version :: nat
  ck_runtime_version :: string
  ck_phase :: string
  ck_event_cursor :: nat
  ck_attempt :: nat
  ck_state_json :: "string option"
  ck_fingerprint_json :: "string option"
  ck_checksum :: string
  ck_created_at :: int

datatype checkpoint_error =
    ContentMissing nat string | ChecksumMismatch nat string | Unreadable nat string | NoUpgradePath nat string nat
  | CheckpointTooNew nat string nat | CheckpointTooLarge nat | NoCheckpoint string nat

text \<open>What the checksum covers: the identifying columns and the two texts, in order.\<close>

type_synonym check_head = "string \<times> nat \<times> nat \<times> string \<times> nat \<times> nat"

definition checksum :: "(check_head \<times> string \<times> string \<Rightarrow> string) \<Rightarrow> string \<Rightarrow> nat \<Rightarrow> nat \<Rightarrow> string \<Rightarrow> nat \<Rightarrow> nat \<Rightarrow> string \<Rightarrow> string
    \<Rightarrow> string" where
  "checksum digest rid seq version phase cursor attempt state_json fingerprint_json =
     digest ((rid, seq, version, phase, cursor, attempt), state_json, fingerprint_json)"

text \<open>\<open>COALESCE(MAX(seq), 0) + 1\<close> over the run's rows.\<close>

definition next_seq :: "checkpoint_row list \<Rightarrow> string \<Rightarrow> nat" where
  "next_seq rows rid = Suc (fold (\<lambda>r m. max (ck_seq r) m) (filter (\<lambda>r. ck_run r = rid) rows) 0)"

definition save_checkpoint :: "(check_head \<times> string \<times> string \<Rightarrow> string) \<Rightarrow> (pyval \<Rightarrow> string) \<Rightarrow> int \<Rightarrow> string \<Rightarrow> checkpoint_row list
    \<Rightarrow> string \<Rightarrow> string \<Rightarrow> pyval \<Rightarrow> pyval \<Rightarrow> nat \<Rightarrow> nat \<Rightarrow> string \<Rightarrow> checkpoint_error + checkpoint \<times> checkpoint_row list" where
  "save_checkpoint digest dump now new_id rows rid phase state fingerprint cursor attempt runtime_version =
     (let state_json = dump state; fingerprint_json = dump fingerprint in
      if length state_json > MAX_CHECKPOINT_BYTES then Inl (CheckpointTooLarge (length state_json))
      else
        let seq = next_seq rows rid in
        Inr (\<lparr>cp_id = new_id, cp_run = rid, cp_seq = seq, cp_schema_version = CHECKPOINT_SCHEMA_VERSION,
              cp_runtime_version = runtime_version, cp_phase = phase, cp_event_cursor = cursor, cp_attempt = attempt,
              cp_created_at = now, cp_state = state, cp_fingerprint = fingerprint\<rparr>,
             rows @ [\<lparr>ck_id = new_id, ck_run = rid, ck_seq = seq, ck_schema_version = CHECKPOINT_SCHEMA_VERSION,
               ck_runtime_version = runtime_version, ck_phase = phase, ck_event_cursor = cursor, ck_attempt = attempt,
               ck_state_json = Some state_json, ck_fingerprint_json = Some fingerprint_json,
               ck_checksum = checksum digest rid seq CHECKPOINT_SCHEMA_VERSION phase cursor attempt state_json fingerprint_json,
               ck_created_at = now\<rparr>]))"

text \<open>
  The upgrade loop: \<open>upgraders v\<close> turns a state of version \<open>v\<close> into one of the next version. The table in the
  source is empty, and a missing entry ends the loop with an error.
\<close>

function upgrade_loop :: "(nat \<Rightarrow> (pyval \<Rightarrow> pyval) option) \<Rightarrow> nat \<Rightarrow> string \<Rightarrow> nat \<Rightarrow> pyval \<Rightarrow> checkpoint_error + pyval" where
  "upgrade_loop upgraders seq rid version state =
     (if version < CHECKPOINT_SCHEMA_VERSION
      then (case upgraders version of
              None \<Rightarrow> Inl (NoUpgradePath seq rid version)
            | Some upgrade \<Rightarrow> upgrade_loop upgraders seq rid (Suc version) (upgrade state))
      else Inr state)"
  by pat_completeness auto
termination
  by (relation "measure (\<lambda>(u, s, r, version, st). CHECKPOINT_SCHEMA_VERSION - version)") auto

declare upgrade_loop.simps [simp del]

definition UPGRADERS :: "nat \<Rightarrow> (pyval \<Rightarrow> pyval) option" where
  "UPGRADERS = (\<lambda>_. None)"

definition decode_checkpoint :: "(check_head \<times> string \<times> string \<Rightarrow> string) \<Rightarrow> (string \<Rightarrow> pyval option) \<Rightarrow> checkpoint_row
    \<Rightarrow> checkpoint_error + checkpoint" where
  "decode_checkpoint digest loads row =
     (case (ck_state_json row, ck_fingerprint_json row) of
        (Some state_json, Some fingerprint_json) \<Rightarrow>
          if checksum digest (ck_run row) (ck_seq row) (ck_schema_version row) (ck_phase row) (ck_event_cursor row)
               (ck_attempt row) state_json fingerprint_json \<noteq> ck_checksum row
          then Inl (ChecksumMismatch (ck_seq row) (ck_run row))
          else if ck_schema_version row > CHECKPOINT_SCHEMA_VERSION
          then Inl (CheckpointTooNew (ck_seq row) (ck_run row) (ck_schema_version row))
          else (case (loads state_json, loads fingerprint_json) of
              (Some state, Some fingerprint) \<Rightarrow>
                bind_r (upgrade_loop UPGRADERS (ck_seq row) (ck_run row) (ck_schema_version row) state) (\<lambda>state'.
                  Inr \<lparr>cp_id = ck_id row, cp_run = ck_run row, cp_seq = ck_seq row,
                       cp_schema_version = CHECKPOINT_SCHEMA_VERSION, cp_runtime_version = ck_runtime_version row,
                       cp_phase = ck_phase row, cp_event_cursor = ck_event_cursor row, cp_attempt = ck_attempt row,
                       cp_created_at = ck_created_at row, cp_state = state', cp_fingerprint = fingerprint\<rparr>)
            | _ \<Rightarrow> Inl (Unreadable (ck_seq row) (ck_run row)))
      | _ \<Rightarrow> Inl (ContentMissing (ck_seq row) (ck_run row)))"

text \<open>\<open>latest_valid\<close>: newest first; the problems of the rows that did not verify are collected.\<close>

fun first_valid :: "(checkpoint_row \<Rightarrow> checkpoint_error + checkpoint) \<Rightarrow> checkpoint_row list \<Rightarrow> checkpoint_error list
    \<Rightarrow> checkpoint option \<times> checkpoint_error list" where
  "first_valid dec [] problems = (None, problems)"
| "first_valid dec (r # rs) problems =
     (case dec r of Inr c \<Rightarrow> (Some c, problems) | Inl e \<Rightarrow> first_valid dec rs (problems @ [e]))"

definition newest_first :: "checkpoint_row list \<Rightarrow> string \<Rightarrow> checkpoint_row list" where
  "newest_first rows rid = rev (sort_key ck_seq (filter (\<lambda>r. ck_run r = rid) rows))"

definition latest_valid :: "(check_head \<times> string \<times> string \<Rightarrow> string) \<Rightarrow> (string \<Rightarrow> pyval option) \<Rightarrow> checkpoint_row list \<Rightarrow> string
    \<Rightarrow> checkpoint option \<times> checkpoint_error list" where
  "latest_valid digest loads rows rid = first_valid (decode_checkpoint digest loads) (newest_first rows rid) []"

definition get_checkpoint :: "(check_head \<times> string \<times> string \<Rightarrow> string) \<Rightarrow> (string \<Rightarrow> pyval option) \<Rightarrow> checkpoint_row list \<Rightarrow> string \<Rightarrow> nat
    \<Rightarrow> checkpoint_error + checkpoint" where
  "get_checkpoint digest loads rows rid seq =
     (case find (\<lambda>r. ck_run r = rid \<and> ck_seq r = seq) rows of
        None \<Rightarrow> Inl (NoCheckpoint rid seq) | Some r \<Rightarrow> decode_checkpoint digest loads r)"

record checkpoint_summary =
  sm_seq :: nat
  sm_phase :: string
  sm_attempt :: nat
  sm_event_cursor :: nat
  sm_schema_version :: nat
  sm_created_at :: int
  sm_bytes :: nat
  sm_problem :: "checkpoint_error option"

definition describe_checkpoints :: "(check_head \<times> string \<times> string \<Rightarrow> string) \<Rightarrow> (string \<Rightarrow> pyval option) \<Rightarrow> checkpoint_row list \<Rightarrow> string
    \<Rightarrow> checkpoint_summary list" where
  "describe_checkpoints digest loads rows rid =
     map (\<lambda>r. \<lparr>sm_seq = ck_seq r, sm_phase = ck_phase r, sm_attempt = ck_attempt r, sm_event_cursor = ck_event_cursor r,
             sm_schema_version = ck_schema_version r, sm_created_at = ck_created_at r,
             sm_bytes = (case ck_state_json r of None \<Rightarrow> 0 | Some s \<Rightarrow> length s),
             sm_problem = (case decode_checkpoint digest loads r of Inl e \<Rightarrow> Some e | Inr _ \<Rightarrow> None)\<rparr>)
       (sort_key ck_seq (filter (\<lambda>r. ck_run r = rid) rows))"

section \<open>Sequence numbers\<close>

definition seqs_ok :: "checkpoint_row list \<Rightarrow> bool" where
  "seqs_ok rows \<longleftrightarrow> (\<forall>rid. distinct (map ck_seq (filter (\<lambda>r. ck_run r = rid) rows)))"

lemma next_seq_fresh: "r \<in> set rows \<Longrightarrow> ck_run r = rid \<Longrightarrow> ck_seq r < next_seq rows rid"
  by (simp add: next_seq_def less_Suc_eq_le fold_max_ge)

section \<open>A saved checkpoint is read back\<close>

lemma first_valid_problems:
  "first_valid dec rs ps = (fst (first_valid dec rs []), ps @ snd (first_valid dec rs []))"
proof (induction rs arbitrary: ps)
  case Nil
  show ?case by simp
next
  case (Cons r rs)
  show ?case
  proof (cases "dec r")
    case (Inl e)
    then show ?thesis using Cons.IH [of "ps @ [e]"] Cons.IH [of "[e]"] by simp
  next
    case (Inr c)
    then show ?thesis by simp
  qed
qed

lemma newest_first_snoc:
  "ck_run r = rid \<Longrightarrow> (\<And>x. x \<in> set rows \<Longrightarrow> ck_run x = rid \<Longrightarrow> ck_seq x \<le> ck_seq r) \<Longrightarrow>
     newest_first (rows @ [r]) rid = r # newest_first rows rid"
  using sort_key_snoc [of "filter (\<lambda>r. ck_run r = rid) rows" ck_seq r] by (simp add: newest_first_def)

lemma save_checkpoint_row:
  assumes "save_checkpoint digest dump now i rows rid phase state fp cursor attempt rv = Inr (cp, rows')"
  shows "\<exists>row. rows' = rows @ [row] \<and> ck_run row = rid \<and> ck_seq row = next_seq rows rid \<and> cp_seq cp = next_seq rows rid \<and>
    ck_schema_version row = CHECKPOINT_SCHEMA_VERSION \<and> ck_state_json row = Some (dump state) \<and> ck_fingerprint_json row = Some (dump fp) \<and>
    (loads (dump state) = Some state \<and> loads (dump fp) = Some fp \<longrightarrow> decode_checkpoint digest loads row = Inr cp)"
  using assms by (auto simp: save_checkpoint_def Let_def decode_checkpoint_def upgrade_loop.simps [of _ _ _ CHECKPOINT_SCHEMA_VERSION]
      split: if_splits)

lemma save_newest:
  assumes "save_checkpoint digest dump now i rows rid phase state fp cursor attempt rv = Inr (cp, rows @ [row])"
    and "ck_run row' = rid" "ck_seq row' = ck_seq row"
  shows "newest_first (rows @ [row']) rid = row' # newest_first rows rid"
proof (rule newest_first_snoc [OF assms(2)])
  fix x assume "x \<in> set rows" "ck_run x = rid"
  then show "ck_seq x \<le> ck_seq row'"
    using next_seq_fresh [of x rows rid] save_checkpoint_row [OF assms(1)] assms(3) by fastforce
qed

text \<open>
  Round trip. A saved checkpoint gets a number above every earlier one of its run, is the one
  \<open>latest_valid\<close> returns (with no problem reported), and is the one \<open>get\<close> returns under its number, provided the JSON text of
  its state and fingerprint decodes to them again.
\<close>

theorem saved_checkpoint_is_latest:
  assumes "loads (dump state) = Some state" and "loads (dump fp) = Some fp"
    and "save_checkpoint digest dump now i rows rid phase state fp cursor attempt rv = Inr (cp, rows')"
  shows "latest_valid digest loads rows' rid = (Some cp, []) \<and> get_checkpoint digest loads rows' rid (cp_seq cp) = Inr cp \<and>
    (\<forall>r. r \<in> set rows \<and> ck_run r = rid \<longrightarrow> ck_seq r < cp_seq cp)"
proof -
  obtain row where row: "rows' = rows @ [row]" "ck_run row = rid" "ck_seq row = next_seq rows rid" "cp_seq cp = next_seq rows rid"
      "decode_checkpoint digest loads row = Inr cp"
    using save_checkpoint_row [OF assms(3), of loads] assms(1,2) by blast
  have old: "ck_seq r < cp_seq cp" if "r \<in> set rows" "ck_run r = rid" for r
    using next_seq_fresh [OF that] row(4) by simp
  have "find (\<lambda>r. ck_run r = rid \<and> ck_seq r = cp_seq cp) rows = None"
    unfolding find_None_iff by (auto dest: old)
  moreover have "find P (xs @ [x]) = (case find P xs of None \<Rightarrow> if P x then Some x else None | Some y \<Rightarrow> Some y)"
    for P and xs :: "checkpoint_row list" and x
    by (induction xs) auto
  ultimately have "find (\<lambda>r. ck_run r = rid \<and> ck_seq r = cp_seq cp) rows' = Some row"
    using row(1-4) by simp
  moreover have "newest_first rows' rid = row # newest_first rows rid"
    unfolding row(1) using row(2) old row(3,4) by (intro newest_first_snoc) (auto simp: less_imp_le)
  ultimately show ?thesis using row(5) old by (simp add: latest_valid_def get_checkpoint_def)
qed

text \<open>A toy codec for two values, used in the examples.\<close>

definition show_one :: "pyval \<Rightarrow> string" where
  "show_one v = (case v of VNone \<Rightarrow> ''null'' | _ \<Rightarrow> ''0'')"

definition read_one :: "string \<Rightarrow> pyval option" where
  "read_one s = (if s = ''null'' then Some VNone else if s = ''0'' then Some (VInt 0) else None)"

theorem saved_checkpoint_is_latest_witness:
  "\<exists>cp rows'. save_checkpoint (\<lambda>(h, s, f). s @ f) show_one 1 ''c1'' [] ''r'' ''plan'' (VInt 0) VNone 4 1 ''v'' = Inr (cp, rows') \<and>
     latest_valid (\<lambda>(h, s, f). s @ f) read_one rows' ''r'' = (Some cp, [])"
proof -
  obtain cp rows' where s: "save_checkpoint (\<lambda>(h, s, f). s @ f) show_one 1 ''c1'' [] ''r'' ''plan'' (VInt 0) VNone 4 1 ''v'' = Inr (cp, rows')"
    by (simp add: save_checkpoint_def show_one_def MAX_CHECKPOINT_BYTES_def Let_def)
  show ?thesis using saved_checkpoint_is_latest [OF _ _ s, of read_one] s by (auto simp: show_one_def read_one_def)
qed

text \<open>
  A truncated or modified newest checkpoint is detected and skipped. If the stored texts of the newest checkpoint
  were changed to ones with another digest, \<open>latest_valid\<close> reports the mismatch first and then answers exactly as
  it would without that checkpoint.
\<close>

theorem damaged_checkpoint_is_skipped:
  assumes "save_checkpoint digest dump now i rows rid phase state fp cursor attempt rv = Inr (cp, rows @ [row])"
    and "damaged = row\<lparr>ck_state_json := Some s', ck_fingerprint_json := Some f'\<rparr>"
    and "checksum digest rid (ck_seq row) (ck_schema_version row) (ck_phase row) (ck_event_cursor row) (ck_attempt row) s' f' \<noteq> ck_checksum row"
  shows "latest_valid digest loads (rows @ [damaged]) rid =
    (fst (latest_valid digest loads rows rid), ChecksumMismatch (ck_seq row) rid # snd (latest_valid digest loads rows rid))"
proof -
  have rid: "ck_run row = rid" using save_checkpoint_row [OF assms(1)] by auto
  then have "newest_first (rows @ [damaged]) rid = damaged # newest_first rows rid"
    using save_newest [OF assms(1)] by (simp add: assms(2))
  moreover have "decode_checkpoint digest loads damaged = Inl (ChecksumMismatch (ck_seq row) rid)"
    using assms(3) rid by (simp add: assms(2) decode_checkpoint_def)
  ultimately show ?thesis
    unfolding latest_valid_def
    using first_valid_problems [of "decode_checkpoint digest loads" "newest_first rows rid" "[ChecksumMismatch (ck_seq row) rid]"]
    by simp
qed

definition toy_row :: checkpoint_row where
  "toy_row = \<lparr>ck_id = ''c1'', ck_run = ''r'', ck_seq = 1, ck_schema_version = 1, ck_runtime_version = ''v'', ck_phase = ''plan'',
     ck_event_cursor = 4, ck_attempt = 1, ck_state_json = Some ''0'', ck_fingerprint_json = Some ''null'',
     ck_checksum = ''0null'', ck_created_at = 1\<rparr>"

theorem damaged_checkpoint_is_skipped_witness:
  "latest_valid (\<lambda>(h, s, f). s @ f) read_one [toy_row\<lparr>ck_state_json := Some [], ck_fingerprint_json := Some ''null''\<rparr>] ''r''
     = (None, [ChecksumMismatch 1 ''r''])"
proof -
  have "\<exists>cp. save_checkpoint (\<lambda>(h, s, f). s @ f) show_one 1 ''c1'' [] ''r'' ''plan'' (VInt 0) VNone 4 1 ''v'' = Inr (cp, [] @ [toy_row])"
    by (simp add: save_checkpoint_def show_one_def MAX_CHECKPOINT_BYTES_def Let_def toy_row_def next_seq_def
        CHECKPOINT_SCHEMA_VERSION_def checksum_def)
  then obtain cp where s: "save_checkpoint (\<lambda>(h, s, f). s @ f) show_one 1 ''c1'' [] ''r'' ''plan'' (VInt 0) VNone 4 1 ''v'' = Inr (cp, [] @ [toy_row])" ..
  from damaged_checkpoint_is_skipped [OF s refl, of "[]" "''null''" read_one] show ?thesis
    by (simp add: toy_row_def checksum_def latest_valid_def newest_first_def)
qed

text \<open>What \<open>latest_valid\<close> returns in general: the newest row that verifies, with one problem per newer row.\<close>

lemma first_valid_split:
  "first_valid dec rs [] = (Some c, ps) \<Longrightarrow>
     \<exists>newer r older. rs = newer @ r # older \<and> dec r = Inr c \<and> map dec newer = map Inl ps"
proof (induction rs arbitrary: ps)
  case Nil
  then show ?case by simp
next
  case (Cons r rs)
  show ?case
  proof (cases "dec r")
    case (Inl e)
    with Cons.prems first_valid_problems [of dec rs "[e]"] obtain qs where qs: "first_valid dec rs [] = (Some c, qs)" "ps = e # qs"
      by (cases "first_valid dec rs []") auto
    from Cons.IH [OF qs(1)] obtain newer r' older where
      "rs = newer @ r' # older" "dec r' = Inr c" "map dec newer = map Inl qs" by blast
    with Inl qs(2) show ?thesis by (intro exI [of _ "r # newer"]) auto
  next
    case (Inr d)
    with Cons.prems show ?thesis by (intro exI [of _ "[]"]) auto
  qed
qed

end
