(* ===== verification/Unified.thy ===== *)
theory Unified
  imports Prelude
begin

text \<open>
  Unified diffs (\<open>patching/unified.py\<close>): parsing and context-verified application. The index loops of the
  source run over the remaining list of lines.

  The lemmas show that a block is found at the match closest to the claimed line, that a diff that describes
  the change from one file to another turns the one into the other, and what happens to insertions without context.
\<close>

section \<open>White space in texts\<close>

text \<open>
  The texts of files are kept as their UTF-8 bytes. \<open>str.strip\<close> removes white space characters, so these are the encodings of all code points that
  \<open>str.isspace\<close> accepts: the ASCII ones, U+0085, U+00A0, U+1680, U+2000 to U+200A, U+2028, U+2029, U+202F, U+205F and U+3000.
\<close>

definition utf8_spaces :: "string list" where
  "utf8_spaces =
     [[CHR 0x20], [CHR 0x09], [CHR 0x0D], [CHR 0x0A], [CHR 0x0B], [CHR 0x0C], [CHR 0x1C], [CHR 0x1D], [CHR 0x1E], [CHR 0x1F],
      [CHR 0xC2, CHR 0x85], [CHR 0xC2, CHR 0xA0], [CHR 0xE1, CHR 0x9A, CHR 0x80], [CHR 0xE2, CHR 0x80, CHR 0x80],
      [CHR 0xE2, CHR 0x80, CHR 0x81], [CHR 0xE2, CHR 0x80, CHR 0x82], [CHR 0xE2, CHR 0x80, CHR 0x83], [CHR 0xE2, CHR 0x80, CHR 0x84],
      [CHR 0xE2, CHR 0x80, CHR 0x85], [CHR 0xE2, CHR 0x80, CHR 0x86], [CHR 0xE2, CHR 0x80, CHR 0x87], [CHR 0xE2, CHR 0x80, CHR 0x88],
      [CHR 0xE2, CHR 0x80, CHR 0x89], [CHR 0xE2, CHR 0x80, CHR 0x8A], [CHR 0xE2, CHR 0x80, CHR 0xA8], [CHR 0xE2, CHR 0x80, CHR 0xA9],
      [CHR 0xE2, CHR 0x80, CHR 0xAF], [CHR 0xE2, CHR 0x81, CHR 0x9F], [CHR 0xE3, CHR 0x80, CHR 0x80]]"

lemma utf8_spaces_nonempty: "w \<in> set utf8_spaces \<Longrightarrow> w \<noteq> []"
  by (auto simp: utf8_spaces_def)

function text_lstrip :: "string \<Rightarrow> string" where
  "text_lstrip s = (case find (\<lambda>w. prefix w s) utf8_spaces of None \<Rightarrow> s | Some w \<Rightarrow> text_lstrip (drop (length w) s))"
  by pat_completeness auto
termination
proof (relation "measure length")
  fix s w :: string
  assume "find (\<lambda>w. prefix w s) utf8_spaces = Some w"
  then have "w \<in> set utf8_spaces" "prefix w s" by (auto simp: find_Some_iff)
  then have "w \<noteq> []" "prefix w s" by (auto dest: utf8_spaces_nonempty)
  then show "(drop (length w) s, s) \<in> measure length" by (auto simp: prefix_def)
qed simp

declare text_lstrip.simps [simp del]

text \<open>From the end: the bytes reversed.\<close>

function strip_rev :: "string \<Rightarrow> string" where
  "strip_rev s = (case find (\<lambda>w. prefix (rev w) s) utf8_spaces of None \<Rightarrow> s | Some w \<Rightarrow> strip_rev (drop (length w) s))"
  by pat_completeness auto
termination
proof (relation "measure length")
  fix s w :: string
  assume "find (\<lambda>w. prefix (rev w) s) utf8_spaces = Some w"
  then have "w \<in> set utf8_spaces" "prefix (rev w) s" by (auto simp: find_Some_iff)
  then have "w \<noteq> []" "prefix (rev w) s" by (auto dest: utf8_spaces_nonempty)
  then show "(drop (length w) s, s) \<in> measure length" by (auto simp: prefix_def)
qed simp

declare strip_rev.simps [simp del]

definition text_rstrip :: "string \<Rightarrow> string" where
  "text_rstrip s = rev (strip_rev (rev s))"

definition text_strip :: "string \<Rightarrow> string" where
  "text_strip s = text_rstrip (text_lstrip s)"

section \<open>Parsing\<close>

record hunk =
  old_start :: nat
  old_lines :: "string list"
  new_lines :: "string list"
  no_newline_at_eof :: bool

record file_patch =
  old_path :: "string option"
  new_path :: "string option"
  hunks :: "hunk list"

definition fp_is_new :: "file_patch \<Rightarrow> bool" where
  "fp_is_new p \<longleftrightarrow> old_path p = None"

definition fp_is_delete :: "file_patch \<Rightarrow> bool" where
  "fp_is_delete p \<longleftrightarrow> new_path p = None"

text \<open>\<open>self.new_path or self.old_path or ""\<close>.\<close>

definition fp_path :: "file_patch \<Rightarrow> string" where
  "fp_path p = (case new_path p of Some (c # cs) \<Rightarrow> c # cs
     | _ \<Rightarrow> (case old_path p of Some q \<Rightarrow> q | None \<Rightarrow> []))"

definition newline :: char where
  "newline = CHR 0x0A"

definition clean_path :: "string \<Rightarrow> string option" where
  "clean_path raw =
     (let s = text_strip (before_char (CHR 0x09) raw) in
      if s = ''/dev/null'' then None
      else if prefix ''a/'' s \<or> prefix ''b/'' s then Some (drop 2 s) else Some s)"

fun is_file_header :: "string list \<Rightarrow> bool" where
  "is_file_header (a # b # _) \<longleftrightarrow> prefix ''--- '' a \<and> prefix ''+++ '' b"
| "is_file_header _ \<longleftrightarrow> False"

definition digits_value :: "string \<Rightarrow> nat" where
  "digits_value s = foldl (\<lambda>n c. n * 10 + (of_char c - 48)) 0 s"

text \<open>\<open>(?:,(\d+))?\<close>: an optional count.\<close>

definition skip_count :: "string \<Rightarrow> string" where
  "skip_count s = (case s of c # r \<Rightarrow> if c = CHR '','' \<and> takeWhile is_digit r \<noteq> [] then dropWhile is_digit r else s | [] \<Rightarrow> s)"

text \<open>The hunk header pattern; the result is the first group as a number.\<close>

definition hunk_start :: "string \<Rightarrow> nat option" where
  "hunk_start line =
     (if \<not> prefix ''@@ -'' line then None
      else let a = drop 4 line; d = takeWhile is_digit a; b = skip_count (dropWhile is_digit a) in
        if d = [] \<or> \<not> prefix '' +'' b then None
        else let c = drop 2 b; e = skip_count (dropWhile is_digit c) in
          if takeWhile is_digit c = [] \<or> \<not> prefix '' @@'' e then None else Some (digits_value d))"

text \<open>The lines of one hunk, up to the next header or a line that belongs to no hunk.\<close>

fun parse_body :: "string list \<Rightarrow> hunk \<Rightarrow> hunk \<times> string list" where
  "parse_body [] h = (h, [])"
| "parse_body (line # rest) h =
     (if prefix ''@@'' line \<or> prefix ''diff '' line \<or> is_file_header (line # rest) then (h, line # rest)
      else if prefix [CHR 0x5C] line then parse_body rest (h\<lparr>no_newline_at_eof := True\<rparr>)
      else if prefix ''+'' line then parse_body rest (h\<lparr>new_lines := new_lines h @ [drop 1 line]\<rparr>)
      else if prefix ''-'' line then parse_body rest (h\<lparr>old_lines := old_lines h @ [drop 1 line]\<rparr>)
      else if prefix '' '' line
      then parse_body rest (h\<lparr>old_lines := old_lines h @ [drop 1 line], new_lines := new_lines h @ [drop 1 line]\<rparr>)
      else if line = [] then parse_body rest (h\<lparr>old_lines := old_lines h @ [[]], new_lines := new_lines h @ [[]]\<rparr>)
      else (h, line # rest))"

lemma parse_body_length: "length (snd (parse_body ls h)) \<le> length ls"
  by (induction ls arbitrary: h) (auto simp: le_Suc_eq)

text \<open>The hunks of one file.\<close>

function parse_hunks :: "string list \<Rightarrow> hunk list \<Rightarrow> hunk list \<times> string list" where
  "parse_hunks [] hs = (hs, [])"
| "parse_hunks (line # rest) hs =
     (if is_file_header (line # rest) \<or> prefix ''diff '' line then (hs, line # rest)
      else (case hunk_start line of
              None \<Rightarrow> parse_hunks rest hs
            | Some n \<Rightarrow>
                let b = parse_body rest \<lparr>old_start = n, old_lines = [], new_lines = [], no_newline_at_eof = False\<rparr>
                in parse_hunks (snd b) (hs @ [fst b])))"
  by pat_completeness auto
termination
  by (relation "measure (\<lambda>(ls, hs). length ls)") (auto simp: less_Suc_eq_le parse_body_length)

lemma parse_hunks_length: "length (snd (parse_hunks ls hs)) \<le> length ls"
proof (induction ls hs rule: parse_hunks.induct)
  case (2 line rest hs)
  show ?case
  proof (cases "is_file_header (line # rest) \<or> prefix ''diff '' line")
    case True
    then show ?thesis by auto
  next
    case False
    show ?thesis
    proof (cases "hunk_start line")
      case None
      then show ?thesis using "2.IH"(1) [OF False None] False by simp
    next
      case (Some n)
      let ?b = "parse_body rest \<lparr>old_start = n, old_lines = [], new_lines = [], no_newline_at_eof = False\<rparr>"
      have "length (snd (parse_hunks (snd ?b) (hs @ [fst ?b]))) \<le> length rest"
        using "2.IH"(2) [OF False Some refl] parse_body_length le_trans by blast
      then show ?thesis using False Some by (simp add: Let_def)
    qed
  qed
qed simp

function parse_files :: "string list \<Rightarrow> file_patch list" where
  "parse_files [] = []"
| "parse_files (line # rest) =
     (if \<not> is_file_header (line # rest) then parse_files rest
      else let r = parse_hunks (tl rest) []
           in \<lparr>old_path = clean_path (drop 4 line), new_path = clean_path (drop 4 (hd rest)), hunks = fst r\<rparr> # parse_files (snd r))"
  by pat_completeness auto
termination
proof (relation "measure length", simp, simp)
  fix line :: string and rest r
  assume h: "\<not> \<not> is_file_header (line # rest)" and r: "r = parse_hunks (tl rest) []"
  from h have "rest \<noteq> []" by (cases rest) auto
  with parse_hunks_length [of "tl rest" "[]"] show "(snd r, line # rest) \<in> measure length"
    by (simp add: r)
qed

definition drop_trailing_empty :: "string list \<Rightarrow> string list" where
  "drop_trailing_empty ls = rev (dropWhile (\<lambda>l. l = []) (rev ls))"

definition CRLF :: string where
  "CRLF = [CHR 0x0D, CHR 0x0A]"

definition parse_unified_diff :: "string \<Rightarrow> file_patch list" where
  "parse_unified_diff text = parse_files (drop_trailing_empty (split_on newline (str_replace CRLF [newline] text)))"

section \<open>Applying\<close>

definition MAX_HUNK_DRIFT :: int where
  "MAX_HUNK_DRIFT = 200"

definition block_at :: "(string \<Rightarrow> string \<Rightarrow> bool) \<Rightarrow> string list \<Rightarrow> string list \<Rightarrow> nat \<Rightarrow> bool" where
  "block_at cmp lines block start \<longleftrightarrow> list_all2 cmp (take (length block) (drop start lines)) block"

text \<open>The loop over the candidate starts, with the best start so far.\<close>

fun find_loop :: "(string \<Rightarrow> string \<Rightarrow> bool) \<Rightarrow> string list \<Rightarrow> string list \<Rightarrow> int \<Rightarrow> nat list \<Rightarrow> nat option \<Rightarrow> nat option" where
  "find_loop cmp lines block hint [] best = best"
| "find_loop cmp lines block hint (s # ss) best =
     (if block_at cmp lines block s
      then let best' = (case best of None \<Rightarrow> Some s
                        | Some b \<Rightarrow> if \<bar>int s - hint\<bar> < \<bar>int b - hint\<bar> then Some s else Some b)
           in if int s \<ge> hint then best' else find_loop cmp lines block hint ss best'
      else find_loop cmp lines block hint ss best)"

definition find_with :: "(string \<Rightarrow> string \<Rightarrow> bool) \<Rightarrow> string list \<Rightarrow> string list \<Rightarrow> int \<Rightarrow> nat option" where
  "find_with cmp lines block hint =
     (case find_loop cmp lines block hint [0 ..< Suc (length lines - length block)] None of
        None \<Rightarrow> None
      | Some b \<Rightarrow> if \<bar>int b - hint\<bar> \<le> MAX_HUNK_DRIFT then Some b else None)"

definition same_norm :: "string \<Rightarrow> string \<Rightarrow> bool" where
  "same_norm a b \<longleftrightarrow> text_rstrip a = text_rstrip b"

definition find_block :: "string list \<Rightarrow> string list \<Rightarrow> int \<Rightarrow> nat option" where
  "find_block lines block hint =
     (if block = [] then Some (nat (max 0 (min hint (int (length lines)))))
      else if length block > length lines then None
      else (case find_with (=) lines block hint of
              Some s \<Rightarrow> Some s
            | None \<Rightarrow> find_with same_norm lines block hint))"

datatype patch_error = HunkMismatch nat nat "string list"

definition hunk_hint :: "hunk \<Rightarrow> int \<Rightarrow> int" where
  "hunk_hint h delta =
     (if old_lines h = [] \<and> old_start h = 0 then 0 else max 0 (int (old_start h) - 1) + delta)"

fun apply_loop :: "nat \<Rightarrow> hunk list \<Rightarrow> int \<Rightarrow> string list \<Rightarrow> patch_error + string list" where
  "apply_loop number [] delta result = Inr result"
| "apply_loop number (h # hs) delta result =
     (case find_block result (old_lines h) (hunk_hint h delta) of
        None \<Rightarrow> Inl (HunkMismatch number (old_start h) (take 6 (old_lines h)))
      | Some s \<Rightarrow>
          apply_loop (Suc number) hs (delta + int (length (new_lines h)) - int (length (old_lines h)))
            (take s result @ new_lines h @ drop (s + length (old_lines h)) result))"

definition apply_hunks :: "string list \<Rightarrow> hunk list \<Rightarrow> patch_error + string list" where
  "apply_hunks original hs = apply_loop 1 hs 0 original"

section \<open>A block is found where it is closest\<close>

lemma find_loop_best:
  assumes "sorted_wrt (<) ss" and "\<And>b s. best = Some b \<Longrightarrow> s \<in> set ss \<Longrightarrow> b < s"
    and "\<And>b. best = Some b \<Longrightarrow> int b < hint"
  shows "case find_loop cmp lines block hint ss best of
      None \<Rightarrow> best = None \<and> (\<forall>s \<in> set ss. \<not> block_at cmp lines block s)
    | Some r \<Rightarrow> (best = Some r \<or> r \<in> set ss \<and> block_at cmp lines block r) \<and>
        (\<forall>b. best = Some b \<longrightarrow> \<bar>int r - hint\<bar> \<le> \<bar>int b - hint\<bar>) \<and>
        (\<forall>s \<in> set ss. block_at cmp lines block s \<longrightarrow> \<bar>int r - hint\<bar> \<le> \<bar>int s - hint\<bar>)"
  using assms
proof (induction ss arbitrary: best)
  case Nil
  then show ?case by (cases best) auto
next
  case (Cons s ss)
  show ?case
  proof (cases "block_at cmp lines block s")
    case False
    then show ?thesis using Cons.IH [of best] Cons.prems by (auto split: option.splits)
  next
    case True
    define best' where "best' = (case best of None \<Rightarrow> Some s
        | Some b \<Rightarrow> if \<bar>int s - hint\<bar> < \<bar>int b - hint\<bar> then Some s else Some b)"
    show ?thesis
    proof (cases "int s \<ge> hint")
      case ge: True
      then have "find_loop cmp lines block hint (s # ss) best = best'" using True by (simp add: best'_def Let_def)
      moreover have "\<forall>t \<in> set ss. \<bar>int s - hint\<bar> \<le> \<bar>int t - hint\<bar>" using Cons.prems(1) ge by auto
      ultimately show ?thesis using True by (auto simp: best'_def split: option.split)
    next
      case lt: False
      have best': "best' = Some s"
        using Cons.prems(2,3) lt by (cases best) (auto simp: best'_def)
      have "case find_loop cmp lines block hint ss (Some s) of
          None \<Rightarrow> False
        | Some r \<Rightarrow> (s = r \<or> r \<in> set ss \<and> block_at cmp lines block r) \<and> \<bar>int r - hint\<bar> \<le> \<bar>int s - hint\<bar> \<and>
            (\<forall>t \<in> set ss. block_at cmp lines block t \<longrightarrow> \<bar>int r - hint\<bar> \<le> \<bar>int t - hint\<bar>)"
      proof -
        have "sorted_wrt (<) ss" and a: "\<And>b t. Some s = Some b \<Longrightarrow> t \<in> set ss \<Longrightarrow> b < t" using Cons.prems(1) by auto
        moreover have "\<And>b. Some s = Some b \<Longrightarrow> int b < hint" using lt by auto
        ultimately have "case find_loop cmp lines block hint ss (Some s) of
            None \<Rightarrow> Some s = None \<and> (\<forall>t \<in> set ss. \<not> block_at cmp lines block t)
          | Some r \<Rightarrow> (Some s = Some r \<or> r \<in> set ss \<and> block_at cmp lines block r) \<and>
              (\<forall>b. Some s = Some b \<longrightarrow> \<bar>int r - hint\<bar> \<le> \<bar>int b - hint\<bar>) \<and>
              (\<forall>t \<in> set ss. block_at cmp lines block t \<longrightarrow> \<bar>int r - hint\<bar> \<le> \<bar>int t - hint\<bar>)"
          by (rule Cons.IH)
        then show ?thesis by (auto split: option.splits)
      qed
      moreover have "find_loop cmp lines block hint (s # ss) best = find_loop cmp lines block hint ss (Some s)"
        using True lt best' by (simp add: best'_def Let_def)
      moreover have "\<forall>b. best = Some b \<longrightarrow> \<bar>int s - hint\<bar> \<le> \<bar>int b - hint\<bar>"
        using Cons.prems(2,3) lt by (force dest: less_imp_le)
      ultimately show ?thesis using True by (auto split: option.splits)
    qed
  qed
qed

text \<open>The candidate positions of a block.\<close>

definition places :: "(string \<Rightarrow> string \<Rightarrow> bool) \<Rightarrow> string list \<Rightarrow> string list \<Rightarrow> nat set" where
  "places cmp lines block = {s. s + length block \<le> length lines \<and> block_at cmp lines block s}"

lemma places_upt:
  "length block \<le> length lines \<Longrightarrow> s \<in> places cmp lines block \<longleftrightarrow> s \<in> set [0 ..< Suc (length lines - length block)] \<and> block_at cmp lines block s"
  by (auto simp: places_def)

lemma find_with_closest:
  assumes "length block \<le> length lines"
  shows "case find_with cmp lines block hint of
      None \<Rightarrow> (\<forall>s \<in> places cmp lines block. \<bar>int s - hint\<bar> > MAX_HUNK_DRIFT)
    | Some r \<Rightarrow> r \<in> places cmp lines block \<and> \<bar>int r - hint\<bar> \<le> MAX_HUNK_DRIFT \<and>
        (\<forall>s \<in> places cmp lines block. \<bar>int r - hint\<bar> \<le> \<bar>int s - hint\<bar>)"
  using find_loop_best [of "[0 ..< Suc (length lines - length block)]" None hint cmp lines block] places_upt [OF assms, of _ cmp]
  unfolding find_with_def by (auto split: option.splits simp del: upt_Suc)

lemma block_at_eq: "block_at (=) lines block s \<longleftrightarrow> take (length block) (drop s lines) = block"
  by (simp add: block_at_def list.rel_eq)

text \<open>
  Where a hunk goes. For a block of at least one line, \<open>_find_block\<close> returns the position of an
  exact match within the drift limit that is closest to the claimed line; if there is none, the closest position at which the
  block matches up to trailing white space; and nothing only if no match of either kind lies within the limit.
\<close>

theorem find_block_closest:
  assumes "block \<noteq> []"
  shows "case find_block lines block hint of
     Some r \<Rightarrow> \<bar>int r - hint\<bar> \<le> MAX_HUNK_DRIFT \<and>
       (r \<in> places (=) lines block \<and> (\<forall>s. s \<in> places (=) lines block \<longrightarrow> \<bar>int r - hint\<bar> \<le> \<bar>int s - hint\<bar>)
        \<or> r \<in> places same_norm lines block \<and> (\<forall>s. s \<in> places same_norm lines block \<longrightarrow> \<bar>int r - hint\<bar> \<le> \<bar>int s - hint\<bar>) \<and>
          (\<forall>s. s \<in> places (=) lines block \<longrightarrow> \<bar>int s - hint\<bar> > MAX_HUNK_DRIFT))
   | None \<Rightarrow> (\<forall>s. s \<in> places (=) lines block \<union> places same_norm lines block \<longrightarrow> \<bar>int s - hint\<bar> > MAX_HUNK_DRIFT)"
proof (cases "length block \<le> length lines")
  case True
  show ?thesis
    using assms True find_with_closest [OF True, of "(=)" hint] find_with_closest [OF True, of same_norm hint]
    unfolding find_block_def by (auto split: option.splits)
next
  case False
  then show ?thesis using assms by (auto simp: find_block_def places_def)
qed

theorem find_block_closest_witness:
  "find_block [''x'', ''y'', ''x'', ''z''] [''x''] 2 = Some 2 \<and> 2 \<in> places (=) [''x'', ''y'', ''x'', ''z''] [''x'']"
proof -
  have f: "find_block [''x'', ''y'', ''x'', ''z''] [''x''] 2 = Some 2"
    by (simp add: find_block_def find_with_def block_at_def upt_conv_Cons MAX_HUNK_DRIFT_def)
  have "0 \<in> places (=) [''x'', ''y'', ''x'', ''z''] [''x'']" by (simp add: places_def block_at_def)
  then have "2 \<in> places (=) [''x'', ''y'', ''x'', ''z''] [''x'']"
    using find_block_closest [of "[''x'']" "[''x'', ''y'', ''x'', ''z'']" 2] f by (auto simp: MAX_HUNK_DRIFT_def)
  with f show ?thesis by blast
qed

section \<open>A diff of two files turns the one into the other\<close>

text \<open>
  \<open>describes k old hs new\<close>: from line \<open>k\<close> of the original on, the hunks describe how the remaining lines
  \<open>old\<close> become \<open>new\<close>: each names the one-based line it starts at and has at least one context or removed line.
\<close>

inductive describes :: "nat \<Rightarrow> string list \<Rightarrow> hunk list \<Rightarrow> string list \<Rightarrow> bool" where
  unchanged: "describes k old [] old"
| hunk: "old_lines h \<noteq> [] \<Longrightarrow> old_start h = Suc (k + length pre) \<Longrightarrow>
    describes (k + length pre + length (old_lines h)) rest hs new \<Longrightarrow>
    describes k (pre @ old_lines h @ rest) (h # hs) (pre @ new_lines h @ new)"

lemma find_block_here:
  assumes "block \<noteq> []"
  shows "find_block (pre @ block @ rest) block (int (length pre)) = Some (length pre)"
proof -
  have here: "length pre \<in> places (=) (pre @ block @ rest) block" by (simp add: places_def block_at_eq)
  show ?thesis
    using find_block_closest [OF assms, of "pre @ block @ rest" "int (length pre)"] here
    by (auto split: option.splits simp: MAX_HUNK_DRIFT_def)
qed

lemma apply_loop_describes:
  "describes k old hs new \<Longrightarrow> int (length done') = int k + delta \<Longrightarrow> apply_loop n hs delta (done' @ old) = Inr (done' @ new)"
proof (induction arbitrary: n delta done' rule: describes.induct)
  case (unchanged k old)
  then show ?case by simp
next
  case (hunk h k pre rest hs new)
  have hint: "hunk_hint h delta = int (length (done' @ pre))"
    using hunk(1,2,5) by (simp add: hunk_hint_def)
  have at: "find_block (done' @ pre @ old_lines h @ rest) (old_lines h) (hunk_hint h delta) = Some (length (done' @ pre))"
    using find_block_here [OF hunk(1), of "done' @ pre" rest] hint by simp
  have "apply_loop (Suc n) hs (delta + int (length (new_lines h)) - int (length (old_lines h)))
      ((done' @ pre @ new_lines h) @ rest) = Inr ((done' @ pre @ new_lines h) @ new)"
    using hunk(5) by (intro hunk.IH) simp
  then show ?case using at by simp
qed

text \<open>
  Faithful application. If the hunks describe how one file becomes another (each hunk with at least one context or
  removed line), applying them to the first file gives exactly the second, for every number and size of hunks.
\<close>

theorem apply_hunks_follows_the_diff:
  assumes "describes 0 old hs new"
  shows "apply_hunks old hs = Inr new"
  using apply_loop_describes [OF assms, of "[]" 0] by (simp add: apply_hunks_def)

theorem apply_hunks_follows_the_diff_witness:
  "apply_hunks [''a'', ''b'', ''c'']
     [\<lparr>old_start = 2, old_lines = [''b''], new_lines = [''B'', ''B2''], no_newline_at_eof = False\<rparr>] = Inr [''a'', ''B'', ''B2'', ''c'']"
proof (rule apply_hunks_follows_the_diff)
  let ?h = "\<lparr>old_start = 2, old_lines = [''b''], new_lines = [''B'', ''B2''], no_newline_at_eof = False\<rparr>"
  have "describes 0 ([''a''] @ old_lines ?h @ [''c'']) [?h] ([''a''] @ new_lines ?h @ [''c''])"
    by (rule describes.hunk) (simp_all add: describes.unchanged)
  then show "describes 0 [''a'', ''b'', ''c''] [?h] [''a'', ''B'', ''B2'', ''c'']" by simp
qed

text \<open>
  An insertion without context lands one line too early. In a unified diff the header \<open>@@ -k,0 ...\<close> of a
  hunk with no old lines means "after line k"; applied to a file of at least k lines, the new lines are inserted before line k.
\<close>

theorem contextless_insertion_lands_early:
  assumes "old_lines h = []" and "old_start h = Suc k" and "Suc k \<le> length original"
  shows "apply_hunks original [h] = Inr (take k original @ new_lines h @ drop k original)"
  using assms by (simp add: apply_hunks_def find_block_def hunk_hint_def min_def)

theorem contextless_insertion_lands_early_witness:
  "apply_hunks [''a'', ''b''] [\<lparr>old_start = 2, old_lines = [], new_lines = [''x''], no_newline_at_eof = False\<rparr>] = Inr [''a'', ''x'', ''b'']"
  using contextless_insertion_lands_early [of "\<lparr>old_start = 2, old_lines = [], new_lines = [''x''], no_newline_at_eof = False\<rparr>" 1 "[''a'', ''b'']"]
  by simp

text \<open>A hunk either matches the file it is applied to or nothing is produced: no hunk is ever placed on a guess.\<close>

lemma apply_one_hunk:
  assumes "old_lines h \<noteq> []" "apply_hunks original [h] = Inr result"
  shows "\<exists>pre mid rest. original = pre @ mid @ rest \<and> list_all2 same_norm mid (old_lines h) \<and> result = pre @ new_lines h @ rest"
proof -
  obtain s where s: "find_block original (old_lines h) (hunk_hint h 0) = Some s"
    and res: "result = take s original @ new_lines h @ drop (s + length (old_lines h)) original"
    using assms(2) by (auto simp: apply_hunks_def split: option.splits)
  have "s \<in> places (=) original (old_lines h) \<or> s \<in> places same_norm original (old_lines h)"
    using find_block_closest [OF assms(1), of original "hunk_hint h 0"] s by auto
  moreover have "list_all2 same_norm xs xs" for xs by (simp add: list.rel_refl same_norm_def)
  ultimately have "list_all2 same_norm (take (length (old_lines h)) (drop s original)) (old_lines h)"
    by (auto simp: places_def block_at_def list.rel_eq)
  moreover have "original = take s original @ take (length (old_lines h)) (drop s original) @ drop (length (old_lines h)) (drop s original)"
    by (simp only: append_take_drop_id)
  moreover have "result = take s original @ new_lines h @ drop (length (old_lines h)) (drop s original)"
    using res by (simp add: add.commute)
  ultimately show ?thesis by blast
qed

end
