(* ===== verification/Edits.thy ===== *)
theory Edits
  imports Unified
begin

text \<open>
  Search/replace edits (\<open>patching/edits.py\<close>): the matching order is exact, then ignoring trailing white space, then ignoring
  indentation.

  The lemmas show that an exact edit changes exactly the one place its snippet occurs in, that an ambiguous snippet is refused,
  and what the white-space-tolerant fallback may change.
\<close>

record search_replace =
  sr_path :: string
  sr_search :: string
  sr_replace :: string
  sr_replace_all :: bool

datatype change =
    SearchReplace search_replace
  | CreateFile string string
  | DeleteFile string
  | WriteFile string string
  | PatchFile file_patch

datatype edit_error =
    EmptySearch string | Ambiguous string nat | NotFound string | MalformedEdit | MalformedCreate | NotIterable

definition text_lines :: "string \<Rightarrow> string list" where
  "text_lines s = split_on newline s"

definition rstrip_lines :: "string \<Rightarrow> string" where
  "rstrip_lines s = join [newline] (map text_rstrip (text_lines s))"

definition indent :: "string \<Rightarrow> string" where
  "indent line = take (length line - length (text_lstrip line)) line"

text \<open>\<open>text.strip("\n").split("\n")\<close> when anything is left, else no lines.\<close>

definition replacement_lines :: "string \<Rightarrow> string list" where
  "replacement_lines r = (if strip_newlines r \<noteq> [] then text_lines (strip_newlines r) else [])"

definition indent_hits :: "string list \<Rightarrow> string list \<Rightarrow> nat list" where
  "indent_hits src needle =
     filter (\<lambda>i. map text_strip (take (length needle) (drop i src)) = needle) [0 ..< Suc (length src) - length needle]"

definition reindent :: "string \<Rightarrow> string \<Rightarrow> string \<Rightarrow> string" where
  "reindent model_indent file_indent l =
     (if prefix model_indent l \<and> text_strip l \<noteq> [] then file_indent @ drop (length model_indent) l else l)"

definition match_ignoring_indent :: "string \<Rightarrow> search_replace \<Rightarrow> string option" where
  "match_ignoring_indent text e =
     (let search = text_lines (strip_newlines (sr_search e));
          needle = map text_strip search;
          src = text_lines text in
      if \<not> list_ex (\<lambda>w. w \<noteq> []) needle then None
      else (case indent_hits src needle of
          [i] \<Rightarrow> Some (join [newline] (take i src
                   @ map (reindent (indent (hd search)) (indent (src ! i))) (replacement_lines (sr_replace e))
                   @ drop (i + length needle) src))
        | _ \<Rightarrow> None))"

text \<open>\<open>text.count(sub)\<close>; the empty string occurs once more than there are characters.\<close>

definition py_count :: "string \<Rightarrow> string \<Rightarrow> nat" where
  "py_count sub s = (if sub = [] then Suc (length s) else str_count sub s)"

text \<open>The loop that maps a normalised match back onto the original lines.\<close>

function line_replace :: "bool \<Rightarrow> string list \<Rightarrow> string list \<Rightarrow> string list \<Rightarrow> bool \<Rightarrow> string list" where
  "line_replace every needle new src replaced =
     (case src of [] \<Rightarrow> []
      | l # ls \<Rightarrow>
          if map text_rstrip (take (length needle) src) = needle \<and> needle \<noteq> [] \<and> (\<not> replaced \<or> every)
          then new @ line_replace every needle new (drop (length needle) src) True
          else l # line_replace every needle new ls replaced)"
  by pat_completeness auto
termination
  by (relation "measure (\<lambda>(every, needle, new, src, replaced). length src)") auto

declare line_replace.simps [simp del]

definition apply_search_replace :: "string \<Rightarrow> search_replace \<Rightarrow> edit_error + string" where
  "apply_search_replace text e =
     (if sr_search e = [] then Inl (EmptySearch (sr_path e))
      else
        let count = str_count (sr_search e) text in
        if count = 1 \<or> count > 1 \<and> sr_replace_all e then Inr (str_replace (sr_search e) (sr_replace e) text)
        else if count > 1 then Inl (Ambiguous (sr_path e) count)
        else
          let norm_search = strip_newlines (rstrip_lines (sr_search e));
              count' = py_count norm_search (rstrip_lines text) in
          if count' = 0 then (case match_ignoring_indent text e of Some t \<Rightarrow> Inr t | None \<Rightarrow> Inl (NotFound (sr_path e)))
          else if count' > 1 \<and> \<not> sr_replace_all e then Inl (Ambiguous (sr_path e) count')
          else Inr (join [newline] (line_replace (sr_replace_all e) (text_lines norm_search)
                      (replacement_lines (sr_replace e)) (text_lines text) False)))"

section \<open>Edits in a model's reply\<close>

text \<open>\<open>data.get(key) or []\<close> as a loop sees it; \<open>None\<close> where iterating raises.\<close>

definition items_of :: "pyval dict \<Rightarrow> string \<Rightarrow> pyval list option" where
  "items_of data key = (if truthy (dget data key VNone) then py_iter (dget data key VNone) else Some [])"

definition edit_item :: "(pyval \<Rightarrow> string) \<Rightarrow> pyval \<Rightarrow> edit_error + change" where
  "edit_item show_val v =
     (case as_dict v of None \<Rightarrow> Inl MalformedEdit
      | Some d \<Rightarrow>
         (case map_of d ''path'' of None \<Rightarrow> Inl MalformedEdit
          | Some p \<Rightarrow> Inr (SearchReplace \<lparr>sr_path = py_str show_val p,
               sr_search = py_str show_val (dget d ''search'' (VStr [])),
               sr_replace = py_str show_val (dget d ''replace'' (VStr [])),
               sr_replace_all = truthy (dget d ''replace_all'' (VBool False))\<rparr>)))"

definition create_item :: "(pyval \<Rightarrow> string) \<Rightarrow> pyval \<Rightarrow> edit_error + change" where
  "create_item show_val v =
     (case as_dict v of None \<Rightarrow> Inl MalformedCreate
      | Some d \<Rightarrow>
         (case map_of d ''path'' of None \<Rightarrow> Inl MalformedCreate
          | Some p \<Rightarrow> Inr (CreateFile (py_str show_val p) (py_str show_val (dget d ''content'' (VStr []))))))"

definition changes_from_model_output :: "(pyval \<Rightarrow> string) \<Rightarrow> pyval dict \<Rightarrow> edit_error + change list" where
  "changes_from_model_output show_val data =
     (case items_of data ''edits'' of None \<Rightarrow> Inl NotIterable
      | Some edits \<Rightarrow>
        bind_r (map_r (edit_item show_val) edits) (\<lambda>es.
          case items_of data ''create'' of None \<Rightarrow> Inl NotIterable
          | Some creates \<Rightarrow>
            bind_r (map_r (create_item show_val) creates) (\<lambda>cs.
              case items_of data ''delete'' of None \<Rightarrow> Inl NotIterable
              | Some deletes \<Rightarrow> Inr (es @ cs @ map (\<lambda>p. DeleteFile (py_str show_val p)) deletes))))"

section \<open>An exact edit changes one place\<close>

text \<open>\<open>count\<close> counts non-overlapping occurrences from the left; a text in which a snippet occurs at all splits at its first one.\<close>

lemma count_split:
  assumes "sub \<noteq> []" "str_count sub s > 0"
  shows "\<exists>pre post. s = pre @ sub @ post \<and> str_count sub s = Suc (str_count sub post) \<and>
    (\<forall>new. str_replace sub new s = pre @ new @ str_replace sub new post)"
  using assms(2)
proof (induction s)
  case Nil
  then show ?case by (simp add: str_count.simps)
next
  case (Cons c s)
  show ?case
  proof (cases "prefix sub (c # s)")
    case True
    then obtain post where post: "c # s = sub @ post" by (auto simp: prefix_def)
    then have d: "drop (length sub) (c # s) = post" by simp
    have "str_count sub (c # s) = Suc (str_count sub post)" "\<And>new. str_replace sub new (c # s) = new @ str_replace sub new post"
      using True assms(1) d by (simp_all add: str_count.simps [of sub "c # s"] str_replace.simps [of sub _ "c # s"])
    then have "c # s = [] @ sub @ post \<and> str_count sub (c # s) = Suc (str_count sub post) \<and>
        (\<forall>new. str_replace sub new (c # s) = [] @ new @ str_replace sub new post)"
      using post by (simp only: append_Nil simp_thms)
    then show ?thesis by blast
  next
    case False
    then have "str_count sub (c # s) = str_count sub s" "\<And>new. str_replace sub new (c # s) = c # str_replace sub new s"
      by (simp_all add: str_count.simps [of sub "c # s"] str_replace.simps [of sub _ "c # s"])
    moreover obtain pre post where "s = pre @ sub @ post" "str_count sub s = Suc (str_count sub post)"
        "\<forall>new. str_replace sub new s = pre @ new @ str_replace sub new post"
      using Cons.IH Cons.prems calculation by auto
    ultimately show ?thesis by (metis append_Cons)
  qed
qed

lemma replace_unique:
  assumes "sub \<noteq> []" "str_count sub s = 1"
  shows "\<exists>pre post. s = pre @ sub @ post \<and> \<not> sublist sub post \<and> str_replace sub new s = pre @ new @ post"
proof -
  obtain pre post where p: "s = pre @ sub @ post" "str_count sub s = Suc (str_count sub post)"
      "str_replace sub new s = pre @ new @ str_replace sub new post"
    using count_split [OF assms(1), of s] assms(2) by auto
  then have "\<not> sublist sub post" using assms str_count_zero by simp
  then show ?thesis using p str_replace_absent by auto
qed

text \<open>
  An exact edit. If the search text occurs in the file, either it occurs once and the result is the file with that occurrence
  replaced and everything before and after it kept; or the edit asks for every occurrence; or the edit is refused as
  ambiguous. An edit with an empty search text is always refused.
\<close>

theorem exact_edit_changes_one_place:
  assumes "sublist (sr_search e) text"
  shows "case apply_search_replace text e of
      Inr result \<Rightarrow> sr_search e \<noteq> [] \<and>
        (sr_replace_all e \<or> (\<exists>pre post. text = pre @ sr_search e @ post \<and> \<not> sublist (sr_search e) post \<and>
           result = pre @ sr_replace e @ post))
    | Inl err \<Rightarrow> err = EmptySearch (sr_path e) \<and> sr_search e = [] \<or>
        \<not> sr_replace_all e \<and> err = Ambiguous (sr_path e) (str_count (sr_search e) text) \<and> 1 < str_count (sr_search e) text"
proof (cases "sr_search e = []")
  case True
  then show ?thesis by (simp add: apply_search_replace_def)
next
  case False
  then have "str_count (sr_search e) text \<noteq> 0" using assms str_count_zero by blast
  then consider "str_count (sr_search e) text = 1" | "str_count (sr_search e) text > 1" by linarith
  then show ?thesis
  proof cases
    case 1
    then show ?thesis using False replace_unique [OF False 1, of "sr_replace e"] by (auto simp: apply_search_replace_def Let_def)
  next
    case 2
    then show ?thesis using False by (auto simp: apply_search_replace_def Let_def)
  qed
qed

theorem exact_edit_changes_one_place_witness:
  "apply_search_replace ''xay'' \<lparr>sr_path = ''f'', sr_search = ''a'', sr_replace = ''b'', sr_replace_all = False\<rparr> = Inr ''xby'' \<and>
   (\<exists>pre post. ''xay'' = pre @ ''a'' @ post \<and> \<not> sublist ''a'' post \<and> ''xby'' = pre @ ''b'' @ post)"
proof -
  let ?e = "\<lparr>sr_path = ''f'', sr_search = ''a'', sr_replace = ''b'', sr_replace_all = False\<rparr>"
  have r: "apply_search_replace ''xay'' ?e = Inr ''xby''"
    by (simp add: apply_search_replace_def Let_def str_count.simps str_replace.simps)
  have "sublist (sr_search ?e) ''xay''" by (simp add: sublist_Cons_right)
  from exact_edit_changes_one_place [OF this] r show ?thesis by simp
qed

text \<open>
  The white-space-tolerant fallback can report success without editing: when the normalised search text occurs once in the
  normalised file but not on whole lines, the file is returned unchanged instead of an error.
\<close>

definition silent_edit :: search_replace where
  "silent_edit = \<lparr>sr_path = ''f'', sr_search = ''b '' @ [newline] @ ''c'', sr_replace = ''Z'', sr_replace_all = False\<rparr>"

theorem tolerant_edit_may_change_nothing:
  "apply_search_replace (''ab'' @ [newline] @ ''cd'') silent_edit = Inr (''ab'' @ [newline] @ ''cd'')"
  by (simp add: apply_search_replace_def Let_def silent_edit_def str_count.simps newline_def rstrip_lines_def text_lines_def
      text_rstrip_def strip_rev.simps utf8_spaces_def strip_newlines_def rstrip_by_def lstrip_by_def py_count_def line_replace.simps)

end
