(* ===== verification/Regex.thy ===== *)
theory Regex
  imports Prelude
begin

text \<open>
  The part of the standard library's \<open>re\<close> that the sources use: character sets, literals, groups, alternation, bounded
  and unbounded greedy repetition, word boundaries and end of text, matched by backtracking. A matcher lists the places where
  a match may end in the order backtracking tries them; \<open>search\<close> and \<open>sub\<close> take the first.

  Text is a list of 8-bit characters, so the classes \<open>\<backslash>s\<close>, \<open>\<backslash>w\<close> and \<open>\<backslash>d\<close> are their ASCII parts.
\<close>

datatype rx =
    Eps
  | Cls "char \<Rightarrow> bool"
  | Sq rx rx
  | Or rx rx
  | Rep nat "nat option" rx
  | WordB
  | AtEnd

text \<open>A position in a text: the character before it, if any, and what follows.\<close>

type_synonym pos = "char option \<times> string"

definition is_word :: "char \<Rightarrow> bool" where
  "is_word c \<longleftrightarrow> is_alnum c \<or> c = CHR ''_''"

definition word_boundary :: "pos \<Rightarrow> bool" where
  "word_boundary p \<longleftrightarrow>
     (case fst p of None \<Rightarrow> False | Some c \<Rightarrow> is_word c) \<noteq> (case snd p of [] \<Rightarrow> False | c # _ \<Rightarrow> is_word c)"

text \<open>\<open>$\<close>: the end of the text, or just before a newline that ends it.\<close>

definition at_end :: "pos \<Rightarrow> bool" where
  "at_end p \<longleftrightarrow> snd p = [] \<or> snd p = [CHR 0x0A]"

text \<open>Greedy repetition; an optional iteration that consumes nothing ends it. The fuel counts iterations.\<close>

fun iterate :: "(pos \<Rightarrow> pos list) \<Rightarrow> nat \<Rightarrow> nat \<Rightarrow> nat option \<Rightarrow> pos \<Rightarrow> pos list" where
  "iterate m 0 lo hi p = (if lo = 0 then [p] else [])"
| "iterate m (Suc n) lo hi p =
     (if hi = Some 0 then []
      else concat (map (\<lambda>q. if lo = 0 \<and> snd q = snd p then [] else iterate m n (lo - 1) (map_option (\<lambda>h. h - 1) hi) q) (m p)))
     @ (if lo = 0 then [p] else [])"

primrec matches :: "rx \<Rightarrow> pos \<Rightarrow> pos list" where
  "matches Eps p = [p]"
| "matches (Cls c) p = (case snd p of [] \<Rightarrow> [] | x # xs \<Rightarrow> if c x then [(Some x, xs)] else [])"
| "matches (Sq r s) p = concat (map (matches s) (matches r p))"
| "matches (Or r s) p = matches r p @ matches s p"
| "matches (Rep lo hi r) p = iterate (matches r) (lo + length (snd p)) lo hi p"
| "matches WordB p = (if word_boundary p then [p] else [])"
| "matches AtEnd p = (if at_end p then [p] else [])"

primrec search_at :: "rx \<Rightarrow> char option \<Rightarrow> string \<Rightarrow> bool" where
  "search_at r prev [] \<longleftrightarrow> matches r (prev, []) \<noteq> []"
| "search_at r prev (x # xs) \<longleftrightarrow> matches r (prev, x # xs) \<noteq> [] \<or> search_at r (Some x) xs"

definition search :: "rx \<Rightarrow> string \<Rightarrow> bool" where
  "search r s \<longleftrightarrow> search_at r None s"

text \<open>
  \<open>pattern.sub(f, s)\<close> for a pattern that matches no empty text; \<open>f\<close> gets the start of the match and the matched text.
\<close>

function sub_at :: "rx \<Rightarrow> (nat \<Rightarrow> string \<Rightarrow> string) \<Rightarrow> nat \<Rightarrow> char option \<Rightarrow> string \<Rightarrow> string" where
  "sub_at r f i prev s =
     (case s of [] \<Rightarrow> []
      | x # xs \<Rightarrow>
         (case matches r (prev, s) of
            (prev', rest) # _ \<Rightarrow>
              if length rest < length s
              then f i (take (length s - length rest) s) @ sub_at r f (i + (length s - length rest)) prev' rest
              else x # sub_at r f (Suc i) (Some x) xs
          | [] \<Rightarrow> x # sub_at r f (Suc i) (Some x) xs))"
  by pat_completeness auto
termination
  by (relation "measure (\<lambda>(r, f, i, prev, s). length s)") auto

declare sub_at.simps [simp del]

definition sub_text :: "rx \<Rightarrow> string \<Rightarrow> string \<Rightarrow> string" where
  "sub_text r new s = sub_at r (\<lambda>i m. new) 0 None s"

text \<open>Building blocks: literals, case-insensitive literals, choices, optional parts.\<close>

definition lit :: "string \<Rightarrow> rx" where
  "lit w = foldr Sq (map (\<lambda>c. Cls (\<lambda>x. x = c)) w) Eps"

definition ilit :: "string \<Rightarrow> rx" where
  "ilit w = foldr Sq (map (\<lambda>c. Cls (\<lambda>x. char_lower x = char_lower c)) w) Eps"

definition sq :: "rx list \<Rightarrow> rx" where
  "sq rs = foldr Sq rs Eps"

fun one_of :: "rx list \<Rightarrow> rx" where
  "one_of [] = Cls (\<lambda>_. False)"
| "one_of [r] = r"
| "one_of (r # rs) = Or r (one_of rs)"

definition opt :: "rx \<Rightarrow> rx" where
  "opt r = Rep 0 (Some 1) r"

definition star :: "rx \<Rightarrow> rx" where
  "star r = Rep 0 None r"

definition plus :: "rx \<Rightarrow> rx" where
  "plus r = Rep 1 None r"

definition chars :: "string \<Rightarrow> rx" where
  "chars w = Cls (\<lambda>c. c \<in> set w)"

definition spaces :: rx where
  "spaces = star (Cls is_space)"

section \<open>What a match consumes\<close>

text \<open>Every match ends at a later position of the same text.\<close>

definition ends_ok :: "pos \<Rightarrow> pos \<Rightarrow> bool" where
  "ends_ok p q \<longleftrightarrow> (\<exists>w. snd p = w @ snd q \<and> fst q = (if w = [] then fst p else Some (last w)))"

lemma ends_ok_refl [simp]: "ends_ok p p"
  by (simp add: ends_ok_def)

lemma ends_ok_trans: "ends_ok p q \<Longrightarrow> ends_ok q r \<Longrightarrow> ends_ok p r"
  unfolding ends_ok_def by (metis append.assoc append_Nil2 append_is_Nil_conv last_appendR append_self_conv2)

lemma iterate_ends_ok:
  assumes "\<And>p q. q \<in> set (m p) \<Longrightarrow> ends_ok p q"
  shows "q \<in> set (iterate m n lo hi p) \<Longrightarrow> ends_ok p q"
proof (induction n arbitrary: lo hi p)
  case 0
  then show ?case by (auto split: if_splits)
next
  case (Suc n)
  then show ?case by (auto split: if_splits dest!: Suc.IH intro: ends_ok_trans [OF assms])
qed

lemma matches_ends_ok: "q \<in> set (matches r p) \<Longrightarrow> ends_ok p q"
proof (induction r arbitrary: p q)
  case (Cls c)
  then obtain x where "snd p = x # snd q" "fst q = Some x" by (cases "snd p") (auto split: if_splits)
  then show ?case by (auto simp: ends_ok_def intro: exI [of _ "[x]"])
next
  case (Sq r s)
  then obtain x where "x \<in> set (matches r p)" "q \<in> set (matches s x)" by auto
  then show ?case using Sq.IH ends_ok_trans by blast
next
  case (Rep lo hi r)
  then show ?case using iterate_ends_ok [OF Rep.IH] by simp
qed (auto split: if_splits)

section \<open>Finding a match\<close>

lemma search_at_append: "search_at r (if w = [] then prev else Some (last w)) s \<Longrightarrow> search_at r prev (w @ s)"
  by (induction w arbitrary: prev) (auto split: if_splits)

text \<open>A search succeeds exactly when the pattern matches from some position of the text.\<close>

lemma search_at_iff:
  "search_at r prev s \<longleftrightarrow> (\<exists>w t. s = w @ t \<and> matches r (if w = [] then prev else Some (last w), t) \<noteq> [])"
proof
  assume "search_at r prev s"
  then show "\<exists>w t. s = w @ t \<and> matches r (if w = [] then prev else Some (last w), t) \<noteq> []"
  proof (induction s arbitrary: prev)
    case Nil
    then show ?case by simp
  next
    case (Cons x xs)
    show ?case
    proof (cases "matches r (prev, x # xs) = []")
      case True
      then obtain w t where "xs = w @ t" "matches r (if w = [] then Some x else Some (last w), t) \<noteq> []"
        using Cons by force
      then have "x # xs = (x # w) @ t" "matches r (if x # w = [] then prev else Some (last (x # w)), t) \<noteq> []" by auto
      then show ?thesis by blast
    next
      case False
      then show ?thesis by (metis append_Nil)
    qed
  qed
next
  assume "\<exists>w t. s = w @ t \<and> matches r (if w = [] then prev else Some (last w), t) \<noteq> []"
  then obtain w t where "s = w @ t" "matches r (if w = [] then prev else Some (last w), t) \<noteq> []" by blast
  then show "search_at r prev s" using search_at_append [of r w prev t] by (cases t) auto
qed

lemma matches_lit [simp]: "matches (lit w) (prev, w @ t) = [(if w = [] then prev else Some (last w), t)]"
  by (induction w arbitrary: prev) (auto simp: lit_def)

text \<open>A counted set of characters matches any run of them that is long enough.\<close>

lemma iterate_exact:
  assumes "length w = k" "\<forall>c \<in> set w. P c" "k \<le> n"
  shows "iterate (matches (Cls P)) n k (Some k) (prev, w @ t) = [(if w = [] then prev else Some (last w), t)]"
  using assms
proof (induction w arbitrary: prev k n)
  case Nil
  then show ?case by (cases n) auto
next
  case (Cons c w)
  then obtain k' n' where "k = Suc k'" "n = Suc n'" by (cases k; cases n) auto
  then show ?case using Cons by simp
qed

lemma matches_exact:
  "length w = k \<Longrightarrow> \<forall>c \<in> set w. P c \<Longrightarrow>
   matches (Rep k (Some k) (Cls P)) (prev, w @ t) = [(if w = [] then prev else Some (last w), t)]"
  by (simp add: iterate_exact)

end
