(* ===== verification/Secret_Guard.thy ===== *)
theory Secret_Guard
  imports Regex
begin

text \<open>
  Secret scanning (\<open>tools/secret_guard.py\<close>): the patterns, the scan of a text and of a diff, and redaction.

  The lemmas show when a line is reported, that scanning a text is scanning its lines, and where redaction leaves a secret behind.
\<close>

record secret_finding =
  finding_type :: string
  line_number :: int
  file_path :: "string option"
  redacted_preview :: string
  remediation :: string

definition alnum :: "char \<Rightarrow> bool" where
  "alnum c \<longleftrightarrow> is_alnum c"

definition alnum_or :: "string \<Rightarrow> char \<Rightarrow> bool" where
  "alnum_or extra c \<longleftrightarrow> is_alnum c \<or> c \<in> set extra"

definition quotes :: string where
  "quotes = [CHR 0x27, CHR 0x22]"

definition assign_op :: rx where
  "assign_op = sq [spaces, chars ''=:'', spaces]"

definition upper_or_digit :: "char \<Rightarrow> bool" where
  "upper_or_digit c \<longleftrightarrow> is_digit c \<or> is_upper c"

definition SECRET_PATTERNS :: "(string \<times> rx \<times> string) list" where
  "SECRET_PATTERNS =
    [(''OpenAI API Key'', sq [lit ''sk-'', Rep 20 None (Cls alnum)],
        ''Use os.environ['' @ [CHR 0x27] @ ''OPENAI_API_KEY'' @ [CHR 0x27] @ ''] instead.''),
     (''Anthropic API Key'', sq [lit ''sk-ant-'', Rep 20 None (Cls (alnum_or ''-''))],
        ''Use os.environ['' @ [CHR 0x27] @ ''ANTHROPIC_API_KEY'' @ [CHR 0x27] @ ''] instead.''),
     (''GitHub Token'', sq [lit ''gh'', chars ''pousr'', lit ''_'', Rep 36 None (Cls (alnum_or ''_''))],
        ''Use os.environ['' @ [CHR 0x27] @ ''GITHUB_TOKEN'' @ [CHR 0x27] @ ''] instead.''),
     (''GitHub Personal Token'', sq [lit ''github_pat_'', Rep 22 None (Cls (alnum_or ''_''))],
        ''Use os.environ['' @ [CHR 0x27] @ ''GITHUB_TOKEN'' @ [CHR 0x27] @ ''] instead.''),
     (''AWS Access Key ID'', Sq (lit ''AKIA'') (Rep 16 (Some 16) (Cls upper_or_digit)),
        ''Use os.environ['' @ [CHR 0x27] @ ''AWS_ACCESS_KEY_ID'' @ [CHR 0x27] @ ''] instead.''),
     (''AWS Secret Key'', sq [Or (ilit ''aws_secret_access_key'') (ilit ''aws_secret''), assign_op, opt (chars quotes),
          Rep 40 (Some 40) (Cls (alnum_or ''/+=''))],
        ''Use os.environ['' @ [CHR 0x27] @ ''AWS_SECRET_ACCESS_KEY'' @ [CHR 0x27] @ ''] instead.''),
     (''Google API Key'', sq [lit ''AIza'', Rep 35 (Some 35) (Cls (alnum_or ''-_''))],
        ''Use os.environ['' @ [CHR 0x27] @ ''GOOGLE_API_KEY'' @ [CHR 0x27] @ ''] instead.''),
     (''Slack Token'', sq [lit ''xox'', chars ''baprs'', lit ''-'', Rep 10 (Some 13) (Cls is_digit), lit ''-'',
          Rep 10 (Some 13) (Cls is_digit), lit ''-'', Rep 24 None (Cls alnum)],
        ''Store Slack tokens in environment variables.''),
     (''Private Key Block'', sq [lit ''-----BEGIN '', opt (one_of [lit ''RSA '', lit ''EC '', lit ''DSA '']), lit ''PRIVATE KEY-----''],
        ''Never commit private keys. Use a secret manager.''),
     (''JWT Token'', sq [lit ''eyJ'', Rep 10 None (Cls (alnum_or ''_-'')), lit ''.'', Rep 10 None (Cls (alnum_or ''_-'')), lit ''.'',
          Rep 10 None (Cls (alnum_or ''_-''))],
        ''Do not hardcode JWT tokens.''),
     (''Generic Bearer Token'', sq [ilit ''bearer'', plus (Cls is_space), Rep 20 None (Cls (alnum_or ''-._~+/''))],
        ''Store bearer tokens in environment variables.''),
     (''Connection String Password'', sq [one_of [ilit ''mongodb'', ilit ''postgres'', ilit ''mysql'', ilit ''redis''], lit ''://'',
          plus (Cls (\<lambda>c. c \<noteq> CHR '':'')), lit '':'', Rep 8 None (Cls (\<lambda>c. c \<noteq> CHR ''@'' \<and> \<not> is_space c)), lit ''@''],
        ''Use environment variables for connection strings.'')]"

definition SUSPICIOUS_ASSIGNMENT_PATTERN :: rx where
  "SUSPICIOUS_ASSIGNMENT_PATTERN =
     sq [one_of (map ilit [''api_key'', ''apikey'', ''secret'', ''token'', ''password'', ''passwd'', ''pwd'', ''credential'',
           ''private_key'', ''access_key'', ''auth_token'', ''bearer'']),
         assign_op, chars quotes, Rep 8 None (Cls (\<lambda>c. c \<notin> set quotes)), chars quotes]"

definition REDACTED :: string where
  "REDACTED = ''[REDACTED]''"

definition redact_line :: "string \<Rightarrow> string" where
  "redact_line line =
     (let s = str_strip line;
          s' = (if length s > 80 then take 40 s @ ''...[REDACTED]...'' @ drop (length s - 10) s else s) in
      foldl (\<lambda>acc (ty, pat, fix_text). sub_text pat REDACTED acc) s' SECRET_PATTERNS)"

definition line_finding :: "string option \<Rightarrow> int \<Rightarrow> string \<Rightarrow> string \<Rightarrow> string \<Rightarrow> secret_finding" where
  "line_finding path i line ty advice = \<lparr>finding_type = ty, line_number = i, file_path = path,
     redacted_preview = redact_line line, remediation = advice\<rparr>"

definition scan_line :: "string option \<Rightarrow> secret_finding list \<Rightarrow> nat \<times> string \<Rightarrow> secret_finding list" where
  "scan_line path findings il =
     (let i = int (fst il) + 1; line = snd il;
          hits = map (\<lambda>(ty, pat, advice). line_finding path i line ty advice)
                   (filter (\<lambda>(ty, pat, advice). search pat line) SECRET_PATTERNS);
          found = findings @ hits in
      if search SUSPICIOUS_ASSIGNMENT_PATTERN line \<and> \<not> list_ex (\<lambda>f. line_number f = i) found
      then found @ [line_finding path i line ''Suspicious Secret Assignment''
                      ''Use environment variables instead of hardcoded secrets.'']
      else found)"

definition scan_text :: "string \<Rightarrow> string option \<Rightarrow> secret_finding list" where
  "scan_text text path = foldl (scan_line path) [] (enumerate 0 (split_on (CHR 0x0A) text))"

definition has_secrets :: "string \<Rightarrow> bool" where
  "has_secrets text \<longleftrightarrow> scan_text text None \<noteq> []"

text \<open>\<open>re.search(r"\+(\d+)", line)\<close>: the number after the first plus sign that a digit follows.\<close>

fun plus_number :: "string \<Rightarrow> int option" where
  "plus_number [] = None"
| "plus_number (c # cs) =
     (if c = CHR ''+'' \<and> takeWhile is_digit cs \<noteq> []
      then Some (foldl (\<lambda>n d. n * 10 + (of_char d - 48)) 0 (takeWhile is_digit cs))
      else plus_number cs)"

fun scan_diff_lines :: "string list \<Rightarrow> string option \<Rightarrow> int \<Rightarrow> secret_finding list \<Rightarrow> secret_finding list" where
  "scan_diff_lines [] current i findings = findings"
| "scan_diff_lines (line # rest) current i findings =
     (if prefix ''+++ b/'' line then scan_diff_lines rest (Some (drop 6 line)) 0 findings
      else if prefix ''@@'' line
        then scan_diff_lines rest current (case plus_number line of Some n \<Rightarrow> n - 1 | None \<Rightarrow> i) findings
      else if prefix ''+'' line \<and> \<not> prefix ''+++'' line
        then scan_diff_lines rest current (i + 1)
               (findings @ map (\<lambda>f. f\<lparr>line_number := i + 1\<rparr>) (scan_text (drop 1 line) current))
      else if \<not> prefix ''-'' line then scan_diff_lines rest current (i + 1) findings
      else scan_diff_lines rest current i findings)"

definition scan_diff :: "string \<Rightarrow> secret_finding list" where
  "scan_diff diff_text = scan_diff_lines (split_on (CHR 0x0A) diff_text) None 0 []"

text \<open>The replacement the source computes: the match cut at the position of the match in the text, then the mark.\<close>

definition redact_secrets :: "string \<Rightarrow> string" where
  "redact_secrets text =
     (let result = foldl (\<lambda>acc (ty, pat, advice). sub_text pat REDACTED acc) text SECRET_PATTERNS in
      sub_at SUSPICIOUS_ASSIGNMENT_PATTERN (\<lambda>start m. if start > 0 then take start m @ REDACTED else REDACTED) 0 None result)"

section \<open>What a scan reports\<close>

definition reports :: "string \<Rightarrow> bool" where
  "reports line \<longleftrightarrow> (\<exists>(ty, pat, advice) \<in> set SECRET_PATTERNS. search pat line) \<or> search SUSPICIOUS_ASSIGNMENT_PATTERN line"

lemma scan_line_extends: "\<exists>new. scan_line path found il = found @ new"
  by (auto simp: scan_line_def Let_def)

lemma scan_line_numbers:
  "f \<in> set (scan_line path found il) \<Longrightarrow> f \<in> set found \<or> line_number f = int (fst il) + 1 \<and> reports (snd il)"
  by (auto simp: scan_line_def Let_def reports_def line_finding_def split: if_splits)

lemma scan_line_none:
  assumes "\<forall>f \<in> set found. line_number f \<noteq> int (fst il) + 1"
  shows "scan_line path found il = found \<longleftrightarrow> \<not> reports (snd il)"
proof (cases "\<exists>(ty, pat, advice) \<in> set SECRET_PATTERNS. search pat (snd il)")
  case True
  then have "filter (\<lambda>(ty, pat, advice). search pat (snd il)) SECRET_PATTERNS \<noteq> []" by (auto simp: filter_empty_conv)
  then show ?thesis using True by (auto simp: scan_line_def Let_def reports_def)
next
  case False
  then have "filter (\<lambda>(ty, pat, advice). search pat (snd il)) SECRET_PATTERNS = []" by (auto simp: filter_empty_conv)
  then show ?thesis using False assms by (auto simp: scan_line_def Let_def reports_def list_ex_iff)
qed

lemma scan_lines_extend: "length found \<le> length (foldl (scan_line path) found ils)"
proof (induction ils arbitrary: found)
  case (Cons il ils)
  then show ?case using scan_line_extends [of path found il] by (metis foldl_Cons length_append le_add1 order_trans)
qed simp

lemma scan_lines_none:
  "\<forall>f \<in> set found. line_number f \<le> int n \<Longrightarrow>
   foldl (scan_line path) found (enumerate n lines) = found \<longleftrightarrow> (\<forall>line \<in> set lines. \<not> reports line)"
proof (induction lines arbitrary: found n)
  case (Cons line lines)
  let ?one = "scan_line path found (n, line)"
  have le: "\<forall>f \<in> set ?one. line_number f \<le> int (Suc n)"
    using scan_line_numbers [of _ path found "(n, line)"] Cons.prems by force
  have none: "?one = found \<longleftrightarrow> \<not> reports line" using scan_line_none [of found "(n, line)" path] Cons.prems by force
  show ?case
  proof (cases "reports line")
    case True
    obtain x where x: "?one = found @ x" using scan_line_extends by blast
    then have "length found < length ?one" using none True by auto
    then have "foldl (scan_line path) ?one (enumerate (Suc n) lines) \<noteq> found"
      using scan_lines_extend [of ?one path "enumerate (Suc n) lines"] by auto
    then show ?thesis using True by simp
  next
    case False
    then show ?thesis using none Cons.IH [OF le] by simp
  qed
qed simp

text \<open>A text has secrets exactly when one of its lines is reported.\<close>

lemma scan_text_none: "scan_text text path = [] \<longleftrightarrow> (\<forall>line \<in> set (split_on (CHR 0x0A) text). \<not> reports line)"
  using scan_lines_none [of "[]" 0 path "split_on (CHR 0x0A) text"] by (simp add: scan_text_def)

text \<open>A word without line breaks lies on one line of any text that contains it.\<close>

lemma split_on_sublist: "c \<notin> set w \<Longrightarrow> \<exists>line \<in> set (split_on c (pre @ w @ post)). sublist w line"
proof (induction pre)
  case Nil
  obtain l ls where "split_on c post = l # ls" by (metis neq_Nil_conv split_on_nonempty)
  then have "split_on c (w @ post) = (w @ l) # ls" using Nil by (induction w) auto
  then show ?case by auto
next
  case (Cons x pre)
  then obtain line where line: "line \<in> set (split_on c (pre @ w @ post))" "sublist w line" by auto
  obtain l ls where ls: "split_on c (pre @ w @ post) = l # ls" by (metis neq_Nil_conv split_on_nonempty)
  show ?case
  proof (cases "x \<noteq> c \<and> line = l")
    case True
    then show ?thesis using ls line by (auto simp: sublist_Cons_right)
  next
    case False
    then show ?thesis using ls line by auto
  qed
qed

lemma search_sublist:
  assumes "\<And>prev post. matches r (prev, w @ post) \<noteq> []" "sublist w line"
  shows "search r line"
proof -
  obtain pre post where "line = pre @ w @ post" using assms(2) by (auto simp: sublist_def)
  moreover have "matches r (if pre = [] then None else Some (last pre), w @ post) \<noteq> []" by (rule assms(1))
  ultimately show ?thesis unfolding search_def search_at_iff by blast
qed

text \<open>
  Completeness of the scan for access keys: a text that contains \<open>AKIA\<close> followed by sixteen capital letters or
  digits, wherever it stands, has secrets.
\<close>

theorem access_key_reported:
  assumes "length key = 16" "\<forall>c \<in> set key. upper_or_digit c"
  shows "has_secrets (pre @ ''AKIA'' @ key @ post)"
proof -
  let ?w = "''AKIA'' @ key"
  let ?pat = "Sq (lit ''AKIA'') (Rep 16 (Some 16) (Cls upper_or_digit))"
  have "CHR 0x0A \<notin> set ?w" using assms(2) by (auto simp: upper_or_digit_def is_digit_def is_upper_def less_eq_char_def)
  from split_on_sublist [OF this] obtain line
    where line: "line \<in> set (split_on (CHR 0x0A) (pre @ ?w @ post))" "sublist ?w line" ..
  have "search ?pat line"
  proof (rule search_sublist [OF _ line(2)])
    fix prev post
    have "matches (lit ''AKIA'') (prev, ''AKIA'' @ key @ post) = [(Some (CHR ''A''), key @ post)]"
      using matches_lit [of "''AKIA''" prev "key @ post"] by simp
    then show "matches ?pat (prev, ?w @ post) \<noteq> []"
      using matches_exact [OF assms, of "Some (CHR ''A'')" post] by (simp del: matches.simps(5))
  qed
  then have "reports line" by (auto simp: reports_def SECRET_PATTERNS_def)
  then show ?thesis using line(1) by (auto simp: has_secrets_def scan_text_none)
qed

theorem access_key_reported_witness:
  "has_secrets (''key: '' @ ''AKIA'' @ ''0123456789ABCDEF'' @ [CHR 0x0A] @ ''next'')"
  using access_key_reported [of "''0123456789ABCDEF''" "''key: ''" "[CHR 0x0A] @ ''next''"]
  by (simp add: upper_or_digit_def is_digit_def is_upper_def less_eq_char_def)

text \<open>
  Redaction leaves a secret that stands late in its text: the replacement keeps as many characters of the match as the
  match is away from the start of the text, so here the password stays and the mark is appended to it.
\<close>

definition late_password :: string where
  "late_password = ''the settings of the server: pwd='' @ [CHR 0x22] @ ''hunter22'' @ [CHR 0x22]"

theorem redaction_leaves_late_password:
  "redact_secrets late_password = late_password @ REDACTED"
  by code_simp

end
