(* ===== verification/Patch_Engine.thy ===== *)
theory Patch_Engine
  imports Edits Paths Secret_Guard
begin

text \<open>
  The patch engine (\<open>patching/engine.py\<close>): every change is computed in memory; nothing is written unless all
  of them apply, the preconditions hold and no secret is added; a failed write is rolled back from a snapshot.

  The file system maps a path to a file with its bytes or a directory. Symbolic links, the forbidden directories, unreadable
  files, the hash and the standard library's \<open>unified_diff\<close> are fields of the environment. What the disk does with the
  \<open>k\<close>-th write is \<open>io k\<close>: it succeeds, fails at once, or is cut after some bytes.

  A text is modelled as its UTF-8 bytes: decoding checks the encoding and changes nothing else.

  The lemmas show that a patch that does not succeed leaves every file as it was, what a successful one writes, that
  its preconditions held and that it adds no secret; and the one case in which rolling back loses a file.
\<close>

section \<open>Files\<close>

datatype node = FileNode string | DirNode

type_synonym filesys = "string list \<Rightarrow> node option"

datatype io_outcome = Completed | Refused | CutAfter nat

definition file_at :: "filesys \<Rightarrow> string list \<Rightarrow> string option" where
  "file_at fs p = (case fs p of Some (FileNode b) \<Rightarrow> Some b | _ \<Rightarrow> None)"

text \<open>\<open>mkdir(parents=True, exist_ok=True)\<close> for the parent of \<open>p\<close>; it raises where a parent is a file.\<close>

definition parents :: "string list \<Rightarrow> string list list" where
  "parents p = butlast (prefixes p)"

definition mkdirs :: "filesys \<Rightarrow> string list \<Rightarrow> filesys option" where
  "mkdirs fs p =
     (if list_ex (\<lambda>q. file_at fs q \<noteq> None) (parents p) then None
      else Some (\<lambda>q. if q \<in> set (parents p) \<and> fs q = None then Some DirNode else fs q))"

text \<open>\<open>target.unlink(missing_ok=True)\<close>.\<close>

definition unlink :: "io_outcome \<Rightarrow> filesys \<Rightarrow> string list \<Rightarrow> bool \<times> filesys" where
  "unlink out fs p =
     (if list_ex (\<lambda>q. file_at fs q \<noteq> None) (parents p) then (False, fs)
      else (case fs p of None \<Rightarrow> (True, fs)
            | Some DirNode \<Rightarrow> (False, fs)
            | Some (FileNode b) \<Rightarrow> if out = Completed then (True, fs(p := None)) else (False, fs)))"

text \<open>Write to a temporary file beside the target, then rename: the target has the old or the new bytes.\<close>

definition replace_file :: "io_outcome \<Rightarrow> filesys \<Rightarrow> string list \<Rightarrow> string \<Rightarrow> bool \<times> filesys" where
  "replace_file out fs p data =
     (case mkdirs fs p of None \<Rightarrow> (False, fs)
      | Some fs' \<Rightarrow> if out = Completed \<and> fs' p \<noteq> Some DirNode then (True, fs'(p \<mapsto> FileNode data)) else (False, fs'))"

text \<open>\<open>write_bytes\<close> truncates the target and writes in place: a cut write leaves the first bytes.\<close>

definition overwrite_file :: "io_outcome \<Rightarrow> filesys \<Rightarrow> string list \<Rightarrow> string \<Rightarrow> bool \<times> filesys" where
  "overwrite_file out fs p data =
     (case mkdirs fs p of None \<Rightarrow> (False, fs)
      | Some fs' \<Rightarrow>
          if fs' p = Some DirNode then (False, fs')
          else (case out of Completed \<Rightarrow> (True, fs'(p \<mapsto> FileNode data))
                | Refused \<Rightarrow> (False, fs')
                | CutAfter n \<Rightarrow> (False, fs'(p \<mapsto> FileNode (take n data)))))"

section \<open>Reading\<close>

record patch_env =
  pe_follow :: "string list \<Rightarrow> string list"
  pe_forbidden :: "string list list"
  pe_repo :: "string list"
  pe_readable :: "string list \<Rightarrow> bool"
  pe_sha256 :: "string \<Rightarrow> string"
  pe_unified_diff :: "string list \<Rightarrow> string list \<Rightarrow> string \<Rightarrow> string \<Rightarrow> string list"

datatype engine_error =
    UnsafePath path_error
  | ReadError string
  | NotRegularFile string
  | TooLarge string nat
  | LooksBinary string
  | NotUtf8 string
  | CannotDelete string
  | ExpectsNewFile string
  | HunkError patch_error
  | CannotEdit string
  | EditFailed edit_error
  | AlreadyExists string
  | PreconditionFailed string
  | SecretGuardBlocked
  | WriteFailedRolledBack

record file_result =
  fr_path :: string
  fr_action :: string
  fr_added :: nat
  fr_removed :: nat

record patch_result =
  pr_success :: bool
  pr_files :: "file_result list"
  pr_errors :: "engine_error list"
  pr_findings :: "secret_finding list"
  pr_diff :: string
  pr_snapshot :: "string option dict"

definition files_changed :: "patch_result \<Rightarrow> string list" where
  "files_changed r = map fr_path (pr_files r)"

definition sha256_bytes :: "patch_env \<Rightarrow> string option \<Rightarrow> string option" where
  "sha256_bytes env = map_option (pe_sha256 env)"

definition MAX_FILE_BYTES :: nat where
  "MAX_FILE_BYTES = 2000000"

text \<open>Strict UTF-8: the ranges of the bytes that must follow a leading byte.\<close>

definition utf8_follow :: "nat \<Rightarrow> (nat \<times> nat) list option" where
  "utf8_follow b =
     (if b < 0x80 then Some []
      else if 0xC2 \<le> b \<and> b \<le> 0xDF then Some [(0x80, 0xBF)]
      else if b = 0xE0 then Some [(0xA0, 0xBF), (0x80, 0xBF)]
      else if b = 0xED then Some [(0x80, 0x9F), (0x80, 0xBF)]
      else if 0xE1 \<le> b \<and> b \<le> 0xEF then Some [(0x80, 0xBF), (0x80, 0xBF)]
      else if b = 0xF0 then Some [(0x90, 0xBF), (0x80, 0xBF), (0x80, 0xBF)]
      else if 0xF1 \<le> b \<and> b \<le> 0xF3 then Some [(0x80, 0xBF), (0x80, 0xBF), (0x80, 0xBF)]
      else if b = 0xF4 then Some [(0x80, 0x8F), (0x80, 0xBF), (0x80, 0xBF)]
      else None)"

fun utf8_from :: "(nat \<times> nat) list \<Rightarrow> string \<Rightarrow> bool" where
  "utf8_from due [] \<longleftrightarrow> due = []"
| "utf8_from ((lo, hi) # due) (c # cs) \<longleftrightarrow> lo \<le> of_char c \<and> of_char c \<le> hi \<and> utf8_from due cs"
| "utf8_from [] (c # cs) \<longleftrightarrow> (case utf8_follow (of_char c) of Some due \<Rightarrow> utf8_from due cs | None \<Rightarrow> False)"

definition decode_bytes :: "string \<Rightarrow> string \<Rightarrow> engine_error + (string \<times> string)" where
  "decode_bytes raw path =
     (if length raw > MAX_FILE_BYTES then Inl (TooLarge path (length raw))
      else if CHR 0x00 \<in> set (take 8192 raw) then Inl (LooksBinary path)
      else if \<not> utf8_from [] raw then Inl (NotUtf8 path)
      else Inr (str_replace CRLF [newline] raw, if sublist CRLF raw then CRLF else [newline]))"

text \<open>The same with the sizes compared as integers, which evaluates fast.\<close>

lemma decode_bytes_code [code]:
  "decode_bytes raw path =
     (if int (length raw) > 2000000 then Inl (TooLarge path (length raw))
      else if CHR 0x00 \<in> set (if int (length raw) \<le> 8192 then raw else take 8192 raw) then Inl (LooksBinary path)
      else if \<not> utf8_from [] raw then Inl (NotUtf8 path)
      else Inr (str_replace CRLF [newline] raw, if sublist CRLF raw then CRLF else [newline]))"
proof -
  have "int (length raw) > 2000000 \<longleftrightarrow> length raw > MAX_FILE_BYTES" by (simp add: MAX_FILE_BYTES_def)
  moreover have "(if int (length raw) \<le> 8192 then raw else take 8192 raw) = take 8192 raw" by simp
  ultimately show ?thesis by (simp only: decode_bytes_def)
qed

definition added_text :: "string \<Rightarrow> string \<Rightarrow> string" where
  "added_text old new = join [newline] (filter (\<lambda>l. l \<notin> set (text_lines old)) (text_lines new))"

record patch_work =
  originals :: "string option dict"
  working :: "string option dict"
  newlines :: "string dict"

definition locate :: "patch_env \<Rightarrow> string \<Rightarrow> path_error + string list" where
  "locate env rel = resolve_in_repo (pe_follow env) (pe_forbidden env) (pe_repo env) rel True"

definition load_file :: "patch_env \<Rightarrow> filesys \<Rightarrow> string \<Rightarrow> patch_work \<Rightarrow> engine_error + patch_work" where
  "load_file env fs rel w =
     (if has_key (working w) rel then Inr w
      else (case locate env rel of Inl e \<Rightarrow> Inl (UnsafePath e)
        | Inr target \<Rightarrow>
           (case fs target of
              None \<Rightarrow> Inr \<lparr>originals = AList.update rel None (originals w), working = AList.update rel None (working w),
                        newlines = AList.update rel [newline] (newlines w)\<rparr>
            | Some DirNode \<Rightarrow> Inl (NotRegularFile rel)
            | Some (FileNode raw) \<Rightarrow>
                if \<not> pe_readable env target then Inl (ReadError rel)
                else (case decode_bytes raw rel of Inl e \<Rightarrow> Inl e
                  | Inr (text, nl) \<Rightarrow> Inr \<lparr>originals = AList.update rel (Some raw) (originals w),
                      working = AList.update rel (Some text) (working w), newlines = AList.update rel nl (newlines w)\<rparr>))))"

section \<open>Computing the changes\<close>

fun change_path :: "change \<Rightarrow> string" where
  "change_path (SearchReplace e) = sr_path e"
| "change_path (CreateFile p c) = p"
| "change_path (DeleteFile p) = p"
| "change_path (WriteFile p c) = p"
| "change_path (PatchFile p) = fp_path p"

definition patch_text :: "file_patch \<Rightarrow> string option \<Rightarrow> engine_error + string option" where
  "patch_text p text =
     (if fp_is_delete p then (if text = None then Inl (CannotDelete (fp_path p)) else Inr None)
      else if fp_is_new p \<and> text \<noteq> None \<and> text \<noteq> Some [] then Inl (ExpectsNewFile (fp_path p))
      else
        let lines = (case text of None \<Rightarrow> [] | Some t \<Rightarrow> text_lines t);
            had_trailing = (case text of None \<Rightarrow> False | Some t \<Rightarrow> suffix [newline] t);
            lines' = (if had_trailing \<and> lines \<noteq> [] \<and> last lines = [] then butlast lines else lines) in
        (case apply_hunks lines' (hunks p) of Inl e \<Rightarrow> Inl (HunkError e)
         | Inr new \<Rightarrow>
             let no_nl = list_ex no_newline_at_eof (hunks p) in
             Inr (Some (join [newline] new @
               (if new \<noteq> [] \<and> (had_trailing \<or> text = None) \<and> \<not> no_nl then [newline] else [])))))"

fun new_text :: "change \<Rightarrow> string option \<Rightarrow> engine_error + string option" where
  "new_text (PatchFile p) text = patch_text p text"
| "new_text (SearchReplace e) text =
     (case text of None \<Rightarrow> Inl (CannotEdit (sr_path e))
      | Some t \<Rightarrow> (case apply_search_replace t e of Inl er \<Rightarrow> Inl (EditFailed er) | Inr t' \<Rightarrow> Inr (Some t')))"
| "new_text (CreateFile p c) text = (if text \<notin> {None, Some []} then Inl (AlreadyExists p) else Inr (Some c))"
| "new_text (WriteFile p c) text = Inr (Some c)"
| "new_text (DeleteFile p) text = (if text = None then Inl (CannotDelete p) else Inr None)"

definition apply_change :: "patch_env \<Rightarrow> filesys \<Rightarrow> change \<Rightarrow> patch_work \<Rightarrow> engine_error + patch_work" where
  "apply_change env fs c w =
     bind_r (load_file env fs (change_path c) w) (\<lambda>w'.
       bind_r (new_text c (dget (working w') (change_path c) None)) (\<lambda>t.
         Inr (w'\<lparr>working := AList.update (change_path c) t (working w')\<rparr>)))"

fun compute :: "patch_env \<Rightarrow> filesys \<Rightarrow> change list \<Rightarrow> patch_work \<Rightarrow> engine_error + patch_work" where
  "compute env fs [] w = Inr w"
| "compute env fs (c # cs) w = bind_r (apply_change env fs c w) (compute env fs cs)"

definition nothing_loaded :: patch_work where
  "nothing_loaded = \<lparr>originals = [], working = [], newlines = []\<rparr>"

definition failed_preconditions :: "patch_env \<Rightarrow> patch_work \<Rightarrow> string option dict \<Rightarrow> engine_error list" where
  "failed_preconditions env w expected =
     map (\<lambda>(rel, h). PreconditionFailed rel)
       (filter (\<lambda>(rel, h). has_key (originals w) rel \<and> sha256_bytes env (dget (originals w) rel None) \<noteq> h) expected)"

text \<open>The original text, decoded once more; a loaded file was decoded before, so this cannot fail.\<close>

definition old_text :: "patch_work \<Rightarrow> string \<Rightarrow> string option" where
  "old_text w rel =
     (case dget (originals w) rel None of None \<Rightarrow> None
      | Some raw \<Rightarrow> (case decode_bytes raw rel of Inr (t, nl) \<Rightarrow> Some t | Inl e \<Rightarrow> None))"

definition lines_or_none :: "string option \<Rightarrow> string list" where
  "lines_or_none t = (case t of None \<Rightarrow> [] | Some s \<Rightarrow> if s = [] then [] else text_lines s)"

definition text_or_empty :: "string option \<Rightarrow> string" where
  "text_or_empty t = (case t of None \<Rightarrow> [] | Some s \<Rightarrow> s)"

definition udiff_of :: "patch_env \<Rightarrow> patch_work \<Rightarrow> string \<times> string option \<Rightarrow> string list" where
  "udiff_of env w rt =
     (let rel = fst rt; new = snd rt; old = old_text w rel in
      pe_unified_diff env (lines_or_none old) (lines_or_none new)
        (if old \<noteq> None then ''a/'' @ rel else ''/dev/null'') (if new \<noteq> None then ''b/'' @ rel else ''/dev/null''))"

definition file_result_of :: "patch_env \<Rightarrow> patch_work \<Rightarrow> string \<times> string option \<Rightarrow> file_result" where
  "file_result_of env w rt =
     (let rel = fst rt; new = snd rt; udiff = udiff_of env w rt in
      \<lparr>fr_path = rel,
       fr_action = (if old_text w rel = None then ''create'' else if new = None then ''delete'' else ''modify''),
       fr_added = length (filter (\<lambda>l. prefix ''+'' l \<and> \<not> prefix ''+++'' l) udiff),
       fr_removed = length (filter (\<lambda>l. prefix ''-'' l \<and> \<not> prefix ''---'' l) udiff)\<rparr>)"

definition findings_of :: "patch_work \<Rightarrow> string \<times> string option \<Rightarrow> secret_finding list" where
  "findings_of w rt =
     (case snd rt of None \<Rightarrow> []
      | Some new \<Rightarrow> if new = [] then [] else scan_text (added_text (text_or_empty (old_text w (fst rt))) new) (Some (fst rt)))"

definition changed_items :: "patch_work \<Rightarrow> (string \<times> string option) list" where
  "changed_items w = filter (\<lambda>(rel, new). old_text w rel \<noteq> new) (working w)"

section \<open>Writing and rolling back\<close>

definition write_rel :: "patch_env \<Rightarrow> io_outcome \<Rightarrow> filesys \<Rightarrow> string \<Rightarrow> string option \<Rightarrow> string \<Rightarrow> bool \<times> filesys" where
  "write_rel env out fs rel text nl =
     (case locate env rel of Inl e \<Rightarrow> (False, fs)
      | Inr target \<Rightarrow>
         (case text of None \<Rightarrow> unlink out fs target
          | Some t \<Rightarrow> replace_file out fs target (str_replace [newline] nl t)))"

fun write_all :: "patch_env \<Rightarrow> (nat \<Rightarrow> io_outcome) \<Rightarrow> nat \<Rightarrow> patch_work \<Rightarrow> string list \<Rightarrow> filesys \<Rightarrow> bool \<times> nat \<times> filesys" where
  "write_all env io k w [] fs = (True, k, fs)"
| "write_all env io k w (rel # rels) fs =
     (case write_rel env (io k) fs rel (dget (working w) rel None) (dget (newlines w) rel [newline]) of
        (True, fs') \<Rightarrow> write_all env io (Suc k) w rels fs'
      | (False, fs') \<Rightarrow> (False, Suc k, fs'))"

text \<open>Restoring stops at the first failure, which is raised.\<close>

fun rollback :: "patch_env \<Rightarrow> (nat \<Rightarrow> io_outcome) \<Rightarrow> nat \<Rightarrow> string option dict \<Rightarrow> filesys \<Rightarrow> bool \<times> filesys" where
  "rollback env io k [] fs = (True, fs)"
| "rollback env io k ((rel, raw) # rest) fs =
     (case locate env rel of Inl e \<Rightarrow> (False, fs)
      | Inr target \<Rightarrow>
         (case (case raw of None \<Rightarrow> unlink (io k) fs target | Some b \<Rightarrow> overwrite_file (io k) fs target b) of
            (True, fs') \<Rightarrow> rollback env io (Suc k) rest fs'
          | (False, fs') \<Rightarrow> (False, fs')))"

datatype escaped = RollbackRaised

definition failed_result :: "engine_error list \<Rightarrow> patch_result" where
  "failed_result errs = \<lparr>pr_success = False, pr_files = [], pr_errors = errs, pr_findings = [], pr_diff = [], pr_snapshot = []\<rparr>"

definition apply_changes :: "patch_env \<Rightarrow> (nat \<Rightarrow> io_outcome) \<Rightarrow> filesys \<Rightarrow> change list \<Rightarrow> string option dict \<Rightarrow> bool
    \<Rightarrow> filesys \<times> (escaped + patch_result)" where
  "apply_changes env io fs changes expected dry_run =
     (case compute env fs changes nothing_loaded of
        Inl e \<Rightarrow> (fs, Inr (failed_result [e]))
      | Inr w \<Rightarrow>
         let failed = failed_preconditions env w expected in
         if failed \<noteq> [] then (fs, Inr (failed_result failed))
         else
           let items = changed_items w;
               files = map (file_result_of env w) items;
               findings = concat (map (findings_of w) items);
               parts = map (\<lambda>rt. join [newline] (udiff_of env w rt)) items;
               result = \<lparr>pr_success = False, pr_files = files, pr_errors = [], pr_findings = findings,
                         pr_diff = join [newline] parts @ (if parts \<noteq> [] then [newline] else []), pr_snapshot = []\<rparr> in
           if findings \<noteq> [] then (fs, Inr (result\<lparr>pr_errors := [SecretGuardBlocked], pr_files := []\<rparr>))
           else if files = [] \<or> dry_run then (fs, Inr (result\<lparr>pr_success := True\<rparr>))
           else
             let snapshot = map (\<lambda>f. (fr_path f, dget (originals w) (fr_path f) None)) files;
                 result' = result\<lparr>pr_snapshot := snapshot\<rparr> in
             (case write_all env io 0 w (map fr_path files) fs of
                (True, k, fs') \<Rightarrow> (fs', Inr (result'\<lparr>pr_success := True\<rparr>))
              | (False, k, fs') \<Rightarrow>
                 (case rollback env io k snapshot fs' of
                    (True, fs'') \<Rightarrow> (fs'', Inr (result'\<lparr>pr_errors := [WriteFailedRolledBack], pr_files := []\<rparr>))
                  | (False, fs'') \<Rightarrow> (fs'', Inl RollbackRaised))))"

definition changes_from_unified_diff :: "string \<Rightarrow> change list option" where
  "changes_from_unified_diff diff =
     (case parse_unified_diff diff of [] \<Rightarrow> None | patches \<Rightarrow> Some (map PatchFile patches))"

section \<open>Files after each step\<close>

lemma mkdirs_files:
  assumes "mkdirs fs p = Some fs'"
  shows "file_at fs' = file_at fs"
proof -
  have "fs' = (\<lambda>q. if q \<in> set (parents p) \<and> fs q = None then Some DirNode else fs q)"
    using assms by (simp add: mkdirs_def split: if_splits)
  then show ?thesis by (simp add: file_at_def fun_eq_iff)
qed

lemma file_at_put: "file_at (fs(p \<mapsto> FileNode b)) = (file_at fs)(p \<mapsto> b)"
  by (auto simp: file_at_def fun_eq_iff)

lemma file_at_removed: "file_at (fs(p := None)) = (file_at fs)(p := None)"
  by (auto simp: file_at_def fun_eq_iff)

text \<open>Each of the three operations succeeds and does what it says, or fails; only the overwriting one can damage the file.\<close>

lemma unlink_files:
  "unlink out fs p = (ok, fs') \<Longrightarrow> file_at fs' = (if ok then (file_at fs)(p := None) else file_at fs)"
  by (auto simp: unlink_def file_at_removed file_at_def fun_eq_iff split: if_splits option.splits node.splits)

lemma replace_file_files:
  "replace_file out fs p data = (ok, fs') \<Longrightarrow> file_at fs' = (if ok then (file_at fs)(p \<mapsto> data) else file_at fs)"
  by (auto simp: replace_file_def file_at_put dest: mkdirs_files split: if_splits option.splits)

lemma overwrite_file_files:
  "overwrite_file out fs p data = (True, fs') \<Longrightarrow> file_at fs' = (file_at fs)(p \<mapsto> data)"
  by (auto simp: overwrite_file_def file_at_put dest: mkdirs_files split: if_splits option.splits io_outcome.splits)

text \<open>The bytes a write leaves at its target.\<close>

definition written :: "patch_work \<Rightarrow> string \<Rightarrow> string option" where
  "written w rel = map_option (str_replace [newline] (dget (newlines w) rel [newline])) (dget (working w) rel None)"

lemma write_rel_files:
  assumes "write_rel env out fs rel (dget (working w) rel None) (dget (newlines w) rel [newline]) = (ok, fs')"
  shows "if ok then \<exists>t. locate env rel = Inr t \<and> file_at fs' = (file_at fs)(t := written w rel) else file_at fs' = file_at fs"
  using assms
  by (auto simp: write_rel_def written_def split: sum.splits option.splits dest: unlink_files replace_file_files)

definition targets :: "patch_env \<Rightarrow> string list \<Rightarrow> string list set" where
  "targets env rels = {t. \<exists>rel \<in> set rels. locate env rel = Inr t}"

lemma targets_Cons: "targets env (rel # rels) = (case locate env rel of Inr t \<Rightarrow> {t} | Inl _ \<Rightarrow> {}) \<union> targets env rels"
  by (auto simp: targets_def split: sum.splits)

lemma write_all_files:
  "write_all env io k w rels fs = (ok, k', fs') \<Longrightarrow>
     (\<forall>p. file_at fs' p = file_at fs p \<or> (\<exists>rel \<in> set rels. locate env rel = Inr p \<and> file_at fs' p = written w rel)) \<and>
     (ok \<longrightarrow> (\<forall>p \<in> targets env rels. \<exists>rel \<in> set rels. locate env rel = Inr p \<and> file_at fs' p = written w rel))"
proof (induction rels arbitrary: k fs)
  case Nil
  then show ?case by (simp add: targets_def)
next
  case (Cons rel rels)
  obtain ok1 fs1 where w1: "write_rel env (io k) fs rel (dget (working w) rel None) (dget (newlines w) rel [newline]) = (ok1, fs1)"
    by fastforce
  note eff = write_rel_files [OF w1]
  show ?case
  proof (cases ok1)
    case False
    then show ?thesis using Cons.prems w1 eff by simp
  next
    case True
    then obtain t where t: "locate env rel = Inr t" "file_at fs1 = (file_at fs)(t := written w rel)" using eff by auto
    have "write_all env io (Suc k) w rels fs1 = (ok, k', fs')" using Cons.prems w1 True by simp
    note ih = Cons.IH [OF this]
    have "\<forall>p. file_at fs' p = file_at fs p \<or> (\<exists>r \<in> set (rel # rels). locate env r = Inr p \<and> file_at fs' p = written w r)"
      using ih t by (auto simp: fun_upd_def split: if_splits)
    moreover have "\<exists>r \<in> set (rel # rels). locate env r = Inr p \<and> file_at fs' p = written w r"
      if "ok" "p \<in> targets env (rel # rels)" for p
    proof (cases "p \<in> targets env rels")
      case False
      then have "p = t" using that(2) t(1) by (simp add: targets_Cons)
      moreover have "file_at fs' p = file_at fs1 p" using ih False by (auto simp: targets_def)
      ultimately show ?thesis using t by simp
    qed (use ih that(1) in auto)
    ultimately show ?thesis by blast
  qed
qed

text \<open>A rollback that runs to its end restores every file that differs only at the targets of the snapshot.\<close>

lemma rollback_restores:
  assumes "rollback env io k snap fs = (True, fs')"
    and "\<forall>(rel, raw) \<in> set snap. \<forall>t. locate env rel = Inr t \<longrightarrow> raw = orig t"
    and "\<forall>p. file_at fs p = orig p \<or> p \<in> targets env (map fst snap)"
  shows "file_at fs' = orig"
  using assms
proof (induction snap arbitrary: k fs)
  case Nil
  then show ?case by (auto simp: targets_def)
next
  case (Cons e snap)
  obtain rel raw where e: "e = (rel, raw)" by fastforce
  obtain t where t: "locate env rel = Inr t" using Cons.prems(1) e by (auto split: sum.splits)
  obtain ok fs1 where s: "(case raw of None \<Rightarrow> unlink (io k) fs t | Some b \<Rightarrow> overwrite_file (io k) fs t b) = (ok, fs1)"
    by fastforce
  then have ok: "ok" "rollback env io (Suc k) snap fs1 = (True, fs')" using Cons.prems(1) e t by (auto split: bool.splits)
  have "file_at fs1 = (file_at fs)(t := raw)"
    using s ok(1) by (cases raw) (auto dest: unlink_files overwrite_file_files)
  moreover have "raw = orig t" using Cons.prems(2) e t by auto
  moreover have "\<forall>p. file_at fs p = orig p \<or> p = t \<or> p \<in> targets env (map fst snap)"
    using Cons.prems(3) e t by (simp add: targets_Cons)
  ultimately have "\<forall>p. file_at fs1 p = orig p \<or> p \<in> targets env (map fst snap)" by auto
  then show ?case using Cons.IH [OF ok(2)] Cons.prems(2) by auto
qed

section \<open>What was loaded\<close>

text \<open>The invariant of the computation: what is remembered of each loaded file is what the disk holds.\<close>

definition loaded_ok :: "patch_env \<Rightarrow> filesys \<Rightarrow> patch_work \<Rightarrow> bool" where
  "loaded_ok env fs w \<longleftrightarrow>
     map fst (originals w) = map fst (working w) \<and> distinct (map fst (working w)) \<and>
     (\<forall>rel raw. map_of (originals w) rel = Some raw \<longrightarrow>
        (\<exists>t. locate env rel = Inr t \<and> file_at fs t = raw \<and> (\<forall>b. raw = Some b \<longrightarrow> (\<exists>x. decode_bytes b rel = Inr x))))"

lemma update_keys: "map fst (AList.update k v d) = (if k \<in> fst ` set d then map fst d else map fst d @ [k])"
  by (induction d) auto

lemma load_file_new:
  assumes "\<not> has_key (working w) rel" "load_file env fs rel w = Inr w'"
  shows "\<exists>t v. locate env rel = Inr t \<and> (\<forall>b. file_at fs t = Some b \<longrightarrow> (\<exists>x. decode_bytes b rel = Inr x)) \<and>
    originals w' = AList.update rel (file_at fs t) (originals w) \<and> working w' = AList.update rel v (working w)"
proof (cases "locate env rel")
  case (Inr t)
  show ?thesis
  proof (cases "fs t")
    case None
    then show ?thesis using assms Inr by (auto simp: load_file_def file_at_def)
  next
    case (Some nd)
    then obtain raw where "nd = FileNode raw" using assms Inr by (cases nd) (auto simp: load_file_def)
    then show ?thesis using assms Inr Some
      by (auto simp: load_file_def file_at_def split: if_splits sum.splits)
  qed
qed (use assms in \<open>auto simp: load_file_def\<close>)

lemma load_file_ok:
  assumes "loaded_ok env fs w" "load_file env fs rel w = Inr w'"
  shows "loaded_ok env fs w' \<and> set (map fst (working w')) = insert rel (set (map fst (working w)))"
proof (cases "has_key (working w) rel")
  case True
  then show ?thesis using assms by (auto simp: load_file_def has_key_iff insert_absorb simp flip: set_map)
next
  case False
  then have new: "rel \<notin> fst ` set (working w)" "rel \<notin> fst ` set (originals w)"
    using assms(1) by (auto simp: has_key_iff loaded_ok_def simp flip: set_map)
  obtain t v where t: "locate env rel = Inr t" "\<forall>b. file_at fs t = Some b \<longrightarrow> (\<exists>x. decode_bytes b rel = Inr x)"
      "originals w' = AList.update rel (file_at fs t) (originals w)" "working w' = AList.update rel v (working w)"
    using load_file_new [OF False assms(2)] by blast
  then show ?thesis using assms(1) new by (auto simp: loaded_ok_def update_keys update_conv' simp flip: set_map)
qed

lemma apply_change_ok:
  assumes "loaded_ok env fs w" "apply_change env fs c w = Inr w'"
  shows "loaded_ok env fs w' \<and> set (map fst (working w')) = insert (change_path c) (set (map fst (working w)))"
proof -
  obtain w1 t where w1: "load_file env fs (change_path c) w = Inr w1"
      "w' = w1\<lparr>working := AList.update (change_path c) t (working w1)\<rparr>"
    using assms(2) by (auto simp: apply_change_def result_simps)
  then show ?thesis using load_file_ok [OF assms(1) w1(1)] by (auto simp: loaded_ok_def update_keys simp flip: set_map)
qed

lemma compute_ok:
  "loaded_ok env fs w \<Longrightarrow> compute env fs cs w = Inr w' \<Longrightarrow>
   loaded_ok env fs w' \<and> set (map fst (working w')) = change_path ` set cs \<union> set (map fst (working w))"
proof (induction cs arbitrary: w)
  case (Cons c cs)
  then obtain w1 where w1: "apply_change env fs c w = Inr w1" "compute env fs cs w1 = Inr w'"
    by (auto simp: result_simps)
  show ?case using Cons.IH [OF conjunct1 [OF apply_change_ok [OF Cons.prems(1) w1(1)]] w1(2)]
      apply_change_ok [OF Cons.prems(1) w1(1)] by auto
qed simp

lemma nothing_loaded_ok: "loaded_ok env fs nothing_loaded"
  by (simp add: loaded_ok_def nothing_loaded_def)

section \<open>Properties\<close>

lemma changed_items_loaded:
  assumes "loaded_ok env fs w" "(rel, new) \<in> set (changed_items w)"
  shows "\<exists>t. locate env rel = Inr t \<and> dget (originals w) rel None = file_at fs t" "dget (working w) rel None = new"
    "\<forall>raw. dget (originals w) rel None = Some raw \<longrightarrow> (\<exists>x. decode_bytes raw rel = Inr x)"
proof -
  have "rel \<in> set (map fst (originals w))" using assms by (force simp: changed_items_def loaded_ok_def)
  then obtain raw where raw: "map_of (originals w) rel = Some raw" by (metis in_set_conv_decomp map_of_eq_None_iff not_None_eq set_map)
  then obtain t where t: "locate env rel = Inr t" "file_at fs t = raw" "\<forall>b. raw = Some b \<longrightarrow> (\<exists>x. decode_bytes b rel = Inr x)"
    using assms(1) unfolding loaded_ok_def by blast
  then show "\<exists>t. locate env rel = Inr t \<and> dget (originals w) rel None = file_at fs t"
    "\<forall>raw. dget (originals w) rel None = Some raw \<longrightarrow> (\<exists>x. decode_bytes raw rel = Inr x)"
    by (simp_all add: dget_def raw)
  show "dget (working w) rel None = new"
    using assms by (auto simp: changed_items_def loaded_ok_def dget_def)
qed

lemma file_result_path [simp]: "fr_path (file_result_of env w rt) = fst rt"
  by (simp add: file_result_of_def Let_def)

text \<open>The outcomes of a run, once: nothing computed, refused, nothing to do, written, or rolled back.\<close>

lemma apply_changes_cases:
  assumes "apply_changes env io fs changes expected dry_run = (fs', Inr res)"
  obtains (failed) "fs' = fs" "\<not> pr_success res"
  | (idle) w where "compute env fs changes nothing_loaded = Inr w" "failed_preconditions env w expected = []"
      "concat (map (findings_of w) (changed_items w)) = []" "fs' = fs" "pr_success res"
      "pr_files res = map (file_result_of env w) (changed_items w)" "changed_items w = [] \<or> dry_run"
  | (wrote) w k where "compute env fs changes nothing_loaded = Inr w" "failed_preconditions env w expected = []"
      "concat (map (findings_of w) (changed_items w)) = []" "\<not> dry_run" "pr_success res"
      "pr_files res = map (file_result_of env w) (changed_items w)"
      "write_all env io 0 w (map fst (changed_items w)) fs = (True, k, fs')"
  | (undone) w k fs1 where "compute env fs changes nothing_loaded = Inr w" "\<not> pr_success res"
      "write_all env io 0 w (map fst (changed_items w)) fs = (False, k, fs1)"
      "rollback env io k (map (\<lambda>rel. (rel, dget (originals w) rel None)) (map fst (changed_items w))) fs1 = (True, fs')"
proof (cases "compute env fs changes nothing_loaded")
  case (Inl e)
  then show ?thesis using assms failed by (auto simp: apply_changes_def failed_result_def)
next
  case (Inr w)
  let ?items = "changed_items w"
  have paths: "map fr_path (map (file_result_of env w) ?items) = map fst ?items" by simp
  have snap: "map (\<lambda>f. (fr_path f, dget (originals w) (fr_path f) None)) (map (file_result_of env w) ?items)
      = map (\<lambda>rel. (rel, dget (originals w) rel None)) (map fst ?items)" by simp
  obtain ok k fs1 where wr: "write_all env io 0 w (map fst ?items) fs = (ok, k, fs1)" by (metis prod_cases3)
  show ?thesis
  proof (cases "failed_preconditions env w expected = [] \<and> concat (map (findings_of w) ?items) = [] \<and> ?items \<noteq> [] \<and> \<not> dry_run")
    case False
    then show ?thesis using assms Inr failed idle
      by (auto simp: apply_changes_def failed_result_def Let_def split: if_splits)
  next
    case True
    note go = assms [unfolded apply_changes_def Inr sum.case Let_def paths snap wr]
    show ?thesis
    proof (cases ok)
      case ok: True
      show ?thesis by (rule wrote [of w k]) (use go True Inr wr ok in auto)
    next
      case nok: False
      obtain ok2 fs2 where rb: "rollback env io k (map (\<lambda>rel. (rel, dget (originals w) rel None)) (map fst ?items)) fs1 = (ok2, fs2)"
        by fastforce
      have "ok2" "fs' = fs2" "\<not> pr_success res" using go True nok rb by (auto split: bool.splits)
      then show ?thesis using undone [of w k fs1] Inr wr nok rb by simp
    qed
  qed
qed

lemma failed_patch_files:
  assumes "apply_changes env io fs changes expected dry_run = (fs', Inr res)" and "\<not> pr_success res \<or> dry_run"
  shows "file_at fs' = file_at fs"
  using assms(1)
proof (cases rule: apply_changes_cases)
  case (undone w k fs1)
  let ?rels = "map fst (changed_items w)" and ?snap = "map (\<lambda>rel. (rel, dget (originals w) rel None)) (map fst (changed_items w))"
  have ok: "loaded_ok env fs w" using compute_ok [OF nothing_loaded_ok undone(1)] by simp
  show ?thesis
  proof (rule rollback_restores [OF undone(4)])
    show "\<forall>(rel, raw) \<in> set ?snap. \<forall>t. locate env rel = Inr t \<longrightarrow> raw = file_at fs t"
      using changed_items_loaded(1) [OF ok] by fastforce
    show "\<forall>p. file_at fs1 p = file_at fs p \<or> p \<in> targets env (map fst ?snap)"
      using write_all_files [OF undone(3)] by (auto simp: targets_def comp_def)
  qed
qed (use assms(2) in auto)

text \<open>A run, also one that raises, touches only the files its changes name.\<close>

lemma changed_loaded: "set (map fst (changed_items w)) \<subseteq> set (map fst (working w))"
  by (auto simp: changed_items_def)

lemma locate_within: "locate env rel = Inr t \<Longrightarrow> is_within t (pe_follow env (pe_repo env))"
  unfolding locate_def by (rule resolve_in_repo_sound(1))

lemma write_all_named: "write_all env io k w rels fs = (ok, k', fs') \<Longrightarrow> file_at fs' p \<noteq> file_at fs p \<Longrightarrow> p \<in> targets env rels"
  using write_all_files unfolding targets_def by blast

lemma file_at_upd: "file_at (fs(p := x)) = (file_at fs)(p := (case x of Some (FileNode b) \<Rightarrow> Some b | _ \<Rightarrow> None))"
  by (auto simp: file_at_def fun_eq_iff split: option.splits node.splits)

lemma undo_one: "(case raw of None \<Rightarrow> unlink out fs t | Some b \<Rightarrow> overwrite_file out fs t b) = (ok, fs') \<Longrightarrow> p \<noteq> t \<Longrightarrow> file_at fs' p = file_at fs p"
  by (cases raw; cases out) (auto simp: unlink_def overwrite_file_def file_at_upd dest: mkdirs_files split: option.splits node.splits if_splits)

text \<open>A rollback, even one that fails half-way, touches only the files of its snapshot.\<close>

lemma rollback_named: "rollback env io k snap fs = (ok, fs') \<Longrightarrow> file_at fs' p \<noteq> file_at fs p \<Longrightarrow> p \<in> targets env (map fst snap)"
proof (induction snap arbitrary: k fs)
  case (Cons e snap)
  obtain rel raw where e: "e = (rel, raw)" by fastforce
  show ?case
  proof (cases "locate env rel")
    case (Inl x)
    then show ?thesis using Cons.prems e by simp
  next
    case (Inr t)
    obtain ok1 fs1 where s: "(case raw of None \<Rightarrow> unlink (io k) fs t | Some b \<Rightarrow> overwrite_file (io k) fs t b) = (ok1, fs1)" by fastforce
    consider "p = t" | "p \<noteq> t" "ok1" | "p \<noteq> t" "\<not> ok1" by blast
    then show ?thesis
    proof cases
      case 2
      then have "rollback env io (Suc k) snap fs1 = (ok, fs')" "file_at fs1 p = file_at fs p" using Cons.prems e Inr s undo_one [OF s] by simp_all
      then show ?thesis using Cons.IH Cons.prems(2) e by (auto simp: targets_Cons)
    next
      case 3
      then have "fs' = fs1" using Cons.prems(1) e Inr s by simp
      then show ?thesis using undo_one [OF s 3(1)] Cons.prems(2) by simp
    qed (use e Inr in \<open>simp add: targets_Cons\<close>)
  qed
qed simp

lemma apply_changes_named:
  assumes "apply_changes env io fs cs expected dry = (fs', r)" "file_at fs' p \<noteq> file_at fs p"
  shows "p \<in> targets env (map change_path cs)"
proof (cases "compute env fs cs nothing_loaded")
  case (Inl e)
  then show ?thesis using assms by (simp add: apply_changes_def)
next
  case (Inr w)
  let ?files = "map (file_result_of env w) (changed_items w)" let ?rels = "map fr_path ?files"
  obtain ok k fs1 where wr: "write_all env io 0 w ?rels fs = (ok, k, fs1)" by (metis prod_cases3)
  obtain ok2 fs2 where rb: "rollback env io k (map (\<lambda>f. (fr_path f, dget (originals w) (fr_path f) None)) ?files) fs1 = (ok2, fs2)" by fastforce
  have "fs' = fs \<or> fs' = fs1 \<or> fs' = fs2"
    using assms(1) [unfolded apply_changes_def Inr sum.case Let_def wr] rb by (cases ok) (auto simp del: map_map split: if_splits bool.splits)
  then have "p \<in> targets env ?rels" using assms(2) write_all_named [OF wr, of p] rollback_named [OF rb, of p] by (cases "file_at fs1 p = file_at fs p") (auto simp: comp_def)
  moreover have "set ?rels \<subseteq> change_path ` set cs"
    using compute_ok [OF _ Inr] changed_loaded [of w] by (auto simp: loaded_ok_def nothing_loaded_def image_iff)
  ultimately show ?thesis unfolding targets_def by (auto 0 4 simp: image_iff)
qed

lemma raised_not_dry: "apply_changes env io fs changes expected dry_run = (fs', Inl e) \<Longrightarrow> \<not> dry_run"
  by (auto simp: apply_changes_def Let_def split: sum.splits if_splits)

text \<open>
  C3: Atomicity. A patch that returns a failure, and any dry run, leaves the contents of every file as they were, whichever disk operations fail: if a
  later change does not apply, a precondition fails, a secret is added or a write fails and is rolled back, no file is changed, created
  or deleted. The only other way for a patch not to succeed is that restoring the files raises an exception; then it was no dry run, and
  files that the changes do not name are as they were.
\<close>

theorem failed_patch_changes_nothing:
  assumes "apply_changes env io fs changes expected dry_run = (fs', out)"
  shows "case out of
      Inr res \<Rightarrow> (\<not> pr_success res \<or> dry_run \<longrightarrow> file_at fs' = file_at fs)
    | Inl RollbackRaised \<Rightarrow> \<not> dry_run \<and> (\<forall>p. p \<notin> targets env (map change_path changes) \<longrightarrow> file_at fs' p = file_at fs p)"
proof (cases out)
  case (Inl e)
  then show ?thesis using raised_not_dry [of env io fs changes expected dry_run fs' e] apply_changes_named [OF assms] assms by (cases e) auto
next
  case (Inr res)
  then show ?thesis using failed_patch_files assms by simp
qed

text \<open>What the successful runs have in common.\<close>

lemma successful_patch_work:
  assumes "apply_changes env io fs changes expected dry_run = (fs', Inr res)" and "pr_success res"
  obtains w where "compute env fs changes nothing_loaded = Inr w" "loaded_ok env fs w"
    "set (map fst (working w)) = change_path ` set changes" "failed_preconditions env w expected = []"
    "concat (map (findings_of w) (changed_items w)) = []" "files_changed res = map fst (changed_items w)"
    "dry_run \<or> (\<forall>p. p \<notin> targets env (files_changed res) \<longrightarrow> file_at fs' p = file_at fs p) \<and>
       (\<forall>p \<in> targets env (files_changed res). \<exists>rel \<in> set (files_changed res). locate env rel = Inr p \<and> file_at fs' p = written w rel)"
  using assms(1)
proof (cases rule: apply_changes_cases)
  case (idle w)
  have "files_changed res = map fst (changed_items w)" using idle(6) by (simp add: files_changed_def comp_def)
  then show ?thesis using that [OF idle(1)] compute_ok [OF nothing_loaded_ok idle(1)] idle
    by (auto simp: nothing_loaded_def targets_def)
next
  case (wrote w k)
  have files: "files_changed res = map fst (changed_items w)" using wrote(6) by (simp add: files_changed_def comp_def)
  have "file_at fs' p = file_at fs p" if "p \<notin> targets env (files_changed res)" for p
    using write_all_files [OF wrote(7)] that unfolding files targets_def by blast
  moreover have "\<forall>p \<in> targets env (files_changed res). \<exists>rel \<in> set (files_changed res). locate env rel = Inr p \<and> file_at fs' p = written w rel"
    using write_all_files [OF wrote(7)] unfolding files by blast
  ultimately show ?thesis using that [OF wrote(1)] compute_ok [OF nothing_loaded_ok wrote(1)] wrote files
    by (simp add: nothing_loaded_def)
qed (use assms(2) in auto)

lemma loaded_precondition:
  assumes "loaded_ok env fs w" "failed_preconditions env w expected = []" "(rel, h) \<in> set expected" "rel \<in> set (map fst (working w))"
  shows "\<exists>t. locate env rel = Inr t \<and> sha256_bytes env (file_at fs t) = h"
proof -
  have "rel \<in> set (map fst (originals w))" using assms(1,4) by (simp add: loaded_ok_def)
  then obtain raw where raw: "map_of (originals w) rel = Some raw" by (metis in_set_conv_decomp map_of_eq_None_iff not_None_eq set_map)
  then obtain t where "locate env rel = Inr t" "file_at fs t = raw" using assms(1) unfolding loaded_ok_def by blast
  moreover have "sha256_bytes env raw = h"
    using assms(2,3) raw by (auto simp: failed_preconditions_def filter_empty_conv has_key_def dget_def)
  ultimately show ?thesis by auto
qed

text \<open>
  The contract of the engine towards the parts that write through it: a change set that fails writes nothing; one that succeeds
  writes only where its paths lead, and only if the files it loads have the hashes the caller expects.
\<close>

locale guarded_writer =
  fixes apply_set :: "filesys \<Rightarrow> change list \<Rightarrow> string option dict \<Rightarrow> filesys \<times> (escaped + patch_result)"
    and place :: "string \<Rightarrow> path_error + string list" and hash :: "string option \<Rightarrow> string option"
  assumes failed_keeps: "apply_set fs cs expected = (fs', Inr res) \<Longrightarrow> \<not> pr_success res \<Longrightarrow> file_at fs' = file_at fs"
    and writes_named: "apply_set fs cs expected = (fs', Inr res) \<Longrightarrow> pr_success res \<Longrightarrow> file_at fs' p \<noteq> file_at fs p \<Longrightarrow>
      \<exists>c \<in> set cs. place (change_path c) = Inr p"
    and met: "apply_set fs cs expected = (fs', Inr res) \<Longrightarrow> pr_success res \<Longrightarrow> (rel, h) \<in> set expected \<Longrightarrow> rel \<in> change_path ` set cs \<Longrightarrow>
      \<exists>t. place rel = Inr t \<and> hash (file_at fs t) = h"
begin

lemma differs_succeeded: "apply_set fs cs expected = (fs', Inr res) \<Longrightarrow> file_at fs' \<noteq> file_at fs \<Longrightarrow> pr_success res"
  using failed_keeps by blast

text \<open>When the caller expects a hash of every file it changes, a file that differs afterwards had the expected one.\<close>

lemma differs_expected:
  assumes run: "apply_set fs cs expected = (fs', Inr res)" and all: "change_path ` set cs \<subseteq> fst ` set expected" and ne: "file_at fs' p \<noteq> file_at fs p"
  shows "\<exists>rel. place rel = Inr p \<and> (rel, hash (file_at fs p)) \<in> set expected \<and> rel \<in> change_path ` set cs"
proof -
  have ok: "pr_success res" using differs_succeeded [OF run] ne by metis
  obtain c where c: "c \<in> set cs" "place (change_path c) = Inr p" using writes_named [OF run ok ne] by blast
  then obtain h where h: "(change_path c, h) \<in> set expected" using all by force
  then show ?thesis using met [OF run ok h] c by auto
qed

end

interpretation engine_writes: guarded_writer "\<lambda>fs cs expected. apply_changes env io fs cs expected False" "locate env" "sha256_bytes env" for env io
proof
  fix fs cs expected fs' res p rel h
  assume run: "apply_changes env io fs cs expected False = (fs', Inr res)"
  show "file_at fs' = file_at fs" if "\<not> pr_success res" using failed_patch_files [OF run] that by blast
  assume ok: "pr_success res"
  obtain w where w: "loaded_ok env fs w" "set (map fst (working w)) = change_path ` set cs" "failed_preconditions env w expected = []"
      "files_changed res = map fst (changed_items w)" "\<forall>p. p \<notin> targets env (files_changed res) \<longrightarrow> file_at fs' p = file_at fs p"
    using run ok by (rule successful_patch_work) blast
  show "\<exists>c \<in> set cs. locate env (change_path c) = Inr p" if ne: "file_at fs' p \<noteq> file_at fs p"
  proof -
    obtain rel where rel: "rel \<in> set (files_changed res)" "locate env rel = Inr p" using w(5) ne by (auto simp: targets_def)
    then have "rel \<in> change_path ` set cs" using changed_loaded [of w] w(2,4) by (metis subset_iff)
    then show ?thesis using rel(2) by blast
  qed
  show "\<exists>t. locate env rel = Inr t \<and> sha256_bytes env (file_at fs t) = h" if "(rel, h) \<in> set expected" "rel \<in> change_path ` set cs"
    using loaded_precondition [OF w(1,3) that(1)] w(2) that(2) by simp
qed

text \<open>
  C14: What a successful patch writes. The files reported as changed are among the paths of the changes; each of their locations
  holds the bytes of the computed text in the file's own newline style (no file if it was deleted); every other
  file is as it was.
\<close>

theorem successful_patch_writes_exactly:
  assumes "apply_changes env io fs changes expected False = (fs', Inr res)" and "pr_success res"
  shows "\<exists>w. compute env fs changes nothing_loaded = Inr w \<and>
    set (files_changed res) \<subseteq> change_path ` set changes \<and>
    (\<forall>p. p \<notin> targets env (files_changed res) \<longrightarrow> file_at fs' p = file_at fs p) \<and>
    (\<forall>p \<in> targets env (files_changed res). \<exists>rel \<in> set (files_changed res). locate env rel = Inr p \<and> file_at fs' p = written w rel)"
  using assms
proof (rule successful_patch_work)
  fix w assume w: "compute env fs changes nothing_loaded = Inr w" "set (map fst (working w)) = change_path ` set changes"
    "files_changed res = map fst (changed_items w)"
    "False \<or> (\<forall>p. p \<notin> targets env (files_changed res) \<longrightarrow> file_at fs' p = file_at fs p) \<and>
       (\<forall>p \<in> targets env (files_changed res). \<exists>rel \<in> set (files_changed res). locate env rel = Inr p \<and> file_at fs' p = written w rel)"
  have "set (files_changed res) \<subseteq> change_path ` set changes" unfolding w(2) [symmetric] w(3) by (auto simp: changed_items_def)
  then show ?thesis using w(1,4) by blast
qed

text \<open>
  Preconditions. A patch succeeds, dry run or not, only if every file it loads had the hash the caller
  planned against, where \<open>None\<close> stands for a file that does not exist.
\<close>

theorem successful_patch_met_preconditions:
  assumes "apply_changes env io fs changes expected dry_run = (fs', Inr res)" and "pr_success res"
    and "(rel, h) \<in> set expected" "rel \<in> change_path ` set changes"
  shows "\<exists>t. locate env rel = Inr t \<and> sha256_bytes env (file_at fs t) = h"
  using assms(1,2) by (rule successful_patch_work) (use assms(3,4) loaded_precondition in simp)

lemma no_report_empty: "\<not> reports []"
  by code_simp

lemma added_lines_scanned:
  assumes "scan_text (added_text old new) path = []" "line \<in> set (text_lines new)" "line \<notin> set (text_lines old)"
  shows "\<not> reports line"
proof -
  let ?ls = "filter (\<lambda>l. l \<notin> set (text_lines old)) (text_lines new)"
  have mem: "line \<in> set ?ls" using assms by simp
  have "\<forall>w \<in> set ?ls. newline \<notin> set w" using split_on_pieces [of _ newline new] by (auto simp: text_lines_def)
  then have "split_on newline (join [newline] ?ls) = ?ls" using mem by (intro split_on_join) (auto simp: filter_empty_conv)
  then show ?thesis using assms(1) mem by (auto simp: scan_text_none added_text_def newline_def)
qed

text \<open>
  A successful patch introduces no secret: in every file it changes, a line of the new text that was not a line of the old text is
  one that no secret pattern matches.
\<close>

theorem successful_patch_adds_no_secret:
  assumes "apply_changes env io fs changes expected dry_run = (fs', Inr res)" and "pr_success res"
    and "compute env fs changes nothing_loaded = Inr w" "rel \<in> set (files_changed res)" "dget (working w) rel None = Some new"
    and "line \<in> set (text_lines new)" "line \<notin> set (text_lines (text_or_empty (old_text w rel)))"
  shows "\<not> reports line"
proof -
  obtain w' where "compute env fs changes nothing_loaded = Inr w'" "concat (map (findings_of w') (changed_items w')) = []"
      "files_changed res = map fst (changed_items w')"
    using assms(1,2) by (rule successful_patch_work)
  then have facts: "concat (map (findings_of w) (changed_items w)) = []" "files_changed res = map fst (changed_items w)"
    using assms(3) by simp_all
  then obtain t where t: "(rel, t) \<in> set (changed_items w)" using assms(4) by auto
  then have "t = Some new"
    using changed_items_loaded(2) [OF conjunct1 [OF compute_ok [OF nothing_loaded_ok assms(3)]] t] assms(5) by simp
  then have none: "findings_of w (rel, Some new) = []" using facts(1) t by auto
  show ?thesis
  proof (cases "new = []")
    case True
    then show ?thesis using assms(6) no_report_empty by (simp add: text_lines_def)
  next
    case False
    then show ?thesis using none added_lines_scanned [OF _ assms(6,7)] by (simp add: findings_of_def)
  qed
qed

text \<open>A small repository to run the engine on: one file, plain paths, no diff text, the identity as hash.\<close>

definition demo_env :: patch_env where
  "demo_env = \<lparr>pe_follow = id, pe_forbidden = [], pe_repo = [''r''], pe_readable = (\<lambda>_. True), pe_sha256 = id,
     pe_unified_diff = (\<lambda>_ _ _ _. [])\<rparr>"

definition demo_fs :: filesys where
  "demo_fs p = (if p = [''r''] then Some DirNode else if p = [''r'', ''a''] then Some (FileNode ''x'') else None)"

definition disk_full_at :: "nat \<Rightarrow> nat \<Rightarrow> io_outcome" where
  "disk_full_at n k = (if k = n then CutAfter 0 else Completed)"

text \<open>
  The one way a failed patch loses data: if a file is replaced by a directory of the same name and a later write fails, the rollback
  cannot write the file back over the directory and raises, so the file is gone and the new one stays.
\<close>

definition file_to_dir :: "change list" where
  "file_to_dir = [DeleteFile ''a'', CreateFile ''a/b'' ''y'', CreateFile ''c'' ''z'']"

theorem rollback_loses_replaced_file:
  "let run = apply_changes demo_env (disk_full_at 2) demo_fs file_to_dir [] False in
     file_at demo_fs [''r'', ''a''] = Some ''x'' \<and> snd run = Inl RollbackRaised \<and>
     file_at (fst run) [''r'', ''a''] = None \<and> file_at (fst run) [''r'', ''a'', ''b''] = Some ''y''"
  by code_simp

section \<open>Runs of the engine\<close>

definition two_changes :: "change list" where
  "two_changes = [SearchReplace \<lparr>sr_path = ''a'', sr_search = ''x'', sr_replace = ''q'', sr_replace_all = False\<rparr>, CreateFile ''d/e'' ''z'']"

definition demo_run :: "nat \<Rightarrow> string option dict \<Rightarrow> filesys \<times> (escaped + patch_result)" where
  "demo_run fault expected = apply_changes demo_env (disk_full_at fault) demo_fs two_changes expected False"

definition faulty_run :: bool where
  "faulty_run = (case demo_run 1 [] of (fs', Inr res) \<Rightarrow> \<not> pr_success res | _ \<Rightarrow> False)"

definition good_run :: bool where
  "good_run = (case demo_run 9 [(''a'', Some ''x'')] of
     (fs', Inr res) \<Rightarrow> pr_success res \<and> files_changed res = [''a'', ''d/e''] \<and> file_at fs' [''r'', ''a''] = Some ''q'' | _ \<Rightarrow> False)"

lemma faulty_run_fails: "\<exists>fs' res. demo_run 1 [] = (fs', Inr res) \<and> \<not> pr_success res"
proof -
  have "faulty_run" by code_simp
  then show ?thesis by (auto simp: faulty_run_def split: prod.splits sum.splits)
qed

lemma good_run_succeeds:
  "\<exists>fs' res. demo_run 9 [(''a'', Some ''x'')] = (fs', Inr res) \<and> pr_success res \<and> files_changed res = [''a'', ''d/e''] \<and>
     file_at fs' [''r'', ''a''] = Some ''q''"
proof -
  have "good_run" by code_simp
  then show ?thesis by (auto simp: good_run_def split: prod.splits sum.splits)
qed

theorem failed_patch_changes_nothing_witness:
  "\<exists>fs' res. demo_run 1 [] = (fs', Inr res) \<and> \<not> pr_success res \<and> file_at fs' = file_at demo_fs"
proof -
  obtain fs' res where r: "demo_run 1 [] = (fs', Inr res)" "\<not> pr_success res" using faulty_run_fails by blast
  have "file_at fs' = file_at demo_fs"
    using failed_patch_changes_nothing [OF r(1) [unfolded demo_run_def]] r(2) by simp
  with r show ?thesis by blast
qed

theorem successful_patch_writes_exactly_witness:
  "\<exists>fs' res w. demo_run 9 [(''a'', Some ''x'')] = (fs', Inr res) \<and> pr_success res \<and>
     (\<forall>p. p \<notin> targets demo_env [''a'', ''d/e''] \<longrightarrow> file_at fs' p = file_at demo_fs p)"
proof -
  obtain fs' res where r: "demo_run 9 [(''a'', Some ''x'')] = (fs', Inr res)" "pr_success res" "files_changed res = [''a'', ''d/e'']"
    using good_run_succeeds by blast
  then show ?thesis using successful_patch_writes_exactly [OF r(1) [unfolded demo_run_def] r(2)] by auto
qed

theorem successful_patch_met_preconditions_witness:
  "\<exists>t. locate demo_env ''a'' = Inr t \<and> sha256_bytes demo_env (file_at demo_fs t) = Some ''x''"
proof -
  obtain fs' res where r: "demo_run 9 [(''a'', Some ''x'')] = (fs', Inr res)" "pr_success res" using good_run_succeeds by blast
  show ?thesis by (rule successful_patch_met_preconditions [OF r(1) [unfolded demo_run_def] r(2)]) (simp_all add: two_changes_def)
qed

definition demo_work :: patch_work where
  "demo_work = \<lparr>originals = [(''a'', Some ''x''), (''d/e'', None)], working = [(''a'', Some ''q''), (''d/e'', Some ''z'')],
     newlines = [(''a'', [newline]), (''d/e'', [newline])]\<rparr>"

lemma demo_compute: "compute demo_env demo_fs two_changes nothing_loaded = Inr demo_work"
  by code_simp

theorem successful_patch_adds_no_secret_witness: "\<not> reports ''q''"
proof -
  obtain fs' res where r: "demo_run 9 [(''a'', Some ''x'')] = (fs', Inr res)" "pr_success res" "files_changed res = [''a'', ''d/e'']"
    using good_run_succeeds by blast
  have o: "old_text demo_work ''a'' = Some ''x''" by code_simp
  show ?thesis
    by (rule successful_patch_adds_no_secret [OF r(1) [unfolded demo_run_def] r(2) demo_compute, of "''a''" "''q''"])
       (simp_all add: r(3) demo_work_def [symmetric] o text_or_empty_def text_lines_def newline_def, simp add: demo_work_def dget_def)
qed

end
