(* ===== verification/Workspace.thy ===== *)
theory Workspace
  imports Patch_Engine
begin

text \<open>
  Shadow workspaces (\<open>runtime/workspace.py\<close>): tracking of the files a run touches in its copy of the repository, checkpoints of
  the copy, and promotion into the real repository. Both trees lie in one file system; the environment
  \<open>ws\<close> resolves paths below the copy, \<open>repo\<close> below the repository. Decoding with replacement characters is
  the parameter \<open>lossy\<close>. Copying the repository and removing the copy are file-system traversals and are not modelled.

  The lemmas show that promotion writes what the manifest announces, only over files that still are what
  the run started from, and the case in which the bytes differ from the ones that were tested.
\<close>

datatype ws_error = WsUnsafe path_error | WsRead string | WsNotUtf8 string

definition SECRET_FILE_NAMES :: "string list" where
  "SECRET_FILE_NAMES = [''.env'', ''id_rsa'', ''id_ed25519'', ''id_ecdsa'', ''id_dsa'', ''.netrc'', ''.git-credentials'', ''.npmrc'', ''.pypirc'']"

definition SECRET_SUFFIXES :: "string list" where
  "SECRET_SUFFIXES = [''.pem'', ''.key'', ''.p12'', ''.pfx'', ''.kdbx'']"

definition is_secret_file :: "string \<Rightarrow> bool" where
  "is_secret_file name =
     (let lower = str_lower name in
      lower \<in> set SECRET_FILE_NAMES \<or> prefix ''.env'' lower \<or> list_ex (\<lambda>s. suffix s lower) SECRET_SUFFIXES)"

section \<open>State tracking\<close>

text \<open>\<open>self.base\<close>: the original bytes of each touched file, \<open>None\<close> where it did not exist.\<close>

type_synonym base_state = "string option dict"

definition ws_read :: "patch_env \<Rightarrow> filesys \<Rightarrow> string \<Rightarrow> ws_error + string option" where
  "ws_read ws fs rel =
     (case resolve_in_repo (pe_follow ws) (pe_forbidden ws) (pe_repo ws) rel False of
        Inl e \<Rightarrow> Inl (WsUnsafe e)
      | Inr target \<Rightarrow>
         (case fs target of Some (FileNode b) \<Rightarrow> if pe_readable ws target then Inr (Some b) else Inl (WsRead rel)
          | _ \<Rightarrow> Inr None))"

text \<open>A refused path ends the loop; the paths before it stay tracked.\<close>

fun note_touched :: "patch_env \<Rightarrow> filesys \<Rightarrow> string list \<Rightarrow> base_state \<Rightarrow> base_state \<times> ws_error option" where
  "note_touched ws fs [] base = (base, None)"
| "note_touched ws fs (rel # rels) base =
     (if has_key base rel then note_touched ws fs rels base
      else (case ws_read ws fs rel of Inl e \<Rightarrow> (base, Some e)
            | Inr raw \<Rightarrow> note_touched ws fs rels (AList.update rel raw base)))"

definition touched :: "base_state \<Rightarrow> string list" where
  "touched base = sort (map fst base)"

definition read_pair :: "patch_env \<Rightarrow> filesys \<Rightarrow> string \<Rightarrow> ws_error + string \<times> string option" where
  "read_pair ws fs rel = bind_r (ws_read ws fs rel) (\<lambda>raw. Inr (rel, raw))"

definition ws_checkpoint :: "patch_env \<Rightarrow> filesys \<Rightarrow> base_state \<Rightarrow> ws_error + string option dict" where
  "ws_checkpoint ws fs base = map_r (read_pair ws fs) (map fst base)"

text \<open>The loop of \<open>restore\<close> is the loop of the patch engine's \<open>rollback\<close>.\<close>

definition ws_restore :: "patch_env \<Rightarrow> (nat \<Rightarrow> io_outcome) \<Rightarrow> string option dict \<Rightarrow> filesys \<Rightarrow> bool \<times> filesys" where
  "ws_restore ws io state fs = rollback ws io 0 state fs"

definition restore_base :: "patch_env \<Rightarrow> (nat \<Rightarrow> io_outcome) \<Rightarrow> base_state \<Rightarrow> filesys \<Rightarrow> bool \<times> filesys" where
  "restore_base ws io base fs = ws_restore ws io base fs"

definition adopt :: "patch_env \<Rightarrow> (nat \<Rightarrow> io_outcome) \<Rightarrow> base_state \<Rightarrow> string option dict \<Rightarrow> filesys \<Rightarrow> base_state \<times> bool \<times> filesys" where
  "adopt ws io base current fs = (base, ws_restore ws io current fs)"

definition lossy_lines :: "(string \<Rightarrow> string) \<Rightarrow> string option \<Rightarrow> string list" where
  "lossy_lines lossy raw = (case raw of None \<Rightarrow> [] | Some b \<Rightarrow> if b = [] then [] else text_lines (lossy b))"

definition ws_diff :: "(string \<Rightarrow> string) \<Rightarrow> patch_env \<Rightarrow> filesys \<Rightarrow> base_state \<Rightarrow> ws_error + string" where
  "ws_diff lossy ws fs base =
     bind_r (map_r (read_pair ws fs) (touched base)) (\<lambda>now.
       let parts = map (\<lambda>(rel, new). let old = dget base rel None in
                     join [newline] (pe_unified_diff ws (lossy_lines lossy old) (lossy_lines lossy new)
                       (if old \<noteq> None then ''a/'' @ rel else ''/dev/null'') (if new \<noteq> None then ''b/'' @ rel else ''/dev/null'')))
                     (filter (\<lambda>(rel, new). dget base rel None \<noteq> new) now) in
       Inr (join [newline] parts @ (if parts \<noteq> [] then [newline] else [])))"

record summary_row =
  su_path :: string
  su_action :: string
  su_added :: nat

definition ws_summary :: "(string \<Rightarrow> string) \<Rightarrow> patch_env \<Rightarrow> filesys \<Rightarrow> base_state \<Rightarrow> ws_error + summary_row list" where
  "ws_summary lossy ws fs base =
     bind_r (map_r (read_pair ws fs) (touched base)) (\<lambda>now.
       Inr (map (\<lambda>(rel, new). let old = dget base rel None in
              \<lparr>su_path = rel,
               su_action = (if old = None then ''create'' else if new = None then ''delete'' else ''modify''),
               su_added = length (filter (\<lambda>l. l \<notin> set (text_lines (lossy (text_or_empty old))))
                            (text_lines (lossy (text_or_empty new))))\<rparr>)
            (filter (\<lambda>(rel, new). dget base rel None \<noteq> new) now)))"

section \<open>Promotion\<close>

record manifest_entry =
  mf_base :: "string option"
  mf_new :: "string option"

definition promotion_manifest :: "patch_env \<Rightarrow> filesys \<Rightarrow> base_state \<Rightarrow> ws_error + manifest_entry dict" where
  "promotion_manifest ws fs base =
     bind_r (map_r (read_pair ws fs) (touched base)) (\<lambda>now.
       Inr (map (\<lambda>(rel, new). (rel, \<lparr>mf_base = sha256_bytes ws (dget base rel None), mf_new = sha256_bytes ws new\<rparr>))
            (filter (\<lambda>(rel, new). new \<noteq> dget base rel None) now)))"

text \<open>The change for one touched file; a file whose bytes are not UTF-8 ends the promotion with an exception.\<close>

definition promote_change :: "base_state \<Rightarrow> string \<times> string option \<Rightarrow> ws_error + change list" where
  "promote_change base rt =
     (case snd rt of
        None \<Rightarrow> Inr (if dget base (fst rt) None \<noteq> None then [DeleteFile (fst rt)] else [])
      | Some current \<Rightarrow>
          if Some current = dget base (fst rt) None then Inr []
          else if utf8_from [] current then Inr [WriteFile (fst rt) current] else Inl (WsNotUtf8 (fst rt)))"

definition promotion_changes :: "patch_env \<Rightarrow> filesys \<Rightarrow> base_state \<Rightarrow> ws_error + change list" where
  "promotion_changes ws fs base =
     bind_r (map_r (\<lambda>rel. bind_r (read_pair ws fs rel) (promote_change base)) (touched base)) (\<lambda>css. Inr (concat css))"

definition promotion_expected :: "patch_env \<Rightarrow> base_state \<Rightarrow> string option dict" where
  "promotion_expected ws base = map (\<lambda>rel. (rel, sha256_bytes ws (dget base rel None))) (touched base)"

definition promote :: "patch_env \<Rightarrow> patch_env \<Rightarrow> (nat \<Rightarrow> io_outcome) \<Rightarrow> filesys \<Rightarrow> base_state
    \<Rightarrow> ws_error + filesys \<times> (escaped + patch_result)" where
  "promote ws repo io fs base =
     bind_r (promotion_changes ws fs base) (\<lambda>changes.
       Inr (apply_changes repo io fs changes (promotion_expected ws base) False))"

section \<open>The manifest announces the promotion\<close>

lemma read_pair_fst: "read_pair ws fs rel = Inr x \<Longrightarrow> fst x = rel"
  by (auto simp: read_pair_def result_simps)

lemma read_pairs_fst: "map_r (read_pair ws fs) rels = Inr now \<Longrightarrow> map fst now = rels"
  by (induction rels arbitrary: now) (auto split: sum.splits dest: read_pair_fst)

text \<open>Reading all the files first and then making the changes is the loop that does both for each file.\<close>

lemma map_r_bind:
  "map_r (\<lambda>x. bind_r (f x) g) xs = Inr zs \<longleftrightarrow> (\<exists>ys. map_r f xs = Inr ys \<and> map_r g ys = Inr zs)"
proof -
  have "list_all2 (\<lambda>x z. \<exists>y. f x = Inr y \<and> g y = Inr z) = list_all2 ((\<lambda>x y. f x = Inr y) OO (\<lambda>y z. g y = Inr z))"
    by (rule arg_cong [of _ _ list_all2]) (auto simp: fun_eq_iff OO_def)
  from this [unfolded list.rel_compp] show ?thesis unfolding map_r_Inr bind_r_Inr by (simp only: relcompp_apply)
qed

lemma promote_changes_of:
  assumes "promotion_changes ws fs base = Inr changes"
  obtains now where "map_r (read_pair ws fs) (touched base) = Inr now"
    "changes = map (\<lambda>(rel, new). case new of None \<Rightarrow> DeleteFile rel | Some c \<Rightarrow> WriteFile rel c)
       (filter (\<lambda>(rel, new). new \<noteq> dget base rel None) now)"
proof -
  obtain css where css: "map_r (\<lambda>rel. bind_r (read_pair ws fs rel) (promote_change base)) (touched base) = Inr css"
      "changes = concat css"
    using assms by (auto simp: promotion_changes_def result_simps)
  then obtain now where now: "map_r (read_pair ws fs) (touched base) = Inr now" "map_r (promote_change base) now = Inr css"
    by (auto simp: map_r_bind)
  have "map_r (promote_change base) xs = Inr yss \<Longrightarrow> concat yss = map (\<lambda>(rel, new). case new of None \<Rightarrow> DeleteFile rel | Some c \<Rightarrow> WriteFile rel c)
       (filter (\<lambda>(rel, new). new \<noteq> dget base rel None) xs)" for xs yss
    by (induction xs arbitrary: yss) (auto simp: promote_change_def split: sum.splits option.splits if_splits)
  then show thesis using that now css by blast
qed

section \<open>Checkpoints of the copy\<close>

lemma ws_read_file:
  assumes "ws_read ws fs rel = Inr raw" "locate ws rel = Inr t"
  shows "raw = file_at fs t"
  using assms resolve_write_read [of "pe_follow ws" "pe_forbidden ws" "pe_repo ws" rel t]
  by (auto simp: ws_read_def locate_def file_at_def split: option.splits node.splits if_splits)

text \<open>
  C20: Restoring a checkpoint of the workspace. Whatever happened to the copy in between, a restore that completes gives every tracked
  file the contents it had when the checkpoint was taken (and removes it if it did not exist) and leaves every other file alone.
\<close>

theorem restored_checkpoint_is_exact:
  assumes "ws_checkpoint ws fs0 base = Inr state" and "ws_restore ws io state fs1 = (True, fs2)"
  shows "file_at fs2 = override_on (file_at fs1) (file_at fs0) (targets ws (map fst base))"
proof -
  have keys: "map fst state = map fst base" using assms(1) read_pairs_fst by (simp add: ws_checkpoint_def)
  have raws: "raw = file_at fs0 t" if "(rel, raw) \<in> set state" "locate ws rel = Inr t" for rel raw t
  proof -
    have "\<forall>y \<in> set state. ws_read ws fs0 (fst y) = Inr (snd y)"
      using assms(1) unfolding ws_checkpoint_def by (rule map_r_all) (auto simp: read_pair_def result_simps)
    then have "ws_read ws fs0 rel = Inr raw" using that(1) by auto
    then show ?thesis using that(2) by (rule ws_read_file)
  qed
  let ?orig = "override_on (file_at fs1) (file_at fs0) (targets ws (map fst base))"
  have "raw = ?orig t" if "(rel, raw) \<in> set state" "locate ws rel = Inr t" for rel raw t
  proof -
    have "rel \<in> set (map fst base)" using that(1) by (metis fst_conv image_eqI keys set_map)
    then have "t \<in> targets ws (map fst base)" using that(2) by (auto simp: targets_def)
    then show ?thesis using raws [OF that] by simp
  qed
  then have "\<forall>(rel, raw) \<in> set state. \<forall>t. locate ws rel = Inr t \<longrightarrow> raw = ?orig t" by blast
  then show ?thesis using rollback_restores [OF assms(2) [unfolded ws_restore_def]] by (auto simp: keys override_on_def)
qed

section \<open>Promotion writes what was announced\<close>

definition newline_style :: "string option \<Rightarrow> string" where
  "newline_style raw = (case raw of Some b \<Rightarrow> if sublist CRLF b then CRLF else [newline] | None \<Rightarrow> [newline])"

definition styles_ok :: "patch_work \<Rightarrow> bool" where
  "styles_ok w \<longleftrightarrow> (\<forall>rel raw. map_of (originals w) rel = Some raw \<longrightarrow> map_of (newlines w) rel = Some (newline_style raw))"

lemma load_file_styles:
  assumes "styles_ok w" "load_file env fs rel w = Inr w'"
  shows "styles_ok w'"
proof (cases "has_key (working w) rel")
  case False
  then obtain t where t: "locate env rel = Inr t" using load_file_new assms(2) by blast
  show ?thesis
  proof (cases "fs t")
    case None
    then show ?thesis using assms t False by (auto simp: load_file_def styles_ok_def newline_style_def map_of_update)
  next
    case (Some nd)
    then obtain raw where "nd = FileNode raw" using assms False t by (cases nd) (auto simp: load_file_def)
    then show ?thesis using assms t False Some
      by (auto simp: load_file_def styles_ok_def newline_style_def map_of_update decode_bytes_def split: if_splits)
  qed
qed (use assms in \<open>simp add: load_file_def\<close>)

lemma apply_change_parts:
  assumes "apply_change env fs c w = Inr w'"
  obtains w1 t where "load_file env fs (change_path c) w = Inr w1" "new_text c (dget (working w1) (change_path c) None) = Inr t"
    "w' = w1\<lparr>working := AList.update (change_path c) t (working w1)\<rparr>"
  using assms by (auto simp: apply_change_def result_simps)

lemma compute_styles: "styles_ok w \<Longrightarrow> compute env fs cs w = Inr w' \<Longrightarrow> styles_ok w'"
proof (induction cs arbitrary: w)
  case (Cons c cs)
  then obtain w1 where w1: "apply_change env fs c w = Inr w1" "compute env fs cs w1 = Inr w'" by (auto simp: result_simps)
  have "styles_ok w1" using w1(1)
  proof (rule apply_change_parts)
    fix w2 t assume w2: "load_file env fs (change_path c) w = Inr w2" "w1 = w2\<lparr>working := AList.update (change_path c) t (working w2)\<rparr>"
    then show "styles_ok w1" using load_file_styles [OF Cons.prems(1) w2(1)] by (simp add: styles_ok_def)
  qed
  then show ?case using Cons.IH w1(2) by blast
qed simp

lemma apply_change_other:
  assumes "apply_change env fs c w = Inr w'" "rel \<noteq> change_path c"
  shows "map_of (working w') rel = map_of (working w) rel"
  using assms(1)
proof (rule apply_change_parts)
  fix w1 t assume w1: "load_file env fs (change_path c) w = Inr w1" "w' = w1\<lparr>working := AList.update (change_path c) t (working w1)\<rparr>"
  have "map_of (working w1) rel = map_of (working w) rel"
  proof (cases "has_key (working w) (change_path c)")
    case False
    then show ?thesis using load_file_new [OF False w1(1)] assms(2) by (auto simp: map_of_update)
  qed (use w1 in \<open>simp add: load_file_def\<close>)
  then show ?thesis using w1(2) assms(2) by (simp add: map_of_update)
qed

text \<open>A list of whole-file changes to different files leaves each of them as its change says.\<close>

definition whole_file :: "change \<Rightarrow> string option option" where
  "whole_file c = (case c of WriteFile p t \<Rightarrow> Some (Some t) | DeleteFile p \<Rightarrow> Some None | _ \<Rightarrow> None)"

lemma compute_other: "compute env fs cs w = Inr w' \<Longrightarrow> rel \<notin> change_path ` set cs \<Longrightarrow> map_of (working w') rel = map_of (working w) rel"
  by (induction cs arbitrary: w) (auto simp: result_simps apply_change_other)

lemma compute_whole_files:
  "compute env fs cs w = Inr w' \<Longrightarrow> distinct (map change_path cs) \<Longrightarrow> c \<in> set cs \<Longrightarrow> whole_file c = Some t \<Longrightarrow>
   map_of (working w') (change_path c) = Some t"
proof (induction cs arbitrary: w)
  case (Cons d cs)
  then obtain w1 where w1: "apply_change env fs d w = Inr w1" "compute env fs cs w1 = Inr w'" by (auto simp: result_simps)
  show ?case
  proof (cases "c = d")
    case True
    have "map_of (working w1) (change_path c) = Some t" using w1(1)
      by (rule apply_change_parts) (use True Cons.prems(4) in
        \<open>auto simp: map_of_update whole_file_def split: change.splits if_splits\<close>)
    then show ?thesis using compute_other [OF w1(2)] Cons.prems(2) True by auto
  qed (use Cons w1 in auto)
qed simp

lemma replace_newline_same: "str_replace [newline] [newline] s = s"
  by (induction s) (subst str_replace.simps, auto)+

lemma loaded_at:
  assumes "loaded_ok env fs w" "map_of (originals w) rel = Some raw" "locate env rel = Inr t"
  shows "raw = file_at fs t \<and> (\<forall>b. raw = Some b \<longrightarrow> (\<exists>x. decode_bytes b rel = Inr x))"
proof -
  obtain t' where "locate env rel = Inr t'" "file_at fs t' = raw" "\<forall>b. raw = Some b \<longrightarrow> (\<exists>x. decode_bytes b rel = Inr x)"
    using assms(1,2) unfolding loaded_ok_def by blast
  then show ?thesis using assms(3) by simp
qed

lemma promoted_change:
  assumes "promotion_changes ws fs base = Inr changes" "promotion_manifest ws fs base = Inr m" "(rel, e) \<in> set m"
  shows "\<exists>c \<in> set changes. \<exists>new. change_path c = rel \<and> whole_file c = Some new \<and> mf_new e = sha256_bytes ws new"
    "mf_base e = sha256_bytes ws (dget base rel None)" "rel \<in> set (touched base)"
proof -
  obtain now where now: "map_r (read_pair ws fs) (touched base) = Inr now"
      "changes = map (\<lambda>(rel, new). case new of None \<Rightarrow> DeleteFile rel | Some c \<Rightarrow> WriteFile rel c)
         (filter (\<lambda>(rel, new). new \<noteq> dget base rel None) now)"
    using assms(1) by (rule promote_changes_of)
  obtain new where new: "(rel, new) \<in> set now" "new \<noteq> dget base rel None"
      "e = \<lparr>mf_base = sha256_bytes ws (dget base rel None), mf_new = sha256_bytes ws new\<rparr>"
    using assms(2,3) now(1) by (auto simp: promotion_manifest_def)
  let ?c = "case new of None \<Rightarrow> DeleteFile rel | Some c \<Rightarrow> WriteFile rel c"
  have "?c \<in> set changes" unfolding now(2) using new(1,2) by force
  moreover have "change_path ?c = rel" "whole_file ?c = Some new" by (simp_all add: whole_file_def split: option.split)
  ultimately show "\<exists>c \<in> set changes. \<exists>new. change_path c = rel \<and> whole_file c = Some new \<and> mf_new e = sha256_bytes ws new"
    using new(3) by fastforce
  show "mf_base e = sha256_bytes ws (dget base rel None)" using new(3) by simp
  show "rel \<in> set (touched base)" using read_pairs_fst [OF now(1)] new(1) by (metis fst_conv image_eqI set_map)
qed

lemma promotion_changes_distinct:
  assumes "promotion_changes ws fs base = Inr changes" "distinct (map fst base)"
  shows "distinct (map change_path changes)"
proof -
  obtain now where now: "map_r (read_pair ws fs) (touched base) = Inr now"
      "changes = map (\<lambda>(rel, new). case new of None \<Rightarrow> DeleteFile rel | Some c \<Rightarrow> WriteFile rel c)
         (filter (\<lambda>(rel, new). new \<noteq> dget base rel None) now)"
    using assms(1) by (rule promote_changes_of)
  have "map change_path changes = map fst (filter (\<lambda>(rel, new). new \<noteq> dget base rel None) now)"
    unfolding now(2) by (auto split: option.split)
  moreover have "distinct (map fst now)" using read_pairs_fst [OF now(1)] assms(2) by (simp add: touched_def)
  ultimately show ?thesis by (simp add: distinct_map_filter)
qed

lemma promotion_changes_touched:
  assumes "promotion_changes ws fs base = Inr changes"
  shows "change_path ` set changes \<subseteq> set (touched base)"
  using assms
proof (rule promote_changes_of)
  fix now assume now: "map_r (read_pair ws fs) (touched base) = Inr now"
      "changes = map (\<lambda>(rel, new). case new of None \<Rightarrow> DeleteFile rel | Some c \<Rightarrow> WriteFile rel c)
         (filter (\<lambda>(rel, new). new \<noteq> dget base rel None) now)"
  have "change_path ` set changes \<subseteq> set (map fst now)" unfolding now(2) by (force split: option.splits)
  then show ?thesis using read_pairs_fst [OF now(1)] by simp
qed

text \<open>The bytes at the location of a changed file after a successful patch, when no other changed path leads there.\<close>

lemma whole_file_written:
  assumes run: "apply_changes env io fs changes expected False = (fs', Inr res)" "pr_success res"
    and paths: "distinct (map change_path changes)" "inj_on (locate env) (change_path ` set changes)"
    and c: "c \<in> set changes" "whole_file c = Some new" "locate env (change_path c) = Inr t"
    and plain: "\<forall>b. file_at fs t = Some b \<longrightarrow> \<not> sublist CRLF b"
  shows "file_at fs' t = new"
proof -
  let ?rel = "change_path c"
  obtain w where w: "compute env fs changes nothing_loaded = Inr w" "set (map fst (working w)) = change_path ` set changes"
      "\<forall>p. p \<notin> targets env (files_changed res) \<longrightarrow> file_at fs' p = file_at fs p"
      "\<forall>p \<in> targets env (files_changed res). \<exists>rel \<in> set (files_changed res). locate env rel = Inr p \<and> file_at fs' p = written w rel"
      "files_changed res = map fst (changed_items w)" "loaded_ok env fs w"
    using run by (rule successful_patch_work) blast
  have "map fst (originals w) = map fst (working w)" using w(6) by (simp add: loaded_ok_def)
  then have ok: "loaded_ok env fs w" "?rel \<in> set (map fst (originals w))" using w(2,6) c(1) by simp_all
  then obtain raw where raw: "map_of (originals w) ?rel = Some raw" by (metis in_set_conv_decomp map_of_eq_None_iff not_None_eq set_map)
  note raw_t = conjunct1 [OF loaded_at [OF ok(1) raw c(3)]]
  have "styles_ok nothing_loaded" by (simp add: styles_ok_def nothing_loaded_def)
  then have "map_of (newlines w) ?rel = Some [newline]"
    using compute_styles [OF _ w(1)] raw raw_t plain by (auto simp: styles_ok_def newline_style_def split: option.splits)
  moreover have work: "map_of (working w) ?rel = Some new" using compute_whole_files [OF w(1) paths(1) c(1,2)] .
  ultimately have wr: "written w ?rel = new"
    by (cases new) (auto simp: written_def dget_def replace_newline_same)
  show ?thesis
  proof (cases "t \<in> targets env (files_changed res)")
    case True
    then obtain rel where "rel \<in> set (files_changed res)" "locate env rel = Inr t" "file_at fs' t = written w rel" using w(4) by blast
    moreover have "rel \<in> change_path ` set changes"
      using calculation(1) unfolding w(2) [symmetric] w(5) by (auto simp: changed_items_def)
    then have "rel = ?rel" using inj_onD [OF paths(2), of rel ?rel] calculation(2) c(1,3) by simp
    ultimately show ?thesis using wr by simp
  next
    case False
    then have "?rel \<notin> set (files_changed res)" using c(3) by (auto simp: targets_def)
    then have same: "old_text w ?rel = new"
      using map_of_SomeD [OF work] unfolding w(5) changed_items_def by force
    have "old_text w ?rel = raw"
    proof (cases raw)
      case (Some b)
      then obtain x where "decode_bytes b ?rel = Inr x" using loaded_at [OF ok(1) raw c(3)] by blast
      then show ?thesis using Some raw raw_t plain by (auto simp: old_text_def dget_def decode_bytes_def str_replace_absent split: if_splits)
    qed (use raw in \<open>simp add: old_text_def dget_def\<close>)
    then show ?thesis using same w(3) False raw_t by simp
  qed
qed

text \<open>
  C19: A promotion that succeeds follows its manifest, provided different tracked paths name different files of the repository and workspace and
  repository use the same hash: every file of the manifest had the hash the manifest gives as its base when the promotion began, and a file that
  held no carriage return before a newline has the hash the manifest gives as its new one afterwards. (For other files the
  engine converts line endings; see \<open>promotion_doubles_carriage_returns\<close>.)
\<close>

theorem promotion_follows_manifest:
  assumes "promote ws repo io fs base = Inr (fs', Inr res)" "pr_success res"
    and "promotion_manifest ws fs base = Inr m" "(rel, e) \<in> set m"
    and "distinct (map fst base)" "inj_on (locate repo) (set (touched base))" "pe_sha256 ws = pe_sha256 repo"
  shows "\<exists>t. locate repo rel = Inr t \<and> sha256_bytes repo (file_at fs t) = mf_base e \<and>
    ((\<forall>b. file_at fs t = Some b \<longrightarrow> \<not> sublist CRLF b) \<longrightarrow> sha256_bytes repo (file_at fs' t) = mf_new e)"
proof -
  obtain changes where ch: "promotion_changes ws fs base = Inr changes"
      "apply_changes repo io fs changes (promotion_expected ws base) False = (fs', Inr res)"
    using assms(1) by (auto simp: promote_def result_simps)
  note pc = promoted_change [OF ch(1) assms(3,4)]
  obtain c new where c: "c \<in> set changes" "change_path c = rel" "whole_file c = Some new" "mf_new e = sha256_bytes ws new"
    using pc(1) by blast
  have sha: "sha256_bytes ws = sha256_bytes repo" using assms(7) by (simp add: sha256_bytes_def)
  have "(rel, mf_base e) \<in> set (promotion_expected ws base)" using pc(2,3) by (auto simp: promotion_expected_def)
  then obtain t where t: "locate repo rel = Inr t" "sha256_bytes repo (file_at fs t) = mf_base e"
    using engine_writes.met [OF ch(2) assms(2)] c(1,2) by blast
  have "change_path ` set changes \<subseteq> set (touched base)" using promotion_changes_touched [OF ch(1)] .
  then have "inj_on (locate repo) (change_path ` set changes)" using assms(6) inj_on_subset by blast
  then have "(\<forall>b. file_at fs t = Some b \<longrightarrow> \<not> sublist CRLF b) \<longrightarrow> file_at fs' t = new"
    using whole_file_written [OF ch(2) assms(2) promotion_changes_distinct [OF ch(1) assms(5)] _ c(1,3)] c(2) t(1) by blast
  then show ?thesis using t c(4) sha by auto
qed

section \<open>Runs\<close>

definition copy_env :: patch_env where
  "copy_env = demo_env\<lparr>pe_repo := [''w'']\<rparr>"

definition both_trees :: "string \<Rightarrow> string \<Rightarrow> filesys" where
  "both_trees inrepo incopy p =
     (if p = [''r''] \<or> p = [''w''] then Some DirNode
      else if p = [''r'', ''f''] then Some (FileNode inrepo) else if p = [''w'', ''f''] then Some (FileNode incopy) else None)"

definition no_faults :: "nat \<Rightarrow> io_outcome" where
  "no_faults k = Completed"

definition promoted :: "string \<Rightarrow> string \<Rightarrow> string option" where
  "promoted old new =
     (case promote copy_env demo_env no_faults (both_trees old new) [(''f'', Some old)] of
        Inr (fs', Inr res) \<Rightarrow> if pr_success res then file_at fs' [''r'', ''f''] else None | _ \<Rightarrow> None)"

text \<open>
  A file with Windows line endings is not promoted as it was tested: the patch engine converts every line feed of the new contents
  to the file's line ending, and the contents already have them, so each one gets a second carriage return.
\<close>

theorem promotion_doubles_carriage_returns:
  "promoted (''x'' @ CRLF) (''y'' @ CRLF) = Some (''y'' @ [CHR 0x0D] @ CRLF)"
  by code_simp

lemma plain_promotion: "promoted ''x'' ''y'' = Some ''y''"
  by code_simp

lemma demo_manifest:
  "promotion_manifest copy_env (both_trees ''x'' ''y'') [(''f'', Some ''x'')] = Inr [(''f'', \<lparr>mf_base = Some ''x'', mf_new = Some ''y''\<rparr>)]"
  by code_simp

theorem promotion_follows_manifest_witness:
  "\<exists>fs' res t. promote copy_env demo_env no_faults (both_trees ''x'' ''y'') [(''f'', Some ''x'')] = Inr (fs', Inr res) \<and> pr_success res \<and>
     locate demo_env ''f'' = Inr t \<and> sha256_bytes demo_env (file_at (both_trees ''x'' ''y'') t) = Some ''x''"
proof -
  obtain fs' res where run: "promote copy_env demo_env no_faults (both_trees ''x'' ''y'') [(''f'', Some ''x'')] = Inr (fs', Inr res)"
      "pr_success res"
    using plain_promotion by (auto simp: promoted_def split: sum.splits prod.splits if_splits)
  have "\<exists>t. locate demo_env ''f'' = Inr t \<and> sha256_bytes demo_env (file_at (both_trees ''x'' ''y'') t)
      = mf_base \<lparr>mf_base = Some ''x'', mf_new = Some ''y''\<rparr> \<and>
    ((\<forall>b. file_at (both_trees ''x'' ''y'') t = Some b \<longrightarrow> \<not> sublist CRLF b) \<longrightarrow>
       sha256_bytes demo_env (file_at fs' t) = mf_new \<lparr>mf_base = Some ''x'', mf_new = Some ''y''\<rparr>)"
    by (rule promotion_follows_manifest [OF run demo_manifest]) (simp_all add: touched_def copy_env_def)
  then show ?thesis using run by auto
qed

definition demo_checkpoint :: "string option dict" where
  "demo_checkpoint = [(''f'', Some ''x''), (''g'', None)]"

theorem restored_checkpoint_is_exact_witness:
  "\<exists>fs2. ws_restore copy_env no_faults demo_checkpoint (both_trees ''x'' ''broken'') = (True, fs2) \<and>
     file_at fs2 = override_on (file_at (both_trees ''x'' ''broken'')) (file_at (both_trees ''x'' ''x'')) (targets copy_env [''f'', ''g''])"
proof -
  have cp: "ws_checkpoint copy_env (both_trees ''x'' ''x'') demo_checkpoint = Inr demo_checkpoint" by code_simp
  have "fst (ws_restore copy_env no_faults demo_checkpoint (both_trees ''x'' ''broken''))" by code_simp
  then obtain fs2 where r: "ws_restore copy_env no_faults demo_checkpoint (both_trees ''x'' ''broken'') = (True, fs2)"
    by (metis (full_types) prod.collapse)
  show ?thesis using r restored_checkpoint_is_exact [OF cp r] by (simp add: demo_checkpoint_def)
qed

end
