(* ===== verification/Command_Risk.thy ===== *)
theory Command_Risk
  imports Regex Paths Effects
begin

text \<open>
  Command classification (\<open>tools/command_risk.py\<close>, \<open>tools/command_effects.py\<close>): which commands run without asking, which need a
  person and which never run, and the side-effect class of each. The home directory, the credential directories and path resolution
  are fields of the environment; splitting a command into words is the POSIX mode of \<open>shlex\<close>, written out.

  The lemmas show what an automatic command is known to be, that automatic commands have harmless effect classes, and two ways a
  command that can do more is still classified as read-only.
\<close>

section \<open>Splitting\<close>

datatype lex_state = Between | InWord | InQuote char | Escaped "char option"

definition is_shlex_space :: "char \<Rightarrow> bool" where
  "is_shlex_space c \<longleftrightarrow> c \<in> {CHR 0x20, CHR 0x09, CHR 0x0D, CHR 0x0A}"

abbreviation backslash :: char where "backslash \<equiv> CHR 0x5C"
abbreviation squote :: char where "squote \<equiv> CHR 0x27"
abbreviation dquote :: char where "dquote \<equiv> CHR 0x22"

text \<open>\<open>None\<close> stands for the \<open>ValueError\<close> of an open quotation or a trailing backslash.\<close>

fun lex :: "lex_state \<Rightarrow> string \<Rightarrow> string \<Rightarrow> string list option" where
  "lex Between tok [] = Some []"
| "lex Between tok (c # cs) =
     (if is_shlex_space c then lex Between [] cs
      else if c = backslash then lex (Escaped None) [] cs
      else if c = squote \<or> c = dquote then lex (InQuote c) [] cs
      else lex InWord [c] cs)"
| "lex (InQuote q) tok [] = None"
| "lex (InQuote q) tok (c # cs) =
     (if c = q then lex InWord tok cs
      else if c = backslash \<and> q = dquote then lex (Escaped (Some q)) tok cs
      else lex (InQuote q) (tok @ [c]) cs)"
| "lex (Escaped b) tok [] = None"
| "lex (Escaped None) tok (c # cs) = lex InWord (tok @ [c]) cs"
| "lex (Escaped (Some q)) tok (c # cs) =
     lex (InQuote q) (tok @ (if c \<noteq> backslash \<and> c \<noteq> q then [backslash, c] else [c])) cs"
| "lex InWord tok [] = Some [tok]"
| "lex InWord tok (c # cs) =
     (if is_shlex_space c then map_option (\<lambda>ws. tok # ws) (lex Between [] cs)
      else if c = squote \<or> c = dquote then lex (InQuote c) tok cs
      else if c = backslash then lex (Escaped None) tok cs
      else lex InWord (tok @ [c]) cs)"

definition shlex_split :: "string \<Rightarrow> string list option" where
  "shlex_split s = lex Between [] s"

section \<open>Decisions\<close>

datatype risk_level = NO_RISK_AUTO | CAREFUL_AUTO | RISKY_ASK | BLOCKED

record risk_decision =
  rd_level :: risk_level
  rd_reason :: string
  rd_argv :: "string list"
  rd_shell_syntax :: "string option"

definition decided :: "risk_level \<Rightarrow> string \<Rightarrow> string list \<Rightarrow> risk_decision" where
  "decided l why argv = \<lparr>rd_level = l, rd_reason = why, rd_argv = argv, rd_shell_syntax = None\<rparr>"

definition auto_run :: "risk_decision \<Rightarrow> bool" where
  "auto_run d \<longleftrightarrow> rd_level d \<in> {NO_RISK_AUTO, CAREFUL_AUTO}"

definition READONLY_EXECUTABLES :: "string list" where
  "READONLY_EXECUTABLES = [''pwd'', ''ls'', ''echo'', ''cat'', ''head'', ''tail'', ''wc'', ''sort'', ''uniq'', ''grep'', ''rg'',
     ''find'', ''which'', ''whoami'', ''date'', ''true'', ''false'', ''file'', ''stat'', ''du'', ''df'']"

definition PATH_READERS :: "string list" where
  "PATH_READERS = [''ls'', ''cat'', ''head'', ''tail'', ''wc'', ''sort'', ''uniq'', ''grep'', ''rg'', ''find'', ''file'', ''stat'', ''du'']"

definition FIND_UNSAFE :: "string list" where
  "FIND_UNSAFE = [''-exec'', ''-execdir'', ''-ok'', ''-okdir'', ''-delete'', ''-fprint'', ''-fprintf'', ''-fls'', ''-fprint0'']"

definition READONLY_GIT :: "string list" where
  "READONLY_GIT = [''status'', ''diff'', ''log'', ''show'', ''rev-parse'', ''ls-files'', ''blame'', ''describe'', ''shortlog'', ''grep'']"

definition GIT_ARG_UNSAFE :: "string list" where
  "GIT_ARG_UNSAFE = [''--output'', ''--ext-diff'', ''--textconv'', ''-c'', ''--exec-path'', ''--upload-pack'', ''-O'']"

definition GIT_LIST_ONLY :: "string list dict" where
  "GIT_LIST_ONLY =
     [(''branch'', [''-a'', ''-r'', ''-v'', ''-vv'', ''--list'', ''--show-current'', ''--all'', ''--remotes'']),
      (''tag'', [''-l'', ''--list'', ''-n'']),
      (''remote'', [''-v'', ''--verbose''])]"

definition RISKY_GIT_SUBCOMMANDS :: "string list" where
  "RISKY_GIT_SUBCOMMANDS = [''checkout'', ''reset'', ''clean'', ''stash'', ''rebase'', ''merge'', ''cherry-pick'', ''revert'', ''pull'',
     ''switch'', ''restore'', ''commit'', ''fetch'', ''clone'', ''config'', ''submodule'', ''worktree'', ''apply'', ''am'']"

definition PY_TOOL_MODULES :: "string list" where
  "PY_TOOL_MODULES = [''pytest'', ''unittest'', ''ruff'', ''mypy'', ''black'', ''isort'', ''flake8'', ''pyflakes'', ''pylint'', ''pyright'']"

definition SCRIPT_RUNNERS :: "string list" where
  "SCRIPT_RUNNERS = [''npm'', ''pnpm'', ''yarn'']"

definition PKG_UNSAFE :: "string list" where
  "PKG_UNSAFE = [''install'', ''i'', ''add'', ''ci'', ''update'', ''upgrade'', ''remove'', ''uninstall'', ''publish'', ''exec'', ''x'',
     ''dlx'', ''link'', ''unlink'', ''login'', ''logout'', ''pack'', ''init'', ''create'', ''up'']"

definition MAKE_SAFE_TARGETS :: "string list" where
  "MAKE_SAFE_TARGETS = [[], ''test'', ''tests'', ''check'', ''lint'', ''build'', ''all'', ''typecheck'', ''format-check'']"

abbreviation spaces1 :: rx where "spaces1 \<equiv> plus (Cls is_space)"
abbreviation any_text :: rx where "any_text \<equiv> star (Cls (\<lambda>c. c \<noteq> CHR 0x0A))"
abbreviation letters :: rx where "letters \<equiv> star (Cls (\<lambda>c. is_lower c \<or> is_upper c))"
abbreviation octals :: rx where "octals \<equiv> star (chars ''01234567'')"

definition BLOCKED_PATTERNS :: "rx list" where
  "BLOCKED_PATTERNS =
    [sq [WordB, lit ''rm'', spaces1, plus (sq [lit ''-'', letters, chars ''rf'', letters, spaces1]), opt (sq [lit ''--'', spaces1]),
         one_of [lit ''/'', lit ''~'', lit ''$HOME'', lit ''${HOME}''], one_of [Cls is_space, lit ''/*'', AtEnd]],
     sq [WordB, lit ''rm'', spaces1, lit ''-rf'', spaces1, one_of [lit ''/'', lit ''~'']],
     one_of [sq [WordB, lit ''sudo'', WordB], sq [WordB, lit ''doas'', WordB],
         sq [WordB, lit ''su'', spaces1, opt (lit ''-''), spaces, star (Cls is_word), spaces, AtEnd]],
     sq [WordB, lit ''mkfs''],
     sq [WordB, lit ''dd'', spaces1, any_text, WordB, lit ''of=/dev/''],
     sq [WordB, one_of [lit ''shutdown'', lit ''reboot'', lit ''halt'', lit ''poweroff''], WordB],
     sq [lit '':()'', spaces, lit ''{''],
     sq [WordB, one_of [lit ''curl'', lit ''wget'', lit ''fetch''], WordB, star (Cls (\<lambda>c. c \<notin> set ''|;&'')), lit ''|'', spaces,
         opt (sq [lit ''sudo'', spaces1]), opt (one_of [lit ''ba'', lit ''z'', lit ''da'']), lit ''sh'', WordB],
     sq [WordB, lit ''docker'', spaces1, lit ''system'', spaces1, lit ''prune'', spaces1, lit ''-a''],
     sq [WordB, lit ''docker'', spaces1, lit ''run'', WordB, any_text, lit ''--privileged''],
     sq [WordB, lit ''git'', spaces1, lit ''push'', WordB, any_text, one_of [lit ''--force'', sq [lit ''-f'', WordB], lit ''--force-with-lease'']],
     sq [WordB, lit ''chmod'', spaces1, opt (sq [lit ''-R'', spaces1]), octals, lit ''7'', octals, spaces1, lit ''/'', one_of [Cls is_space, AtEnd]],
     sq [WordB, one_of [lit ''nc'', lit ''ncat'', lit ''socat''], WordB, any_text, Cls is_space, lit ''-e'', WordB]]"

definition SENSITIVE_FILES :: "string list" where
  "SENSITIVE_FILES = [''/etc/shadow'', ''/etc/sudoers'', ''/proc/self/environ'', ''.git-credentials'', ''.netrc'',
     ''id_rsa'', ''id_ed25519'', ''id_ecdsa'', ''id_dsa'']"

text \<open>The scan for shell syntax; the quotation state is the character that opened it.\<close>

definition starts_expansion :: "string \<Rightarrow> bool" where
  "starts_expansion rest \<longleftrightarrow> (case rest of c # _ \<Rightarrow> c = CHR ''('' \<or> c = CHR ''{'' | [] \<Rightarrow> False)"

fun shell_scan :: "char option \<Rightarrow> string \<Rightarrow> string option" where
  "shell_scan quote [] = None"
| "shell_scan quote (c # cs) =
     (if quote = Some squote then shell_scan (if c = squote then None else quote) cs
      else if c = backslash then (case cs of [] \<Rightarrow> None | _ # rest \<Rightarrow> shell_scan quote rest)
      else if quote = Some dquote then
        if c = dquote then shell_scan None cs
        else if c = CHR 0x60 then Some [c]
        else if c = CHR ''$'' \<and> starts_expansion cs then Some [c, hd cs]
        else shell_scan quote cs
      else if c = squote \<or> c = dquote then shell_scan (Some c) cs
      else if c \<in> set (CHR 0x60 # CHR 0x0A # '';&|<>()'') then Some (if c = CHR 0x0A then ''newline'' else [c])
      else if c = CHR ''$'' \<and> starts_expansion cs then Some [c, hd cs]
      else shell_scan quote cs)"

definition find_shell_syntax :: "string \<Rightarrow> string option" where
  "find_shell_syntax command = shell_scan None command"

record risk_env =
  re_home :: string
  re_forbidden :: "string list"
  re_resolve :: "string list \<Rightarrow> string list"

definition expand_home_refs :: "risk_env \<Rightarrow> string \<Rightarrow> string" where
  "expand_home_refs env text =
     (if CHR ''~'' \<in> set text \<or> sublist ''HOME'' text
      then str_replace ''~'' (re_home env) (str_replace ''~/'' (re_home env @ ''/'')
             (str_replace ''$HOME'' (re_home env) (str_replace ''${HOME}'' (re_home env) text)))
      else text)"

definition touches_sensitive :: "risk_env \<Rightarrow> string \<Rightarrow> string option" where
  "touches_sensitive env command =
     (let expanded = expand_home_refs env command in
      find (\<lambda>w. sublist w expanded) (re_forbidden env @ SENSITIVE_FILES))"

definition resolve_arg :: "risk_env \<Rightarrow> string list \<Rightarrow> string \<Rightarrow> string list" where
  "resolve_arg env top_dir arg =
     (let expanded = expand_home_refs env arg in
      re_resolve env (if prefix ''/'' expanded then path_parts expanded else top_dir @ path_parts expanded))"

definition outside_arg :: "risk_env \<Rightarrow> string list \<Rightarrow> string \<Rightarrow> bool" where
  "outside_arg env top_dir arg \<longleftrightarrow>
     \<not> prefix ''-'' arg \<and> arg \<noteq> [] \<and> (CHR ''/'' \<in> set arg \<or> prefix ''.'' arg \<or> prefix ''~'' arg) \<and>
     \<not> is_within (resolve_arg env top_dir arg) top_dir"

definition path_args_outside :: "risk_env \<Rightarrow> string list \<Rightarrow> string option \<Rightarrow> string option" where
  "path_args_outside env argv repo =
     (case repo of None \<Rightarrow> None
      | Some r \<Rightarrow> if r = [] then None else find (outside_arg env (re_resolve env (path_parts r))) (tl argv))"

definition classify_git :: "string list \<Rightarrow> risk_decision" where
  "classify_git argv =
     (case tl argv of
        [] \<Rightarrow> decided NO_RISK_AUTO ''git (no arguments).'' argv
      | sub # rest \<Rightarrow>
          if prefix ''-'' sub then decided RISKY_ASK ''git global options can execute commands.'' argv
          else if sub = ''push'' then decided RISKY_ASK ''Git push requires approval.'' argv
          else if sub \<in> set READONLY_GIT then
            if list_ex (\<lambda>a. list_ex (\<lambda>u. prefix u a) GIT_ARG_UNSAFE) rest
            then decided RISKY_ASK (''git '' @ sub @ '' with an option that writes or executes.'') argv
            else decided NO_RISK_AUTO ''Read-only git command.'' argv
          else (case map_of GIT_LIST_ONLY sub of
              Some ok \<Rightarrow> if list_all (\<lambda>a. a \<in> set ok) rest then decided NO_RISK_AUTO ''Read-only git listing.'' argv
                         else decided RISKY_ASK (''git '' @ sub @ '' with arguments modifies repository state.'') argv
            | None \<Rightarrow>
                if sub \<in> set RISKY_GIT_SUBCOMMANDS then decided RISKY_ASK (''Git '' @ sub @ '' modifies repository state.'') argv
                else decided RISKY_ASK (''Unrecognised git command: '' @ sub) argv))"

definition first_or_empty :: "string list \<Rightarrow> string" where
  "first_or_empty args = (case args of [] \<Rightarrow> [] | a # _ \<Rightarrow> a)"

definition CHECK_TOOLS :: "string list" where
  "CHECK_TOOLS = [''pytest'', ''py.test'', ''tox'', ''nox'', ''mypy'', ''eslint'', ''tsc'', ''ruff'', ''black'', ''isort'', ''flake8'', ''pylint'']"

definition classify_toolchain :: "string \<Rightarrow> string list \<Rightarrow> string list \<Rightarrow> risk_decision option" where
  "classify_toolchain exe args argv =
     (let ok = (\<lambda>why. Some (decided CAREFUL_AUTO why argv)); ask = (\<lambda>why. Some (decided RISKY_ASK why argv));
          sub = first_or_empty args in
      if exe \<in> set CHECK_TOOLS then
        if exe = ''ruff'' \<and> take 1 args = [''format''] \<and> ''--check'' \<notin> set args \<and> ''--diff'' \<notin> set args
        then ask ''ruff format rewrites files.''
        else if exe \<in> {''black'', ''isort''} \<and> {''--check'', ''--diff'', ''-c''} \<inter> set args = {}
        then ask (exe @ '' rewrites files without --check.'')
        else if exe = ''eslint'' \<and> ''--fix'' \<in> set args then ask ''eslint --fix rewrites files.''
        else ok ''Test/check tool.''
      else if exe \<in> {''python'', ''python3''} \<and> take 1 args = [''-m''] \<and> length args \<ge> 2 then
        if args ! 1 \<in> set PY_TOOL_MODULES then ok ''Python test/check module.''
        else ask (''python -m '' @ args ! 1 @ '' runs arbitrary code.'')
      else if exe = ''prettier'' then
        (if ''--check'' \<in> set args then ok ''Formatter check.'' else ask ''prettier rewrites files without --check.'')
      else if exe \<in> set SCRIPT_RUNNERS then
        if sub \<in> set PKG_UNSAFE \<or> sub = [] then ask ''Package manager command may install or publish.''
        else if sub \<in> {''test'', ''run'', ''lint'', ''build'', ''typecheck'', ''check''} then ok ''Running a project script.''
        else ask ''Unrecognised package-manager command.''
      else if exe = ''cargo'' then
        if sub \<in> {''test'', ''check'', ''clippy'', ''build'', ''doc'', ''bench''} then ok ''Cargo build/test.''
        else if sub = ''fmt'' then (if ''--check'' \<in> set args then ok ''cargo fmt --check.'' else ask ''cargo fmt rewrites files.'')
        else ask ''Cargo command may install, publish or modify the lockfile.''
      else if exe = ''go'' then
        if sub \<in> {''test'', ''vet'', ''build''} then ok ''Go build/test.'' else ask ''Go command may fetch or run code.''
      else if exe = ''make'' then
        let ts = filter (\<lambda>a. \<not> prefix ''-'' a) args in
        if length ts \<le> 1 \<and> first_or_empty ts \<in> set MAKE_SAFE_TARGETS then ok ''make test/check target.''
        else ask ''make target is not a recognised test/check target.''
      else if exe \<in> {''mvn'', ''gradle'', ''gradlew'', ''dotnet''} then
        if args \<noteq> [] \<and> sub \<in> {''test'', ''verify'', ''check'', ''build''} then ok ''JVM/.NET build/test.''
        else ask ''Build tool command is not a recognised test/check target.''
      else None)"

definition classify_readonly :: "risk_env \<Rightarrow> string \<Rightarrow> string list \<Rightarrow> string option \<Rightarrow> risk_decision" where
  "classify_readonly env exe argv repo =
     (let args = tl argv in
      if exe = ''find'' \<and> list_ex (\<lambda>a. a \<in> set FIND_UNSAFE) args
      then decided RISKY_ASK ''find with an action (-exec/-delete/...) can modify files.'' argv
      else if exe = ''rg'' \<and> list_ex (prefix ''--pre'') args then decided RISKY_ASK ''rg --pre executes a command.'' argv
      else if exe = ''sort'' \<and> list_ex (\<lambda>a. a = ''-o'' \<or> prefix ''--output'' a) args
      then decided RISKY_ASK ''sort -o writes a file.'' argv
      else (case (if exe \<in> set PATH_READERS then path_args_outside env argv repo else None) of
          Some arg \<Rightarrow> decided RISKY_ASK (''Reads outside the repository: '' @ arg) argv
        | None \<Rightarrow> decided NO_RISK_AUTO ''Read-only command.'' argv))"

definition classify_argv :: "risk_env \<Rightarrow> string list \<Rightarrow> string option \<Rightarrow> risk_decision" where
  "classify_argv env argv repo =
     (let exe = basename (hd argv); args = tl argv in
      if CHR ''/'' \<in> set (hd argv) \<and> \<not> prefix ''/'' (hd argv) \<or> prefix ''./'' (hd argv)
      then decided RISKY_ASK ''Runs a repository-provided executable.'' argv
      else if exe \<in> {''python'', ''python3'', ''node''} \<and> args = [''--version''] then decided NO_RISK_AUTO ''Version check.'' argv
      else if exe \<in> set READONLY_EXECUTABLES then classify_readonly env exe argv repo
      else if exe = ''git'' then classify_git argv
      else (case classify_toolchain exe args argv of Some d \<Rightarrow> d
        | None \<Rightarrow>
            if exe \<in> {''pip'', ''pip3''} \<and> take 1 args \<in> {[''list''], [''show''], [''freeze''], [''check'']}
            then decided NO_RISK_AUTO ''Read-only pip query.'' argv
            else if exe \<in> {''pip'', ''pip3''} then decided RISKY_ASK ''Package installation downloads and runs third-party code.'' argv
            else if exe \<in> {''python'', ''python3'', ''node''} then decided RISKY_ASK ''Runs arbitrary code.'' argv
            else if exe \<in> {''curl'', ''wget'', ''docker'', ''podman'', ''ssh'', ''scp'', ''rsync''}
            then decided RISKY_ASK ''Command reaches the network or the container runtime.'' argv
            else if exe \<in> {''rm'', ''mv'', ''cp'', ''chmod'', ''chown'', ''ln'', ''tee'', ''dd'', ''truncate''}
            then decided RISKY_ASK ''Command may modify or delete files.'' argv
            else decided RISKY_ASK ''Unknown command requires approval.'' argv))"

definition classify_command :: "risk_env \<Rightarrow> string \<Rightarrow> string option \<Rightarrow> risk_decision" where
  "classify_command env command repo =
     (let stripped = str_strip command in
      if stripped = [] then decided NO_RISK_AUTO ''Empty command.'' []
      else if list_ex (\<lambda>p. search p stripped) BLOCKED_PATTERNS
      then decided BLOCKED ''Command matches a blocked destructive pattern.'' []
      else (case touches_sensitive env stripped of
          Some hit \<Rightarrow> decided BLOCKED (''Command accesses sensitive path: '' @ hit) []
        | None \<Rightarrow>
           let syntax = find_shell_syntax stripped in
           (case shlex_split stripped of
              None \<Rightarrow> (decided RISKY_ASK ''Could not parse command safely.'' [])\<lparr>rd_shell_syntax := syntax\<rparr>
            | Some argv \<Rightarrow>
               (case syntax of
                  Some sx \<Rightarrow> \<lparr>rd_level = RISKY_ASK,
                      rd_reason = ''Shell syntax ('' @ [squote] @ sx @ [squote] @ '') is not allowed in automatic commands; needs approval.'',
                      rd_argv = argv, rd_shell_syntax = Some sx\<rparr>
                | None \<Rightarrow> if argv = [] then decided NO_RISK_AUTO ''Empty command.'' [] else classify_argv env argv repo))))"

section \<open>Side effects\<close>

definition NETWORK_TOOLS :: "string list" where
  "NETWORK_TOOLS = [''curl'', ''wget'', ''ssh'', ''scp'', ''sftp'', ''rsync'', ''nc'', ''ncat'', ''telnet'', ''ftp'', ''docker'', ''podman'',
     ''kubectl'', ''helm'', ''terraform'', ''aws'', ''gcloud'', ''az'']"

definition DELETERS :: "string list" where
  "DELETERS = [''rm'', ''rmdir'', ''shred'', ''dd'', ''mkfs'', ''truncate'']"

definition WORKSPACE_WRITERS :: "string list" where
  "WORKSPACE_WRITERS = [''cp'', ''mv'', ''mkdir'', ''touch'', ''tee'', ''chmod'', ''chown'', ''ln'', ''sed'', ''patch'', ''tar'', ''unzip'']"

definition INSTALLERS :: "string list" where
  "INSTALLERS = [''pip'', ''pip3'', ''npm'', ''yarn'', ''pnpm'', ''gem'', ''cargo'', ''apt'', ''apt-get'', ''brew'', ''go'', ''dnf'', ''yum'']"

definition command_effect :: "risk_decision \<Rightarrow> side_effect" where
  "command_effect d =
     (if rd_level d = BLOCKED then DESTRUCTIVE
      else if rd_level d = NO_RISK_AUTO then (if rd_argv d \<noteq> [] then READ_ONLY else PURE)
      else if rd_level d = CAREFUL_AUTO then WORKSPACE_WRITE
      else if (rd_shell_syntax d \<noteq> None \<and> rd_shell_syntax d \<noteq> Some []) \<or> rd_argv d = [] then UNKNOWN
      else
        let exe = basename (hd (rd_argv d)) in
        if exe = ''git'' then
          let sub = (case find (\<lambda>a. \<not> prefix ''-'' a) (tl (rd_argv d)) of Some a \<Rightarrow> a | None \<Rightarrow> []) in
          if sub \<in> {''push'', ''remote'', ''fetch'', ''pull'', ''clone''} then EXTERNAL_WRITE else REPOSITORY_WRITE
        else if exe \<in> set NETWORK_TOOLS then EXTERNAL_WRITE
        else if exe \<in> set DELETERS then DESTRUCTIVE
        else if exe \<in> set INSTALLERS then HOST_MUTATION
        else if exe \<in> set WORKSPACE_WRITERS then WORKSPACE_WRITE
        else UNKNOWN)"

section \<open>What an automatic command is\<close>

definition AUTO_EXECUTABLES :: "string list" where
  "AUTO_EXECUTABLES = READONLY_EXECUTABLES @ CHECK_TOOLS @ SCRIPT_RUNNERS @
     [''git'', ''python'', ''python3'', ''node'', ''pip'', ''pip3'', ''prettier'', ''cargo'', ''go'', ''make'', ''mvn'', ''gradle'', ''gradlew'', ''dotnet'']"

lemma decided_simps [simp]:
  "rd_level (decided l why argv) = l" "rd_argv (decided l why argv) = argv" "rd_shell_syntax (decided l why argv) = None"
  by (simp_all add: decided_def)

lemma auto_run_decided [simp]: "auto_run (decided l why argv) \<longleftrightarrow> l = NO_RISK_AUTO \<or> l = CAREFUL_AUTO"
  by (auto simp: auto_run_def)

lemma toolchain_exe:
  assumes "classify_toolchain exe args argv = Some d" "auto_run d"
  shows "exe \<in> set CHECK_TOOLS \<union> set SCRIPT_RUNNERS \<union>
    {''python'', ''python3'', ''prettier'', ''cargo'', ''go'', ''make'', ''mvn'', ''gradle'', ''gradlew'', ''dotnet''}"
proof (rule ccontr)
  assume "\<not> ?thesis"
  then have "classify_toolchain exe args argv = None" by (simp add: classify_toolchain_def Let_def)
  then show False using assms(1) by simp
qed

lemma classify_argv_exe:
  assumes "auto_run (classify_argv env argv repo)"
  shows "basename (hd argv) \<in> set AUTO_EXECUTABLES" "CHR ''/'' \<in> set (hd argv) \<Longrightarrow> prefix ''/'' (hd argv)"
proof -
  show "CHR ''/'' \<in> set (hd argv) \<Longrightarrow> prefix ''/'' (hd argv)"
    using assms by (auto simp: classify_argv_def Let_def split: if_splits)
  show "basename (hd argv) \<in> set AUTO_EXECUTABLES"
  proof (cases "classify_toolchain (basename (hd argv)) (tl argv) argv")
    case None
    then show ?thesis using assms unfolding classify_argv_def AUTO_EXECUTABLES_def Let_def
      by (simp split: if_splits) blast+
  next
    case (Some d)
    then show ?thesis using assms toolchain_exe [OF Some] unfolding classify_argv_def AUTO_EXECUTABLES_def Let_def
      by (simp split: if_splits) blast+
  qed
qed

lemma classify_command_argv:
  assumes "auto_run (classify_command env command repo)" "str_strip command \<noteq> []" "shlex_split (str_strip command) \<noteq> Some []"
  obtains argv where "shlex_split (str_strip command) = Some argv" "argv \<noteq> []" "find_shell_syntax (str_strip command) = None"
    "\<forall>p \<in> set BLOCKED_PATTERNS. \<not> search p (str_strip command)" "touches_sensitive env (str_strip command) = None"
    "classify_command env command repo = classify_argv env argv repo"
proof -
  have nb: "\<not> list_ex (\<lambda>p. search p (str_strip command)) BLOCKED_PATTERNS" and ts: "touches_sensitive env (str_strip command) = None"
    using assms(1,2) by (auto simp: classify_command_def Let_def split: if_splits option.splits)
  moreover obtain argv where "shlex_split (str_strip command) = Some argv"
    using assms(1,2) nb ts by (auto simp: classify_command_def Let_def auto_run_def split: option.splits)
  moreover have "find_shell_syntax (str_strip command) = None"
    using assms(1,2) calculation by (auto simp: classify_command_def Let_def auto_run_def split: option.splits)
  ultimately show thesis using that assms(2,3) by (auto simp: classify_command_def Let_def list_ex_iff)
qed

text \<open>
  C23: An automatic command is a vetted one. A command that is run without asking is empty, or splits into words, has no shell syntax,
  matches no destructive pattern, mentions no sensitive path, starts an executable of the allow-lists that is not given by a relative
  path, and its side-effect class is at most a write in the workspace.
\<close>

theorem automatic_command_is_vetted:
  assumes "auto_run (classify_command env command repo)" "str_strip command \<noteq> []" "shlex_split (str_strip command) \<noteq> Some []"
  shows "\<exists>exe args. shlex_split (str_strip command) = Some (exe # args) \<and> find_shell_syntax (str_strip command) = None \<and>
    (\<forall>p \<in> set BLOCKED_PATTERNS. \<not> search p (str_strip command)) \<and> touches_sensitive env (str_strip command) = None \<and>
    basename exe \<in> set AUTO_EXECUTABLES \<and> (CHR ''/'' \<in> set exe \<longrightarrow> prefix ''/'' exe) \<and>
    command_effect (classify_command env command repo) \<in> {PURE, READ_ONLY, WORKSPACE_WRITE}"
proof -
  obtain argv where a: "shlex_split (str_strip command) = Some argv" "argv \<noteq> []" "find_shell_syntax (str_strip command) = None"
      "\<forall>p \<in> set BLOCKED_PATTERNS. \<not> search p (str_strip command)" "touches_sensitive env (str_strip command) = None"
      "classify_command env command repo = classify_argv env argv repo"
    using assms by (rule classify_command_argv)
  obtain exe args where e: "argv = exe # args" using a(2) by (cases argv) auto
  have "command_effect (classify_command env command repo) \<in> {PURE, READ_ONLY, WORKSPACE_WRITE}"
    using assms(1) by (auto simp: command_effect_def auto_run_def)
  moreover have "auto_run (classify_argv env argv repo)" using assms(1) a(6) by simp
  ultimately show ?thesis using a e classify_argv_exe [of env argv repo] by auto
qed

definition plain_home :: risk_env where
  "plain_home = \<lparr>re_home = ''/home/u'', re_forbidden = [''/home/u/.ssh''], re_resolve = id\<rparr>"

definition levels_of :: "string list \<Rightarrow> risk_level list" where
  "levels_of = map (\<lambda>c. rd_level (classify_command plain_home c (Some ''/work'')))"

lemma make_test_level: "levels_of [''make test''] = [CAREFUL_AUTO]"
  by code_simp

theorem automatic_command_is_vetted_witness:
  "\<exists>exe args. shlex_split ''make test'' = Some (exe # args) \<and> basename exe \<in> set AUTO_EXECUTABLES"
proof -
  have "auto_run (classify_command plain_home ''make test'' (Some ''/work''))"
    using make_test_level by (simp add: levels_of_def auto_run_def)
  moreover have s: "str_strip ''make test'' = ''make test''" by code_simp
  moreover have "shlex_split ''make test'' \<noteq> Some []" by code_simp
  ultimately show ?thesis using automatic_command_is_vetted [of plain_home "''make test''" "Some ''/work''"] by auto
qed

section \<open>Shell syntax is never automatic\<close>

lemma shell_scan_unquoted:
  assumes "c \<in> set (CHR 0x60 # '';&|<>()'')" "\<forall>x \<in> set pre. x \<noteq> squote \<and> x \<noteq> dquote \<and> x \<noteq> backslash"
  shows "shell_scan None (pre @ c # post) \<noteq> None"
  using assms(2)
proof (induction pre)
  case Nil
  then show ?case using assms(1) by auto
qed auto

lemma strip_around:
  assumes "\<not> is_space c"
  shows "str_strip (pre @ c # post) = dropWhile is_space pre @ c # rstrip_by is_space post"
proof -
  have l: "lstrip_by is_space (pre @ c # post) = dropWhile is_space pre @ c # post"
    using assms by (induction pre) (auto simp: lstrip_by_def)
  have r: "rstrip_by is_space (x @ c # post) = x @ c # rstrip_by is_space post" for x
    using assms by (simp add: rstrip_by_def dropWhile_append)
  show ?thesis by (simp only: str_strip_def l r)
qed

text \<open>
  A command with a shell metacharacter outside quotes never runs automatically, whatever stands before and after it: \<open>make test; curl evil\<close>
  is not a \<open>make test\<close>.
\<close>

theorem unquoted_shell_syntax_asks:
  assumes "c \<in> set (CHR 0x60 # '';&|<>()'')" "\<forall>x \<in> set pre. x \<noteq> squote \<and> x \<noteq> dquote \<and> x \<noteq> backslash"
  shows "\<not> auto_run (classify_command env (pre @ c # post) repo)"
proof
  let ?s = "str_strip (pre @ c # post)"
  assume auto: "auto_run (classify_command env (pre @ c # post) repo)"
  have "\<not> is_space c" using assms(1) by (auto simp: is_space_def)
  then have s: "?s = dropWhile is_space pre @ c # rstrip_by is_space post" by (rule strip_around)
  have "find_shell_syntax ?s \<noteq> None"
    unfolding s find_shell_syntax_def by (rule shell_scan_unquoted [OF assms(1)]) (use assms(2) in \<open>auto dest: set_dropWhileD\<close>)
  moreover have "?s \<noteq> []" using s by simp
  ultimately show False using auto
    by (auto simp: classify_command_def Let_def auto_run_def split: if_splits option.splits)
qed

theorem unquoted_shell_syntax_asks_witness:
  "\<not> auto_run (classify_command plain_home (''make test'' @ CHR '';'' # '' curl evil'') (Some ''/work''))"
  using unquoted_shell_syntax_asks [of "CHR '';''" "''make test''"] by simp

text \<open>
  Two commands that are classified as read-only although they are not: an executable given by an absolute path is judged by its name
  alone, so a program of the repository may call itself \<open>ls\<close>; and the output option of \<open>sort\<close> is only recognised as a word of its own.
\<close>

theorem readonly_names_are_not_enough:
  "levels_of [''/work/build/ls'', ''sort -o/work/a.py b''] = [NO_RISK_AUTO, NO_RISK_AUTO]"
  by code_simp

end
