(* ===== verification/Workflow_Def.thy ===== *)
theory Workflow_Def
  imports Effects Regex
begin

text \<open>
  Workflow definitions (\<open>domain/workflows.py\<close>): the data, parsing and the plain-data form, templates, conditions and event
  filters. A problem is its machine-readable code and the node it is about; the message texts are left out. Exceptions other than
  the module's own (\<open>TypeError\<close> on values of the wrong kind) are the error \<open>Crash\<close>. The text of a value that is not a
  string is the parameter \<open>show_val\<close>.

  The lemmas show that a parsed definition survives the trip through its plain-data form, and what rendering and conditions do.
\<close>

section \<open>Data\<close>

definition SCHEMA_VERSION :: int where "SCHEMA_VERSION = 1"
definition MAX_NODES :: nat where "MAX_NODES = 200"
definition MAX_VISITS_LIMIT :: int where "MAX_VISITS_LIMIT = 20"
definition MAX_COORDINATE :: rat where "MAX_COORDINATE = 100000"

datatype node_type = AGENT | ACTION | CONDITION | APPROVAL | WAIT_EVENT | TIMER | END

fun node_type_value :: "node_type \<Rightarrow> string" where
  "node_type_value AGENT = ''agent''"
| "node_type_value ACTION = ''action''"
| "node_type_value CONDITION = ''condition''"
| "node_type_value APPROVAL = ''approval''"
| "node_type_value WAIT_EVENT = ''wait_event''"
| "node_type_value TIMER = ''timer''"
| "node_type_value END = ''end''"

definition node_type_of :: "string \<Rightarrow> node_type option" where
  "node_type_of s = find (\<lambda>t. node_type_value t = s) [AGENT, ACTION, CONDITION, APPROVAL, WAIT_EVENT, TIMER, END]"

fun ALLOWED_CONFIG :: "node_type \<Rightarrow> string list" where
  "ALLOWED_CONFIG AGENT = [''task'', ''repo'', ''provider'', ''model'', ''base_url'', ''overrides'', ''on_failure'']"
| "ALLOWED_CONFIG ACTION = [''action'', ''params'', ''on_failure'']"
| "ALLOWED_CONFIG CONDITION = [''if'']"
| "ALLOWED_CONFIG APPROVAL = [''message'', ''timeout_s'']"
| "ALLOWED_CONFIG WAIT_EVENT = [''event'', ''filter'', ''timeout_s'']"
| "ALLOWED_CONFIG TIMER = [''seconds'']"
| "ALLOWED_CONFIG END = [''result'']"

definition REQUIRES_APPROVAL_EFFECTS :: "side_effect set" where
  "REQUIRES_APPROVAL_EFFECTS = {EXTERNAL_WRITE, DESTRUCTIVE, HOST_MUTATION, REPOSITORY_WRITE, UNKNOWN}"

definition EDGE_LABELS :: "string list" where
  "EDGE_LABELS = [''true'', ''false'', ''approved'', ''denied'', ''timeout'', ''failed'']"

definition OPERATORS :: "string list" where
  "OPERATORS = [''eq'', ''ne'', ''gt'', ''ge'', ''lt'', ''le'', ''in'', ''contains'', ''exists'']"

record wf_node =
  nd_id :: string
  nd_type :: node_type
  nd_config :: "pyval dict"
  max_visits :: int

record wf_edge =
  ed_source :: string
  ed_target :: string
  ed_when :: "string option"

record wf_trigger =
  tr_type :: string
  tr_filter :: "pyval dict"

record workflow =
  wf_name :: string
  wf_trigger :: wf_trigger
  wf_nodes :: "wf_node list"
  wf_edges :: "wf_edge list"
  wf_variables :: "pyval dict dict"
  wf_description :: string
  wf_schema :: int
  wf_layout :: "(rat \<times> rat) dict"

definition find_node :: "workflow \<Rightarrow> string \<Rightarrow> wf_node option" where
  "find_node flow i = find (\<lambda>n. nd_id n = i) (wf_nodes flow)"

definition outgoing :: "workflow \<Rightarrow> string \<Rightarrow> wf_edge list" where
  "outgoing flow i = filter (\<lambda>e. ed_source e = i) (wf_edges flow)"

definition incoming :: "workflow \<Rightarrow> string \<Rightarrow> wf_edge list" where
  "incoming flow i = filter (\<lambda>e. ed_target e = i) (wf_edges flow)"

definition wf_entries :: "workflow \<Rightarrow> wf_node list" where
  "wf_entries flow = filter (\<lambda>n. nd_id n \<notin> ed_target ` set (wf_edges flow)) (wf_nodes flow)"

record problem =
  pb_code :: string
  pb_node :: "string option"

section \<open>Parsing\<close>

datatype wf_error = DefinitionError "problem list" | Crash

definition bad :: "string \<Rightarrow> string option \<Rightarrow> problem" where
  "bad code i = \<lparr>pb_code = code, pb_node = i\<rparr>"

definition problem_if :: "bool \<Rightarrow> string \<Rightarrow> string option \<Rightarrow> problem list" where
  "problem_if c code i = (if c then [bad code i] else [])"

definition is_letter :: "char \<Rightarrow> bool" where
  "is_letter c \<longleftrightarrow> is_lower c \<or> is_upper c"

fun workflow_name_ok :: "string \<Rightarrow> bool" where
  "workflow_name_ok [] = False"
| "workflow_name_ok (c # cs) \<longleftrightarrow> is_alnum c \<and> length cs \<le> 63 \<and> list_all (\<lambda>x. is_alnum x \<or> x \<in> set '' _.-'') cs"

fun node_id_ok :: "string \<Rightarrow> bool" where
  "node_id_ok [] = False"
| "node_id_ok (c # cs) \<longleftrightarrow> is_letter c \<and> length cs \<le> 40 \<and> list_all (\<lambda>x. is_alnum x \<or> x = CHR ''_'') cs"

text \<open>\<open>d.get(k) or {}\<close>, and whether it is a mapping.\<close>

definition or_dict :: "pyval dict \<Rightarrow> string \<Rightarrow> pyval dict option" where
  "or_dict d k = (if truthy (dget d k VNone) then as_dict (dget d k VNone) else Some [])"

definition parse_trigger :: "pyval dict \<Rightarrow> problem list \<times> wf_trigger" where
  "parse_trigger raw =
     (case as_dict (dget raw ''trigger'' VNone) of
        None \<Rightarrow> ([bad ''trigger'' None], \<lparr>tr_type = ''manual'', tr_filter = []\<rparr>)
      | Some t \<Rightarrow>
         (case dget t ''type'' VNone of
            VStr (c # cs) \<Rightarrow>
              (problem_if (extra_keys t [''type'', ''filter''] \<noteq> []) ''unknown_field'' None @
               problem_if (or_dict t ''filter'' = None) ''trigger_filter'' None,
               \<lparr>tr_type = c # cs, tr_filter = (case or_dict t ''filter'' of Some f \<Rightarrow> f | None \<Rightarrow> [])\<rparr>)
          | _ \<Rightarrow> ([bad ''trigger'' None], \<lparr>tr_type = ''manual'', tr_filter = []\<rparr>)))"

definition parse_visits :: "pyval \<Rightarrow> int option" where
  "parse_visits v = (case v of VInt i \<Rightarrow> if 1 \<le> i \<and> i \<le> MAX_VISITS_LIMIT then Some i else None | _ \<Rightarrow> None)"

definition parse_node :: "(pyval \<Rightarrow> string) \<Rightarrow> pyval \<Rightarrow> problem list \<times> wf_node list" where
  "parse_node show_val item =
     (case as_dict item of None \<Rightarrow> ([bad ''node_id'' None], [])
      | Some d \<Rightarrow>
         (case as_str (dget d ''id'' VNone) of None \<Rightarrow> ([bad ''node_id'' None], [])
          | Some i \<Rightarrow>
              if \<not> node_id_ok i then ([bad ''node_id'' None], [])
              else (case node_type_of (py_str show_val (dget d ''type'' VNone)) of
                  None \<Rightarrow> ([bad ''node_type'' (Some i)], [])
                | Some ty \<Rightarrow>
                    let config = or_dict d ''config'';
                        cfg = (case config of Some c \<Rightarrow> c | None \<Rightarrow> []);
                        visits = parse_visits (dget d ''max_visits'' (VInt 1)) in
                    (problem_if (extra_keys d [''id'', ''type'', ''config'', ''max_visits''] \<noteq> []) ''unknown_field'' (Some i) @
                     problem_if (config = None) ''config'' (Some i) @
                     problem_if (extra_keys cfg (ALLOWED_CONFIG ty) \<noteq> []) ''unknown_config'' (Some i) @
                     problem_if (visits = None) ''max_visits'' (Some i),
                     [\<lparr>nd_id = i, nd_type = ty, nd_config = cfg, max_visits = (case visits of Some v \<Rightarrow> v | None \<Rightarrow> 1)\<rparr>]))))"

text \<open>
  An edge item. A label is looked up in a frozen set, so a list or dictionary in its place raises \<open>TypeError\<close>.
\<close>

definition edge_label :: "pyval \<Rightarrow> wf_error + problem list \<times> string option" where
  "edge_label w =
     (case w of VNone \<Rightarrow> Inr ([], None)
      | VStr s \<Rightarrow> Inr (if s \<in> set EDGE_LABELS then ([], Some s) else ([bad ''edge_label'' None], None))
      | VList _ \<Rightarrow> Inl Crash | VDict _ \<Rightarrow> Inl Crash
      | _ \<Rightarrow> Inr ([bad ''edge_label'' None], None))"

definition parse_edge :: "pyval \<Rightarrow> wf_error + problem list \<times> wf_edge list" where
  "parse_edge item =
     (case as_dict item of None \<Rightarrow> Inr ([bad ''edge'' None], [])
      | Some d \<Rightarrow>
         (case (as_str (dget d ''from'' VNone), as_str (dget d ''to'' VNone)) of
            (Some a, Some b) \<Rightarrow>
              bind_r (edge_label (dget d ''when'' VNone)) (\<lambda>(ps, w).
                Inr (ps @ problem_if (extra_keys d [''from'', ''to'', ''when''] \<noteq> []) ''unknown_field'' None,
                     [\<lparr>ed_source = a, ed_target = b, ed_when = w\<rparr>]))
          | _ \<Rightarrow> Inr ([bad ''edge'' None], [])))"

definition all_dicts :: "pyval dict \<Rightarrow> pyval dict dict option" where
  "all_dicts d = (if list_all (\<lambda>(k, v). as_dict v \<noteq> None) d then Some (map (\<lambda>(k, v). (k, case as_dict v of Some e \<Rightarrow> e | None \<Rightarrow> [])) d) else None)"

definition parse_position :: "pyval \<Rightarrow> (rat \<times> rat) option" where
  "parse_position pos =
     (case as_dict pos of None \<Rightarrow> None
      | Some d \<Rightarrow>
         if set (map fst d) = {''x'', ''y''}
         then (case (as_number (dget d ''x'' VNone), as_number (dget d ''y'' VNone)) of
             (Some x, Some y) \<Rightarrow> if \<bar>x\<bar> \<le> MAX_COORDINATE \<and> \<bar>y\<bar> \<le> MAX_COORDINATE then Some (x, y) else None
           | _ \<Rightarrow> None)
         else None)"

definition parse_layout_entry :: "string list \<Rightarrow> string \<times> pyval \<Rightarrow> problem list \<times> (rat \<times> rat) dict" where
  "parse_layout_entry known kv =
     (case parse_position (snd kv) of
        Some xy \<Rightarrow> if fst kv \<in> set known then ([], [(fst kv, xy)]) else ([bad ''layout'' None], [])
      | None \<Rightarrow> ([bad ''layout'' None], []))"

definition TOP_FIELDS :: "string list" where
  "TOP_FIELDS = [''schema'', ''name'', ''description'', ''trigger'', ''nodes'', ''edges'', ''variables'', ''layout'']"

definition gather :: "('p list \<times> 'x list) list \<Rightarrow> 'p list \<times> 'x list" where
  "gather rs = (concat (map fst rs), concat (map snd rs))"

definition raw_nodes :: "pyval dict \<Rightarrow> pyval list" where
  "raw_nodes raw = (case as_list (dget raw ''nodes'' VNone) of Some xs \<Rightarrow> xs | None \<Rightarrow> [])"

definition parse_nodes :: "(pyval \<Rightarrow> string) \<Rightarrow> pyval dict \<Rightarrow> problem list \<times> wf_node list" where
  "parse_nodes show_val raw = gather (map (parse_node show_val) (take MAX_NODES (raw_nodes raw)))"

text \<open>\<open>raw.get("edges") or []\<close> as a loop sees it.\<close>

definition raw_edges :: "pyval dict \<Rightarrow> wf_error + pyval list" where
  "raw_edges raw =
     (if truthy (dget raw ''edges'' VNone)
      then (case py_iter (dget raw ''edges'' VNone) of Some xs \<Rightarrow> Inr xs | None \<Rightarrow> Inl Crash) else Inr [])"

definition parse_edges :: "pyval dict \<Rightarrow> wf_error + problem list \<times> wf_edge list" where
  "parse_edges raw = bind_r (raw_edges raw) (\<lambda>items. bind_r (map_r parse_edge items) (\<lambda>es. Inr (gather es)))"

definition parse_variables :: "pyval dict \<Rightarrow> pyval dict dict option" where
  "parse_variables raw = (case or_dict raw ''variables'' of Some d \<Rightarrow> all_dicts d | None \<Rightarrow> None)"

definition parse_layout :: "string list \<Rightarrow> pyval dict \<Rightarrow> problem list \<times> (rat \<times> rat) dict" where
  "parse_layout known raw =
     (case or_dict raw ''layout'' of None \<Rightarrow> ([bad ''layout'' None], []) | Some l \<Rightarrow> gather (map (parse_layout_entry known) l))"

definition parse_description :: "(pyval \<Rightarrow> string) \<Rightarrow> pyval dict \<Rightarrow> string" where
  "parse_description show_val raw =
     (if truthy (dget raw ''description'' VNone) then py_str show_val (dget raw ''description'' VNone) else [])"

definition parse_name :: "pyval dict \<Rightarrow> string option" where
  "parse_name raw = (case as_str (dget raw ''name'' VNone) of Some s \<Rightarrow> if workflow_name_ok s then Some s else None | None \<Rightarrow> None)"

definition schema_ok :: "pyval dict \<Rightarrow> bool" where
  "schema_ok raw \<longleftrightarrow> py_eq (dget raw ''schema'' (VInt SCHEMA_VERSION)) (VInt SCHEMA_VERSION)"

definition parse_problems :: "(pyval \<Rightarrow> string) \<Rightarrow> pyval dict \<Rightarrow> problem list \<Rightarrow> problem list" where
  "parse_problems show_val raw edge_problems =
     problem_if (extra_keys raw TOP_FIELDS \<noteq> []) ''unknown_field'' None @
     problem_if (\<not> schema_ok raw) ''schema_version'' None @
     problem_if (parse_name raw = None) ''name'' None @ fst (parse_trigger raw) @
     problem_if (raw_nodes raw = []) ''nodes'' None @
     problem_if (length (raw_nodes raw) > MAX_NODES) ''too_many_nodes'' None @ fst (parse_nodes show_val raw) @ edge_problems @
     problem_if (parse_variables raw = None) ''variables'' None @
     fst (parse_layout (map nd_id (snd (parse_nodes show_val raw))) raw)"

definition parse_workflow :: "(pyval \<Rightarrow> string) \<Rightarrow> pyval dict \<Rightarrow> wf_error + workflow" where
  "parse_workflow show_val raw =
     bind_r (parse_edges raw) (\<lambda>edges.
       if parse_problems show_val raw (fst edges) \<noteq> [] then Inl (DefinitionError (parse_problems show_val raw (fst edges)))
       else Inr \<lparr>wf_name = (case parse_name raw of Some s \<Rightarrow> s | None \<Rightarrow> []), wf_trigger = snd (parse_trigger raw),
              wf_nodes = snd (parse_nodes show_val raw), wf_edges = snd edges,
              wf_variables = (case parse_variables raw of Some v \<Rightarrow> v | None \<Rightarrow> []),
              wf_description = parse_description show_val raw, wf_schema = SCHEMA_VERSION,
              wf_layout = snd (parse_layout (map nd_id (snd (parse_nodes show_val raw))) raw)\<rparr>)"

section \<open>The plain-data form\<close>

definition node_dict :: "wf_node \<Rightarrow> pyval" where
  "node_dict n = VDict ([(''id'', VStr (nd_id n)), (''type'', VStr (node_type_value (nd_type n))), (''config'', VDict (nd_config n))] @
     (if max_visits n \<noteq> 1 then [(''max_visits'', VInt (max_visits n))] else []))"

definition edge_dict :: "wf_edge \<Rightarrow> pyval" where
  "edge_dict e = VDict ([(''from'', VStr (ed_source e)), (''to'', VStr (ed_target e))] @
     (case ed_when e of Some w \<Rightarrow> if w \<noteq> [] then [(''when'', VStr w)] else [] | None \<Rightarrow> []))"

definition to_dict :: "workflow \<Rightarrow> pyval dict" where
  "to_dict flow =
     [(''schema'', VInt (wf_schema flow)), (''name'', VStr (wf_name flow)), (''description'', VStr (wf_description flow)),
      (''trigger'', VDict [(''type'', VStr (tr_type (wf_trigger flow))), (''filter'', VDict (tr_filter (wf_trigger flow)))]),
      (''nodes'', VList (map node_dict (wf_nodes flow))), (''edges'', VList (map edge_dict (wf_edges flow))),
      (''variables'', VDict (map (\<lambda>(k, v). (k, VDict v)) (wf_variables flow)))] @
     (if wf_layout flow \<noteq> []
      then [(''layout'', VDict (map (\<lambda>(k, x, y). (k, VDict [(''x'', VFloat x), (''y'', VFloat y)])) (wf_layout flow)))] else [])"

section \<open>A parsed definition survives the round trip\<close>

text \<open>What every parsed definition satisfies.\<close>

definition node_wf :: "wf_node \<Rightarrow> bool" where
  "node_wf n \<longleftrightarrow> node_id_ok (nd_id n) \<and> extra_keys (nd_config n) (ALLOWED_CONFIG (nd_type n)) = [] \<and> 1 \<le> max_visits n \<and> max_visits n \<le> MAX_VISITS_LIMIT"

definition edge_wf :: "wf_edge \<Rightarrow> bool" where
  "edge_wf e \<longleftrightarrow> (\<forall>w. ed_when e = Some w \<longrightarrow> w \<in> set EDGE_LABELS)"

definition place_wf :: "string list \<Rightarrow> string \<times> rat \<times> rat \<Rightarrow> bool" where
  "place_wf known p \<longleftrightarrow> fst p \<in> set known \<and> \<bar>fst (snd p)\<bar> \<le> MAX_COORDINATE \<and> \<bar>snd (snd p)\<bar> \<le> MAX_COORDINATE"

definition workflow_wf :: "workflow \<Rightarrow> bool" where
  "workflow_wf flow \<longleftrightarrow> workflow_name_ok (wf_name flow) \<and> tr_type (wf_trigger flow) \<noteq> [] \<and> wf_nodes flow \<noteq> [] \<and> length (wf_nodes flow) \<le> MAX_NODES \<and>
     list_all node_wf (wf_nodes flow) \<and> list_all edge_wf (wf_edges flow) \<and> wf_schema flow = SCHEMA_VERSION \<and>
     list_all (place_wf (map nd_id (wf_nodes flow))) (wf_layout flow)"

lemma problem_if_Nil [simp]: "problem_if c code i = [] \<longleftrightarrow> \<not> c" "problem_if False code i = []"
  by (simp_all add: problem_if_def)

lemma gather_clean: "fst (gather rs) = [] \<longleftrightarrow> (\<forall>r \<in> set rs. fst r = [])"
  by (auto simp: gather_def)

lemma gather_single: "(\<And>x. x \<in> set xs \<Longrightarrow> f x = ([], [g x])) \<Longrightarrow> gather (map f xs) = ([], map g xs)"
  by (induction xs) (auto simp: gather_def)

lemma node_type_of_value [simp]: "node_type_of (node_type_value t) = Some t"
  by (cases t) (simp_all add: node_type_of_def)

lemma parse_node_clean:
  assumes "fst (parse_node show_val item) = []"
  shows "\<exists>n. snd (parse_node show_val item) = [n] \<and> node_wf n"
  using assms
  by (auto simp: parse_node_def node_wf_def parse_visits_def Let_def bad_def split: option.splits if_splits pyval.splits)

lemma parse_node_dict:
  assumes "node_wf n"
  shows "parse_node show_val (node_dict n) = ([], [n])"
  using assms
  by (cases "nd_config n = []")
     (auto simp: parse_node_def node_dict_def node_wf_def parse_visits_def problem_if_def extra_keys_def or_dict_def dget_def py_str_def MAX_VISITS_LIMIT_def)

lemma parse_edge_clean:
  assumes "parse_edge item = Inr r" "fst r = []"
  shows "\<exists>e. snd r = [e] \<and> edge_wf e"
  using assms
  by (auto simp: parse_edge_def edge_label_def edge_wf_def result_simps bad_def split: option.splits pyval.splits if_splits)

lemma parse_edge_dict:
  assumes "edge_wf e"
  shows "parse_edge (edge_dict e) = Inr ([], [e])"
proof (cases "ed_when e")
  case None
  then show ?thesis by (simp add: parse_edge_def edge_dict_def edge_label_def dget_def problem_if_def extra_keys_def)
next
  case (Some l)
  then have "l \<in> set EDGE_LABELS" "l \<noteq> []" using assms by (auto simp: edge_wf_def EDGE_LABELS_def)
  then show ?thesis using Some by (simp add: parse_edge_def edge_dict_def edge_label_def dget_def problem_if_def extra_keys_def)
qed

lemma parse_layout_clean:
  assumes "fst (parse_layout_entry known kv) = []"
  shows "\<exists>p. snd (parse_layout_entry known kv) = [p] \<and> place_wf known p"
proof (cases "parse_position (snd kv)")
  case (Some xy)
  then have "\<bar>fst xy\<bar> \<le> MAX_COORDINATE \<and> \<bar>snd xy\<bar> \<le> MAX_COORDINATE"
    unfolding parse_position_def by (clarsimp split: option.splits if_splits)
  then show ?thesis using assms Some by (cases xy) (auto simp: parse_layout_entry_def place_wf_def split: if_splits)
qed (use assms in \<open>simp add: parse_layout_entry_def\<close>)

lemma parse_layout_dict:
  assumes "k \<in> set known" "\<bar>x\<bar> \<le> MAX_COORDINATE" "\<bar>y\<bar> \<le> MAX_COORDINATE"
  shows "parse_layout_entry known (k, VDict [(''x'', VFloat x), (''y'', VFloat y)]) = ([], [(k, x, y)])"
proof -
  have "set (map fst [(''x'', VFloat x), (''y'', VFloat y)]) = {''x'', ''y''}" by simp
  then show ?thesis using assms by (simp add: parse_layout_entry_def parse_position_def dget_def del: list.map)
qed

text \<open>Parsing yields well-formed definitions only.\<close>

lemma gather_Cons: "gather (r # rs) = (fst r @ fst (gather rs), snd r @ snd (gather rs))"
  by (simp add: gather_def)

lemma gather_all:
  assumes "fst (gather rs) = []" "\<And>r. r \<in> set rs \<Longrightarrow> fst r = [] \<Longrightarrow> \<exists>x. snd r = [x] \<and> P x"
  shows "list_all P (snd (gather rs)) \<and> length (snd (gather rs)) = length rs"
  using assms
proof (induction rs)
  case (Cons r rs)
  have "fst r = []" "fst (gather rs) = []" using Cons.prems(1) by (simp_all add: gather_Cons)
  moreover obtain x where "snd r = [x]" "P x" using Cons.prems(2) [of r] calculation by auto
  ultimately show ?case using Cons by (simp add: gather_Cons)
qed (simp add: gather_def)

lemma parse_nodes_wf:
  assumes "fst (parse_nodes show_val raw) = []"
  shows "list_all node_wf (snd (parse_nodes show_val raw)) \<and> length (snd (parse_nodes show_val raw)) = length (take MAX_NODES (raw_nodes raw))"
proof -
  let ?rs = "map (parse_node show_val) (take MAX_NODES (raw_nodes raw))"
  have "\<exists>x. snd r = [x] \<and> node_wf x" if "r \<in> set ?rs" "fst r = []" for r
    using that parse_node_clean by (auto simp del: split_paired_Ex)
  then have "list_all node_wf (snd (gather ?rs)) \<and> length (snd (gather ?rs)) = length ?rs"
    using gather_all [of ?rs node_wf] assms by (simp add: parse_nodes_def)
  then show ?thesis by (simp add: parse_nodes_def)
qed

lemma parse_edges_wf:
  assumes "parse_edges raw = Inr es" "fst es = []"
  shows "list_all edge_wf (snd es)"
proof -
  obtain items rs where rs: "map_r parse_edge items = Inr rs" "es = gather rs" using assms(1) by (auto simp: parse_edges_def result_simps)
  have "\<forall>r \<in> set rs. fst r = [] \<longrightarrow> (\<exists>x. snd r = [x] \<and> edge_wf x)"
    using rs(1) by (rule map_r_all) (use parse_edge_clean in blast)
  then show ?thesis using gather_all [of rs edge_wf] assms(2) rs(2) by blast
qed

lemma parse_layout_wf:
  assumes "fst (parse_layout known raw) = []"
  shows "list_all (place_wf known) (snd (parse_layout known raw))"
proof (cases "or_dict raw ''layout''")
  case (Some l)
  have "\<exists>x. snd r = [x] \<and> place_wf known x" if "r \<in> set (map (parse_layout_entry known) l)" "fst r = []" for r
    using that parse_layout_clean [of known] by (auto simp del: split_paired_Ex)
  then show ?thesis using gather_all [of "map (parse_layout_entry known) l" "place_wf known"] assms Some by (simp add: parse_layout_def)
qed (use assms in \<open>simp add: parse_layout_def\<close>)

lemma parse_trigger_wf: "fst (parse_trigger raw) = [] \<Longrightarrow> tr_type (snd (parse_trigger raw)) \<noteq> []"
  by (auto simp: parse_trigger_def split: option.splits pyval.splits list.splits)

lemma parse_workflow_wf:
  assumes "parse_workflow show_val raw = Inr flow"
  shows "workflow_wf flow"
proof -
  obtain es where es: "parse_edges raw = Inr es" "parse_problems show_val raw (fst es) = []"
    and flow: "flow = \<lparr>wf_name = (case parse_name raw of Some s \<Rightarrow> s | None \<Rightarrow> []), wf_trigger = snd (parse_trigger raw),
              wf_nodes = snd (parse_nodes show_val raw), wf_edges = snd es,
              wf_variables = (case parse_variables raw of Some v \<Rightarrow> v | None \<Rightarrow> []),
              wf_description = parse_description show_val raw, wf_schema = SCHEMA_VERSION,
              wf_layout = snd (parse_layout (map nd_id (snd (parse_nodes show_val raw))) raw)\<rparr>"
    using assms by (auto simp: parse_workflow_def result_simps split: if_splits)
  have clean: "fst (parse_trigger raw) = []" "raw_nodes raw \<noteq> []" "length (raw_nodes raw) \<le> MAX_NODES" "fst (parse_nodes show_val raw) = []"
      "fst es = []" "fst (parse_layout (map nd_id (snd (parse_nodes show_val raw))) raw) = []" "parse_name raw \<noteq> None"
    using es(2) by (simp_all add: parse_problems_def)
  have name: "workflow_name_ok (wf_name flow)" using clean(7) by (auto simp: flow parse_name_def split: option.splits if_splits)
  have "snd (parse_nodes show_val raw) \<noteq> []" using parse_nodes_wf [OF clean(4)] clean(2,3)
    by (metis length_0_conv take_all)
  then show ?thesis
    using name parse_trigger_wf [OF clean(1)] parse_nodes_wf [OF clean(4)] parse_edges_wf [OF es(1) clean(5)] parse_layout_wf [OF clean(6)] clean(3)
    by (simp add: workflow_wf_def flow)
qed

lemma to_dict_fields:
  "dget (to_dict flow) ''schema'' v = VInt (wf_schema flow)" "dget (to_dict flow) ''name'' v = VStr (wf_name flow)"
  "dget (to_dict flow) ''description'' v = VStr (wf_description flow)"
  "dget (to_dict flow) ''trigger'' v = VDict [(''type'', VStr (tr_type (wf_trigger flow))), (''filter'', VDict (tr_filter (wf_trigger flow)))]"
  "dget (to_dict flow) ''nodes'' v = VList (map node_dict (wf_nodes flow))"
  "dget (to_dict flow) ''edges'' v = VList (map edge_dict (wf_edges flow))"
  "dget (to_dict flow) ''variables'' v = VDict (map (\<lambda>(k, d). (k, VDict d)) (wf_variables flow))"
  "dget (to_dict flow) ''layout'' v =
     (if wf_layout flow \<noteq> [] then VDict (map (\<lambda>(k, x, y). (k, VDict [(''x'', VFloat x), (''y'', VFloat y)])) (wf_layout flow)) else v)"
  by (simp_all add: to_dict_def dget_def)

lemma or_dict_VDict: "dget d k VNone = VDict e \<Longrightarrow> or_dict d k = Some e"
  by (auto simp: or_dict_def)

lemma parse_trigger_dict:
  assumes "tr_type (wf_trigger flow) \<noteq> []"
  shows "parse_trigger (to_dict flow) = ([], wf_trigger flow)"
proof -
  obtain ty f where t: "wf_trigger flow = \<lparr>tr_type = ty, tr_filter = f\<rparr>" by (metis wf_trigger.cases)
  let ?d = "[(''type'', VStr ty), (''filter'', VDict f)]"
  have "or_dict ?d ''filter'' = Some f" "extra_keys ?d [''type'', ''filter''] = []" "dget ?d ''type'' VNone = VStr ty"
    by (simp_all add: or_dict_def dget_def extra_keys_def)
  then show ?thesis using assms by (cases ty) (simp_all add: parse_trigger_def to_dict_fields t)
qed

lemma parse_nodes_dict:
  assumes "list_all node_wf (wf_nodes flow)" "length (wf_nodes flow) \<le> MAX_NODES"
  shows "parse_nodes show_val (to_dict flow) = ([], wf_nodes flow)"
proof -
  have "gather (map (parse_node show_val \<circ> node_dict) (wf_nodes flow)) = ([], map id (wf_nodes flow))"
    using assms(1) by (intro gather_single) (simp add: parse_node_dict list_all_iff)
  then show ?thesis using assms(2) by (simp add: parse_nodes_def raw_nodes_def to_dict_fields comp_def)
qed

lemma parse_edges_dict:
  assumes "list_all edge_wf (wf_edges flow)"
  shows "parse_edges (to_dict flow) = Inr ([], wf_edges flow)"
proof -
  have "map_r parse_edge (map edge_dict es) = Inr (map (\<lambda>e. ([], [e])) es)" if "list_all edge_wf es" for es
    using that by (induction es) (auto simp: parse_edge_dict)
  moreover have "gather (map (\<lambda>e. ([], [e])) (wf_edges flow)) = ([] :: problem list, wf_edges flow)"
    using gather_single [of "wf_edges flow" "\<lambda>e. ([] :: problem list, [e])" id] by simp
  ultimately show ?thesis using assms by (cases "wf_edges flow") (simp_all add: parse_edges_def raw_edges_def to_dict_fields parse_edge_dict)
qed

lemma parse_variables_dict: "parse_variables (to_dict flow) = Some (wf_variables flow)"
proof -
  have "all_dicts (map (\<lambda>(k, d). (k, VDict d)) vs) = Some vs" for vs
    by (auto simp: all_dicts_def list_all_iff comp_def split_beta)
  then show ?thesis by (simp add: parse_variables_def or_dict_def to_dict_fields) (auto simp: all_dicts_def)
qed

lemma parse_layout_to_dict:
  assumes "list_all (place_wf known) (wf_layout flow)"
  shows "parse_layout known (to_dict flow) = ([], wf_layout flow)"
proof -
  have "gather (map (parse_layout_entry known \<circ> (\<lambda>(k, x, y). (k, VDict [(''x'', VFloat x), (''y'', VFloat y)]))) (wf_layout flow))
      = ([], map id (wf_layout flow))"
    using assms by (intro gather_single) (auto simp: list_all_iff place_wf_def parse_layout_dict)
  then show ?thesis by (simp add: parse_layout_def or_dict_def to_dict_fields gather_def comp_def)
qed

lemma to_dict_keys: "extra_keys (to_dict flow) TOP_FIELDS = []"
  by (simp add: extra_keys_def to_dict_def TOP_FIELDS_def)

lemma parse_to_dict:
  assumes "workflow_wf flow"
  shows "parse_workflow show_val (to_dict flow) = Inr flow"
proof -
  note wf = assms [unfolded workflow_wf_def]
  have es: "parse_edges (to_dict flow) = Inr ([], wf_edges flow)" using wf by (simp add: parse_edges_dict)
  have ns: "parse_nodes show_val (to_dict flow) = ([], wf_nodes flow)" using wf by (simp add: parse_nodes_dict)
  have ly: "parse_layout (map nd_id (wf_nodes flow)) (to_dict flow) = ([], wf_layout flow)" using wf by (simp add: parse_layout_to_dict)
  have tr: "parse_trigger (to_dict flow) = ([], wf_trigger flow)" using wf by (simp add: parse_trigger_dict)
  have nm: "parse_name (to_dict flow) = Some (wf_name flow)" using wf by (simp add: parse_name_def to_dict_fields)
  have rn: "raw_nodes (to_dict flow) = map node_dict (wf_nodes flow)" by (simp add: raw_nodes_def to_dict_fields)
  have ds: "parse_description show_val (to_dict flow) = wf_description flow"
    by (simp add: parse_description_def to_dict_fields py_str_def)
  have "schema_ok (to_dict flow)" using wf by (simp add: schema_ok_def to_dict_fields)
  then have "parse_problems show_val (to_dict flow) [] = []"
    using wf by (simp add: parse_problems_def to_dict_keys nm tr rn ns ly parse_variables_dict)
  then show ?thesis using wf by (simp add: parse_workflow_def es nm tr ns ly ds parse_variables_dict)
qed

text \<open>
  C25: Round trip. A definition that was parsed, written in its plain-data form and parsed again is the same definition: what is stored
  is what was accepted.
\<close>

theorem stored_workflow_reads_back:
  assumes "parse_workflow show_val raw = Inr flow"
  shows "parse_workflow show_val' (to_dict flow) = Inr flow"
  using parse_to_dict [OF parse_workflow_wf [OF assms]] .

definition tiny_workflow :: "pyval dict" where
  "tiny_workflow = [(''name'', VStr ''demo''), (''trigger'', VDict [(''type'', VStr ''manual'')]),
     (''nodes'', VList [VDict [(''id'', VStr ''a''), (''type'', VStr ''timer''), (''config'', VDict [(''seconds'', VInt 5)])],
                        VDict [(''id'', VStr ''b''), (''type'', VStr ''end''), (''max_visits'', VInt 2)]]),
     (''edges'', VList [VDict [(''from'', VStr ''a''), (''to'', VStr ''b'')]])]"

definition tiny_flow :: workflow where
  "tiny_flow = \<lparr>wf_name = ''demo'', wf_trigger = \<lparr>tr_type = ''manual'', tr_filter = []\<rparr>,
     wf_nodes = [\<lparr>nd_id = ''a'', nd_type = TIMER, nd_config = [(''seconds'', VInt 5)], max_visits = 1\<rparr>,
                 \<lparr>nd_id = ''b'', nd_type = END, nd_config = [], max_visits = 2\<rparr>],
     wf_edges = [\<lparr>ed_source = ''a'', ed_target = ''b'', ed_when = None\<rparr>], wf_variables = [], wf_description = [],
     wf_schema = SCHEMA_VERSION, wf_layout = []\<rparr>"

theorem stored_workflow_reads_back_witness: "parse_workflow (\<lambda>_. []) (to_dict tiny_flow) = Inr tiny_flow"
proof -
  have "parse_workflow (\<lambda>_. []) tiny_workflow = Inr tiny_flow" by code_simp
  then show ?thesis by (rule stored_workflow_reads_back)
qed

end
