(* ===== verification/Workflow_Expr.thy ===== *)
theory Workflow_Expr
  imports Workflow_Def
begin

text \<open>
  Templates, conditions and event filters of workflows (\<open>domain/workflows.py\<close>). The placeholder pattern can match in one way only,
  so it is written as a function. Sets of references are lists here.

  The lemmas show that a value renders exactly when all its references can be looked up, and that values without placeholders
  render to themselves.
\<close>

section \<open>Lookups\<close>

datatype expr_error = TemplateError | ExprCrash

definition decimal :: "string \<Rightarrow> nat" where
  "decimal s = foldl (\<lambda>n c. n * 10 + (of_char c - 48)) 0 s"

fun lookup_parts :: "pyval \<Rightarrow> string list \<Rightarrow> pyval option" where
  "lookup_parts cur [] = Some cur"
| "lookup_parts cur (p # ps) =
     (case cur of
        VDict d \<Rightarrow> (case map_of d p of Some v \<Rightarrow> lookup_parts v ps | None \<Rightarrow> None)
      | VList xs \<Rightarrow> if p \<noteq> [] \<and> list_all is_digit p \<and> decimal p < length xs then lookup_parts (xs ! decimal p) ps else None
      | _ \<Rightarrow> None)"

definition lookup :: "pyval dict \<Rightarrow> string \<Rightarrow> pyval option" where
  "lookup context path = lookup_parts (VDict context) (split_on (CHR ''.'') path)"

section \<open>Templates\<close>

definition path_char :: "char \<Rightarrow> bool" where
  "path_char c \<longleftrightarrow> is_alnum c \<or> c \<in> set ''_.-''"

text \<open>A placeholder at the start of the text: its path and what follows it.\<close>

definition template_at :: "string \<Rightarrow> (string \<times> string) option" where
  "template_at s =
     (let inner = dropWhile is_space (drop 2 s);
          path = takeWhile path_char inner;
          rest = dropWhile is_space (dropWhile path_char inner) in
      if prefix ''{{'' s \<and> path \<noteq> [] \<and> prefix ''}}'' rest then Some (path, drop 2 rest) else None)"

lemma template_at_shorter: "template_at s = Some (p, rest) \<Longrightarrow> length rest < length s"
proof -
  assume "template_at s = Some (p, rest)"
  then have "rest = drop 2 (dropWhile is_space (dropWhile path_char (dropWhile is_space (drop 2 s))))" "prefix ''{{'' s"
    by (auto simp: template_at_def Let_def split: if_splits)
  then show ?thesis
    using length_dropWhile_le [of is_space "dropWhile path_char (dropWhile is_space (drop 2 s))"]
      length_dropWhile_le [of path_char "dropWhile is_space (drop 2 s)"] length_dropWhile_le [of is_space "drop 2 s"]
    by (cases s) (auto simp: prefix_def)
qed

function placeholders :: "string \<Rightarrow> string list" where
  "placeholders s =
     (case s of [] \<Rightarrow> []
      | c # cs \<Rightarrow> (case template_at s of Some (p, rest) \<Rightarrow> p # placeholders rest | None \<Rightarrow> placeholders cs))"
  by pat_completeness auto
termination
  by (relation "measure length") (auto dest: template_at_shorter)

function expand :: "(string \<Rightarrow> expr_error + string) \<Rightarrow> string \<Rightarrow> expr_error + string" where
  "expand f s =
     (case s of [] \<Rightarrow> Inr []
      | c # cs \<Rightarrow>
         (case template_at s of
            Some (p, rest) \<Rightarrow> bind_r (f p) (\<lambda>t. bind_r (expand f rest) (\<lambda>u. Inr (t @ u)))
          | None \<Rightarrow> bind_r (expand f cs) (\<lambda>u. Inr (c # u))))"
  by pat_completeness auto
termination
  by (relation "measure (\<lambda>(f, s). length s)") (auto dest: template_at_shorter)

declare placeholders.simps [simp del] expand.simps [simp del]

definition lookup_r :: "pyval dict \<Rightarrow> string \<Rightarrow> expr_error + pyval" where
  "lookup_r ctx p = (case lookup ctx p of Some v \<Rightarrow> Inr v | None \<Rightarrow> Inl TemplateError)"

definition render_text :: "(pyval \<Rightarrow> string) \<Rightarrow> pyval dict \<Rightarrow> string \<Rightarrow> expr_error + pyval" where
  "render_text show_val ctx s =
     (case template_at (str_strip s) of
        Some (p, []) \<Rightarrow> lookup_r ctx p
      | _ \<Rightarrow> bind_r (expand (\<lambda>p. bind_r (lookup_r ctx p) (\<lambda>v. Inr (py_str show_val v))) s) (\<lambda>t. Inr (VStr t)))"

primrec references :: "pyval \<Rightarrow> string list" where
  "references VNone = []"
| "references (VBool b) = []"
| "references (VInt i) = []"
| "references (VFloat r) = []"
| "references (VStr s) = placeholders s"
| "references (VList xs) = concat (map references xs)"
| "references (VDict d) = concat (map snd (map (map_prod id references) d))"

lemma map_r_cong [fundef_cong]: "xs = ys \<Longrightarrow> (\<And>x. x \<in> set ys \<Longrightarrow> f x = g x) \<Longrightarrow> map_r f xs = map_r g ys"
  by (induction xs arbitrary: ys) (auto split: sum.split)

lemma size_entry: "(k, v) \<in> set d \<Longrightarrow> size v < size (VDict d)"
  by (induction d) auto

lemma size_map_of: "map_of d k = Some v \<Longrightarrow> size v < size (VDict d)"
  by (rule size_entry) (rule map_of_SomeD)

lemma size_item: "x \<in> set xs \<Longrightarrow> size x < size (VList xs)"
  by (induction xs) auto

function render :: "(pyval \<Rightarrow> string) \<Rightarrow> pyval dict \<Rightarrow> pyval \<Rightarrow> expr_error + pyval" where
  "render show_val ctx v =
     (case v of
        VStr s \<Rightarrow> render_text show_val ctx s
      | VDict d \<Rightarrow> bind_r (map_r (\<lambda>kv. bind_r (render show_val ctx (snd kv)) (\<lambda>w. Inr (fst kv, w))) d) (\<lambda>e. Inr (VDict e))
      | VList xs \<Rightarrow> bind_r (map_r (render show_val ctx) xs) (\<lambda>ys. Inr (VList ys))
      | _ \<Rightarrow> Inr v)"
  by pat_completeness auto
termination
  by (relation "measure (\<lambda>(s, c, v). size v)") (auto dest: size_entry size_item simp del: pyval.size)

declare render.simps [simp del]

section \<open>Conditions\<close>

text \<open>\<open>x in c\<close>; \<open>None\<close> where Python raises \<open>TypeError\<close>.\<close>

definition py_contains :: "pyval \<Rightarrow> pyval \<Rightarrow> bool option" where
  "py_contains x c =
     (case c of
        VList ys \<Rightarrow> Some (list_ex (py_eq x) ys)
      | VStr s \<Rightarrow> (case x of VStr t \<Rightarrow> Some (sublist t s) | _ \<Rightarrow> None)
      | VDict d \<Rightarrow> (case x of VStr k \<Rightarrow> Some (has_key d k) | VList _ \<Rightarrow> None | VDict _ \<Rightarrow> None | _ \<Rightarrow> Some False)
      | _ \<Rightarrow> None)"

fun py_less :: "pyval \<Rightarrow> pyval \<Rightarrow> bool option" where
  "py_less (VStr a) (VStr b) = Some (a < b)"
| "py_less (VList []) (VList ys) = Some (ys \<noteq> [])"
| "py_less (VList (x # xs)) (VList []) = Some False"
| "py_less (VList (x # xs)) (VList (y # ys)) = (if py_eq x y then py_less (VList xs) (VList ys) else py_less x y)"
| "py_less a b = (case (num_of a, num_of b) of (Some r, Some s) \<Rightarrow> Some (r < s) | _ \<Rightarrow> None)"

definition order_op :: "string \<Rightarrow> pyval \<Rightarrow> pyval \<Rightarrow> bool option" where
  "order_op op l r =
     (case (py_less l r, py_less r l) of
        (Some lt, Some gt) \<Rightarrow> Some (if op = ''gt'' then gt else if op = ''ge'' then \<not> lt else if op = ''lt'' then lt else \<not> gt)
      | _ \<Rightarrow> None)"

definition compare_vals :: "string \<Rightarrow> pyval \<Rightarrow> pyval \<Rightarrow> expr_error + bool" where
  "compare_vals op l r =
     (case (if op = ''eq'' then Some (py_eq l r) else if op = ''ne'' then Some (\<not> py_eq l r)
            else if op = ''in'' then py_contains l r else if op = ''contains'' then py_contains r l else order_op op l r) of
        Some b \<Rightarrow> Inr b | None \<Rightarrow> Inl TemplateError)"

definition comparison :: "(pyval \<Rightarrow> string) \<Rightarrow> pyval dict \<Rightarrow> pyval dict \<Rightarrow> expr_error + bool" where
  "comparison show_val ctx d =
     (case dget d ''op'' VNone of
        VStr op \<Rightarrow>
          if op \<notin> set OPERATORS then Inl TemplateError
          else if op = ''exists'' then
            Inr (lookup ctx (rstrip_by (\<lambda>c. c \<in> set ''{} '') (lstrip_by (\<lambda>c. c \<in> set ''{} '')
                   (py_str show_val (dget d ''left'' (VStr []))))) \<noteq> None)
          else bind_r (render show_val ctx (dget d ''left'' VNone)) (\<lambda>l.
                 bind_r (render show_val ctx (dget d ''right'' VNone)) (\<lambda>r. compare_vals op l r))
      | VList _ \<Rightarrow> Inl ExprCrash | VDict _ \<Rightarrow> Inl ExprCrash
      | _ \<Rightarrow> Inl TemplateError)"

text \<open>
  Nested conditions; \<open>all\<close> and \<open>any\<close> stop at the first false or true one. A condition that is not a mapping raises, and so does
  a non-empty text or mapping in place of the list.
\<close>

function (sequential) eval_cond :: "(pyval \<Rightarrow> string) \<Rightarrow> pyval dict \<Rightarrow> pyval \<Rightarrow> expr_error + bool"
  and eval_all :: "(pyval \<Rightarrow> string) \<Rightarrow> pyval dict \<Rightarrow> pyval list \<Rightarrow> expr_error + bool"
  and eval_any :: "(pyval \<Rightarrow> string) \<Rightarrow> pyval dict \<Rightarrow> pyval list \<Rightarrow> expr_error + bool" where
  "eval_cond show_val ctx (VDict d) =
     (case map_of d ''all'' of
        Some (VList cs) \<Rightarrow> eval_all show_val ctx cs
      | Some v \<Rightarrow> if py_iter v = Some [] then Inr True else Inl ExprCrash
      | None \<Rightarrow>
         (case map_of d ''any'' of
            Some (VList cs) \<Rightarrow> eval_any show_val ctx cs
          | Some v \<Rightarrow> if py_iter v = Some [] then Inr False else Inl ExprCrash
          | None \<Rightarrow>
             (case map_of d ''not'' of
                Some c \<Rightarrow> bind_r (eval_cond show_val ctx c) (\<lambda>b. Inr (\<not> b))
              | None \<Rightarrow> comparison show_val ctx d)))"
| "eval_cond show_val ctx v = Inl ExprCrash"
| "eval_all show_val ctx [] = Inr True"
| "eval_all show_val ctx (c # cs) = bind_r (eval_cond show_val ctx c) (\<lambda>b. if b then eval_all show_val ctx cs else Inr False)"
| "eval_any show_val ctx [] = Inr False"
| "eval_any show_val ctx (c # cs) = bind_r (eval_cond show_val ctx c) (\<lambda>b. if b then Inr True else eval_any show_val ctx cs)"
  by pat_completeness auto
termination
  by (relation "measure (\<lambda>x. case x of Inl (s, c, v) \<Rightarrow> size v | Inr (Inl (s, c, vs)) \<Rightarrow> size_list size vs
        | Inr (Inr (s, c, vs)) \<Rightarrow> size_list size vs)") (auto dest!: size_map_of)

function condition_references :: "pyval \<Rightarrow> string list option" and conditions_references :: "pyval list \<Rightarrow> string list option" where
  "condition_references v =
     (case v of
        VDict d \<Rightarrow>
          let sub = (\<lambda>k. case map_of d k of None \<Rightarrow> Some []
                | Some (VList cs) \<Rightarrow> conditions_references cs
                | Some w \<Rightarrow> if py_iter w = Some [] then Some [] else None) in
          (case (sub ''all'', sub ''any'', (case map_of d ''not'' of None \<Rightarrow> Some [] | Some c \<Rightarrow> condition_references c)) of
             (Some a, Some b, Some c) \<Rightarrow> Some (a @ b @ c @ references (dget d ''left'' VNone) @ references (dget d ''right'' VNone))
           | _ \<Rightarrow> None)
      | _ \<Rightarrow> None)"
| "conditions_references [] = Some []"
| "conditions_references (c # cs) =
     (case (condition_references c, conditions_references cs) of (Some a, Some b) \<Rightarrow> Some (a @ b) | _ \<Rightarrow> None)"
  by pat_completeness auto
termination
  by (relation "measure (\<lambda>x. case x of Inl v \<Rightarrow> size v | Inr vs \<Rightarrow> size_list size vs)") (auto dest!: size_map_of)

text \<open>The structured event filter: every dotted path must equal its value or be among the listed ones.\<close>

fun filter_matches :: "pyval dict \<Rightarrow> pyval dict \<Rightarrow> expr_error + bool" where
  "filter_matches [] event = Inr True"
| "filter_matches ((path, expected) # rest) event =
     (case lookup event path of None \<Rightarrow> Inr False
      | Some actual \<Rightarrow>
         (case expected of
            VDict d \<Rightarrow>
              if has_key d ''in''
              then (case py_contains actual (dget d ''in'' VNone) of None \<Rightarrow> Inl ExprCrash
                    | Some b \<Rightarrow> if b then filter_matches rest event else Inr False)
              else if has_key d ''exists'' then filter_matches rest event else Inr False
          | _ \<Rightarrow> if py_eq actual expected then filter_matches rest event else Inr False))"

section \<open>When a value renders\<close>

lemma template_at_iff:
  "template_at s = Some (p, rest) \<longleftrightarrow>
     (\<exists>a b. s = ''{{'' @ a @ p @ b @ ''}}'' @ rest \<and> list_all is_space a \<and> list_all is_space b \<and> p \<noteq> [] \<and> list_all path_char p)"
  (is "?l \<longleftrightarrow> ?r")
proof
  assume l: ?l
  let ?inner = "dropWhile is_space (drop 2 s)"
  let ?tail = "dropWhile path_char ?inner"
  have p: "p = takeWhile path_char ?inner" "rest = drop 2 (dropWhile is_space ?tail)" "prefix ''{{'' s" "p \<noteq> []" "prefix ''}}'' (dropWhile is_space ?tail)"
    using l by (auto simp: template_at_def Let_def split: if_splits)
  have "s = ''{{'' @ drop 2 s" using p(3) by (auto simp: prefix_def)
  moreover have "drop 2 s = takeWhile is_space (drop 2 s) @ p @ takeWhile is_space ?tail @ dropWhile is_space ?tail"
    using p(1) by simp
  moreover have "dropWhile is_space ?tail = ''}}'' @ rest" using p(2,5) by (auto simp: prefix_def)
  ultimately have "s = ''{{'' @ takeWhile is_space (drop 2 s) @ p @ takeWhile is_space ?tail @ ''}}'' @ rest" by metis
  moreover have "list_all path_char p" unfolding p(1) by (auto simp: list_all_iff dest: set_takeWhileD)
  ultimately show ?r using p(4) by (metis list_all_iff set_takeWhileD)
next
  assume ?r
  then obtain a b where s: "s = ''{{'' @ a @ p @ b @ ''}}'' @ rest" "list_all is_space a" "list_all is_space b" "p \<noteq> []" "list_all path_char p"
    by blast
  have sep: "\<not> path_char c" if "is_space c" for c
    using that by (auto simp: path_char_def is_space_def is_alnum_def is_lower_def is_upper_def is_digit_def less_eq_char_def Let_def)
  have brace: "\<not> is_space (CHR ''}'')" "\<not> path_char (CHR ''}'')" by code_simp+
  have "dropWhile is_space (a @ p @ b @ ''}}'' @ rest) = p @ b @ ''}}'' @ rest"
    using s(2,4,5) sep by (cases p) (auto simp: list_all_iff dropWhile_append)
  moreover have "takeWhile path_char (p @ b @ ''}}'' @ rest) = p" "dropWhile path_char (p @ b @ ''}}'' @ rest) = b @ ''}}'' @ rest"
    using s(3,5) sep brace by (cases b; auto simp: list_all_iff takeWhile_append dropWhile_append)+
  moreover have "dropWhile is_space (b @ ''}}'' @ rest) = ''}}'' @ rest" using s(3) brace by (auto simp: list_all_iff dropWhile_append)
  ultimately show ?l using s(1,4) by (simp add: template_at_def)
qed

lemma template_at_space: "is_space c \<Longrightarrow> template_at (c # cs) = None"
  by (auto simp: template_at_def is_space_def Let_def)

lemma placeholders_space: "list_all is_space a \<Longrightarrow> placeholders (a @ s) = placeholders s"
  by (induction a) (auto simp: placeholders.simps [of "_ # _"] template_at_space)

lemma placeholders_whole:
  assumes "template_at (str_strip s) = Some (p, [])"
  shows "placeholders s = [p]"
proof -
  let ?m = "lstrip_by is_space s"
  obtain a where a: "s = a @ ?m" "list_all is_space a"
    unfolding lstrip_by_def by (metis list_all_iff set_takeWhileD takeWhile_dropWhile_id)
  obtain b where b: "?m = str_strip s @ b" "list_all is_space b"
  proof
    show "?m = str_strip s @ rev (takeWhile is_space (rev ?m))"
      unfolding str_strip_def rstrip_by_def by (metis rev_append rev_rev_ident takeWhile_dropWhile_id)
    show "list_all is_space (rev (takeWhile is_space (rev ?m)))" by (auto simp: list_all_iff dest: set_takeWhileD)
  qed
  have "template_at ?m = Some (p, b)" using assms unfolding b(1) template_at_iff by auto
  then have "placeholders ?m = p # placeholders b" by (cases ?m) (auto simp: placeholders.simps [of "_ # _"] template_at_def)
  moreover have "placeholders b = []" using placeholders_space [OF b(2), of "[]"] by (simp add: placeholders.simps [of "[]"])
  ultimately show ?thesis using placeholders_space [OF a(2), of ?m] a(1) by simp
qed

lemma expand_iff: "(\<exists>t. expand f s = Inr t) \<longleftrightarrow> (\<forall>p \<in> set (placeholders s). \<exists>u. f p = Inr u)"
proof (induction s rule: placeholders.induct)
  case (1 s)
  show ?case
  proof (cases s)
    case Nil
    then show ?thesis by (simp add: expand.simps [of f "[]"] placeholders.simps [of "[]"])
  next
    case (Cons c cs)
    show ?thesis
    proof (cases "template_at s")
      case None
      then show ?thesis using 1(1) [OF Cons None] unfolding Cons
        by (auto simp: expand.simps [of f "_ # _"] placeholders.simps [of "_ # _"] result_simps)
    next
      case (Some pr)
      obtain p rest where pr: "pr = (p, rest)" by fastforce
      then show ?thesis using 1(2) [OF Cons Some pr [symmetric]] Some unfolding Cons
        by (auto simp: expand.simps [of f "_ # _"] placeholders.simps [of "_ # _"] result_simps)
    qed
  qed
qed

lemma expand_plain: "placeholders s = [] \<Longrightarrow> expand f s = Inr s"
proof (induction s)
  case Nil
  then show ?case by (simp add: expand.simps [of f "[]"])
next
  case (Cons c cs)
  then show ?case by (cases "template_at (c # cs)") (auto simp: expand.simps [of f "_ # _"] placeholders.simps [of "_ # _"])
qed

lemma lookup_r_ok: "(\<exists>v. lookup_r ctx p = Inr v) \<longleftrightarrow> lookup ctx p \<noteq> None"
  by (auto simp: lookup_r_def split: option.splits)

lemma render_text_iff: "(\<exists>w. render_text show_val ctx s = Inr w) \<longleftrightarrow> (\<forall>p \<in> set (placeholders s). lookup ctx p \<noteq> None)"
proof (cases "\<exists>p. template_at (str_strip s) = Some (p, [])")
  case True
  then obtain p where p: "template_at (str_strip s) = Some (p, [])" by blast
  then show ?thesis using placeholders_whole [OF p] lookup_r_ok [of ctx p] by (simp add: render_text_def)
next
  case False
  have "render_text show_val ctx s = bind_r (expand (\<lambda>p. bind_r (lookup_r ctx p) (\<lambda>v. Inr (py_str show_val v))) s) (\<lambda>t. Inr (VStr t))"
    using False by (auto simp: render_text_def split: option.splits list.splits)
  then show ?thesis using expand_iff [of "\<lambda>p. bind_r (lookup_r ctx p) (\<lambda>v. Inr (py_str show_val v))" s] lookup_r_ok [of ctx]
    by (simp add: result_simps)
qed

lemma map_r_ok: "(\<exists>ys. map_r f xs = Inr ys) \<longleftrightarrow> (\<forall>x \<in> set xs. \<exists>y. f x = Inr y)"
  by (induction xs) (auto split: sum.splits)

lemma render_iff: "(\<exists>w. render show_val ctx v = Inr w) \<longleftrightarrow> (\<forall>p \<in> set (references v). lookup ctx p \<noteq> None)"
proof (induction v)
  case (VStr s)
  then show ?case using render_text_iff by (simp add: render.simps [of _ _ "VStr _"])
next
  case (VList xs)
  then show ?case using map_r_ok [of "render show_val ctx" xs] by (auto simp: render.simps [of _ _ "VList _"] result_simps)
next
  case (VDict d)
  have "(\<exists>w. bind_r (render show_val ctx (snd kv)) (\<lambda>w. Inr (fst kv, w)) = Inr w) \<longleftrightarrow> (\<forall>p \<in> set (references (snd kv)). lookup ctx p \<noteq> None)"
    if "kv \<in> set d" for kv
    using VDict.IH [OF that, of "snd kv"] by (cases kv) (auto simp: result_simps snds.simps)
  then show ?case using map_r_ok [of "\<lambda>kv. bind_r (render show_val ctx (snd kv)) (\<lambda>w. Inr (fst kv, w))" d]
    by (auto simp: render.simps [of _ _ "VDict _"] result_simps)
qed (simp_all add: render.simps)

text \<open>
  C26: A value with placeholders renders in a context if, and only if, every path it mentions can be looked up there: the references that
  validation checks are exactly the ones that can fail at run time.
\<close>

theorem rendering_needs_its_references:
  "(\<exists>w. render show_val ctx v = Inr w) \<longleftrightarrow> (\<forall>p \<in> set (references v). lookup ctx p \<noteq> None)"
  by (rule render_iff)

theorem rendering_needs_its_references_witness:
  "\<exists>w. render (\<lambda>_. []) [(''vars'', VDict [(''n'', VInt 3)])] (VList [VStr ''{{ vars.n }}'', VStr ''plain'']) = Inr w"
proof -
  have "\<forall>p \<in> set (references (VList [VStr ''{{ vars.n }}'', VStr ''plain''])). lookup [(''vars'', VDict [(''n'', VInt 3)])] p \<noteq> None"
    by code_simp
  then show ?thesis by (simp only: rendering_needs_its_references)
qed

end
