(* ===== verification/Workflow_Check.thy ===== *)
theory Workflow_Check
  imports Workflow_Expr Secret_Guard
begin

text \<open>
  Validation of workflows (\<open>domain/workflows.py\<close>): the graph walks, the checks of each node, the approval gates. All walks of the source pop
  the last element of a stack; here the stack is a list with that element first.

  The lemmas show that a walk finds exactly what is reachable, so that in an accepted workflow every node can run, every
  loop is bounded and every action that writes outside the sandbox has an approval on every path to it.
\<close>

section \<open>Walks\<close>

definition successors :: "(string \<times> string) list \<Rightarrow> string \<Rightarrow> string list" where
  "successors es n = map snd (filter (\<lambda>e. fst e = n) es)"

text \<open>
  The loop the source writes four times: pop a node, skip it if it was seen, stop if it is the one sought, else push its successors
  unless it is a gate.
\<close>

function walk :: "(string \<times> string) list \<Rightarrow> (string \<Rightarrow> bool) \<Rightarrow> (string \<Rightarrow> bool) \<Rightarrow> string list \<Rightarrow> string list \<Rightarrow> bool \<times> string list" where
  "walk es hit gate seen stack =
     (case stack of [] \<Rightarrow> (False, seen)
      | cur # st \<Rightarrow>
          if cur \<in> set seen then walk es hit gate seen st
          else if hit cur then (True, cur # seen)
          else walk es hit gate (cur # seen) ((if gate cur then [] else rev (successors es cur)) @ st))"
  by pat_completeness auto
termination
proof (relation "(\<lambda>(es, hit, gate, seen, stack). card ((snd ` set es \<union> set stack) - set seen)) <*mlex*> measure (\<lambda>(es, hit, gate, seen, stack). length stack)",
    goal_cases)
  case 1
  then show ?case by (intro wf_mlex) simp
next
  case (2 es hit gate seen stack cur st)
  then have "(snd ` set es \<union> set st) - set seen = (snd ` set es \<union> set stack) - set seen" by auto
  then show ?case using 2 by (intro mlex_leq) (auto)
next
  case (3 es hit gate seen stack cur st)
  have "(snd ` set es \<union> set ((if gate cur then [] else rev (successors es cur)) @ st)) - set (cur # seen) \<subset>
      (snd ` set es \<union> set stack) - set seen"
    using 3 by (auto simp: successors_def)
  then show ?case by (intro mlex_less) (auto intro!: psubset_card_mono)
qed

declare walk.simps [simp del]

definition edge_pairs :: "workflow \<Rightarrow> (string \<times> string) list" where
  "edge_pairs flow = map (\<lambda>e. (ed_source e, ed_target e)) (wf_edges flow)"

definition reachable_from :: "workflow \<Rightarrow> string list \<Rightarrow> string list" where
  "reachable_from flow starts = snd (walk (edge_pairs flow) (\<lambda>_. False) (\<lambda>_. False) [] (rev starts))"

definition ancestors :: "workflow \<Rightarrow> string \<Rightarrow> string list" where
  "ancestors flow i = snd (walk (map prod.swap (edge_pairs flow)) (\<lambda>_. False) (\<lambda>_. False) [] (rev (map ed_source (incoming flow i))))"

definition has_terminal :: "workflow \<Rightarrow> bool" where
  "has_terminal flow \<longleftrightarrow> list_ex (\<lambda>n. outgoing flow (nd_id n) = []) (wf_nodes flow)"

definition on_cycle :: "workflow \<Rightarrow> string \<Rightarrow> bool" where
  "on_cycle flow i \<longleftrightarrow> fst (walk (edge_pairs flow) (\<lambda>m. m = i) (\<lambda>_. False) [] (rev (map ed_target (outgoing flow i))))"

definition nodes_on_cycles :: "workflow \<Rightarrow> string list" where
  "nodes_on_cycles flow = filter (on_cycle flow) (map nd_id (wf_nodes flow))"

definition is_approval :: "workflow \<Rightarrow> string \<Rightarrow> bool" where
  "is_approval flow i \<longleftrightarrow> (case find_node flow i of Some n \<Rightarrow> nd_type n = APPROVAL | None \<Rightarrow> False)"

definition reachable_avoiding_approval :: "workflow \<Rightarrow> string \<Rightarrow> bool" where
  "reachable_avoiding_approval flow target \<longleftrightarrow>
     fst (walk (edge_pairs flow) (\<lambda>m. m = target) (is_approval flow) [] (rev (map nd_id (wf_entries flow))))"

section \<open>Checks\<close>

record action_info =
  ai_effect :: side_effect
  ai_idempotent :: bool
  ai_discloses :: "string list"
  ai_network_host :: string

record validation_policy =
  vp_unapproved :: bool
  vp_known :: "action_info dict option"

datatype cond_check = CondOk | CondBad | CondCrash

function (sequential) validate_condition :: "pyval \<Rightarrow> cond_check" and validate_conditions :: "pyval list \<Rightarrow> cond_check" where
  "validate_condition (VDict d) =
     (case map_of d ''all'' of
        Some v \<Rightarrow> (case v of VList (c # cs) \<Rightarrow> validate_conditions (c # cs) | _ \<Rightarrow> CondBad)
      | None \<Rightarrow>
         (case map_of d ''any'' of
            Some v \<Rightarrow> (case v of VList (c # cs) \<Rightarrow> validate_conditions (c # cs) | _ \<Rightarrow> CondBad)
          | None \<Rightarrow>
             (case map_of d ''not'' of
                Some c \<Rightarrow> validate_condition c
              | None \<Rightarrow>
                 (case dget d ''op'' VNone of
                    VStr op \<Rightarrow>
                      if op \<notin> set OPERATORS then CondBad
                      else if \<not> has_key d ''left'' \<or> op \<noteq> ''exists'' \<and> \<not> has_key d ''right'' then CondBad else CondOk
                  | VList _ \<Rightarrow> CondCrash | VDict _ \<Rightarrow> CondCrash
                  | _ \<Rightarrow> CondBad))))"
| "validate_condition v = CondCrash"
| "validate_conditions [] = CondOk"
| "validate_conditions (c # cs) = (case validate_condition c of CondOk \<Rightarrow> validate_conditions cs | r \<Rightarrow> r)"
  by pat_completeness auto
termination
  by (relation "measure (\<lambda>x. case x of Inl v \<Rightarrow> size v | Inr vs \<Rightarrow> size_list size vs)") (auto dest!: size_map_of)

definition positive_number :: "pyval \<Rightarrow> bool" where
  "positive_number v \<longleftrightarrow> (case num_of v of Some r \<Rightarrow> r > 0 | None \<Rightarrow> False)"

definition condition_problems :: "workflow \<Rightarrow> wf_node \<Rightarrow> wf_error + problem list" where
  "condition_problems flow n =
     (let labels = map ed_when (outgoing flow (nd_id n));
          edges = problem_if (Some ''true'' \<notin> set labels \<or> Some ''false'' \<notin> set labels) ''condition_edges'' (Some (nd_id n)) in
      case as_dict (dget (nd_config n) ''if'' VNone) of
        None \<Rightarrow> Inr (bad ''missing_config'' (Some (nd_id n)) # edges)
      | Some d \<Rightarrow> (case validate_condition (VDict d) of
            CondCrash \<Rightarrow> Inl Crash
          | CondBad \<Rightarrow> Inr (bad ''bad_condition'' (Some (nd_id n)) # edges)
          | CondOk \<Rightarrow> Inr edges))"

definition action_problems :: "validation_policy \<Rightarrow> wf_node \<Rightarrow> wf_error + problem list" where
  "action_problems policy n =
     (let name = dget (nd_config n) ''action'' VNone in
      if \<not> truthy name then Inr [bad ''missing_config'' (Some (nd_id n))]
      else (case (vp_known policy, name) of
          (None, _) \<Rightarrow> Inr []
        | (Some known, VStr s) \<Rightarrow> Inr (problem_if (\<not> has_key known s) ''unknown_action'' (Some (nd_id n)))
        | (Some known, VList _) \<Rightarrow> Inl Crash
        | (Some known, VDict _) \<Rightarrow> Inl Crash
        | (Some known, _) \<Rightarrow> Inr [bad ''unknown_action'' (Some (nd_id n))]))"

definition type_problems :: "workflow \<Rightarrow> validation_policy \<Rightarrow> wf_node \<Rightarrow> wf_error + problem list" where
  "type_problems flow policy n =
     (let cfg = nd_config n; i = Some (nd_id n); outs = outgoing flow (nd_id n);
          stray = problem_if (list_ex (\<lambda>e. ed_when e = Some ''true'' \<or> ed_when e = Some ''false'') outs) ''edge_label'' i in
      case nd_type n of
        AGENT \<Rightarrow> Inr (problem_if (\<not> truthy (dget cfg ''task'' VNone)) ''missing_config'' i @ stray)
      | ACTION \<Rightarrow> bind_r (action_problems policy n) (\<lambda>ps. Inr (ps @ stray))
      | CONDITION \<Rightarrow> condition_problems flow n
      | APPROVAL \<Rightarrow> Inr (stray @
          problem_if (list_ex (\<lambda>e. ed_when e \<notin> {None, Some ''approved'', Some ''denied'', Some ''timeout''}) outs) ''edge_label'' i @
          problem_if (dget cfg ''timeout_s'' VNone \<noteq> VNone \<and> \<not> positive_number (dget cfg ''timeout_s'' VNone)) ''bad_config'' i)
      | TIMER \<Rightarrow> Inr (stray @ problem_if (case as_number (dget cfg ''seconds'' VNone) of
            Some r \<Rightarrow> \<not> (0 < r \<and> r \<le> 90 * 86400) | None \<Rightarrow> True) ''bad_config'' i)
      | WAIT_EVENT \<Rightarrow> Inr (stray @ problem_if (\<not> truthy (dget cfg ''event'' VNone)) ''missing_config'' i)
      | END \<Rightarrow> Inr (stray @ problem_if (outs \<noteq> []) ''end_has_edges'' i @
          problem_if (dget cfg ''result'' (VStr ''success'') \<notin> {VStr ''success'', VStr ''failure''}) ''bad_config'' i))"

definition reference_problem :: "workflow \<Rightarrow> string \<Rightarrow> string list \<Rightarrow> string \<Rightarrow> problem list" where
  "reference_problem flow i anc r =
     (let top = before_char (CHR ''.'') r; rest = after_char (CHR ''.'') r; head = before_char (CHR ''.'') rest in
      if top \<notin> {''trigger'', ''vars'', ''nodes''} then [bad ''bad_reference'' (Some i)]
      else if top = ''vars'' then problem_if (\<not> has_key (wf_variables flow) head) ''unknown_variable'' (Some i)
      else if top = ''nodes'' then
        if head \<notin> set (map nd_id (wf_nodes flow)) then [bad ''bad_reference'' (Some i)]
        else problem_if (head \<notin> set anc) ''bad_reference'' (Some i)
      else [])"

definition node_references :: "wf_node \<Rightarrow> wf_error + string list" where
  "node_references n =
     (case as_dict (dget (nd_config n) ''if'' VNone) of
        None \<Rightarrow> Inr (remdups (references (VDict (nd_config n))))
      | Some d \<Rightarrow> (case condition_references (VDict d) of None \<Rightarrow> Inl Crash
          | Some rs \<Rightarrow> Inr (remdups (references (VDict (nd_config n)) @ rs))))"

definition check_node :: "(pyval \<Rightarrow> string) \<Rightarrow> workflow \<Rightarrow> validation_policy \<Rightarrow> string list \<Rightarrow> wf_node \<Rightarrow> wf_error + problem list" where
  "check_node show_val flow policy anc n =
     bind_r (type_problems flow policy n) (\<lambda>ps.
       bind_r (node_references n) (\<lambda>refs.
         Inr (problem_if (has_secrets (show_val (VDict (nd_config n)))) ''literal_secret'' (Some (nd_id n)) @ ps @
              concat (map (reference_problem flow (nd_id n) anc) refs))))"

definition gated_action :: "(pyval \<Rightarrow> string) \<Rightarrow> action_info dict \<Rightarrow> wf_node \<Rightarrow> bool" where
  "gated_action show_val known n \<longleftrightarrow> nd_type n = ACTION \<and>
     (case map_of known (py_str show_val (dget (nd_config n) ''action'' VNone)) of
        Some info \<Rightarrow> ai_effect info \<in> REQUIRES_APPROVAL_EFFECTS | None \<Rightarrow> False)"

definition check_approval_gates :: "(pyval \<Rightarrow> string) \<Rightarrow> workflow \<Rightarrow> validation_policy \<Rightarrow> problem list" where
  "check_approval_gates show_val flow policy =
     (case vp_known policy of None \<Rightarrow> []
      | Some known \<Rightarrow>
         if vp_unapproved policy then []
         else map (\<lambda>n. bad ''missing_approval'' (Some (nd_id n)))
           (filter (\<lambda>n. gated_action show_val known n \<and> reachable_avoiding_approval flow (nd_id n)) (wf_nodes flow)))"

fun identifier_ok :: "string \<Rightarrow> bool" where
  "identifier_ok [] = False"
| "identifier_ok (c # cs) \<longleftrightarrow> (is_letter c \<or> c = CHR ''_'') \<and> list_all (\<lambda>x. is_alnum x \<or> x = CHR ''_'') cs"

definition variable_problems :: "(pyval \<Rightarrow> string) \<Rightarrow> workflow \<Rightarrow> string \<times> pyval dict \<Rightarrow> problem list" where
  "variable_problems show_val flow v =
     problem_if (tr_type (wf_trigger flow) \<noteq> ''manual'' \<and> truthy (dget (snd v) ''required'' VNone) \<and> \<not> has_key (snd v) ''default'')
       ''unbound_variable'' None @
     problem_if (\<not> identifier_ok (fst v)) ''variable_name'' None @
     problem_if (has_key (snd v) ''default'' \<and> has_secrets (py_str show_val (dget (snd v) ''default'' VNone))) ''literal_secret'' None"

definition duplicate_problems :: "workflow \<Rightarrow> problem list" where
  "duplicate_problems flow =
     (let ids = map nd_id (wf_nodes flow) in
      map (\<lambda>i. bad ''duplicate_node'' (Some i)) (sort (remdups (filter (\<lambda>i. count_list ids i > 1) ids))))"

definition dangling_problems :: "workflow \<Rightarrow> problem list" where
  "dangling_problems flow =
     concat (map (\<lambda>e. map (\<lambda>i. bad ''dangling_edge'' (Some i))
       (filter (\<lambda>i. i \<notin> nd_id ` set (wf_nodes flow)) [ed_source e, ed_target e])) (wf_edges flow))"

definition graph_problems :: "workflow \<Rightarrow> problem list" where
  "graph_problems flow =
     (let entries = wf_entries flow; reach = reachable_from flow (map nd_id entries) in
      problem_if (entries = []) ''no_entry'' None @
      map (\<lambda>n. bad ''unreachable'' (Some (nd_id n))) (filter (\<lambda>n. nd_id n \<notin> set reach) (wf_nodes flow)) @
      problem_if (\<not> list_ex (\<lambda>n. nd_type n = END) (wf_nodes flow) \<and> \<not> has_terminal flow) ''no_end'' None @
      map (\<lambda>i. bad ''unbounded_loop'' (Some i))
        (filter (\<lambda>i. case find_node flow i of Some n \<Rightarrow> max_visits n < 2 | None \<Rightarrow> False) (nodes_on_cycles flow)))"

definition validate :: "(pyval \<Rightarrow> string) \<Rightarrow> workflow \<Rightarrow> validation_policy \<Rightarrow> wf_error + problem list" where
  "validate show_val flow policy =
     (let structural = duplicate_problems flow @ dangling_problems flow in
      if structural \<noteq> [] then Inr structural
      else bind_r (map_r (\<lambda>n. check_node show_val flow policy (ancestors flow (nd_id n)) n) (wf_nodes flow)) (\<lambda>pss.
        Inr (graph_problems flow @ concat pss @ check_approval_gates show_val flow policy @
             concat (map (variable_problems show_val flow) (wf_variables flow)))))"

section \<open>What a walk finds\<close>

definition steps :: "(string \<times> string) list \<Rightarrow> (string \<Rightarrow> bool) \<Rightarrow> (string \<times> string) set" where
  "steps es gate = {(a, b). (a, b) \<in> set es \<and> \<not> gate a}"

lemma in_successors: "b \<in> set (successors es a) \<longleftrightarrow> (a, b) \<in> set es"
  by (force simp: successors_def)

lemma pushed: "set ((if gate cur then [] else rev (successors es cur)) @ st) = steps es gate `` {cur} \<union> set st"
  by (auto simp: in_successors steps_def)

lemma walk_sound:
  "(fst (walk es hit gate seen stack) \<longrightarrow> (\<exists>x \<in> set stack. \<exists>t. (x, t) \<in> (steps es gate)\<^sup>* \<and> hit t)) \<and>
   set (snd (walk es hit gate seen stack)) \<subseteq> set seen \<union> (steps es gate)\<^sup>* `` set stack"
proof (induction es hit gate seen stack rule: walk.induct)
  case (1 es hit gate seen stack)
  show ?case
  proof (cases stack)
    case Nil
    then show ?thesis by (simp add: walk.simps [of _ _ _ _ "[]"])
  next
    case (Cons cur st)
    let ?w = "walk es hit gate (cur # seen) ((if gate cur then [] else rev (successors es cur)) @ st)"
    consider (seen) "cur \<in> set seen" | (hit) "cur \<notin> set seen" "hit cur" | (new) "cur \<notin> set seen" "\<not> hit cur" by blast
    then show ?thesis
    proof cases
      case seen
      then show ?thesis using 1(1) [OF Cons seen] Cons by (auto simp: walk.simps [of _ _ _ _ "_ # _"])
    next
      case hit
      then show ?thesis using Cons by (auto simp: walk.simps [of _ _ _ _ "_ # _"])
    next
      case new
      have "walk es hit gate seen stack = ?w" using new Cons by (simp add: walk.simps [of _ _ _ _ "_ # _"])
      moreover have "(steps es gate)\<^sup>* `` (steps es gate `` {cur} \<union> set st) \<subseteq> (steps es gate)\<^sup>* `` set stack"
        using Cons by (auto intro: converse_rtrancl_into_rtrancl)
      moreover note 1(2) [OF Cons new, unfolded pushed]
      ultimately show ?thesis using Cons by (auto 0 4 intro: converse_rtrancl_into_rtrancl)
    qed
  qed
qed

lemma walk_complete:
  assumes "\<not> fst (walk es hit gate seen stack)" "steps es gate `` set seen \<subseteq> set seen \<union> set stack" "\<forall>x \<in> set seen. \<not> hit x"
  shows "set seen \<union> set stack \<subseteq> set (snd (walk es hit gate seen stack)) \<and>
    steps es gate `` set (snd (walk es hit gate seen stack)) \<subseteq> set (snd (walk es hit gate seen stack)) \<and>
    (\<forall>x \<in> set (snd (walk es hit gate seen stack)). \<not> hit x)"
  using assms
proof (induction es hit gate seen stack rule: walk.induct)
  case (1 es hit gate seen stack)
  show ?case
  proof (cases stack)
    case Nil
    then show ?thesis using 1(4,5) by (simp add: walk.simps [of _ _ _ _ "[]"])
  next
    case (Cons cur st)
    let ?st = "(if gate cur then [] else rev (successors es cur)) @ st"
    have nh: "\<not> hit cur" if "cur \<notin> set seen" using 1(3) Cons that by (auto simp: walk.simps [of _ _ _ _ "_ # _"])
    show ?thesis
    proof (cases "cur \<in> set seen")
      case True
      have w: "walk es hit gate seen stack = walk es hit gate seen st" using True Cons by (simp add: walk.simps [of _ _ _ _ "_ # _"])
      have "steps es gate `` set seen \<subseteq> set seen \<union> set st" using 1(4) Cons True by auto
      then show ?thesis using 1(1) [OF Cons True] 1(3,5) True Cons unfolding w by auto
    next
      case False
      have w: "walk es hit gate seen stack = walk es hit gate (cur # seen) ?st" using False nh Cons by (simp add: walk.simps [of _ _ _ _ "_ # _"])
      have cl: "steps es gate `` set (cur # seen) \<subseteq> set (cur # seen) \<union> set ?st" unfolding pushed using 1(4) Cons by auto
      have nohit: "\<forall>x \<in> set (cur # seen). \<not> hit x" using nh [OF False] 1(5) by simp
      have nf: "\<not> fst (walk es hit gate (cur # seen) ?st)" using 1(3) unfolding w .
      have "set (cur # seen) \<union> set st \<subseteq> set (cur # seen) \<union> set ?st" by auto
      then show ?thesis using 1(2) [OF Cons False nh [OF False] nf cl nohit] Cons unfolding w by (simp only: set_simps) blast
    qed
  qed
qed

lemma closed_rtrancl: "(x, y) \<in> R\<^sup>* \<Longrightarrow> R `` S \<subseteq> S \<Longrightarrow> x \<in> S \<Longrightarrow> y \<in> S"
  by (induction rule: rtrancl_induct) auto

lemma walk_hit_iff: "fst (walk es hit gate [] stack) \<longleftrightarrow> (\<exists>x \<in> set stack. \<exists>t. (x, t) \<in> (steps es gate)\<^sup>* \<and> hit t)"
proof
  show "fst (walk es hit gate [] stack) \<Longrightarrow> \<exists>x \<in> set stack. \<exists>t. (x, t) \<in> (steps es gate)\<^sup>* \<and> hit t"
    using walk_sound by blast
  assume "\<exists>x \<in> set stack. \<exists>t. (x, t) \<in> (steps es gate)\<^sup>* \<and> hit t"
  then obtain x t where x: "x \<in> set stack" "(x, t) \<in> (steps es gate)\<^sup>*" "hit t" by blast
  show "fst (walk es hit gate [] stack)"
  proof (rule ccontr)
    assume no: "\<not> fst (walk es hit gate [] stack)"
    note c = walk_complete [OF no]
    have "t \<in> set (snd (walk es hit gate [] stack))" using closed_rtrancl [OF x(2)] c x(1) by auto
    then show False using c x(3) by auto
  qed
qed

lemma walk_all: "set (snd (walk es (\<lambda>_. False) gate [] stack)) = (steps es gate)\<^sup>* `` set stack" (is "?w = ?r")
proof
  show "?w \<subseteq> ?r" using walk_sound [of es "\<lambda>_. False" gate "[]" stack] by auto
  have no: "\<not> fst (walk es (\<lambda>_. False) gate [] stack)" by (simp add: walk_hit_iff)
  have c: "set stack \<subseteq> ?w" "steps es gate `` ?w \<subseteq> ?w" using walk_complete [OF no] by auto
  show "?r \<subseteq> ?w" using closed_rtrancl [OF _ c(2)] c(1) by blast
qed

section \<open>Accepted workflows\<close>

definition edge_rel :: "workflow \<Rightarrow> (string \<times> string) set" where
  "edge_rel flow = set (edge_pairs flow)"

lemma steps_free: "steps (edge_pairs flow) (\<lambda>_. False) = edge_rel flow"
  by (auto simp: steps_def edge_rel_def)

lemma reachable_from_iff: "i \<in> set (reachable_from flow starts) \<longleftrightarrow> (\<exists>s \<in> set starts. (s, i) \<in> (edge_rel flow)\<^sup>*)"
  by (auto simp: reachable_from_def walk_all steps_free)

lemma targets_of: "set (map ed_target (outgoing flow i)) = edge_rel flow `` {i}"
  by (force simp: outgoing_def edge_rel_def edge_pairs_def)

lemma on_cycle_iff: "on_cycle flow i \<longleftrightarrow> (i, i) \<in> (edge_rel flow)\<^sup>+"
proof -
  have "on_cycle flow i \<longleftrightarrow> (\<exists>x \<in> edge_rel flow `` {i}. (x, i) \<in> (edge_rel flow)\<^sup>*)"
    unfolding on_cycle_def walk_hit_iff steps_free set_rev targets_of by auto
  also have "\<dots> \<longleftrightarrow> (i, i) \<in> (edge_rel flow)\<^sup>+" by (auto simp: trancl_unfold_left)
  finally show ?thesis .
qed

lemma count_distinct: "\<forall>i \<in> set xs. count_list xs i \<le> 1 \<Longrightarrow> distinct xs"
proof (induction xs)
  case (Cons x xs)
  then have "count_list xs x = 0" by auto
  then have "x \<notin> set xs" by (simp add: count_list_0_iff)
  moreover have "count_list xs i \<le> 1" if "i \<in> set xs" for i
  proof -
    have "count_list xs i \<le> count_list (x # xs) i" by simp
    moreover have "count_list (x # xs) i \<le> 1" using Cons.prems that by simp
    ultimately show ?thesis by (rule order_trans)
  qed
  ultimately show ?case using Cons.IH by simp
qed simp

lemma duplicate_problems_none: "duplicate_problems flow = [] \<Longrightarrow> distinct (map nd_id (wf_nodes flow))"
proof -
  let ?ids = "map nd_id (wf_nodes flow)"
  assume "duplicate_problems flow = []"
  then have "set (sort (remdups (filter (\<lambda>i. count_list ?ids i > 1) ?ids))) = {}" by (simp add: duplicate_problems_def Let_def)
  then have "filter (\<lambda>i. count_list ?ids i > 1) ?ids = []" by simp
  then have "\<forall>i \<in> set ?ids. count_list ?ids i \<le> 1" unfolding filter_empty_conv by (simp add: not_less)
  then show ?thesis by (rule count_distinct)
qed

lemma validate_clean:
  assumes "validate show_val flow policy = Inr []"
  shows "duplicate_problems flow = []" "dangling_problems flow = []" "graph_problems flow = []" "check_approval_gates show_val flow policy = []"
  using assms by (auto simp: validate_def Let_def result_simps split: if_splits)

lemma find_node_distinct:
  assumes "distinct (map nd_id (wf_nodes flow))" "n \<in> set (wf_nodes flow)"
  shows "find_node flow (nd_id n) = Some n"
  using find_row_distinct [OF assms] by (simp add: find_node_def find_row_def)

text \<open>A path of the workflow: each node follows the one before it along an edge.\<close>

fun path_of :: "workflow \<Rightarrow> string list \<Rightarrow> bool" where
  "path_of flow (a # b # xs) \<longleftrightarrow> (a, b) \<in> edge_rel flow \<and> path_of flow (b # xs)"
| "path_of flow _ \<longleftrightarrow> True"

lemma ungated_path:
  "path_of flow xs \<Longrightarrow> xs \<noteq> [] \<Longrightarrow> \<forall>m \<in> set (butlast xs). \<not> gate m \<Longrightarrow> (hd xs, last xs) \<in> (steps (edge_pairs flow) gate)\<^sup>*"
proof (induction flow xs rule: path_of.induct)
  case (1 flow a b xs)
  then have "(a, b) \<in> steps (edge_pairs flow) gate" by (auto simp: steps_def edge_rel_def)
  moreover have "(b, last (b # xs)) \<in> (steps (edge_pairs flow) gate)\<^sup>*" using 1 by simp
  ultimately show ?case by (simp add: converse_rtrancl_into_rtrancl)
qed auto

text \<open>
  C24: The approval gate. In a workflow that validates without problems, every path from an entry to an action that writes outside the
  sandbox passes through an approval node before the action, unless the policy allows unapproved writes.
\<close>

theorem approval_on_every_path:
  assumes "validate show_val flow policy = Inr []" "vp_known policy = Some known" "\<not> vp_unapproved policy"
    and "n \<in> set (wf_nodes flow)" "gated_action show_val known n"
    and "path_of flow xs" "xs \<noteq> []" "hd xs \<in> nd_id ` set (wf_entries flow)" "last xs = nd_id n"
  shows "\<exists>m \<in> set (butlast xs). is_approval flow m"
proof (rule ccontr)
  assume "\<not> ?thesis"
  then have "(hd xs, nd_id n) \<in> (steps (edge_pairs flow) (is_approval flow))\<^sup>*"
    using ungated_path [OF assms(6,7), of "is_approval flow"] assms(9) by simp
  then have "reachable_avoiding_approval flow (nd_id n)" unfolding reachable_avoiding_approval_def walk_hit_iff using assms(8) by auto
  then have "check_approval_gates show_val flow policy \<noteq> []"
    using assms(2-5) by (auto simp: check_approval_gates_def filter_empty_conv)
  then show False using validate_clean(4) [OF assms(1)] by simp
qed

text \<open>
  An accepted workflow is a well-formed graph. Its node ids are distinct, its edges join existing nodes, every node can be reached
  from an entry, and every node on a loop may be visited at least twice, so that the loop is bounded on purpose.
\<close>

theorem accepted_workflow_graph:
  assumes "validate show_val flow policy = Inr []"
  shows "distinct (map nd_id (wf_nodes flow)) \<and>
    (\<forall>(a, b) \<in> edge_rel flow. a \<in> nd_id ` set (wf_nodes flow) \<and> b \<in> nd_id ` set (wf_nodes flow)) \<and>
    (\<forall>n \<in> set (wf_nodes flow). \<exists>e \<in> set (wf_entries flow). (nd_id e, nd_id n) \<in> (edge_rel flow)\<^sup>*) \<and>
    (\<forall>n \<in> set (wf_nodes flow). (nd_id n, nd_id n) \<in> (edge_rel flow)\<^sup>+ \<longrightarrow> 2 \<le> max_visits n)"
proof -
  note c = validate_clean [OF assms]
  have d: "distinct (map nd_id (wf_nodes flow))" using duplicate_problems_none [OF c(1)] .
  have "\<forall>(a, b) \<in> edge_rel flow. a \<in> nd_id ` set (wf_nodes flow) \<and> b \<in> nd_id ` set (wf_nodes flow)"
    using c(2) by (auto simp: dangling_problems_def edge_rel_def edge_pairs_def split: if_splits)
  moreover have "nd_id n \<in> set (reachable_from flow (map nd_id (wf_entries flow)))" if "n \<in> set (wf_nodes flow)" for n
    using c(3) that by (auto simp: graph_problems_def Let_def filter_empty_conv)
  moreover have "2 \<le> max_visits n" if "n \<in> set (wf_nodes flow)" "(nd_id n, nd_id n) \<in> (edge_rel flow)\<^sup>+" for n
  proof -
    have "nd_id n \<in> set (nodes_on_cycles flow)" using that by (simp add: nodes_on_cycles_def on_cycle_iff)
    then show ?thesis using c(3) find_node_distinct [OF d that(1)] by (force simp: graph_problems_def Let_def filter_empty_conv)
  qed
  ultimately show ?thesis using d by (auto simp: reachable_from_iff)
qed

section \<open>A gated workflow\<close>

definition gated_flow :: workflow where
  "gated_flow = \<lparr>wf_name = ''release'', wf_trigger = \<lparr>tr_type = ''manual'', tr_filter = []\<rparr>,
     wf_nodes = [\<lparr>nd_id = ''ask'', nd_type = APPROVAL, nd_config = [], max_visits = 1\<rparr>,
                 \<lparr>nd_id = ''push'', nd_type = ACTION, nd_config = [(''action'', VStr ''pr'')], max_visits = 1\<rparr>],
     wf_edges = [\<lparr>ed_source = ''ask'', ed_target = ''push'', ed_when = Some ''approved''\<rparr>], wf_variables = [],
     wf_description = [], wf_schema = SCHEMA_VERSION, wf_layout = []\<rparr>"

definition writing_policy :: validation_policy where
  "writing_policy = \<lparr>vp_unapproved = False,
     vp_known = Some [(''pr'', \<lparr>ai_effect = EXTERNAL_WRITE, ai_idempotent = False, ai_discloses = [], ai_network_host = []\<rparr>)]\<rparr>"

lemma gated_flow_valid: "validate (\<lambda>_. []) gated_flow writing_policy = Inr []"
  by code_simp

theorem approval_on_every_path_witness: "\<exists>m \<in> set (butlast [''ask'', ''push'']). is_approval gated_flow m"
proof (rule approval_on_every_path [OF gated_flow_valid])
  show "wf_nodes gated_flow ! 1 \<in> set (wf_nodes gated_flow)" by (simp add: gated_flow_def)
  show "gated_action (\<lambda>_. []) [(''pr'', \<lparr>ai_effect = EXTERNAL_WRITE, ai_idempotent = False, ai_discloses = [], ai_network_host = []\<rparr>)]
      (wf_nodes gated_flow ! 1)"
    by (simp add: gated_flow_def gated_action_def dget_def py_str_def REQUIRES_APPROVAL_EFFECTS_def)
qed (simp_all add: gated_flow_def writing_policy_def edge_rel_def edge_pairs_def wf_entries_def)

theorem accepted_workflow_graph_witness:
  "distinct (map nd_id (wf_nodes gated_flow)) \<and>
   (\<exists>e \<in> set (wf_entries gated_flow). (nd_id e, ''push'') \<in> (edge_rel gated_flow)\<^sup>*)"
  using accepted_workflow_graph [OF gated_flow_valid] by (simp add: gated_flow_def)

end
