(* ===== verification/Workflow_Engine.thy ===== *)
theory Workflow_Engine
  imports Workflow_Check Policy_Store Failures
begin

text \<open>
  The durable workflow engine (\<open>workflows/engine.py\<close>), its tables (\<open>workflows/store.py\<close>, \<open>persistence/schema.py\<close>)
  and the catalogue of actions (\<open>workflows/catalog.py\<close>).

  The database is a record of tables. A transaction either gives a new database or raises and leaves the old one; a handler
  is a sequence of transactions, so that it may raise after having changed the database. The columns that only people read
  (error texts, event messages and payloads, the detail kept of a failed step, the times a step started and finished) are left out,
  except the answer a person gave. Connectors, the task service, the clock and random identifiers are the environment.
  Operations run one after the other, as the lock of a run makes them; that \<open>decide\<close> and \<open>deliver_event\<close> commit a transaction of their own
  before they take the lock is not modelled. Every request to a connector is recorded (\<open>wf_contacts\<close>).
\<close>

section \<open>Tables\<close>

datatype step_status = S_PENDING | S_RUNNING | S_WAITING | S_SUCCEEDED | S_FAILED | S_SKIPPED | S_UNCERTAIN

datatype flow_status = W_RUNNING | W_WAITING | W_COMPLETED | W_FAILED | W_CANCELLED

definition ACTIVE_STEP :: "step_status list" where
  "ACTIVE_STEP = [S_PENDING, S_RUNNING, S_WAITING]"

definition TERMINAL_RUN :: "flow_status list" where
  "TERMINAL_RUN = [W_COMPLETED, W_FAILED, W_CANCELLED]"

record def_row =
  df_id :: string
  df_workspace :: string
  df_name :: string
  df_version :: nat
  df_definition :: "pyval dict"
  df_trigger :: string
  df_active :: bool
  df_created_by :: "string option"

record flow_row =
  fr_id :: string
  fr_workflow :: string
  fr_workspace :: string
  fr_status :: flow_status
  fr_trigger :: "pyval dict"
  fr_trigger_key :: "string option"
  fr_vars :: "pyval dict"
  fr_created_by :: string

record step_row =
  st_id :: nat
  st_run :: string
  st_node :: string
  st_visit :: int
  st_status :: step_status
  st_output :: "pyval option"
  st_wait :: "string option"
  st_wait_key :: "string option"
  st_wake :: "rat option"
  st_child :: "string option"
  st_key :: string
  st_decision :: "string option"
  st_decided_by :: "string option"

record flow_event =
  fe_run :: string
  fe_type :: string
  fe_node :: "string option"
  fe_actor :: string
  fe_answer :: "string option"

text \<open>The rows of the task service that the engine creates and looks at: an agent run.\<close>

record child_row =
  ch_id :: string
  ch_created_by :: string
  ch_status :: string
  ch_outcome :: pyval
  ch_verdict :: pyval
  ch_failure :: pyval
  ch_active :: bool
  ch_overrides :: "pyval option"

text \<open>
  What was asked of the connectors. \<open>performed\<close> has one entry for each \<open>run_with_retry(perform)\<close>, with the number of its attempts.
  A \<open>contact\<close> is one request: the lookup \<open>find_existing\<close>, or an attempt of \<open>perform\<close>, numbered within its \<open>run_with_retry\<close>.
\<close>

record performed =
  pf_step :: nat
  pf_run :: string
  pf_node :: string
  pf_name :: string
  pf_params :: pyval
  pf_key :: string
  pf_approver :: "string option"
  pf_attempts :: nat

datatype request = Lookup | Perform nat

record contact =
  ct_request :: request
  ct_run :: string
  ct_node :: string
  ct_workspace :: string
  ct_workflow :: string
  ct_name :: string
  ct_key :: string
  ct_approver :: "string option"

record wf_db =
  wf_defs :: "def_row list"
  wf_runs :: "flow_row list"
  wf_steps :: "step_row list"
  wf_events :: "flow_event list"
  wf_children :: "child_row list"
  wf_calls :: "performed list"
  wf_contacts :: "contact list"
  wf_cancels :: "string list"

datatype flow_error = TemplateFailed | Refused | Crashed

record agent_request =
  ag_repo :: string
  ag_task :: string
  ag_provider :: pyval
  ag_model :: pyval
  ag_base_url :: pyval
  ag_workspace :: string
  ag_created_by :: string
  ag_acting_as :: string

record engine_env =
  we_show :: "pyval \<Rightarrow> string"
  we_clock :: rat
  we_actions :: "action_info dict"
  we_unapproved :: bool
  we_policies :: "policy_row list"
  we_loads :: "string \<Rightarrow> pyval option"
  we_policy_text :: "policy_error option \<Rightarrow> string"
  we_egress_text :: "egress_error \<Rightarrow> string"
  we_org :: "string \<Rightarrow> string option"
  we_hostname :: "string \<Rightarrow> string"
  we_perform :: "string \<Rightarrow> string \<Rightarrow> pyval \<Rightarrow> string \<Rightarrow> string option \<Rightarrow> nat \<Rightarrow> pyval outcome"
  we_existing :: "string \<Rightarrow> string \<Rightarrow> string \<Rightarrow> pyval option outcome"
  we_retry :: retry_env
  we_create :: "agent_request \<Rightarrow> string option"
  we_overrides :: "pyval \<Rightarrow> pyval option option"

section \<open>The catalogue of actions\<close>

definition plain_action :: "side_effect \<Rightarrow> string list \<Rightarrow> action_info" where
  "plain_action eff cs = \<lparr>ai_effect = eff, ai_idempotent = True, ai_discloses = cs, ai_network_host = []\<rparr>"

definition ACTIONS :: "action_info dict" where
  "ACTIONS =
    [(''notify.log'', plain_action PURE []),
     (''github.comment'', plain_action EXTERNAL_WRITE [''metadata'']),
     (''github.add_label'', plain_action EXTERNAL_WRITE [''metadata'']),
     (''github.create_pull_request'', plain_action EXTERNAL_WRITE [''diff'']),
     (''slack.post_message'', plain_action EXTERNAL_WRITE [''metadata'']),
     (''linear.comment'', plain_action EXTERNAL_WRITE [''metadata'']),
     (''jira.comment'', plain_action EXTERNAL_WRITE [''metadata'']),
     (''notion.read_page'', \<lparr>ai_effect = NETWORK_READ, ai_idempotent = True, ai_discloses = [], ai_network_host = ''api.notion.com''\<rparr>),
     (''webhook.post'', \<lparr>ai_effect = EXTERNAL_WRITE, ai_idempotent = False, ai_discloses = [''artifact''], ai_network_host = []\<rparr>)]"

definition all_actions :: "action_info dict option \<Rightarrow> action_info dict" where
  "all_actions plugins = (case plugins of None \<Rightarrow> ACTIONS | Some p \<Rightarrow> foldl (\<lambda>d (k, v). AList.update k v d) ACTIONS p)"

definition engine_policy :: "engine_env \<Rightarrow> validation_policy" where
  "engine_policy env = \<lparr>vp_unapproved = we_unapproved env, vp_known = Some (we_actions env)\<rparr>"

section \<open>The store\<close>

definition save_version :: "string \<Rightarrow> wf_db \<Rightarrow> string \<Rightarrow> workflow \<Rightarrow> string option \<Rightarrow> flow_error + (string \<times> nat) \<times> wf_db" where
  "save_version uuid db ws flow by =
     (let mine = filter (\<lambda>d. df_workspace d = ws \<and> df_name d = wf_name flow) (wf_defs db);
          version = Suc (foldl max 0 (map df_version mine)) in
      if has_row df_id uuid (wf_defs db) then Inl Crashed
      else Inr ((uuid, version), db\<lparr>wf_defs := wf_defs db @ [\<lparr>df_id = uuid, df_workspace = ws, df_name = wf_name flow, df_version = version,
        df_definition = to_dict flow, df_trigger = tr_type (wf_trigger flow), df_active = True, df_created_by = by\<rparr>]\<rparr>))"

definition load_flow :: "engine_env \<Rightarrow> wf_db \<Rightarrow> string \<Rightarrow> flow_error + workflow \<times> def_row" where
  "load_flow env db i =
     (case find_row df_id i (wf_defs db) of None \<Rightarrow> Inl Crashed
      | Some d \<Rightarrow> (case parse_workflow (we_show env) (df_definition d) of Inl e \<Rightarrow> Inl Crashed | Inr flow \<Rightarrow> Inr (flow, d)))"

definition newest :: "wf_db \<Rightarrow> def_row \<Rightarrow> bool" where
  "newest db d \<longleftrightarrow> df_active d \<and>
     list_all (\<lambda>x. df_workspace x = df_workspace d \<and> df_name x = df_name d \<and> df_active x \<longrightarrow> df_version x \<le> df_version d) (wf_defs db)"

definition latest_active :: "wf_db \<Rightarrow> string \<Rightarrow> string \<Rightarrow> string option" where
  "latest_active db ws name =
     map_option df_id (find (\<lambda>d. df_workspace d = ws \<and> df_name d = name \<and> newest db d) (wf_defs db))"

definition active_for_trigger :: "wf_db \<Rightarrow> string \<Rightarrow> string option \<Rightarrow> string list" where
  "active_for_trigger db type ws =
     map df_id (filter (\<lambda>d. df_trigger d = type \<and> newest db d \<and> (case ws of None \<Rightarrow> True | Some w \<Rightarrow> df_workspace d = w)) (wf_defs db))"

definition flow_log :: "string \<Rightarrow> string \<Rightarrow> string option \<Rightarrow> string \<Rightarrow> string option \<Rightarrow> wf_db \<Rightarrow> wf_db" where
  "flow_log r type node who answer db =
     db\<lparr>wf_events := wf_events db @ [\<lparr>fe_run = r, fe_type = type, fe_node = node, fe_actor = who, fe_answer = answer\<rparr>]\<rparr>"

abbreviation engine_log :: "string \<Rightarrow> string \<Rightarrow> string option \<Rightarrow> wf_db \<Rightarrow> wf_db" where
  "engine_log r type node \<equiv> flow_log r type node ''engine'' None"

definition flow_events :: "wf_db \<Rightarrow> string \<Rightarrow> nat \<Rightarrow> (nat \<times> flow_event) list" where
  "flow_events db r after = filter (\<lambda>(i, e). fe_run e = r \<and> i > after) (enumerate 1 (wf_events db))"

definition flow_steps :: "wf_db \<Rightarrow> string \<Rightarrow> step_row list" where
  "flow_steps db r = filter (\<lambda>s. st_run s = r) (wf_steps db)"

definition get_flow :: "wf_db \<Rightarrow> string \<Rightarrow> flow_error + flow_row" where
  "get_flow db r = (case find_row fr_id r (wf_runs db) of None \<Rightarrow> Inl Crashed | Some f \<Rightarrow> Inr f)"

section \<open>Changing steps and runs\<close>

definition set_steps :: "(step_row \<Rightarrow> bool) \<Rightarrow> (step_row \<Rightarrow> step_row) \<Rightarrow> wf_db \<Rightarrow> wf_db" where
  "set_steps p f db = db\<lparr>wf_steps := map (\<lambda>s. if p s then f s else s) (wf_steps db)\<rparr>"

abbreviation set_step :: "step_row \<Rightarrow> (step_row \<Rightarrow> step_row) \<Rightarrow> wf_db \<Rightarrow> wf_db" where
  "set_step s f \<equiv> set_steps (\<lambda>x. st_id x = st_id s) f"

definition finish_flow :: "string \<Rightarrow> flow_status \<Rightarrow> wf_db \<Rightarrow> wf_db" where
  "finish_flow r status db = db\<lparr>wf_runs := update_row fr_id r (\<lambda>f. f\<lparr>fr_status := status\<rparr>) (wf_runs db)\<rparr>"

definition skip_active :: "string \<Rightarrow> wf_db \<Rightarrow> wf_db" where
  "skip_active r db = set_steps (\<lambda>s. st_run s = r \<and> st_status s \<in> set ACTIVE_STEP) (\<lambda>s. s\<lparr>st_status := S_SKIPPED\<rparr>) db"

definition fail_run :: "string \<Rightarrow> string option \<Rightarrow> wf_db \<Rightarrow> wf_db" where
  "fail_run r node db = engine_log r ''workflow_failed'' node (finish_flow r W_FAILED (skip_active r db))"

definition idempotency_key :: "engine_env \<Rightarrow> string \<Rightarrow> string \<Rightarrow> int \<Rightarrow> string" where
  "idempotency_key env r node visit = r @ '':'' @ node @ '':'' @ we_show env (VInt visit)"

definition new_step :: "engine_env \<Rightarrow> string \<Rightarrow> string \<Rightarrow> int \<Rightarrow> wf_db \<Rightarrow> flow_error + wf_db" where
  "new_step env r node visit db =
     (if list_ex (\<lambda>s. st_run s = r \<and> st_node s = node \<and> st_visit s = visit) (wf_steps db) then Inl Crashed
      else Inr (db\<lparr>wf_steps := wf_steps db @ [\<lparr>st_id = Suc (length (wf_steps db)), st_run = r, st_node = node, st_visit = visit,
        st_status = S_PENDING, st_output = None, st_wait = None, st_wait_key = None, st_wake = None, st_child = None,
        st_key = idempotency_key env r node visit, st_decision = None, st_decided_by = None\<rparr>]\<rparr>))"

definition last_visit :: "step_row list \<Rightarrow> int" where
  "last_visit rows = (if rows = [] then 0 else st_visit (last (sort_key st_visit rows)))"

fun fire_edges :: "engine_env \<Rightarrow> workflow \<Rightarrow> string \<Rightarrow> wf_edge list \<Rightarrow> nat \<Rightarrow> wf_db \<Rightarrow> flow_error + nat \<times> wf_db" where
  "fire_edges env flow r [] n db = Inr (n, db)"
| "fire_edges env flow r (e # es) n db =
     (case find_node flow (ed_target e) of
        None \<Rightarrow> Inl Crashed
      | Some t \<Rightarrow>
          (let rows = filter (\<lambda>s. st_node s = nd_id t) (flow_steps db r); visit = last_visit rows + 1 in
           if list_ex (\<lambda>s. st_status s \<in> set ACTIVE_STEP \<or> st_status s = S_UNCERTAIN) rows then fire_edges env flow r es n db
           else if visit > max_visits t then
             (if nd_id t \<in> set (nodes_on_cycles flow) then Inr (n, fail_run r (Some (nd_id t)) db) else fire_edges env flow r es n db)
           else bind_r (new_step env r (nd_id t) visit db) (fire_edges env flow r es (Suc n))))"

definition fire :: "engine_env \<Rightarrow> workflow \<Rightarrow> string \<Rightarrow> string \<Rightarrow> (string option \<Rightarrow> bool) \<Rightarrow> wf_db \<Rightarrow> flow_error + nat \<times> wf_db" where
  "fire env flow r node pick db = fire_edges env flow r (filter (\<lambda>e. pick (ed_when e)) (outgoing flow node)) 0 db"

definition fire_after_success :: "engine_env \<Rightarrow> string \<Rightarrow> string \<Rightarrow> string option list \<Rightarrow> bool \<Rightarrow> wf_db \<Rightarrow> flow_error + wf_db" where
  "fire_after_success env r node labels denied db =
     bind_r (get_flow db r) (\<lambda>f.
     bind_r (load_flow env db (fr_workflow f)) (\<lambda>(flow, d).
       case find_node flow node of None \<Rightarrow> Inl Crashed
       | Some n \<Rightarrow> bind_r (fire env flow r node (\<lambda>w. w \<in> set labels) db) (\<lambda>(fired, db').
           Inr (if denied \<and> fired = 0 then fail_run r (Some node) db' else db'))))"

definition step_failed :: "engine_env \<Rightarrow> workflow \<Rightarrow> string \<Rightarrow> wf_node \<Rightarrow> step_row \<Rightarrow> wf_db \<Rightarrow> flow_error + nat \<times> wf_db" where
  "step_failed env flow r node s db =
     (let db1 = engine_log r ''step_failed'' (Some (nd_id node)) (set_step s (\<lambda>x. x\<lparr>st_status := S_FAILED, st_output := None\<rparr>) db) in
      if dget (nd_config node) ''on_failure'' VNone = VStr ''continue''
           \<and> list_ex (\<lambda>e. ed_when e = Some ''failed'') (outgoing flow (nd_id node))
      then fire env flow r (nd_id node) (\<lambda>w. w = Some ''failed'') db1
      else Inr (0, fail_run r (Some (nd_id node)) db1))"

definition succeed :: "string \<Rightarrow> step_row \<Rightarrow> pyval option \<Rightarrow> string \<Rightarrow> wf_db \<Rightarrow> wf_db" where
  "succeed r s out node db =
     engine_log r ''step_succeeded'' (Some node) (set_step s (\<lambda>x. x\<lparr>st_status := S_SUCCEEDED, st_output := out\<rparr>) db)"

definition settle :: "string \<Rightarrow> wf_db \<Rightarrow> flow_error + wf_db" where
  "settle r db =
     bind_r (get_flow db r) (\<lambda>f.
       if fr_status f \<in> set TERMINAL_RUN then Inr db
       else (let ss = map st_status (flow_steps db r) in
         if list_ex (\<lambda>s. s = S_PENDING \<or> s = S_RUNNING) ss then Inr (finish_flow r W_RUNNING db)
         else if list_ex (\<lambda>s. s = S_WAITING \<or> s = S_UNCERTAIN) ss then Inr (finish_flow r W_WAITING db)
         else Inr (engine_log r ''workflow_completed'' None (finish_flow r W_COMPLETED db))))"

definition step_context :: "wf_db \<Rightarrow> flow_row \<Rightarrow> pyval dict" where
  "step_context db f =
     [(''trigger'', VDict (fr_trigger f)), (''vars'', VDict (fr_vars f)),
      (''nodes'', VDict (foldl (\<lambda>d s. AList.update (st_node s)
          (VDict [(''output'', case st_output s of Some v \<Rightarrow> v | None \<Rightarrow> VDict [])]) d) []
        (filter (\<lambda>s. st_status s = S_SUCCEEDED) (flow_steps db (fr_id f)))))]"

section \<open>Handlers\<close>

text \<open>
  A handler returns whether anything changed, or raises; \<open>commit\<close> ends a transaction of a handler. An expression that raises
  anything but a \<open>TemplateError\<close> leaves the engine.
\<close>

type_synonym handled = "wf_db \<times> (flow_error + bool)"

fun commit :: "wf_db \<Rightarrow> flow_error + 'a \<times> wf_db \<Rightarrow> handled" where
  "commit db (Inl e) = (db, Inl e)"
| "commit db (Inr (x, db')) = (db', Inr True)"

fun expr_raises :: "expr_error \<Rightarrow> flow_error" where
  "expr_raises TemplateError = TemplateFailed"
| "expr_raises ExprCrash = Crashed"

definition with_expr :: "wf_db \<Rightarrow> expr_error + 'a \<Rightarrow> ('a \<Rightarrow> handled) \<Rightarrow> handled" where
  "with_expr db v k = (case v of Inl e \<Rightarrow> (db, Inl (expr_raises e)) | Inr x \<Rightarrow> k x)"

definition condition_step :: "engine_env \<Rightarrow> wf_db \<Rightarrow> flow_row \<Rightarrow> workflow \<Rightarrow> wf_node \<Rightarrow> step_row \<Rightarrow> handled" where
  "condition_step env db f flow node s =
     (case map_of (nd_config node) ''if'' of None \<Rightarrow> (db, Inl Crashed)
      | Some c \<Rightarrow> with_expr db (eval_cond (we_show env) (step_context db f) c) (\<lambda>b.
          commit db (fire env flow (fr_id f) (nd_id node) (\<lambda>w. w = Some (if b then ''true'' else ''false''))
            (succeed (fr_id f) s (Some (VDict [(''result'', VBool b)])) (nd_id node) db))))"

text \<open>\<open>(self._clock() + timedelta(seconds=t)).isoformat() if t else None\<close>; the text form orders as the moments do.\<close>

definition wake_after :: "engine_env \<Rightarrow> pyval \<Rightarrow> flow_error + rat option" where
  "wake_after env t = (if \<not> truthy t then Inr None else case num_of t of None \<Rightarrow> Inl Crashed | Some x \<Rightarrow> Inr (Some (we_clock env + x)))"

definition is_due :: "engine_env \<Rightarrow> step_row \<Rightarrow> bool" where
  "is_due env s \<longleftrightarrow> (case st_wake s of None \<Rightarrow> False | Some w \<Rightarrow> we_clock env \<ge> w)"

definition start_waiting :: "string \<Rightarrow> string option \<Rightarrow> rat option \<Rightarrow> step_row \<Rightarrow> step_row" where
  "start_waiting kind key wake x = x\<lparr>st_status := S_WAITING, st_wait := Some kind, st_wait_key := key, st_wake := wake\<rparr>"

definition approval_step :: "engine_env \<Rightarrow> wf_db \<Rightarrow> flow_row \<Rightarrow> workflow \<Rightarrow> wf_node \<Rightarrow> step_row \<Rightarrow> handled" where
  "approval_step env db f flow node s =
     (if st_status s = S_PENDING then
        with_expr db (render (we_show env) (step_context db f) (dget (nd_config node) ''message'' (VStr (''Approve step '' @ nd_id node @ ''?'')))) (\<lambda>message.
          case wake_after env (dget (nd_config node) ''timeout_s'' VNone) of Inl e \<Rightarrow> (db, Inl e)
          | Inr wake \<Rightarrow> (engine_log (fr_id f) ''approval_requested'' (Some (nd_id node))
              (set_step s (start_waiting ''approval'' (Some (nd_id node)) wake) db), Inr True))
      else if is_due env s then
        if list_ex (\<lambda>x. st_id x = st_id s \<and> st_status x = S_WAITING) (wf_steps db) then
          commit db (bind_r (fire env flow (fr_id f) (nd_id node)
              (\<lambda>w. w = Some (if list_ex (\<lambda>e. ed_when e = Some ''timeout'') (outgoing flow (nd_id node)) then ''timeout'' else ''denied''))
              (engine_log (fr_id f) ''approval_expired'' (Some (nd_id node))
                (set_steps (\<lambda>x. st_id x = st_id s \<and> st_status x = S_WAITING) (\<lambda>x. x\<lparr>st_status := S_SUCCEEDED,
                  st_decision := Some ''timeout'', st_output := Some (VDict [(''decision'', VStr ''timeout'')])\<rparr>) db)))
            (\<lambda>(fired, db'). Inr (fired, if fired = 0 then fail_run (fr_id f) (Some (nd_id node)) db' else db')))
        else (db, Inr True)
      else (db, Inr False))"

definition timer_step :: "engine_env \<Rightarrow> wf_db \<Rightarrow> flow_row \<Rightarrow> workflow \<Rightarrow> wf_node \<Rightarrow> step_row \<Rightarrow> handled" where
  "timer_step env db f flow node s =
     (if st_status s = S_PENDING then
        (case num_of (dget (nd_config node) ''seconds'' VNone) of None \<Rightarrow> (db, Inl Crashed)
         | Some t \<Rightarrow> (engine_log (fr_id f) ''step_waiting'' (Some (nd_id node))
             (set_step s (\<lambda>x. x\<lparr>st_status := S_WAITING, st_wait := Some ''timer'', st_wake := Some (we_clock env + t)\<rparr>) db), Inr True))
      else if st_wake s = None then (db, Inl Crashed)
      else if is_due env s then
        commit db (fire env flow (fr_id f) (nd_id node) (\<lambda>w. w = None)
          (flow_log (fr_id f) ''step_woken'' (Some (nd_id node)) ''timer'' None (set_step s (\<lambda>x. x\<lparr>st_status := S_SUCCEEDED\<rparr>) db)))
      else (db, Inr False))"

definition wait_event_step :: "engine_env \<Rightarrow> wf_db \<Rightarrow> flow_row \<Rightarrow> workflow \<Rightarrow> wf_node \<Rightarrow> step_row \<Rightarrow> handled" where
  "wait_event_step env db f flow node s =
     (if st_status s = S_PENDING then
        (case map_of (nd_config node) ''event'' of None \<Rightarrow> (db, Inl Crashed)
         | Some ev \<Rightarrow>
            with_expr db (render (we_show env) (step_context db f) ev) (\<lambda>type.
            with_expr db (render (we_show env) (step_context db f)
              (let v = dget (nd_config node) ''filter'' VNone in if truthy v then v else VDict [])) (\<lambda>flt.
              case wake_after env (dget (nd_config node) ''timeout_s'' VNone) of Inl e \<Rightarrow> (db, Inl e)
              | Inr wake \<Rightarrow> (engine_log (fr_id f) ''step_waiting'' (Some (nd_id node))
                  (set_step s (\<lambda>x. (start_waiting ''event'' (Some (py_str (we_show env) type)) wake x)\<lparr>st_output := Some (VDict [(''filter'', flt)])\<rparr>) db),
                  Inr True))))
      else if is_due env s then
        (let db1 = engine_log (fr_id f) ''step_timeout'' (Some (nd_id node))
             (set_steps (\<lambda>x. st_id x = st_id s \<and> st_status x = S_WAITING) (\<lambda>x. x\<lparr>st_status := S_FAILED\<rparr>) db) in
         if list_ex (\<lambda>e. ed_when e = Some ''timeout'') (outgoing flow (nd_id node))
         then commit db (fire env flow (fr_id f) (nd_id node) (\<lambda>w. w = Some ''timeout'') db1)
         else (fail_run (fr_id f) (Some (nd_id node)) db1, Inr True))
      else (db, Inr False))"

text \<open>\<open>self.service.cancel(child)\<close>, with every exception swallowed: the request reaches a run that is still active.\<close>

definition ask_cancel :: "string list \<Rightarrow> wf_db \<Rightarrow> wf_db" where
  "ask_cancel cs db = db\<lparr>wf_cancels := wf_cancels db @ filter (\<lambda>c. list_ex (\<lambda>x. ch_id x = c \<and> ch_active x) (wf_children db)) cs\<rparr>"

definition children_of :: "wf_db \<Rightarrow> string \<Rightarrow> step_status list \<Rightarrow> string list" where
  "children_of db r ss = List.map_filter (\<lambda>s. if st_status s \<in> set ss then st_child s else None) (flow_steps db r)"

definition end_step :: "engine_env \<Rightarrow> wf_db \<Rightarrow> flow_row \<Rightarrow> workflow \<Rightarrow> wf_node \<Rightarrow> step_row \<Rightarrow> handled" where
  "end_step env db f flow node s =
     (let r = fr_id f;
          db1 = set_step s (\<lambda>x. x\<lparr>st_status := S_SUCCEEDED\<rparr>) db;
          db2 = set_steps (\<lambda>x. st_run x = r \<and> st_status x \<in> set ACTIVE_STEP \<and> st_id x \<noteq> st_id s) (\<lambda>x. x\<lparr>st_status := S_SKIPPED\<rparr>) db1;
          db3 = (if dget (nd_config node) ''result'' (VStr ''success'') = VStr ''failure''
                 then engine_log r ''workflow_failed'' (Some (nd_id node)) (finish_flow r W_FAILED db2)
                 else engine_log r ''workflow_completed'' (Some (nd_id node)) (finish_flow r W_COMPLETED db2)) in
      (ask_cancel (children_of db1 r [S_WAITING]) db3, Inr True))"

section \<open>Agent nodes\<close>

definition find_child :: "wf_db \<Rightarrow> string option \<Rightarrow> child_row option" where
  "find_child db c = (case c of None \<Rightarrow> None | Some i \<Rightarrow> find_row ch_id i (wf_children db))"

definition needs_launch :: "child_row \<Rightarrow> bool" where
  "needs_launch c \<longleftrightarrow> ch_status c = ''created'' \<and> \<not> ch_active c"

definition launch :: "string \<Rightarrow> wf_db \<Rightarrow> wf_db" where
  "launch c db = db\<lparr>wf_children := update_row ch_id c (\<lambda>x. x\<lparr>ch_active := True\<rparr>) (wf_children db)\<rparr>"

definition link_child :: "string \<Rightarrow> wf_node \<Rightarrow> step_row \<Rightarrow> string \<Rightarrow> wf_db \<Rightarrow> handled" where
  "link_child r node s c db =
     (let db1 = engine_log r ''step_started'' (Some (nd_id node))
            (set_step s (\<lambda>x. x\<lparr>st_status := S_WAITING, st_wait := Some ''child_run'', st_child := Some c\<rparr>) db) in
      case find_child db1 (Some c) of None \<Rightarrow> (db1, Inl Crashed)
      | Some x \<Rightarrow> (if needs_launch x then launch c db1 else db1, Inr True))"

definition agent_request_of :: "engine_env \<Rightarrow> flow_row \<Rightarrow> step_row \<Rightarrow> pyval dict \<Rightarrow> pyval \<Rightarrow> agent_request" where
  "agent_request_of env f s cfg task =
     \<lparr>ag_repo = py_str (we_show env) (or_val (dget cfg ''repo'' VNone) (dget (fr_vars f) ''repo'' (VStr []))), ag_task = py_str (we_show env) task,
      ag_provider = or_val (dget cfg ''provider'' VNone) (VStr ''mock''), ag_model = dget cfg ''model'' VNone,
      ag_base_url = dget cfg ''base_url'' VNone, ag_workspace = fr_workspace f, ag_created_by = ''workflow:'' @ st_key s,
      ag_acting_as = fr_created_by f\<rparr>"

text \<open>\<open>TaskService.create_run\<close> as far as the engine sees it: it refuses, or records a run in state \<open>created\<close>.\<close>

definition add_child :: "string \<Rightarrow> string \<Rightarrow> wf_db \<Rightarrow> wf_db" where
  "add_child c by db = db\<lparr>wf_children := wf_children db @ [\<lparr>ch_id = c, ch_created_by = by, ch_status = ''created'', ch_outcome = VNone,
     ch_verdict = VNone, ch_failure = VNone, ch_active = False, ch_overrides = None\<rparr>]\<rparr>"

definition set_overrides :: "string \<Rightarrow> pyval \<Rightarrow> wf_db \<Rightarrow> wf_db" where
  "set_overrides c v db = db\<lparr>wf_children := update_row ch_id c (\<lambda>x. x\<lparr>ch_overrides := Some v\<rparr>) (wf_children db)\<rparr>"

definition start_agent :: "engine_env \<Rightarrow> wf_db \<Rightarrow> flow_row \<Rightarrow> workflow \<Rightarrow> wf_node \<Rightarrow> step_row \<Rightarrow> pyval dict \<Rightarrow> handled" where
  "start_agent env db f flow node s cfg =
     (let db1 = set_step s (\<lambda>x. x\<lparr>st_status := S_RUNNING\<rparr>) db in
      case map_of cfg ''task'' of None \<Rightarrow> (db1, Inl Crashed)
      | Some task \<Rightarrow>
         (let req = agent_request_of env f s cfg task; overrides = dget cfg ''overrides'' VNone in
          case we_create env req of
            None \<Rightarrow> commit db1 (step_failed env flow (fr_id f) node s db1)
          | Some c \<Rightarrow>
             (let db2 = add_child c (ag_created_by req) db1 in
              if truthy overrides then
                (case we_overrides env overrides of
                   None \<Rightarrow> (db2, Inl Crashed)
                 | Some None \<Rightarrow> commit db2 (step_failed env flow (fr_id f) node s db2)
                 | Some (Some v) \<Rightarrow> link_child (fr_id f) node s c (set_overrides c v db2))
              else link_child (fr_id f) node s c db2)))"

definition agent_output :: "child_row \<Rightarrow> pyval" where
  "agent_output c = VDict [(''run_id'', VStr (ch_id c)), (''status'', VStr (ch_status c)), (''outcome'', ch_outcome c),
     (''verdict'', ch_verdict c), (''failure_kind'', ch_failure c)]"

definition AGENT_TERMINAL :: "string list" where
  "AGENT_TERMINAL = [''completed'', ''failed'', ''cancelled'']"

definition agent_step :: "engine_env \<Rightarrow> wf_db \<Rightarrow> flow_row \<Rightarrow> workflow \<Rightarrow> wf_node \<Rightarrow> step_row \<Rightarrow> handled" where
  "agent_step env db f flow node s =
     (if st_status s = S_PENDING then
        with_expr db (render (we_show env) (step_context db f) (VDict (nd_config node))) (\<lambda>cfg.
          start_agent env db f flow node s (case as_dict cfg of Some d \<Rightarrow> d | None \<Rightarrow> []))
      else if st_status s = S_RUNNING then
        (case find (\<lambda>c. ch_created_by c = ''workflow:'' @ st_key s) (wf_children db) of
           None \<Rightarrow> (set_step s (\<lambda>x. x\<lparr>st_status := S_PENDING\<rparr>) db, Inr True)
         | Some c \<Rightarrow> link_child (fr_id f) node s (ch_id c) db)
      else
        (case find_child db (st_child s) of None \<Rightarrow> (db, Inl Crashed)
         | Some c \<Rightarrow>
             if needs_launch c then (launch (ch_id c) db, Inr True)
             else if ch_status c \<notin> set AGENT_TERMINAL then (db, Inr False)
             else if ch_status c = ''completed'' then
               commit db (fire env flow (fr_id f) (nd_id node) (\<lambda>w. w = None) (succeed (fr_id f) s (Some (agent_output c)) (nd_id node) db))
             else commit db (step_failed env flow (fr_id f) node s db)))"

section \<open>Action nodes\<close>

definition network_read_action :: "(string \<Rightarrow> string) \<Rightarrow> string \<Rightarrow> string" where
  "network_read_action hostname url =
     (let text = str_strip url in
      NETWORK_READ_PREFIX @ rstrip_by (\<lambda>c. c = CHR ''.'') (str_lower (hostname (if str_count ''//'' text > 0 then text else ''//'' @ text))))"

definition chain_for :: "engine_env \<Rightarrow> flow_row \<Rightarrow> policy_error + policy list" where
  "chain_for env f = load_chain (we_show env) (we_loads env) (we_policy_text env) (we_org env) (we_policies env)
     (fr_workspace f) None (Some (fr_workflow f)) None"

text \<open>The destination of a disclosure: a plugin is an external API called by its second name part, any other action its connector.\<close>

definition destination :: "string \<Rightarrow> string \<times> string" where
  "destination name =
     (if take 7 name = ''plugin.'' then (''external_api'', split_on (CHR ''.'') name ! 1) else (''connector'', before_char (CHR ''.'') name))"

definition boundary_verdicts :: "engine_env \<Rightarrow> policy list \<Rightarrow> string \<Rightarrow> action_info \<Rightarrow> policy_decision list" where
  "boundary_verdicts env chain name info =
     (if ai_discloses info \<noteq> [] then [decide_disclosure (we_egress_text env) chain (ai_discloses info) (fst (destination name)) (Some (snd (destination name)))] else [])
     @ (if ai_network_host info \<noteq> [] then [evaluate_policy chain (network_read_action (we_hostname env) (ai_network_host info)) (Some NETWORK_READ)] else [])"

definition boundary_allows :: "engine_env \<Rightarrow> policy list \<Rightarrow> string \<Rightarrow> action_info \<Rightarrow> bool" where
  "boundary_allows env chain name info \<longleftrightarrow>
     (case strictest (boundary_verdicts env chain name info) of None \<Rightarrow> True | Some d \<Rightarrow> allowed d)"

definition approver :: "wf_db \<Rightarrow> string \<Rightarrow> workflow \<Rightarrow> string \<Rightarrow> string option" where
  "approver db r flow node =
     (case find (\<lambda>s. st_node s \<in> set (ancestors flow node)) (rev (filter (\<lambda>s. st_decision s = Some ''approved'') (flow_steps db r))) of
        None \<Rightarrow> None | Some s \<Rightarrow> st_decided_by s)"

text \<open>
  The handler of an action up to the call: either it is settled without one, or the intent has been recorded and the call is due
  with these parameters on behalf of this approver. The order is the source's: unknown action, policy, boundary, approvals,
  what became of an interrupted call, parameters.
\<close>

datatype action_plan = Settled handled | Due action_info pyval "string option" wf_db

definition refused_by :: "engine_env \<Rightarrow> policy list \<Rightarrow> string \<Rightarrow> action_info \<Rightarrow> string option \<Rightarrow> bool" where
  "refused_by env chain name info by =
     (let d = evaluate_policy chain (''action.'' @ name) (Some (ai_effect info)) in
      pd_result d = DENY \<or> \<not> boundary_allows env chain name info \<or>
      approval_required d \<and> by = None \<and> \<not> we_unapproved env \<or>
      ai_effect info \<in> REQUIRES_APPROVAL_EFFECTS \<and> by = None \<and> \<not> we_unapproved env)"

definition action_params :: "engine_env \<Rightarrow> wf_db \<Rightarrow> flow_row \<Rightarrow> wf_node \<Rightarrow> flow_error + pyval" where
  "action_params env db f node =
     (case as_dict (or_val (dget (nd_config node) ''params'' VNone) (VDict [])) of
        None \<Rightarrow> Inl Crashed
      | Some d \<Rightarrow> (case render (we_show env) (step_context db f) (VDict d) of Inl e \<Rightarrow> Inl (expr_raises e) | Inr v \<Rightarrow> Inr v))"

definition action_due :: "engine_env \<Rightarrow> wf_db \<Rightarrow> flow_row \<Rightarrow> wf_node \<Rightarrow> step_row \<Rightarrow> action_info \<Rightarrow> string option \<Rightarrow> action_plan" where
  "action_due env db f node s info by =
     (case action_params env db f node of
        Inl e \<Rightarrow> Settled (db, Inl e)
      | Inr v \<Rightarrow> Due info v by (engine_log (fr_id f) ''step_started'' (Some (nd_id node)) (set_step s (\<lambda>x. x\<lparr>st_status := S_RUNNING\<rparr>) db)))"

text \<open>The two transactions in which a success is recorded: the step first, then its successors.\<close>

definition action_succeeded :: "engine_env \<Rightarrow> flow_row \<Rightarrow> workflow \<Rightarrow> wf_node \<Rightarrow> step_row \<Rightarrow> pyval \<Rightarrow> wf_db \<Rightarrow> handled" where
  "action_succeeded env f flow node s out db =
     (let db1 = succeed (fr_id f) s (if out = VNone then None else Some out) (nd_id node) db in
      commit db1 (fire env flow (fr_id f) (nd_id node) (\<lambda>w. w = None) db1))"

definition contacted :: "flow_row \<Rightarrow> wf_node \<Rightarrow> step_row \<Rightarrow> string \<Rightarrow> string option \<Rightarrow> request list \<Rightarrow> wf_db \<Rightarrow> wf_db" where
  "contacted f node s name by qs db = db\<lparr>wf_contacts := wf_contacts db @ map (\<lambda>q. \<lparr>ct_request = q, ct_run = fr_id f, ct_node = nd_id node,
     ct_workspace = fr_workspace f, ct_workflow = fr_workflow f, ct_name = name, ct_key = st_key s, ct_approver = by\<rparr>) qs\<rparr>"

definition plan_action :: "engine_env \<Rightarrow> wf_db \<Rightarrow> flow_row \<Rightarrow> workflow \<Rightarrow> wf_node \<Rightarrow> step_row \<Rightarrow> string \<Rightarrow> action_plan" where
  "plan_action env db f flow node s name =
     (let by = approver db (fr_id f) flow (nd_id node) in
      case map_of (we_actions env) name of
        None \<Rightarrow> Settled (commit db (step_failed env flow (fr_id f) node s db))
      | Some info \<Rightarrow>
         (case chain_for env f of Inl e \<Rightarrow> Settled (db, Inl Crashed)
          | Inr chain \<Rightarrow>
             if refused_by env chain name info by then Settled (commit db (step_failed env flow (fr_id f) node s db))
             else if st_status s = S_RUNNING then
               (let db' = contacted f node s name by [Lookup] db in
                case we_existing env (fr_workspace f) name (st_key s) of
                  Returned (Some out) \<Rightarrow> Settled (action_succeeded env f flow node s out db')
                | Returned None \<Rightarrow>
                    if \<not> ai_idempotent info then
                      Settled (engine_log (fr_id f) ''step_uncertain'' (Some (nd_id node)) (set_step s (\<lambda>x. x\<lparr>st_status := S_UNCERTAIN\<rparr>) db'), Inr True)
                    else action_due env db' f node s info by
                | _ \<Rightarrow> Settled (db', Inl Crashed))
             else action_due env db f node s info by))"

text \<open>The retries of a call: \<open>run_with_retry(perform, origin=CONNECTOR, idempotent=...)\<close> leaves every other argument at its default.\<close>

definition call_env :: "engine_env \<Rightarrow> action_info \<Rightarrow> retry_env" where
  "call_env env info = (we_retry env)\<lparr>re_policy := DEFAULT_POLICY, re_origin := O_CONNECTOR, re_idempotent := ai_idempotent info,
     re_uncertain := (\<lambda>_. False), re_left := (\<lambda>_. None)\<rparr>"

definition note_call :: "flow_row \<Rightarrow> wf_node \<Rightarrow> step_row \<Rightarrow> string \<Rightarrow> pyval \<Rightarrow> string option \<Rightarrow> nat \<Rightarrow> wf_db \<Rightarrow> wf_db" where
  "note_call f node s name params by n db = contacted f node s name by (map Perform [1 ..< Suc n])
     (db\<lparr>wf_calls := wf_calls db @ [\<lparr>pf_step = st_id s, pf_run = fr_id f, pf_node = nd_id node, pf_name = name,
        pf_params = params, pf_key = st_key s, pf_approver = by, pf_attempts = n\<rparr>]\<rparr>)"

definition call_action :: "engine_env \<Rightarrow> flow_row \<Rightarrow> wf_node \<Rightarrow> step_row \<Rightarrow> string \<Rightarrow> action_info \<Rightarrow> pyval \<Rightarrow> string option \<Rightarrow> wf_db
    \<Rightarrow> pyval outcome \<times> wf_db" where
  "call_action env f node s name info params by db =
     (case run_with_retry (call_env env info) (we_perform env (fr_workspace f) name params (st_key s) by) of
        (out, n, trace) \<Rightarrow> (out, note_call f node s name params by n db))"

definition action_step :: "engine_env \<Rightarrow> wf_db \<Rightarrow> flow_row \<Rightarrow> workflow \<Rightarrow> wf_node \<Rightarrow> step_row \<Rightarrow> handled" where
  "action_step env db f flow node s =
     (case map_of (nd_config node) ''action'' of None \<Rightarrow> (db, Inl Crashed)
      | Some v \<Rightarrow>
         (let name = py_str (we_show env) v in
          case plan_action env db f flow node s name of
            Settled h \<Rightarrow> h
          | Due info params by db1 \<Rightarrow>
             (case call_action env f node s name info params by db1 of
                (Returned out, db2) \<Rightarrow> action_succeeded env f flow node s out db2
              | (Raised e, db2) \<Rightarrow> commit db2 (step_failed env flow (fr_id f) node s db2)
              | (Cancelled, db2) \<Rightarrow> (db2, Inl Crashed))))"

section \<open>Progress\<close>

definition run_handler :: "engine_env \<Rightarrow> wf_db \<Rightarrow> flow_row \<Rightarrow> workflow \<Rightarrow> wf_node \<Rightarrow> step_row \<Rightarrow> handled" where
  "run_handler env db f flow node s =
     (case nd_type node of
        AGENT \<Rightarrow> agent_step env db f flow node s
      | ACTION \<Rightarrow> action_step env db f flow node s
      | CONDITION \<Rightarrow> condition_step env db f flow node s
      | APPROVAL \<Rightarrow> approval_step env db f flow node s
      | WAIT_EVENT \<Rightarrow> wait_event_step env db f flow node s
      | TIMER \<Rightarrow> timer_step env db f flow node s
      | END \<Rightarrow> end_step env db f flow node s)"

definition flow_step :: "engine_env \<Rightarrow> wf_db \<Rightarrow> flow_row \<Rightarrow> workflow \<Rightarrow> step_row \<Rightarrow> handled" where
  "flow_step env db f flow s =
     (case find_node flow (st_node s) of None \<Rightarrow> (db, Inl Crashed)
      | Some node \<Rightarrow>
         (case run_handler env db f flow node s of
            (db', Inl TemplateFailed) \<Rightarrow> commit db' (step_failed env flow (fr_id f) node s db')
          | h \<Rightarrow> h))"

definition flow_ended :: "wf_db \<Rightarrow> string \<Rightarrow> bool" where
  "flow_ended db r \<longleftrightarrow> (case find_row fr_id r (wf_runs db) of Some f \<Rightarrow> fr_status f \<in> set TERMINAL_RUN | None \<Rightarrow> False)"

datatype round = Ended | Round bool

fun run_round :: "engine_env \<Rightarrow> flow_row \<Rightarrow> workflow \<Rightarrow> step_row list \<Rightarrow> bool \<Rightarrow> wf_db \<Rightarrow> wf_db \<times> (flow_error + round)" where
  "run_round env f flow [] progressed db = (db, Inr (Round progressed))"
| "run_round env f flow (s # ss) progressed db =
     (case flow_step env db f flow s of
        (db', Inl e) \<Rightarrow> (db', Inl e)
      | (db', Inr b) \<Rightarrow> if flow_ended db' (fr_id f) then (db', Inr Ended) else run_round env f flow ss (progressed \<or> b) db')"

definition active_steps :: "wf_db \<Rightarrow> string \<Rightarrow> step_row list" where
  "active_steps db r = filter (\<lambda>s. st_status s \<in> set ACTIVE_STEP) (flow_steps db r)"

fun settled :: "string \<Rightarrow> wf_db \<Rightarrow> wf_db \<times> (flow_error + unit)" where
  "settled r db = (case settle r db of Inl e \<Rightarrow> (db, Inl e) | Inr db' \<Rightarrow> (db', Inr ()))"

fun advance_loop :: "engine_env \<Rightarrow> nat \<Rightarrow> string \<Rightarrow> wf_db \<Rightarrow> wf_db \<times> (flow_error + unit)" where
  "advance_loop env 0 r db = settled r db"
| "advance_loop env (Suc k) r db =
     (case get_flow db r of Inl e \<Rightarrow> (db, Inl e)
      | Inr f \<Rightarrow>
         if fr_status f \<in> set TERMINAL_RUN then (db, Inr ())
         else (case load_flow env db (fr_workflow f) of Inl e \<Rightarrow> (db, Inl e)
           | Inr (flow, d) \<Rightarrow>
              (case run_round env f flow (active_steps db r) False db of
                 (db', Inl e) \<Rightarrow> (db', Inl e)
               | (db', Inr Ended) \<Rightarrow> (db', Inr ())
               | (db', Inr (Round progressed)) \<Rightarrow> if progressed then advance_loop env k r db' else settled r db')))"

definition advance :: "engine_env \<Rightarrow> wf_db \<Rightarrow> string \<Rightarrow> wf_db \<times> (flow_error + unit)" where
  "advance env db r = advance_loop env 1000 r db"

fun advance_all :: "engine_env \<Rightarrow> string list \<Rightarrow> wf_db \<Rightarrow> wf_db \<times> (flow_error + unit)" where
  "advance_all env [] db = (db, Inr ())"
| "advance_all env (r # rs) db = (case advance env db r of (db', Inl e) \<Rightarrow> (db', Inl e) | (db', Inr _) \<Rightarrow> advance_all env rs db')"

definition tick :: "engine_env \<Rightarrow> wf_db \<Rightarrow> wf_db \<times> (flow_error + nat)" where
  "tick env db =
     (let ids = map fr_id (filter (\<lambda>f. fr_status f = W_RUNNING \<or> fr_status f = W_WAITING) (wf_runs db)) in
      case advance_all env ids db of (db', Inl e) \<Rightarrow> (db', Inl e) | (db', Inr _) \<Rightarrow> (db', Inr (length ids)))"

section \<open>Starting\<close>

definition merge_variables :: "workflow \<Rightarrow> pyval dict \<Rightarrow> pyval dict \<times> string list" where
  "merge_variables flow given =
     (List.map_filter (\<lambda>(name, spec). if has_key given name then Some (name, dget given name VNone)
        else if has_key spec ''default'' then Some (name, dget spec ''default'' VNone) else None) (wf_variables flow),
      map fst (filter (\<lambda>(name, spec). \<not> has_key given name \<and> \<not> has_key spec ''default'' \<and> truthy (dget spec ''required'' VNone)) (wf_variables flow)))"

fun new_steps :: "engine_env \<Rightarrow> string \<Rightarrow> string list \<Rightarrow> wf_db \<Rightarrow> flow_error + wf_db" where
  "new_steps env r [] db = Inr db"
| "new_steps env r (i # is) db = bind_r (new_step env r i 1 db) (new_steps env r is)"

definition trigger_used :: "wf_db \<Rightarrow> string \<Rightarrow> string option \<Rightarrow> bool" where
  "trigger_used db i key \<longleftrightarrow> key \<noteq> None \<and> list_ex (\<lambda>f. fr_workflow f = i \<and> fr_trigger_key f = key) (wf_runs db)"

definition start_flow :: "engine_env \<Rightarrow> string \<Rightarrow> wf_db \<Rightarrow> string \<Rightarrow> pyval dict \<Rightarrow> pyval dict \<Rightarrow> string option \<Rightarrow> string
    \<Rightarrow> flow_error + string option \<times> wf_db" where
  "start_flow env uuid db i trigger given key by =
     bind_r (load_flow env db i) (\<lambda>(flow, d).
       case validate (we_show env) flow (engine_policy env) of
         Inl e \<Rightarrow> Inl Crashed
       | Inr problems \<Rightarrow>
          (if problems \<noteq> [] then Inl Refused
           else (case merge_variables flow given of (merged, missing) \<Rightarrow>
             if missing \<noteq> [] \<or> extra_keys given (map fst (wf_variables flow)) \<noteq> [] then Inl Refused
             else if has_row fr_id uuid (wf_runs db) \<or> trigger_used db i key then Inr (None, db)
             else bind_r (new_steps env uuid (map nd_id (wf_entries flow))
                 (db\<lparr>wf_runs := wf_runs db @ [\<lparr>fr_id = uuid, fr_workflow = i, fr_workspace = df_workspace d, fr_status = W_RUNNING,
                    fr_trigger = trigger, fr_trigger_key = key, fr_vars = merged, fr_created_by = by\<rparr>]\<rparr>)) (\<lambda>db'.
               Inr (Some uuid, flow_log uuid ''workflow_started'' None by None db')))))"

section \<open>External events\<close>

record trigger_event =
  te_source :: string
  te_type :: string
  te_external_id :: string
  te_workspace :: string
  te_payload :: "pyval dict"
  te_actor :: string

definition from_envelope :: "trigger_event \<Rightarrow> trigger_event" where
  "from_envelope ev =
     (let prefix = te_source ev @ ''.'' in
      ev\<lparr>te_type := (if take (length prefix) (te_type ev) = prefix then te_type ev else prefix @ te_type ev)\<rparr>)"

definition event_dict :: "trigger_event \<Rightarrow> pyval dict" where
  "event_dict ev = [(''source'', VStr (te_source ev)), (''type'', VStr (te_type ev)), (''external_id'', VStr (te_external_id ev)),
     (''actor'', VStr (te_actor ev)), (''payload'', VDict (te_payload ev))]"

definition waiting_for :: "wf_db \<Rightarrow> trigger_event \<Rightarrow> step_row list" where
  "waiting_for db ev = filter (\<lambda>s. st_status s = S_WAITING \<and> st_wait s = Some ''event'' \<and> st_wait_key s = Some (te_type ev)
     \<and> (case find_row fr_id (st_run s) (wf_runs db) of Some f \<Rightarrow> fr_workspace f = te_workspace ev | None \<Rightarrow> False)) (wf_steps db)"

text \<open>\<open>(json.loads(row["output_json"]) ...).get("filter") or {}\<close>.\<close>

definition event_filter :: "step_row \<Rightarrow> flow_error + pyval dict" where
  "event_filter s =
     (case as_dict (case st_output s of Some v \<Rightarrow> v | None \<Rightarrow> VDict []) of
        None \<Rightarrow> Inl Crashed
      | Some d \<Rightarrow> (case as_dict (or_val (dget d ''filter'' VNone) (VDict [])) of None \<Rightarrow> Inl Crashed | Some x \<Rightarrow> Inr x))"

fun wake_waiting :: "engine_env \<Rightarrow> trigger_event \<Rightarrow> step_row list \<Rightarrow> string list \<Rightarrow> wf_db \<Rightarrow> flow_error + string list \<times> wf_db" where
  "wake_waiting env ev [] touched db = Inr (touched, db)"
| "wake_waiting env ev (s # ss) touched db =
     bind_r (event_filter s) (\<lambda>flt.
       case filter_matches flt (event_dict ev) of
         Inl e \<Rightarrow> Inl Crashed
       | Inr False \<Rightarrow> wake_waiting env ev ss touched db
       | Inr True \<Rightarrow>
          bind_r (fire_after_success env (st_run s) (st_node s) [None] False
             (flow_log (st_run s) ''step_woken'' (Some (st_node s)) (te_actor ev) None
               (set_steps (\<lambda>x. st_id x = st_id s \<and> st_status x = S_WAITING)
                 (\<lambda>x. x\<lparr>st_status := S_SUCCEEDED, st_output := Some (VDict (event_dict ev))\<rparr>) db)))
            (wake_waiting env ev ss (touched @ [st_run s])))"

fun start_matching :: "engine_env \<Rightarrow> (string \<Rightarrow> string) \<Rightarrow> trigger_event \<Rightarrow> string list \<Rightarrow> string list \<Rightarrow> wf_db
    \<Rightarrow> wf_db \<times> (flow_error + string list)" where
  "start_matching env uuid ev [] touched db = (db, Inr touched)"
| "start_matching env uuid ev (i # is) touched db =
     (case load_flow env db i of
        Inl e \<Rightarrow> (db, Inl e)
      | Inr (flow, d) \<Rightarrow>
         (case filter_matches (tr_filter (wf_trigger flow)) (event_dict ev) of
            Inl e \<Rightarrow> (db, Inl Crashed)
          | Inr False \<Rightarrow> start_matching env uuid ev is touched db
          | Inr True \<Rightarrow>
             (case start_flow env (uuid i) db i (event_dict ev) [] (Some (te_source ev @ '':'' @ te_external_id ev)) (''event:'' @ te_source ev) of
                Inl Refused \<Rightarrow> start_matching env uuid ev is touched db
              | Inl e \<Rightarrow> (db, Inl e)
              | Inr (None, db') \<Rightarrow> start_matching env uuid ev is touched db'
              | Inr (Some r, db') \<Rightarrow> start_matching env uuid ev is (touched @ [r]) db')))"

text \<open>\<open>dict.fromkeys(touched)\<close> keeps the first occurrence of each run.\<close>

definition in_order :: "string list \<Rightarrow> string list" where
  "in_order xs = rev (remdups (rev xs))"

definition deliver_event :: "engine_env \<Rightarrow> (string \<Rightarrow> string) \<Rightarrow> wf_db \<Rightarrow> trigger_event \<Rightarrow> wf_db \<times> (flow_error + string list)" where
  "deliver_event env uuid db ev =
     (case wake_waiting env ev (waiting_for db ev) [] db of
        Inl e \<Rightarrow> (db, Inl e)
      | Inr (woken, db1) \<Rightarrow>
         (case start_matching env uuid ev (active_for_trigger db1 (te_type ev) (Some (te_workspace ev))) woken db1 of
            (db2, Inl e) \<Rightarrow> (db2, Inl e)
          | (db2, Inr touched) \<Rightarrow>
             (case advance_all env (in_order touched) db2 of (db3, Inl e) \<Rightarrow> (db3, Inl e) | (db3, Inr _) \<Rightarrow> (db3, Inr (in_order touched)))))"

section \<open>Human decisions\<close>

text \<open>A transaction followed by \<open>advance\<close>: what advancing raises is raised after the transaction was kept.\<close>

definition then_advance :: "engine_env \<Rightarrow> wf_db \<Rightarrow> string \<Rightarrow> flow_error + wf_db \<Rightarrow> wf_db \<times> (flow_error + unit)" where
  "then_advance env db r t = (case t of Inl e \<Rightarrow> (db, Inl e) | Inr db' \<Rightarrow> advance env db' r)"

definition decide_flow :: "engine_env \<Rightarrow> wf_db \<Rightarrow> string \<Rightarrow> string \<Rightarrow> string \<Rightarrow> string \<Rightarrow> wf_db \<times> (flow_error + unit)" where
  "decide_flow env db r node answer who =
     (let asked = (\<lambda>s. st_run s = r \<and> st_node s = node \<and> st_status s = S_WAITING \<and> st_wait s = Some ''approval'');
          verdict = (if answer = ''approve'' then ''approved'' else ''denied'') in
      if answer \<notin> {''approve'', ''deny''} \<or> length (filter asked (wf_steps db)) \<noteq> 1 then (db, Inl Refused)
      else then_advance env db r (fire_after_success env r node (if answer = ''approve'' then [None, Some ''approved''] else [Some ''denied''])
        (answer = ''deny'')
        (flow_log r ''approval_decided'' (Some node) who (Some answer)
          (set_steps asked (\<lambda>s. s\<lparr>st_status := S_SUCCEEDED, st_decision := Some verdict, st_decided_by := Some who,
             st_output := Some (VDict [(''decision'', VStr verdict), (''decided_by'', VStr who)])\<rparr>) db))))"

definition cancel_flow :: "wf_db \<Rightarrow> string \<Rightarrow> string \<Rightarrow> wf_db \<times> (flow_error + unit)" where
  "cancel_flow db r who =
     (case get_flow db r of Inl e \<Rightarrow> (db, Inl e)
      | Inr f \<Rightarrow>
         if fr_status f \<in> set TERMINAL_RUN then (db, Inr ())
         else (ask_cancel (children_of db r [S_WAITING, S_RUNNING])
                (flow_log r ''workflow_cancelled'' None who None (finish_flow r W_CANCELLED (skip_active r db))), Inr ()))"

definition resolved_status :: "string \<Rightarrow> step_status" where
  "resolved_status answer = (if answer = ''happened'' then S_SUCCEEDED else if answer = ''retry'' then S_PENDING else S_FAILED)"

definition resolve_step :: "engine_env \<Rightarrow> wf_db \<Rightarrow> string \<Rightarrow> string \<Rightarrow> string \<Rightarrow> string \<Rightarrow> wf_db \<times> (flow_error + unit)" where
  "resolve_step env db r node answer who =
     (if answer \<notin> {''happened'', ''retry'', ''failed''} then (db, Inl Refused)
      else (case find (\<lambda>s. st_run s = r \<and> st_node s = node \<and> st_status s = S_UNCERTAIN) (wf_steps db) of
        None \<Rightarrow> (db, Inl Refused)
      | Some s \<Rightarrow>
         (let db1 = flow_log r ''step_resolved'' (Some node) who (Some answer)
              (set_step s (\<lambda>x. x\<lparr>st_status := resolved_status answer, st_decided_by := Some who\<rparr>) db) in
          then_advance env db r (if answer = ''happened'' then fire_after_success env r node [None] False db1 else Inr db1))))"

end
