(* ===== verification/Workflow_Safety.thy ===== *)
theory Workflow_Safety
  imports Workflow_Engine
begin

text \<open>
  What every run of a workflow keeps to. Each operation of the engine, and each crash inside one, is a sequence of moves: small changes
  of the tables that respect the node a step belongs to. The invariants are proved once, for a move. Shown of every history: writes are
  approved, every request to a connector is permitted by the policies, visits are bounded, an event starts a workflow once, and an action
  that is not idempotent is asked for a bounded number of times.
\<close>

section \<open>Moves\<close>

definition flow_of :: "(pyval \<Rightarrow> string) \<Rightarrow> wf_db \<Rightarrow> string \<Rightarrow> workflow option" where
  "flow_of show_val db r =
     (case find_row fr_id r (wf_runs db) of None \<Rightarrow> None
      | Some f \<Rightarrow> (case find_row df_id (fr_workflow f) (wf_defs db) of None \<Rightarrow> None
         | Some d \<Rightarrow> (case parse_workflow show_val (df_definition d) of Inl e \<Rightarrow> None | Inr flow \<Rightarrow> Some flow)))"

definition node_of :: "(pyval \<Rightarrow> string) \<Rightarrow> wf_db \<Rightarrow> step_row \<Rightarrow> wf_node option" where
  "node_of show_val db s = Option.bind (flow_of show_val db (st_run s)) (\<lambda>flow. find_node flow (st_node s))"

abbreviation type_of :: "(pyval \<Rightarrow> string) \<Rightarrow> wf_db \<Rightarrow> step_row \<Rightarrow> node_type option" where
  "type_of show_val db s \<equiv> map_option nd_type (node_of show_val db s)"

definition approved_in :: "wf_db \<Rightarrow> string \<Rightarrow> string \<Rightarrow> string option \<Rightarrow> bool" where
  "approved_in db r node who \<longleftrightarrow>
     (\<exists>e \<in> set (wf_events db). fe_run e = r \<and> fe_type e = ''approval_decided'' \<and> fe_node e = Some node \<and>
        fe_answer e = Some ''approve'' \<and> who = Some (fe_actor e))"

definition same_place :: "step_row \<Rightarrow> step_row \<Rightarrow> bool" where
  "same_place s s' \<longleftrightarrow> st_id s' = st_id s \<and> st_run s' = st_run s \<and> st_node s' = st_node s \<and> st_visit s' = st_visit s"

definition ok_change :: "(pyval \<Rightarrow> string) \<Rightarrow> wf_db \<Rightarrow> step_row \<Rightarrow> step_row \<Rightarrow> bool" where
  "ok_change show_val db s s' \<longleftrightarrow> same_place s s' \<and>
     (st_wait s' = Some ''approval'' \<longrightarrow> st_wait s = Some ''approval'' \<or> type_of show_val db s = Some APPROVAL) \<and>
     (st_status s' = S_UNCERTAIN \<longrightarrow> st_status s = S_UNCERTAIN \<or> type_of show_val db s = Some ACTION) \<and>
     (st_status s' = S_PENDING \<longrightarrow> st_status s = S_PENDING \<or> type_of show_val db s = Some AGENT) \<and>
     (st_status s' = S_WAITING \<longrightarrow> st_status s = S_WAITING \<or> type_of show_val db s \<noteq> Some ACTION) \<and>
     (st_decision s' = st_decision s \<and> st_decided_by s' = st_decided_by s \<or>
      st_decision s' = st_decision s \<and> type_of show_val db s = Some ACTION \<or>
      type_of show_val db s = Some APPROVAL \<and> (st_decision s' = Some ''approved'' \<longrightarrow> approved_in db (st_run s) (st_node s) (st_decided_by s')))"

text \<open>The connectors may be called for an action whose effect needs an approval only on behalf of a person who approved upstream.\<close>

definition justified :: "(pyval \<Rightarrow> string) \<Rightarrow> action_info dict \<Rightarrow> bool \<Rightarrow> wf_db \<Rightarrow> performed \<Rightarrow> bool" where
  "justified show_val acts unapproved db c \<longleftrightarrow>
     (\<exists>flow node v info. flow_of show_val db (pf_run c) = Some flow \<and> find_node flow (pf_node c) = Some node \<and> nd_type node = ACTION \<and>
        map_of (nd_config node) ''action'' = Some v \<and> pf_name c = py_str show_val v \<and> map_of acts (pf_name c) = Some info \<and>
        (ai_effect info \<in> REQUIRES_APPROVAL_EFFECTS \<longrightarrow> \<not> unapproved \<longrightarrow>
           (\<exists>a \<in> set (ancestors flow (pf_node c)). is_approval flow a \<and> approved_in db (pf_run c) a (pf_approver c) \<and> pf_approver c \<noteq> None)))"

definition idempotent_call :: "action_info dict \<Rightarrow> string \<Rightarrow> bool" where
  "idempotent_call acts name \<longleftrightarrow> (case map_of acts name of Some info \<Rightarrow> ai_idempotent info | None \<Rightarrow> False)"

inductive move :: "(pyval \<Rightarrow> string) \<Rightarrow> action_info dict \<Rightarrow> bool \<Rightarrow> (contact \<Rightarrow> bool) \<Rightarrow> wf_db \<Rightarrow> wf_db \<Rightarrow> bool"
  for show_val :: "pyval \<Rightarrow> string" and acts :: "action_info dict" and unapproved :: bool and may :: "contact \<Rightarrow> bool" where
  add_def: "\<not> has_row df_id (df_id d) (wf_defs db) \<Longrightarrow> move show_val acts unapproved may db (db\<lparr>wf_defs := wf_defs db @ [d]\<rparr>)"
| add_run: "\<not> has_row fr_id (fr_id f) (wf_runs db) \<Longrightarrow> \<not> trigger_used db (fr_workflow f) (fr_trigger_key f) \<Longrightarrow>
    move show_val acts unapproved may db (db\<lparr>wf_runs := wf_runs db @ [f]\<rparr>)"
| set_status: "move show_val acts unapproved may db (finish_flow r status db)"
| add_step: "flow_of show_val db r = Some flow \<Longrightarrow> find_node flow node = Some n \<Longrightarrow> 1 \<le> visit \<Longrightarrow> visit \<le> max_visits n \<Longrightarrow>
    new_step env r node visit db = Inr db' \<Longrightarrow> move show_val acts unapproved may db db'"
| log: "move show_val acts unapproved may db (flow_log r type node who answer db)"
| change: "(\<And>s. s \<in> set (wf_steps db) \<Longrightarrow> ok_change show_val db s (g s)) \<Longrightarrow>
    move show_val acts unapproved may db (db\<lparr>wf_steps := map g (wf_steps db)\<rparr>)"
| retry: "s \<in> set (wf_steps db) \<Longrightarrow> st_status s = S_UNCERTAIN \<Longrightarrow> type_of show_val db s = Some ACTION \<Longrightarrow>
    move show_val acts unapproved may db (flow_log (st_run s) ''step_resolved'' (Some (st_node s)) who (Some ''retry'')
      (set_step s (\<lambda>x. x\<lparr>st_status := S_PENDING, st_decided_by := Some who\<rparr>) db))"
| agents: "move show_val acts unapproved may db (db\<lparr>wf_children := cs, wf_cancels := cc\<rparr>)"
| call: "s \<in> set (wf_steps db) \<Longrightarrow> justified show_val acts unapproved db c \<Longrightarrow> pf_run c = st_run s \<Longrightarrow> pf_node c = st_node s \<Longrightarrow>
    pf_step c = st_id s \<Longrightarrow> st_status s = S_PENDING \<or> idempotent_call acts (pf_name c) \<Longrightarrow>
    list_all (\<lambda>k. may k \<and> ct_run k = st_run s \<and> ct_node k = st_node s) ks \<Longrightarrow> length ks \<le> max_attempts DEFAULT_POLICY \<Longrightarrow>
    move show_val acts unapproved may db
      ((set_step s (\<lambda>x. x\<lparr>st_status := S_RUNNING\<rparr>) db)\<lparr>wf_calls := wf_calls db @ [c], wf_contacts := wf_contacts db @ ks\<rparr>)"
| look: "may k \<Longrightarrow> ct_request k = Lookup \<Longrightarrow> move show_val acts unapproved may db (db\<lparr>wf_contacts := wf_contacts db @ [k]\<rparr>)"

abbreviation moves :: "(pyval \<Rightarrow> string) \<Rightarrow> action_info dict \<Rightarrow> bool \<Rightarrow> (contact \<Rightarrow> bool) \<Rightarrow> wf_db \<Rightarrow> wf_db \<Rightarrow> bool" where
  "moves show_val acts unapproved may \<equiv> (move show_val acts unapproved may)\<^sup>*\<^sup>*"

section \<open>What moves keep\<close>

definition ids_ok :: "wf_db \<Rightarrow> bool" where
  "ids_ok db \<longleftrightarrow> map st_id (wf_steps db) = [1 ..< Suc (length (wf_steps db))]"

lemma ids_ok_distinct: "ids_ok db \<Longrightarrow> distinct (map st_id (wf_steps db))"
  unfolding ids_ok_def by (metis distinct_upt)

lemma ids_okD: "ids_ok db \<Longrightarrow> s \<in> set (wf_steps db) \<Longrightarrow> t \<in> set (wf_steps db) \<Longrightarrow> st_id s = st_id t \<Longrightarrow> s = t"
  unfolding ids_ok_def by (metis distinct_map distinct_upt inj_on_def)

lemma ids_ok_fresh: "ids_ok db \<Longrightarrow> s \<in> set (wf_steps db) \<Longrightarrow> st_id s \<le> length (wf_steps db)"
  unfolding ids_ok_def by (metis (no_types, lifting) atLeastLessThan_iff imageI less_Suc_eq_le list.set_map set_upt)

lemma new_step_cases:
  assumes "new_step env r node visit db = Inr db'"
  obtains s where "db' = db\<lparr>wf_steps := wf_steps db @ [s]\<rparr>" "st_id s = Suc (length (wf_steps db))" "st_run s = r" "st_node s = node"
    "st_visit s = visit" "st_status s = S_PENDING" "st_wait s = None" "st_decision s = None"
    "\<not> list_ex (\<lambda>t. st_run t = r \<and> st_node t = node \<and> st_visit t = visit) (wf_steps db)"
  using assms by (auto simp: new_step_def split: if_splits)

lemma ids_ok_map: "(\<And>s. s \<in> set (wf_steps db) \<Longrightarrow> st_id (g s) = st_id s) \<Longrightarrow> ids_ok (db\<lparr>wf_steps := map g (wf_steps db)\<rparr>) = ids_ok db"
  by (simp add: ids_ok_def comp_def cong: map_cong)

lemma set_steps_simps [simp]:
  "wf_runs (set_steps p f db) = wf_runs db" "wf_defs (set_steps p f db) = wf_defs db" "wf_events (set_steps p f db) = wf_events db"
  "wf_calls (set_steps p f db) = wf_calls db" "wf_contacts (set_steps p f db) = wf_contacts db" "length (wf_steps (set_steps p f db)) = length (wf_steps db)"
  by (simp_all add: set_steps_def)

lemma log_simps [simp]:
  "wf_steps (flow_log r type node who answer db) = wf_steps db" "wf_runs (flow_log r type node who answer db) = wf_runs db"
  "wf_defs (flow_log r type node who answer db) = wf_defs db" "wf_calls (flow_log r type node who answer db) = wf_calls db"
  "wf_contacts (flow_log r type node who answer db) = wf_contacts db"
  by (simp_all add: flow_log_def)

lemma finish_simps [simp]:
  "wf_steps (finish_flow r status db) = wf_steps db" "wf_events (finish_flow r status db) = wf_events db"
  "wf_defs (finish_flow r status db) = wf_defs db" "wf_calls (finish_flow r status db) = wf_calls db"
  "wf_contacts (finish_flow r status db) = wf_contacts db"
  by (simp_all add: finish_flow_def)

lemma ids_ok_set_steps: "(\<And>x. st_id (f x) = st_id x) \<Longrightarrow> ids_ok (set_steps p f db) = ids_ok db"
  unfolding set_steps_def by (rule ids_ok_map) simp

lemma ids_ok_frame: "wf_steps db' = wf_steps db \<Longrightarrow> ids_ok db' = ids_ok db"
  by (simp add: ids_ok_def)

lemma ids_ok_move: "move show_val acts unapproved may db db' \<Longrightarrow> ids_ok db \<Longrightarrow> ids_ok db'"
proof (induction rule: move.induct)
  case (add_step db r flow node n visit env db')
  then show ?case by (elim new_step_cases) (simp add: ids_ok_def)
next
  case (change db g)
  then have "st_id (g s) = st_id s" if "s \<in> set (wf_steps db)" for s using that by (simp add: ok_change_def same_place_def)
  then show ?case using change ids_ok_map by blast
next
  case (retry s db who)
  then show ?case using ids_ok_set_steps [of "\<lambda>x. x\<lparr>st_status := S_PENDING, st_decided_by := Some who\<rparr>"] by (simp add: ids_ok_def flow_log_def)
next
  case (call s db c ks)
  then show ?case using ids_ok_set_steps [of "\<lambda>x. x\<lparr>st_status := S_RUNNING\<rparr>"] by (simp add: ids_ok_def)
qed (simp_all add: ids_ok_def finish_flow_def flow_log_def)

lemma find_row_map_same: "(\<And>x. key (g x) = key x) \<Longrightarrow> find_row key k (map g rows) = map_option g (find_row key k rows)"
  by (induction rows) (auto simp: find_row_Cons)

lemma finish_flow_run:
  "find_row fr_id r (wf_runs (finish_flow r' status db)) =
     map_option (\<lambda>f. if fr_id f = r' then f\<lparr>fr_status := status\<rparr> else f) (find_row fr_id r (wf_runs db))"
  by (simp add: finish_flow_def update_row_def find_row_map_same)

lemma flow_of_frame:
  assumes "wf_runs db' = wf_runs db" "wf_defs db' = wf_defs db"
  shows "flow_of show_val db' = flow_of show_val db"
  unfolding flow_of_def fun_eq_iff assms by simp

lemma flow_of_simps [simp]:
  "flow_of show_val (db\<lparr>wf_steps := ss\<rparr>) = flow_of show_val db" "flow_of show_val (set_steps p f db) = flow_of show_val db"
  "flow_of show_val (db\<lparr>wf_calls := cs\<rparr>) = flow_of show_val db" "flow_of show_val (db\<lparr>wf_contacts := ks\<rparr>) = flow_of show_val db"
  "flow_of show_val (flow_log r type node who answer db) = flow_of show_val db"
  "flow_of show_val (db\<lparr>wf_children := ch\<rparr>) = flow_of show_val db" "flow_of show_val (db\<lparr>wf_cancels := cc\<rparr>) = flow_of show_val db"
  by (rule flow_of_frame; simp add: flow_log_def)+

lemma flow_of_move:
  assumes "move show_val acts unapproved may db db'" "flow_of show_val db r = Some flow"
  shows "flow_of show_val db' r = Some flow"
  using assms
proof (induction rule: move.induct)
  case (set_status db r' status)
  then show ?case unfolding flow_of_def finish_flow_run by (auto simp: finish_flow_def split: option.splits)
next
  case (add_def d db)
  then show ?case by (auto simp: flow_of_def find_row_insert has_row_iff split: option.splits sum.splits)
next
  case (add_run f db)
  then show ?case by (auto simp: flow_of_def find_row_insert has_row_iff split: option.splits sum.splits)
next
  case (add_step db r flow node n visit env db')
  from add_step(5) have "flow_of show_val db' = flow_of show_val db" by (elim new_step_cases) simp
  with add_step show ?case by simp
qed simp_all

lemma node_of_move: "move show_val acts unapproved may db db' \<Longrightarrow> node_of show_val db s = Some n \<Longrightarrow> node_of show_val db' s = Some n"
  by (auto simp: node_of_def bind_eq_Some_conv dest: flow_of_move)

lemma type_of_move: "move show_val acts unapproved may db db' \<Longrightarrow> type_of show_val db s = Some t \<Longrightarrow> type_of show_val db' s = Some t"
  by (auto dest: node_of_move)

lemma node_of_place: "same_place s s' \<Longrightarrow> node_of show_val db s' = node_of show_val db s"
  by (simp add: same_place_def node_of_def)

lemma events_move: "move show_val acts unapproved may db db' \<Longrightarrow> set (wf_events db) \<subseteq> set (wf_events db')"
  by (induction rule: move.induct) (auto simp: finish_flow_def flow_log_def elim: new_step_cases)

lemma approved_in_move: "move show_val acts unapproved may db db' \<Longrightarrow> approved_in db r node who \<Longrightarrow> approved_in db' r node who"
  unfolding approved_in_def using events_move by blast

lemma justified_move:
  "move show_val acts unapproved may db db' \<Longrightarrow> justified show_val acts unapproved db c \<Longrightarrow> justified show_val acts unapproved db' c"
  unfolding justified_def using flow_of_move approved_in_move by meson

section \<open>Invariants\<close>

definition step_ok :: "(pyval \<Rightarrow> string) \<Rightarrow> wf_db \<Rightarrow> step_row \<Rightarrow> bool" where
  "step_ok show_val db s \<longleftrightarrow>
     (\<exists>n. node_of show_val db s = Some n \<and> 1 \<le> st_visit s \<and> st_visit s \<le> max_visits n) \<and>
     (st_wait s = Some ''approval'' \<longrightarrow> type_of show_val db s = Some APPROVAL) \<and>
     (st_status s = S_UNCERTAIN \<longrightarrow> type_of show_val db s = Some ACTION) \<and>
     (st_status s = S_WAITING \<longrightarrow> type_of show_val db s \<noteq> Some ACTION) \<and>
     (st_decision s = Some ''approved'' \<longrightarrow> type_of show_val db s = Some APPROVAL \<and> approved_in db (st_run s) (st_node s) (st_decided_by s))"

text \<open>Where a step can come from in one move: it was there, it was changed, it was retried or called, or it is new.\<close>

lemma step_ok_keeps:
  assumes "move show_val acts unapproved may db db'" "step_ok show_val db s"
  shows "step_ok show_val db' s"
proof -
  obtain n where n: "node_of show_val db s = Some n" using assms(2) by (auto simp: step_ok_def)
  show ?thesis using assms(2) approved_in_move [OF assms(1)] n node_of_move [OF assms(1) n] by (simp add: step_ok_def)
qed

lemma step_ok_change:
  assumes "step_ok show_val db s" "ok_change show_val db s s'"
  shows "step_ok show_val db s'"
proof -
  have same: "same_place s s'" and n: "node_of show_val db s' = node_of show_val db s"
    using assms(2) node_of_place by (auto simp: ok_change_def)
  have d: "st_decision s' = st_decision s \<and> st_decided_by s' = st_decided_by s \<or>
      st_decision s' = st_decision s \<and> type_of show_val db s = Some ACTION \<or>
      type_of show_val db s = Some APPROVAL \<and> (st_decision s' = Some ''approved'' \<longrightarrow> approved_in db (st_run s) (st_node s) (st_decided_by s'))"
    using assms(2) unfolding ok_change_def by (elim conjE)
  have "type_of show_val db s = Some APPROVAL \<and> approved_in db (st_run s) (st_node s) (st_decided_by s')" if "st_decision s' = Some ''approved''"
    using d
  proof (elim disjE)
    assume "st_decision s' = st_decision s \<and> type_of show_val db s = Some ACTION"
    then show ?thesis using that assms(1) by (auto simp: step_ok_def)
  qed (use that assms(1) in \<open>auto simp: step_ok_def\<close>)
  then show ?thesis using assms same unfolding step_ok_def ok_change_def n same_place_def by metis
qed

lemma step_ok_status:
  assumes "step_ok show_val db s" "same_place s s'" "st_wait s' = st_wait s" "st_decision s' = st_decision s"
    "st_status s' \<noteq> S_UNCERTAIN" "st_status s' \<noteq> S_WAITING" "st_decided_by s' = st_decided_by s \<or> type_of show_val db s = Some ACTION"
  shows "step_ok show_val db s'"
  using assms node_of_place [of s s' show_val db] by (auto simp: step_ok_def same_place_def)

lemma steps_ok_move:
  assumes m: "move show_val acts unapproved may db db'" and ids: "ids_ok db" and ok: "\<And>s. s \<in> set (wf_steps db) \<Longrightarrow> step_ok show_val db s"
  shows "s \<in> set (wf_steps db') \<Longrightarrow> step_ok show_val db' s"
  using m ids ok
proof (induction rule: move.induct)
  case (add_step db r flow node n visit env db')
  have m: "move show_val acts unapproved may db db'" using add_step.hyps by (rule move.add_step)
  from add_step.hyps(5) show ?case
  proof (rule new_step_cases)
    fix t assume t: "db' = db\<lparr>wf_steps := wf_steps db @ [t]\<rparr>" "st_run t = r" "st_node t = node" "st_visit t = visit"
      "st_status t = S_PENDING" "st_wait t = None" "st_decision t = None"
    then consider "s \<in> set (wf_steps db)" | "s = t" using add_step.prems(1) by auto
    then show ?case
    proof cases
      case 1
      then show ?thesis using step_ok_keeps [OF m] add_step.prems(3) by blast
    next
      case 2
      have "node_of show_val db' t = Some n" using add_step.hyps(1,2) t(1-3) by (simp add: node_of_def)
      then show ?thesis using 2 t add_step.hyps(3,4) by (simp add: step_ok_def)
    qed
  qed
next
  case (change db g)
  then obtain t where t: "t \<in> set (wf_steps db)" "s = g t" by auto
  have "step_ok show_val db s" using step_ok_change [OF change.prems(3) [OF t(1)] change.hyps [OF t(1)]] t(2) by simp
  moreover have "move show_val acts unapproved may db (db\<lparr>wf_steps := map g (wf_steps db)\<rparr>)" by (rule move.change) (rule change.hyps)
  ultimately show ?case using step_ok_keeps by blast
next
  case (retry u db who)
  note m = move.retry [OF retry.hyps, of acts unapproved may who]
  from retry.prems(1) obtain t where t: "t \<in> set (wf_steps db)"
      "s = (if st_id t = st_id u then t\<lparr>st_status := S_PENDING, st_decided_by := Some who\<rparr> else t)"
    by (auto simp: flow_log_def set_steps_def)
  have "step_ok show_val db s"
  proof (cases "st_id t = st_id u")
    case True
    then have "t = u" using ids_okD [OF retry.prems(2) t(1) retry.hyps(1)] by simp
    then show ?thesis using t retry by (intro step_ok_status [OF retry.prems(3) [OF t(1)]]) (auto simp: same_place_def)
  qed (use t retry.prems(3) in simp)
  then show ?case by (rule step_ok_keeps [OF m])
next
  case (call u db c ks)
  note m = move.call [OF call.hyps]
  from call.prems(1) obtain t where t: "t \<in> set (wf_steps db)" "s = (if st_id t = st_id u then t\<lparr>st_status := S_RUNNING\<rparr> else t)"
    by (auto simp: set_steps_def)
  have "step_ok show_val db s"
  proof (cases "st_id t = st_id u")
    case True
    then show ?thesis using t by (intro step_ok_status [OF call.prems(3) [OF t(1)]]) (auto simp: same_place_def)
  qed (use t call.prems(3) in simp)
  then show ?case by (rule step_ok_keeps [OF m])
qed (auto intro: step_ok_keeps [OF move.add_def] step_ok_keeps [OF move.add_run] step_ok_keeps [OF move.set_status]
    step_ok_keeps [OF move.log] step_ok_keeps [OF move.agents] step_ok_keeps [OF move.look])

text \<open>The step table, the runs and the calls of a database the engine has built.\<close>

definition step_places :: "wf_db \<Rightarrow> (string \<times> string \<times> int) list" where
  "step_places db = map (\<lambda>s. (st_run s, st_node s, st_visit s)) (wf_steps db)"

definition triggers_unique :: "wf_db \<Rightarrow> bool" where
  "triggers_unique db \<longleftrightarrow> distinct (map fr_id (wf_runs db)) \<and>
     (\<forall>f \<in> set (wf_runs db). \<forall>g \<in> set (wf_runs db). fr_workflow f = fr_workflow g \<longrightarrow> fr_trigger_key f = fr_trigger_key g \<longrightarrow>
        fr_trigger_key f \<noteq> None \<longrightarrow> f = g)"

definition here :: "string \<Rightarrow> string \<Rightarrow> step_row \<Rightarrow> bool" where
  "here r node s \<longleftrightarrow> st_run s = r \<and> st_node s = node"

definition waiting_here :: "wf_db \<Rightarrow> string \<Rightarrow> string \<Rightarrow> nat" where
  "waiting_here db r node = length (filter (\<lambda>s. here r node s \<and> st_status s = S_PENDING) (wf_steps db))"

definition calls_here :: "wf_db \<Rightarrow> string \<Rightarrow> string \<Rightarrow> nat" where
  "calls_here db r node = length (filter (\<lambda>c. pf_run c = r \<and> pf_node c = node) (wf_calls db))"

definition steps_here :: "wf_db \<Rightarrow> string \<Rightarrow> string \<Rightarrow> nat" where
  "steps_here db r node = length (filter (here r node) (wf_steps db))"

definition retries_here :: "wf_db \<Rightarrow> string \<Rightarrow> string \<Rightarrow> nat" where
  "retries_here db r node = length (filter (\<lambda>e. fe_run e = r \<and> fe_type e = ''step_resolved'' \<and> fe_node e = Some node
     \<and> fe_answer e = Some ''retry'') (wf_events db))"

text \<open>A node whose action may not be repeated blindly.\<close>

definition once_only :: "(pyval \<Rightarrow> string) \<Rightarrow> action_info dict \<Rightarrow> wf_db \<Rightarrow> string \<Rightarrow> string \<Rightarrow> bool" where
  "once_only show_val acts db r node \<longleftrightarrow>
     (\<exists>flow n v info. flow_of show_val db r = Some flow \<and> find_node flow node = Some n \<and> nd_type n = ACTION \<and>
        map_of (nd_config n) ''action'' = Some v \<and> map_of acts (py_str show_val v) = Some info \<and> \<not> ai_idempotent info)"

definition engine_ok :: "(pyval \<Rightarrow> string) \<Rightarrow> action_info dict \<Rightarrow> bool \<Rightarrow> wf_db \<Rightarrow> bool" where
  "engine_ok show_val acts unapproved db \<longleftrightarrow> ids_ok db \<and> (\<forall>s \<in> set (wf_steps db). step_ok show_val db s) \<and>
     distinct (step_places db) \<and> triggers_unique db \<and> (\<forall>c \<in> set (wf_calls db). justified show_val acts unapproved db c) \<and>
     (\<forall>r node. once_only show_val acts db r node \<longrightarrow> calls_here db r node + waiting_here db r node \<le> steps_here db r node + retries_here db r node)"

lemma places_map: "(\<And>s. s \<in> set (wf_steps db) \<Longrightarrow> same_place s (g s)) \<Longrightarrow> step_places (db\<lparr>wf_steps := map g (wf_steps db)\<rparr>) = step_places db"
  by (auto simp: step_places_def same_place_def)

lemma places_set_steps: "(\<And>x. same_place x (f x)) \<Longrightarrow> step_places (set_steps p f db) = step_places db"
  unfolding set_steps_def by (rule places_map) (simp add: same_place_def)

lemma places_frame: "wf_steps db' = wf_steps db \<Longrightarrow> step_places db' = step_places db"
  by (simp add: step_places_def)

lemma places_move: "move show_val acts unapproved may db db' \<Longrightarrow> distinct (step_places db) \<Longrightarrow> distinct (step_places db')"
proof (induction rule: move.induct)
  case (add_step db r flow node n visit env db')
  from add_step(5,6) show ?case by (elim new_step_cases) (auto simp: step_places_def list_ex_iff)
next
  case (change db g)
  have "step_places (db\<lparr>wf_steps := map g (wf_steps db)\<rparr>) = step_places db" by (rule places_map) (use change in \<open>simp add: ok_change_def\<close>)
  with change show ?case by simp
next
  case (retry s db who)
  then show ?case using places_set_steps [of "\<lambda>x. x\<lparr>st_status := S_PENDING, st_decided_by := Some who\<rparr>" "\<lambda>x. st_id x = st_id s" db]
    by (simp add: flow_log_def step_places_def same_place_def)
next
  case (call s db c ks)
  then show ?case using places_set_steps [of "\<lambda>x. x\<lparr>st_status := S_RUNNING\<rparr>" "\<lambda>x. st_id x = st_id s" db] by (simp add: step_places_def same_place_def)
qed (simp_all add: step_places_def finish_flow_def flow_log_def)

lemma triggers_move: "move show_val acts unapproved may db db' \<Longrightarrow> triggers_unique db \<Longrightarrow> triggers_unique db'"
proof (induction rule: move.induct)
  case (add_run f db)
  have "\<not> (fr_workflow g = fr_workflow f \<and> fr_trigger_key g = fr_trigger_key f \<and> fr_trigger_key g \<noteq> None)" if "g \<in> set (wf_runs db)" for g
    using add_run(2) that by (auto simp: trigger_used_def list_ex_iff)
  moreover have "distinct (map fr_id (wf_runs db @ [f]))" using add_run(1,3) by (intro distinct_insert) (auto simp: triggers_unique_def)
  ultimately show ?case using add_run(3) unfolding triggers_unique_def by (auto; metis)
next
  case (set_status db r status)
  have "map fr_id (wf_runs (finish_flow r status db)) = map fr_id (wf_runs db)" by (simp add: finish_flow_def update_row_def)
  moreover have "f' = g'" if u: "triggers_unique db" and fg: "f' \<in> set (wf_runs (finish_flow r status db))" "g' \<in> set (wf_runs (finish_flow r status db))"
      "fr_workflow f' = fr_workflow g'" "fr_trigger_key f' = fr_trigger_key g'" "fr_trigger_key f' \<noteq> None" for f' g'
  proof -
    let ?u = "\<lambda>f. if fr_id f = r then f\<lparr>fr_status := status\<rparr> else f"
    have runs: "set (wf_runs (finish_flow r status db)) = ?u ` set (wf_runs db)" by (simp add: finish_flow_def update_row_def)
    obtain f where f: "f \<in> set (wf_runs db)" "f' = ?u f" using fg(1) runs by blast
    obtain g where g: "g \<in> set (wf_runs db)" "g' = ?u g" using fg(2) runs by blast
    have "f = g" using f g u fg unfolding triggers_unique_def by (metis (no_types, lifting) flow_row.select_convs(2,6) flow_row.surjective flow_row.update_convs(4))
    then show ?thesis using f g by simp
  qed
  ultimately show ?case using set_status unfolding triggers_unique_def by simp
next
  case (add_step db r flow node n visit env db')
  from add_step(5,6) show ?case by (elim new_step_cases) (simp add: triggers_unique_def)
qed (simp_all add: triggers_unique_def flow_log_def)

section \<open>Counting calls\<close>

lemma length_filter_mono: "(\<And>x. x \<in> set xs \<Longrightarrow> p x \<Longrightarrow> q x) \<Longrightarrow> length (filter p xs) \<le> length (filter q xs)"
  by (induction xs) (auto simp: le_SucI)

lemma length_filter_change:
  assumes "\<And>x. x \<in> set xs \<Longrightarrow> p (g x) \<Longrightarrow> p x"
  shows "length (filter (p \<circ> g) xs) \<le> length (filter p xs)"
  using length_filter_mono [of xs "p \<circ> g" p] assms by simp

lemma set_step_steps: "wf_steps (set_step s f db) = update_row st_id (st_id s) f (wf_steps db)"
  by (simp add: set_steps_def update_row_def)

lemma update_row_Cons: "update_row key k f (x # xs) = (if key x = k then f x else x) # update_row key k f xs"
  by (simp add: update_row_def)

lemma update_row_absent: "k \<notin> key ` set xs \<Longrightarrow> update_row key k f xs = xs"
  by (induction xs) (auto simp: update_row_def)

lemma length_filter_row: "(\<And>x. x \<in> set xs \<Longrightarrow> key x = k \<Longrightarrow> p (f x) \<Longrightarrow> p x) \<Longrightarrow> length (filter p (update_row key k f xs)) \<le> length (filter p xs)"
  by (induction xs) (auto simp: update_row_Cons update_row_def le_SucI)

lemma length_filter_one: "distinct (map key xs) \<Longrightarrow> length (filter p (update_row key k f xs)) \<le> Suc (length (filter p xs))"
  by (induction xs) (auto simp: update_row_Cons update_row_absent)

lemma length_filter_less:
  assumes "s \<in> set xs" "p s" "\<And>x. \<not> p (f x)"
  shows "Suc (length (filter p (update_row key (key s) f xs))) \<le> length (filter p xs)"
  using assms(1)
proof (induction xs)
  case (Cons x xs)
  have "length (filter p (update_row key (key s) f xs)) \<le> length (filter p xs)"
    by (rule length_filter_row) (use assms(3) in blast)
  then show ?case using Cons assms(2,3) by (auto simp: update_row_Cons)
qed simp

lemma length_filter_place:
  "(\<And>x. p (f x) = p x) \<Longrightarrow> length (filter p (update_row key k f xs)) = length (filter p xs)"
  by (induction xs) (auto simp: update_row_Cons update_row_def)

lemma once_only_move:
  assumes m: "move show_val acts unapproved may db db'" and new: "once_only show_val acts db' r node" and known: "flow_of show_val db r = Some flow"
  shows "once_only show_val acts db r node"
  using new known flow_of_move [OF m known] by (auto simp: once_only_def)

lemma here_place: "same_place s s' \<Longrightarrow> here r node s' = here r node s"
  by (simp add: here_def same_place_def)

lemma node_of_here: "here r node s \<Longrightarrow> node_of show_val db s = Option.bind (flow_of show_val db r) (\<lambda>flow. find_node flow node)"
  by (auto simp: here_def node_of_def)

lemma once_only_type: "once_only show_val acts db r node \<Longrightarrow> here r node s \<Longrightarrow> type_of show_val db s = Some ACTION"
  by (auto simp: once_only_def node_of_here)

text \<open>The balance at a node: calls made and calls still allowed, against steps made and retries a person asked for.\<close>

definition balanced :: "wf_db \<Rightarrow> string \<Rightarrow> string \<Rightarrow> bool" where
  "balanced db r node \<longleftrightarrow> calls_here db r node + waiting_here db r node \<le> steps_here db r node + retries_here db r node"

lemma retries_log: "retries_here db r node \<le> retries_here (flow_log r' type node' who answer db) r node"
  by (simp add: retries_here_def flow_log_def)

lemma balanced_move:
  assumes m: "move show_val acts unapproved may db db'" and o: "once_only show_val acts db r node" and "balanced db r node" and "ids_ok db"
  shows "balanced db' r node"
  using assms
proof (induction rule: move.induct)
  case (add_step db r' flow node' n visit env db')
  from add_step(5) show ?case
    by (rule new_step_cases) (use add_step.prems in \<open>simp add: balanced_def calls_here_def waiting_here_def steps_here_def retries_here_def\<close>)
next
  case (change db g)
  have place: "here r node (g s) = here r node s" if "s \<in> set (wf_steps db)" for s
    using change.hyps [OF that] here_place by (auto simp: ok_change_def)
  have "st_status s = S_PENDING" if "s \<in> set (wf_steps db)" "here r node s" "st_status (g s) = S_PENDING" for s
    using change.hyps [OF that(1)] once_only_type [OF change.prems(1) that(2)] that(3) by (auto simp: ok_change_def)
  then have "waiting_here (db\<lparr>wf_steps := map g (wf_steps db)\<rparr>) r node \<le> waiting_here db r node"
    unfolding waiting_here_def using place by (auto intro!: length_filter_change)
  moreover have "steps_here (db\<lparr>wf_steps := map g (wf_steps db)\<rparr>) r node = steps_here db r node"
    using place by (simp add: steps_here_def filter_map comp_def cong: filter_cong)
  ultimately show ?case using change.prems(2) by (simp add: balanced_def calls_here_def retries_here_def)
next
  case (retry s db who)
  let ?f = "\<lambda>x. x\<lparr>st_status := S_PENDING, st_decided_by := Some who\<rparr>"
  let ?db = "flow_log (st_run s) ''step_resolved'' (Some (st_node s)) who (Some ''retry'') (set_step s ?f db)"
  have steps: "steps_here ?db r node = steps_here db r node" by (simp add: steps_here_def set_step_steps length_filter_place here_def)
  have calls: "calls_here ?db r node = calls_here db r node" by (simp add: calls_here_def)
  show ?case
  proof (cases "here r node s")
    case True
    have "waiting_here ?db r node \<le> Suc (waiting_here db r node)"
      using ids_ok_distinct [OF retry.prems(3)] by (simp add: waiting_here_def set_step_steps length_filter_one)
    moreover have "retries_here ?db r node = Suc (retries_here db r node)" using True by (simp add: retries_here_def flow_log_def here_def)
    ultimately show ?thesis using retry.prems(2) steps calls by (simp add: balanced_def)
  next
    case False
    have "\<not> here r node x" if "x \<in> set (wf_steps db)" "st_id x = st_id s" for x
      using ids_okD [OF retry.prems(3) that(1) retry.hyps(1) that(2)] False by simp
    then have "waiting_here ?db r node \<le> waiting_here db r node"
      unfolding waiting_here_def log_simps set_step_steps by (intro length_filter_row) (simp add: here_def, blast)
    moreover have "retries_here db r node \<le> retries_here ?db r node"
      using retries_log [of "set_step s ?f db" r node] by (simp add: retries_here_def)
    ultimately show ?thesis using retry.prems(2) steps calls by (simp add: balanced_def)
  qed
next
  case (call s db c ks)
  let ?db = "(set_step s (\<lambda>x. x\<lparr>st_status := S_RUNNING\<rparr>) db)\<lparr>wf_calls := wf_calls db @ [c], wf_contacts := wf_contacts db @ ks\<rparr>"
  have steps: "steps_here ?db r node = steps_here db r node" by (simp add: steps_here_def set_step_steps length_filter_place here_def)
  have retries: "retries_here ?db r node = retries_here db r node" by (simp add: retries_here_def)
  have less: "waiting_here ?db r node \<le> waiting_here db r node"
    by (auto intro!: length_filter_row simp: waiting_here_def set_step_steps)
  show ?case
  proof (cases "here r node s")
    case True
    have "\<not> idempotent_call acts (pf_name c)"
      using call.hyps(2-4) call.prems(1) True by (auto simp: justified_def once_only_def idempotent_call_def here_def)
    then have "Suc (waiting_here ?db r node) \<le> waiting_here db r node"
      using call.hyps(1,6) True length_filter_less [of s "wf_steps db" "\<lambda>s. here r node s \<and> st_status s = S_PENDING" "\<lambda>x. x\<lparr>st_status := S_RUNNING\<rparr>" st_id]
      by (simp add: waiting_here_def set_step_steps)
    then show ?thesis using call.prems(2) steps retries by (simp add: balanced_def calls_here_def)
  next
    case False
    then have "calls_here ?db r node = calls_here db r node" using call.hyps by (auto simp: calls_here_def here_def)
    then show ?thesis using call.prems(2) steps retries less by (simp add: balanced_def)
  qed
qed (simp_all add: balanced_def calls_here_def waiting_here_def steps_here_def retries_here_def flow_log_def)

section \<open>The invariant\<close>

lemma engine_ok_balanced: "engine_ok show_val acts unapproved db \<longleftrightarrow> ids_ok db \<and> (\<forall>s \<in> set (wf_steps db). step_ok show_val db s) \<and>
     distinct (step_places db) \<and> triggers_unique db \<and> (\<forall>c \<in> set (wf_calls db). justified show_val acts unapproved db c) \<and>
     (\<forall>r node. once_only show_val acts db r node \<longrightarrow> balanced db r node)"
  by (simp add: engine_ok_def balanced_def)

lemma unknown_run_balanced:
  assumes "engine_ok show_val acts unapproved db" "flow_of show_val db r = None"
  shows "calls_here db r node = 0 \<and> waiting_here db r node = 0"
proof -
  have "pf_run c \<noteq> r" if "c \<in> set (wf_calls db)" for c using assms that by (auto simp: engine_ok_def justified_def)
  moreover have "st_run s \<noteq> r" if "s \<in> set (wf_steps db)" for s using assms that by (auto simp: engine_ok_def step_ok_def node_of_def)
  ultimately show ?thesis by (auto simp: calls_here_def waiting_here_def filter_empty_conv here_def)
qed

lemma flow_of_new:
  assumes "move show_val acts unapproved may db db'" "flow_of show_val db r = None" "flow_of show_val db' r = Some flow"
  shows "wf_calls db' = wf_calls db \<and> wf_steps db' = wf_steps db"
  using assms
proof (induction rule: move.induct)
  case (set_status db r' status)
  then show ?case by (simp)
next
  case (add_step db r' flow' node n visit env db')
  from add_step(5) have "flow_of show_val db' = flow_of show_val db" by (elim new_step_cases) simp
  with add_step show ?case by simp
qed simp_all

lemma calls_move:
  assumes "move show_val acts unapproved may db db'" "c \<in> set (wf_calls db')"
  shows "c \<in> set (wf_calls db) \<or> justified show_val acts unapproved db c"
  using assms by (induction rule: move.induct) (auto elim: new_step_cases)

lemma engine_ok_move:
  assumes m: "move show_val acts unapproved may db db'" and ok: "engine_ok show_val acts unapproved db"
  shows "engine_ok show_val acts unapproved db'"
proof -
  have "balanced db' r node" if o: "once_only show_val acts db' r node" for r node
  proof (cases "flow_of show_val db r")
    case None
    from o obtain flow where "flow_of show_val db' r = Some flow" by (auto simp: once_only_def)
    then show ?thesis using flow_of_new [OF m None] unknown_run_balanced [OF ok None, of node] by (simp add: balanced_def calls_here_def waiting_here_def)
  next
    case (Some flow)
    then show ?thesis using balanced_move [OF m] once_only_move [OF m o] ok unfolding engine_ok_balanced by blast
  qed
  moreover have "justified show_val acts unapproved db' c" if "c \<in> set (wf_calls db')" for c
    using calls_move [OF m that] ok justified_move [OF m] unfolding engine_ok_balanced by blast
  moreover have "ids_ok db'" "distinct (step_places db')" "triggers_unique db'"
    using ok ids_ok_move [OF m] places_move [OF m] triggers_move [OF m] unfolding engine_ok_balanced by blast+
  moreover have "step_ok show_val db' s" if "s \<in> set (wf_steps db')" for s
    using steps_ok_move [OF m _ _ that] ok unfolding engine_ok_balanced by blast
  ultimately show ?thesis unfolding engine_ok_balanced by blast
qed

interpretation engine: state_machine "move show_val acts unapproved may" "engine_ok show_val acts unapproved" for show_val acts unapproved may
  by unfold_locales (rule engine_ok_move)

section \<open>Operations are moves\<close>

text \<open>
  A request to a connector that the policies allow: they were read for its workspace and workflow, and neither they nor the boundary
  nor a missing approval refuse the action.
\<close>

definition permitted :: "engine_env \<Rightarrow> contact \<Rightarrow> bool" where
  "permitted env k \<longleftrightarrow>
     (\<exists>f chain info. fr_workspace f = ct_workspace k \<and> fr_workflow f = ct_workflow k \<and> chain_for env f = Inr chain \<and>
        map_of (we_actions env) (ct_name k) = Some info \<and> \<not> refused_by env chain (ct_name k) info (ct_approver k))"

abbreviation does :: "engine_env \<Rightarrow> wf_db \<Rightarrow> wf_db \<Rightarrow> bool" where
  "does env \<equiv> moves (we_show env) (we_actions env) (we_unapproved env) (permitted env)"

abbreviation sound :: "engine_env \<Rightarrow> wf_db \<Rightarrow> bool" where
  "sound env \<equiv> engine_ok (we_show env) (we_actions env) (we_unapproved env)"

lemma does_trans: "does env db db' \<Longrightarrow> does env db' db'' \<Longrightarrow> does env db db''"
  by (rule rtranclp_trans)

lemma does_sound: "does env db db' \<Longrightarrow> sound env db \<Longrightarrow> sound env db'"
  by (rule engine.ok_steps)

lemma does_flow: "does env db db' \<Longrightarrow> flow_of (we_show env) db r = Some flow \<Longrightarrow> flow_of (we_show env) db' r = Some flow"
  by (induction rule: rtranclp_induct) (auto intro: flow_of_move)

lemma does_log: "does env db (flow_log r type node who answer db)"
  by (blast intro: move.log)

lemma does_finish: "does env db (finish_flow r status db)"
  by (blast intro: move.set_status)

lemma does_agents: "does env db (db\<lparr>wf_children := cs\<rparr>)" "does env db (db\<lparr>wf_cancels := cc\<rparr>)"
proof -
  have "move show_val acts unapproved may db (db\<lparr>wf_children := cs\<rparr>)" "move show_val acts unapproved may db (db\<lparr>wf_cancels := cc\<rparr>)"
    for show_val acts unapproved may
    using move.agents [of show_val acts unapproved may db "wf_cancels db" cs] move.agents [of show_val acts unapproved may db cc "wf_children db"] by simp_all
  then show "does env db (db\<lparr>wf_children := cs\<rparr>)" "does env db (db\<lparr>wf_cancels := cc\<rparr>)" by blast+
qed

lemma ok_change_refl: "ok_change show_val db s s"
  by (simp add: ok_change_def same_place_def)

lemma does_set_steps:
  assumes "\<And>s. s \<in> set (wf_steps db) \<Longrightarrow> p s \<Longrightarrow> ok_change (we_show env) db s (f s)"
  shows "does env db (set_steps p f db)"
proof -
  have "move (we_show env) (we_actions env) (we_unapproved env) (permitted env) db (db\<lparr>wf_steps := map (\<lambda>s. if p s then f s else s) (wf_steps db)\<rparr>)"
    by (rule move.change) (simp add: assms ok_change_refl)
  then show ?thesis unfolding set_steps_def by blast
qed

text \<open>A change that touches neither place, approval nor decision of a step and leaves it running or ended.\<close>

definition plain_change :: "(step_row \<Rightarrow> step_row) \<Rightarrow> bool" where
  "plain_change f \<longleftrightarrow> (\<forall>x. same_place x (f x) \<and> (st_wait (f x) = Some ''approval'' \<longrightarrow> st_wait x = Some ''approval'') \<and>
     st_status (f x) \<in> {S_RUNNING, S_SUCCEEDED, S_FAILED, S_SKIPPED} \<and> st_decision (f x) = st_decision x \<and> st_decided_by (f x) = st_decided_by x)"

lemma does_plain: "plain_change f \<Longrightarrow> does env db (set_steps p f db)"
proof (rule does_set_steps)
  fix s assume "plain_change f"
  then have f: "same_place s (f s)" "st_wait (f s) = Some ''approval'' \<longrightarrow> st_wait s = Some ''approval''"
      "st_status (f s) \<in> {S_RUNNING, S_SUCCEEDED, S_FAILED, S_SKIPPED}" "st_decision (f s) = st_decision s" "st_decided_by (f s) = st_decided_by s"
    unfolding plain_change_def by blast+
  then show "ok_change (we_show env) db s (f s)" by (auto simp: ok_change_def)
qed

lemma plain_changes [simp]:
  "plain_change (\<lambda>x. x\<lparr>st_status := S_SKIPPED\<rparr>)" "plain_change (\<lambda>x. x\<lparr>st_status := S_FAILED\<rparr>)" "plain_change (\<lambda>x. x\<lparr>st_status := S_SUCCEEDED\<rparr>)"
  "plain_change (\<lambda>x. x\<lparr>st_status := S_RUNNING\<rparr>)" "plain_change (\<lambda>x. x\<lparr>st_status := S_FAILED, st_output := v\<rparr>)"
  "plain_change (\<lambda>x. x\<lparr>st_status := S_SUCCEEDED, st_output := v\<rparr>)"
  by (simp_all add: plain_change_def same_place_def)

text \<open>The same facts as rules that extend a sequence of moves at its end.\<close>

lemma extend:
  "does env db0 db \<Longrightarrow> does env db0 (flow_log r type node who answer db)"
  "does env db0 db \<Longrightarrow> does env db0 (finish_flow r status db)"
  "does env db0 db \<Longrightarrow> plain_change f \<Longrightarrow> does env db0 (set_steps p f db)"
  "does env db0 db \<Longrightarrow> does env db0 (db\<lparr>wf_children := cs\<rparr>)"
  "does env db0 db \<Longrightarrow> does env db0 (db\<lparr>wf_cancels := cc\<rparr>)"
  by (erule does_trans, rule does_log, erule does_trans, rule does_finish, erule does_trans, erule does_plain,
      erule does_trans, rule does_agents, erule does_trans, rule does_agents)

lemmas extends = extend rtranclp.rtrancl_refl

lemma does_fail_run: "does env db (fail_run r node db)"
  unfolding fail_run_def skip_active_def by (intro extends) simp

lemma does_ask_cancel: "does env db (ask_cancel cs db)"
  unfolding ask_cancel_def by (rule does_agents)

lemma does_succeed: "does env db (succeed r s out node db)"
  unfolding succeed_def by (intro extends) simp

lemma sort_key_nonempty: "sort_key f xs = [] \<longleftrightarrow> xs = []"
  by (metis length_0_conv length_sort)

lemma last_visit_in: "rows \<noteq> [] \<Longrightarrow> \<exists>s \<in> set rows. last_visit rows = st_visit s"
  unfolding last_visit_def using last_in_set [of "sort_key st_visit rows"] by (auto simp: sort_key_nonempty)

lemma find_node_id: "find_node flow i = Some n \<Longrightarrow> nd_id n = i \<and> n \<in> set (wf_nodes flow)"
  by (auto simp: find_node_def find_Some_iff)

lemma sound_visit: "sound env db \<Longrightarrow> s \<in> set (wf_steps db) \<Longrightarrow> 1 \<le> st_visit s"
  by (auto simp: engine_ok_def step_ok_def)

lemma does_new_step:
  assumes "flow_of (we_show env) db r = Some flow" "find_node flow i = Some n" "1 \<le> visit" "visit \<le> max_visits n" "new_step env r i visit db = Inr db'"
  shows "does env db db'"
  using move.add_step [OF assms] by blast

lemma does_fire_edges:
  "fire_edges env flow r es n db = Inr (k, db') \<Longrightarrow> flow_of (we_show env) db r = Some flow \<Longrightarrow> sound env db \<Longrightarrow> does env db db'"
proof (induction es arbitrary: n db)
  case (Cons e es)
  obtain t where t: "find_node flow (ed_target e) = Some t" using Cons.prems(1) by (simp split: option.splits)
  let ?rows = "filter (\<lambda>s. st_node s = nd_id t) (flow_steps db r)"
  show ?case
  proof (cases "list_ex (\<lambda>s. st_status s \<in> set ACTIVE_STEP \<or> st_status s = S_UNCERTAIN) ?rows")
    case True
    then show ?thesis using Cons t by (simp add: Let_def)
  next
    case False
    show ?thesis
    proof (cases "last_visit ?rows + 1 > max_visits t")
      case True
      then show ?thesis using Cons t False does_fail_run by (auto simp: Let_def split: if_splits)
    next
      case le: False
      then obtain db1 where db1: "new_step env r (nd_id t) (last_visit ?rows + 1) db = Inr db1" "fire_edges env flow r es (Suc n) db1 = Inr (k, db')"
        using Cons.prems(1) t False by (auto simp: Let_def bind_r_Inr)
      have "0 \<le> last_visit ?rows"
      proof (cases "?rows = []")
        case False
        then obtain s where "s \<in> set ?rows" "last_visit ?rows = st_visit s" using last_visit_in by blast
        then show ?thesis using sound_visit [OF Cons.prems(3), of s] by (simp add: flow_steps_def)
      qed (simp add: last_visit_def)
      then have one: "does env db db1" using does_new_step [OF Cons.prems(2) _ _ _ db1(1)] t le find_node_id [OF t] by auto
      then show ?thesis using Cons.IH [OF db1(2)] does_flow [OF one Cons.prems(2)] does_sound [OF one Cons.prems(3)] does_trans [OF one] by blast
    qed
  qed
qed simp

lemma does_fire:
  "fire env flow r node pick db = Inr (k, db') \<Longrightarrow> flow_of (we_show env) db r = Some flow \<Longrightarrow> sound env db \<Longrightarrow> does env db db'"
  unfolding fire_def by (rule does_fire_edges)

text \<open>The common shape: plain changes, then the successors.\<close>

lemma does_then_fire:
  assumes "fire env flow r node pick db1 = Inr (k, db')" "does env db db1" "flow_of (we_show env) db r = Some flow" "sound env db"
  shows "does env db db'"
  using does_trans [OF assms(2) does_fire [OF assms(1) does_flow [OF assms(2,3)] does_sound [OF assms(2,4)]]] .

lemma does_step_failed:
  assumes "step_failed env flow r node s db = Inr (k, db')" "flow_of (we_show env) db r = Some flow" "sound env db"
  shows "does env db db'"
proof -
  let ?db1 = "engine_log r ''step_failed'' (Some (nd_id node)) (set_step s (\<lambda>x. x\<lparr>st_status := S_FAILED, st_output := None\<rparr>) db)"
  have one: "does env db ?db1" by (intro extends) simp
  from assms(1) consider "fire env flow r (nd_id node) (\<lambda>w. w = Some ''failed'') ?db1 = Inr (k, db')" | "db' = fail_run r (Some (nd_id node)) ?db1"
    by (auto simp: step_failed_def Let_def split: if_splits)
  then show ?thesis
  proof cases
    case 1
    then show ?thesis using does_then_fire [OF _ one assms(2,3)] by blast
  qed (use one does_fail_run does_trans in blast)
qed

section \<open>Handlers are moves\<close>

definition at_step :: "engine_env \<Rightarrow> wf_db \<Rightarrow> flow_row \<Rightarrow> workflow \<Rightarrow> wf_node \<Rightarrow> step_row \<Rightarrow> bool" where
  "at_step env db f flow node s \<longleftrightarrow> sound env db \<and> flow_of (we_show env) db (fr_id f) = Some flow \<and> find_node flow (st_node s) = Some node \<and>
     s \<in> set (wf_steps db) \<and> st_run s = fr_id f"

lemma at_stepD:
  assumes "at_step env db f flow node s"
  shows "sound env db" "flow_of (we_show env) db (fr_id f) = Some flow" "node_of (we_show env) db s = Some node" "s \<in> set (wf_steps db)"
    "nd_id node = st_node s" "find_node flow (st_node s) = Some node" "st_run s = fr_id f"
  using assms find_node_id [of flow "st_node s" node] by (auto simp: at_step_def node_of_def)

lemma at_step_only: "at_step env db f flow node s \<Longrightarrow> x \<in> set (wf_steps db) \<Longrightarrow> st_id x = st_id s \<Longrightarrow> x = s"
  using ids_okD [of db x s] by (auto simp: at_step_def engine_ok_def)

text \<open>A change of the step at hand need only be in order for that step.\<close>

lemma does_set_step:
  assumes "at_step env db f flow node s" "\<And>x. p x \<Longrightarrow> st_id x = st_id s" "ok_change (we_show env) db s (g s)"
  shows "does env db (set_steps p g db)"
  by (rule does_set_steps) (use assms at_step_only in blast)

lemma does_wait:
  assumes a: "at_step env db f flow node s" and t: "nd_type node \<noteq> ACTION" and w: "w \<noteq> Some ''approval'' \<or> nd_type node = APPROVAL"
    and g: "same_place s (g s)" "st_wait (g s) = w" "st_status (g s) = S_WAITING" "st_decision (g s) = st_decision s" "st_decided_by (g s) = st_decided_by s"
  shows "does env db (set_step s g db)"
  by (rule does_set_step [OF a]) (use t w g at_stepD(3) [OF a] in \<open>auto simp: ok_change_def\<close>)

lemma does_commit:
  assumes "does env db0 db" "\<And>x db'. t = Inr (x, db') \<Longrightarrow> does env db0 db'"
  shows "does env db0 (fst (commit db t))"
  using assms by (cases t) auto

lemma does_with_expr:
  assumes "\<And>x. v = Inr x \<Longrightarrow> does env db (fst (k x))"
  shows "does env db (fst (with_expr db v k))"
  using assms by (cases v) (auto simp: with_expr_def)

lemma does_condition:
  assumes a: "at_step env db f flow node s"
  shows "does env db (fst (condition_step env db f flow node s))"
  unfolding condition_step_def
  by (auto split: option.split intro!: does_with_expr does_commit elim!: does_then_fire [OF _ does_succeed at_stepD(2,1) [OF a]])

lemma does_approval:
  assumes a: "at_step env db f flow node s" and t: "nd_type node = APPROVAL"
  shows "does env db (fst (approval_step env db f flow node s))"
proof -
  have wait: "does env db (set_step s (start_waiting ''approval'' k wake) db)" for k wake
    by (rule does_wait [OF a]) (simp_all add: t start_waiting_def same_place_def)
  let ?expired = "engine_log (fr_id f) ''approval_expired'' (Some (nd_id node)) (set_steps (\<lambda>x. st_id x = st_id s \<and> st_status x = S_WAITING)
      (\<lambda>x. x\<lparr>st_status := S_SUCCEEDED, st_decision := Some ''timeout'', st_output := Some (VDict [(''decision'', VStr ''timeout'')])\<rparr>) db)"
  have "does env db ?expired"
    by (rule extend(1), rule does_set_step [OF a]) (use t at_stepD(3) [OF a] in \<open>auto simp: ok_change_def same_place_def\<close>)
  then have fired: "does env db db'" if "fire env flow (fr_id f) (nd_id node) pick ?expired = Inr (k, db')" for pick k db'
    using does_then_fire [OF that] at_stepD(2,1) [OF a] by blast
  have settled: "does env db (fst (commit db (bind_r (fire env flow (fr_id f) (nd_id node) pick ?expired)
      (\<lambda>(fired, db'). Inr (fired, if fired = 0 then fail_run (fr_id f) (Some (nd_id node)) db' else db')))))" for pick
  proof (rule does_commit)
    fix x db' assume "bind_r (fire env flow (fr_id f) (nd_id node) pick ?expired)
        (\<lambda>(fired, db'). Inr (fired, if fired = 0 then fail_run (fr_id f) (Some (nd_id node)) db' else db')) = Inr (x, db')"
    then obtain db1 where db1: "fire env flow (fr_id f) (nd_id node) pick ?expired = Inr (x, db1)"
        "db' = (if x = 0 then fail_run (fr_id f) (Some (nd_id node)) db1 else db1)"
      by (auto simp: bind_r_Inr)
    then show "does env db db'" using fired [OF db1(1)] does_trans [OF fired [OF db1(1)] does_fail_run] by simp
  qed simp
  show ?thesis
  proof (cases "st_status s = S_PENDING")
    case True
    then show ?thesis by (auto simp: approval_step_def split: sum.split intro!: does_with_expr extend(1) wait)
  next
    case False
    then show ?thesis unfolding approval_step_def using settled by simp
  qed
qed

lemma does_timer:
  assumes a: "at_step env db f flow node s" and t: "nd_type node = TIMER"
  shows "does env db (fst (timer_step env db f flow node s))"
proof -
  have wait: "does env db (set_step s (\<lambda>x. x\<lparr>st_status := S_WAITING, st_wait := Some ''timer'', st_wake := w\<rparr>) db)" for w
    by (rule does_wait [OF a]) (simp_all add: t same_place_def)
  let ?woken = "flow_log (fr_id f) ''step_woken'' (Some (nd_id node)) ''timer'' None (set_step s (\<lambda>x. x\<lparr>st_status := S_SUCCEEDED\<rparr>) db)"
  have "does env db ?woken" by (intro extends) simp
  then have "does env db (fst (commit db (fire env flow (fr_id f) (nd_id node) pick ?woken)))" for pick
    by (intro does_commit) (auto dest: does_then_fire [OF _ _ at_stepD(2,1) [OF a]])
  then show ?thesis by (auto simp: timer_step_def split: option.split intro: extend(1) [OF wait])
qed

lemma does_wait_event:
  assumes a: "at_step env db f flow node s" and t: "nd_type node = WAIT_EVENT"
  shows "does env db (fst (wait_event_step env db f flow node s))"
proof -
  have wait: "does env db (set_step s (\<lambda>x. (start_waiting ''event'' k w x)\<lparr>st_output := v\<rparr>) db)" for k w v
    by (rule does_wait [OF a]) (simp_all add: t same_place_def start_waiting_def)
  let ?late = "engine_log (fr_id f) ''step_timeout'' (Some (nd_id node))
      (set_steps (\<lambda>x. st_id x = st_id s \<and> st_status x = S_WAITING) (\<lambda>x. x\<lparr>st_status := S_FAILED\<rparr>) db)"
  have late: "does env db ?late" by (intro extends) simp
  then have "does env db (fst (commit db (fire env flow (fr_id f) (nd_id node) pick ?late)))" for pick
    by (intro does_commit) (auto dest: does_then_fire [OF _ _ at_stepD(2,1) [OF a]])
  moreover have "does env db (fail_run (fr_id f) (Some (nd_id node)) ?late)" using does_trans [OF late does_fail_run] .
  moreover have "does env db (fst (wait_event_step env db f flow node s))" if "st_status s = S_PENDING"
    using that by (auto simp: wait_event_step_def split: option.split sum.split intro!: does_with_expr extend(1) wait)
  ultimately show ?thesis by (cases "st_status s = S_PENDING") (auto simp: wait_event_step_def Let_def)
qed

lemma does_end: "does env db (fst (end_step env db f flow node s))"
  unfolding end_step_def Let_def fst_conv
  by (rule does_trans [OF _ does_ask_cancel]) (auto intro!: extends)

lemma does_launch: "does env db (launch c db)"
  unfolding launch_def by (rule does_agents)

lemma at_step_does: "at_step env db f flow node s \<Longrightarrow> does env db db' \<Longrightarrow> t \<in> set (wf_steps db') \<Longrightarrow> same_place s t \<Longrightarrow> at_step env db' f flow node t"
  using does_sound does_flow by (auto simp: at_step_def same_place_def)

lemma does_link_child:
  assumes a: "at_step env db f flow node s" and t: "nd_type node = AGENT"
  shows "does env db (fst (link_child (fr_id f) node s c db))"
proof -
  have "does env db (engine_log (fr_id f) ''step_started'' (Some (nd_id node))
      (set_step s (\<lambda>x. x\<lparr>st_status := S_WAITING, st_wait := Some ''child_run'', st_child := Some c\<rparr>) db))"
    by (intro extend(1), rule does_wait [OF a]) (simp_all add: t same_place_def)
  then show ?thesis using does_trans [OF _ does_launch] by (auto simp: link_child_def Let_def split: option.split)
qed

lemma does_commit_failed:
  assumes "sound env db" "flow_of (we_show env) db r = Some flow" "does env db0 db"
  shows "does env db0 (fst (commit db (step_failed env flow r node s db)))"
  by (rule does_commit) (use assms does_step_failed [OF _ assms(2,1)] does_trans [OF assms(3)] in blast)+

lemma does_start_agent:
  assumes a: "at_step env db f flow node s" and t: "nd_type node = AGENT"
  shows "does env db (fst (start_agent env db f flow node s cfg))"
proof -
  let ?db1 = "set_step s (\<lambda>x. x\<lparr>st_status := S_RUNNING\<rparr>) db"
  let ?s = "s\<lparr>st_status := S_RUNNING\<rparr>"
  have one: "does env db ?db1" by (intro extends) simp
  have in1: "?s \<in> set (wf_steps ?db1)" using at_stepD(4) [OF a] by (auto simp: set_steps_def)
  have link: "does env db (fst (link_child (fr_id f) node s c db2))" if d: "does env ?db1 db2" and "wf_steps db2 = wf_steps ?db1" for c db2
  proof -
    have "at_step env db2 f flow node ?s"
      using at_step_does [OF a does_trans [OF one d], of ?s] in1 that(2) by (simp add: same_place_def)
    from does_link_child [OF this t] have "does env db2 (fst (link_child (fr_id f) node s c db2))" by (simp add: link_child_def)
    then show ?thesis using does_trans [OF does_trans [OF one d]] by blast
  qed
  have failed: "does env db (fst (commit db2 (step_failed env flow (fr_id f) node s db2)))" if "does env ?db1 db2" for db2
    using does_commit_failed [of env db2 "fr_id f" flow db node s] does_trans [OF one that] does_sound does_flow at_stepD(1,2) [OF a] by blast
  have kids: "does env ?db1 (add_child c by ?db1)" "does env ?db1 (set_overrides c v (add_child c by ?db1))" for c "by" v
    unfolding add_child_def set_overrides_def by (intro extends)+
  have "does env db (add_child c by ?db1)" for c "by" using does_trans [OF one kids(1)] .
  then show ?thesis
    using one link [OF kids(1)] link [OF kids(2)] failed [OF kids(1)] failed [of ?db1]
    by (auto simp: start_agent_def Let_def add_child_def set_overrides_def split: option.split)
qed

lemma does_agent:
  assumes a: "at_step env db f flow node s" and t: "nd_type node = AGENT"
  shows "does env db (fst (agent_step env db f flow node s))"
proof -
  have pending: "does env db (set_step s (\<lambda>x. x\<lparr>st_status := S_PENDING\<rparr>) db)"
    by (rule does_set_step [OF a]) (use t at_stepD(3) [OF a] in \<open>auto simp: ok_change_def same_place_def\<close>)
  have "does env db (fst (commit db (fire env flow (fr_id f) (nd_id node) pick (succeed (fr_id f) s out (nd_id node) db))))" for pick out
    by (rule does_commit) (auto dest: does_then_fire [OF _ does_succeed at_stepD(2,1) [OF a]])
  moreover have "does env db (fst (commit db (step_failed env flow (fr_id f) node s db)))"
    using does_commit_failed [OF at_stepD(1,2) [OF a]] by blast
  moreover have "does env db (fst (with_expr db v (\<lambda>cfg. start_agent env db f flow node s (case as_dict cfg of Some d \<Rightarrow> d | None \<Rightarrow> []))))" for v
    by (intro does_with_expr does_start_agent [OF a t])
  ultimately show ?thesis using pending does_link_child [OF a t] does_launch by (simp add: agent_step_def split: option.split)
qed

lemma does_action_succeeded:
  assumes "sound env db" "flow_of (we_show env) db (fr_id f) = Some flow"
  shows "does env db (fst (action_succeeded env f flow node s out db))"
  unfolding action_succeeded_def Let_def
  by (rule does_commit [OF does_succeed]) (auto dest: does_then_fire [OF _ does_succeed assms(2,1)])

lemma find_Some_mem: "find p xs = Some x \<Longrightarrow> x \<in> set xs \<and> p x"
  by (induction xs) (auto split: if_splits)

lemma log_note_call: "note_call f node s name params by n (flow_log r type node' who answer db) =
    flow_log r type node' who answer (note_call f node s name params by n db)"
  by (cases db) (simp add: flow_log_def note_call_def contacted_def)

lemma contacted_simps [simp]:
  "wf_steps (contacted f node s name by qs db) = wf_steps db" "wf_calls (contacted f node s name by qs db) = wf_calls db"
  "wf_runs (contacted f node s name by qs db) = wf_runs db" "wf_events (contacted f node s name by qs db) = wf_events db"
  "approver (contacted f node s name by qs db) r flow n = approver db r flow n"
  by (simp_all add: contacted_def approver_def flow_steps_def)

lemma approver_approved:
  assumes ok: "sound env db" and flow: "flow_of (we_show env) db r = Some flow" and by_who: "approver db r flow node = Some who"
  shows "\<exists>a \<in> set (ancestors flow node). is_approval flow a \<and> approved_in db r a (Some who)"
proof -
  from by_who obtain s where "find (\<lambda>s. st_node s \<in> set (ancestors flow node)) (rev (filter (\<lambda>s. st_decision s = Some ''approved'') (flow_steps db r))) = Some s"
      and who: "st_decided_by s = Some who"
    by (auto simp: approver_def split: option.splits)
  then have s: "s \<in> set (wf_steps db)" "st_run s = r" "st_decision s = Some ''approved''" "st_node s \<in> set (ancestors flow node)"
    by (auto simp: flow_steps_def dest!: find_Some_mem)
  then have "step_ok (we_show env) db s" using ok by (auto simp: engine_ok_def)
  then have "is_approval flow (st_node s)" "approved_in db r (st_node s) (Some who)"
    using s who flow by (auto simp: step_ok_def is_approval_def node_of_def)
  then show ?thesis using s(4) by blast
qed

lemma plan_due:
  assumes "plan_action env db f flow node s name = Due info params by db1"
  shows "map_of (we_actions env) name = Some info" "by = approver db (fr_id f) flow (nd_id node)"
    "\<exists>chain. chain_for env f = Inr chain \<and> \<not> refused_by env chain name info by" "st_status s \<noteq> S_RUNNING \<or> ai_idempotent info"
    "\<exists>db0. (db0 = db \<or> db0 = contacted f node s name by [Lookup] db) \<and>
       db1 = engine_log (fr_id f) ''step_started'' (Some (nd_id node)) (set_step s (\<lambda>x. x\<lparr>st_status := S_RUNNING\<rparr>) db0)"
  using assms by (auto simp: plan_action_def action_due_def Let_def split: option.splits sum.splits if_splits outcome.splits)

lemma permitted_contact:
  assumes "map_of (we_actions env) name = Some info" "\<exists>chain. chain_for env f = Inr chain \<and> \<not> refused_by env chain name info by"
  shows "permitted env \<lparr>ct_request = q, ct_run = r, ct_node = n, ct_workspace = fr_workspace f, ct_workflow = fr_workflow f, ct_name = name,
    ct_key = k, ct_approver = by\<rparr>"
  using assms by (auto simp: permitted_def)

lemma does_look:
  assumes "map_of (we_actions env) name = Some info" "\<exists>chain. chain_for env f = Inr chain \<and> \<not> refused_by env chain name info by"
  shows "does env db (contacted f node s name by [Lookup] db)"
  using move.look [where may = "permitted env", OF permitted_contact [OF assms, of Lookup "fr_id f" "nd_id node" "st_key s"]]
  by (simp add: contacted_def) blast

lemma at_step_look: "at_step env db f flow node s \<Longrightarrow> does env db (contacted f node s name by qs db) \<Longrightarrow>
    at_step env (contacted f node s name by qs db) f flow node s"
  using at_step_does [of env db f flow node s "contacted f node s name by qs db" s] at_stepD(4) [of env db f flow node s]
  by (simp add: same_place_def)

lemma does_uncertain:
  assumes a: "at_step env db f flow node s" and t: "nd_type node = ACTION"
  shows "does env db (engine_log (fr_id f) ''step_uncertain'' (Some (nd_id node)) (set_step s (\<lambda>x. x\<lparr>st_status := S_UNCERTAIN\<rparr>) db))"
  by (rule extend(1), rule does_set_step [OF a]) (use t at_stepD(3) [OF a] in \<open>auto simp: ok_change_def same_place_def\<close>)

lemma does_settled:
  assumes a: "at_step env db f flow node s" and t: "nd_type node = ACTION" and p: "plan_action env db f flow node s name = Settled h"
  shows "does env db (fst h)"
proof -
  let ?by = "approver db (fr_id f) flow (nd_id node)"
  let ?db = "contacted f node s name ?by [Lookup] db"
  have "does env db (fst (commit db (step_failed env flow (fr_id f) node s db)))" using does_commit_failed [OF at_stepD(1,2) [OF a]] by blast
  moreover have "does env db (fst (action_succeeded env f flow node s out ?db))"
      "does env db (engine_log (fr_id f) ''step_uncertain'' (Some (nd_id node)) (set_step s (\<lambda>x. x\<lparr>st_status := S_UNCERTAIN\<rparr>) ?db))"
      "does env db ?db"
    if "map_of (we_actions env) name = Some info" "chain_for env f = Inr chain" "\<not> refused_by env chain name info ?by" for info chain out
  proof -
    have look: "does env db ?db" using that by (intro does_look) blast+
    note at = at_step_look [OF a look]
    show "does env db (fst (action_succeeded env f flow node s out ?db))" by (rule does_trans [OF look does_action_succeeded [OF at_stepD(1,2) [OF at]]])
    show "does env db (engine_log (fr_id f) ''step_uncertain'' (Some (nd_id node)) (set_step s (\<lambda>x. x\<lparr>st_status := S_UNCERTAIN\<rparr>) ?db))"
      by (rule does_trans [OF look does_uncertain [OF at t]])
    show "does env db ?db" by (rule look)
  qed
  ultimately show ?thesis
    using p by (auto simp: plan_action_def action_due_def Let_def split: option.splits sum.splits if_splits outcome.splits)
qed

text \<open>The call itself: the step is running and the connectors are asked, by a justified call with permitted requests.\<close>

lemma does_note_call:
  assumes a: "at_step env db f flow node s" and t: "nd_type node = ACTION" and active: "st_status s \<in> set ACTIVE_STEP"
    and v: "map_of (nd_config node) ''action'' = Some v" and name: "name = py_str (we_show env) v"
    and p: "plan_action env db f flow node s name = Due info params by db1" and n: "n \<le> max_attempts DEFAULT_POLICY"
  shows "does env db (note_call f node s name params by n db1)"
proof -
  let ?c = "\<lparr>pf_step = st_id s, pf_run = fr_id f, pf_node = nd_id node, pf_name = name, pf_params = params, pf_key = st_key s,
      pf_approver = by, pf_attempts = n\<rparr>"
  let ?k = "\<lambda>q. \<lparr>ct_request = q, ct_run = fr_id f, ct_node = nd_id node, ct_workspace = fr_workspace f, ct_workflow = fr_workflow f, ct_name = name,
      ct_key = st_key s, ct_approver = by\<rparr>"
  let ?ks = "map ?k (map Perform [1 ..< Suc n])"
  note d = plan_due [OF p]
  from d(5) obtain db0 where db0: "db0 = db \<or> db0 = contacted f node s name by [Lookup] db"
      and db1: "db1 = engine_log (fr_id f) ''step_started'' (Some (nd_id node)) (set_step s (\<lambda>x. x\<lparr>st_status := S_RUNNING\<rparr>) db0)"
    by blast
  have look: "does env db db0" using db0 does_look [OF d(1,3)] by blast
  have "at_step env db0 f flow node s" using db0 a at_step_look [OF a does_look [OF d(1,3)]] by blast
  note at = at_stepD [OF this]
  have by_who: "by = approver db0 (fr_id f) flow (nd_id node)" using d(2) db0 by auto
  from d(3) have "\<exists>who. by = Some who" if "ai_effect info \<in> REQUIRES_APPROVAL_EFFECTS" "\<not> we_unapproved env"
    using that by (auto simp: refused_by_def Let_def)
  then have just: "justified (we_show env) (we_actions env) (we_unapproved env) db0 ?c"
    using approver_approved [OF at(1,2)] d(1) by_who at(2,5,6) t v name by (fastforce simp: justified_def)
  have "step_ok (we_show env) db0 s" using at(1,4) by (simp add: engine_ok_def)
  then have "st_status s = S_PENDING \<or> idempotent_call (we_actions env) name"
    using d(1,4) active t at(3) by (auto simp: ACTIVE_STEP_def idempotent_call_def step_ok_def)
  moreover have "list_all (\<lambda>k. permitted env k \<and> ct_run k = st_run s \<and> ct_node k = st_node s) ?ks"
    using permitted_contact [OF d(1,3)] at(5,7) by (auto simp: list_all_iff)
  ultimately have "move (we_show env) (we_actions env) (we_unapproved env) (permitted env) db0
      ((set_step s (\<lambda>x. x\<lparr>st_status := S_RUNNING\<rparr>) db0)\<lparr>wf_calls := wf_calls db0 @ [?c], wf_contacts := wf_contacts db0 @ ?ks\<rparr>)"
    using move.call [OF at(4) just, where ks = ?ks and may = "permitted env"] at(5,7) n by simp
  then have "does env db0 (flow_log (fr_id f) ''step_started'' (Some (nd_id node)) ''engine'' None
      ((set_step s (\<lambda>x. x\<lparr>st_status := S_RUNNING\<rparr>) db0)\<lparr>wf_calls := wf_calls db0 @ [?c], wf_contacts := wf_contacts db0 @ ?ks\<rparr>))"
    by (intro extend(1)) blast
  then show ?thesis unfolding db1 log_note_call using does_trans [OF look] by (simp add: note_call_def contacted_def)
qed

lemma call_attempts: "run_with_retry (call_env env info) op = (out, n, trace) \<Longrightarrow> n \<le> max_attempts DEFAULT_POLICY"
  using retry_loop_trace [of "call_env env info" op 0 "[]" out n trace] by (simp add: run_with_retry_def call_env_def DEFAULT_POLICY_def)

lemma does_call:
  assumes a: "at_step env db f flow node s" and t: "nd_type node = ACTION" and active: "st_status s \<in> set ACTIVE_STEP"
    and v: "map_of (nd_config node) ''action'' = Some v" and name: "name = py_str (we_show env) v"
    and p: "plan_action env db f flow node s name = Due info params by db1"
  shows "does env db (snd (call_action env f node s name info params by db1))"
  unfolding call_action_def by (auto split: prod.split dest: call_attempts intro: does_note_call [OF assms])

lemma does_action:
  assumes a: "at_step env db f flow node s" and t: "nd_type node = ACTION" and active: "st_status s \<in> set ACTIVE_STEP"
  shows "does env db (fst (action_step env db f flow node s))"
proof (cases "map_of (nd_config node) ''action''")
  case None
  then show ?thesis by (simp add: action_step_def)
next
  case (Some v)
  let ?name = "py_str (we_show env) v"
  show ?thesis
  proof (cases "plan_action env db f flow node s ?name")
    case (Settled h)
    then show ?thesis using does_settled [OF a t Settled] Some by (simp add: action_step_def Let_def)
  next
    case (Due info params who db1)
    obtain out db2 where c: "call_action env f node s ?name info params who db1 = (out, db2)" by (metis surj_pair)
    have d: "does env db db2" using does_call [OF a t active Some refl Due] c by simp
    have ok: "sound env db2" "flow_of (we_show env) db2 (fr_id f) = Some flow" using does_sound [OF d] does_flow [OF d] at_stepD(1,2) [OF a] by blast+
    show ?thesis
      using Some Due c d does_trans [OF d does_action_succeeded [OF ok]] does_commit_failed [OF ok d]
      by (simp add: action_step_def Let_def split: outcome.split)
  qed
qed

lemma does_flow_step:
  assumes a: "at_step env db f flow node s" and active: "st_status s \<in> set ACTIVE_STEP"
  shows "does env db (fst (flow_step env db f flow s))"
proof -
  have h: "does env db (fst (run_handler env db f flow node s))"
    using does_agent [OF a] does_action [OF a _ active] does_condition [OF a] does_approval [OF a] does_wait_event [OF a] does_timer [OF a] does_end
    by (cases "nd_type node") (simp_all add: run_handler_def)
  obtain db' res where r: "run_handler env db f flow node s = (db', res)" by (metis surj_pair)
  with h have d: "does env db db'" by simp
  have "does env db (fst (commit db' (step_failed env flow (fr_id f) node s db')))"
    using does_commit_failed [OF does_sound [OF d] does_flow [OF d] d] at_stepD(1,2) [OF a] by blast
  then show ?thesis using r d at_stepD(6) [OF a] by (simp add: flow_step_def split: sum.split flow_error.split)
qed

section \<open>A handler touches its own step\<close>

text \<open>Unless it ends the run, what a handler does leaves every other step of the table as it was.\<close>

definition keeps :: "string \<Rightarrow> nat \<Rightarrow> wf_db \<Rightarrow> wf_db \<Rightarrow> bool" where
  "keeps r i db db' \<longleftrightarrow> find_row fr_id r (wf_runs db') \<noteq> None \<and>
     (flow_ended db' r \<or> (\<forall>x \<in> set (wf_steps db). st_id x \<noteq> i \<longrightarrow> x \<in> set (wf_steps db')))"

lemma keeps_refl: "find_row fr_id r (wf_runs db) \<noteq> None \<Longrightarrow> keeps r i db db"
  by (simp add: keeps_def)

lemma keeps_frame: "keeps r i db0 db \<Longrightarrow> wf_runs db' = wf_runs db \<Longrightarrow> set (wf_steps db) \<subseteq> set (wf_steps db') \<Longrightarrow> keeps r i db0 db'"
  by (auto simp: keeps_def flow_ended_def)

lemma keeps_set_steps: "keeps r i db0 db \<Longrightarrow> (\<And>x. p x \<Longrightarrow> st_id x = i) \<Longrightarrow> keeps r i db0 (set_steps p f db)"
  by (auto simp: keeps_def flow_ended_def set_steps_def image_iff)

lemma keeps_end: "keeps r i db0 db \<Longrightarrow> status \<in> set TERMINAL_RUN \<Longrightarrow> keeps r i db0 (finish_flow r status db')" if "wf_runs db' = wf_runs db"
  using that find_row_SomeD [of fr_id r "wf_runs db"] by (auto simp: keeps_def flow_ended_def finish_flow_run)

lemma keeps_log: "keeps r i db0 db \<Longrightarrow> keeps r i db0 (flow_log r' type node who answer db)"
  by (erule keeps_frame) simp_all

lemma keeps_fail_run: "keeps r i db0 db \<Longrightarrow> keeps r i db0 (fail_run r node db)"
  unfolding fail_run_def skip_active_def by (intro keeps_log, erule keeps_end [rotated]) (simp_all add: TERMINAL_RUN_def)

lemma keeps_children: "keeps r i db0 db \<Longrightarrow> keeps r i db0 (db\<lparr>wf_children := cs\<rparr>)" "keeps r i db0 db \<Longrightarrow> keeps r i db0 (db\<lparr>wf_cancels := cc\<rparr>)"
  by (erule keeps_frame, simp_all)+

lemma keeps_fire_edges: "fire_edges env flow r es n db = Inr (k, db') \<Longrightarrow> keeps r i db0 db \<Longrightarrow> keeps r i db0 db'"
proof (induction es arbitrary: n db)
  case (Cons e es)
  have new: "keeps r i db0 db1" if "new_step env r node visit db = Inr db1" for node visit db1
    using that Cons.prems(2) by (elim new_step_cases) (auto elim: keeps_frame)
  show ?case using Cons.prems Cons.IH new keeps_fail_run [OF Cons.prems(2)]
    by (auto simp: Let_def bind_r_Inr split: option.splits if_splits)
qed simp

lemma keeps_fire: "fire env flow r node pick db = Inr (k, db') \<Longrightarrow> keeps r i db0 db \<Longrightarrow> keeps r i db0 db'"
  unfolding fire_def by (rule keeps_fire_edges)

lemma keeps_commit: "keeps r i db0 db \<Longrightarrow> (\<And>x db'. t = Inr (x, db') \<Longrightarrow> keeps r i db0 db') \<Longrightarrow> keeps r i db0 (fst (commit db t))"
  by (cases t) auto

lemma keeps_commit_fire:
  "keeps r i db0 db \<Longrightarrow> keeps r i db0 db1 \<Longrightarrow> keeps r i db0 (fst (commit db (fire env flow r node pick db1)))"
  by (rule keeps_commit) (auto intro: keeps_fire)

lemma keeps_commit_failed: "keeps r (st_id s) db0 db \<Longrightarrow> keeps r (st_id s) db0 (fst (commit db (step_failed env flow r node s db)))"
  by (rule keeps_commit) (auto simp: step_failed_def Let_def split: if_splits intro!: keeps_fail_run keeps_log keeps_set_steps elim!: keeps_fire)

lemmas keeps_rules = keeps_log keeps_set_steps keeps_children keeps_fail_run keeps_commit_fire keeps_commit_failed

lemma keeps_with_expr: "keeps r i db0 db \<Longrightarrow> (\<And>x. keeps r i db0 (fst (k x))) \<Longrightarrow> keeps r i db0 (fst (with_expr db v k))"
  by (cases v) (auto simp: with_expr_def)

lemma keeps_link_child: "keeps r (st_id s) db0 db \<Longrightarrow> keeps r (st_id s) db0 (fst (link_child r node s c db))"
  by (auto simp: link_child_def Let_def launch_def split: option.split intro!: keeps_rules)

lemma keeps_start_agent:
  assumes "keeps (fr_id f) (st_id s) db0 db"
  shows "keeps (fr_id f) (st_id s) db0 (fst (start_agent env db f flow node s cfg))"
  using assms by (auto simp: start_agent_def Let_def add_child_def set_overrides_def split: option.split intro!: keeps_rules keeps_link_child)

lemma keeps_agent: "keeps (fr_id f) (st_id s) db0 db \<Longrightarrow> keeps (fr_id f) (st_id s) db0 (fst (agent_step env db f flow node s))"
  by (auto simp: agent_step_def launch_def succeed_def split: option.split intro!: keeps_rules keeps_link_child keeps_start_agent keeps_with_expr)

lemma keeps_condition: "keeps (fr_id f) (st_id s) db0 db \<Longrightarrow> keeps (fr_id f) (st_id s) db0 (fst (condition_step env db f flow node s))"
  by (auto simp: condition_step_def succeed_def split: option.split intro!: keeps_rules keeps_with_expr)

lemma keeps_approval:
  assumes k: "keeps (fr_id f) (st_id s) db0 db"
  shows "keeps (fr_id f) (st_id s) db0 (fst (approval_step env db f flow node s))"
proof -
  have c: "keeps (fr_id f) (st_id s) db0 (fst (commit db (bind_r (fire env flow (fr_id f) (nd_id node) pick db1)
      (\<lambda>(fired, db'). Inr (fired, if fired = 0 then fail_run (fr_id f) (Some (nd_id node)) db' else db')))))"
    if "keeps (fr_id f) (st_id s) db0 db1" for pick db1
    using that k by (intro keeps_commit) (auto simp: bind_r_Inr intro!: keeps_fail_run intro: keeps_fire)
  show ?thesis using k
    by (auto simp: approval_step_def split: sum.split intro!: c keeps_log keeps_set_steps keeps_with_expr)
qed

lemma keeps_timer: "keeps (fr_id f) (st_id s) db0 db \<Longrightarrow> keeps (fr_id f) (st_id s) db0 (fst (timer_step env db f flow node s))"
  by (auto simp: timer_step_def split: option.split intro!: keeps_rules)

lemma keeps_wait_event: "keeps (fr_id f) (st_id s) db0 db \<Longrightarrow> keeps (fr_id f) (st_id s) db0 (fst (wait_event_step env db f flow node s))"
  by (auto simp: wait_event_step_def Let_def split: option.split sum.split intro!: keeps_rules keeps_with_expr)

lemma keeps_end_step:
  assumes "keeps (fr_id f) (st_id s) db0 db"
  shows "keeps (fr_id f) (st_id s) db0 (fst (end_step env db f flow node s))"
  using assms by (auto simp: end_step_def Let_def ask_cancel_def TERMINAL_RUN_def intro!: keeps_children keeps_log keeps_end [where db = db])

lemma keeps_succeeded: "keeps (fr_id f) (st_id s) db0 db \<Longrightarrow> keeps (fr_id f) (st_id s) db0 (fst (action_succeeded env f flow node s out db))"
  by (auto simp: action_succeeded_def Let_def succeed_def intro!: keeps_rules)

lemma keeps_contacted: "keeps r i db0 db \<Longrightarrow> keeps r i db0 (contacted f node s name by qs db)"
  by (erule keeps_frame) simp_all

lemma keeps_settled:
  "keeps (fr_id f) (st_id s) db0 db \<Longrightarrow> plan_action env db f flow node s name = Settled h \<Longrightarrow> keeps (fr_id f) (st_id s) db0 (fst h)"
  by (auto simp: plan_action_def action_due_def Let_def split: option.splits sum.splits if_splits outcome.splits
      intro!: keeps_rules keeps_succeeded keeps_contacted)

lemma keeps_call:
  "keeps r i db0 db \<Longrightarrow> keeps r i db0 (snd (call_action env f node s name info params who db))"
  by (erule keeps_frame) (simp_all add: call_action_def note_call_def split: prod.split)

lemma keeps_action:
  assumes k: "keeps (fr_id f) (st_id s) db0 db"
  shows "keeps (fr_id f) (st_id s) db0 (fst (action_step env db f flow node s))"
proof (cases "map_of (nd_config node) ''action''")
  case (Some v)
  let ?name = "py_str (we_show env) v"
  show ?thesis
  proof (cases "plan_action env db f flow node s ?name")
    case (Settled h)
    then show ?thesis using keeps_settled [OF k Settled] Some by (simp add: action_step_def Let_def)
  next
    case (Due info params who db1)
    obtain out db2 where c: "call_action env f node s ?name info params who db1 = (out, db2)" by (metis surj_pair)
    have "keeps (fr_id f) (st_id s) db0 db1" using plan_due(5) [OF Due] k by (auto intro!: keeps_rules keeps_contacted)
    then have d: "keeps (fr_id f) (st_id s) db0 db2" using keeps_call [of "fr_id f" "st_id s" db0 db1] c by (metis snd_conv)
    then show ?thesis
      using Some Due c keeps_succeeded [OF d] keeps_commit_failed [OF d] by (simp add: action_step_def Let_def split: outcome.split)
  qed
qed (simp add: action_step_def k)

lemma keeps_flow_step:
  assumes "find_row fr_id (fr_id f) (wf_runs db) \<noteq> None"
  shows "keeps (fr_id f) (st_id s) db (fst (flow_step env db f flow s))"
proof (cases "find_node flow (st_node s)")
  case None
  then show ?thesis using keeps_refl [OF assms] by (simp add: flow_step_def)
next
  case (Some node)
  note k = keeps_refl [OF assms, of "st_id s"]
  have h: "keeps (fr_id f) (st_id s) db (fst (run_handler env db f flow node s))"
    unfolding run_handler_def
    by (auto split: node_type.split intro: keeps_agent keeps_action keeps_condition keeps_approval keeps_wait_event keeps_timer keeps_end_step k)
  obtain db' res where r: "run_handler env db f flow node s = (db', res)" by (metis surj_pair)
  with h show ?thesis using Some keeps_commit_failed by (simp add: flow_step_def split: sum.split flow_error.split)
qed

section \<open>Operations keep the invariant\<close>

lemma load_flow_of:
  assumes "get_flow db r = Inr f" "load_flow env db (fr_workflow f) = Inr (flow, d)"
  shows "flow_of (we_show env) db r = Some flow" "fr_id f = r"
  using assms find_row_SomeD [of fr_id r "wf_runs db"] by (auto simp: get_flow_def load_flow_def flow_of_def split: option.splits sum.splits)

lemma flow_of_run: "flow_of show_val db r = Some flow \<Longrightarrow> find_row fr_id r (wf_runs db) \<noteq> None"
  by (auto simp: flow_of_def split: option.splits)

lemma at_active:
  assumes "sound env db" "flow_of (we_show env) db (fr_id f) = Some flow" "s \<in> set (wf_steps db)" "st_run s = fr_id f"
  obtains node where "at_step env db f flow node s"
proof -
  obtain node where "node_of (we_show env) db s = Some node" using assms(1,3) by (auto simp: engine_ok_def step_ok_def)
  then show ?thesis using assms that by (auto simp: at_step_def node_of_def)
qed

lemma does_round:
  assumes "sound env db" "flow_of (we_show env) db (fr_id f) = Some flow" "distinct (map st_id ss)"
    "\<And>s. s \<in> set ss \<Longrightarrow> s \<in> set (wf_steps db) \<and> st_run s = fr_id f \<and> st_status s \<in> set ACTIVE_STEP"
  shows "does env db (fst (run_round env f flow ss p db))"
  using assms
proof (induction ss arbitrary: p db)
  case (Cons s ss)
  then obtain node where a: "at_step env db f flow node s" by (meson at_active list.set_intros(1))
  obtain db1 res where r: "flow_step env db f flow s = (db1, res)" by (metis surj_pair)
  have d: "does env db db1" using does_flow_step [OF a] Cons.prems(4) [of s] r by simp
  show ?case
  proof (cases "(\<exists>e. res = Inl e) \<or> flow_ended db1 (fr_id f)")
    case True
    then show ?thesis using r d by (auto split: sum.split)
  next
    case False
    then obtain b where b: "res = Inr b" by (cases res) auto
    have "keeps (fr_id f) (st_id s) db db1" using keeps_flow_step [OF flow_of_run [OF Cons.prems(2)]] r by (metis fst_conv)
    then have kept: "x \<in> set (wf_steps db1)" if "x \<in> set ss" for x
    proof -
      have "st_id x \<noteq> st_id s" using that Cons.prems(3) by (auto simp: image_iff)
      then show ?thesis using \<open>keeps _ _ _ _\<close> that False Cons.prems(4) [of x] by (auto simp: keeps_def)
    qed
    have "does env db1 (fst (run_round env f flow ss (p \<or> b) db1))"
      using does_sound [OF d Cons.prems(1)] does_flow [OF d Cons.prems(2)] Cons.prems(3,4) kept by (intro Cons.IH) auto
    then show ?thesis using r b False does_trans [OF d] by simp
  qed
qed simp

lemma does_settle: "settle r db = Inr db' \<Longrightarrow> does env db db'"
  by (auto simp: settle_def Let_def bind_r_Inr split: if_splits intro!: extends)

lemma does_settled_round: "does env db (fst (settled r db))"
  by (auto split: sum.split intro: does_settle)

lemma active_steps_ok:
  "sound env db \<Longrightarrow> distinct (map st_id (active_steps db r))"
  "s \<in> set (active_steps db r) \<Longrightarrow> s \<in> set (wf_steps db) \<and> st_run s = r \<and> st_status s \<in> set ACTIVE_STEP"
  by (auto simp: active_steps_def flow_steps_def engine_ok_def distinct_map inj_on_def dest: ids_okD ids_ok_distinct)

lemma does_advance_loop: "sound env db \<Longrightarrow> does env db (fst (advance_loop env k r db))"
proof (induction k arbitrary: db)
  case 0
  then show ?case using does_settled_round by simp
next
  case (Suc k)
  show ?case
  proof (cases "\<exists>f flow d. get_flow db r = Inr f \<and> fr_status f \<notin> set TERMINAL_RUN \<and> load_flow env db (fr_workflow f) = Inr (flow, d)")
    case False
    then show ?thesis by (auto split: sum.split)
  next
    case True
    then obtain f flow d where f: "get_flow db r = Inr f" "fr_status f \<notin> set TERMINAL_RUN" "load_flow env db (fr_workflow f) = Inr (flow, d)" by blast
    note flow = load_flow_of [OF f(1,3)]
    obtain db1 res where r: "run_round env f flow (active_steps db r) False db = (db1, res)" by (metis surj_pair)
    have d: "does env db db1"
      using does_round [OF Suc.prems, of f flow "active_steps db r" False] flow active_steps_ok(1) [OF Suc.prems] active_steps_ok(2) r by (metis fst_conv)
    then have "does env db (fst (advance_loop env k r db1))" "does env db (fst (settled r db1))"
      using does_trans [OF d Suc.IH [OF does_sound [OF d Suc.prems]]] does_trans [OF d does_settled_round] by blast+
    then show ?thesis using f r d by (auto split: sum.split round.split simp del: settled.simps)
  qed
qed

lemma does_advance: "sound env db \<Longrightarrow> does env db (fst (advance env db r))"
  unfolding advance_def by (rule does_advance_loop)

lemma does_advance_all: "sound env db \<Longrightarrow> does env db (fst (advance_all env rs db))"
proof (induction rs arbitrary: db)
  case (Cons r rs)
  obtain db1 res where r: "advance env db r = (db1, res)" by (metis surj_pair)
  have d: "does env db db1" using does_advance [OF Cons.prems, of r] r by simp
  then show ?case using r does_trans [OF d Cons.IH [OF does_sound [OF d Cons.prems]]] by (auto split: sum.split)
qed simp

lemma does_tick: "sound env db \<Longrightarrow> does env db (fst (tick env db))"
  using does_advance_all [of env db "map fr_id (filter (\<lambda>f. fr_status f = W_RUNNING \<or> fr_status f = W_WAITING) (wf_runs db))"]
  by (auto simp: tick_def Let_def split: prod.split sum.split)

lemma does_fire_after_success:
  assumes "fire_after_success env r node labels denied db = Inr db'" "sound env db"
  shows "does env db db'"
proof -
  obtain f flow d k db1 where f: "get_flow db r = Inr f" "load_flow env db (fr_workflow f) = Inr (flow, d)"
      and fired: "fire env flow r node (\<lambda>w. w \<in> set labels) db = Inr (k, db1)" and db': "db' = (if denied \<and> k = 0 then fail_run r (Some node) db1 else db1)"
    using assms(1) by (auto simp: fire_after_success_def bind_r_Inr split: option.splits)
  have "does env db db1" using does_fire [OF fired load_flow_of(1) [OF f] assms(2)] .
  then show ?thesis using db' does_trans [OF _ does_fail_run] by simp
qed

lemma does_then_advance:
  assumes "sound env db" "\<And>db'. t = Inr db' \<Longrightarrow> does env db db'"
  shows "does env db (fst (then_advance env db r t))"
proof (cases t)
  case (Inr db')
  then have d: "does env db db'" using assms(2) by blast
  then show ?thesis using Inr does_trans [OF d does_advance [OF does_sound [OF d assms(1)]]] by (simp add: then_advance_def)
qed (simp add: then_advance_def)

lemma log_set_steps: "flow_log r type node who answer (set_steps p f db) = set_steps p f (flow_log r type node who answer db)"
  by (cases db) (simp add: flow_log_def set_steps_def)

lemma does_decide:
  assumes ok: "sound env db"
  shows "does env db (fst (decide_flow env db r node answer who))"
proof -
  let ?asked = "\<lambda>s. st_run s = r \<and> st_node s = node \<and> st_status s = S_WAITING \<and> st_wait s = Some ''approval''"
  let ?verdict = "if answer = ''approve'' then ''approved'' else ''denied''"
  let ?set = "\<lambda>s. s\<lparr>st_status := S_SUCCEEDED, st_decision := Some ?verdict, st_decided_by := Some who,
      st_output := Some (VDict [(''decision'', VStr ?verdict), (''decided_by'', VStr who)])\<rparr>"
  let ?db1 = "flow_log r ''approval_decided'' (Some node) who (Some answer) db"
  have ok1: "sound env ?db1" using does_sound [OF does_log ok] .
  have "ok_change (we_show env) ?db1 s (?set s)" if "s \<in> set (wf_steps ?db1)" "?asked s" for s
  proof -
    have "step_ok (we_show env) ?db1 s" using ok1 that(1) by (simp add: engine_ok_def)
    then have "type_of (we_show env) ?db1 s = Some APPROVAL" using that(2) by (simp add: step_ok_def)
    moreover have "approved_in ?db1 (st_run s) (st_node s) (Some who)" if "answer = ''approve''"
      using \<open>?asked s\<close> that by (auto simp: approved_in_def flow_log_def)
    ultimately show ?thesis by (auto simp: ok_change_def same_place_def)
  qed
  then have "does env ?db1 (set_steps ?asked ?set ?db1)" by (rule does_set_steps)
  then have d: "does env db (flow_log r ''approval_decided'' (Some node) who (Some answer) (set_steps ?asked ?set db))"
    unfolding log_set_steps by (rule does_trans [OF does_log])
  show ?thesis unfolding decide_flow_def Let_def
    using does_then_advance [OF ok] does_fire_after_success [OF _ does_sound [OF d ok]] does_trans [OF d] by (auto split: if_splits)
qed

lemma does_cancel: "does env db (fst (cancel_flow db r who))"
  unfolding cancel_flow_def skip_active_def
  by (auto split: sum.split intro!: does_trans [OF _ does_ask_cancel] extends)

lemma does_resolve:
  assumes ok: "sound env db"
  shows "does env db (fst (resolve_step env db r node answer who))"
proof (cases "find (\<lambda>s. st_run s = r \<and> st_node s = node \<and> st_status s = S_UNCERTAIN) (wf_steps db)")
  case (Some s)
  then have s: "s \<in> set (wf_steps db)" "st_run s = r" "st_node s = node" "st_status s = S_UNCERTAIN" by (auto dest: find_Some_mem)
  then have t: "type_of (we_show env) db s = Some ACTION" using ok by (auto simp: engine_ok_def step_ok_def)
  let ?set = "\<lambda>x. x\<lparr>st_status := resolved_status answer, st_decided_by := Some who\<rparr>"
  have d: "does env db (flow_log r ''step_resolved'' (Some node) who (Some answer) (set_step s ?set db))" if "answer \<in> {''happened'', ''retry'', ''failed''}"
  proof (cases "answer = ''retry''")
    case True
    then show ?thesis using move.retry [OF s(1,4) t, of "we_actions env" "we_unapproved env" "permitted env" who] s(2,3) by (simp add: resolved_status_def)
  next
    case False
    have only: "x = s" if "x \<in> set (wf_steps db)" "st_id x = st_id s" for x using ids_okD [of db x s] ok that s(1) by (auto simp: engine_ok_def)
    have "ok_change (we_show env) db s (?set s)" using False that t by (auto simp: ok_change_def same_place_def resolved_status_def)
    then have "does env db (set_step s ?set db)" by (intro does_set_steps) (use only in auto)
    then show ?thesis by (rule extend(1))
  qed
  show ?thesis
  proof (cases "answer \<in> {''happened'', ''retry'', ''failed''}")
    case True
    note d = d [OF True]
    have "does env db db'" if "(if answer = ''happened'' then fire_after_success env r node [None] False
        (flow_log r ''step_resolved'' (Some node) who (Some answer) (set_step s ?set db))
      else Inr (flow_log r ''step_resolved'' (Some node) who (Some answer) (set_step s ?set db))) = Inr db'" for db'
      using that d does_trans [OF d does_fire_after_success [OF _ does_sound [OF d ok]]] by (auto split: if_splits)
    from does_then_advance [OF ok this] show ?thesis using True Some by (simp add: resolve_step_def Let_def)
  qed (simp add: resolve_step_def)
qed (simp add: resolve_step_def)

lemma does_save: "save_version uuid db ws flow who = Inr (r, db') \<Longrightarrow> does env db db'"
  by (auto simp: save_version_def Let_def split: if_splits intro!: r_into_rtranclp move.add_def)

lemma parsed_visits: "flow_of show_val db r = Some flow \<Longrightarrow> find_node flow i = Some n \<Longrightarrow> 1 \<le> max_visits n \<and> max_visits n \<le> MAX_VISITS_LIMIT"
  by (auto simp: flow_of_def workflow_wf_def list_all_iff node_wf_def dest!: find_node_id parse_workflow_wf split: option.splits sum.splits)

lemma does_new_steps:
  "new_steps env r is db = Inr db' \<Longrightarrow> flow_of (we_show env) db r = Some flow \<Longrightarrow> set is \<subseteq> nd_id ` set (wf_nodes flow) \<Longrightarrow> does env db db'"
proof (induction "is" arbitrary: db)
  case (Cons i "is")
  then obtain db1 where db1: "new_step env r i 1 db = Inr db1" "new_steps env r is db1 = Inr db'" by (auto simp: bind_r_Inr)
  obtain n where n: "find_node flow i = Some n" using Cons.prems(3) by (cases "find_node flow i") (auto simp: find_node_def find_None_iff)
  have d: "does env db db1" using does_new_step [OF Cons.prems(2) n _ _ db1(1)] parsed_visits [OF Cons.prems(2) n] by simp
  then show ?case using Cons.IH [OF db1(2) does_flow [OF d Cons.prems(2)]] Cons.prems(3) does_trans [OF d] by auto
qed simp

text \<open>A start that does not raise either finds the trigger used, or the workflow accepted and adds a run with its entry steps.\<close>

lemma start_flow_cases:
  assumes "start_flow env uuid db i trigger given key who = Inr (r, db')"
  obtains "r = None" "db' = db" "has_row fr_id uuid (wf_runs db) \<or> trigger_used db i key"
  | flow d merged db2 where "r = Some uuid" "load_flow env db i = Inr (flow, d)" "validate (we_show env) flow (engine_policy env) = Inr []"
    "\<not> has_row fr_id uuid (wf_runs db)" "\<not> trigger_used db i key"
    "new_steps env uuid (map nd_id (wf_entries flow)) (db\<lparr>wf_runs := wf_runs db @ [\<lparr>fr_id = uuid, fr_workflow = i, fr_workspace = df_workspace d,
       fr_status = W_RUNNING, fr_trigger = trigger, fr_trigger_key = key, fr_vars = merged, fr_created_by = who\<rparr>]\<rparr>) = Inr db2"
    "db' = flow_log uuid ''workflow_started'' None who None db2"
proof -
  obtain flow d where l: "load_flow env db i = Inr (flow, d)" using assms by (auto simp: start_flow_def bind_r_Inr)
  obtain ps where ps: "validate (we_show env) flow (engine_policy env) = Inr ps" using assms l
    by (cases "validate (we_show env) flow (engine_policy env)") (auto simp: start_flow_def)
  obtain merged missing where m: "merge_variables flow given = (merged, missing)" by (metis surj_pair)
  from assms have "ps = []" using l ps by (auto simp: start_flow_def split: if_splits)
  then show ?thesis using assms l ps m that by (auto simp: start_flow_def bind_r_Inr split: if_splits)
qed

lemma does_start:
  assumes "start_flow env uuid db i trigger given key who = Inr (r, db')"
  shows "does env db db'"
  using assms
proof (cases rule: start_flow_cases)
  case (2 flow d merged db2)
  note l = 2(2) and free = 2(4,5) and new = 2(6) and db' = 2(7)
  let ?f = "\<lparr>fr_id = uuid, fr_workflow = i, fr_workspace = df_workspace d, fr_status = W_RUNNING, fr_trigger = trigger, fr_trigger_key = key,
      fr_vars = merged, fr_created_by = who\<rparr>"
  let ?db1 = "db\<lparr>wf_runs := wf_runs db @ [?f]\<rparr>"
  have one: "does env db ?db1" using free by (intro r_into_rtranclp move.add_run) simp_all
  have "flow_of (we_show env) ?db1 uuid = Some flow"
    using l free(1) by (auto simp: flow_of_def load_flow_def find_row_append find_row_Cons has_row_iff split: option.splits sum.splits)
  then have "does env ?db1 db2" using does_new_steps [OF new] by (auto simp: wf_entries_def)
  then show ?thesis unfolding db' by (intro extend(1) does_trans [OF one])
qed simp

lemma does_wake_waiting:
  "wake_waiting env ev ss touched db = Inr (rs, db') \<Longrightarrow> sound env db \<Longrightarrow> does env db db'"
proof (induction ss arbitrary: touched db)
  case (Cons s ss)
  let ?db1 = "flow_log (st_run s) ''step_woken'' (Some (st_node s)) (te_actor ev) None (set_steps (\<lambda>x. st_id x = st_id s \<and> st_status x = S_WAITING)
      (\<lambda>x. x\<lparr>st_status := S_SUCCEEDED, st_output := Some (VDict (event_dict ev))\<rparr>) db)"
  from Cons.prems(1) consider "wake_waiting env ev ss touched db = Inr (rs, db')"
    | db2 where "fire_after_success env (st_run s) (st_node s) [None] False ?db1 = Inr db2" "wake_waiting env ev ss (touched @ [st_run s]) db2 = Inr (rs, db')"
    by (cases "event_filter s"; cases "filter_matches (projr (event_filter s)) (event_dict ev)") (auto simp: bind_r_Inr split: bool.splits)
  then show ?case
  proof cases
    case 1
    then show ?thesis using Cons by blast
  next
    case 2
    have one: "does env db ?db1" by (intro extends) simp
    then have d: "does env db db2" using does_trans [OF one does_fire_after_success [OF 2(1) does_sound [OF one Cons.prems(2)]]] by blast
    then show ?thesis using Cons.IH [OF 2(2) does_sound [OF d Cons.prems(2)]] does_trans [OF d] by blast
  qed
qed simp

lemma does_start_matching: "does env db (fst (start_matching env uuid ev is touched db))"
proof (induction "is" arbitrary: touched db)
  case (Cons i "is")
  have "does env db (fst (start_matching env uuid ev is t db'))" if "start_flow env u db i trigger given key who = Inr (r, db')" for u trigger given key who r db' t
    using does_trans [OF does_start [OF that] Cons.IH] .
  then show ?case using Cons.IH by (auto split: sum.split option.split flow_error.split bool.split)
qed simp

lemma does_deliver:
  assumes ok: "sound env db"
  shows "does env db (fst (deliver_event env uuid db ev))"
proof (cases "wake_waiting env ev (waiting_for db ev) [] db")
  case (Inr p)
  obtain woken db1 where p: "p = (woken, db1)" by (metis surj_pair)
  have one: "does env db db1" using does_wake_waiting [OF _ ok] Inr p by blast
  obtain db2 res where r: "start_matching env uuid ev (active_for_trigger db1 (te_type ev) (Some (te_workspace ev))) woken db1 = (db2, res)" by (metis surj_pair)
  have two: "does env db db2" using does_trans [OF one] does_start_matching [of env db1 uuid ev _ woken] r by (metis fst_conv)
  have "does env db (fst (advance_all env rs db2))" for rs using does_trans [OF two does_advance_all [OF does_sound [OF two ok]]] .
  then have "does env db db3" if "advance_all env rs db2 = (db3, x)" for rs db3 x by (metis that fst_conv)
  then show ?thesis using Inr p r two by (auto simp: deliver_event_def split: sum.split prod.split)
qed (simp add: deliver_event_def)

section \<open>Histories\<close>

text \<open>
  The engine at work: its operations, one step of \<open>advance\<close> (after which the process may die), agent runs proceeding on their own,
  and the process dying inside the handler of an action (after the intent was recorded, after any attempt to perform the action, after
  the success was recorded, after the lookup of an interrupted call) or of an agent node (after the intent, after the agent run was created).
\<close>

definition handling :: "engine_env \<Rightarrow> wf_db \<Rightarrow> flow_row \<Rightarrow> workflow \<Rightarrow> wf_node \<Rightarrow> step_row \<Rightarrow> bool" where
  "handling env db f flow node s \<longleftrightarrow> get_flow db (fr_id f) = Inr f \<and> fr_status f \<notin> set TERMINAL_RUN \<and>
     (\<exists>d. load_flow env db (fr_workflow f) = Inr (flow, d)) \<and> s \<in> set (active_steps db (fr_id f)) \<and> find_node flow (st_node s) = Some node"

inductive engine_op :: "engine_env \<Rightarrow> wf_db \<Rightarrow> wf_db \<Rightarrow> bool" for env :: engine_env where
  op_save: "save_version uuid db ws flow who = Inr (r, db') \<Longrightarrow> engine_op env db db'"
| op_start: "start_flow env uuid db i trigger given key who = Inr (r, db') \<Longrightarrow> engine_op env db db'"
| op_deliver: "engine_op env db (fst (deliver_event env uuids db ev))"
| op_decide: "engine_op env db (fst (decide_flow env db r node answer who))"
| op_cancel: "engine_op env db (fst (cancel_flow db r who))"
| op_resolve: "engine_op env db (fst (resolve_step env db r node answer who))"
| op_tick: "engine_op env db (fst (tick env db))"
| op_advance: "engine_op env db (fst (advance env db r))"
| op_step: "handling env db f flow node s \<Longrightarrow> engine_op env db (fst (flow_step env db f flow s))"
| op_agents: "engine_op env db (db\<lparr>wf_children := cs\<rparr>)"
| crash_agent: "handling env db f flow node s \<Longrightarrow> nd_type node = AGENT \<Longrightarrow>
    db' = set_step s (\<lambda>x. x\<lparr>st_status := S_RUNNING\<rparr>) db \<or> db' = add_child c (''workflow:'' @ st_key s) (set_step s (\<lambda>x. x\<lparr>st_status := S_RUNNING\<rparr>) db) \<Longrightarrow>
    engine_op env db db'"
| crash_action: "handling env db f flow node s \<Longrightarrow> nd_type node = ACTION \<Longrightarrow> map_of (nd_config node) ''action'' = Some v \<Longrightarrow>
    plan_action env db f flow node s (py_str (we_show env) v) = Due info params who db1 \<Longrightarrow>
    call_action env f node s (py_str (we_show env) v) info params who db1 = (out, db2) \<Longrightarrow>
    db' = db1 \<or> db' = db2 \<or> (\<exists>x. out = Returned x \<and> db' = succeed (fr_id f) s (Some x) (nd_id node) db2) \<Longrightarrow> engine_op env db db'"
| crash_calling: "handling env db f flow node s \<Longrightarrow> nd_type node = ACTION \<Longrightarrow> map_of (nd_config node) ''action'' = Some v \<Longrightarrow>
    plan_action env db f flow node s (py_str (we_show env) v) = Due info params who db1 \<Longrightarrow>
    run_with_retry (call_env env info) (we_perform env (fr_workspace f) (py_str (we_show env) v) params (st_key s) who) = (out, n, trace) \<Longrightarrow>
    1 \<le> k \<Longrightarrow> k \<le> n \<Longrightarrow> engine_op env db (note_call f node s (py_str (we_show env) v) params who k db1)"
| crash_reconciled: "handling env db f flow node s \<Longrightarrow> nd_type node = ACTION \<Longrightarrow> st_status s = S_RUNNING \<Longrightarrow>
    map_of (nd_config node) ''action'' = Some v \<Longrightarrow> name = py_str (we_show env) v \<Longrightarrow> map_of (we_actions env) name = Some info \<Longrightarrow>
    chain_for env f = Inr chain \<Longrightarrow> who = approver db (fr_id f) flow (nd_id node) \<Longrightarrow> \<not> refused_by env chain name info who \<Longrightarrow>
    db1 = contacted f node s name who [Lookup] db \<Longrightarrow>
    db' = db1 \<or> (\<exists>x. we_existing env (fr_workspace f) name (st_key s) = Returned (Some x) \<and> db' = succeed (fr_id f) s (Some x) (nd_id node) db1) \<Longrightarrow>
    engine_op env db db'"

lemma handling_at:
  assumes "handling env db f flow node s" "sound env db"
  shows "at_step env db f flow node s" "st_status s \<in> set ACTIVE_STEP"
  using assms load_flow_of [of db "fr_id f" f env flow] active_steps_ok(2) [of s db "fr_id f"] by (auto simp: handling_def at_step_def)

lemma does_op: "engine_op env db db' \<Longrightarrow> sound env db \<Longrightarrow> does env db db'"
proof (induction rule: engine_op.induct)
  case (op_step db f flow node s)
  then show ?case using does_flow_step handling_at by blast
next
  case (crash_agent db f flow node s db' c)
  have one: "does env db (set_step s (\<lambda>x. x\<lparr>st_status := S_RUNNING\<rparr>) db)" by (intro extends) simp
  then have "does env db (add_child c (''workflow:'' @ st_key s) (set_step s (\<lambda>x. x\<lparr>st_status := S_RUNNING\<rparr>) db))"
    unfolding add_child_def by (rule extend(4))
  then show ?case using one crash_agent by blast
next
  case (crash_action db f flow node s v info params who db1 out db2 db')
  note at = handling_at [OF crash_action.hyps(1) crash_action.prems]
  note d = plan_due [OF crash_action.hyps(4)]
  have "does env db db1" using d(5) does_look [OF d(1,3)] by (auto intro!: extends)
  moreover have "does env db db2" using does_call [OF at(1) crash_action.hyps(2) at(2) crash_action.hyps(3) refl crash_action.hyps(4)] crash_action.hyps(5)
    by simp
  ultimately show ?case using crash_action.hyps(6) does_trans [OF _ does_succeed] by blast
next
  case (crash_calling db f flow node s v info params who db1 out n trace k)
  have "k \<le> max_attempts DEFAULT_POLICY" using call_attempts [OF crash_calling.hyps(5)] crash_calling.hyps(7) by simp
  with handling_at [OF crash_calling.hyps(1) crash_calling.prems] crash_calling.hyps(2-4) show ?case by (intro does_note_call) auto
next
  case (crash_reconciled db f flow node s v name info chain who db1 db')
  have "does env db db1" unfolding crash_reconciled.hyps(10) using crash_reconciled.hyps by (intro does_look) blast+
  then show ?case using crash_reconciled.hyps(11) does_trans [OF _ does_succeed] by blast
qed (simp_all add: does_save does_start does_deliver does_decide does_cancel does_resolve does_tick does_advance does_agents does_succeed)

text \<open>A history starts with empty tables and is served by engines that agree on the text of values, the actions and the approval setting.\<close>

definition empty_db :: wf_db where
  "empty_db = \<lparr>wf_defs = [], wf_runs = [], wf_steps = [], wf_events = [], wf_children = [], wf_calls = [], wf_contacts = [], wf_cancels = []\<rparr>"

inductive history :: "(pyval \<Rightarrow> string) \<Rightarrow> action_info dict \<Rightarrow> bool \<Rightarrow> wf_db \<Rightarrow> bool"
  for show_val :: "pyval \<Rightarrow> string" and acts :: "action_info dict" and unapproved :: bool where
  empty: "history show_val acts unapproved empty_db"
| step: "history show_val acts unapproved db \<Longrightarrow> engine_op env db db' \<Longrightarrow> we_show env = show_val \<Longrightarrow> we_actions env = acts \<Longrightarrow>
    we_unapproved env = unapproved \<Longrightarrow> history show_val acts unapproved db'"

lemma history_ok: "history show_val acts unapproved db \<Longrightarrow> engine_ok show_val acts unapproved db"
proof (induction rule: history.induct)
  case empty
  show ?case by (simp add: engine_ok_def empty_db_def ids_ok_def step_places_def triggers_unique_def once_only_def flow_of_def)
next
  case (step db env db')
  then show ?case using does_sound [OF does_op [OF step.hyps(2)]] by blast
qed

section \<open>What the engine guarantees\<close>

text \<open>
  C27: The gate. In every history, whenever the connectors were asked to perform an action whose effect leaves the sandbox (a
  repository, external or host write, a destructive or an unknown effect), the engine not being set up to write without approval,
  a person had approved the run at an approval node upstream of the action, and the call was made on behalf of that person.
\<close>

theorem writes_are_approved:
  assumes "history show_val acts False db" and "c \<in> set (wf_calls db)" and "map_of acts (pf_name c) = Some info" and "ai_effect info \<in> REQUIRES_APPROVAL_EFFECTS"
  shows "\<exists>flow a who. flow_of show_val db (pf_run c) = Some flow \<and> a \<in> set (ancestors flow (pf_node c)) \<and> is_approval flow a \<and>
           pf_approver c = Some who \<and> \<lparr>fe_run = pf_run c, fe_type = ''approval_decided'', fe_node = Some a, fe_actor = who, fe_answer = Some ''approve''\<rparr> \<in> set (wf_events db)"
proof -
  have "justified show_val acts False db c" using history_ok [OF assms(1)] assms(2) by (simp add: engine_ok_def)
  then obtain flow a e where j: "flow_of show_val db (pf_run c) = Some flow" "a \<in> set (ancestors flow (pf_node c))" "is_approval flow a" "e \<in> set (wf_events db)"
      "fe_run e = pf_run c" "fe_type e = ''approval_decided''" "fe_node e = Some a" "fe_answer e = Some ''approve''" "pf_approver c = Some (fe_actor e)"
    using assms(3,4) by (auto simp: justified_def approved_in_def)
  then have "e = \<lparr>fe_run = pf_run c, fe_type = ''approval_decided'', fe_node = Some a, fe_actor = fe_actor e, fe_answer = Some ''approve''\<rparr>" by simp
  with j(4) have "\<lparr>fe_run = pf_run c, fe_type = ''approval_decided'', fe_node = Some a, fe_actor = fe_actor e, fe_answer = Some ''approve''\<rparr> \<in> set (wf_events db)"
    by simp
  with j(1-3,9) show ?thesis by blast
qed

text \<open>
  C29: Loops are bounded and idempotency keys are never shared. In every history, two steps of a run never have the same node and
  visit, and the visits of a node number from one to at most the \<open>max_visits\<close> of its definition.
\<close>

theorem visits_are_bounded:
  assumes "history show_val acts unapproved db"
  shows "distinct (map (\<lambda>s. (st_run s, st_node s, st_visit s)) (wf_steps db)) \<and>
    (\<forall>s \<in> set (wf_steps db). \<exists>flow n. flow_of show_val db (st_run s) = Some flow \<and> find_node flow (st_node s) = Some n \<and>
      1 \<le> st_visit s \<and> st_visit s \<le> max_visits n \<and> max_visits n \<le> MAX_VISITS_LIMIT)"
proof -
  have "\<exists>flow n. flow_of show_val db (st_run s) = Some flow \<and> find_node flow (st_node s) = Some n \<and>
      1 \<le> st_visit s \<and> st_visit s \<le> max_visits n \<and> max_visits n \<le> MAX_VISITS_LIMIT" if "s \<in> set (wf_steps db)" for s
  proof -
    have "step_ok show_val db s" using history_ok [OF assms] that by (simp add: engine_ok_def)
    then obtain flow n where n: "flow_of show_val db (st_run s) = Some flow" "find_node flow (st_node s) = Some n" "1 \<le> st_visit s" "st_visit s \<le> max_visits n"
      by (auto simp: step_ok_def node_of_def bind_eq_Some_conv)
    with parsed_visits [OF n(1,2)] show ?thesis by blast
  qed
  moreover have "distinct (step_places db)" using history_ok [OF assms] by (simp add: engine_ok_def)
  ultimately show ?thesis unfolding step_places_def by blast
qed

text \<open>
  C30: One external event never starts the same workflow twice: in every history there is at most one run of a workflow with a given
  trigger key.
\<close>

theorem event_starts_workflow_once:
  assumes "history show_val acts unapproved db"
  shows "length (filter (\<lambda>f. fr_workflow f = i \<and> fr_trigger_key f = Some key) (wf_runs db)) \<le> 1"
proof -
  have u: "triggers_unique db" using history_ok [OF assms] by (simp add: engine_ok_def)
  let ?fs = "filter (\<lambda>f. fr_workflow f = i \<and> fr_trigger_key f = Some key) (wf_runs db)"
  have "distinct ?fs" using u by (auto simp: triggers_unique_def distinct_map)
  moreover have "f = g" if "f \<in> set ?fs" "g \<in> set ?fs" for f g
  proof -
    from that have "f \<in> set (wf_runs db)" "g \<in> set (wf_runs db)" "fr_workflow f = fr_workflow g" "fr_trigger_key f = fr_trigger_key g" "fr_trigger_key f \<noteq> None"
      by auto
    with u show ?thesis unfolding triggers_unique_def by blast
  qed
  then have "card (set ?fs) \<le> 1" by (simp only: One_nat_def card_le_Suc0_iff_eq [OF finite_set]) blast
  ultimately show ?thesis using distinct_card [of ?fs] by simp
qed

text \<open>The requests to perform an action, against the calls they belong to.\<close>

definition performs_here :: "wf_db \<Rightarrow> string \<Rightarrow> string \<Rightarrow> nat" where
  "performs_here db r node = length (filter (\<lambda>k. ct_run k = r \<and> ct_node k = node \<and> ct_request k \<noteq> Lookup) (wf_contacts db))"

definition attempts_ok :: "wf_db \<Rightarrow> bool" where
  "attempts_ok db \<longleftrightarrow> (\<forall>r node. performs_here db r node \<le> max_attempts DEFAULT_POLICY * calls_here db r node)"

lemma attempts_move: "move show_val acts unapproved may db db' \<Longrightarrow> attempts_ok db \<Longrightarrow> attempts_ok db'"
proof (induction rule: move.induct)
  case (add_step db r flow node n visit env db')
  from add_step(5,6) show ?case by (elim new_step_cases) (simp add: attempts_ok_def performs_here_def calls_here_def)
next
  case (call s db c ks)
  have new: "filter (\<lambda>k. ct_run k = r \<and> ct_node k = node \<and> ct_request k \<noteq> Lookup) ks = []" if "\<not> (st_run s = r \<and> st_node s = node)" for r node
    using call.hyps(7) that by (auto simp: list_all_iff filter_empty_conv)
  have "length (filter (\<lambda>k. ct_run k = r \<and> ct_node k = node \<and> ct_request k \<noteq> Lookup) ks) \<le> max_attempts DEFAULT_POLICY" for r node
    using length_filter_le call.hyps(8) by (rule le_trans)
  then show ?case using call.prems call.hyps(3,4) new
    by (auto simp: attempts_ok_def performs_here_def calls_here_def) (subst add.commute, rule add_le_mono, simp_all)
qed (simp_all add: attempts_ok_def performs_here_def calls_here_def)

interpretation attempts: state_machine "move show_val acts unapproved may" attempts_ok for show_val acts unapproved may
  by unfold_locales (rule attempts_move)

lemma history_attempts: "history show_val acts unapproved db \<Longrightarrow> attempts_ok db"
proof (induction rule: history.induct)
  case empty
  show ?case by (simp add: attempts_ok_def performs_here_def empty_db_def)
next
  case (step db env db')
  then show ?case using attempts.ok_steps does_op [OF step.hyps(2)] history_ok by blast
qed


section \<open>A run from beginning to end\<close>

text \<open>A manual workflow with one approval before a webhook, served by an engine whose connectors always answer.\<close>

definition webhook_flow :: workflow where
  "webhook_flow = \<lparr>wf_name = ''w'', wf_trigger = \<lparr>tr_type = ''manual'', tr_filter = []\<rparr>,
     wf_nodes = [\<lparr>nd_id = ''ask'', nd_type = APPROVAL, nd_config = [], max_visits = 1\<rparr>,
                 \<lparr>nd_id = ''post'', nd_type = ACTION, nd_config = [(''action'', VStr ''webhook.post'')], max_visits = 1\<rparr>],
     wf_edges = [\<lparr>ed_source = ''ask'', ed_target = ''post'', ed_when = None\<rparr>],
     wf_variables = [], wf_description = [], wf_schema = 1, wf_layout = []\<rparr>"

definition demo_engine :: "engine_env" where
  "demo_engine = \<lparr>we_show = (\<lambda>_. []), we_clock = 0, we_actions = ACTIONS, we_unapproved = False, we_policies = [], we_loads = (\<lambda>_. None),
     we_policy_text = (\<lambda>_. []), we_egress_text = (\<lambda>_. []), we_org = (\<lambda>_. None), we_hostname = (\<lambda>h. h),
     we_perform = (\<lambda>_ _ _ _ _ _. Returned (VDict [])), we_existing = (\<lambda>_ _ _. Returned None),
     we_retry = \<lparr>re_parse_float = (\<lambda>_. None), re_show_status = (\<lambda>_. []), re_uniform = (\<lambda>_ x. x), re_policy = DEFAULT_POLICY,
        re_origin = O_CONNECTOR, re_idempotent = False, re_uncertain = (\<lambda>_. False), re_left = (\<lambda>_. None), re_between = (\<lambda>_. None)\<rparr>,
     we_create = (\<lambda>_. None), we_overrides = (\<lambda>_. None)\<rparr>"

definition saved_db :: wf_db where
  "saved_db = (case save_version ''wf1'' empty_db ''ws'' webhook_flow None of Inr (_, db) \<Rightarrow> db | Inl _ \<Rightarrow> empty_db)"

definition started_db :: wf_db where
  "started_db = (case start_flow demo_engine ''run1'' saved_db ''wf1'' [] [] (Some ''github:7'') ''ann'' of Inr (_, db) \<Rightarrow> db | Inl _ \<Rightarrow> saved_db)"

definition asked_db :: wf_db where
  "asked_db = fst (advance demo_engine started_db ''run1'')"

definition posted_db :: wf_db where
  "posted_db = fst (decide_flow demo_engine asked_db ''run1'' ''ask'' ''approve'' ''bob'')"

lemma demo_save: "save_version ''wf1'' empty_db ''ws'' webhook_flow None = Inr ((''wf1'', 1), saved_db)"
  by code_simp

lemma demo_start: "start_flow demo_engine ''run1'' saved_db ''wf1'' [] [] (Some ''github:7'') ''ann'' = Inr (Some ''run1'', started_db)"
  by code_simp

lemma history_step:
  "history (we_show env) (we_actions env) (we_unapproved env) db \<Longrightarrow> engine_op env db db' \<Longrightarrow> history (we_show env) (we_actions env) (we_unapproved env) db'"
  by (rule history.step) simp_all

lemma demo_setup: "we_show demo_engine = (\<lambda>_. [])" "we_actions demo_engine = ACTIONS" "we_unapproved demo_engine = False"
  by (simp_all add: demo_engine_def)

lemma asked_history: "history (\<lambda>_. []) ACTIONS False asked_db"
proof -
  have "history (\<lambda>_. []) ACTIONS False saved_db"
    using history_step [OF history.empty op_save [where env = demo_engine]] demo_save unfolding demo_setup by blast
  then have "history (\<lambda>_. []) ACTIONS False started_db"
    using history_step [OF _ op_start [where env = demo_engine], of saved_db] demo_start unfolding demo_setup by blast
  then show ?thesis using history_step [OF _ op_advance [where env = demo_engine], of started_db] unfolding demo_setup asked_db_def by blast
qed

lemma posted_history: "history (\<lambda>_. []) ACTIONS False posted_db"
  using history_step [OF _ op_decide [where env = demo_engine], of asked_db] asked_history unfolding demo_setup posted_db_def by blast

theorem writes_are_approved_witness:
  "\<exists>flow a. flow_of (\<lambda>_. []) posted_db ''run1'' = Some flow \<and> a \<in> set (ancestors flow ''post'') \<and> is_approval flow a \<and>
     \<lparr>fe_run = ''run1'', fe_type = ''approval_decided'', fe_node = Some a, fe_actor = ''bob'', fe_answer = Some ''approve''\<rparr> \<in> set (wf_events posted_db)"
proof -
  let ?c = "\<lparr>pf_step = 2, pf_run = ''run1'', pf_node = ''post'', pf_name = ''webhook.post'', pf_params = VDict [], pf_key = ''run1:post:'',
      pf_approver = Some ''bob'', pf_attempts = 1\<rparr>"
  have "wf_calls posted_db = [?c]" by code_simp
  then show ?thesis
    using writes_are_approved [OF posted_history, of ?c] by (fastforce simp: ACTIONS_def REQUIRES_APPROVAL_EFFECTS_def)
qed

theorem visits_are_bounded_witness:
  "distinct (map (\<lambda>s. (st_run s, st_node s, st_visit s)) (wf_steps posted_db)) \<and> length (wf_steps posted_db) = 2 \<and>
   (\<exists>flow n. flow_of (\<lambda>_. []) posted_db (st_run (hd (wf_steps posted_db))) = Some flow \<and>
      find_node flow (st_node (hd (wf_steps posted_db))) = Some n \<and> st_visit (hd (wf_steps posted_db)) \<le> max_visits n)"
proof -
  have len: "length (wf_steps posted_db) = 2" by code_simp
  then have "hd (wf_steps posted_db) \<in> set (wf_steps posted_db)" by (cases "wf_steps posted_db") auto
  then show ?thesis using len visits_are_bounded [OF posted_history] by blast
qed

theorem event_starts_workflow_once_witness:
  "length (filter (\<lambda>f. fr_workflow f = ''wf1'' \<and> fr_trigger_key f = Some ''github:7'') (wf_runs posted_db)) \<le> 1 \<and> length (wf_runs posted_db) = 1"
proof -
  have "length (wf_runs posted_db) = 1" by code_simp
  then show ?thesis using event_starts_workflow_once [OF posted_history] by blast
qed


section \<open>Where the engine falls short\<close>

text \<open>
  The approved run, interrupted while the webhook was being called: on recovery the step is \<open>uncertain\<close> and the run waits for
  a person. When that person says that it failed, the step is failed but the run is completed, without the failure of the run or the
  \<open>on_failure\<close> edge that every other failed step leads to.
\<close>

definition interrupted_db :: wf_db where
  "interrupted_db = fst (decide_flow (demo_engine\<lparr>we_perform := (\<lambda>_ _ _ _ _ _. Cancelled)\<rparr>) asked_db ''run1'' ''ask'' ''approve'' ''bob'')"

definition uncertain_db :: wf_db where
  "uncertain_db = fst (advance demo_engine interrupted_db ''run1'')"

theorem failed_resolution_completes_run:
  "map st_status (wf_steps uncertain_db) = [S_SUCCEEDED, S_UNCERTAIN] \<and> map fr_status (wf_runs uncertain_db) = [W_WAITING] \<and>
   (let db = fst (resolve_step demo_engine uncertain_db ''run1'' ''post'' ''failed'' ''bob'') in
      map st_status (wf_steps db) = [S_SUCCEEDED, S_FAILED] \<and> map fr_status (wf_runs db) = [W_COMPLETED])"
  by code_simp

text \<open>
  \<open>webhook.post\<close> is declared not idempotent, but the engine leaves \<open>side_effect_uncertain\<close> at its default, so a call that timed
  out, and may have taken effect, is repeated at once.
\<close>

theorem timed_out_webhook_is_repeated:
  "map ct_request (wf_contacts (fst (decide_flow (demo_engine\<lparr>we_perform := (\<lambda>_ _ _ _ _ n. if n = 1 then Raised (TimeoutException []) else Returned (VDict []))\<rparr>)
     asked_db ''run1'' ''ask'' ''approve'' ''bob''))) = [Perform 1, Perform 2]"
  by code_simp

text \<open>
  The success of an action and the start of its successors are two transactions. When the process dies between them, the engine finds
  nothing left to do and completes the run although the successor never ran.
\<close>

definition two_steps :: workflow where
  "two_steps = \<lparr>wf_name = ''w'', wf_trigger = \<lparr>tr_type = ''manual'', tr_filter = []\<rparr>,
     wf_nodes = [\<lparr>nd_id = ''first'', nd_type = ACTION, nd_config = [(''action'', VStr ''notify.log'')], max_visits = 1\<rparr>,
                 \<lparr>nd_id = ''second'', nd_type = ACTION, nd_config = [(''action'', VStr ''notify.log'')], max_visits = 1\<rparr>],
     wf_edges = [\<lparr>ed_source = ''first'', ed_target = ''second'', ed_when = None\<rparr>],
     wf_variables = [], wf_description = [], wf_schema = 1, wf_layout = []\<rparr>"

definition two_started :: wf_db where
  "two_started = (case start_flow demo_engine ''run1'' (case save_version ''wf1'' empty_db ''ws'' two_steps None of Inr (_, db) \<Rightarrow> db | Inl _ \<Rightarrow> empty_db)
     ''wf1'' [] [] None ''ann'' of Inr (_, db) \<Rightarrow> db | Inl _ \<Rightarrow> empty_db)"

definition first_recorded :: wf_db where
  "first_recorded = (let f = hd (wf_runs two_started); s = hd (wf_steps two_started); node = hd (wf_nodes two_steps) in
     case plan_action demo_engine two_started f two_steps node s ''notify.log'' of
       Due info params who db1 \<Rightarrow> succeed ''run1'' s (Some (VDict [])) ''first'' (snd (call_action demo_engine f node s ''notify.log'' info params who db1))
     | Settled h \<Rightarrow> fst h)"

theorem crash_after_success_loses_successor:
  "map st_node (wf_steps (fst (advance demo_engine two_started ''run1''))) = [''first'', ''second''] \<and>
   map st_node (wf_steps (fst (advance demo_engine first_recorded ''run1''))) = [''first''] \<and>
   map fr_status (wf_runs (fst (advance demo_engine first_recorded ''run1''))) = [W_COMPLETED]"
  by code_simp

section \<open>Policy\<close>

lemma contacts_move: "move show_val acts unapproved may db db' \<Longrightarrow> \<exists>ks. wf_contacts db' = wf_contacts db @ ks \<and> (\<forall>k \<in> set ks. may k)"
proof (induction rule: move.induct)
  case (add_step db r flow node n visit env db')
  from add_step(5) show ?case by (elim new_step_cases) simp
next
  case (call s db c ks)
  then show ?case by (auto simp: list_all_iff)
qed simp_all

lemma contacts_moves: "moves show_val acts unapproved may db db' \<Longrightarrow> \<exists>ks. wf_contacts db' = wf_contacts db @ ks \<and> (\<forall>k \<in> set ks. may k)"
proof (induction rule: rtranclp_induct)
  case (step db1 db2)
  then show ?case using contacts_move [OF step.hyps(2)] by force
qed simp

lemma permitted_policies:
  assumes "permitted env k"
  shows "\<exists>f chain info. fr_workspace f = ct_workspace k \<and> fr_workflow f = ct_workflow k \<and> chain_for env f = Inr chain \<and>
       map_of (we_actions env) (ct_name k) = Some info \<and>
       pd_result (evaluate_policy chain (''action.'' @ ct_name k) (Some (ai_effect info))) \<noteq> DENY \<and> boundary_allows env chain (ct_name k) info \<and>
       (approval_required (evaluate_policy chain (''action.'' @ ct_name k) (Some (ai_effect info))) \<or> ai_effect info \<in> REQUIRES_APPROVAL_EFFECTS \<longrightarrow>
          ct_approver k \<noteq> None \<or> we_unapproved env)"
  using assms unfolding permitted_def refused_by_def Let_def by blast

text \<open>
  C31: Policy decides before anything leaves. Take any operation of the engine in any history: starting, advancing, ticking, deciding,
  delivering an event, resolving, recovering after a crash, or dying at any point of a handler. Every request it made to a
  connector, a lookup of an earlier result as much as an attempt to perform the action, was for a known action, under policies that
  were read for the workspace and the workflow of its run and that do not deny the action; where data is sent or a
  host is contacted the boundary rules allow it; and where the policies or the effect ask for an approval, somebody had
  given one, unless the engine is set up to write without.
\<close>

theorem contacts_are_permitted:
  assumes "history (we_show env) (we_actions env) (we_unapproved env) db" and "engine_op env db db'"
  shows "\<exists>ks. wf_contacts db' = wf_contacts db @ ks \<and>
    (\<forall>k \<in> set ks. \<exists>f chain info.
       fr_workspace f = ct_workspace k \<and> fr_workflow f = ct_workflow k \<and> chain_for env f = Inr chain \<and>
       map_of (we_actions env) (ct_name k) = Some info \<and>
       pd_result (evaluate_policy chain (''action.'' @ ct_name k) (Some (ai_effect info))) \<noteq> DENY \<and> boundary_allows env chain (ct_name k) info \<and>
       (approval_required (evaluate_policy chain (''action.'' @ ct_name k) (Some (ai_effect info))) \<or> ai_effect info \<in> REQUIRES_APPROVAL_EFFECTS \<longrightarrow>
          ct_approver k \<noteq> None \<or> we_unapproved env))"
  using contacts_moves [OF does_op [OF assms(2) history_ok [OF assms(1)]]] permitted_policies [of env] by meson

theorem contacts_are_permitted_witness:
  "\<exists>k chain info. wf_contacts posted_db = [k] \<and> ct_name k = ''webhook.post'' \<and> chain_for demo_engine (hd (wf_runs posted_db)) = Inr chain \<and>
     map_of (we_actions demo_engine) (ct_name k) = Some info \<and> pd_result (evaluate_policy chain (''action.'' @ ct_name k) (Some (ai_effect info))) \<noteq> DENY \<and>
     boundary_allows demo_engine chain (ct_name k) info \<and> ct_approver k \<noteq> None"
proof -
  have now: "map ct_name (wf_contacts posted_db) = [''webhook.post'']" "map ct_workspace (wf_contacts posted_db) = [fr_workspace (hd (wf_runs posted_db))]"
      "map ct_workflow (wf_contacts posted_db) = [fr_workflow (hd (wf_runs posted_db))]" "wf_contacts asked_db = []" "\<not> we_unapproved demo_engine"
    by code_simp+
  have effect: "map_option ai_effect (map_of (we_actions demo_engine) ''webhook.post'') = Some EXTERNAL_WRITE" by code_simp
  obtain k where k: "wf_contacts posted_db = [k]" "ct_name k = ''webhook.post''" "ct_workspace k = fr_workspace (hd (wf_runs posted_db))"
      "ct_workflow k = fr_workflow (hd (wf_runs posted_db))"
    using now(1-3) by (cases "wf_contacts posted_db") auto
  have "engine_op demo_engine asked_db posted_db" unfolding posted_db_def by (rule op_decide)
  then obtain f chain info where f: "fr_workspace f = ct_workspace k" "fr_workflow f = ct_workflow k" "chain_for demo_engine f = Inr chain"
      "map_of (we_actions demo_engine) (ct_name k) = Some info" "boundary_allows demo_engine chain (ct_name k) info"
      "pd_result (evaluate_policy chain (''action.'' @ ct_name k) (Some (ai_effect info))) \<noteq> DENY"
      "ai_effect info \<in> REQUIRES_APPROVAL_EFFECTS \<longrightarrow> ct_approver k \<noteq> None \<or> we_unapproved demo_engine"
    using contacts_are_permitted [of demo_engine asked_db posted_db] asked_history k(1) now(4) unfolding demo_setup by auto
  moreover have "chain_for demo_engine (hd (wf_runs posted_db)) = chain_for demo_engine f" using f(1,2) k(3,4) by (simp add: chain_for_def)
  moreover have "ct_approver k \<noteq> None" using f(4,7) effect k(2) now(5) by (auto simp: REQUIRES_APPROVAL_EFFECTS_def)
  ultimately show ?thesis using k(1,2) by metis
qed

end
