(* ===== verification/Resume.thy ===== *)
theory Resume
  imports Checkpoints Workspace Queue
begin

text \<open>
  Continuing an interrupted run (\<open>runtime/resume.py\<close>) and the comparison of the repository with what a checkpoint recorded
  (\<open>runtime/fingerprint.py\<close>).

  The repository, its links and its hash are those of the patch engine; its files are taken to be readable. What \<open>git\<close> prints is a parameter.
  The texts that only explain a plan (reasons, the recovery action) are left out. A malformed journal or checkpoint makes the
  source raise; the model then has no plan.

  The lemmas show when a run is declared safe to continue, what the journal and the hashes say about an interrupted promotion, and
  which files undoing it touches.
\<close>

section \<open>Fingerprints and drift\<close>

datatype drift = NO_DRIFT | SAFE_DRIFT | CONFLICTING_DRIFT | UNKNOWN_DRIFT

record repo_fingerprint =
  rf_head :: pyval
  rf_branch :: pyval
  rf_status_hash :: pyval
  rf_is_git :: bool
  rf_files :: "pyval dict"
  rf_errors :: "pyval list"

record drift_report =
  dr_kind :: drift
  dr_conflicting :: "string list"
  dr_stale :: "string list"

definition fingerprint_dict :: "repo_fingerprint \<Rightarrow> pyval" where
  "fingerprint_dict f = VDict [(''head'', rf_head f), (''branch'', rf_branch f), (''status_hash'', rf_status_hash f),
     (''is_git'', VBool (rf_is_git f)), (''files'', VDict (rf_files f)), (''errors'', VList (rf_errors f))]"

definition fingerprint_of :: "pyval \<Rightarrow> repo_fingerprint option" where
  "fingerprint_of v =
     (case as_dict v of None \<Rightarrow> None
      | Some raw \<Rightarrow>
         (case (as_dict (or_val (dget raw ''files'' VNone) (VDict [])), py_iter (or_val (dget raw ''errors'' VNone) (VList []))) of
            (Some files, Some errors) \<Rightarrow> Some \<lparr>rf_head = dget raw ''head'' VNone, rf_branch = dget raw ''branch'' VNone,
              rf_status_hash = dget raw ''status_hash'' VNone, rf_is_git = truthy (dget raw ''is_git'' VNone), rf_files = files, rf_errors = errors\<rparr>
          | _ \<Rightarrow> None))"

definition file_sha :: "patch_env \<Rightarrow> filesys \<Rightarrow> string \<Rightarrow> string option" where
  "file_sha env fs rel =
     (case resolve_in_repo (pe_follow env) (pe_forbidden env) (pe_repo env) rel False of
        Inl e \<Rightarrow> None | Inr p \<Rightarrow> map_option (pe_sha256 env) (file_at fs p))"

definition opt_str :: "string option \<Rightarrow> pyval" where
  "opt_str x = (case x of None \<Rightarrow> VNone | Some s \<Rightarrow> VStr s)"

definition compute_fingerprint :: "(string list \<Rightarrow> string option) \<Rightarrow> patch_env \<Rightarrow> filesys \<Rightarrow> string list \<Rightarrow> repo_fingerprint" where
  "compute_fingerprint git env fs watch =
     (let files = map (\<lambda>rel. (rel, opt_str (file_sha env fs rel))) (sort (remdups watch)) in
      case git [''rev-parse'', ''HEAD''] of
        None \<Rightarrow> \<lparr>rf_head = VNone, rf_branch = VNone, rf_status_hash = VNone, rf_is_git = False, rf_files = files, rf_errors = []\<rparr>
      | Some head \<Rightarrow>
         (let branch = (case git [''rev-parse'', ''--abbrev-ref'', ''HEAD''] of Some b \<Rightarrow> str_strip b | None \<Rightarrow> []);
              status = git [''status'', ''--porcelain=v1'', ''-z'', ''--untracked-files=normal''] in
          \<lparr>rf_head = VStr (str_strip head), rf_branch = (if branch = [] then VNone else VStr branch),
           rf_status_hash = opt_str (map_option (pe_sha256 env) status), rf_is_git = True, rf_files = files,
           rf_errors = (if status = None then [VStr ''git status failed''] else [])\<rparr>))"

definition changed_files :: "pyval dict \<Rightarrow> pyval dict \<Rightarrow> string list" where
  "changed_files old new =
     sort (filter (\<lambda>rel. has_key new rel \<and> \<not> py_eq (dget old rel VNone) (dget new rel VNone)) (remdups (map fst old)))"

definition classify_drift :: "repo_fingerprint \<Rightarrow> repo_fingerprint \<Rightarrow> string list \<Rightarrow> drift_report" where
  "classify_drift old new writes =
     (let changed = changed_files (rf_files old) (rf_files new);
          conflicting = filter (\<lambda>rel. rel \<in> set writes) changed;
          stale = filter (\<lambda>rel. rel \<notin> set writes) changed in
      if conflicting \<noteq> [] then \<lparr>dr_kind = CONFLICTING_DRIFT, dr_conflicting = conflicting, dr_stale = stale\<rparr>
      else if rf_errors old \<noteq> [] \<or> rf_errors new \<noteq> [] \<or> rf_is_git old \<noteq> rf_is_git new
      then \<lparr>dr_kind = UNKNOWN_DRIFT, dr_conflicting = [], dr_stale = stale\<rparr>
      else if \<not> rf_is_git old \<and> rf_files old = [] then \<lparr>dr_kind = UNKNOWN_DRIFT, dr_conflicting = [], dr_stale = []\<rparr>
      else if \<not> py_eq (rf_head old) (rf_head new) \<or> \<not> py_eq (rf_branch old) (rf_branch new) \<or> \<not> py_eq (rf_status_hash old) (rf_status_hash new)
        \<or> stale \<noteq> []
      then \<lparr>dr_kind = SAFE_DRIFT, dr_conflicting = [], dr_stale = stale\<rparr>
      else \<lparr>dr_kind = NO_DRIFT, dr_conflicting = [], dr_stale = []\<rparr>)"

section \<open>The plan\<close>

datatype recovery_category = SAFE_RESUME | SAFE_RETRY | ROLLBACK_REQUIRED | HUMAN_CONFIRMATION_REQUIRED | NON_RECOVERABLE

datatype promotion_state = PROMOTION_NONE | NOT_APPLIED | APPLIED | PARTIAL | PROMOTION_UNKNOWN

datatype side_effects = EFFECTS_NONE | EFFECTS_VERIFIED | EFFECTS_UNCERTAIN

record resume_plan =
  rp_status :: run_status
  rp_category :: recovery_category
  rp_checkpoint :: "(nat \<times> string \<times> int \<times> nat) option"
  rp_invalid :: "checkpoint_error list"
  rp_interrupted :: "string option"
  rp_drift :: "drift_report option"
  rp_promotion :: promotion_state
  rp_effects :: side_effects
  rp_next_phase :: "string option"
  rp_files :: "pyval dict"

definition needs_confirmation :: "resume_plan \<Rightarrow> bool" where
  "needs_confirmation p \<longleftrightarrow> rp_category p = HUMAN_CONFIRMATION_REQUIRED \<or> rp_category p = ROLLBACK_REQUIRED"

text \<open>What the run was doing: the phase, the command that was open and the approval it waited for.\<close>

record tail_state =
  ts_phase :: "string option"
  ts_command :: pyval
  ts_waiting :: "string option"

definition tail_step :: "tail_state \<Rightarrow> event_row \<Rightarrow> tail_state" where
  "tail_step t e =
     (if ev_type e = ''phase_started'' then \<lparr>ts_phase = ev_phase e, ts_command = VNone, ts_waiting = None\<rparr>
      else if ev_type e = ''command_started'' then t\<lparr>ts_command := dget (case ev_payload e of Some d \<Rightarrow> d | None \<Rightarrow> []) ''command'' VNone\<rparr>
      else if ev_type e \<in> {''command_executed'', ''command_denied'', ''command_blocked''} then t\<lparr>ts_command := VNone\<rparr>
      else if ev_type e = ''approval_requested'' then t\<lparr>ts_waiting := ev_message e\<rparr>
      else if ev_type e \<in> {''approval_expired'', ''permission_approved'', ''permission_rejected''} then t\<lparr>ts_waiting := None\<rparr>
      else t)"

definition tail_description :: "(pyval \<Rightarrow> string) \<Rightarrow> event_row list \<Rightarrow> string option" where
  "tail_description show_val tail =
     (let t = foldl tail_step \<lparr>ts_phase = None, ts_command = VNone, ts_waiting = None\<rparr> tail in
      case ts_phase t of None \<Rightarrow> None
      | Some phase \<Rightarrow> Some (''phase '' @ [CHR 0x27] @ phase @ [CHR 0x27] @
          (if truthy (ts_command t) then ''; command `'' @ py_str show_val (ts_command t) @ ''` was running''
           else (case ts_waiting t of Some w \<Rightarrow> if w = [] then [] else ''; waiting for approval: '' @ w | None \<Rightarrow> []))))"

text \<open>One file of the journal with its \<open>base\<close> and \<open>new\<close> hashes.\<close>

definition journal_entry :: "string \<times> pyval \<Rightarrow> (string \<times> pyval \<times> pyval) option" where
  "journal_entry e =
     (case as_dict (snd e) of None \<Rightarrow> None
      | Some h \<Rightarrow> (case (map_of h ''base'', map_of h ''new'') of (Some b, Some n) \<Rightarrow> Some (fst e, b, n) | _ \<Rightarrow> None))"

definition journal :: "pyval dict \<Rightarrow> (string \<times> pyval \<times> pyval) list option" where
  "journal files = those (map journal_entry files)"

definition promotion_files :: "event_row \<Rightarrow> pyval dict option" where
  "promotion_files e = as_dict (or_val (dget (case ev_payload e of Some d \<Rightarrow> d | None \<Rightarrow> []) ''files'' VNone) (VDict []))"

definition hash_state :: "(string \<Rightarrow> pyval) \<Rightarrow> (string \<times> pyval \<times> pyval) list \<Rightarrow> promotion_state" where
  "hash_state now es =
     (let at_base = filter (\<lambda>(rel, b, n). py_eq (now rel) b) es;
          at_new = filter (\<lambda>(rel, b, n). py_eq (now rel) n \<and> \<not> py_eq n b) es in
      if length at_base = length es then NOT_APPLIED
      else if length at_new = length es then APPLIED
      else if length at_base + length at_new = length es then PARTIAL
      else PROMOTION_UNKNOWN)"

definition promotion_of :: "patch_env \<Rightarrow> filesys \<Rightarrow> event_row list \<Rightarrow> (promotion_state \<times> pyval dict) option" where
  "promotion_of env fs events =
     (case find (\<lambda>e. ev_type e = ''promotion_started'') (rev events) of
        None \<Rightarrow> Some (PROMOTION_NONE, [])
      | Some started \<Rightarrow>
         (case promotion_files started of None \<Rightarrow> None
          | Some files \<Rightarrow>
             (let closed = filter (\<lambda>e. ev_id e > ev_id started \<and> ev_type e \<in> {''promotion_completed'', ''promotion_failed''}) events in
              if closed \<noteq> [] \<and> ev_type (last closed) = ''promotion_completed'' then Some (APPLIED, files)
              else (case journal files of None \<Rightarrow> None
                | Some es \<Rightarrow> Some (hash_state (\<lambda>rel. opt_str (file_sha env fs rel)) es, files)))))"

definition PHASE_ORDER :: "string list" where
  "PHASE_ORDER = [''intake'', ''repo_scan'', ''planning'', ''research'', ''context_building'', ''analysis'', ''patching'',
     ''static_checks'', ''testing'', ''review'', ''security_scan'', ''final_report'']"

definition state_dict :: "checkpoint \<Rightarrow> string \<Rightarrow> pyval dict option" where
  "state_dict cp key = (case as_dict (cp_state cp) of None \<Rightarrow> None | Some st \<Rightarrow> as_dict (or_val (dget st key VNone) (VDict [])))"

definition next_phase :: "checkpoint option \<Rightarrow> string option option" where
  "next_phase cp =
     (case cp of None \<Rightarrow> Some (Some (hd PHASE_ORDER))
      | Some c \<Rightarrow> (case state_dict c ''phase_statuses'' of None \<Rightarrow> None
          | Some st \<Rightarrow> Some (find (\<lambda>phase. dget st phase (VStr ''pending'') = VStr ''pending'') PHASE_ORDER)))"

definition new_hashes :: "pyval dict \<Rightarrow> pyval dict option" where
  "new_hashes files = those (map (\<lambda>(rel, h). case as_dict h of None \<Rightarrow> None | Some d \<Rightarrow> map_option (Pair rel) (map_of d ''new'')) files)"

definition assess_drift :: "(string list \<Rightarrow> string option) \<Rightarrow> patch_env \<Rightarrow> filesys \<Rightarrow> checkpoint \<Rightarrow> pyval dict \<Rightarrow> drift_report option" where
  "assess_drift git env fs cp applied =
     (case (fingerprint_of (cp_fingerprint cp), new_hashes applied, state_dict cp ''workspace'') of
        (Some recorded, Some new, Some workspace) \<Rightarrow>
          (let expected = recorded\<lparr>rf_files := foldl (\<lambda>d (k, v). AList.update k v d) (rf_files recorded) new\<rparr> in
           Some (classify_drift expected (compute_fingerprint git env fs (map fst (rf_files expected))) (map fst workspace)))
      | _ \<Rightarrow> None)"

text \<open>\<open>(cp.state.get("ctx") or {}).get("read_only") is True\<close>.\<close>

definition read_only_run :: "checkpoint \<Rightarrow> bool option" where
  "read_only_run cp = map_option (\<lambda>ctx. dget ctx ''read_only'' VNone = VBool True) (state_dict cp ''ctx'')"

definition plan_checkpoint :: "run_status \<Rightarrow> (recovery_category \<Rightarrow> side_effects \<Rightarrow> drift_report option \<Rightarrow> resume_plan) \<Rightarrow> side_effects
    \<Rightarrow> drift_report \<Rightarrow> bool \<Rightarrow> resume_plan" where
  "plan_checkpoint status plan effects drift read_only =
     (if dr_kind drift = UNKNOWN_DRIFT \<and> read_only then plan SAFE_RESUME effects (Some drift)
      else if dr_kind drift = CONFLICTING_DRIFT \<or> dr_kind drift = UNKNOWN_DRIFT then plan HUMAN_CONFIRMATION_REQUIRED effects (Some drift)
      else plan SAFE_RESUME effects (Some drift))"

definition bare_plan :: "run_status \<Rightarrow> recovery_category \<Rightarrow> resume_plan" where
  "bare_plan status category = \<lparr>rp_status = status, rp_category = category, rp_checkpoint = None, rp_invalid = [], rp_interrupted = None,
     rp_drift = None, rp_promotion = PROMOTION_NONE, rp_effects = EFFECTS_NONE, rp_next_phase = None, rp_files = []\<rparr>"

definition plan_with :: "(pyval \<Rightarrow> string) \<Rightarrow> run_status \<Rightarrow> event_row list \<Rightarrow> checkpoint option \<Rightarrow> checkpoint_error list \<Rightarrow> promotion_state \<Rightarrow> pyval dict
    \<Rightarrow> string option \<Rightarrow> recovery_category \<Rightarrow> side_effects \<Rightarrow> drift_report option \<Rightarrow> resume_plan" where
  "plan_with show_val status events cp problems promotion files phase category effects drift =
     \<lparr>rp_status = status, rp_category = category,
      rp_checkpoint = map_option (\<lambda>c. (cp_seq c, cp_phase c, cp_created_at c, cp_event_cursor c)) cp, rp_invalid = problems,
      rp_interrupted = tail_description show_val (filter (\<lambda>e. case cp of None \<Rightarrow> True | Some c \<Rightarrow> ev_id e > cp_event_cursor c) events),
      rp_drift = drift, rp_promotion = promotion, rp_effects = effects, rp_next_phase = phase, rp_files = files\<rparr>"

record resume_env =
  rs_show :: "pyval \<Rightarrow> string"
  rs_digest :: "check_head \<times> string \<times> string \<Rightarrow> string"
  rs_loads :: "string \<Rightarrow> pyval option"
  rs_git :: "string list \<Rightarrow> string option"
  rs_patch :: patch_env

text \<open>\<open>plan_resume\<close>, given the run and its events.\<close>

definition plan_run :: "resume_env \<Rightarrow> run_row \<Rightarrow> event_row list \<Rightarrow> checkpoint_row list \<Rightarrow> filesys \<Rightarrow> resume_plan option" where
  "plan_run env run events rows fs =
     (let status = run_status run in
      case latest_valid (rs_digest env) (rs_loads env) rows (run_id run) of (cp, problems) \<Rightarrow>
      if status \<noteq> INTERRUPTED then Some (bare_plan status NON_RECOVERABLE)
      else (case (promotion_of (rs_patch env) fs events, next_phase cp) of
         (Some (promotion, files), Some phase) \<Rightarrow>
           (let plan = plan_with (rs_show env) status events cp problems promotion files phase;
                effects = (if promotion = PROMOTION_NONE then EFFECTS_NONE else EFFECTS_VERIFIED) in
            if promotion = PARTIAL then Some (plan ROLLBACK_REQUIRED EFFECTS_UNCERTAIN None)
            else if promotion = PROMOTION_UNKNOWN then Some (plan HUMAN_CONFIRMATION_REQUIRED EFFECTS_UNCERTAIN None)
            else (case cp of
                None \<Rightarrow> Some (plan (if promotion = PROMOTION_NONE then SAFE_RETRY else HUMAN_CONFIRMATION_REQUIRED) effects None)
              | Some c \<Rightarrow>
                 (case (assess_drift (rs_git env) (rs_patch env) fs c (if promotion = APPLIED then files else []), read_only_run c) of
                    (Some drift, Some read_only) \<Rightarrow> Some (plan_checkpoint status plan effects drift read_only)
                  | _ \<Rightarrow> None)))
       | _ \<Rightarrow> None))"

definition plan_resume :: "resume_env \<Rightarrow> run_db \<Rightarrow> checkpoint_row list \<Rightarrow> filesys \<Rightarrow> string \<Rightarrow> resume_plan option" where
  "plan_resume env db rows fs rid =
     (case find_row run_id rid (runs db) of None \<Rightarrow> None | Some run \<Rightarrow> plan_run env run (read_events db rid 0 100000) rows fs)"

section \<open>Undoing a partial promotion\<close>

datatype revert_error = NotResumable | RevertCrashed

definition workspace_base :: "pyval dict \<Rightarrow> string \<Rightarrow> pyval option" where
  "workspace_base workspace rel = map_option (\<lambda>d. dget d ''base'' VNone) (as_dict (dget workspace rel (VDict [])))"

text \<open>The change that puts one journaled file back; \<open>b64\<close> decodes a recorded original to its text, or raises.\<close>

definition revert_change :: "(string \<Rightarrow> string option) \<Rightarrow> patch_env \<Rightarrow> filesys \<Rightarrow> pyval dict \<Rightarrow> string \<times> pyval \<times> pyval
    \<Rightarrow> revert_error + (change \<times> string \<times> string option) list" where
  "revert_change b64 env fs workspace e =
     (case e of (rel, b, n) \<Rightarrow>
       if \<not> py_eq (opt_str (file_sha env fs rel)) n \<or> py_eq n b then Inr []
       else (let hash = as_str n in
         case workspace_base workspace rel of
           Some VNone \<Rightarrow> Inr [(DeleteFile rel, rel, hash)]
         | Some (VStr t) \<Rightarrow> (case b64 t of Some text \<Rightarrow> Inr [(WriteFile rel text, rel, hash)] | None \<Rightarrow> Inl RevertCrashed)
         | _ \<Rightarrow> Inl RevertCrashed))"

definition revert_changes :: "(string \<Rightarrow> string option) \<Rightarrow> patch_env \<Rightarrow> filesys \<Rightarrow> pyval dict \<Rightarrow> pyval dict
    \<Rightarrow> revert_error + (change \<times> string \<times> string option) list" where
  "revert_changes b64 env fs workspace files =
     (case journal files of None \<Rightarrow> Inl RevertCrashed
      | Some es \<Rightarrow> bind_r (map_r (revert_change b64 env fs workspace) es) (\<lambda>xss. Inr (concat xss)))"

definition revert_partial_promotion :: "resume_env \<Rightarrow> (string \<Rightarrow> string option) \<Rightarrow> (nat \<Rightarrow> io_outcome) \<Rightarrow> int \<Rightarrow> string \<Rightarrow> run_db
    \<Rightarrow> checkpoint_row list \<Rightarrow> filesys \<Rightarrow> string \<Rightarrow> resume_plan \<Rightarrow> filesys \<times> (revert_error + string list \<times> run_db)" where
  "revert_partial_promotion env b64 io now uid db rows fs rid plan =
     (case fst (latest_valid (rs_digest env) (rs_loads env) rows rid) of
        None \<Rightarrow> (fs, Inl NotResumable)
      | Some cp \<Rightarrow>
         (case state_dict cp ''workspace'' of
            None \<Rightarrow> (fs, Inl RevertCrashed)
          | Some workspace \<Rightarrow>
             if workspace = [] then (fs, Inl NotResumable)
             else (case revert_changes b64 (rs_patch env) fs workspace (rp_files plan) of
                Inl e \<Rightarrow> (fs, Inl e)
              | Inr xs \<Rightarrow>
                 (let rels = sort (map (fst \<circ> snd) xs);
                      done_db = snd (append_event now uid db rid ''promotion_rolled_back'' (event_defaults\<lparr>ea_phase := Some ''final_report'', ea_actor := ''user'',
                        ea_payload := [(''files'', VList (map VStr rels))]\<rparr>)) in
                  if xs = [] then (fs, Inr (rels, done_db))
                  else (case apply_changes (rs_patch env) io fs (map fst xs) (map snd xs) False of
                     (fs', Inl e) \<Rightarrow> (fs', Inl RevertCrashed)
                   | (fs', Inr res) \<Rightarrow> if pr_success res then (fs', Inr (rels, done_db)) else (fs', Inl NotResumable))))))"

section \<open>When it is safe to continue\<close>

lemma map_of_updates:
  "map_of (foldl (\<lambda>d (k, v). AList.update k v d) d xs) = map_of d ++ map_of (rev xs)"
  by (induction xs arbitrary: d) (auto simp: update_conv' map_add_def fun_eq_iff split: option.splits)

lemma compute_files:
  "rf_files (compute_fingerprint git env fs watch) = map (\<lambda>rel. (rel, opt_str (file_sha env fs rel))) (sort (remdups watch))"
  by (simp add: compute_fingerprint_def Let_def split: option.split)

lemma map_of_tabulate: "map_of (map (\<lambda>k. (k, f k)) ks) k = (if k \<in> set ks then Some (f k) else None)"
  by (induction ks) auto

text \<open>Unless the drift is a conflict, every file that is written has now the expected hash.\<close>

lemma no_conflict:
  assumes "dr_kind (classify_drift old (compute_fingerprint git env fs (map fst (rf_files old))) writes) \<noteq> CONFLICTING_DRIFT"
    and "rel \<in> set writes" and "map_of (rf_files old) rel = Some h"
  shows "py_eq h (opt_str (file_sha env fs rel))"
proof -
  let ?new = "compute_fingerprint git env fs (map fst (rf_files old))"
  have "rel \<in> fst ` set (rf_files old)" using assms(3) by (metis map_of_eq_None_iff option.distinct(1))
  then have new: "map_of (rf_files ?new) rel = Some (opt_str (file_sha env fs rel))" by (simp add: compute_files map_of_tabulate)
  have "filter (\<lambda>r. r \<in> set writes) (changed_files (rf_files old) (rf_files ?new)) = []"
    using assms(1) by (auto simp: classify_drift_def Let_def split: if_splits)
  then have "rel \<notin> set (changed_files (rf_files old) (rf_files ?new))" using assms(2) by (auto simp: filter_empty_conv)
  then show ?thesis using \<open>rel \<in> fst ` set (rf_files old)\<close> new assms(3) by (simp add: changed_files_def has_key_def dget_def)
qed

lemma plan_checkpoint_safe:
  "rp_category (plan_checkpoint st (plan_with sv s ev cp pr pm fi ph) eff drift ro) = SAFE_RESUME \<Longrightarrow> dr_kind drift \<noteq> CONFLICTING_DRIFT"
  by (auto simp: plan_checkpoint_def plan_with_def split: if_splits)

lemma plan_checkpoint_fields:
  "rp_promotion (plan_checkpoint st (plan_with sv s ev cp pr pm fi ph) eff drift ro) = pm"
  "rp_files (plan_checkpoint st (plan_with sv s ev cp pr pm fi ph) eff drift ro) = fi"
  "rp_invalid (plan_checkpoint st (plan_with sv s ev cp pr pm fi ph) eff drift ro) = pr"
  by (simp_all add: plan_checkpoint_def plan_with_def)

lemma safe_resume_cases:
  assumes "plan_resume env db rows fs rid = Some plan" and "rp_category plan = SAFE_RESUME"
  obtains cp drift where "latest_valid (rs_digest env) (rs_loads env) rows rid = (Some cp, rp_invalid plan)"
    "rp_promotion plan \<in> {PROMOTION_NONE, NOT_APPLIED, APPLIED}"
    "promotion_of (rs_patch env) fs (read_events db rid 0 100000) = Some (rp_promotion plan, rp_files plan)"
    "assess_drift (rs_git env) (rs_patch env) fs cp (if rp_promotion plan = APPLIED then rp_files plan else []) = Some drift"
    "dr_kind drift \<noteq> CONFLICTING_DRIFT" "run_status_of db rid = Some INTERRUPTED"
proof -
  obtain run where run: "find_row run_id rid (runs db) = Some run" using assms(1) by (auto simp: plan_resume_def split: option.splits)
  then have rid: "run_id run = rid" by (auto simp: find_row_def find_Some_iff)
  have planned: "plan_run env run (read_events db rid 0 100000) rows fs = Some plan" using assms(1) run by (simp add: plan_resume_def)
  obtain cpo problems where cp: "latest_valid (rs_digest env) (rs_loads env) rows rid = (cpo, problems)" by (metis surj_pair)
  let ?events = "read_events db rid 0 100000"
  have st: "run_status run = INTERRUPTED" using planned assms(2) rid cp by (auto simp: plan_run_def bare_plan_def Let_def split: if_splits)
  obtain promotion files phase where pf: "promotion_of (rs_patch env) fs ?events = Some (promotion, files)" "next_phase cpo = Some phase"
    using planned assms(2) rid cp st by (auto simp: plan_run_def Let_def split: option.splits)
  have pm: "promotion \<noteq> PARTIAL" "promotion \<noteq> PROMOTION_UNKNOWN"
    using planned assms(2) rid cp st pf by (auto simp: plan_run_def Let_def plan_with_def split: if_splits)
  obtain c where c: "cpo = Some c" using planned assms(2) rid cp st pf pm
    by (cases cpo) (auto simp: plan_run_def Let_def plan_with_def split: if_splits)
  obtain drift ro where d: "assess_drift (rs_git env) (rs_patch env) fs c (if promotion = APPLIED then files else []) = Some drift" "read_only_run c = Some ro"
    using planned assms(2) rid cp st pf pm c by (auto simp: plan_run_def Let_def split: option.splits)
  let ?eff = "if promotion = PROMOTION_NONE then EFFECTS_NONE else EFFECTS_VERIFIED"
  have plan: "plan = plan_checkpoint INTERRUPTED (plan_with (rs_show env) INTERRUPTED ?events cpo problems promotion files phase) ?eff drift ro"
    using planned rid cp st pf pm c d by (simp add: plan_run_def Let_def)
  have "promotion \<in> {PROMOTION_NONE, NOT_APPLIED, APPLIED}" using pm by (cases promotion) auto
  then show ?thesis
    using that [of c drift] cp c pf d plan plan_checkpoint_safe assms(2) run st by (auto simp: plan_checkpoint_fields run_status_of_def)
qed

lemma new_hashes_keys: "new_hashes files = Some new \<Longrightarrow> map fst new = map fst files"
  unfolding new_hashes_def
  by (induction files arbitrary: new) (auto split: option.splits)

lemma new_hashes_at:
  "new_hashes files = Some new \<Longrightarrow> map_of files rel = Some (VDict d) \<Longrightarrow> map_of d ''new'' = Some h \<Longrightarrow> map_of new rel = Some h"
  unfolding new_hashes_def
  by (induction files arbitrary: new) (auto split: option.splits if_splits)

lemma map_of_rev_distinct: "distinct (map fst xs) \<Longrightarrow> map_of (rev xs) = map_of xs"
proof (induction xs)
  case (Cons x xs)
  then have "map_of xs (fst x) = None" by (simp add: map_of_eq_None_iff)
  with Cons show ?case by (auto simp: fun_eq_iff map_add_def split: option.splits)
qed simp

text \<open>
  C32: A run is declared safe to resume only when nothing the run writes changed underneath it. If the plan says \<open>SAFE_RESUME\<close>, then
  the run was interrupted, its newest checkpoint that verifies is there to continue from, no promotion is half done, and every file of the run's workspace whose
  hash the checkpoint recorded has that hash now; where the promotion had been applied, a promoted file of the workspace has the hash the journal
  announced instead. The keys of the journal are taken to be distinct, as those of a JSON object are.
\<close>

theorem safe_resume_files_unchanged:
  assumes "plan_resume env db rows fs rid = Some plan" and "rp_category plan = SAFE_RESUME" and "distinct (map fst (rp_files plan))"
  shows "\<exists>cp workspace recorded. latest_valid (rs_digest env) (rs_loads env) rows rid = (Some cp, rp_invalid plan) \<and>
    run_status_of db rid = Some INTERRUPTED \<and> rp_promotion plan \<notin> {PARTIAL, PROMOTION_UNKNOWN} \<and>
    state_dict cp ''workspace'' = Some workspace \<and> fingerprint_of (cp_fingerprint cp) = Some recorded \<and>
    (\<forall>rel h. has_key workspace rel \<longrightarrow> map_of (rf_files recorded) rel = Some h \<longrightarrow> \<not> (rp_promotion plan = APPLIED \<and> has_key (rp_files plan) rel) \<longrightarrow>
       py_eq h (opt_str (file_sha (rs_patch env) fs rel))) \<and>
    (\<forall>rel d h. has_key workspace rel \<longrightarrow> rp_promotion plan = APPLIED \<longrightarrow> map_of (rp_files plan) rel = Some (VDict d) \<longrightarrow> map_of d ''new'' = Some h \<longrightarrow>
       py_eq h (opt_str (file_sha (rs_patch env) fs rel)))"
  using assms(1,2)
proof (cases rule: safe_resume_cases)
  case (1 cp drift)
  let ?applied = "if rp_promotion plan = APPLIED then rp_files plan else []"
  obtain recorded new workspace where r: "fingerprint_of (cp_fingerprint cp) = Some recorded" "new_hashes ?applied = Some new"
      "state_dict cp ''workspace'' = Some workspace"
    and drift: "drift = classify_drift (recorded\<lparr>rf_files := foldl (\<lambda>d (k, v). AList.update k v d) (rf_files recorded) new\<rparr>)
        (compute_fingerprint (rs_git env) (rs_patch env) fs (map fst (foldl (\<lambda>d (k, v). AList.update k v d) (rf_files recorded) new))) (map fst workspace)"
    using 1(4) by (auto simp: assess_drift_def Let_def split: option.splits)
  let ?old = "recorded\<lparr>rf_files := foldl (\<lambda>d (k, v). AList.update k v d) (rf_files recorded) new\<rparr>"
  have keys: "map fst new = map fst ?applied" using new_hashes_keys [OF r(2)] .
  then have dist: "distinct (map fst new)" using assms(3) by simp
  have ok: "py_eq h (opt_str (file_sha (rs_patch env) fs rel))" if "has_key workspace rel" "map_of (rf_files ?old) rel = Some h" for rel h
    using no_conflict [of ?old "rs_git env" "rs_patch env" fs "map fst workspace" rel h] 1(5) drift that by (simp add: has_key_iff)
  have rev_new: "map_of (rev new) = map_of new" using dist by (rule map_of_rev_distinct)
  have "py_eq h (opt_str (file_sha (rs_patch env) fs rel))"
    if "has_key workspace rel" "map_of (rf_files recorded) rel = Some h" "\<not> (rp_promotion plan = APPLIED \<and> has_key (rp_files plan) rel)" for rel h
  proof (rule ok [OF that(1)])
    have "map_of new rel = None" using that(3) keys by (auto simp: map_of_eq_None_iff has_key_iff simp flip: set_map split: if_splits)
    then show "map_of (rf_files ?old) rel = Some h" using that(2) by (simp add: map_of_updates rev_new map_add_def)
  qed
  moreover have "py_eq h (opt_str (file_sha (rs_patch env) fs rel))"
    if "has_key workspace rel" "rp_promotion plan = APPLIED" "map_of (rp_files plan) rel = Some (VDict d)" "map_of d ''new'' = Some h" for rel d h
  proof (rule ok [OF that(1)])
    have "map_of new rel = Some h" using that r(2) new_hashes_at [of "rp_files plan" new rel d h] by simp
    then show "map_of (rf_files ?old) rel = Some h" by (simp add: map_of_updates rev_new)
  qed
  moreover have "rp_promotion plan \<notin> {PARTIAL, PROMOTION_UNKNOWN}" using 1(2) by auto
  ultimately show ?thesis using 1(1,6) r(1,3) by (intro exI [of _ cp] exI [of _ workspace] exI [of _ recorded]) simp
qed

text \<open>The changes of a reversal: each is of a journaled file that holds what the promotion wrote, guarded by that hash.\<close>

lemma py_eq_opt_str [simp]: "py_eq (opt_str x) v \<longleftrightarrow> v = opt_str x"
  by (cases x) (simp_all add: opt_str_def)

lemma as_str_opt_str [simp]: "as_str (opt_str x) = x"
  by (cases x) (simp_all add: opt_str_def)

lemma journal_mem:
  assumes "journal files = Some es" and "(rel, b, n) \<in> set es"
  shows "\<exists>d. (rel, VDict d) \<in> set files \<and> map_of d ''base'' = Some b \<and> map_of d ''new'' = Some n"
  using assms unfolding journal_def
proof (induction files arbitrary: es)
  case (Cons x files)
  then obtain e es' where "journal_entry x = Some e" "those (map journal_entry files) = Some es'" "es = e # es'"
    by (auto split: option.splits)
  moreover have "\<exists>d. x = (rel, VDict d) \<and> map_of d ''base'' = Some b \<and> map_of d ''new'' = Some n" if "journal_entry x = Some (rel, b, n)"
    using that by (cases x; cases "snd x") (auto simp: journal_entry_def split: option.splits)
  ultimately show ?case using Cons.IH [of es'] Cons.prems by (cases "e = (rel, b, n)") auto
qed simp

lemma revert_change_mem:
  assumes "revert_change b64 env fs workspace (rel, b, n) = Inr ys" and "(c, rel', h) \<in> set ys"
  shows "rel' = rel \<and> change_path c = rel \<and> n = opt_str h \<and> n \<noteq> b"
  using assms by (auto simp: revert_change_def Let_def split: if_splits option.splits pyval.splits)

lemma map_r_source: "map_r f xs = Inr ys \<Longrightarrow> y \<in> set ys \<Longrightarrow> \<exists>x \<in> set xs. f x = Inr y"
  by (induction xs arbitrary: ys) (auto split: sum.splits)

lemma revert_changes_mem:
  assumes "revert_changes b64 env fs workspace files = Inr xs" and "(c, rel, h) \<in> set xs"
  shows "change_path c = rel \<and> (\<exists>d. (rel, VDict d) \<in> set files \<and> map_of d ''new'' = Some (opt_str h) \<and> map_of d ''base'' \<noteq> Some (opt_str h))"
proof -
  obtain es xss where es: "journal files = Some es" "map_r (revert_change b64 env fs workspace) es = Inr xss" "xs = concat xss"
    using assms(1) by (auto simp: revert_changes_def result_simps split: option.splits)
  obtain ys where ys: "ys \<in> set xss" "(c, rel, h) \<in> set ys" using assms(2) es(3) by auto
  then obtain e where "e \<in> set es" "revert_change b64 env fs workspace e = Inr ys"
    using map_r_source [OF es(2)] by blast
  moreover obtain rel0 b n where "e = (rel0, b, n)" by (cases e)
  ultimately show ?thesis using revert_change_mem [of b64 env fs workspace rel0 b n ys c rel h] ys(2) journal_mem [OF es(1), of rel0 b n]
    by fastforce
qed

lemma revert_cases:
  assumes "revert_partial_promotion env b64 io now uid db rows fs rid plan = (fs', r)" and "r \<noteq> Inl RevertCrashed"
    and "file_at fs' \<noteq> file_at fs"
  obtains workspace xs res where "revert_changes b64 (rs_patch env) fs workspace (rp_files plan) = Inr xs"
    "apply_changes (rs_patch env) io fs (map fst xs) (map snd xs) False = (fs', Inr res)" "pr_success res" "r \<noteq> Inl NotResumable"
proof -
  obtain workspace xs res where xs: "revert_changes b64 (rs_patch env) fs workspace (rp_files plan) = Inr xs"
      "apply_changes (rs_patch env) io fs (map fst xs) (map snd xs) False = (fs', Inr res)" "pr_success res \<longrightarrow> r \<noteq> Inl NotResumable"
    using assms by (auto simp: revert_partial_promotion_def Let_def split: option.splits sum.splits if_splits prod.splits)
  moreover have "pr_success res" using engine_writes.differs_succeeded [OF xs(2) assms(3)] .
  ultimately show ?thesis using that by blast
qed

text \<open>
  C33: Undoing a half-done promotion never overwrites somebody else's work. Unless it crashes, the only files whose contents differ afterwards
  are files of the promotion journal that held exactly what the journal says the promotion wrote, and something other than the
  original; when it refuses, no file differs.
\<close>

theorem revert_touches_only_own_writes:
  assumes "revert_partial_promotion env b64 io now uid db rows fs rid plan = (fs', r)" and "r \<noteq> Inl RevertCrashed"
  shows "(r = Inl NotResumable \<longrightarrow> file_at fs' = file_at fs) \<and>
    (\<forall>p. file_at fs' p = file_at fs p \<or>
      (\<exists>rel d. locate (rs_patch env) rel = Inr p \<and> (rel, VDict d) \<in> set (rp_files plan) \<and>
         map_of d ''new'' = Some (opt_str (sha256_bytes (rs_patch env) (file_at fs p))) \<and> map_of d ''base'' \<noteq> map_of d ''new''))"
proof (cases "file_at fs' = file_at fs")
  case False
  with assms show ?thesis
  proof (cases rule: revert_cases)
    case (1 workspace xs res)
    have all: "change_path ` set (map fst xs) \<subseteq> fst ` set (map snd xs)" using revert_changes_mem [OF 1(1)] by force
    have "\<exists>rel d. locate (rs_patch env) rel = Inr p \<and> (rel, VDict d) \<in> set (rp_files plan) \<and>
        map_of d ''new'' = Some (opt_str (sha256_bytes (rs_patch env) (file_at fs p))) \<and> map_of d ''base'' \<noteq> map_of d ''new''"
      if ne: "file_at fs' p \<noteq> file_at fs p" for p
    proof -
      obtain rel where rel: "locate (rs_patch env) rel = Inr p" "(rel, sha256_bytes (rs_patch env) (file_at fs p)) \<in> set (map snd xs)"
        using engine_writes.differs_expected [OF 1(2) all ne] by blast
      then obtain c where "(c, rel, sha256_bytes (rs_patch env) (file_at fs p)) \<in> set xs" by auto
      from revert_changes_mem [OF 1(1) this] rel(1) show ?thesis by (intro exI [of _ rel]) auto
    qed
    then show ?thesis using 1(4) by blast
  qed
qed simp

section \<open>Examples\<close>

text \<open>A run cut off while it promoted one file: its checkpoint row, its events and its repository; hashes and codecs are identities.\<close>

definition sample_env :: "pyval \<Rightarrow> pyval \<Rightarrow> resume_env" where
  "sample_env state fp = \<lparr>rs_show = (\<lambda>_. []), rs_digest = (\<lambda>(h, s, f). s @ f),
     rs_loads = (\<lambda>s. if s = ''S'' then Some state else if s = ''F'' then Some fp else None), rs_git = (\<lambda>_. None), rs_patch = demo_env\<rparr>"

definition sample_checkpoint :: checkpoint_row where
  "sample_checkpoint = toy_row\<lparr>ck_state_json := Some ''S'', ck_fingerprint_json := Some ''F'', ck_checksum := ''SF''\<rparr>"

definition sample_journal :: "pyval dict" where
  "sample_journal = [(''f'', VDict [(''base'', VStr ''x''), (''new'', VStr ''y'')])]"

definition sample_run :: run_db where
  "sample_run = snd (append_event 0 ''e'' (empty_run_db\<lparr>runs := [(new_run 0 ''r'')\<lparr>run_status := INTERRUPTED\<rparr>]\<rparr>) ''r'' ''promotion_started''
     (event_defaults\<lparr>ea_payload := [(''files'', VDict sample_journal)]\<rparr>))"

definition sample_state :: "string \<Rightarrow> pyval" where
  "sample_state rel = VDict [(''workspace'', VDict [(rel, VDict [(''base'', VStr ''x'')])])]"

definition sample_fp :: pyval where
  "sample_fp = VDict [(''is_git'', VBool False), (''files'', VDict [(''f'', VStr ''x'')])]"

definition sample_plan :: "string \<Rightarrow> resume_plan option" where
  "sample_plan contents = plan_run (sample_env (sample_state ''f'') sample_fp) (hd (runs sample_run)) (run_events sample_run)
     [sample_checkpoint] (both_trees contents ''y'')"

lemma sample_plan_resume:
  "plan_resume (sample_env (sample_state ''f'') sample_fp) sample_run [sample_checkpoint] (both_trees contents ''y'') ''r'' = sample_plan contents"
  by (simp add: plan_resume_def sample_plan_def read_events_def sample_run_def append_event_def empty_run_db_def new_run_def find_row_Cons)

definition safe_sample :: bool where
  "safe_sample = (case sample_plan ''y'' of None \<Rightarrow> False
     | Some plan \<Rightarrow> rp_category plan = SAFE_RESUME \<and> rp_promotion plan = APPLIED \<and> rp_files plan = sample_journal)"

lemma safe_sample_holds: safe_sample
  by code_simp

theorem edited_file_is_not_resumed: "map_option rp_category (sample_plan ''z'') = Some HUMAN_CONFIRMATION_REQUIRED"
  by code_simp

theorem safe_resume_files_unchanged_witness:
  "\<exists>plan. sample_plan ''y'' = Some plan \<and> rp_category plan = SAFE_RESUME \<and> run_status_of sample_run ''r'' = Some INTERRUPTED \<and>
     rp_promotion plan \<notin> {PARTIAL, PROMOTION_UNKNOWN}"
proof -
  obtain plan where p: "sample_plan ''y'' = Some plan" "rp_category plan = SAFE_RESUME" "rp_files plan = sample_journal"
    using safe_sample_holds by (auto simp: safe_sample_def split: option.splits)
  have "distinct (map fst (rp_files plan))" by (simp add: p(3) sample_journal_def)
  from safe_resume_files_unchanged [OF p(1) [folded sample_plan_resume] p(2) this] p show ?thesis by blast
qed

definition sample_partial :: resume_plan where
  "sample_partial = (bare_plan INTERRUPTED ROLLBACK_REQUIRED)\<lparr>rp_promotion := PARTIAL, rp_files := sample_journal\<rparr>"

definition sample_revert :: "string \<Rightarrow> filesys \<times> (revert_error + string list \<times> run_db)" where
  "sample_revert rel = revert_partial_promotion (sample_env (sample_state rel) sample_fp) Some no_faults 0 ''e2'' sample_run [sample_checkpoint]
     (both_trees ''y'' ''y'') ''r'' sample_partial"

definition reverted_to :: "string \<Rightarrow> string option \<Rightarrow> bool" where
  "reverted_to rel contents = (case sample_revert rel of (fs', Inr (rels, db)) \<Rightarrow> rels = [''f''] \<and> file_at fs' [''r'', ''f''] = contents | _ \<Rightarrow> False)"

text \<open>The recorded original comes back.\<close>

lemma sample_reverts: "reverted_to ''f'' (Some ''x'')"
  by code_simp

theorem revert_touches_only_own_writes_witness:
  "\<exists>fs' out. sample_revert ''f'' = (fs', Inr out) \<and> file_at fs' [''r'', ''f''] = Some ''x'' \<and>
     (\<exists>rel d. locate demo_env rel = Inr [''r'', ''f''] \<and> (rel, VDict d) \<in> set sample_journal \<and> map_of d ''new'' = Some (VStr ''y''))"
proof -
  obtain fs' out where r: "sample_revert ''f'' = (fs', Inr out)" "file_at fs' [''r'', ''f''] = Some ''x''"
    using sample_reverts by (auto simp: reverted_to_def split: prod.splits sum.splits)
  have "file_at fs' [''r'', ''f''] \<noteq> file_at (both_trees ''y'' ''y'') [''r'', ''f'']" using r(2) by (simp add: file_at_def both_trees_def)
  with revert_touches_only_own_writes [OF r(1) [unfolded sample_revert_def]] r show ?thesis
    by (fastforce simp: sample_env_def sample_partial_def file_at_def both_trees_def sha256_bytes_def demo_env_def opt_str_def)
qed

text \<open>
  A file that existed before the run is deleted by the reversal when the checkpoint at hand does not list it in its workspace, as an older one that is
  used because the newest is damaged may not; the journal's \<open>base\<close> hash says that there was an original.
\<close>

theorem revert_deletes_unrecorded_original: "reverted_to ''g'' None"
  by code_simp

end
