(* ===== verification/Memory.thy ===== *)
theory Memory
  imports Policy_Store Identity Patch_Engine
begin

text \<open>
  What PatchQuest remembers (\<open>domain/memory.py\<close>, \<open>domain/preferences.py\<close>, \<open>persistence/memories.py\<close>, \<open>runtime/memory_service.py\<close>): which
  source may write what, versioned storage with one active record per owner and key, preferences layered by scope, invalidation when
  evidence changes, and the selection of notes for a model.

  Times are microseconds. Floats are exact rationals. The texts of values are written and read by the JSON codec, the parameters \<open>dumps\<close>
  and \<open>loads\<close>; \<open>resolve\<close> is \<open>str(Path(ref).resolve())\<close>. The table holds the text of a value.

  The lemmas show that authority never falls, that only allowed sources leave records, that a tenant neither sees nor changes
  another's records, and that a selection keeps within its budget.
\<close>

section \<open>Kinds, sources and authority\<close>

datatype memory_kind = MK_REPOSITORY | MK_PREFERENCE | MK_PROCEDURAL | MK_EPISODIC | MK_WORKING | MK_TEAM

fun memory_kind_value :: "memory_kind \<Rightarrow> string" where
  "memory_kind_value MK_REPOSITORY = ''repository''"
| "memory_kind_value MK_PREFERENCE = ''preference''"
| "memory_kind_value MK_PROCEDURAL = ''procedural''"
| "memory_kind_value MK_EPISODIC = ''episodic''"
| "memory_kind_value MK_WORKING = ''working''"
| "memory_kind_value MK_TEAM = ''team''"

definition ACTIVE_KINDS :: "memory_kind list" where
  "ACTIVE_KINDS = [MK_REPOSITORY, MK_PREFERENCE, MK_PROCEDURAL, MK_EPISODIC]"

definition ACTIVE_SCOPES :: "scope list" where
  "ACTIVE_SCOPES = [ORGANIZATION, WORKSPACE, REPOSITORY, USER, WORKFLOW]"

datatype memory_source = USER_EXPLICIT | CONFIGURATION | REPOSITORY_DETECTED | TEST_RESULT | CI | ACCEPTED_PATCH | REJECTED_PATCH
  | WORKFLOW_OBSERVATION | IMPORTED | AGENT_INFERENCE

fun memory_source_value :: "memory_source \<Rightarrow> string" where
  "memory_source_value USER_EXPLICIT = ''user_explicit''"
| "memory_source_value CONFIGURATION = ''configuration''"
| "memory_source_value REPOSITORY_DETECTED = ''repository_detected''"
| "memory_source_value TEST_RESULT = ''test_result''"
| "memory_source_value CI = ''ci''"
| "memory_source_value ACCEPTED_PATCH = ''accepted_patch''"
| "memory_source_value REJECTED_PATCH = ''rejected_patch''"
| "memory_source_value WORKFLOW_OBSERVATION = ''workflow_observation''"
| "memory_source_value IMPORTED = ''import''"
| "memory_source_value AGENT_INFERENCE = ''agent_inference''"

fun AUTHORITY :: "memory_source \<Rightarrow> nat" where
  "AUTHORITY USER_EXPLICIT = 100"
| "AUTHORITY CONFIGURATION = 80"
| "AUTHORITY REPOSITORY_DETECTED = 60"
| "AUTHORITY TEST_RESULT = 55"
| "AUTHORITY CI = 50"
| "AUTHORITY ACCEPTED_PATCH = 45"
| "AUTHORITY REJECTED_PATCH = 45"
| "AUTHORITY WORKFLOW_OBSERVATION = 30"
| "AUTHORITY IMPORTED = 20"
| "AUTHORITY AGENT_INFERENCE = 10"

text \<open>The kinds that are not in the table are refused before it is read.\<close>

fun WRITABLE_BY :: "memory_kind \<Rightarrow> memory_source \<Rightarrow> bool" where
  "WRITABLE_BY MK_PREFERENCE s = (s \<in> {USER_EXPLICIT, CONFIGURATION})"
| "WRITABLE_BY MK_PROCEDURAL s = (s \<in> {USER_EXPLICIT, CONFIGURATION, REPOSITORY_DETECTED, TEST_RESULT})"
| "WRITABLE_BY MK_REPOSITORY s = True"
| "WRITABLE_BY MK_EPISODIC s = True"
| "WRITABLE_BY MK_WORKING s = False"
| "WRITABLE_BY MK_TEAM s = False"

definition TRUSTED_SOURCES :: "memory_source list" where
  "TRUSTED_SOURCES = [USER_EXPLICIT, CONFIGURATION, REPOSITORY_DETECTED, TEST_RESULT, CI]"

definition days :: "int \<Rightarrow> int" where
  "days n = n * 86400 * 1000000"

fun DEFAULT_TTL :: "memory_source \<Rightarrow> int option" where
  "DEFAULT_TTL USER_EXPLICIT = None"
| "DEFAULT_TTL CONFIGURATION = None"
| "DEFAULT_TTL REPOSITORY_DETECTED = None"
| "DEFAULT_TTL TEST_RESULT = Some (days 30)"
| "DEFAULT_TTL CI = Some (days 30)"
| "DEFAULT_TTL ACCEPTED_PATCH = Some (days 90)"
| "DEFAULT_TTL REJECTED_PATCH = Some (days 90)"
| "DEFAULT_TTL WORKFLOW_OBSERVATION = Some (days 30)"
| "DEFAULT_TTL IMPORTED = Some (days 30)"
| "DEFAULT_TTL AGENT_INFERENCE = Some (days 14)"

fun DEFAULT_CONFIDENCE :: "memory_source \<Rightarrow> rat" where
  "DEFAULT_CONFIDENCE USER_EXPLICIT = 1"
| "DEFAULT_CONFIDENCE CONFIGURATION = 95 / 100"
| "DEFAULT_CONFIDENCE REPOSITORY_DETECTED = 8 / 10"
| "DEFAULT_CONFIDENCE TEST_RESULT = 85 / 100"
| "DEFAULT_CONFIDENCE CI = 8 / 10"
| "DEFAULT_CONFIDENCE ACCEPTED_PATCH = 6 / 10"
| "DEFAULT_CONFIDENCE REJECTED_PATCH = 6 / 10"
| "DEFAULT_CONFIDENCE WORKFLOW_OBSERVATION = 5 / 10"
| "DEFAULT_CONFIDENCE IMPORTED = 4 / 10"
| "DEFAULT_CONFIDENCE AGENT_INFERENCE = 3 / 10"

definition MIN_EFFECTIVE_CONFIDENCE :: rat where
  "MIN_EFFECTIVE_CONFIDENCE = 1 / 4"

datatype memory_status = MS_ACTIVE | MS_STALE | MS_EXPIRED | MS_SUPERSEDED | MS_FORGOTTEN

datatype write_outcome = WO_CREATED | WO_REINFORCED | WO_UPDATED | WO_KEPT_EXISTING

fun write_outcome_value :: "write_outcome \<Rightarrow> string" where
  "write_outcome_value WO_CREATED = ''created''"
| "write_outcome_value WO_REINFORCED = ''reinforced''"
| "write_outcome_value WO_UPDATED = ''updated''"
| "write_outcome_value WO_KEPT_EXISTING = ''kept_existing''"

text \<open>\<open>MemoryRefused\<close> with its reasons, and the database's own refusal.\<close>

datatype memory_error = KindUnavailable memory_kind | ScopeUnavailable scope | WrongSource memory_kind memory_source | BadKey | ValueTooLarge
  | LooksLikeInstruction | LooksLikeSecret | NoOwner | ScopeNeedsRef scope | NotAPreference string | MemoryIntegrity

record memory =
  me_id :: string
  me_kind :: memory_kind
  me_scope :: scope
  me_scope_id :: string
  me_key :: string
  me_text :: string
  me_source :: memory_source
  me_reason :: string
  me_author :: string
  me_confidence :: rat
  me_status :: memory_status
  me_version :: nat
  me_created :: int
  me_updated :: int
  me_verified :: int
  me_expires :: "int option"
  me_evidence :: "string dict"
  me_metadata :: "pyval dict"
  me_org :: string
  me_ws :: "string option"
  me_supersedes :: "string option"

definition trusted :: "memory \<Rightarrow> bool" where
  "trusted m \<longleftrightarrow> me_source m \<in> set TRUSTED_SOURCES"

definition past :: "int \<Rightarrow> memory \<Rightarrow> bool" where
  "past now m \<longleftrightarrow> (case me_expires m of None \<Rightarrow> False | Some t \<Rightarrow> t \<le> now)"

definition freshness :: "int \<Rightarrow> memory \<Rightarrow> rat" where
  "freshness now m =
     (if me_status m \<noteq> MS_ACTIVE \<or> past now m then 0
      else (case DEFAULT_TTL (me_source m) of
          None \<Rightarrow> 1
        | Some ttl \<Rightarrow>
            if me_expires m = None then 1
            else (let age = (of_int (now - me_verified m) / 1000000) / max (of_int ttl / 1000000) 1 in max (1 / 2) (1 - min age 1 / 2))))"

text \<open>\<open>round(x, 4)\<close>: ties go to the even neighbour.\<close>

definition round_even :: "rat \<Rightarrow> int" where
  "round_even x = (let f = floor x; d = x - of_int f in if d < 1 / 2 then f else if d > 1 / 2 then f + 1 else if even f then f else f + 1)"

definition effective_confidence :: "int \<Rightarrow> memory \<Rightarrow> rat" where
  "effective_confidence now m = of_int (round_even (me_confidence m * freshness now m * 10000)) / 10000"

section \<open>What may be written\<close>

definition sp1 :: rx where
  "sp1 = plus (Cls is_space)"

definition plural :: "string \<Rightarrow> rx" where
  "plural w = Sq (ilit w) (opt (ilit ''s''))"

definition iwords :: "string list \<Rightarrow> rx" where
  "iwords ws = one_of (map ilit ws)"

definition spaced :: "string list \<Rightarrow> rx" where
  "spaced ws = one_of (map (\<lambda>w. Sq (ilit w) sp1) ws)"

definition some_chars :: "nat \<Rightarrow> rx" where
  "some_chars n = Rep 0 (Some n) (Cls (\<lambda>_. True))"

definition policy_word :: rx where
  "policy_word = Sq (ilit ''polic'') (Or (ilit ''y'') (ilit ''ies''))"

definition INSTRUCTION_LIKE :: rx where
  "INSTRUCTION_LIKE = one_of
    [sq [iwords [''ignore'', ''disregard'', ''override'', ''forget''], sp1,
         star (spaced [''all'', ''any'', ''the'', ''previous'', ''prior'', ''above'', ''these'']),
         one_of [plural ''instruction'', policy_word, plural ''rule'', Sq (ilit ''guard'') (star (Cls is_word))]],
     sq [iwords [''disable'', ''skip'', ''turn off'', ''bypass''], sp1, opt (spaced [''all'', ''the'', ''any'']),
         one_of [plural ''test'', plural ''check'', plural ''approval'', ilit ''validation'', policy_word, ilit ''safety'']],
     sq [iwords [''send'', ''upload'', ''post'', ''exfiltrate'', ''leak''], sp1, some_chars 40,
         one_of [ilit ''code'', ilit ''source'', plural ''secret'', plural ''credential'', plural ''token'', plural ''file''], sp1,
         some_chars 30, iwords [''to'', ''at''], sp1, plus (Cls (\<lambda>c. \<not> is_space c))],
     sq [iwords [''always'', ''never''], sp1, iwords [''run'', ''approve'', ''execute'', ''trust''], WordB, some_chars 40, WordB,
         iwords [''without'', ''no''], sp1, iwords [''ask'', ''approval'', ''review'']]]"

definition looks_like_instructions :: "string \<Rightarrow> bool" where
  "looks_like_instructions text \<longleftrightarrow> search INSTRUCTION_LIKE text"

definition MAX_KEY :: nat where
  "MAX_KEY = 120"

definition MAX_VALUE_BYTES :: int where
  "MAX_VALUE_BYTES = 4096"

text \<open>\<open>len(text.encode())\<close>.\<close>

definition utf8_length :: "string \<Rightarrow> int" where
  "utf8_length s = sum_list (map (\<lambda>c. if of_char c < (128 :: int) then 1 else 2) s)"

definition key_ok :: "string \<Rightarrow> bool" where
  "key_ok key \<longleftrightarrow> key \<noteq> [] \<and> length key \<le> MAX_KEY \<and> list_all (\<lambda>c. is_alnum c \<or> c \<in> set ''_.:/-'') key"

definition check_write :: "memory_kind \<Rightarrow> scope \<Rightarrow> memory_source \<Rightarrow> string \<Rightarrow> string \<Rightarrow> memory_error option" where
  "check_write kind scp source key text =
     (if kind \<notin> set ACTIVE_KINDS then Some (KindUnavailable kind)
      else if scp \<notin> set ACTIVE_SCOPES then Some (ScopeUnavailable scp)
      else if \<not> WRITABLE_BY kind source then Some (WrongSource kind source)
      else if \<not> key_ok key then Some BadKey
      else if utf8_length text > MAX_VALUE_BYTES then Some ValueTooLarge
      else if source \<noteq> USER_EXPLICIT \<and> source \<noteq> CONFIGURATION \<and> looks_like_instructions text then Some LooksLikeInstruction
      else None)"

definition expiry :: "memory_source \<Rightarrow> int \<Rightarrow> int option \<Rightarrow> int option" where
  "expiry source now ttl = map_option (\<lambda>w. now + w) (case ttl of Some t \<Rightarrow> Some t | None \<Rightarrow> DEFAULT_TTL source)"

section \<open>The table\<close>

record owner =
  ow_org :: string
  ow_ws :: string

definition owner_columns :: "owner \<Rightarrow> scope \<Rightarrow> string \<times> string option" where
  "owner_columns o' scp = (if scp = ORGANIZATION then (ow_org o', None) else (ow_org o', Some (ow_ws o')))"

definition owned :: "owner \<Rightarrow> scope \<Rightarrow> memory \<Rightarrow> bool" where
  "owned o' scp m \<longleftrightarrow> (if scp = ORGANIZATION then me_org m = ow_org o' \<and> me_ws m = None else me_org m = ow_org o' \<and> me_ws m = Some (ow_ws o'))"

definition active_for :: "owner \<Rightarrow> memory_kind \<Rightarrow> scope \<Rightarrow> string \<Rightarrow> string \<Rightarrow> memory \<Rightarrow> bool" where
  "active_for o' kind scp sid key m \<longleftrightarrow> owned o' scp m \<and> me_kind m = kind \<and> me_scope m = scp \<and> me_scope_id m = sid \<and> me_key m = key \<and> me_status m = MS_ACTIVE"

definition active_memory :: "memory list \<Rightarrow> owner \<Rightarrow> memory_kind \<Rightarrow> scope \<Rightarrow> string \<Rightarrow> string \<Rightarrow> memory option" where
  "active_memory ms o' kind scp sid key = find (active_for o' kind scp sid key) ms"

text \<open>The columns of the unique index over active rows.\<close>

definition slot :: "memory \<Rightarrow> memory_kind \<times> scope \<times> string \<times> string \<times> string \<times> string" where
  "slot m = (me_kind m, me_scope m, me_scope_id m, me_org m, (case me_ws m of None \<Rightarrow> [] | Some w \<Rightarrow> w), me_key m)"

text \<open>\<open>INSERT\<close>: the primary key and the unique index over active rows refuse a second row.\<close>

definition insert_memory :: "memory \<Rightarrow> memory list \<Rightarrow> memory_error + memory list" where
  "insert_memory m ms =
     (if has_row me_id (me_id m) ms \<or> list_ex (\<lambda>x. me_status x = MS_ACTIVE \<and> slot x = slot m) ms then Inl MemoryIntegrity else Inr (ms @ [m]))"

record put_args =
  pa_kind :: memory_kind
  pa_scope :: scope
  pa_scope_id :: string
  pa_key :: string
  pa_value :: pyval
  pa_source :: memory_source
  pa_reason :: string
  pa_author :: string
  pa_confidence :: "rat option"
  pa_ttl :: "int option"
  pa_evidence :: "string dict"
  pa_metadata :: "pyval dict"

definition clamp_confidence :: "put_args \<Rightarrow> rat" where
  "clamp_confidence a = (case pa_confidence a of None \<Rightarrow> DEFAULT_CONFIDENCE (pa_source a) | Some c \<Rightarrow> max 0 (min 1 c))"

definition refuse_write :: "(pyval \<Rightarrow> string) \<Rightarrow> put_args \<Rightarrow> memory_error option" where
  "refuse_write dumps a =
     (case check_write (pa_kind a) (pa_scope a) (pa_source a) (pa_key a) (dumps (pa_value a)) of Some e \<Rightarrow> Some e
      | None \<Rightarrow> if has_secrets (dumps (pa_value a)) then Some LooksLikeSecret else if pa_scope_id a = [] then Some NoOwner else None)"

definition reinforce :: "int \<Rightarrow> put_args \<Rightarrow> memory \<Rightarrow> memory" where
  "reinforce now a e = e\<lparr>me_confidence := (if AUTHORITY (pa_source a) \<ge> AUTHORITY (me_source e)
       then min 1 (max (me_confidence e) (clamp_confidence a) + 1 / 20) else me_confidence e),
     me_verified := now, me_updated := now, me_expires := expiry (me_source e) now (pa_ttl a),
     me_evidence := (if pa_evidence a = [] then me_evidence e else pa_evidence a)\<rparr>"

definition new_memory :: "(pyval \<Rightarrow> string) \<Rightarrow> int \<Rightarrow> string \<Rightarrow> owner \<Rightarrow> put_args \<Rightarrow> memory option \<Rightarrow> memory" where
  "new_memory dumps now i o' a existing =
     \<lparr>me_id = i, me_kind = pa_kind a, me_scope = pa_scope a, me_scope_id = pa_scope_id a, me_key = pa_key a, me_text = dumps (pa_value a),
      me_source = pa_source a, me_reason = take 300 (pa_reason a), me_author = take 120 (pa_author a), me_confidence = clamp_confidence a,
      me_status = MS_ACTIVE, me_version = (case existing of None \<Rightarrow> 1 | Some e \<Rightarrow> me_version e + 1), me_created = now, me_updated = now,
      me_verified = now, me_expires = expiry (pa_source a) now (pa_ttl a), me_evidence = pa_evidence a, me_metadata = pa_metadata a,
      me_org = fst (owner_columns o' (pa_scope a)), me_ws = snd (owner_columns o' (pa_scope a)), me_supersedes = map_option me_id existing\<rparr>"

definition mark_memory :: "memory_status \<Rightarrow> int \<Rightarrow> memory \<Rightarrow> memory" where
  "mark_memory st now m = m\<lparr>me_status := st, me_updated := now\<rparr>"

definition set_memory_status :: "memory list \<Rightarrow> string \<Rightarrow> memory_status \<Rightarrow> int \<Rightarrow> memory list" where
  "set_memory_status ms i st now = update_row me_id i (mark_memory st now) ms"

definition put_memory :: "(pyval \<Rightarrow> string) \<Rightarrow> (string \<Rightarrow> pyval) \<Rightarrow> int \<Rightarrow> string \<Rightarrow> owner \<Rightarrow> put_args \<Rightarrow> memory list
    \<Rightarrow> memory_error + (write_outcome \<times> memory) \<times> memory list" where
  "put_memory dumps loads now i o' a ms =
     (case refuse_write dumps a of Some e \<Rightarrow> Inl e
      | None \<Rightarrow>
         (case active_memory ms o' (pa_kind a) (pa_scope a) (pa_scope_id a) (pa_key a) of
            None \<Rightarrow> (let m = new_memory dumps now i o' a None in bind_r (insert_memory m ms) (\<lambda>ms'. Inr ((WO_CREATED, m), ms')))
          | Some e \<Rightarrow>
             if dumps (loads (me_text e)) = dumps (pa_value a)
             then Inr ((WO_REINFORCED, reinforce now a e), update_row me_id (me_id e) (reinforce now a) ms)
             else if AUTHORITY (pa_source a) < AUTHORITY (me_source e) then Inr ((WO_KEPT_EXISTING, e), ms)
             else (let m = new_memory dumps now i o' a (Some e) in
               bind_r (insert_memory m (set_memory_status ms (me_id e) MS_SUPERSEDED now)) (\<lambda>ms'. Inr ((WO_UPDATED, m), ms')))))"

definition readable_by :: "owner \<Rightarrow> memory \<Rightarrow> bool" where
  "readable_by o' m \<longleftrightarrow> me_org m = ow_org o' \<and> (me_ws m = None \<or> me_ws m = Some (ow_ws o'))"

definition get_memory :: "memory list \<Rightarrow> owner \<Rightarrow> string \<Rightarrow> memory option" where
  "get_memory ms o' i = find (\<lambda>m. me_id m = i \<and> readable_by o' m) ms"

text \<open>The clauses of \<open>visible\<close>; a scope whose owner is not named, or named by an empty text, has none.\<close>

definition named :: "string option \<Rightarrow> string \<Rightarrow> bool" where
  "named ref sid \<longleftrightarrow> (case ref of None \<Rightarrow> False | Some r \<Rightarrow> r \<noteq> [] \<and> sid = r)"

definition in_reach :: "owner \<Rightarrow> string option \<Rightarrow> string option \<Rightarrow> string option \<Rightarrow> memory \<Rightarrow> bool" where
  "in_reach o' repo usr flow m \<longleftrightarrow>
     me_scope m = ORGANIZATION \<and> me_org m = ow_org o' \<and> me_scope_id m = ow_org o' \<and> me_ws m = None \<or>
     me_org m = ow_org o' \<and> me_ws m = Some (ow_ws o') \<and>
       (me_scope m = WORKSPACE \<and> me_scope_id m = ow_ws o' \<or> me_scope m = REPOSITORY \<and> named repo (me_scope_id m) \<or>
        me_scope m = USER \<and> named usr (me_scope_id m) \<or> me_scope m = WORKFLOW \<and> named flow (me_scope_id m))"

definition visible :: "memory list \<Rightarrow> owner \<Rightarrow> string option \<Rightarrow> string option \<Rightarrow> string option \<Rightarrow> memory_kind list \<Rightarrow> memory_status list \<Rightarrow> memory list" where
  "visible ms o' repo usr flow kinds statuses =
     sort_key (\<lambda>m. (str_lower (scope_name (me_scope m)), me_key m, - int (me_version m)))
       (filter (\<lambda>m. in_reach o' repo usr flow m \<and> me_status m \<in> set statuses \<and> (kinds = [] \<or> me_kind m \<in> set kinds)) ms)"

definition forget_memory :: "memory list \<Rightarrow> int \<Rightarrow> owner \<Rightarrow> string \<Rightarrow> memory option \<times> memory list" where
  "forget_memory ms now o' i =
     (case get_memory ms o' i of None \<Rightarrow> (None, ms)
      | Some m \<Rightarrow> if me_status m \<noteq> MS_ACTIVE \<and> me_status m \<noteq> MS_STALE then (None, ms)
          else (Some (mark_memory MS_FORGOTTEN now m), set_memory_status ms i MS_FORGOTTEN now))"

definition expire_due :: "memory list \<Rightarrow> int \<Rightarrow> owner \<Rightarrow> memory list \<times> memory list" where
  "expire_due ms now o' =
     (let due = filter (\<lambda>m. readable_by o' m \<and> me_status m = MS_ACTIVE \<and> past now m) ms in
      (due, foldl (\<lambda>acc m. set_memory_status acc (me_id m) MS_EXPIRED now) ms due))"

definition memory_history :: "memory list \<Rightarrow> owner \<Rightarrow> scope \<Rightarrow> string \<Rightarrow> string \<Rightarrow> memory list" where
  "memory_history ms o' scp sid key =
     sort_key me_version (filter (\<lambda>m. owned o' scp m \<and> me_scope m = scp \<and> me_scope_id m = sid \<and> me_key m = key) ms)"

text \<open>\<open>LIKE\<close> ignores the case of letters; the wildcards of the caller are removed first.\<close>

definition find_memory :: "memory list \<Rightarrow> owner \<Rightarrow> string \<Rightarrow> memory option" where
  "find_memory ms o' p =
     (if length p < 4 then None
      else (let q = filter (\<lambda>c. c \<notin> set [CHR 0x5C, CHR ''%'', CHR ''_'']) p in
        case filter (\<lambda>m. prefix (str_lower q) (str_lower (me_id m)) \<and> readable_by o' m) ms of [m] \<Rightarrow> Some m | _ \<Rightarrow> None))"

section \<open>Preferences\<close>

definition PRECEDENCE :: "scope list" where
  "PRECEDENCE = [ORGANIZATION, WORKSPACE, REPOSITORY, USER, WORKFLOW]"

definition command_list :: "pyval \<Rightarrow> pyval option" where
  "command_list v =
     (case as_list (case v of VStr s \<Rightarrow> VList [v] | _ \<Rightarrow> v) of None \<Rightarrow> None
      | Some xs \<Rightarrow>
         if 1 \<le> length xs \<and> length xs \<le> 5 \<and> list_all (\<lambda>c. case as_str c of None \<Rightarrow> False | Some s \<Rightarrow> 0 < length s \<and> length s \<le> 200) xs
         then Some (VList (map (\<lambda>c. case as_str c of None \<Rightarrow> c | Some s \<Rightarrow> VStr (str_strip s)) xs)) else None)"

definition boolean :: "pyval \<Rightarrow> pyval option" where
  "boolean v = (case v of VBool b \<Rightarrow> Some v | _ \<Rightarrow> None)"

definition auto_or_ask :: "pyval \<Rightarrow> pyval option" where
  "auto_or_ask v = (if v = VStr ''auto'' \<or> v = VStr ''ask'' then Some v else None)"

definition PREFERENCES :: "(string \<times> (pyval \<Rightarrow> pyval option)) list" where
  "PREFERENCES = [(''test.commands'', command_list), (''approval.ask_before_workspace_writes'', boolean), (''automation.external_writes'', auto_or_ask)]"

definition validate_preference :: "string \<Rightarrow> pyval \<Rightarrow> pyval option" where
  "validate_preference key v = (case map_of PREFERENCES key of None \<Rightarrow> None | Some check \<Rightarrow> check v)"

record resolution =
  rs_key :: string
  rs_value :: pyval
  rs_winner :: "memory option"
  rs_overridden :: "memory list"

definition precedence_of :: "scope \<Rightarrow> int" where
  "precedence_of s = (if s \<in> set PRECEDENCE then int (length (takeWhile (\<lambda>x. x \<noteq> s) PRECEDENCE)) else -1)"

text \<open>\<open>sort(reverse=True)\<close> keeps the order of equal elements, as sorting by the negated key does.\<close>

definition resolve_preference :: "(string \<Rightarrow> pyval) \<Rightarrow> int \<Rightarrow> memory list \<Rightarrow> string \<Rightarrow> resolution" where
  "resolve_preference loads now records key =
     (case sort_key (\<lambda>m. - precedence_of (me_scope m)) (filter (\<lambda>m. me_key m = key \<and> me_status m = MS_ACTIVE \<and> freshness now m > 0) records) of
        [] \<Rightarrow> \<lparr>rs_key = key, rs_value = VNone, rs_winner = None, rs_overridden = []\<rparr>
      | m # rest \<Rightarrow> \<lparr>rs_key = key, rs_value = loads (me_text m), rs_winner = Some m, rs_overridden = rest\<rparr>)"

section \<open>The memory service\<close>

record memory_db =
  memories :: "memory list"
  memory_audit :: "audit_row list"

definition owner_for :: "identity_db \<Rightarrow> string \<Rightarrow> owner option" where
  "owner_for db ws = map_option (\<lambda>r. \<lparr>ow_org = ws_org r, ow_ws = ws\<rparr>) (find_row ws_id ws (workspaces db))"

definition scope_id_for :: "(string \<Rightarrow> string) \<Rightarrow> owner \<Rightarrow> scope \<Rightarrow> string option \<Rightarrow> memory_error + string" where
  "scope_id_for resolve o' scp ref =
     (if scp = ORGANIZATION then Inr (ow_org o') else if scp = WORKSPACE then Inr (ow_ws o')
      else (case ref of None \<Rightarrow> Inl (ScopeNeedsRef scp)
        | Some r \<Rightarrow> if r = [] then Inl (ScopeNeedsRef scp) else Inr (if scp = REPOSITORY then resolve r else r)))"

definition audit_memory :: "int \<Rightarrow> owner \<Rightarrow> string \<Rightarrow> string \<Rightarrow> scope \<Rightarrow> string \<Rightarrow> pyval dict \<Rightarrow> audit_row" where
  "audit_memory now o' action who scp key detail =
     \<lparr>au_ts = now, au_org = Some (ow_org o'), au_workspace = Some (ow_ws o'), au_actor = who, au_action = action,
      au_target = Some (str_lower (scope_name scp) @ '':'' @ key), au_outcome = ''ok'', au_detail = detail\<rparr>"

text \<open>The keyword arguments of \<open>put\<close> that a caller of \<open>remember\<close> may add are the ones in \<open>a\<close>.\<close>

definition remember :: "(pyval \<Rightarrow> string) \<Rightarrow> (string \<Rightarrow> pyval) \<Rightarrow> (string \<Rightarrow> string) \<Rightarrow> int \<Rightarrow> string \<Rightarrow> owner \<Rightarrow> string option \<Rightarrow> put_args \<Rightarrow> memory_db
    \<Rightarrow> memory_error + (write_outcome \<times> memory) \<times> memory_db" where
  "remember dumps loads resolve now i o' ref a db =
     bind_r (scope_id_for resolve o' (pa_scope a) ref) (\<lambda>sid.
     bind_r (put_memory dumps loads now i o' (a\<lparr>pa_scope_id := sid\<rparr>) (memories db)) (\<lambda>((out, m), ms).
       Inr ((out, m), \<lparr>memories = ms, memory_audit = memory_audit db @ [audit_memory now o' ''memory.put'' (pa_author a) (pa_scope a) (pa_key a)
         [(''outcome'', VStr (write_outcome_value out)), (''source'', VStr (memory_source_value (pa_source a))), (''version'', VInt (int (me_version m)))]]\<rparr>)))"

definition plain_put :: "memory_kind \<Rightarrow> scope \<Rightarrow> string \<Rightarrow> pyval \<Rightarrow> memory_source \<Rightarrow> string \<Rightarrow> string \<Rightarrow> put_args" where
  "plain_put kind scp key v source reason who = \<lparr>pa_kind = kind, pa_scope = scp, pa_scope_id = [], pa_key = key, pa_value = v, pa_source = source,
     pa_reason = reason, pa_author = who, pa_confidence = None, pa_ttl = None, pa_evidence = [], pa_metadata = []\<rparr>"

definition set_preference :: "(pyval \<Rightarrow> string) \<Rightarrow> (string \<Rightarrow> pyval) \<Rightarrow> (string \<Rightarrow> string) \<Rightarrow> int \<Rightarrow> string \<Rightarrow> owner \<Rightarrow> scope \<Rightarrow> string option \<Rightarrow> string \<Rightarrow> pyval
    \<Rightarrow> string \<Rightarrow> memory_db \<Rightarrow> memory_error + memory \<times> memory_db" where
  "set_preference dumps loads resolve now i o' scp ref key v who db =
     (case validate_preference key v of None \<Rightarrow> Inl (NotAPreference key)
      | Some clean \<Rightarrow>
         if scp \<notin> set PRECEDENCE then Inl (ScopeUnavailable scp)
         else bind_r (remember dumps loads resolve now i o' ref (plain_put MK_PREFERENCE scp key clean USER_EXPLICIT ''set by a person'' who) db)
           (\<lambda>((out, m), db'). Inr (m, db')))"

definition clear_preference :: "(string \<Rightarrow> string) \<Rightarrow> int \<Rightarrow> owner \<Rightarrow> scope \<Rightarrow> string option \<Rightarrow> string \<Rightarrow> string \<Rightarrow> memory_db \<Rightarrow> memory_error + bool \<times> memory_db" where
  "clear_preference resolve now o' scp ref key who db =
     bind_r (scope_id_for resolve o' scp ref) (\<lambda>sid.
       case active_memory (memories db) o' MK_PREFERENCE scp sid key of None \<Rightarrow> Inr (False, db)
       | Some m \<Rightarrow> Inr (True, \<lparr>memories = snd (forget_memory (memories db) now o' (me_id m)),
           memory_audit = memory_audit db @ [audit_memory now o' ''memory.forget'' who scp key []]\<rparr>))"

definition forget :: "int \<Rightarrow> owner \<Rightarrow> string \<Rightarrow> string \<Rightarrow> memory_db \<Rightarrow> bool \<times> memory_db" where
  "forget now o' i who db =
     (case forget_memory (memories db) now o' i of
        (None, ms) \<Rightarrow> (False, db\<lparr>memories := ms\<rparr>)
      | (Some m, ms) \<Rightarrow> (True, \<lparr>memories = ms, memory_audit = memory_audit db @
          [audit_memory now o' ''memory.forget'' who (me_scope m) (me_key m) [(''memory_id'', VStr (me_id m))]]\<rparr>))"

definition resolve_preferences :: "(string \<Rightarrow> pyval) \<Rightarrow> int \<Rightarrow> owner \<Rightarrow> string option \<Rightarrow> string option \<Rightarrow> string option \<Rightarrow> memory_db
    \<Rightarrow> (string \<times> resolution) list \<times> memory_db" where
  "resolve_preferences loads now o' repo usr flow db =
     (let ms = snd (expire_due (memories db) now o'); seen = visible ms o' repo usr flow [MK_PREFERENCE] [MS_ACTIVE] in
      (map (\<lambda>(key, check). (key, resolve_preference loads now seen key)) PREFERENCES, db\<lparr>memories := ms\<rparr>))"

text \<open>A person's preference is kept as validated; \<open>digest\<close> is the shortened hash of a file's bytes.\<close>

definition PREFIX :: string where
  "PREFIX = ''profile.''"

definition FINGERPRINT_KEY :: string where
  "FINGERPRINT_KEY = PREFIX @ ''_layout''"

definition evidence_changed :: "(string list \<Rightarrow> string list) \<Rightarrow> (string \<Rightarrow> string) \<Rightarrow> filesys \<Rightarrow> string list \<Rightarrow> string dict \<Rightarrow> bool" where
  "evidence_changed follow digest fs root' evidence \<longleftrightarrow>
     list_ex (\<lambda>(rel, h). let target = follow (if prefix ''/'' rel then path_parts rel else root' @ path_parts rel) in
       \<not> is_within target root' \<or> (case file_at fs target of None \<Rightarrow> True | Some b \<Rightarrow> digest b \<noteq> h)) evidence"

definition revalidate :: "(string list \<Rightarrow> string list) \<Rightarrow> (string \<Rightarrow> string) \<Rightarrow> filesys \<Rightarrow> int \<Rightarrow> owner \<Rightarrow> string \<Rightarrow> memory_db \<Rightarrow> memory list \<times> memory_db" where
  "revalidate follow digest fs now o' repo db =
     (let stale = filter (\<lambda>m. me_scope m = REPOSITORY \<and> me_evidence m \<noteq> [] \<and> \<not> prefix PREFIX (me_key m) \<and>
            evidence_changed follow digest fs (follow (path_parts repo)) (me_evidence m)) (visible (memories db) o' (Some repo) None None [] [MS_ACTIVE]) in
      (stale, db\<lparr>memories := foldl (\<lambda>ms m. set_memory_status ms (me_id m) MS_STALE now) (memories db) stale\<rparr>))"

section \<open>Selection of notes\<close>

record selected =
  se_memory :: memory
  se_reason :: string
  se_score :: rat
  se_tokens :: nat

record selection =
  sn_items :: "selected list"
  sn_considered :: nat
  sn_stale :: nat
  sn_low :: nat
  sn_duplicates :: nat
  sn_irrelevant :: nat
  sn_over :: nat

definition STOP_WORDS :: "string list" where
  "STOP_WORDS = [''the'', ''and'', ''for'', ''with'', ''that'', ''this'', ''from'', ''not'', ''are'', ''use'', ''run'', ''tests'', ''test'', ''fix'', ''add'']"

text \<open>\<open>re.findall("[a-z][a-z0-9]{2,}", s)\<close>: a run of letters and digits counts from its first letter.\<close>

function find_words :: "string \<Rightarrow> string list" where
  "find_words s =
     (case s of [] \<Rightarrow> []
      | c # cs \<Rightarrow>
         if is_lower c then
           (let w = c # takeWhile (\<lambda>x. is_lower x \<or> is_digit x) cs in
            if length w \<ge> 3 then w # find_words (drop (length w) s) else find_words cs)
         else find_words cs)"
  by pat_completeness auto
termination
  by (relation "measure length") (auto simp: Let_def)

declare find_words.simps [simp del]

definition note_words :: "string \<Rightarrow> string list" where
  "note_words text = remdups (filter (\<lambda>w. w \<notin> set STOP_WORDS) (find_words (str_lower text)))"

definition render_note :: "(pyval \<Rightarrow> string) \<Rightarrow> (string \<Rightarrow> pyval) \<Rightarrow> memory \<Rightarrow> string" where
  "render_note dumps loads m =
     (let v = loads (me_text m); key = me_key m in
      take 400 ((if prefix PREFIX key then drop (length PREFIX) key else key) @ '': '' @ (case v of VStr s \<Rightarrow> s | _ \<Rightarrow> dumps v)))"

definition estimate_tokens :: "string \<Rightarrow> nat" where
  "estimate_tokens text = max 1 (length text div 4)"

definition MIN_RELEVANCE :: rat where
  "MIN_RELEVANCE = 15 / 100"

text \<open>\<open>metadata.get("applies_to", []) or []\<close>; looping over a value that is not iterable raises.\<close>

definition applies_prefix :: "string list \<Rightarrow> pyval list \<Rightarrow> string option" where
  "applies_prefix paths ps = Option.bind (find (\<lambda>p. case as_str p of None \<Rightarrow> False | Some s \<Rightarrow> list_ex (prefix s) paths) ps) as_str"

definition relevance :: "(pyval \<Rightarrow> string) \<Rightarrow> (string \<Rightarrow> pyval) \<Rightarrow> memory \<Rightarrow> string list \<Rightarrow> string list \<Rightarrow> (rat \<times> string) option" where
  "relevance dumps loads m task_words paths =
     (case py_iter (or_val (dget (me_metadata m) ''applies_to'' (VList [])) (VList [])) of None \<Rightarrow> None
      | Some ps \<Rightarrow>
         (case applies_prefix paths ps of Some p \<Rightarrow> Some (1, ''applies to '' @ p)
          | None \<Rightarrow>
             (let words = note_words (map (\<lambda>c. if c = CHR ''.'' \<or> c = CHR ''_'' then CHR '' '' else c) (me_key m) @ '' '' @ render_note dumps loads m);
                  shared = sort (filter (\<lambda>w. w \<in> set task_words) words) in
              Some (if words = [] then (0, [])
                    else (min 1 (of_nat (length shared) / of_nat (min (length words) 6)),
                          if shared = [] then [] else ''matches '' @ join '', '' (take 4 shared))))))"

definition source_weight :: "memory_source \<Rightarrow> rat" where
  "source_weight s = (case s of USER_EXPLICIT \<Rightarrow> 1 | CONFIGURATION \<Rightarrow> 8 / 10 | REPOSITORY_DETECTED \<Rightarrow> 6 / 10 | _ \<Rightarrow> 4 / 10)"

type_synonym candidate = "rat \<times> memory \<times> string"

definition consider_one :: "(pyval \<Rightarrow> string) \<Rightarrow> (string \<Rightarrow> pyval) \<Rightarrow> int \<Rightarrow> string list \<Rightarrow> string list \<Rightarrow> selection \<times> candidate list \<Rightarrow> memory
    \<Rightarrow> (selection \<times> candidate list) option" where
  "consider_one dumps loads now task_words paths st m =
     (case st of (sel, cands) \<Rightarrow>
       if me_key m = FINGERPRINT_KEY then Some (sel, cands)
       else (let sel = sel\<lparr>sn_considered := Suc (sn_considered sel)\<rparr> in
         case relevance dumps loads m task_words paths of None \<Rightarrow> None
         | Some (rel, why) \<Rightarrow>
            (let is_profile = prefix PREFIX (me_key m); conf = effective_confidence now m in Some
              (if me_status m \<noteq> MS_ACTIVE then (if rel \<ge> MIN_RELEVANCE \<or> is_profile then sel\<lparr>sn_stale := Suc (sn_stale sel)\<rparr> else sel, cands)
               else if conf < MIN_EFFECTIVE_CONFIDENCE then (sel\<lparr>sn_low := Suc (sn_low sel)\<rparr>, cands)
               else if \<not> is_profile \<and> rel < MIN_RELEVANCE then (sel\<lparr>sn_irrelevant := Suc (sn_irrelevant sel)\<rparr>, cands)
               else (let rel' = (if is_profile then max rel MIN_RELEVANCE else rel);
                         why' = (if is_profile \<and> why = [] then ''the repository'' @ [CHR 0x27] @ ''s profile'' else why) in
                 (sel, cands @ [(4 / 10 * rel' + 3 / 10 * source_weight (me_source m) + 3 / 10 * conf, m, why')]))))))"

fun consider_all :: "(pyval \<Rightarrow> string) \<Rightarrow> (string \<Rightarrow> pyval) \<Rightarrow> int \<Rightarrow> string list \<Rightarrow> string list \<Rightarrow> memory list \<Rightarrow> selection \<times> candidate list
    \<Rightarrow> (selection \<times> candidate list) option" where
  "consider_all dumps loads now task_words paths [] st = Some st"
| "consider_all dumps loads now task_words paths (m # ms) st =
     Option.bind (consider_one dumps loads now task_words paths st m) (consider_all dumps loads now task_words paths ms)"

definition keep_narrowest :: "selection \<Rightarrow> candidate list \<Rightarrow> selection \<times> ((string \<times> string) \<times> candidate) list" where
  "keep_narrowest sel cands =
     foldl (\<lambda>(sel, best) c. let k = (memory_kind_value (me_kind (fst (snd c))), me_key (fst (snd c))) in
         (if map_of best k \<noteq> None then sel\<lparr>sn_duplicates := Suc (sn_duplicates sel)\<rparr> else sel, AList.update k c best))
       (sel, []) (sort_key (\<lambda>(score, m, why). (me_scope m, score)) cands)"

definition fill_budget :: "(pyval \<Rightarrow> string) \<Rightarrow> (string \<Rightarrow> pyval) \<Rightarrow> int \<Rightarrow> selection \<Rightarrow> candidate list \<Rightarrow> int \<times> selection" where
  "fill_budget dumps loads budget sel cands =
     foldl (\<lambda>(spent, sel) (score, m, why). let cost = estimate_tokens (render_note dumps loads m) in
         if spent + int cost > budget then (spent, sel\<lparr>sn_over := Suc (sn_over sel)\<rparr>)
         else (spent + int cost, sel\<lparr>sn_items := sn_items sel @ [\<lparr>se_memory = m, se_reason = why, se_score = score, se_tokens = cost\<rparr>]\<rparr>))
       (0, sel) (sort_key (\<lambda>(score, m, why). (- score, me_key m)) cands)"

definition no_selection :: selection where
  "no_selection = \<lparr>sn_items = [], sn_considered = 0, sn_stale = 0, sn_low = 0, sn_duplicates = 0, sn_irrelevant = 0, sn_over = 0\<rparr>"

definition select_notes :: "(pyval \<Rightarrow> string) \<Rightarrow> (string \<Rightarrow> pyval) \<Rightarrow> int \<Rightarrow> owner \<Rightarrow> string option \<Rightarrow> string option \<Rightarrow> string option \<Rightarrow> string \<Rightarrow> string list
    \<Rightarrow> int \<Rightarrow> bool \<Rightarrow> memory_db \<Rightarrow> (selection \<times> memory_db) option" where
  "select_notes dumps loads now o' repo usr flow task paths budget include_user db =
     (let ms = snd (expire_due (memories db) now o');
          everything = visible ms o' repo (if include_user then usr else None) flow [MK_REPOSITORY, MK_PROCEDURAL, MK_EPISODIC] [MS_ACTIVE, MS_STALE, MS_EXPIRED];
          task_words = note_words task @ note_words (join '' '' paths) in
      map_option (\<lambda>(sel, cands). case keep_narrowest sel cands of (sel, best) \<Rightarrow>
          (snd (fill_budget dumps loads budget sel (map snd best)), db\<lparr>memories := ms\<rparr>))
        (consider_all dumps loads now task_words paths everything (no_selection, [])))"

definition selection_tokens :: "selection \<Rightarrow> nat" where
  "selection_tokens s = sum_list (map se_tokens (sn_items s))"

section \<open>The repository profile\<close>

text \<open>
  What detection finds in a repository (\<open>detect\<close> and \<open>layout_fingerprint\<close> of \<open>runtime/repo_profile.py\<close>, which read its files) is the input: a digest of the layout,
  the hashes of the manifests, and per field a value with its files and a confidence.
\<close>

record profile_entry =
  pe_value :: pyval
  pe_files :: "string list"
  pe_confidence :: rat

definition FIELDS :: "string list" where
  "FIELDS = [''languages'', ''package_managers'', ''test_frameworks'', ''test_commands'', ''lint_commands'', ''typecheck_commands'',
     ''build_commands'', ''ci_provider'', ''monorepo'', ''source_roots'', ''test_roots'', ''generated_dirs'', ''vendor_dirs'', ''protected_paths'']"

record refresh_report =
  rr_fast :: bool
  rr_changed :: "string list"
  rr_unchanged :: "string list"
  rr_removed :: "string list"
  rr_kept :: "string list"

definition any_change :: "refresh_report \<Rightarrow> bool" where
  "any_change r \<longleftrightarrow> rr_changed r \<noteq> [] \<or> rr_removed r \<noteq> []"

definition profile_put :: "string \<Rightarrow> string \<Rightarrow> pyval \<Rightarrow> string \<Rightarrow> rat option \<Rightarrow> string dict \<Rightarrow> put_args" where
  "profile_put repo key v reason conf evidence =
     (plain_put MK_REPOSITORY REPOSITORY key v REPOSITORY_DETECTED reason ''detector:repo_profile'')\<lparr>pa_scope_id := repo, pa_confidence := conf, pa_evidence := evidence\<rparr>"

definition entry_evidence :: "(string \<Rightarrow> string) \<Rightarrow> string dict \<Rightarrow> profile_entry \<Rightarrow> string dict" where
  "entry_evidence sha evidence e = map (\<lambda>f. (f, case map_of evidence f of Some h \<Rightarrow> if h = [] then sha f else h | None \<Rightarrow> sha f)) (remdups (pe_files e))"

definition refresh_field :: "(pyval \<Rightarrow> string) \<Rightarrow> (string \<Rightarrow> pyval) \<Rightarrow> int \<Rightarrow> (string \<Rightarrow> string) \<Rightarrow> owner \<Rightarrow> string \<Rightarrow> (string \<Rightarrow> string) \<Rightarrow> string dict
    \<Rightarrow> (string \<Rightarrow> profile_entry option) \<Rightarrow> refresh_report \<times> memory list \<Rightarrow> string \<Rightarrow> memory_error + refresh_report \<times> memory list" where
  "refresh_field dumps loads now ids o' repo sha evidence detected st name =
     (case st of (rep, ms) \<Rightarrow>
       (let key = PREFIX @ name in
        case detected name of
          None \<Rightarrow> Inr (case active_memory ms o' MK_REPOSITORY REPOSITORY repo key of
              Some m \<Rightarrow> if me_source m = REPOSITORY_DETECTED
                then (rep\<lparr>rr_removed := rr_removed rep @ [name]\<rparr>, set_memory_status ms (me_id m) MS_STALE now) else (rep, ms)
            | None \<Rightarrow> (rep, ms))
        | Some e \<Rightarrow>
           bind_r (put_memory dumps loads now (ids name) o'
               (profile_put repo key (pe_value e) (''detected from '' @ (if join '', '' (pe_files e) = [] then ''repository layout'' else join '', '' (pe_files e)))
                  (Some (pe_confidence e)) (entry_evidence sha evidence e)) ms)
             (\<lambda>((out, m), ms'). Inr
               (case out of WO_KEPT_EXISTING \<Rightarrow> rep\<lparr>rr_kept := rr_kept rep @ [name]\<rparr>
                | WO_REINFORCED \<Rightarrow> rep\<lparr>rr_unchanged := rr_unchanged rep @ [name]\<rparr>
                | _ \<Rightarrow> rep\<lparr>rr_changed := rr_changed rep @ [name]\<rparr>, ms'))))"

fun refresh_fields :: "(refresh_report \<times> memory list \<Rightarrow> string \<Rightarrow> memory_error + refresh_report \<times> memory list) \<Rightarrow> string list
    \<Rightarrow> refresh_report \<times> memory list \<Rightarrow> memory_error + refresh_report \<times> memory list" where
  "refresh_fields one [] st = Inr st"
| "refresh_fields one (n # ns) st = bind_r (one st n) (refresh_fields one ns)"

definition no_refresh :: refresh_report where
  "no_refresh = \<lparr>rr_fast = False, rr_changed = [], rr_unchanged = [], rr_removed = [], rr_kept = []\<rparr>"

definition refresh_profile :: "(pyval \<Rightarrow> string) \<Rightarrow> (string \<Rightarrow> pyval) \<Rightarrow> int \<Rightarrow> (string \<Rightarrow> string) \<Rightarrow> owner \<Rightarrow> string \<Rightarrow> (string \<Rightarrow> string) \<Rightarrow> string \<Rightarrow> string dict
    \<Rightarrow> (string \<Rightarrow> profile_entry option) \<Rightarrow> bool \<Rightarrow> memory list \<Rightarrow> memory_error + refresh_report \<times> memory list" where
  "refresh_profile dumps loads now ids o' repo sha digest evidence detected force ms =
     (if \<not> force \<and> (case active_memory ms o' MK_REPOSITORY REPOSITORY repo FINGERPRINT_KEY of None \<Rightarrow> False | Some m \<Rightarrow> loads (me_text m) = VStr digest)
      then Inr (no_refresh\<lparr>rr_fast := True\<rparr>, ms)
      else bind_r (refresh_fields (refresh_field dumps loads now ids o' repo sha evidence detected) FIELDS (no_refresh, ms)) (\<lambda>(rep, ms').
        bind_r (put_memory dumps loads now (ids FINGERPRINT_KEY) o'
            (profile_put repo FINGERPRINT_KEY (VStr digest) ''fingerprint of the manifests and top-level names the profile was built from'' None evidence) ms')
          (\<lambda>(x, ms''). Inr (rep, ms''))))"

datatype profile_error = UnknownField string | ProfileRefused memory_error

definition override_profile :: "(pyval \<Rightarrow> string) \<Rightarrow> (string \<Rightarrow> pyval) \<Rightarrow> int \<Rightarrow> string \<Rightarrow> owner \<Rightarrow> string \<Rightarrow> string \<Rightarrow> pyval \<Rightarrow> string \<Rightarrow> memory list
    \<Rightarrow> profile_error + memory \<times> memory list" where
  "override_profile dumps loads now i o' repo name v who ms =
     (if name \<notin> set FIELDS then Inl (UnknownField name)
      else (case put_memory dumps loads now i o' ((plain_put MK_REPOSITORY REPOSITORY (PREFIX @ name) v USER_EXPLICIT ''set by a person'' who)\<lparr>pa_scope_id := repo\<rparr>) ms of
          Inl e \<Rightarrow> Inl (ProfileRefused e) | Inr ((out, m), ms') \<Rightarrow> Inr (m, ms')))"

section \<open>The operations as steps\<close>

text \<open>Everything that writes to the table on behalf of an owner.\<close>

inductive memory_step :: "(pyval \<Rightarrow> string) \<Rightarrow> (string \<Rightarrow> pyval) \<Rightarrow> owner \<Rightarrow> memory list \<Rightarrow> memory list \<Rightarrow> bool" for dumps loads o' where
  stored: "put_memory dumps loads now i o' a ms = Inr (x, ms') \<Longrightarrow> memory_step dumps loads o' ms ms'"
| forgotten: "memory_step dumps loads o' ms (snd (forget_memory ms now o' i))"
| expired: "m \<in> set ms \<Longrightarrow> readable_by o' m \<Longrightarrow> me_status m = MS_ACTIVE \<Longrightarrow> st \<in> {MS_STALE, MS_EXPIRED} \<Longrightarrow>
    memory_step dumps loads o' ms (set_memory_status ms (me_id m) st now)"

interpretation marked: row_update me_id "\<lambda>(st, now). mark_memory st now"
  by unfold_locales (auto simp: mark_memory_def)

interpretation reinforced: row_update me_id "\<lambda>(now, a). reinforce now a"
  by unfold_locales (auto simp: reinforce_def)

text \<open>What a row must be: the rules of \<open>check_write\<close> hold of it, whatever happened to it since.\<close>

definition memory_row_ok :: "memory \<Rightarrow> bool" where
  "memory_row_ok m \<longleftrightarrow> me_kind m \<in> set ACTIVE_KINDS \<and> me_scope m \<in> set ACTIVE_SCOPES \<and> WRITABLE_BY (me_kind m) (me_source m) \<and> key_ok (me_key m) \<and>
     utf8_length (me_text m) \<le> MAX_VALUE_BYTES \<and> \<not> has_secrets (me_text m) \<and> me_scope_id m \<noteq> [] \<and>
     (me_source m \<notin> {USER_EXPLICIT, CONFIGURATION} \<longrightarrow> \<not> looks_like_instructions (me_text m)) \<and>
     0 \<le> me_confidence m \<and> me_confidence m \<le> 1 \<and> (me_scope m = ORGANIZATION \<longleftrightarrow> me_ws m = None)"

definition is_active :: "memory \<Rightarrow> bool" where
  "is_active m \<longleftrightarrow> me_status m = MS_ACTIVE"

definition memories_ok :: "memory list \<Rightarrow> bool" where
  "memories_ok ms \<longleftrightarrow> distinct (map me_id ms) \<and> distinct (map slot (filter is_active ms)) \<and> (\<forall>m \<in> set ms. memory_row_ok m)"

lemma default_confidence_bounds: "0 \<le> DEFAULT_CONFIDENCE s" "DEFAULT_CONFIDENCE s \<le> 1"
  by (cases s; simp)+

lemma clamp_confidence_bounds: "0 \<le> clamp_confidence a" "clamp_confidence a \<le> 1"
  by (auto simp: clamp_confidence_def default_confidence_bounds split: option.split)

lemma new_memory_ok:
  assumes "refuse_write dumps a = None"
  shows "memory_row_ok (new_memory dumps now i o' a existing)"
  using assms clamp_confidence_bounds [of a]
  by (auto simp: refuse_write_def check_write_def memory_row_ok_def new_memory_def owner_columns_def split: option.splits if_splits)

lemma mark_memory_ok: "memory_row_ok m \<Longrightarrow> memory_row_ok (mark_memory st now m)"
  by (simp add: memory_row_ok_def mark_memory_def)

lemma reinforce_ok: "memory_row_ok m \<Longrightarrow> memory_row_ok (reinforce now a m)"
  using clamp_confidence_bounds [of a] by (auto simp: memory_row_ok_def reinforce_def)

text \<open>Updates that leave a row active, or take it out of the active rows, keep the slots apart.\<close>

lemma active_slots_update:
  assumes "distinct (map slot (filter is_active ms))" and "\<And>m. is_active (f m) \<Longrightarrow> is_active m \<and> slot (f m) = slot m"
  shows "distinct (map slot (filter is_active (map f ms)))" "set (map slot (filter is_active (map f ms))) \<subseteq> set (map slot (filter is_active ms))"
proof -
  have "distinct (map slot (filter is_active (map f ms))) \<and> set (map slot (filter is_active (map f ms))) \<subseteq> set (map slot (filter is_active ms))"
    using assms by (induction ms) (auto split: if_splits)
  then show "distinct (map slot (filter is_active (map f ms)))" "set (map slot (filter is_active (map f ms))) \<subseteq> set (map slot (filter is_active ms))"
    by blast+
qed

lemma update_rows_ok:
  assumes "memories_ok ms" "\<And>m. memory_row_ok m \<Longrightarrow> memory_row_ok (f m)" "\<And>m. me_id (f m) = me_id m"
    and "\<And>m. is_active (f m) \<Longrightarrow> is_active m \<and> slot (f m) = slot m"
  shows "memories_ok (update_row me_id i f ms)"
proof -
  let ?g = "\<lambda>m. if me_id m = i then f m else m"
  have ids: "map me_id (map ?g ms) = map me_id ms" using assms(3) by simp
  have "distinct (map me_id (map ?g ms))" unfolding ids using assms(1) by (simp add: memories_ok_def)
  moreover have "distinct (map slot (filter is_active (map ?g ms)))"
    using assms(1,4) by (intro active_slots_update(1)) (auto simp: memories_ok_def)
  moreover have "\<forall>m \<in> set (map ?g ms). memory_row_ok m" using assms(1,2) by (auto simp: memories_ok_def)
  ultimately show ?thesis unfolding memories_ok_def update_row_def by blast
qed

lemma mark_active: "st \<noteq> MS_ACTIVE \<Longrightarrow> \<not> is_active (mark_memory st now m)"
  by (simp add: is_active_def mark_memory_def)

lemma set_memory_status_ok: "memories_ok ms \<Longrightarrow> st \<noteq> MS_ACTIVE \<Longrightarrow> memories_ok (set_memory_status ms i st now)"
  unfolding set_memory_status_def by (rule update_rows_ok) (auto simp: mark_memory_ok mark_active, simp add: mark_memory_def)

lemma insert_memory_ok:
  assumes "memories_ok ms" "memory_row_ok m" "insert_memory m ms = Inr ms'"
  shows "memories_ok ms'"
proof -
  have ms': "ms' = ms @ [m]" "\<not> has_row me_id (me_id m) ms" "\<forall>x \<in> set ms. is_active x \<longrightarrow> slot x \<noteq> slot m"
    using assms(3) by (auto simp: insert_memory_def list_ex_iff is_active_def split: if_splits)
  have "distinct (map me_id (ms @ [m]))" using distinct_insert [OF ms'(2)] assms(1) by (simp add: memories_ok_def)
  moreover have "distinct (map slot (filter is_active (ms @ [m])))" using assms(1) ms'(3) by (auto simp: memories_ok_def)
  ultimately show ?thesis using assms(1,2) unfolding memories_ok_def ms'(1) by auto
qed

lemma put_memory_cases:
  assumes "put_memory dumps loads now i o' a ms = Inr ((out, m), ms')"
  obtains (created) "refuse_write dumps a = None" "active_memory ms o' (pa_kind a) (pa_scope a) (pa_scope_id a) (pa_key a) = None"
      "out = WO_CREATED" "m = new_memory dumps now i o' a None" "insert_memory m ms = Inr ms'"
  | (reinforced) e where "refuse_write dumps a = None" "active_memory ms o' (pa_kind a) (pa_scope a) (pa_scope_id a) (pa_key a) = Some e"
      "out = WO_REINFORCED" "dumps (loads (me_text e)) = dumps (pa_value a)" "m = reinforce now a e" "ms' = update_row me_id (me_id e) (reinforce now a) ms"
  | (kept) e where "refuse_write dumps a = None" "active_memory ms o' (pa_kind a) (pa_scope a) (pa_scope_id a) (pa_key a) = Some e"
      "out = WO_KEPT_EXISTING" "AUTHORITY (pa_source a) < AUTHORITY (me_source e)" "m = e" "ms' = ms"
  | (updated) e where "refuse_write dumps a = None" "active_memory ms o' (pa_kind a) (pa_scope a) (pa_scope_id a) (pa_key a) = Some e"
      "out = WO_UPDATED" "AUTHORITY (me_source e) \<le> AUTHORITY (pa_source a)" "m = new_memory dumps now i o' a (Some e)"
      "insert_memory m (set_memory_status ms (me_id e) MS_SUPERSEDED now) = Inr ms'"
  using assms by (auto simp: put_memory_def result_simps Let_def split: option.splits if_splits)

lemma memories_ok_step: "memory_step dumps loads o' ms ms' \<Longrightarrow> memories_ok ms \<Longrightarrow> memories_ok ms'"
proof (induction rule: memory_step.induct)
  case (stored now i a ms x ms')
  obtain out m where "put_memory dumps loads now i o' a ms = Inr ((out, m), ms')" using stored(1) by (cases x) auto
  then show ?case
  proof (cases rule: put_memory_cases)
    case created
    show ?thesis by (rule insert_memory_ok [OF stored(2) _ created(5)]) (simp add: created(1,4) new_memory_ok)
  next
    case (reinforced e)
    show ?thesis unfolding reinforced(6) using stored(2)
      by (rule update_rows_ok) (auto simp: reinforce_ok, auto simp: reinforce_def is_active_def slot_def)
  next
    case (kept e)
    then show ?thesis using stored(2) by simp
  next
    case (updated e)
    show ?thesis by (rule insert_memory_ok [OF set_memory_status_ok [OF stored(2)] _ updated(6)]) (simp_all add: updated(1,5) new_memory_ok)
  qed
next
  case (forgotten ms now i)
  then show ?case by (auto simp: forget_memory_def set_memory_status_ok split: option.split)
next
  case (expired m ms st now)
  then show ?case by (auto intro: set_memory_status_ok)
qed

interpretation memory_table: state_machine "\<lambda>ms ms'. \<exists>o'. memory_step dumps loads o' ms ms'" memories_ok for dumps loads
  by unfold_locales (auto intro: memories_ok_step)

abbreviation memory_reachable :: "(pyval \<Rightarrow> string) \<Rightarrow> (string \<Rightarrow> pyval) \<Rightarrow> memory list \<Rightarrow> bool" where
  "memory_reachable dumps loads ms \<equiv> (\<lambda>a b. \<exists>o'. memory_step dumps loads o' a b)\<^sup>*\<^sup>* [] ms"

lemma reachable_memories_ok: "memory_reachable dumps loads ms \<Longrightarrow> memories_ok ms"
  by (erule memory_table.ok_steps) (simp add: memories_ok_def)

section \<open>Authority\<close>

lemma active_unique:
  assumes "memories_ok ms" "x \<in> set ms" "y \<in> set ms" "active_for o' kind scp sid key x" "active_for o' kind scp sid key y"
  shows "x = y"
proof -
  have "inj_on slot (set (filter is_active ms))" using assms(1) by (simp add: memories_ok_def distinct_map)
  moreover have "slot x = slot y" "is_active x" "is_active y"
    using assms(4,5) by (auto simp: active_for_def owned_def slot_def is_active_def split: if_splits)
  ultimately show ?thesis using assms(2,3) by (auto dest: inj_onD)
qed

lemma active_memory_iff:
  "memories_ok ms \<Longrightarrow> active_memory ms o' kind scp sid key = Some e \<longleftrightarrow> e \<in> set ms \<and> active_for o' kind scp sid key e"
proof
  assume "active_memory ms o' kind scp sid key = Some e"
  then show "e \<in> set ms \<and> active_for o' kind scp sid key e" by (auto simp: active_memory_def find_Some_iff)
next
  assume ok: "memories_ok ms" and e: "e \<in> set ms \<and> active_for o' kind scp sid key e"
  then obtain x where x: "active_memory ms o' kind scp sid key = Some x"
    by (cases "active_memory ms o' kind scp sid key") (auto simp: active_memory_def find_None_iff)
  then have "x \<in> set ms" "active_for o' kind scp sid key x" by (auto simp: active_memory_def find_Some_iff)
  with ok e x show "active_memory ms o' kind scp sid key = Some e" using active_unique by blast
qed

lemma same_id: "memories_ok ms \<Longrightarrow> x \<in> set ms \<Longrightarrow> y \<in> set ms \<Longrightarrow> me_id x = me_id y \<Longrightarrow> x = y"
  by (auto simp: memories_ok_def distinct_map dest: inj_onD)

lemma active_for_new:
  assumes "active_for o1 kind scp sid key e" "active_for o' (pa_kind a) (pa_scope a) (pa_scope_id a) (pa_key a) e"
  shows "active_for o1 kind scp sid key (new_memory dumps now i o' a x)"
  using assms by (auto simp: active_for_def owned_def new_memory_def owner_columns_def split: if_splits)

lemma mem_update_row: "r \<in> set rows \<Longrightarrow> (if key r = k then f r else r) \<in> set (update_row key k f rows)"
  by (auto simp: update_row_def)

text \<open>
  C34: A write never lets authority fall. Whatever was stored before, after a write the active record of any owner, kind, scope and key that had one
  still has an active record, of at least the authority of the old one; and its value is the old one, unless the writer's
  authority is at least that of the old record, in which case it may be the value written.
\<close>

theorem authority_never_falls:
  assumes "memory_reachable dumps loads ms" and "put_memory dumps loads now i o' a ms = Inr ((out, m), ms')"
    and "active_memory ms o1 kind scp sid key = Some e"
  shows "\<exists>e'. active_memory ms' o1 kind scp sid key = Some e' \<and> AUTHORITY (me_source e) \<le> AUTHORITY (me_source e') \<and>
    (me_text e' = me_text e \<or> AUTHORITY (me_source e) \<le> AUTHORITY (pa_source a) \<and> me_text e' = dumps (pa_value a))"
proof -
  have ok: "memories_ok ms" by (rule reachable_memories_ok [OF assms(1)])
  have ok': "memories_ok ms'" by (rule memories_ok_step [OF memory_step.stored [OF assms(2)] ok])
  have e: "e \<in> set ms" "active_for o1 kind scp sid key e" using assms(3) active_memory_iff [OF ok] by auto
  have same: ?thesis if "e \<in> set ms'" using that e active_memory_iff [OF ok'] by blast
  from assms(2) show ?thesis
  proof (cases rule: put_memory_cases)
    case created
    then have "e \<in> set ms'" using e(1) by (auto simp: insert_memory_def split: if_splits)
    then show ?thesis by (rule same)
  next
    case (reinforced x)
    let ?e = "if me_id e = me_id x then reinforce now a e else e"
    have "?e \<in> set ms'" unfolding reinforced(6) by (rule mem_update_row [OF e(1)])
    moreover have "active_for o1 kind scp sid key ?e" "me_source ?e = me_source e" "me_text ?e = me_text e"
      using e(2) by (auto simp: active_for_def owned_def reinforce_def)
    ultimately show ?thesis using active_memory_iff [OF ok'] by (intro exI [of _ ?e]) simp
  next
    case (kept x)
    then show ?thesis using same e(1) by simp
  next
    case (updated x)
    have x: "x \<in> set ms" "active_for o' (pa_kind a) (pa_scope a) (pa_scope_id a) (pa_key a) x" using updated(2) active_memory_iff [OF ok] by auto
    have ms': "ms' = set_memory_status ms (me_id x) MS_SUPERSEDED now @ [m]" using updated(6) by (simp add: insert_memory_def split: if_splits)
    show ?thesis
    proof (cases "e = x")
      case True
      have "active_for o1 kind scp sid key m" unfolding updated(5) using active_for_new e(2) x(2) True by blast
      then have "active_memory ms' o1 kind scp sid key = Some m" using active_memory_iff [OF ok'] ms' by simp
      then show ?thesis using updated(4,5) True by (intro exI [of _ m]) (simp add: new_memory_def)
    next
      case False
      then have "me_id e \<noteq> me_id x" using same_id [OF ok e(1) x(1)] by blast
      then have "e \<in> set ms'" unfolding ms' set_memory_status_def using mem_update_row [OF e(1), of me_id "me_id x" "mark_memory MS_SUPERSEDED now"] by simp
      then show ?thesis by (rule same)
    qed
  qed
qed

section \<open>Tenants\<close>

text \<open>The rows an owner cannot read are out of reach of its operations.\<close>

lemma foreign_rows_update:
  assumes "\<And>m. m \<in> set ms \<Longrightarrow> me_id m = i \<Longrightarrow> readable_by o' m \<and> readable_by o' (f m)"
  shows "filter (\<lambda>m. \<not> readable_by o' m) (update_row me_id i f ms) = filter (\<lambda>m. \<not> readable_by o' m) ms"
  using assms by (induction ms) (auto simp: update_row_def)

lemma owned_readable: "active_for o' kind scp sid key m \<Longrightarrow> readable_by o' m"
  by (auto simp: active_for_def owned_def readable_by_def split: if_splits)

lemma foreign_rows_kept:
  assumes "memory_step dumps loads o' ms ms'" "memories_ok ms"
  shows "filter (\<lambda>m. \<not> readable_by o' m) ms' = filter (\<lambda>m. \<not> readable_by o' m) ms"
proof -
  have row: "filter (\<lambda>m. \<not> readable_by o' m) (update_row me_id (me_id x) f ms) = filter (\<lambda>m. \<not> readable_by o' m) ms"
    if "x \<in> set ms" "readable_by o' x" "\<And>m. readable_by o' m \<Longrightarrow> readable_by o' (f m)" for x f
    using same_id [OF assms(2) _ that(1)] that(2,3) by (intro foreign_rows_update) blast
  have marks: "readable_by o' m \<Longrightarrow> readable_by o' (mark_memory st now m)" "readable_by o' m \<Longrightarrow> readable_by o' (reinforce now a m)" for m st now a
    by (simp_all add: readable_by_def mark_memory_def reinforce_def)
  have new: "readable_by o' (new_memory dumps now i o' a x)" for now i a x
    by (simp add: readable_by_def new_memory_def owner_columns_def)
  from assms(1) show ?thesis
  proof (cases rule: memory_step.cases)
    case (stored now i a x)
    obtain out m where "put_memory dumps loads now i o' a ms = Inr ((out, m), ms')" using stored by (cases x) auto
    then show ?thesis
    proof (cases rule: put_memory_cases)
      case created
      then show ?thesis using new by (auto simp: insert_memory_def split: if_splits)
    next
      case (reinforced e)
      then have "e \<in> set ms" "readable_by o' e" using active_memory_iff [OF assms(2)] owned_readable by auto
      then show ?thesis unfolding reinforced(6) by (rule row) (rule marks)
    next
      case (updated e)
      then have "e \<in> set ms" "readable_by o' e" using active_memory_iff [OF assms(2)] owned_readable by auto
      then have "filter (\<lambda>m. \<not> readable_by o' m) (set_memory_status ms (me_id e) MS_SUPERSEDED now) = filter (\<lambda>m. \<not> readable_by o' m) ms"
        unfolding set_memory_status_def by (rule row) (rule marks)
      then show ?thesis using updated(5,6) new by (auto simp: insert_memory_def split: if_splits)
    qed simp
  next
    case (forgotten now i)
    then show ?thesis using row [of _ "mark_memory MS_FORGOTTEN now"] marks
      by (auto simp: forget_memory_def get_memory_def set_memory_status_def find_Some_iff split: option.splits if_splits)
  next
    case (expired m st now)
    then show ?thesis unfolding set_memory_status_def by (auto intro: row marks)
  qed
qed

text \<open>Every function of the service that writes.\<close>

inductive memory_op :: "(pyval \<Rightarrow> string) \<Rightarrow> (string \<Rightarrow> pyval) \<Rightarrow> owner \<Rightarrow> memory_db \<Rightarrow> memory_db \<Rightarrow> bool" for dumps loads o' where
  op_remember: "remember dumps loads resolve now i o' ref a db = Inr (x, db') \<Longrightarrow> memory_op dumps loads o' db db'"
| op_set: "set_preference dumps loads resolve now i o' scp ref key v who db = Inr (m, db') \<Longrightarrow> memory_op dumps loads o' db db'"
| op_clear: "clear_preference resolve now o' scp ref key who db = Inr (b, db') \<Longrightarrow> memory_op dumps loads o' db db'"
| op_forget: "memory_op dumps loads o' db (snd (forget now o' i who db))"
| op_resolve: "memory_op dumps loads o' db (snd (resolve_preferences loads now o' repo usr flow db))"
| op_revalidate: "memory_op dumps loads o' db (snd (revalidate follow digest fs now o' repo db))"
| op_select: "select_notes dumps loads now o' repo usr flow task paths budget include_user db = Some (sel, db') \<Longrightarrow> memory_op dumps loads o' db db'"
| op_refresh: "refresh_profile dumps loads now ids o' repo sha digest evidence detected force (memories db) = Inr (rep, ms) \<Longrightarrow>
    memory_op dumps loads o' db (db\<lparr>memories := ms\<rparr>)"
| op_override: "override_profile dumps loads now i o' repo name v who (memories db) = Inr (m, ms) \<Longrightarrow> memory_op dumps loads o' db (db\<lparr>memories := ms\<rparr>)"

lemma mark_all_steps:
  assumes "distinct (map me_id xs)" "\<forall>x \<in> set xs. x \<in> set ms \<and> readable_by o' x \<and> me_status x = MS_ACTIVE" "st \<in> {MS_STALE, MS_EXPIRED}"
  shows "(memory_step dumps loads o')\<^sup>*\<^sup>* ms (foldl (\<lambda>acc m. set_memory_status acc (me_id m) st now) ms xs)"
  using assms(1,2)
proof (induction xs arbitrary: ms)
  case (Cons x xs)
  let ?ms = "set_memory_status ms (me_id x) st now"
  have one: "memory_step dumps loads o' ms ?ms" using Cons.prems(2) assms(3) by (intro memory_step.expired) auto
  have "\<forall>y \<in> set xs. y \<in> set ?ms \<and> readable_by o' y \<and> me_status y = MS_ACTIVE"
  proof
    fix y assume y: "y \<in> set xs"
    then have "me_id y \<noteq> me_id x" using Cons.prems(1) by (metis distinct.simps(2) image_eqI list.map(2) list.set_map)
    then have "y \<in> set ?ms" using Cons.prems(2) y mem_update_row [of y ms me_id "me_id x" "mark_memory st now"] by (auto simp: set_memory_status_def)
    then show "y \<in> set ?ms \<and> readable_by o' y \<and> me_status y = MS_ACTIVE" using Cons.prems(2) y by simp
  qed
  then have "(memory_step dumps loads o')\<^sup>*\<^sup>* ?ms (foldl (\<lambda>acc m. set_memory_status acc (me_id m) st now) ?ms xs)"
    using Cons.IH Cons.prems(1) by simp
  then show ?case using one by (simp add: converse_rtranclp_into_rtranclp)
qed simp

lemma in_reach_readable: "in_reach o' repo usr flow m \<Longrightarrow> readable_by o' m"
  by (auto simp: in_reach_def readable_by_def)

lemma visible_mem: "m \<in> set (visible ms o' repo usr flow kinds sts) \<longleftrightarrow>
    m \<in> set ms \<and> in_reach o' repo usr flow m \<and> me_status m \<in> set sts \<and> (kinds = [] \<or> me_kind m \<in> set kinds)"
  by (auto simp: visible_def)

lemma visible_ids: "memories_ok ms \<Longrightarrow> distinct (map me_id (visible ms o' repo usr flow kinds sts))"
proof -
  assume "memories_ok ms"
  then have "distinct ms" "inj_on me_id (set ms)" by (auto simp: memories_ok_def distinct_map)
  then show ?thesis by (auto simp: distinct_map visible_def intro: inj_on_subset)
qed

lemma expire_due_steps: "memories_ok ms \<Longrightarrow> (memory_step dumps loads o')\<^sup>*\<^sup>* ms (snd (expire_due ms now o'))"
  unfolding expire_due_def Let_def snd_conv
  by (rule mark_all_steps) (auto simp: memories_ok_def distinct_map intro: inj_on_subset)

lemma refresh_fields_steps:
  assumes "\<And>st n st'. one st n = Inr st' \<Longrightarrow> R\<^sup>*\<^sup>* (snd st) (snd st')" and "refresh_fields one ns st = Inr st'"
  shows "R\<^sup>*\<^sup>* (snd st) (snd st')"
  using assms(2)
proof (induction ns arbitrary: st)
  case (Cons n ns)
  then obtain s where "one st n = Inr s" "refresh_fields one ns s = Inr st'" by (auto simp: result_simps)
  then show ?case using assms(1) [of st n s] Cons.IH [of s] by (meson rtranclp_trans)
qed simp

lemma refresh_field_steps:
  assumes "refresh_field dumps loads now ids o' repo sha evidence detected st n = Inr st'"
  shows "(memory_step dumps loads o')\<^sup>*\<^sup>* (snd st) (snd st')"
proof (cases "detected n")
  case None
  show ?thesis
  proof (cases "active_memory (snd st) o' MK_REPOSITORY REPOSITORY repo (PREFIX @ n)")
    case (Some m)
    then have m: "m \<in> set (snd st)" "active_for o' MK_REPOSITORY REPOSITORY repo (PREFIX @ n) m" by (auto simp: active_memory_def find_Some_iff)
    have "memory_step dumps loads o' (snd st) (set_memory_status (snd st) (me_id m) MS_STALE now)"
      using m(1) owned_readable [OF m(2)] m(2) by (intro memory_step.expired) (auto simp: active_for_def)
    then show ?thesis using assms None Some by (auto simp: refresh_field_def Let_def split: prod.splits if_splits)
  qed (use assms None in \<open>auto simp: refresh_field_def Let_def split: prod.splits\<close>)
next
  case (Some e)
  then obtain args x ms' where "put_memory dumps loads now (ids n) o' args (snd st) = Inr (x, ms')" "snd st' = ms'"
    using assms by (auto simp: refresh_field_def Let_def result_simps split: prod.splits)
  then show ?thesis by (auto intro: memory_step.stored)
qed

lemma forgotten_steps: "(memory_step dumps loads o')\<^sup>*\<^sup>* ms (snd (forget_memory ms now o' i))"
  by (rule r_into_rtranclp) (rule memory_step.forgotten)

lemma forget_steps: "(memory_step dumps loads o')\<^sup>*\<^sup>* (memories db) (memories (snd (forget now o' i who db)))"
proof -
  have "memories (snd (forget now o' i who db)) = snd (forget_memory (memories db) now o' i)"
    by (auto simp: forget_def split: prod.splits option.splits)
  then show ?thesis using forgotten_steps by simp
qed

lemma refresh_profile_steps:
  assumes "refresh_profile dumps loads now ids o' repo sha digest evidence detected force ms = Inr (rep, ms')"
  shows "(memory_step dumps loads o')\<^sup>*\<^sup>* ms ms'"
proof (cases "ms' = ms")
  case False
  then obtain rep1 ms1 args x where r: "refresh_fields (refresh_field dumps loads now ids o' repo sha evidence detected) FIELDS (no_refresh, ms) = Inr (rep1, ms1)"
      "put_memory dumps loads now (ids FINGERPRINT_KEY) o' args ms1 = Inr (x, ms')"
    using assms by (auto simp: refresh_profile_def result_simps split: if_splits)
  have "(memory_step dumps loads o')\<^sup>*\<^sup>* ms ms1"
    using refresh_fields_steps [OF refresh_field_steps r(1)] by simp
  then show ?thesis using memory_step.stored [OF r(2)] by (rule rtranclp.rtrancl_into_rtrancl)
qed simp

lemma select_notes_parts:
  assumes "select_notes dumps loads now o' repo usr flow task paths budget include_user db = Some (sel, db')"
  obtains sel0 cands sel1 best where
    "consider_all dumps loads now (note_words task @ note_words (join '' '' paths)) paths
       (visible (snd (expire_due (memories db) now o')) o' repo (if include_user then usr else None) flow [MK_REPOSITORY, MK_PROCEDURAL, MK_EPISODIC]
          [MS_ACTIVE, MS_STALE, MS_EXPIRED]) (no_selection, []) = Some (sel0, cands)"
    "keep_narrowest sel0 cands = (sel1, best)" "sel = snd (fill_budget dumps loads budget sel1 (map snd best))"
    "db' = db\<lparr>memories := snd (expire_due (memories db) now o')\<rparr>"
  using assms unfolding select_notes_def Let_def by (force split: prod.splits)

lemma stored_steps: "put_memory dumps loads now i o' a ms = Inr (x, ms') \<Longrightarrow> (memory_step dumps loads o')\<^sup>*\<^sup>* ms ms'"
  by (rule r_into_rtranclp) (rule memory_step.stored)

lemma memory_op_steps:
  assumes "memory_op dumps loads o' db db'" "memories_ok (memories db)"
  shows "(memory_step dumps loads o')\<^sup>*\<^sup>* (memories db) (memories db')"
  using assms
proof (induction rule: memory_op.induct)
  case (op_remember resolve now i ref a db x db')
  then show ?case by (auto simp: remember_def result_simps dest: stored_steps split: prod.splits)
next
  case (op_set resolve now i scp ref key v who db m db')
  then show ?case by (auto simp: set_preference_def remember_def result_simps dest: stored_steps split: option.splits if_splits prod.splits)
next
  case (op_clear resolve now scp ref key who db b db')
  then show ?case by (auto simp: clear_preference_def result_simps forgotten_steps split: option.splits)
next
  case (op_forget db now i who)
  show ?case by (rule forget_steps)
next
  case (op_resolve db now repo usr flow)
  then show ?case using expire_due_steps by (simp add: resolve_preferences_def Let_def)
next
  case (op_revalidate db follow digest fs now repo)
  have "distinct (map me_id (filter P (visible (memories db) o' (Some repo) None None [] [MS_ACTIVE])))" for P
    using visible_ids [OF op_revalidate] by (simp add: distinct_map_filter)
  then show ?case unfolding revalidate_def Let_def
    by (auto intro!: mark_all_steps simp: visible_mem in_reach_readable)
next
  case (op_select now repo usr flow task paths budget include_user db sel db')
  from op_select(1) show ?case
    by (rule select_notes_parts) (use expire_due_steps [OF op_select(2)] in simp)
next
  case (op_refresh now ids repo sha digest evidence detected force db rep ms)
  then show ?case using refresh_profile_steps by simp
next
  case (op_override now i repo name v who db m ms)
  then show ?case by (auto simp: override_profile_def dest: stored_steps split: if_splits sum.splits)
qed

text \<open>The states of the service, and what holds of them.\<close>

abbreviation memory_states :: "(pyval \<Rightarrow> string) \<Rightarrow> (string \<Rightarrow> pyval) \<Rightarrow> memory_db \<Rightarrow> bool" where
  "memory_states dumps loads db \<equiv> (\<lambda>a b. \<exists>o'. memory_op dumps loads o' a b)\<^sup>*\<^sup>* \<lparr>memories = [], memory_audit = []\<rparr> db"

lemma steps_ok: "(memory_step dumps loads o')\<^sup>*\<^sup>* ms ms' \<Longrightarrow> memories_ok ms \<Longrightarrow> memories_ok ms'"
  by (induction rule: rtranclp_induct) (auto intro: memories_ok_step)

interpretation memory_service: state_machine "\<lambda>a b. \<exists>o'. memory_op dumps loads o' a b" "\<lambda>db. memories_ok (memories db)" for dumps loads
  by unfold_locales (blast intro: steps_ok dest: memory_op_steps)

lemma memory_states_ok: "memory_states dumps loads db \<Longrightarrow> memories_ok (memories db)"
  by (erule memory_service.ok_steps) (simp add: memories_ok_def)

text \<open>
  C35: Where memories come from. In every state the memory service can reach, each record is of an available kind and scope and from a source
  that may write its kind: a preference comes from a person or from configuration. The JSON text stored as its value is small, matches none of the patterns for secrets
  (the value itself may, see \<open>quoted_secret_is_stored\<close>; reason, evidence and metadata are not scanned) and, if its source is not a person or
  configuration, does not read like an instruction. At most one record is active per owner, kind, scope and key.
\<close>

theorem memories_come_from_allowed_sources:
  assumes "memory_states dumps loads db" and "m \<in> set (memories db)"
  shows "WRITABLE_BY (me_kind m) (me_source m) \<and> me_kind m \<in> set ACTIVE_KINDS \<and> me_scope m \<in> set ACTIVE_SCOPES \<and> \<not> has_secrets (me_text m) \<and>
    utf8_length (me_text m) \<le> MAX_VALUE_BYTES \<and> (me_kind m = MK_PREFERENCE \<longrightarrow> me_source m \<in> {USER_EXPLICIT, CONFIGURATION}) \<and>
    (me_source m \<notin> {USER_EXPLICIT, CONFIGURATION} \<longrightarrow> \<not> looks_like_instructions (me_text m)) \<and>
    (\<forall>m'. m' \<in> set (memories db) \<and> me_status m = MS_ACTIVE \<and> me_status m' = MS_ACTIVE \<and> slot m' = slot m \<longrightarrow> m' = m)"
proof -
  have ok: "memories_ok (memories db)" by (rule memory_states_ok [OF assms(1)])
  then have "inj_on slot (set (filter is_active (memories db)))" by (simp add: memories_ok_def distinct_map)
  then have "\<forall>m'. m' \<in> set (memories db) \<and> me_status m = MS_ACTIVE \<and> me_status m' = MS_ACTIVE \<and> slot m' = slot m \<longrightarrow> m' = m"
    using assms(2) by (auto simp: is_active_def dest: inj_onD)
  moreover have "memory_row_ok m" using ok assms(2) by (simp add: memories_ok_def)
  moreover have "me_kind m = MK_PREFERENCE \<longrightarrow> me_source m \<in> {USER_EXPLICIT, CONFIGURATION}" using calculation(2) by (auto simp: memory_row_ok_def)
  ultimately show ?thesis by (simp add: memory_row_ok_def)
qed

lemma foreign_rows_steps:
  "(memory_step dumps loads o')\<^sup>*\<^sup>* ms ms' \<Longrightarrow> memories_ok ms \<Longrightarrow> filter (\<lambda>m. \<not> readable_by o' m) ms' = filter (\<lambda>m. \<not> readable_by o' m) ms"
proof (induction rule: rtranclp_induct)
  case (step y z)
  then show ?case using foreign_rows_kept [OF step(2) steps_ok [OF step(1)]] by simp
qed simp

text \<open>What another organisation sees depends only on rows that are foreign to this one.\<close>

lemma visible_foreign:
  assumes "ow_org o2 \<noteq> ow_org o1" "filter (\<lambda>m. \<not> readable_by o1 m) ms' = filter (\<lambda>m. \<not> readable_by o1 m) ms"
  shows "visible ms' o2 repo usr flow kinds sts = visible ms o2 repo usr flow kinds sts"
proof -
  let ?P = "\<lambda>m. in_reach o2 repo usr flow m \<and> me_status m \<in> set sts \<and> (kinds = [] \<or> me_kind m \<in> set kinds)"
  have own: "filter ?P xs = filter ?P (filter (\<lambda>m. \<not> readable_by o1 m) xs)" for xs
    using assms(1) by (auto simp: in_reach_def readable_by_def intro!: filter_cong)
  have "filter ?P ms' = filter ?P (filter (\<lambda>m. \<not> readable_by o1 m) ms)" unfolding assms(2) [symmetric] by (rule own)
  also have "\<dots> = filter ?P ms" by (rule own [symmetric])
  finally show ?thesis by (simp only: visible_def)
qed

text \<open>
  C36: Tenants are isolated. In every state of the service, an operation on behalf of one owner leaves every record that owner cannot read exactly as
  it was, so nothing changes in what an owner of another organisation sees; and what an owner sees are records of its own organisation, either of
  the organisation as a whole or of its own workspace.
\<close>

theorem memory_tenants_are_isolated:
  assumes "memory_states dumps loads db" and "memory_op dumps loads o1 db db'"
  shows "filter (\<lambda>m. \<not> readable_by o1 m) (memories db') = filter (\<lambda>m. \<not> readable_by o1 m) (memories db) \<and>
    (ow_org o2 \<noteq> ow_org o1 \<longrightarrow> visible (memories db') o2 repo usr flow kinds sts = visible (memories db) o2 repo usr flow kinds sts) \<and>
    (\<forall>m. m \<in> set (visible (memories db') o2 repo usr flow kinds sts) \<longrightarrow> readable_by o2 m)"
proof -
  have ok: "memories_ok (memories db)" by (rule memory_states_ok [OF assms(1)])
  have kept: "filter (\<lambda>m. \<not> readable_by o1 m) (memories db') = filter (\<lambda>m. \<not> readable_by o1 m) (memories db)"
    by (rule foreign_rows_steps [OF memory_op_steps [OF assms(2) ok] ok])
  have "\<forall>m. m \<in> set (visible (memories db') o2 repo usr flow kinds sts) \<longrightarrow> readable_by o2 m" by (auto simp: visible_mem in_reach_readable)
  then show ?thesis using kept visible_foreign [OF _ kept, of o2 repo usr flow kinds sts] by blast
qed

section \<open>Selections\<close>

text \<open>Who becomes a candidate.\<close>

definition eligible :: "(pyval \<Rightarrow> string) \<Rightarrow> (string \<Rightarrow> pyval) \<Rightarrow> int \<Rightarrow> string list \<Rightarrow> string list \<Rightarrow> memory \<Rightarrow> bool" where
  "eligible dumps loads now task_words paths m \<longleftrightarrow> me_key m \<noteq> FINGERPRINT_KEY \<and> me_status m = MS_ACTIVE \<and>
     MIN_EFFECTIVE_CONFIDENCE \<le> effective_confidence now m \<and>
     (prefix PREFIX (me_key m) \<or> (\<exists>rel why. relevance dumps loads m task_words paths = Some (rel, why) \<and> MIN_RELEVANCE \<le> rel))"

lemma consider_one_cands:
  assumes "consider_one dumps loads now tw paths (sel, cands) m = Some (sel', cands')"
  shows "sn_items sel' = sn_items sel \<and>
    (\<exists>new. cands' = cands @ new \<and> map (fst \<circ> snd) new = (if eligible dumps loads now tw paths m then [m] else []))"
proof (cases "me_key m = FINGERPRINT_KEY")
  case True
  then show ?thesis using assms by (auto simp: consider_one_def eligible_def)
next
  case False
  then obtain rel why where r: "relevance dumps loads m tw paths = Some (rel, why)"
    using assms by (auto simp: consider_one_def Let_def split: option.splits)
  then show ?thesis using assms False
    by (auto simp: consider_one_def eligible_def Let_def not_less not_le split: if_splits)
qed

lemma consider_all_cands:
  assumes "consider_all dumps loads now tw paths ms (sel, cands) = Some (sel', cands')"
  shows "sn_items sel' = sn_items sel \<and> map (fst \<circ> snd) cands' = map (fst \<circ> snd) cands @ filter (eligible dumps loads now tw paths) ms"
  using assms
proof (induction ms arbitrary: sel cands)
  case (Cons m ms)
  then obtain s c where one: "consider_one dumps loads now tw paths (sel, cands) m = Some (s, c)"
      "consider_all dumps loads now tw paths ms (s, c) = Some (sel', cands')" by (cases "consider_one dumps loads now tw paths (sel, cands) m") auto
  from consider_one_cands [OF one(1)] obtain new where
    "sn_items s = sn_items sel" "c = cands @ new" "map (fst \<circ> snd) new = (if eligible dumps loads now tw paths m then [m] else [])" by blast
  then show ?case using Cons.IH [OF one(2)] by (auto split: if_splits)
qed simp

definition note_key :: "candidate \<Rightarrow> string \<times> string" where
  "note_key c = (memory_kind_value (me_kind (fst (snd c))), me_key (fst (snd c)))"

lemma keep_fold:
  "snd (foldl (\<lambda>(sel, best) c. let k = (memory_kind_value (me_kind (fst (snd c))), me_key (fst (snd c))) in
      (if map_of best k \<noteq> None then sel\<lparr>sn_duplicates := Suc (sn_duplicates sel)\<rparr> else sel, AList.update k c best)) (sel, best) cs)
    = foldl (\<lambda>best c. AList.update (note_key c) c best) best cs \<and>
   sn_items (fst (foldl (\<lambda>(sel, best) c. let k = (memory_kind_value (me_kind (fst (snd c))), me_key (fst (snd c))) in
      (if map_of best k \<noteq> None then sel\<lparr>sn_duplicates := Suc (sn_duplicates sel)\<rparr> else sel, AList.update k c best)) (sel, best) cs)) = sn_items sel"
  by (induction cs arbitrary: sel best) (auto simp: Let_def note_key_def)

lemma fold_update_keys: "distinct (map fst best) \<Longrightarrow> distinct (map fst (foldl (\<lambda>best c. AList.update (g c) c best) best cs))"
  by (induction cs arbitrary: best) (auto intro: distinct_update)

lemma fold_update_last:
  "map_of (foldl (\<lambda>best c. AList.update (g c) c best) best cs) k =
     (case filter (\<lambda>c. g c = k) cs of [] \<Rightarrow> map_of best k | xs \<Rightarrow> Some (last xs))"
  by (induction cs arbitrary: best) (auto simp: update_conv' split: list.splits)

lemma sorted_map_last: "sorted (map f xs) \<Longrightarrow> x \<in> set xs \<Longrightarrow> f x \<le> f (last xs)"
  by (induction xs) auto

lemma keep_narrowest_best:
  assumes "keep_narrowest sel cands = (sel', best)"
  shows "sn_items sel' = sn_items sel" "distinct (map fst best)"
    "(k, c) \<in> set best \<Longrightarrow> c \<in> set cands \<and> note_key c = k \<and> (\<forall>d \<in> set cands. note_key d = k \<longrightarrow> me_scope (fst (snd d)) \<le> me_scope (fst (snd c)))"
proof -
  let ?cs = "sort_key (\<lambda>(score, m, why). (me_scope m, score)) cands"
  have best: "best = foldl (\<lambda>best c. AList.update (note_key c) c best) [] ?cs" "sn_items sel' = sn_items sel"
    using keep_fold [of sel "[]" ?cs, folded keep_narrowest_def] unfolding assms fst_conv snd_conv by blast+
  show "sn_items sel' = sn_items sel" by (rule best(2))
  show dist: "distinct (map fst best)" unfolding best(1) by (rule fold_update_keys) simp
  assume "(k, c) \<in> set best"
  then have "map_of best k = Some c" using dist by simp
  then have xs: "filter (\<lambda>c. note_key c = k) ?cs \<noteq> []" "c = last (filter (\<lambda>c. note_key c = k) ?cs)"
    using fold_update_last [of note_key "[]" ?cs k] unfolding best(1) by (auto split: list.splits)
  then have c: "c \<in> set (filter (\<lambda>c. note_key c = k) ?cs)" by (metis last_in_set)
  have sorted: "sorted (map (\<lambda>(score, m, why). (me_scope m, score)) (filter (\<lambda>c. note_key c = k) ?cs))"
    by (rule sorted_filter) simp
  have "me_scope (fst (snd d)) \<le> me_scope (fst (snd c))" if "d \<in> set cands" "note_key d = k" for d
  proof -
    have "d \<in> set (filter (\<lambda>c. note_key c = k) ?cs)" using that by simp
    from sorted_map_last [OF sorted this] have "(me_scope (fst (snd d)), fst d) \<le> (me_scope (fst (snd c)), fst c)"
      unfolding xs(2) [symmetric] by (simp add: case_prod_beta)
    then show ?thesis by auto
  qed
  then show "c \<in> set cands \<and> note_key c = k \<and> (\<forall>d \<in> set cands. note_key d = k \<longrightarrow> me_scope (fst (snd d)) \<le> me_scope (fst (snd c)))" using c by auto
qed

lemma fill_fold:
  assumes "foldl (\<lambda>(spent, sel) (score, m, why). let cost = estimate_tokens (render_note dumps loads m) in
         if spent + int cost > budget then (spent, sel\<lparr>sn_over := Suc (sn_over sel)\<rparr>)
         else (spent + int cost, sel\<lparr>sn_items := sn_items sel @ [\<lparr>se_memory = m, se_reason = why, se_score = score, se_tokens = cost\<rparr>]\<rparr>))
       (spent, sel) cs = (spent', sel')"
    and "spent = int (selection_tokens sel)" "spent \<le> max 0 budget"
  shows "int (selection_tokens sel') \<le> max 0 budget \<and>
    (\<exists>ys. subseq ys cs \<and> map se_memory (sn_items sel') = map se_memory (sn_items sel) @ map (fst \<circ> snd) ys)"
  using assms
proof (induction cs arbitrary: spent sel)
  case Nil
  then show ?case by auto
next
  case (Cons c cs)
  obtain score m why where c: "c = (score, m, why)" by (cases c)
  let ?cost = "estimate_tokens (render_note dumps loads m)"
  show ?case
  proof (cases "spent + int ?cost > budget")
    case True
    have "selection_tokens (sel\<lparr>sn_over := Suc (sn_over sel)\<rparr>) = selection_tokens sel" by (simp add: selection_tokens_def)
    then show ?thesis using Cons.IH [of spent "sel\<lparr>sn_over := Suc (sn_over sel)\<rparr>"] Cons.prems True by (auto simp: c Let_def intro: list_emb_Cons)
  next
    case False
    let ?sel = "sel\<lparr>sn_items := sn_items sel @ [\<lparr>se_memory = m, se_reason = why, se_score = score, se_tokens = ?cost\<rparr>]\<rparr>"
    have "int (selection_tokens ?sel) = spent + int ?cost" using Cons.prems(2) by (simp add: selection_tokens_def)
    then obtain ys where "int (selection_tokens sel') \<le> max 0 budget" "subseq ys cs" "map se_memory (sn_items sel') = map se_memory (sn_items ?sel) @ map (fst \<circ> snd) ys"
      using Cons.IH [of "spent + int ?cost" ?sel] Cons.prems False by (auto simp: c Let_def)
    then show ?thesis by (intro conjI exI [of _ "c # ys"]) (auto simp: c)
  qed
qed

lemma subseq_distinct: "subseq ys xs \<Longrightarrow> distinct xs \<Longrightarrow> distinct ys"
  by (induction rule: list_emb.induct) (auto dest: list_emb_set)

lemma fill_budget_items:
  assumes "sn_items sel = []"
  shows "int (selection_tokens (snd (fill_budget dumps loads budget sel cands))) \<le> max 0 budget"
    "\<exists>ys. subseq ys (sort_key (\<lambda>(score, m, why). (- score, me_key m)) cands) \<and>
       map se_memory (sn_items (snd (fill_budget dumps loads budget sel cands))) = map (fst \<circ> snd) ys"
proof -
  obtain spent' sel' where run: "fill_budget dumps loads budget sel cands = (spent', sel')" by fastforce
  have start: "0 = int (selection_tokens sel)" "0 \<le> max 0 budget" using assms by (simp_all add: selection_tokens_def)
  note fold = fill_fold [OF run [unfolded fill_budget_def] start]
  show "int (selection_tokens (snd (fill_budget dumps loads budget sel cands))) \<le> max 0 budget" using fold run by simp
  show "\<exists>ys. subseq ys (sort_key (\<lambda>(score, m, why). (- score, me_key m)) cands) \<and>
       map se_memory (sn_items (snd (fill_budget dumps loads budget sel cands))) = map (fst \<circ> snd) ys"
    using fold run assms by auto
qed

lemma best_items:
  assumes "keep_narrowest sel cands = (sel', best)" "subseq ys (sort_key g (map snd best))"
  shows "c \<in> set ys \<Longrightarrow> c \<in> set cands \<and> (\<forall>d \<in> set cands. note_key d = note_key c \<longrightarrow> me_scope (fst (snd d)) \<le> me_scope (fst (snd c)))"
    "distinct (map note_key ys)"
proof -
  assume "c \<in> set ys"
  then have "c \<in> set (map snd best)" using list_emb_set [OF assms(2), of c] by auto
  then obtain k where "(k, c) \<in> set best" by auto
  from keep_narrowest_best(3) [OF assms(1) this]
  show "c \<in> set cands \<and> (\<forall>d \<in> set cands. note_key d = note_key c \<longrightarrow> me_scope (fst (snd d)) \<le> me_scope (fst (snd c)))" by blast
next
  have keys: "map note_key (map snd best) = map fst best" using keep_narrowest_best(3) [OF assms(1)] by (auto simp: comp_def)
  have "distinct (map note_key (map snd best))" unfolding keys by (rule keep_narrowest_best(2) [OF assms(1)])
  then have "distinct (map note_key (sort_key g (map snd best)))" unfolding distinct_map [of note_key] by simp
  then show "distinct (map note_key ys)" by (rule subseq_distinct [OF subseq_map [OF assms(2)]])
qed

text \<open>
  A selection of notes is frugal and honest. It costs at most its budget of tokens and shows a key of a kind at most once; each record
  shown is one the owner can see for this repository, user and workflow, active and not expired, of sufficient confidence and relevant to the task; and no record
  that could have been shown for the same key has a narrower scope.
\<close>

theorem selection_is_frugal_and_honest:
  assumes "select_notes dumps loads now o' repo usr flow task paths budget include_user db = Some (sel, db')"
  shows "int (selection_tokens sel) \<le> max 0 budget \<and> distinct (map (\<lambda>s. (me_kind (se_memory s), me_key (se_memory s))) (sn_items sel)) \<and>
    (\<forall>m. m \<in> set (map se_memory (sn_items sel)) \<longrightarrow>
       m \<in> set (memories db') \<and> in_reach o' repo (if include_user then usr else None) flow m \<and> me_kind m \<noteq> MK_PREFERENCE \<and>
       eligible dumps loads now (note_words task @ note_words (join '' '' paths)) paths m \<and>
       (\<forall>m'. m' \<in> set (memories db') \<and> in_reach o' repo (if include_user then usr else None) flow m' \<and> me_kind m' = me_kind m \<and> me_key m' = me_key m \<and>
          eligible dumps loads now (note_words task @ note_words (join '' '' paths)) paths m' \<longrightarrow> me_scope m' \<le> me_scope m))"
  using assms
proof (rule select_notes_parts)
  let ?tw = "note_words task @ note_words (join '' '' paths)" and ?usr = "if include_user then usr else None"
  let ?all = "visible (snd (expire_due (memories db) now o')) o' repo ?usr flow [MK_REPOSITORY, MK_PROCEDURAL, MK_EPISODIC] [MS_ACTIVE, MS_STALE, MS_EXPIRED]"
  fix sel0 cands sel1 best
  assume c: "consider_all dumps loads now ?tw paths ?all (no_selection, []) = Some (sel0, cands)" and k: "keep_narrowest sel0 cands = (sel1, best)"
    and f: "sel = snd (fill_budget dumps loads budget sel1 (map snd best))" and db': "db' = db\<lparr>memories := snd (expire_due (memories db) now o')\<rparr>"
  have cands: "set (map (fst \<circ> snd) cands) = {m \<in> set ?all. eligible dumps loads now ?tw paths m}" "sn_items sel0 = []"
    using consider_all_cands [OF c] by (simp_all add: no_selection_def)
  have "sn_items sel1 = []" using keep_narrowest_best(1) [OF k] cands(2) by simp
  from fill_budget_items [OF this, where dumps = dumps and loads = loads and budget = budget and cands = "map snd best", folded f] obtain ys where
    ys: "int (selection_tokens sel) \<le> max 0 budget" "subseq ys (sort_key (\<lambda>(score, m, why). (- score, me_key m)) (map snd best))"
      "map se_memory (sn_items sel) = map (fst \<circ> snd) ys" by blast
  note in_best = best_items(1) [OF k ys(2)]
  have "distinct (map note_key ys)" by (rule best_items(2) [OF k ys(2)])
  moreover have "map note_key ys = map (\<lambda>(k, key). (memory_kind_value k, key)) (map (\<lambda>m. (me_kind m, me_key m)) (map (fst \<circ> snd) ys))"
    by (simp add: note_key_def comp_def)
  ultimately have "distinct (map (\<lambda>m. (me_kind m, me_key m)) (map (fst \<circ> snd) ys))" by (simp only: distinct_map)
  then have once: "distinct (map (\<lambda>s. (me_kind (se_memory s), me_key (se_memory s))) (sn_items sel))"
    unfolding ys(3) [symmetric] by (simp add: comp_def)
  have shown: "m \<in> set ?all \<and> eligible dumps loads now ?tw paths m \<and>
      (\<forall>m'. m' \<in> set ?all \<and> me_kind m' = me_kind m \<and> me_key m' = me_key m \<and> eligible dumps loads now ?tw paths m' \<longrightarrow> me_scope m' \<le> me_scope m)"
    if m: "m \<in> set (map se_memory (sn_items sel))" for m
  proof -
    obtain c where c: "c \<in> set ys" "m = fst (snd c)" using m unfolding ys(3) by auto
    have "me_scope m' \<le> me_scope m" if "m' \<in> set ?all" "me_kind m' = me_kind m" "me_key m' = me_key m" "eligible dumps loads now ?tw paths m'" for m'
    proof -
      have "m' \<in> set (map (fst \<circ> snd) cands)" unfolding cands(1) using that by blast
      then obtain d where "d \<in> set cands" "m' = fst (snd d)" by auto
      then show ?thesis using in_best [OF c(1)] c(2) that(2,3) by (simp add: note_key_def)
    qed
    moreover have "m \<in> set (map (fst \<circ> snd) cands)" using in_best [OF c(1)] c(2) by auto
    ultimately show ?thesis unfolding cands(1) by blast
  qed
  have pool: "m \<in> set ?all \<longleftrightarrow> m \<in> set (memories db') \<and> in_reach o' repo ?usr flow m \<and> me_status m \<in> {MS_ACTIVE, MS_STALE, MS_EXPIRED} \<and>
      me_kind m \<in> {MK_REPOSITORY, MK_PROCEDURAL, MK_EPISODIC}" for m
    by (simp add: visible_mem db')
  have act: "me_status m = MS_ACTIVE" if "eligible dumps loads now ?tw paths m" for m using that by (simp add: eligible_def)
  show ?thesis
  proof (intro conjI allI impI)
    fix m assume m: "m \<in> set (map se_memory (sn_items sel))"
    note s = shown [OF m]
    show "m \<in> set (memories db')" "in_reach o' repo ?usr flow m" "me_kind m \<noteq> MK_PREFERENCE" "eligible dumps loads now ?tw paths m"
      using s pool by auto
    show "me_scope m' \<le> me_scope m" if m': "m' \<in> set (memories db') \<and> in_reach o' repo ?usr flow m' \<and> me_kind m' = me_kind m \<and> me_key m' = me_key m \<and>
        eligible dumps loads now ?tw paths m'" for m'
      using s pool [of m] pool [of m'] act m' by auto
  qed (use ys(1) once in auto)
qed

section \<open>Examples\<close>

text \<open>A codec for texts, an owner, and the writes of a person and of an agent.\<close>

definition text_of :: "pyval \<Rightarrow> string" where
  "text_of v = (case v of VStr s \<Rightarrow> s | _ \<Rightarrow> ''null'')"

definition acme :: owner where
  "acme = \<lparr>ow_org = ''o'', ow_ws = ''w''\<rparr>"

definition fact_put :: "scope \<Rightarrow> string \<Rightarrow> string \<Rightarrow> memory_source \<Rightarrow> put_args" where
  "fact_put scp sid v source = (plain_put MK_EPISODIC scp ''build'' (VStr v) source ''why'' ''someone'')\<lparr>pa_scope_id := sid\<rparr>"

definition table_after :: "memory_error + 'x \<times> memory list \<Rightarrow> memory list" where
  "table_after r = (case r of Inr (x, ms) \<Rightarrow> ms | Inl e \<Rightarrow> [])"

definition outcome_of_put :: "memory_error + (write_outcome \<times> memory) \<times> memory list \<Rightarrow> write_outcome option" where
  "outcome_of_put r = (case r of Inr ((out, m), ms) \<Rightarrow> Some out | Inl e \<Rightarrow> None)"

definition person_says :: "memory_error + (write_outcome \<times> memory) \<times> memory list" where
  "person_says = put_memory text_of VStr 0 ''m1'' acme (fact_put REPOSITORY ''/r'' ''make'' USER_EXPLICIT) []"

definition agent_says :: "memory_error + (write_outcome \<times> memory) \<times> memory list" where
  "agent_says = put_memory text_of VStr 1 ''m2'' acme (fact_put REPOSITORY ''/r'' ''ninja'' AGENT_INFERENCE) (table_after person_says)"

lemma person_said: "outcome_of_put person_says = Some WO_CREATED" "map me_text (table_after person_says) = [''make'']"
  by code_simp+

lemma agent_said: "outcome_of_put agent_says = Some WO_KEPT_EXISTING"
  by code_simp

lemma outcome_table: "outcome_of_put r = Some out \<Longrightarrow> \<exists>m. r = Inr ((out, m), table_after r)"
  by (cases r) (auto simp: outcome_of_put_def table_after_def)

lemmas said_tables = outcome_table [OF person_said(1)] outcome_table [OF agent_said]

lemma person_said_reachable: "memory_reachable text_of VStr (table_after person_says)"
  using said_tables(1) unfolding person_says_def by (blast intro: r_into_rtranclp memory_step.stored)

theorem authority_never_falls_witness:
  "\<exists>e'. active_memory (table_after agent_says) acme MK_EPISODIC REPOSITORY ''/r'' ''build'' = Some e' \<and> me_text e' = ''make''"
proof -
  obtain m where put: "agent_says = Inr ((WO_KEPT_EXISTING, m), table_after agent_says)" using said_tables(2) by blast
  have "map_option (\<lambda>e. (me_text e, me_source e)) (active_memory (table_after person_says) acme MK_EPISODIC REPOSITORY ''/r'' ''build'') = Some (''make'', USER_EXPLICIT)"
    by code_simp
  then obtain e where e: "active_memory (table_after person_says) acme MK_EPISODIC REPOSITORY ''/r'' ''build'' = Some e" "me_text e = ''make''" "me_source e = USER_EXPLICIT"
    by auto
  from authority_never_falls [OF person_said_reachable put [unfolded agent_says_def] e(1)] e(2,3) show ?thesis
    by (auto simp: agent_says_def fact_put_def plain_put_def)
qed

definition no_memories :: memory_db where
  "no_memories = \<lparr>memories = [], memory_audit = []\<rparr>"

definition state_after :: "memory_error + 'x \<times> memory_db \<Rightarrow> memory_db" where
  "state_after r = (case r of Inr (x, db) \<Rightarrow> db | Inl e \<Rightarrow> no_memories)"

lemma state_after_cases: "memories (state_after r) \<noteq> [] \<Longrightarrow> \<exists>x. r = Inr (x, state_after r)"
  by (cases r) (auto simp: state_after_def no_memories_def)

definition remembered :: "memory_error + (write_outcome \<times> memory) \<times> memory_db" where
  "remembered = remember text_of VStr id 0 ''m1'' acme (Some ''/r'') (fact_put REPOSITORY [] ''make'' USER_EXPLICIT) no_memories"

definition rival :: owner where
  "rival = \<lparr>ow_org = ''p'', ow_ws = ''w''\<rparr>"

definition rival_remembered :: "memory_error + (write_outcome \<times> memory) \<times> memory_db" where
  "rival_remembered = remember text_of VStr id 0 ''m2'' rival (Some ''/r'') (fact_put REPOSITORY [] ''ninja'' USER_EXPLICIT) (state_after remembered)"

lemma remembered_row: "map (\<lambda>m. (me_key m, me_text m, me_status m)) (memories (state_after remembered)) = [(''build'', ''make'', MS_ACTIVE)]"
  by code_simp

lemma rival_row: "map me_text (memories (state_after rival_remembered)) = [''make'', ''ninja'']"
  by code_simp

lemma remembered_ops: "memory_states text_of VStr (state_after remembered)" "memory_op text_of VStr rival (state_after remembered) (state_after rival_remembered)"
proof -
  have rows: "memories (state_after remembered) \<noteq> []" "memories (state_after rival_remembered) \<noteq> []" using remembered_row rival_row by auto
  obtain x where x: "remembered = Inr (x, state_after remembered)" using state_after_cases [OF rows(1)] by blast
  have "memory_op text_of VStr acme no_memories (state_after remembered)" by (rule memory_op.op_remember [OF trans [OF remembered_def [symmetric] x]])
  then show "memory_states text_of VStr (state_after remembered)" unfolding no_memories_def by (blast intro: r_into_rtranclp)
  obtain y where y: "rival_remembered = Inr (y, state_after rival_remembered)" using state_after_cases [OF rows(2)] by blast
  show "memory_op text_of VStr rival (state_after remembered) (state_after rival_remembered)"
    by (rule memory_op.op_remember [OF trans [OF rival_remembered_def [symmetric] y]])
qed

theorem memories_come_from_allowed_sources_witness: "\<exists>m. memories (state_after remembered) = [m] \<and> WRITABLE_BY (me_kind m) (me_source m) \<and> \<not> has_secrets (me_text m)"
proof -
  obtain m where m: "memories (state_after remembered) = [m]" using remembered_row by auto
  then show ?thesis using memories_come_from_allowed_sources [OF remembered_ops(1), of m] by simp
qed

theorem memory_tenants_are_isolated_witness:
  "map me_text (visible (memories (state_after rival_remembered)) acme (Some ''/r'') None None [] [MS_ACTIVE]) = [''make'']"
proof -
  have seen: "map me_text (visible (memories (state_after remembered)) acme (Some ''/r'') None None [] [MS_ACTIVE]) = [''make'']" by code_simp
  have "ow_org acme \<noteq> ow_org rival" by (simp add: acme_def rival_def)
  with memory_tenants_are_isolated [OF remembered_ops, of acme "Some ''/r''" None None "[]" "[MS_ACTIVE]"] seen show ?thesis by simp
qed

definition picked :: "(selection \<times> memory_db) option" where
  "picked = select_notes text_of VStr 5 acme (Some ''/r'') None None ''build it'' [] 10 True (state_after remembered)"

lemma picked_one: "map_option (\<lambda>(sel, db). (map (me_text \<circ> se_memory) (sn_items sel), selection_tokens sel)) picked = Some ([''make''], 2)"
  by code_simp

theorem selection_is_frugal_and_honest_witness:
  "\<exists>sel db. picked = Some (sel, db) \<and> int (selection_tokens sel) \<le> 10 \<and>
     (\<exists>m. map se_memory (sn_items sel) = [m] \<and> me_text m = ''make'' \<and> in_reach acme (Some ''/r'') None None m)"
proof -
  obtain sel db where p: "picked = Some (sel, db)" "map (me_text \<circ> se_memory) (sn_items sel) = [''make'']" using picked_one by auto
  then obtain s where s: "sn_items sel = [s]" "me_text (se_memory s) = ''make''" by auto
  note honest = selection_is_frugal_and_honest [OF p(1) [unfolded picked_def]]
  then have "in_reach acme (Some ''/r'') None None (se_memory s)" using s(1) by simp
  then show ?thesis using honest p(1) s by auto
qed

text \<open>
  Among notes the user's record wins over the workflow's, among preferences the workflow's wins over the user's; the documentation gives one
  precedence for both, with workflows above users.
\<close>

definition user_and_flow :: memory_db where
  "user_and_flow = \<lparr>memories = table_after (put_memory text_of VStr 1 ''m2'' acme (fact_put WORKFLOW ''f'' ''build flow'' USER_EXPLICIT)
     (table_after (put_memory text_of VStr 0 ''m1'' acme (fact_put USER ''u'' ''build user'' USER_EXPLICIT) []))), memory_audit = []\<rparr>"

theorem notes_prefer_users_to_workflows:
  "map_option (\<lambda>(sel, db). map (me_text \<circ> se_memory) (sn_items sel))
     (select_notes text_of VStr 5 acme None (Some ''u'') (Some ''f'') ''build it'' [] 100 True user_and_flow) = Some [''build user''] \<and>
   rs_value (resolve_preference VStr 5 (visible (memories user_and_flow) acme None (Some ''u'') (Some ''f'') [] [MS_ACTIVE]) ''build'') = VStr ''build flow''"
  by code_simp

text \<open>Repeating a person's fact with a lifetime of its own makes a record that was to stay until removed expire, whatever the authority of the writer.\<close>

definition agent_repeats :: "memory_error + (write_outcome \<times> memory) \<times> memory list" where
  "agent_repeats = put_memory text_of VStr 1 ''m2'' acme ((fact_put REPOSITORY ''/r'' ''make'' AGENT_INFERENCE)\<lparr>pa_ttl := Some 1\<rparr>) (table_after person_says)"

theorem lower_authority_shortens_life:
  "map me_expires (table_after person_says) = [None] \<and> map me_expires (table_after agent_repeats) = [Some 2] \<and>
   map me_status (snd (expire_due (table_after agent_repeats) 2 acme)) = [MS_EXPIRED]"
  by code_simp

text \<open>A name made of four wildcards is not a prefix of any identifier, but finds the only record there is.\<close>

theorem wildcards_find_a_record: "map_option me_id (find_memory (table_after person_says) acme ''____'') = Some ''m1''"
  by code_simp

text \<open>
  Only the JSON text of a value is scanned for secrets, and JSON escapes quotes: a value in which a quoted password is assigned matches the patterns
  itself, but its JSON text does not, so it is stored. \<open>json_string\<close> is the JSON of a text without control characters and non-ASCII
  characters.
\<close>

definition json_string :: "string \<Rightarrow> string" where
  "json_string s = [CHR 0x22] @ concat (map (\<lambda>c. if c = CHR 0x22 \<or> c = CHR 0x5C then [CHR 0x5C, c] else [c]) s) @ [CHR 0x22]"

definition quoted_secret :: string where
  "quoted_secret = ''pwd='' @ [CHR 0x22] @ ''abcdefgh'' @ [CHR 0x22]"

definition dumps_text :: "pyval \<Rightarrow> string" where
  "dumps_text v = (case v of VStr s \<Rightarrow> json_string s | _ \<Rightarrow> [])"

theorem quoted_secret_is_stored:
  "has_secrets quoted_secret \<and> refuse_write dumps_text (fact_put REPOSITORY ''/r'' quoted_secret USER_EXPLICIT) = None"
  by code_simp

end
