(* ===== verification/Orchestrator.thy ===== *)
theory Orchestrator
  imports Resume Memory Command_Risk Queue Failures
begin

text \<open>
  The orchestrator of a run (\<open>orchestrator/state_machine.py\<close>, \<open>phases.py\<close>, \<open>run_context.py\<close>, \<open>tools/command_runner.py\<close>,
  \<open>validation/failures.py\<close>): the phases, the policy gate for commands, the wait for a person, patching and its retries, testing with
  the bounded repair loop, promotion, and the driver with its budgets, checkpoints, cancellation and loss of the lease.

  A step of the machine is a function of its state that ends with a value or an exception and a new state (\<open>act\<close>). Everything
  outside the process is a function of the environment \<open>orch_env\<close>, indexed by a counter that grows with every interaction, so a
  theorem for all environments covers every behaviour of the models, the commands, the disk, the persons and the other workers. Where the
  code suspends, the environment may cancel or abandon the run; the running phase is then cut off, at once or at the next suspension when
  its result arrived in the same turn of the event loop, and never inside the critical section. Other processes may change the tables before any transaction.

  Texts for display (event messages and most payloads, hints for a model) are left out. The roles of the agent, the index, the detection of test
  commands, the memory service and the policy chain of the run are inputs.
\<close>

section \<open>Phases\<close>

datatype phase_status = P_PENDING | P_RUNNING | P_COMPLETE | P_FAILED | P_BLOCKED | P_SKIPPED

fun phase_status_value :: "phase_status \<Rightarrow> string" where
  "phase_status_value P_PENDING = ''pending''"
| "phase_status_value P_RUNNING = ''running''"
| "phase_status_value P_COMPLETE = ''complete''"
| "phase_status_value P_FAILED = ''failed''"
| "phase_status_value P_BLOCKED = ''blocked''"
| "phase_status_value P_SKIPPED = ''skipped''"

definition PHASES_AFTER_BLOCK :: "string list" where
  "PHASES_AFTER_BLOCK = [''security_scan'', ''final_report'']"

definition PROMOTABLE_VERDICTS :: "string list" where
  "PROMOTABLE_VERDICTS = [''passed'', ''no_tests'']"

section \<open>Is the task read-only?\<close>

definition SCOPE_ONLY_CONSTRAINTS :: "string list" where
  "SCOPE_ONLY_CONSTRAINTS =
     [''do not modify any other files'', ''don'' @ [squote] @ ''t modify any other files'', ''do not change any other files'',
      ''don'' @ [squote] @ ''t change any other files'', ''do not edit any other files'', ''don'' @ [squote] @ ''t edit any other files'',
      ''keep the change minimal'', ''only modify readme.md'', ''only modify readme'', ''do not change code files'',
      ''don'' @ [squote] @ ''t change code files'']"

definition READ_ONLY_OVERRIDES :: "string list" where
  "READ_ONLY_OVERRIDES =
     [''without applying'', ''do not apply'', ''don'' @ [squote] @ ''t apply'', ''do not edit'', ''don'' @ [squote] @ ''t edit'',
      ''do not modify files'', ''don'' @ [squote] @ ''t modify files'', ''do not make code changes'',
      ''don'' @ [squote] @ ''t make code changes'', ''no code changes'', ''report only'', ''read-only'', ''read only'']"

definition MUTATION_PHRASES :: "string list" where
  "MUTATION_PHRASES = [''write to'', ''save the file'', ''add exactly this sentence'', ''modify readme'', ''update readme'']"

definition MUTATION_RE :: rx where
  "MUTATION_RE = sq [WordB, iwords [''modify'', ''update'', ''add'', ''insert'', ''remove'', ''delete'', ''change'', ''edit'', ''replace'', ''create'',
     ''implement'', ''fix'', ''refactor'', ''rename'', ''move'', ''patch'', ''write''], WordB]"

definition READ_ONLY_INTENT_RE :: rx where
  "READ_ONLY_INTENT_RE = sq [WordB, iwords [''inspect'', ''analyze'', ''analyse'', ''summarize'', ''summarise'', ''explain'', ''describe'',
     ''overview'', ''audit'', ''review'', ''list'', ''architecture summary''], WordB]"

definition scrub_scope_constraints :: "string \<Rightarrow> string" where
  "scrub_scope_constraints text = fold (\<lambda>phrase t. str_replace phrase '' '' t) SCOPE_ONLY_CONSTRAINTS text"

definition has_mutation_intent :: "string \<Rightarrow> bool" where
  "has_mutation_intent task =
     (let scrubbed = scrub_scope_constraints task in
      list_ex (\<lambda>phrase. sublist phrase scrubbed) MUTATION_PHRASES \<or> search MUTATION_RE scrubbed)"

text \<open>The pattern of \<open>_GLOBAL_NEGATION\<close> without its last part, a look-ahead that the match is not followed by \<open>other\<close>.\<close>

definition GLOBAL_NEGATION :: rx where
  "GLOBAL_NEGATION =
     sq [WordB,
         one_of [sq [ilit ''do'', sp1, ilit ''not''], ilit (''don'' @ [squote] @ ''t''), ilit ''dont'', ilit ''never'', sq [ilit ''must'', sp1, ilit ''not''],
           sq [ilit ''should'', sp1, ilit ''not''], ilit (''shouldn'' @ [squote] @ ''t''), ilit ''without'',
           sq [ilit ''please'', sp1, ilit (''don'' @ [squote] @ ''t'')]],
         sp1, opt (Sq (ilit ''actually'') sp1),
         one_of [ilit ''modify'', ilit ''modifying'', ilit ''change'', ilit ''changing'', ilit ''edit'', ilit ''editing'', ilit ''alter'', ilit ''altering'',
           ilit ''touch'', ilit ''touching'', sq [ilit ''write'', sp1, ilit ''to''], sq [ilit ''writing'', sp1, ilit ''to''], ilit ''update'', ilit ''updating'',
           ilit ''apply'', ilit ''applying''],
         sp1, opt (iwords [''any'', ''the'', ''my'', ''our'', ''your'', ''these'', ''those'', ''all'']), spaces, opt (Sq (ilit ''of'') sp1),
         one_of [plural ''file'', ilit ''anything'', ilit ''code'', Sq (ilit ''repo'') (opt (ilit ''sitory'')),
           Sq (ilit ''source'') (opt (Sq sp1 (ilit ''code''))), ilit ''codebase'', ilit ''project''],
         WordB]"

primrec search_not_before :: "rx \<Rightarrow> rx \<Rightarrow> char option \<Rightarrow> string \<Rightarrow> bool" where
  "search_not_before r s prev [] \<longleftrightarrow> list_ex (\<lambda>p. matches s p = []) (matches r (prev, []))"
| "search_not_before r s prev (x # xs) \<longleftrightarrow> list_ex (\<lambda>p. matches s p = []) (matches r (prev, x # xs)) \<or> search_not_before r s (Some x) xs"

definition has_read_only_override :: "string \<Rightarrow> bool" where
  "has_read_only_override task \<longleftrightarrow>
     list_ex (\<lambda>phrase. sublist phrase task) READ_ONLY_OVERRIDES \<or>
     search_not_before GLOBAL_NEGATION (Sq sp1 (ilit ''other'')) None (scrub_scope_constraints task)"

definition has_read_only_intent :: "string \<Rightarrow> bool" where
  "has_read_only_intent task \<longleftrightarrow> search READ_ONLY_INTENT_RE (scrub_scope_constraints task)"

definition detect_read_only :: "string \<Rightarrow> bool \<Rightarrow> bool" where
  "detect_read_only task dry_run =
     (if dry_run then True
      else let lower = str_lower task in
        if has_read_only_override lower then True
        else if has_mutation_intent lower then False
        else has_read_only_intent lower)"

section \<open>Attribution of test failures\<close>

record cmd_result =
  cr_success :: bool
  cr_returncode :: int
  cr_stdout :: string
  cr_stderr :: string
  cr_refused :: "string option"

type_synonym cmd_entry = "string \<times> cmd_result"

text \<open>\<open>extract\<close> stands for \<open>extract_failed_tests\<close>: the identifiers of failed tests found in the output of a test runner.\<close>

definition failure_ids :: "(string \<Rightarrow> string list) \<Rightarrow> (int \<Rightarrow> string) \<Rightarrow> cmd_result \<Rightarrow> string list" where
  "failure_ids extract show_int r =
     (let ids = extract (cr_stdout r @ [newline] @ cr_stderr r) in
      if ids = [] \<and> \<not> cr_success r then [''<exit '' @ show_int (cr_returncode r) @ ''>''] else ids)"

record attribution =
  at_new :: "string list"
  at_preexisting :: "string list"

definition attribute_failures :: "(string \<Rightarrow> string list) \<Rightarrow> (int \<Rightarrow> string) \<Rightarrow> cmd_entry list \<Rightarrow> cmd_entry list \<Rightarrow> attribution dict" where
  "attribute_failures extract show_int patched baseline =
     (let base = foldl (\<lambda>d (c, r). AList.update c (failure_ids extract show_int r) d) [] (filter (\<lambda>(c, r). \<not> cr_success r) baseline) in
      foldl (\<lambda>d (c, r). let ids = failure_ids extract show_int r; earlier = dget base c [] in
          AList.update c \<lparr>at_new = sort (remdups (filter (\<lambda>i. i \<notin> set earlier) ids)),
            at_preexisting = sort (remdups (filter (\<lambda>i. i \<in> set earlier) ids))\<rparr> d)
        [] (filter (\<lambda>(c, r). \<not> cr_success r) patched))"

section \<open>The machine\<close>

record approval_note =
  an_id :: string
  an_type :: string
  an_command :: "string option"
  an_approved :: bool
  an_decision :: decision

text \<open>The fields of \<open>RunContext\<close> that steer the run or are reported; \<open>cx_plan\<close> is empty where the code has \<open>None\<close>.\<close>

record run_context =
  cx_task :: string
  cx_provider :: string
  cx_read_only :: bool
  cx_analysis :: pyval
  cx_plan :: "pyval dict"
  cx_selected_files :: pyval
  cx_selected_context :: pyval
  cx_provenance :: pyval
  cx_memory_notes :: pyval
  cx_test_commands :: "string list"
  cx_diff :: string
  cx_summary :: "summary_row list"
  cx_applied_files :: "string list"
  cx_commands_run :: "cmd_entry list"
  cx_test_results :: "cmd_entry list"
  cx_baseline :: "cmd_entry list"
  cx_secrets :: "secret_finding list"
  cx_approvals :: "approval_note list"
  cx_errors :: "string list"
  cx_verdict :: "string option"
  cx_outcome :: "string option"
  cx_review :: pyval
  cx_counters :: counters

text \<open>
  \<open>Cut\<close> is the cancellation of the phase's task, which no \<open>except Exception\<close> catches; \<open>Lost\<close> is \<open>LeaseLost\<close>. \<open>NoFuel\<close> is not
  an exception of the code: it marks a loop of the model that was given too few turns, which never happens.
\<close>

datatype exc = Cut | Lost | Thrown py_exception | PhaseBlocked string | NoFuel

text \<open>What the machine did outside its tables and its copy of the repository, in order: \<open>RanCommand\<close> (the command as executed),
  \<open>Promoted\<close> (a promotion into the repository was carried out, with what stood in the machine and in the ledger just before).\<close>

record moment =
  at_ctx :: run_context
  at_secret :: bool
  at_abandoned :: bool
  at_events :: "event_row list"

datatype deed = RanCommand string | Promoted moment

record machine =
  m_ctx :: run_context
  m_db :: run_db
  m_checkpoints :: "checkpoint_row list"
  m_reports :: "(string \<times> string) list"
  m_fs :: filesys
  m_ws :: "base_state option"
  m_statuses :: "string \<Rightarrow> phase_status"
  m_blocked :: bool
  m_patch_secret :: bool
  m_no_patch :: bool
  m_reconciled :: "string option"
  m_failure :: "failure option"
  m_cancelled :: bool
  m_abandoned :: bool
  m_critical :: bool
  m_inside :: bool
  m_phase :: "string option"
  m_phase_uid :: "string option"
  m_clock :: rat
  m_policies :: "policy list option"
  m_prefs :: "resolution dict option"
  m_tick :: nat
  m_deeds :: "deed list"

datatype hint = NoHint | EmptyPatchHint | FailureHint

datatype role = Intake | Planner | ContextBuilder | Analysis | Patcher hint | Repair "cmd_entry list" nat | Reviewer

record agent_reply =
  ag_calls :: nat
  ag_tokens :: nat
  ag_retries :: nat
  ag_events :: "(string \<times> pyval dict) list"
  ag_result :: "py_exception + pyval"

text \<open>A signal to the run while it is suspended; \<open>late\<close>: in the turn of the event loop in which the awaited result also arrived.\<close>

datatype signal = Quiet | Cancel (late: bool) | Abandon (late: bool)

datatype reply = TimedOut | Woken signal | Decided decision string "string option" "string option"

record orch_env =
  oe_run :: string
  oe_fence :: "(string \<times> string \<times> nat) option"
  oe_attempt :: nat
  oe_correlation :: string
  oe_ws :: patch_env
  oe_repo :: patch_env
  oe_ws_path :: string
  oe_risk :: risk_env
  oe_lossy :: "string \<Rightarrow> string"
  oe_limits :: limits
  oe_max_test_commands :: nat
  oe_max_check_commands :: nat
  oe_promote_policy :: string
  oe_approval_timeout :: int
  oe_docker :: bool
  oe_version :: string
  oe_replay_base :: "string option dict"
  oe_git :: "string list \<Rightarrow> string option"
  oe_str :: "pyval \<Rightarrow> string"
  oe_show_int :: "int \<Rightarrow> string"
  oe_describe :: "exc \<Rightarrow> string"
  oe_parse_float :: "string \<Rightarrow> pyfloat option"
  oe_message :: "egress_error \<Rightarrow> string"
  oe_digest :: "string list \<Rightarrow> string"
  oe_checksum :: "check_head \<times> string \<times> string \<Rightarrow> string"
  oe_dump :: "pyval \<Rightarrow> string"
  oe_b64 :: "string \<Rightarrow> string"
  oe_extract :: "string \<Rightarrow> string list"
  oe_which :: "string \<Rightarrow> bool"
  oe_report :: "run_context \<Rightarrow> string option"
  oe_now :: "nat \<Rightarrow> int"
  oe_uid :: "nat \<Rightarrow> string"
  oe_monotonic :: "nat \<Rightarrow> rat"
  oe_io :: "nat \<Rightarrow> nat \<Rightarrow> io_outcome"
  oe_signal :: "nat \<Rightarrow> signal"
  oe_others :: "nat \<Rightarrow> run_db \<Rightarrow> run_db"
  oe_chain :: "nat \<Rightarrow> py_exception + policy list"
  oe_preferences :: "nat \<Rightarrow> py_exception + resolution dict"
  oe_memory :: "nat \<Rightarrow> py_exception + pyval \<times> (string \<times> pyval dict) list"
  oe_index :: "nat \<Rightarrow> py_exception option"
  oe_agent :: "nat \<Rightarrow> role \<Rightarrow> run_context \<Rightarrow> agent_reply"
  oe_copy :: "nat \<Rightarrow> filesys \<Rightarrow> py_exception + filesys"
  oe_cleanup :: "nat \<Rightarrow> filesys \<Rightarrow> filesys"
  oe_detect_tests :: "nat \<Rightarrow> string list"
  oe_detect_checks :: "nat \<Rightarrow> string list"
  oe_docker_up :: "nat \<Rightarrow> bool"
  oe_execute :: "nat \<Rightarrow> string \<Rightarrow> filesys \<Rightarrow> cmd_result \<times> filesys"
  oe_reply :: "nat \<Rightarrow> reply"

section \<open>Steps with exceptions\<close>

type_synonym 'a act = "machine \<Rightarrow> (exc + 'a) \<times> machine"

definition ret :: "'a \<Rightarrow> 'a act" where
  "ret x m = (Inr x, m)"

definition throw :: "exc \<Rightarrow> 'a act" where
  "throw e m = (Inl e, m)"

definition bnd :: "'a act \<Rightarrow> ('a \<Rightarrow> 'b act) \<Rightarrow> 'b act" where
  "bnd f g m = (case f m of (Inl e, m') \<Rightarrow> (Inl e, m') | (Inr x, m') \<Rightarrow> g x m')"

definition thn :: "'a act \<Rightarrow> 'b act \<Rightarrow> 'b act" where
  "thn f g = bnd f (\<lambda>_. g)"

definition gets :: "(machine \<Rightarrow> 'a) \<Rightarrow> 'a act" where
  "gets h m = (Inr (h m), m)"

definition alter :: "(machine \<Rightarrow> machine) \<Rightarrow> unit act" where
  "alter h m = (Inr (), h m)"

definition update_ctx :: "(run_context \<Rightarrow> run_context) \<Rightarrow> unit act" where
  "update_ctx h = alter (\<lambda>m. m\<lparr>m_ctx := h (m_ctx m)\<rparr>)"

text \<open>\<open>except Exception\<close>, and \<open>finally\<close> (an exception of the clean-up replaces the result).\<close>

definition rescue :: "'a act \<Rightarrow> (exc \<Rightarrow> 'a act) \<Rightarrow> 'a act" where
  "rescue f h m = (case f m of (Inl e, m') \<Rightarrow> if e = Cut then (Inl e, m') else h e m' | (Inr x, m') \<Rightarrow> (Inr x, m'))"

definition ensure :: "'a act \<Rightarrow> unit act \<Rightarrow> 'a act" where
  "ensure f g m = (case f m of (r, m') \<Rightarrow> (case g m' of (Inl e, m'') \<Rightarrow> (Inl e, m'') | (Inr _, m'') \<Rightarrow> (r, m'')))"

primrec each :: "('a \<Rightarrow> 'b act) \<Rightarrow> 'a list \<Rightarrow> 'b list act" where
  "each f [] = ret []"
| "each f (x # xs) = bnd (f x) (\<lambda>y. bnd (each f xs) (\<lambda>ys. ret (y # ys)))"

definition thrown :: "py_exception \<Rightarrow> 'a act" where
  "thrown e = throw (Thrown e)"

definition or_throw :: "py_exception + 'a \<Rightarrow> 'a act" where
  "or_throw r = (case r of Inl e \<Rightarrow> thrown e | Inr x \<Rightarrow> ret x)"

section \<open>Tables, events and status changes\<close>

text \<open>
  \<open>with get_db() as conn\<close>: other processes may have written before; the fence is checked before the commit and the
  transaction is rolled back when it fails.
\<close>

definition tx :: "orch_env \<Rightarrow> (int \<Rightarrow> string \<Rightarrow> machine \<Rightarrow> run_error + 'a \<times> machine) \<Rightarrow> machine \<Rightarrow> (run_error + 'a) \<times> machine" where
  "tx env body m =
     (let k = m_tick m; m1 = m\<lparr>m_tick := Suc k, m_db := oe_others env k (m_db m)\<rparr> in
      case body (oe_now env k) (oe_uid env k) m1 of
        Inl e \<Rightarrow> (Inl e, m1)
      | Inr (x, m2) \<Rightarrow> (case check_fence (oe_fence env) (m_db m2) of Inl e \<Rightarrow> (Inl e, m1) | Inr _ \<Rightarrow> (Inr x, m2)))"

definition exc_of :: "run_error \<Rightarrow> exc" where
  "exc_of e = (case e of LeaseLost w r \<Rightarrow> Lost | RunNotFound r \<Rightarrow> Thrown (OtherException r)
     | IllegalTransition r a b \<Rightarrow> Thrown (OtherException r) | StaleTransition r \<Rightarrow> Thrown (OtherException r))"

definition stored :: "orch_env \<Rightarrow> (int \<Rightarrow> string \<Rightarrow> machine \<Rightarrow> run_error + 'a \<times> machine) \<Rightarrow> 'a act" where
  "stored env body m = (case tx env body m of (Inl e, m') \<Rightarrow> (Inl (exc_of e), m') | (Inr x, m') \<Rightarrow> (Inr x, m'))"

definition emit :: "orch_env \<Rightarrow> string \<Rightarrow> string option \<Rightarrow> string option \<Rightarrow> pyval dict \<Rightarrow> unit act" where
  "emit env ty phase status payload m =
     (if m_abandoned m then (Inr (), m)
      else stored env (\<lambda>now uid m.
        case append_event now uid (m_db m) (oe_run env) ty
               (event_defaults\<lparr>ea_phase := phase, ea_status := status, ea_payload := payload, ea_attempt := oe_attempt env,
                  ea_correlation := Some (oe_correlation env), ea_causation := m_phase_uid m\<rparr>) of
          ((i, u), db) \<Rightarrow> Inr ((), m\<lparr>m_db := db, m_phase_uid := (if ty = ''phase_started'' then Some u else m_phase_uid m)\<rparr>)) m)"

definition move :: "orch_env \<Rightarrow> run_status \<Rightarrow> string \<Rightarrow> string \<Rightarrow> string option dict \<Rightarrow> bool act" where
  "move env target why who flds m =
     (if m_abandoned m then (Inr False, m)
      else (case tx env (\<lambda>now uid m.
             bind_r (transition now uid (m_db m) (oe_run env) target
               \<lparr>ta_actor = who, ta_reason = why, ta_attempt = oe_attempt env, ta_correlation = Some (oe_correlation env),
                ta_causation = None, ta_fields = flds\<rparr>) (\<lambda>(t, db). Inr (t, m\<lparr>m_db := db\<rparr>))) m of
          (Inr t, m') \<Rightarrow> (Inr True, m')
        | (Inl (IllegalTransition r a b), m') \<Rightarrow> (Inr False, m')
        | (Inl e, m') \<Rightarrow> (Inl (exc_of e), m')))"

definition cancel :: "orch_env \<Rightarrow> unit act" where
  "cancel env = thn (alter (\<lambda>m. m\<lparr>m_cancelled := True\<rparr>)) (thn (move env CANCEL_REQUESTED ''cancel requested'' ''user'' []) (ret ()))"

definition abandon :: "machine \<Rightarrow> machine" where
  "abandon m = m\<lparr>m_abandoned := True, m_cancelled := True\<rparr>"

definition signalled :: "orch_env \<Rightarrow> signal \<Rightarrow> machine \<Rightarrow> machine" where
  "signalled env s m = (case s of Quiet \<Rightarrow> m | Cancel l \<Rightarrow> snd (cancel env m) | Abandon l \<Rightarrow> abandon m)"

definition is_late :: "signal \<Rightarrow> bool" where
  "is_late s = (case s of Quiet \<Rightarrow> False | Cancel l \<Rightarrow> l | Abandon l \<Rightarrow> l)"

text \<open>A suspension: the work of \<open>_interruptible\<close> is cut off here once the run is cancelled, unless it is in its critical section.\<close>

definition suspend :: "orch_env \<Rightarrow> unit act" where
  "suspend env m =
     (let k = m_tick m; s = oe_signal env k;
          m' = signalled env s (m\<lparr>m_tick := Suc k, m_db := oe_others env k (m_db m)\<rparr>) in
      if m_cancelled m' \<and> m_inside m' \<and> \<not> m_critical m' \<and> (m_cancelled m \<or> \<not> is_late s) then (Inl Cut, m') else (Inr (), m'))"

text \<open>\<open>asyncio.to_thread\<close>: the work is done even if its result is no longer awaited.\<close>

definition in_thread :: "orch_env \<Rightarrow> (nat \<Rightarrow> 'a act) \<Rightarrow> 'a act" where
  "in_thread env f m = (case f (m_tick m) m of (r, m1) \<Rightarrow> (case suspend env m1 of (Inl e, m2) \<Rightarrow> (Inl e, m2) | (Inr _, m2) \<Rightarrow> (r, m2)))"

section \<open>Models, budgets, workspace\<close>

definition charge :: "agent_reply \<Rightarrow> run_context \<Rightarrow> run_context" where
  "charge a cx = cx\<lparr>cx_counters := (cx_counters cx)\<lparr>c_model_calls := c_model_calls (cx_counters cx) + ag_calls a,
     c_tokens_used := c_tokens_used (cx_counters cx) + ag_tokens a, c_retries := c_retries (cx_counters cx) + ag_retries a\<rparr>\<rparr>"

definition ask :: "orch_env \<Rightarrow> role \<Rightarrow> pyval act" where
  "ask env r =
     bnd (in_thread env (\<lambda>k. gets (\<lambda>m. oe_agent env k r (m_ctx m)))) (\<lambda>a.
       thn (update_ctx (charge a))
        (thn (bnd (gets m_phase) (\<lambda>p. each (\<lambda>(ty, payload). emit env ty p None payload) (ag_events a)))
          (or_throw (ag_result a))))"

definition ask_dict :: "orch_env \<Rightarrow> role \<Rightarrow> pyval dict act" where
  "ask_dict env r = bnd (ask env r) (\<lambda>v. case as_dict v of Some d \<Rightarrow> ret d | None \<Rightarrow> thrown (OtherException ''not a dict''))"

definition counters_of :: "run_context \<Rightarrow> counters" where
  "counters_of cx = (cx_counters cx)\<lparr>c_commands_run := length (cx_commands_run cx)\<rparr>"

definition charge_time :: "orch_env \<Rightarrow> unit act" where
  "charge_time env = alter (\<lambda>m. let now = oe_monotonic env (m_tick m); c = cx_counters (m_ctx m) in
     m\<lparr>m_tick := Suc (m_tick m), m_clock := now,
       m_ctx := (m_ctx m)\<lparr>cx_counters := c\<lparr>c_wall_seconds := c_wall_seconds c + (now - m_clock m)\<rparr>\<rparr>\<rparr>)"

definition enforce :: "orch_env \<Rightarrow> budget_kind list \<Rightarrow> unit act" where
  "enforce env kinds =
     thn (charge_time env) (bnd (gets (\<lambda>m. exhausted (counters_of (m_ctx m)) (oe_limits env) kinds)) (\<lambda>l.
       case l of None \<Rightarrow> ret () | Some x \<Rightarrow> thrown (PatchQuestError BUDGET_EXHAUSTED ''budget exhausted'' None)))"

definition ws_step :: "bool \<times> filesys \<Rightarrow> unit act" where
  "ws_step r = thn (alter (\<lambda>m. m\<lparr>m_fs := snd r\<rparr>)) (if fst r then ret () else thrown (OtherException ''OSError''))"

text \<open>\<open>_ws\<close>: create the shadow workspace once.\<close>

definition get_ws :: "orch_env \<Rightarrow> base_state act" where
  "get_ws env =
     bnd (gets m_ws) (\<lambda>w. case w of Some base \<Rightarrow> ret base
       | None \<Rightarrow>
          thn (in_thread env (\<lambda>k. bnd (gets m_fs) (\<lambda>fs. bnd (or_throw (oe_copy env k fs)) (\<lambda>fs'. alter (\<lambda>m. m\<lparr>m_fs := fs'\<rparr>)))))
            (thn (if oe_replay_base env = [] then ret ()
                  else in_thread env (\<lambda>k. bnd (gets m_fs) (\<lambda>fs. ws_step (ws_restore (oe_ws env) (oe_io env k) (oe_replay_base env) fs))))
              (thn (alter (\<lambda>m. m\<lparr>m_ws := Some []\<rparr>)) (thn (emit env ''workspace_created'' None None []) (ret [])))))"

definition or_os_error :: "ws_error + 'a \<Rightarrow> 'a act" where
  "or_os_error r = (case r of Inl e \<Rightarrow> thrown (OtherException ''workspace'') | Inr x \<Rightarrow> ret x)"

section \<open>Asking a person\<close>

definition outcome_from_db :: "run_db \<Rightarrow> string \<Rightarrow> outcome_of option" where
  "outcome_from_db db aid =
     (case find (\<lambda>r. ap_id r = aid) (approvals db) of None \<Rightarrow> None
      | Some row \<Rightarrow> (case ap_decision row of None \<Rightarrow> None
         | Some d \<Rightarrow> Some \<lparr>oc_approval = aid, oc_decision = d, oc_status = ap_status row,
             oc_command = (if d = MODIFY then ap_modified_command row else ap_command row)\<rparr>))"

text \<open>
  The wait: a decision is written by another task (\<open>approvals.decide\<close>, outside the fence of this run) and handed over; one that is refused
  leaves the machine waiting until the timeout. A wake-up by \<open>cancel\<close> or \<open>abandon\<close> carries no decision.
\<close>

definition await_reply :: "orch_env \<Rightarrow> string \<Rightarrow> outcome_of option act" where
  "await_reply env aid m =
     (let k = m_tick m; m1 = m\<lparr>m_tick := Suc k, m_db := oe_others env k (m_db m)\<rparr>;
          timed_out = bnd (stored env (\<lambda>now uid m. case expire now (m_db m) aid of (b, db) \<Rightarrow>
              Inr ((b, if b then None else outcome_from_db db aid), m\<lparr>m_db := db\<rparr>)))
            (\<lambda>(b, o'). thn (if b then emit env ''approval_expired'' None None [(''approval_id'', VStr aid)] else ret ()) (ret o')) in
      case oe_reply env k of
        TimedOut \<Rightarrow> timed_out m1
      | Woken s \<Rightarrow> (Inr None, signalled env s m1)
      | Decided d who note modified \<Rightarrow>
         (case decide_approval shlex_split (oe_digest env) (oe_now env k) (oe_uid env k) (m_db m1) (oe_run env) aid d who note modified of
            Inr (o', db) \<Rightarrow> (Inr (Some o'), m1\<lparr>m_db := db\<rparr>)
          | Inl e \<Rightarrow> timed_out m1))"

definition safe_command :: "string option \<Rightarrow> string option" where
  "safe_command command = (case command of None \<Rightarrow> None | Some c \<Rightarrow> if c = [] then None else Some (redact_secrets c))"

definition request_approval :: "orch_env \<Rightarrow> string \<Rightarrow> string option \<Rightarrow> string \<Rightarrow> side_effect \<Rightarrow> string option \<Rightarrow> outcome_of act" where
  "request_approval env kind command why effect risk =
     bnd (stored env (\<lambda>now uid m. Inr (uid, m\<lparr>m_db := request now uid (m_db m) (oe_run env)
         \<lparr>rq_kind = kind, rq_reason = why, rq_command = command, rq_effect = effect, rq_risk = risk, rq_phase = m_phase m,
          rq_requested_by = ''runtime'', rq_timeout = Some (oe_approval_timeout env), rq_resources = []\<rparr>\<rparr>))) (\<lambda>aid.
     thn (emit env ''approval_requested'' None None [(''approval_id'', VStr aid), (''type'', VStr kind)])
     (thn (move env WAITING_APPROVAL ''waiting for a decision'' ''runtime'' [])
     (bnd (ensure (await_reply env aid)
            (bnd (gets m_cancelled) (\<lambda>c. if c then ret () else thn (move env RUNNING ''decision received'' ''runtime'' []) (ret ())))) (\<lambda>got.
     bnd (gets m_cancelled) (\<lambda>c.
       let o' = (case got of Some x \<Rightarrow> if c then None else Some x | None \<Rightarrow> None);
           result = (case o' of Some x \<Rightarrow> x
             | None \<Rightarrow> \<lparr>oc_approval = aid, oc_decision = DENY_ONCE, oc_status = A_DENIED, oc_command = command\<rparr>) in
       thn (if oc_decision result = CANCEL_RUN then cancel env else ret ())
       (thn (update_ctx (\<lambda>cx. cx\<lparr>cx_approvals := cx_approvals cx @
               [\<lparr>an_id = aid, an_type = kind, an_command = safe_command command, an_approved = approved result,
                 an_decision = oc_decision result\<rparr>]\<rparr>))
         (ret result)))))))"

section \<open>The policy gate\<close>

definition policy_chain :: "orch_env \<Rightarrow> policy list act" where
  "policy_chain env =
     bnd (gets m_policies) (\<lambda>ps. case ps of Some chain \<Rightarrow> ret chain
       | None \<Rightarrow> bnd (in_thread env (\<lambda>k. or_throw (oe_chain env k))) (\<lambda>chain. thn (alter (\<lambda>m. m\<lparr>m_policies := Some chain\<rparr>)) (ret chain)))"

definition LOCAL_PROVIDERS :: "string list" where
  "LOCAL_PROVIDERS = [''mock'', ''scripted'', ''recorded'', ''ollama'', ''llamacpp'', ''lmstudio'', ''vllm'', ''sglang'']"

definition check_model_policy :: "orch_env \<Rightarrow> unit act" where
  "check_model_policy env =
     bnd (policy_chain env) (\<lambda>chain. bnd (gets (\<lambda>m. cx_provider (m_ctx m))) (\<lambda>prov.
       if pd_result (evaluate_policy chain (''model.use.'' @ prov) None) = DENY
       then thn (emit env ''model_denied'' None None []) (thrown (PatchQuestError POLICY_DENIED prov None))
       else if prov \<in> set LOCAL_PROVIDERS then ret ()
       else let leak = decide_disclosure (oe_message env) chain [''source_code''] ''model_provider'' (Some prov) in
         if allowed leak then ret ()
         else thn (emit env ''model_denied'' None None []) (thrown (PatchQuestError POLICY_DENIED prov None))))"

definition preferences :: "orch_env \<Rightarrow> resolution dict act" where
  "preferences env =
     bnd (gets m_prefs) (\<lambda>p. case p of Some ps \<Rightarrow> ret ps
       | None \<Rightarrow> bnd (rescue (in_thread env (\<lambda>k. or_throw (oe_preferences env k))) (\<lambda>e. ret [])) (\<lambda>ps.
           thn (alter (\<lambda>m. m\<lparr>m_prefs := Some ps\<rparr>)) (ret ps)))"

definition refusal :: "int \<Rightarrow> string \<Rightarrow> string \<Rightarrow> cmd_result" where
  "refusal code message kind = \<lparr>cr_success = False, cr_returncode = code, cr_stdout = [], cr_stderr = message, cr_refused = Some kind\<rparr>"

text \<open>The process itself; the trace \<open>m_deeds\<close> records what was executed.\<close>

definition execute_command :: "orch_env \<Rightarrow> string \<Rightarrow> nat \<Rightarrow> cmd_result act" where
  "execute_command env command k =
     bnd (gets (\<lambda>m. oe_execute env k command (m_fs m))) (\<lambda>(r, fs). thn (alter (\<lambda>m. m\<lparr>m_fs := fs, m_deeds := m_deeds m @ [RanCommand command]\<rparr>)) (ret r))"

definition run_command_safe :: "orch_env \<Rightarrow> string \<Rightarrow> bool \<Rightarrow> nat \<Rightarrow> cmd_result act" where
  "run_command_safe env command ok k =
     (let d = classify_command (oe_risk env) command (Some (oe_ws_path env)) in
      if rd_level d = BLOCKED then ret (refusal (-2) (''Blocked: '' @ risk_decision.rd_reason d) ''blocked'')
      else if rd_level d = RISKY_ASK \<and> \<not> ok then ret (refusal (-3) (''Approval required: '' @ risk_decision.rd_reason d) ''needs_approval'')
      else execute_command env command k)"

definition run_in_runtime :: "orch_env \<Rightarrow> string \<Rightarrow> bool \<Rightarrow> nat \<Rightarrow> cmd_result act" where
  "run_in_runtime env command ok k =
     (if oe_docker env
      then if oe_docker_up env k then execute_command env command k
           else ret (refusal (-1) ''Docker runtime requested but Docker is not available'' [])
      else run_command_safe env command ok k)"

definition needs_person :: "risk_decision \<Rightarrow> policy_decision \<Rightarrow> resolution dict \<Rightarrow> side_effect \<Rightarrow> bool" where
  "needs_person d v prefs effect \<longleftrightarrow>
     rd_level d = RISKY_ASK \<or> approval_required v \<or>
     ((case map_of prefs ''approval.ask_before_workspace_writes'' of None \<Rightarrow> False | Some p \<Rightarrow> rs_value p = VBool True) \<and>
      effect = WORKSPACE_WRITE \<and> rd_level d \<noteq> BLOCKED)"

definition ask_reason :: "risk_decision \<Rightarrow> policy_decision \<Rightarrow> string" where
  "ask_reason d v = (if rd_level d = RISKY_ASK then risk_decision.rd_reason d
     else if approval_required v then pd_reason v else ''your preference: ask before commands that write in the workspace'')"

fun risk_value :: "risk_level \<Rightarrow> string" where
  "risk_value NO_RISK_AUTO = ''no_risk_auto''"
| "risk_value CAREFUL_AUTO = ''careful_auto''"
| "risk_value RISKY_ASK = ''risky_ask''"
| "risk_value BLOCKED = ''blocked''"

text \<open>Whether the command may run, and the command to run (an approver may have rewritten it).\<close>

definition after_decision :: "orch_env \<Rightarrow> string \<Rightarrow> outcome_of \<Rightarrow> (bool \<times> string) act" where
  "after_decision env command o' =
     (if approved o' \<and> oc_decision o' = MODIFY \<and> oc_command o' \<noteq> None \<and> oc_command o' \<noteq> Some []
      then let c = the (oc_command o') in
        if rd_level (classify_command (oe_risk env) c (Some (oe_ws_path env))) = BLOCKED
        then thn (emit env ''command_blocked'' None None [(''command'', VStr (redact_secrets c))]) (ret (False, c))
        else ret (True, c)
      else ret (approved o', command))"

definition permit :: "orch_env \<Rightarrow> string \<Rightarrow> risk_decision \<Rightarrow> policy_decision \<Rightarrow> side_effect \<Rightarrow> resolution dict \<Rightarrow> (bool \<times> string) act" where
  "permit env command d v effect prefs =
     (if \<not> needs_person d v prefs effect then ret (auto_run d, command)
      else bnd (stored env (\<lambda>now uid m. Inr (has_grant shlex_split (oe_digest env) (m_db m) (oe_run env) command, m))) (\<lambda>granted.
        if granted then thn (emit env ''approval_reused'' None None [(''command'', VStr (redact_secrets command))]) (ret (True, command))
        else bnd (request_approval env ''command'' (Some command) (ask_reason d v) effect (Some (risk_value (rd_level d)))) (after_decision env command)))"

definition perform :: "orch_env \<Rightarrow> side_effect \<Rightarrow> bool \<times> string \<Rightarrow> cmd_entry act" where
  "perform env effect p =
     (case p of (ok, c) \<Rightarrow>
        if \<not> ok then thn (emit env ''command_denied'' None None [(''command'', VStr (redact_secrets c))])
                      (ret (c, refusal (-3) ''Command was not approved'' ''denied''))
        else thn (emit env ''command_started'' None None [(''command'', VStr (redact_secrets c)), (''side_effect'', VStr (side_effect_value effect))])
               (bnd (in_thread env (run_in_runtime env c True)) (\<lambda>r.
                 thn (emit env ''command_executed'' None None [(''command'', VStr (redact_secrets c)), (''returncode'', VInt (cr_returncode r))])
                   (ret (c, r)))))"

definition gate :: "orch_env \<Rightarrow> string \<Rightarrow> policy list \<Rightarrow> cmd_entry act" where
  "gate env command chain =
     (let d = classify_command (oe_risk env) command (Some (oe_ws_path env)); effect = command_effect d;
          v = evaluate_policy chain ''command.run'' (Some effect);
          why = (if pd_result v = DENY then ''policy '' @ [squote] @ pd_source_policy v @ [squote] @ '': '' @ pd_reason v else risk_decision.rd_reason d) in
      if rd_level d = BLOCKED \<or> pd_result v = DENY
      then thn (emit env ''command_blocked'' None None [(''command'', VStr (redact_secrets command))])
             (ret (command, refusal (-2) (''Blocked: '' @ why) ''blocked''))
      else bnd (preferences env) (\<lambda>prefs. bnd (permit env command d v effect prefs) (perform env effect)))"

definition exec :: "orch_env \<Rightarrow> string \<Rightarrow> cmd_entry act" where
  "exec env command =
     thn (enforce env [B_COMMANDS]) (thn (get_ws env) (bnd (policy_chain env) (\<lambda>chain. bnd (gate env command chain) (\<lambda>e.
       thn (update_ctx (\<lambda>cx. cx\<lparr>cx_commands_run := cx_commands_run cx @ [e]\<rparr>)) (ret e)))))"

definition run_commands :: "orch_env \<Rightarrow> string list \<Rightarrow> cmd_entry list act" where
  "run_commands env commands = each (exec env) commands"

section \<open>Applying what a model proposes\<close>

datatype patch_issue = NoIssue | EditIssue edit_error | DiffIssue | EngineIssue "engine_error list"

definition says_no_change :: "(pyval \<Rightarrow> string) \<Rightarrow> pyval dict \<Rightarrow> bool" where
  "says_no_change show_val output \<longleftrightarrow> sublist ''no change'' (str_lower (py_str show_val (dget output ''rationale'' (VStr []))))"

definition proposed_changes :: "orch_env \<Rightarrow> pyval dict \<Rightarrow> (patch_issue + change list) act" where
  "proposed_changes env output =
     (case changes_from_model_output (oe_str env) output of
        Inl e \<Rightarrow> if e = NotIterable then thrown (OtherException ''TypeError'') else ret (Inl (EditIssue e))
      | Inr cs \<Rightarrow>
         if cs = [] \<and> truthy (dget output ''diff'' VNone)
         then (case as_str (dget output ''diff'' VNone) of
                 None \<Rightarrow> thrown (OtherException ''AttributeError'')
               | Some d \<Rightarrow> ret (case changes_from_unified_diff d of None \<Rightarrow> Inl DiffIssue | Some cs' \<Rightarrow> Inr cs'))
         else ret (Inr cs))"

definition note_paths :: "orch_env \<Rightarrow> change list \<Rightarrow> nat \<Rightarrow> unit act" where
  "note_paths env cs k =
     bnd (gets (\<lambda>m. note_touched (oe_ws env) (m_fs m) (filter (\<lambda>p. p \<noteq> []) (map change_path cs)) (case m_ws m of Some b \<Rightarrow> b | None \<Rightarrow> []))) (\<lambda>(base, e).
       thn (alter (\<lambda>m. m\<lparr>m_ws := Some base\<rparr>)) (case e of None \<Rightarrow> ret () | Some x \<Rightarrow> thrown (OtherException ''UnsafePathError'')))"

definition apply_in_workspace :: "orch_env \<Rightarrow> change list \<Rightarrow> nat \<Rightarrow> patch_result act" where
  "apply_in_workspace env cs k =
     bnd (gets (\<lambda>m. apply_changes (oe_ws env) (oe_io env k) (m_fs m) cs [] False)) (\<lambda>(fs, r).
       thn (alter (\<lambda>m. m\<lparr>m_fs := fs\<rparr>)) (case r of Inl x \<Rightarrow> thrown (OtherException ''OSError'') | Inr pr \<Rightarrow> ret pr))"

definition on_base :: "(filesys \<Rightarrow> base_state \<Rightarrow> ws_error + 'a) \<Rightarrow> nat \<Rightarrow> 'a act" where
  "on_base f k = bnd (gets (\<lambda>m. f (m_fs m) (case m_ws m of Some b \<Rightarrow> b | None \<Rightarrow> []))) or_os_error"

definition apply_model_output :: "orch_env \<Rightarrow> pyval dict \<Rightarrow> (bool \<times> patch_issue) act" where
  "apply_model_output env output =
     thn (get_ws env)
     (bnd (proposed_changes env output) (\<lambda>r. case r of Inl issue \<Rightarrow> ret (False, issue)
       | Inr cs \<Rightarrow> if cs = [] then ret (False, NoIssue)
         else thn (in_thread env (note_paths env cs))
           (bnd (in_thread env (apply_in_workspace env cs)) (\<lambda>pr.
             if \<not> pr_success pr
             then thn (if pr_findings pr = [] then ret ()
                       else thn (alter (\<lambda>m. m\<lparr>m_patch_secret := True\<rparr>))
                         (thn (update_ctx (\<lambda>cx. cx\<lparr>cx_secrets := cx_secrets cx @ pr_findings pr\<rparr>))
                           (emit env ''secret_detected'' (Some ''patching'') None [])))
                    (ret (False, EngineIssue (pr_errors pr)))
             else bnd (in_thread env (on_base (ws_diff (oe_lossy env) (oe_ws env)))) (\<lambda>d.
               thn (update_ctx (\<lambda>cx. cx\<lparr>cx_diff := d\<rparr>))
                 (bnd (in_thread env (on_base (ws_summary (oe_lossy env) (oe_ws env)))) (\<lambda>s.
                   thn (update_ctx (\<lambda>cx. cx\<lparr>cx_summary := s, cx_applied_files := map su_path s\<rparr>)) (ret (True, NoIssue)))))))))"

section \<open>The phases before patching\<close>

definition set_status :: "string \<Rightarrow> phase_status \<Rightarrow> unit act" where
  "set_status p st = alter (\<lambda>m. m\<lparr>m_statuses := (m_statuses m)(p := st)\<rparr>)"

definition skip_phase :: "orch_env \<Rightarrow> string \<Rightarrow> unit act" where
  "skip_phase env p = thn (set_status p P_SKIPPED) (emit env ''phase_skipped'' (Some p) (Some ''skipped'') [])"

definition ensure_list :: "(pyval \<Rightarrow> string) \<Rightarrow> pyval \<Rightarrow> pyval list" where
  "ensure_list show_val v = (case v of VList xs \<Rightarrow> xs | VStr s \<Rightarrow> if s = [] then [] else [VStr s] | VNone \<Rightarrow> [] | _ \<Rightarrow> [VStr (py_str show_val v)])"

text \<open>\<open>raw_text[:500] if raw_text else ...\<close>; a value that cannot be sliced raises.\<close>

definition plan_summary :: "pyval \<Rightarrow> py_exception + pyval" where
  "plan_summary v = (if \<not> truthy v then Inr (VStr ''Planning output was not valid JSON.'')
     else (case v of VStr s \<Rightarrow> Inr (VStr (take 500 s)) | VList xs \<Rightarrow> Inr (VList (take 500 xs)) | _ \<Rightarrow> Inl (OtherException ''TypeError'')))"

definition normalize_plan :: "(pyval \<Rightarrow> string) \<Rightarrow> bool \<Rightarrow> pyval dict \<Rightarrow> py_exception + pyval dict" where
  "normalize_plan show_val read_only raw =
     (if truthy (dget raw ''parse_error'' VNone)
      then bind_r (plan_summary (dget raw ''raw_response'' (VStr []))) (\<lambda>summary.
        Inr [(''plan'', summary), (''files_to_inspect'', VList []), (''tests_likely_needed'', VList []),
             (''expected_patch_scope'', VStr (if read_only then ''no modifications'' else ''unknown'')),
             (''stop_conditions'', VList [VStr (if read_only then ''read-only task completed'' else ''task completed'')]),
             (''test_commands'', VList []), (''parse_error'', VBool True)])
      else let scp = dget raw ''expected_patch_scope'' (VStr []) in
        Inr [(''plan'', dget raw ''plan'' (VStr (take 500 (py_str show_val (VDict raw))))),
             (''files_to_inspect'', VList (ensure_list show_val (dget raw ''files_to_inspect'' VNone))),
             (''tests_likely_needed'', VList (ensure_list show_val (dget raw ''tests_likely_needed'' VNone))),
             (''expected_patch_scope'', if read_only \<and> \<not> truthy scp then VStr ''no modifications'' else scp),
             (''stop_conditions'', VList (ensure_list show_val (dget raw ''stop_conditions'' VNone))),
             (''test_commands'', VList (ensure_list show_val (dget raw ''test_commands'' VNone)))])"

definition phase_intake :: "orch_env \<Rightarrow> unit act" where
  "phase_intake env = bnd (ask env Intake) (\<lambda>r. update_ctx (\<lambda>cx. cx\<lparr>cx_plan := AList.update ''intake'' r (cx_plan cx)\<rparr>))"

definition adapt :: "orch_env \<Rightarrow> unit act" where
  "adapt env =
     bnd (rescue (thn (policy_chain env) (bnd (in_thread env (\<lambda>k. or_throw (oe_memory env k))) (\<lambda>b. ret (Some b))))
            (\<lambda>e. thn (emit env ''memory_unavailable'' (Some ''repo_scan'') None []) (ret None))) (\<lambda>b.
       case b of None \<Rightarrow> ret ()
       | Some (notes, events) \<Rightarrow> thn (update_ctx (\<lambda>cx. cx\<lparr>cx_memory_notes := notes\<rparr>))
           (thn (each (\<lambda>(ty, payload). emit env ty (Some ''repo_scan'') None payload) events) (ret ())))"

definition phase_repo_scan :: "orch_env \<Rightarrow> unit act" where
  "phase_repo_scan env =
     thn (emit env ''repo_scan_started'' (Some ''repo_scan'') None [])
     (thn (in_thread env (\<lambda>k. case oe_index env k of None \<Rightarrow> ret () | Some e \<Rightarrow> thrown e))
     (thn (adapt env) (emit env ''repo_scan_completed'' (Some ''repo_scan'') None [])))"

definition only_strings :: "pyval \<Rightarrow> string list" where
  "only_strings v = (case v of VList xs \<Rightarrow> List.map_filter as_str xs | _ \<Rightarrow> [])"

definition phase_planning :: "orch_env \<Rightarrow> unit act" where
  "phase_planning env =
     bnd (ask_dict env Planner) (\<lambda>raw. bnd (gets (\<lambda>m. cx_read_only (m_ctx m))) (\<lambda>ro.
     bnd (or_throw (normalize_plan (oe_str env) ro raw)) (\<lambda>result.
       thn (update_ctx (\<lambda>cx. cx\<lparr>cx_plan := AList.update ''plan'' (VDict result) (cx_plan cx),
              cx_selected_files := dget result ''files_to_inspect'' (VList []),
              cx_test_commands := only_strings (dget result ''test_commands'' (VList []))\<rparr>))
         (emit env ''plan_created'' (Some ''planning'') None result))))"

definition phase_research :: "orch_env \<Rightarrow> unit act" where
  "phase_research env = skip_phase env ''research''"

definition phase_context_building :: "orch_env \<Rightarrow> unit act" where
  "phase_context_building env =
     bnd (ask_dict env ContextBuilder) (\<lambda>result.
       thn (update_ctx (\<lambda>cx. cx\<lparr>cx_selected_context := dget result ''context'' (VDict []),
              cx_selected_files := dget result ''selected_files'' (cx_selected_files cx),
              cx_provenance := dget result ''provenance'' (VList [])\<rparr>))
         (emit env ''context_selected'' (Some ''context_building'') None []))"

definition phase_analysis :: "orch_env \<Rightarrow> unit act" where
  "phase_analysis env =
     bnd (gets (\<lambda>m. cx_read_only (m_ctx m))) (\<lambda>ro.
       if \<not> ro then skip_phase env ''analysis''
       else bnd (ask env Analysis) (\<lambda>v. thn (update_ctx (\<lambda>cx. cx\<lparr>cx_analysis := v\<rparr>)) (emit env ''analysis_generated'' (Some ''analysis'') None [(''analysis'', v)])))"

section \<open>Patching\<close>

definition add_attempt :: "run_context \<Rightarrow> run_context" where
  "add_attempt cx = cx\<lparr>cx_counters := (cx_counters cx)\<lparr>c_patch_attempts := Suc (c_patch_attempts (cx_counters cx))\<rparr>\<rparr>"

definition propose :: "orch_env \<Rightarrow> hint \<Rightarrow> (pyval dict \<times> bool \<times> patch_issue) act" where
  "propose env h =
     bnd (ask_dict env (Patcher h)) (\<lambda>output. thn (update_ctx add_attempt)
       (bnd (apply_model_output env output) (\<lambda>r. ret (output, r))))"

definition silent :: "orch_env \<Rightarrow> pyval dict \<times> bool \<times> patch_issue \<Rightarrow> bool" where
  "silent env p = (case p of (output, applied, issue) \<Rightarrow> \<not> applied \<and> issue = NoIssue \<and> \<not> says_no_change (oe_str env) output)"

definition ask_again :: "orch_env \<Rightarrow> pyval dict \<times> bool \<times> patch_issue \<Rightarrow> (bool \<times> patch_issue) act" where
  "ask_again env p =
     (if \<not> silent env p then ret (snd p)
      else thn (emit env ''patch_empty'' (Some ''patching'') None [])
        (bnd (propose env EmptyPatchHint) (\<lambda>q.
          if \<not> silent env q then ret (snd q)
          else thn (alter (\<lambda>m. m\<lparr>m_no_patch := True\<rparr>)) (thn (emit env ''patch_missing'' (Some ''patching'') None []) (ret (snd q))))))"

text \<open>\<open>for attempt in range(2, attempts + 1)\<close>.\<close>

fun patch_retries :: "orch_env \<Rightarrow> nat list \<Rightarrow> bool \<times> patch_issue \<Rightarrow> (bool \<times> patch_issue) act" where
  "patch_retries env [] r = ret r"
| "patch_retries env (n # ns) r =
     bnd (gets m_patch_secret) (\<lambda>secret.
       if snd r = NoIssue \<or> secret then ret r
       else thn (emit env ''patch_retry'' (Some ''patching'') None [])
         (thn (get_ws env) (bnd (propose env FailureHint) (\<lambda>q. patch_retries env ns (snd q)))))"

definition phase_patching :: "orch_env \<Rightarrow> unit act" where
  "phase_patching env =
     bnd (gets m_ctx) (\<lambda>cx.
       if cx_read_only cx then skip_phase env ''patching''
       else
         thn (case dget (cx_plan cx) ''plan'' (VDict []) of
                VDict p \<Rightarrow> if dget p ''expected_patch_scope'' (VStr []) = VStr ''no modifications''
                           then emit env ''plan_scope_overridden'' (Some ''patching'') None [] else ret ()
              | _ \<Rightarrow> ret ())
         (thn (update_ctx (\<lambda>cx. cx\<lparr>cx_selected_context := (case cx_selected_context cx of VDict d \<Rightarrow> VDict d | _ \<Rightarrow> VDict [])\<rparr>))
         (bnd (propose env NoHint) (\<lambda>p. bnd (ask_again env p) (\<lambda>r.
          bnd (patch_retries env [2..<Suc (max 1 (nat (l_max_patch_attempts (oe_limits env))))] r) (\<lambda>(applied, issue).
            if issue \<noteq> NoIssue
            then thn (emit env ''patch_rejected'' (Some ''patching'') None [])
              (bnd (gets m_patch_secret) (\<lambda>secret. if secret then ret () else thrown (PatchQuestError PATCH_APPLY ''Failed to apply patch'' None)))
            else if \<not> applied then ret ()
            else thn (emit env ''patch_proposed'' (Some ''patching'') None []) (emit env ''patch_staged'' (Some ''patching'') None [])))))))"

section \<open>Checks and tests\<close>

definition phase_static_checks :: "orch_env \<Rightarrow> unit act" where
  "phase_static_checks env =
     bnd (gets m_ctx) (\<lambda>cx.
       if cx_read_only cx \<or> cx_diff cx = [] then skip_phase env ''static_checks''
       else thn (get_ws env) (bnd (gets (\<lambda>m. take (oe_max_check_commands env) (oe_detect_checks env (m_tick m)))) (\<lambda>commands.
         if commands = [] then skip_phase env ''static_checks'' else thn (run_commands env commands) (ret ()))))"

definition tool_available :: "orch_env \<Rightarrow> string \<Rightarrow> bool" where
  "tool_available env c = (case shlex_split c of None \<Rightarrow> False | Some argv \<Rightarrow> argv \<noteq> [] \<and> oe_which env (hd argv))"

definition usable :: "orch_env \<Rightarrow> string \<Rightarrow> bool" where
  "usable env c \<longleftrightarrow> auto_run (classify_command (oe_risk env) c (Some (oe_ws_path env))) \<and> tool_available env c"

text \<open>The chosen commands, and whether a preference was given up.\<close>

definition pick_test_commands :: "orch_env \<Rightarrow> string list \<Rightarrow> string list \<Rightarrow> resolution dict \<Rightarrow> string list \<times> bool" where
  "pick_test_commands env planned detected prefs =
     (let limit = oe_max_test_commands env;
          preferred = (case map_of prefs ''test.commands'' of None \<Rightarrow> None
            | Some p \<Rightarrow> if rs_winner p = None then None else Some (filter (usable env) (only_strings (rs_value p))));
          given_up = (preferred = Some []);
          fallback = (let ps = filter (usable env) planned in if ps \<noteq> [] then ps else filter (tool_available env) detected) in
      case preferred of Some (c # cs) \<Rightarrow> (take limit (c # cs), False) | _ \<Rightarrow> (take limit fallback, given_up))"

definition run_baseline :: "orch_env \<Rightarrow> string list \<Rightarrow> cmd_entry list act" where
  "run_baseline env commands =
     bnd (get_ws env) (\<lambda>base0. bnd (in_thread env (on_base (ws_checkpoint (oe_ws env)))) (\<lambda>patched.
       thn (in_thread env (\<lambda>k. bnd (gets (\<lambda>m. restore_base (oe_ws env) (oe_io env k) (case m_ws m of Some b \<Rightarrow> b | None \<Rightarrow> []) (m_fs m))) ws_step))
       (thn (emit env ''baseline_started'' (Some ''testing'') None [])
         (ensure (run_commands env commands)
           (in_thread env (\<lambda>k. bnd (gets (\<lambda>m. ws_restore (oe_ws env) (oe_io env k) patched (m_fs m))) ws_step))))))"

definition failing_of :: "cmd_entry list \<Rightarrow> cmd_entry list" where
  "failing_of results = filter (\<lambda>(c, r). \<not> cr_success r) results"

definition test_round :: "orch_env \<Rightarrow> string list \<Rightarrow> cmd_entry list act" where
  "test_round env commands =
     bnd (run_commands env commands) (\<lambda>results.
       thn (update_ctx (\<lambda>cx. cx\<lparr>cx_test_results := cx_test_results cx @ results\<rparr>)) (ret (failing_of results)))"

definition add_round :: "run_context \<Rightarrow> run_context" where
  "add_round cx = cx\<lparr>cx_counters := (cx_counters cx)\<lparr>c_repair_rounds := Suc (c_repair_rounds (cx_counters cx))\<rparr>\<rparr>"

text \<open>\<open>while failing\<close>. The fuel is what the limit leaves, plus one for the turn that finds the limit reached.\<close>

fun repair_loop :: "orch_env \<Rightarrow> string list \<Rightarrow> nat \<Rightarrow> bool \<Rightarrow> cmd_entry list \<Rightarrow> cmd_entry list act" where
  "repair_loop env commands fuel baseline_done failing =
     (if failing = [] then ret failing
      else case fuel of 0 \<Rightarrow> throw NoFuel
      | Suc n \<Rightarrow>
        thn (if baseline_done then ret ()
             else bnd (run_baseline env commands) (\<lambda>b. update_ctx (\<lambda>cx. cx\<lparr>cx_baseline := b\<rparr>)))
        (bnd (gets (\<lambda>m. c_repair_rounds (cx_counters (m_ctx m)))) (\<lambda>rounds.
          if int rounds \<ge> l_max_repair_rounds (oe_limits env) then ret failing
          else thn (update_ctx add_round)
            (thn (emit env ''repair_started'' (Some ''testing'') None [])
            (bnd (ask_dict env (Repair failing (Suc rounds))) (\<lambda>output.
            (bnd (apply_model_output env output) (\<lambda>(applied, issue).
              if issue \<noteq> NoIssue \<or> \<not> applied then thn (emit env ''patch_rejected'' (Some ''testing'') None []) (ret failing)
              else bnd (test_round env commands) (repair_loop env commands n True)))))))))"

declare repair_loop.simps [simp del]

definition verdict_of :: "orch_env \<Rightarrow> cmd_entry list \<Rightarrow> cmd_entry list \<Rightarrow> string" where
  "verdict_of env failing baseline =
     (if failing = [] then ''passed''
      else if list_ex (\<lambda>(c, a). at_new a \<noteq> []) (attribute_failures (oe_extract env) (oe_show_int env) failing baseline) then ''regression''
      else ''unresolved'')"

definition run_tests :: "orch_env \<Rightarrow> string list \<Rightarrow> unit act" where
  "run_tests env commands =
     thn (emit env ''tests_started'' (Some ''testing'') None [])
     (bnd (test_round env commands) (\<lambda>failing0.
      bnd (gets (\<lambda>m. c_repair_rounds (cx_counters (m_ctx m)))) (\<lambda>rounds.
      bnd (repair_loop env commands (Suc (nat (l_max_repair_rounds (oe_limits env)) - rounds)) False failing0) (\<lambda>failing.
      thn (update_ctx (\<lambda>cx. cx\<lparr>cx_verdict := Some (verdict_of env failing (cx_baseline cx))\<rparr>))
        (emit env ''tests_completed'' (Some ''testing'') None [])))))"

definition phase_testing :: "orch_env \<Rightarrow> unit act" where
  "phase_testing env =
     bnd (gets m_ctx) (\<lambda>cx.
       if cx_read_only cx \<or> cx_diff cx = [] then skip_phase env ''testing''
       else thn (get_ws env) (bnd (preferences env) (\<lambda>prefs.
         bnd (gets (\<lambda>m. pick_test_commands env (cx_test_commands (m_ctx m)) (oe_detect_tests env (m_tick m)) prefs)) (\<lambda>(commands, given_up).
         thn (if given_up then emit env ''assumption_invalidated'' (Some ''testing'') None [] else ret ())
         (if commands = [] then thn (update_ctx (\<lambda>cx. cx\<lparr>cx_verdict := Some ''no_tests''\<rparr>)) (skip_phase env ''testing'')
          else thn (emit env ''decision_explained'' (Some ''testing'') None []) (run_tests env commands))))))"

section \<open>Review, scan, promotion\<close>

definition phase_review :: "orch_env \<Rightarrow> unit act" where
  "phase_review env =
     bnd (gets m_ctx) (\<lambda>cx.
       if cx_read_only cx \<or> cx_diff cx = [] then skip_phase env ''review''
       else bnd (ask env Reviewer) (\<lambda>v. update_ctx (\<lambda>cx. cx\<lparr>cx_review := v, cx_plan := AList.update ''review'' v (cx_plan cx)\<rparr>)))"

definition added_lines :: "string \<Rightarrow> string" where
  "added_lines diff = join [newline] (map tl (filter (\<lambda>l. prefix ''+'' l \<and> \<not> prefix ''+++'' l) (split_on newline diff)))"

definition phase_security_scan :: "orch_env \<Rightarrow> unit act" where
  "phase_security_scan env =
     bnd (gets m_ctx) (\<lambda>cx.
       let values = (case cx_selected_context cx of VDict d \<Rightarrow> map snd d | _ \<Rightarrow> []);
           in_patch = (if cx_diff cx = [] then [] else scan_text (added_lines (cx_diff cx)) None);
           in_context = scan_text (join [newline] (map (py_str (oe_str env)) values)) None in
       thn (if in_patch = [] then ret () else alter (\<lambda>m. m\<lparr>m_patch_secret := True\<rparr>))
       (thn (update_ctx (\<lambda>cx. cx\<lparr>cx_secrets := cx_secrets cx @ in_patch @ in_context\<rparr>))
         (emit env ''security_scan_completed'' (Some ''security_scan'') None [(''findings_count'', VInt (int (length (in_patch @ in_context))))])))"

definition rejected_by_review :: "(pyval \<Rightarrow> string) \<Rightarrow> pyval \<Rightarrow> bool" where
  "rejected_by_review show_val review =
     (case review of VDict d \<Rightarrow> str_lower (py_str show_val (dget d ''recommendation'' (VStr []))) \<in> {''reject'', ''request_changes'', ''block''}
      | _ \<Rightarrow> False)"

definition promotable :: "orch_env \<Rightarrow> run_context \<Rightarrow> bool" where
  "promotable env cx \<longleftrightarrow>
     (case cx_verdict cx of None \<Rightarrow> False
      | Some v \<Rightarrow> v \<in> set PROMOTABLE_VERDICTS \<or> (v = ''unresolved'' \<and> oe_promote_policy env = ''on_no_regression'')) \<and>
     \<not> rejected_by_review (oe_str env) (cx_review cx)"

definition set_outcome :: "string \<Rightarrow> unit act" where
  "set_outcome s = update_ctx (\<lambda>cx. cx\<lparr>cx_outcome := Some s\<rparr>)"

definition reject :: "orch_env \<Rightarrow> unit act" where
  "reject env = thn (set_outcome ''rejected'') (emit env ''patch_rejected'' (Some ''final_report'') None [])"

definition manifest_value :: "manifest_entry dict \<Rightarrow> pyval" where
  "manifest_value mf = VDict (map (\<lambda>(rel, e). (rel, VDict [(''base'', opt_str (mf_base e)), (''new'', opt_str (mf_new e))])) mf)"

definition moment_of :: "machine \<Rightarrow> moment" where
  "moment_of m = \<lparr>at_ctx = m_ctx m, at_secret = m_patch_secret m, at_abandoned = m_abandoned m, at_events = run_events (m_db m)\<rparr>"

definition do_promote :: "orch_env \<Rightarrow> nat \<Rightarrow> patch_result act" where
  "do_promote env k =
     bnd (gets (\<lambda>m. promote (oe_ws env) (oe_repo env) (oe_io env k) (m_fs m) (case m_ws m of Some b \<Rightarrow> b | None \<Rightarrow> []))) (\<lambda>r.
       case r of Inl e \<Rightarrow> thrown (OtherException ''workspace'')
       | Inr (fs, out) \<Rightarrow> thn (alter (\<lambda>m. m\<lparr>m_fs := fs, m_deeds := m_deeds m @ [Promoted (moment_of m)]\<rparr>))
           (case out of Inl x \<Rightarrow> thrown (OtherException ''OSError'') | Inr pr \<Rightarrow> ret pr))"

text \<open>The journal entry is written before the repository is touched; the write itself is never cut off.\<close>

definition in_critical :: "orch_env \<Rightarrow> patch_result act" where
  "in_critical env =
     ensure (thn (alter (\<lambda>m. m\<lparr>m_critical := True\<rparr>)) (in_thread env (do_promote env))) (alter (\<lambda>m. m\<lparr>m_critical := False\<rparr>))"

definition after_promotion :: "orch_env \<Rightarrow> manifest_entry dict \<Rightarrow> patch_result \<Rightarrow> unit act" where
  "after_promotion env mf pr =
     (if \<not> pr_success pr
      then thn (emit env ''promotion_failed'' (Some ''final_report'') None [])
        (thn (update_ctx (\<lambda>cx. cx\<lparr>cx_outcome := Some ''conflict'', cx_errors := cx_errors cx @ [''promote'']\<rparr>))
          (emit env ''patch_rejected'' (Some ''final_report'') None []))
      else thn (update_ctx (\<lambda>cx. cx\<lparr>cx_outcome := Some ''applied'', cx_applied_files := files_changed pr\<rparr>))
        (thn (emit env ''promotion_completed'' (Some ''final_report'') None [(''files'', VList (map (\<lambda>(rel, e). VStr rel) mf))])
          (emit env ''patch_applied'' (Some ''final_report'') None [(''files'', VList (map VStr (files_changed pr)))])))"

definition promote_journaled :: "orch_env \<Rightarrow> unit act" where
  "promote_journaled env =
     bnd (in_thread env (on_base (promotion_manifest (oe_ws env)))) (\<lambda>mf.
       thn (emit env ''promotion_started'' (Some ''final_report'') None [(''files'', manifest_value mf)])
         (bnd (in_critical env) (after_promotion env mf)))"

definition already_applied :: "orch_env \<Rightarrow> unit act" where
  "already_applied env =
     bnd (on_base (ws_summary (oe_lossy env) (oe_ws env)) 0) (\<lambda>s.
       thn (update_ctx (\<lambda>cx. cx\<lparr>cx_outcome := Some ''applied'', cx_applied_files := (if s = [] then cx_applied_files cx else map su_path s)\<rparr>))
         (emit env ''promotion_reconciled'' (Some ''final_report'') None []))"

definition may_promote :: "orch_env \<Rightarrow> run_context \<Rightarrow> bool act" where
  "may_promote env cx =
     (if oe_promote_policy env \<noteq> ''always'' \<and> \<not> promotable env cx
      then bnd (request_approval env ''promote_patch'' None ''Apply patch to the repository?'' REPOSITORY_WRITE (Some ''repository_write''))
             (\<lambda>o'. ret (approved o'))
      else ret True)"

definition land :: "orch_env \<Rightarrow> run_context \<Rightarrow> string option \<Rightarrow> unit act" where
  "land env cx reconciled =
     (if oe_promote_policy env = ''never'' then reject env
      else bnd (may_promote env cx) (\<lambda>go.
        if \<not> go then reject env
        else if reconciled = Some ''applied'' then already_applied env
        else promote_journaled env))"

definition finalize_patch :: "orch_env \<Rightarrow> unit act" where
  "finalize_patch env =
     bnd (gets id) (\<lambda>m. let cx = m_ctx m in
       if cx_read_only cx then set_outcome ''read_only''
       else if m_patch_secret m then reject env
       else if m_no_patch m then set_outcome ''no_patch''
       else bnd (if m_ws m = None \<or> cx_diff cx = [] then ret [] else on_base (ws_summary (oe_lossy env) (oe_ws env)) 0) (\<lambda>s.
         if s = [] then set_outcome ''no_changes'' else land env cx (m_reconciled m)))"

definition insert_report :: "orch_env \<Rightarrow> bool \<Rightarrow> string \<Rightarrow> unit act" where
  "insert_report env once text = stored env (\<lambda>now uid m.
     Inr ((), if once \<and> has_key (m_reports m) (oe_run env) then m else m\<lparr>m_reports := m_reports m @ [(oe_run env, text)]\<rparr>))"

definition make_report :: "orch_env \<Rightarrow> string act" where
  "make_report env = bnd (gets (\<lambda>m. oe_report env (m_ctx m))) (\<lambda>r. case r of Some t \<Rightarrow> ret t | None \<Rightarrow> thrown (OtherException ''report''))"

definition phase_final_report :: "orch_env \<Rightarrow> unit act" where
  "phase_final_report env =
     thn (finalize_patch env) (bnd (make_report env) (\<lambda>t. thn (insert_report env False t) (emit env ''report_generated'' (Some ''final_report'') None [])))"

section \<open>Checkpoints\<close>

fun redacted :: "pyval \<Rightarrow> pyval" where
  "redacted (VStr s) = VStr (redact_secrets s)"
| "redacted (VDict d) = VDict (map (\<lambda>(k, v). (k, redacted v)) d)"
| "redacted (VList xs) = VList (map redacted xs)"
| "redacted v = v"

definition result_fields :: "cmd_result \<Rightarrow> pyval dict" where
  "result_fields r = [(''success'', VBool (cr_success r)), (''returncode'', VInt (cr_returncode r)), (''stdout'', VStr (cr_stdout r)),
     (''stderr'', VStr (cr_stderr r)), (''refused'', opt_str (cr_refused r))]"

definition run_value :: "cmd_entry \<Rightarrow> pyval" where
  "run_value e = VDict [(''command'', VStr (fst e)), (''result'', VDict (result_fields (snd e)))]"

definition test_value :: "cmd_entry \<Rightarrow> pyval" where
  "test_value e = VDict ((''command'', VStr (fst e)) # result_fields (snd e))"

definition finding_value :: "secret_finding \<Rightarrow> pyval" where
  "finding_value f = VDict [(''finding_type'', VStr (finding_type f)), (''line_number'', VInt (line_number f)), (''file_path'', opt_str (file_path f)),
     (''redacted_preview'', VStr (redacted_preview f)), (''remediation'', VStr (remediation f))]"

definition note_value :: "approval_note \<Rightarrow> pyval" where
  "note_value a = VDict [(''id'', VStr (an_id a)), (''type'', VStr (an_type a)), (''command'', opt_str (an_command a)),
     (''approved'', VBool (an_approved a)), (''decision'', VStr (decision_value (an_decision a)))]"

definition summary_value :: "summary_row \<Rightarrow> pyval" where
  "summary_value s = VDict [(''path'', VStr (su_path s)), (''action'', VStr (su_action s)), (''added'', VInt (int (su_added s)))]"

definition capture_ctx :: "run_context \<Rightarrow> pyval dict" where
  "capture_ctx cx =
     [(''task'', VStr (cx_task cx)), (''provider'', VStr (cx_provider cx)), (''read_only'', VBool (cx_read_only cx)),
      (''analysis'', cx_analysis cx), (''plan'', VDict (cx_plan cx)), (''selected_files'', cx_selected_files cx),
      (''selected_context'', cx_selected_context cx), (''context_provenance'', cx_provenance cx), (''memory_notes'', cx_memory_notes cx),
      (''test_commands'', VList (map VStr (cx_test_commands cx))), (''proposed_diff'', VStr (cx_diff cx)),
      (''patch_summary'', VList (map summary_value (cx_summary cx))), (''applied_files'', VList (map VStr (cx_applied_files cx))),
      (''commands_run'', redacted (VList (map run_value (cx_commands_run cx)))),
      (''test_results'', redacted (VList (map test_value (cx_test_results cx)))),
      (''baseline_results'', redacted (VList (map test_value (cx_baseline cx)))),
      (''secret_findings'', VList (map finding_value (cx_secrets cx))), (''approvals'', VList (map note_value (cx_approvals cx))),
      (''errors'', VList (map VStr (cx_errors cx))), (''verdict'', opt_str (cx_verdict cx)), (''outcome'', opt_str (cx_outcome cx)),
      (''review'', cx_review cx), (''model_calls'', VInt (int (c_model_calls (cx_counters cx)))),
      (''tokens_used'', VInt (int (c_tokens_used (cx_counters cx)))), (''retries'', VInt (int (c_retries (cx_counters cx)))),
      (''wall_seconds'', VFloat (c_wall_seconds (cx_counters cx))), (''patch_attempts'', VInt (int (c_patch_attempts (cx_counters cx)))),
      (''repair_rounds'', VInt (int (c_repair_rounds (cx_counters cx))))]"

definition capture_flags :: "machine \<Rightarrow> pyval dict" where
  "capture_flags m = [(''_blocked'', VBool (m_blocked m)), (''_patch_secret'', VBool (m_patch_secret m)), (''_no_patch'', VBool (m_no_patch m)),
     (''_promotion_reconciled'', opt_str (m_reconciled m))]"

definition capture_files :: "(string \<Rightarrow> string) \<Rightarrow> base_state \<Rightarrow> string option dict \<Rightarrow> pyval" where
  "capture_files b64 base current = VDict (map (\<lambda>rel. (rel, VDict [(''base'', opt_str (map_option b64 (dget base rel None))),
     (''current'', opt_str (map_option b64 (dget current rel None)))])) (touched base))"

definition capture :: "orch_env \<Rightarrow> machine \<Rightarrow> ws_error + pyval" where
  "capture env m =
     bind_r (case m_ws m of None \<Rightarrow> Inr VNone
       | Some base \<Rightarrow> bind_r (ws_checkpoint (oe_ws env) (m_fs m) base) (\<lambda>current. Inr (capture_files (oe_b64 env) base current))) (\<lambda>files.
     Inr (VDict [(''ctx'', VDict (capture_ctx (m_ctx m))),
       (''phase_statuses'', VDict (map (\<lambda>p. (p, VStr (phase_status_value (m_statuses m p)))) PHASE_ORDER)),
       (''flags'', VDict (capture_flags m)), (''workspace'', files)]))"

text \<open>The files whose hashes the fingerprint records; a name that is not a text raises.\<close>

definition names_in :: "pyval \<Rightarrow> string list option" where
  "names_in v = (case v of VDict d \<Rightarrow> Some (map fst d) | _ \<Rightarrow> (case py_iter v of None \<Rightarrow> None | Some xs \<Rightarrow> those (map as_str xs)))"

definition watched :: "machine \<Rightarrow> string list option" where
  "watched m = (case (names_in (cx_selected_context (m_ctx m)), names_in (cx_selected_files (m_ctx m))) of
     (Some xs, Some ys) \<Rightarrow> Some (xs @ ys @ (case m_ws m of None \<Rightarrow> [] | Some base \<Rightarrow> touched base)) | _ \<Rightarrow> None)"

definition last_event :: "run_db \<Rightarrow> string \<Rightarrow> nat" where
  "last_event db rid = fold max (map ev_id (filter (\<lambda>e. ev_run e = rid) (run_events db))) 0"

definition save_state :: "orch_env \<Rightarrow> string \<Rightarrow> pyval \<Rightarrow> pyval \<Rightarrow> (checkpoint_error + nat) act" where
  "save_state env p st fp =
     stored env (\<lambda>now uid m.
       case save_checkpoint (oe_checksum env) (oe_dump env) now uid (m_checkpoints m) (oe_run env) p st fp (last_event (m_db m) (oe_run env))
              (oe_attempt env) (oe_version env) of
         Inl e \<Rightarrow> Inr (Inl e, m) | Inr (cp, rows) \<Rightarrow> Inr (Inr (cp_seq cp), m\<lparr>m_checkpoints := rows\<rparr>))"

definition take_checkpoint :: "orch_env \<Rightarrow> string \<Rightarrow> unit act" where
  "take_checkpoint env p =
     bnd (gets m_abandoned) (\<lambda>gone. if gone then ret ()
       else bnd (rescue
         (bnd (in_thread env (\<lambda>k. bnd (gets (capture env)) or_os_error)) (\<lambda>st.
          bnd (bnd (gets watched) (\<lambda>w. case w of None \<Rightarrow> thrown (OtherException ''TypeError'') | Some x \<Rightarrow> ret x)) (\<lambda>w.
          bnd (in_thread env (\<lambda>k. gets (\<lambda>m. fingerprint_dict (compute_fingerprint (oe_git env) (oe_repo env) (m_fs m) w)))) (\<lambda>fp.
          bnd (save_state env p st fp) (\<lambda>r. case r of Inl e \<Rightarrow> thrown (OtherException ''CheckpointError'') | Inr seq \<Rightarrow> ret (Some seq))))))
         (\<lambda>e. thn (emit env ''checkpoint_failed'' (Some p) None []) (ret None))) (\<lambda>r.
       case r of None \<Rightarrow> ret ()
       | Some seq \<Rightarrow> thn (charge_time env) (emit env ''checkpoint_created'' (Some p) None [(''seq'', VInt (int seq))])))"

section \<open>The driver\<close>

definition interruptible :: "unit act \<Rightarrow> unit act" where
  "interruptible work m =
     (case work (m\<lparr>m_inside := True\<rparr>) of (r, m') \<Rightarrow>
        (case r of Inl Cut \<Rightarrow> Inl (Thrown (PatchQuestError USER_CANCELLED ''Run cancelled'' None)) | _ \<Rightarrow> r, m'\<lparr>m_inside := False\<rparr>))"

definition handler :: "orch_env \<Rightarrow> string \<Rightarrow> unit act" where
  "handler env p =
     (if p = ''intake'' then phase_intake env else if p = ''repo_scan'' then phase_repo_scan env
      else if p = ''planning'' then phase_planning env else if p = ''research'' then phase_research env
      else if p = ''context_building'' then phase_context_building env else if p = ''analysis'' then phase_analysis env
      else if p = ''patching'' then phase_patching env else if p = ''static_checks'' then phase_static_checks env
      else if p = ''testing'' then phase_testing env else if p = ''review'' then phase_review env
      else if p = ''security_scan'' then phase_security_scan env else if p = ''final_report'' then phase_final_report env
      else suspend env)"

definition failure_of :: "orch_env \<Rightarrow> exc \<Rightarrow> failure" where
  "failure_of env e = (case e of Thrown x \<Rightarrow> classify_exception (oe_parse_float env) (\<lambda>n. oe_show_int env (int n)) O_MODEL x
     | _ \<Rightarrow> mk_failure INTERNAL_INVARIANT (oe_describe env e))"

definition note_failure :: "orch_env \<Rightarrow> exc \<Rightarrow> unit act" where
  "note_failure env e = alter (\<lambda>m. m\<lparr>m_failure := (case m_failure m of None \<Rightarrow> Some (failure_of env e) | Some f \<Rightarrow> Some f)\<rparr>)"

definition update_run_phase :: "orch_env \<Rightarrow> string \<Rightarrow> unit act" where
  "update_run_phase env p = stored env (\<lambda>now uid m.
     Inr ((), m\<lparr>m_db := (m_db m)\<lparr>runs := update_row run_id (oe_run env) (\<lambda>r. r\<lparr>current_phase := Some p, updated_at := now\<rparr>) (runs (m_db m))\<rparr>\<rparr>))"

definition run_phase :: "orch_env \<Rightarrow> string \<Rightarrow> unit act" where
  "run_phase env p =
     thn (set_status p P_RUNNING) (thn (alter (\<lambda>m. m\<lparr>m_phase := Some p\<rparr>))
     (thn (emit env ''phase_started'' (Some p) (Some ''running'') [])
     (thn (update_run_phase env p)
       (rescue
         (thn (interruptible (handler env p))
           (bnd (gets (\<lambda>m. m_statuses m p)) (\<lambda>st. if st = P_SKIPPED then ret ()
             else thn (set_status p P_COMPLETE) (emit env ''phase_completed'' (Some p) (Some ''complete'') []))))
         (\<lambda>e. case e of
            PhaseBlocked why \<Rightarrow> thn (set_status p P_BLOCKED) (emit env ''phase_blocked'' (Some p) (Some ''blocked'') [])
          | _ \<Rightarrow> thn (set_status p P_FAILED)
              (thn (update_ctx (\<lambda>cx. cx\<lparr>cx_errors := cx_errors cx @ [p @ '': '' @ oe_describe env e]\<rparr>))
              (thn (note_failure env e) (emit env ''phase_failed'' (Some p) (Some ''failed'') []))))))))"

definition fail_run :: "orch_env \<Rightarrow> string \<Rightarrow> bool \<Rightarrow> unit act" where
  "fail_run env why was_cancelled =
     bnd (gets m_abandoned) (\<lambda>gone. if gone then ret ()
       else thn (rescue (bnd (make_report env) (insert_report env True)) (\<lambda>e. ret ()))
         (bnd (gets id) (\<lambda>m.
           let f = (if was_cancelled then mk_failure USER_CANCELLED why
                    else case m_failure m of Some f \<Rightarrow> f | None \<Rightarrow> mk_failure INTERNAL_INVARIANT why) in
           thn (move env (if was_cancelled then CANCELLED else FAILED) why ''runtime''
                  [(''outcome'', Some (case cx_outcome (m_ctx m) of Some x \<Rightarrow> if x = [] then ''rejected'' else x | None \<Rightarrow> ''rejected'')),
                   (''verdict'', cx_verdict (m_ctx m)), (''failure_kind'', Some (kind_value (f_kind f)))])
             (emit env ''run_failed'' None None []))))"

definition complete_run :: "orch_env \<Rightarrow> unit act" where
  "complete_run env =
     bnd (gets m_abandoned) (\<lambda>gone. if gone then ret ()
       else bnd (gets m_ctx) (\<lambda>cx.
         thn (move env COMPLETED ''all phases finished'' ''runtime'' [(''outcome'', cx_outcome cx), (''verdict'', cx_verdict cx)])
         (thn (suspend env)
           (emit env ''run_completed'' None None [(''outcome'', opt_str (cx_outcome cx)), (''verdict'', opt_str (cx_verdict cx))]))))"

text \<open>The loop over the phases; the result says whether all of them were passed.\<close>

fun run_phases :: "orch_env \<Rightarrow> string list \<Rightarrow> bool act" where
  "run_phases env [] = ret True"
| "run_phases env (p # ps) =
     bnd (gets id) (\<lambda>m.
       if m_statuses m p \<noteq> P_PENDING then run_phases env ps
       else if m_cancelled m then thn (fail_run env ''Run cancelled'' True) (ret False)
       else if m_abandoned m then ret False
       else thn (enforce env [B_WALL_TIME])
         (if m_blocked m \<and> p \<notin> set PHASES_AFTER_BLOCK
          then thn (set_status p P_SKIPPED)
            (thn (emit env ''phase_started'' (Some p) (Some ''running'') [])
            (thn (emit env ''phase_skipped'' (Some p) (Some ''skipped'') [])
            (thn (take_checkpoint env p) (run_phases env ps))))
          else thn (run_phase env p)
            (bnd (gets id) (\<lambda>m'.
              if m_cancelled m' \<and> m_statuses m' p = P_FAILED then thn (fail_run env ''Run cancelled'' True) (ret False)
              else if m_statuses m' p = P_FAILED then thn (fail_run env (''Phase '' @ p @ '' failed'') False) (ret False)
              else thn (if m_statuses m' p = P_BLOCKED then alter (\<lambda>m. m\<lparr>m_blocked := True\<rparr>) else ret ())
                (thn (take_checkpoint env p) (run_phases env ps))))))"

definition drive :: "orch_env \<Rightarrow> unit act" where
  "drive env =
     thn (check_model_policy env)
     (bnd (run_phases env PHASE_ORDER) (\<lambda>passed. if \<not> passed then ret ()
       else bnd (gets id) (\<lambda>m.
         if m_cancelled m \<and> cx_outcome (m_ctx m) \<noteq> Some ''applied'' then fail_run env ''Run cancelled'' True else complete_run env)))"

definition clean_up :: "orch_env \<Rightarrow> unit act" where
  "clean_up env = bnd (gets m_ws) (\<lambda>w. if w = None then ret ()
     else in_thread env (\<lambda>k. alter (\<lambda>m. m\<lparr>m_fs := oe_cleanup env k (m_fs m)\<rparr>)))"

definition execute :: "orch_env \<Rightarrow> bool \<Rightarrow> unit act" where
  "execute env resumed =
     thn (if resumed then ret () else thn (move env RUNNING ''execution started'' ''runtime'' []) (ret ()))
       (ensure (rescue (drive env)
          (\<lambda>e. if e = Lost then alter abandon
               else thn (note_failure env e) (fail_run env (oe_describe env e) False)))
         (clean_up env))"

end
