(* ===== verification/Orchestrator_Safety.thy ===== *)
theory Orchestrator_Safety
  imports Orchestrator
begin

text \<open>
  What the orchestrator guarantees in every environment. Its steps are composed by few combinators, so a relation between the state before
  and after a step that is reflexive and transitive holds of a phase as soon as it holds of the primitive steps (locale \<open>two_state\<close>);
  \<open>calm\<close> is the relation of all steps that neither write files nor act outside, and the locale \<open>workspace_frame\<close> lifts it to any coarser
  relation that the remaining primitives keep.

  The results: the repository changes only through the gate of \<open>_finalize_patch\<close>; every executed command was permitted; the
  command budget bounds the commands executed; the repair loop ends.
\<close>

section \<open>Which files are written\<close>

lemma ws_restore_named: "ws_restore env io st fs = (ok, fs') \<Longrightarrow> file_at fs' p \<noteq> file_at fs p \<Longrightarrow> p \<in> targets env (map fst st)"
  unfolding ws_restore_def by (rule rollback_named)

lemma targets_within: "p \<in> targets env rels \<Longrightarrow> is_within p (pe_follow env (pe_repo env))"
  by (auto simp: targets_def dest: locate_within)

section \<open>Relations between before and after\<close>

named_theorems keeps_rules

definition keeps :: "(machine \<Rightarrow> machine \<Rightarrow> bool) \<Rightarrow> 'a act \<Rightarrow> bool" where
  "keeps R f \<longleftrightarrow> (\<forall>m. R m (snd (f m)))"

lemma keepsD: "keeps R f \<Longrightarrow> R m (snd (f m))"
  by (simp add: keeps_def)

lemma keeps_run: "keeps R f \<Longrightarrow> f m = (r, m') \<Longrightarrow> R m m'"
  using keepsD [of R f m] by simp

lemma keeps_if [keeps_rules]: "(b \<Longrightarrow> keeps R f) \<Longrightarrow> (\<not> b \<Longrightarrow> keeps R g) \<Longrightarrow> keeps R (if b then f else g)"
  by simp

lemma keeps_option [keeps_rules]: "(x = None \<Longrightarrow> keeps R f) \<Longrightarrow> (\<And>y. x = Some y \<Longrightarrow> keeps R (g y)) \<Longrightarrow> keeps R (case x of None \<Rightarrow> f | Some y \<Rightarrow> g y)"
  by (cases x) simp_all

lemma keeps_sum [keeps_rules]: "(\<And>e. x = Inl e \<Longrightarrow> keeps R (f e)) \<Longrightarrow> (\<And>y. x = Inr y \<Longrightarrow> keeps R (g y)) \<Longrightarrow> keeps R (case x of Inl e \<Rightarrow> f e | Inr y \<Rightarrow> g y)"
  by (cases x) simp_all

lemma keeps_prod [keeps_rules]: "(\<And>a b. x = (a, b) \<Longrightarrow> keeps R (f a b)) \<Longrightarrow> keeps R (case x of (a, b) \<Rightarrow> f a b)"
  by (cases x) simp

lemma keeps_exc [keeps_rules]:
  "(x = Cut \<Longrightarrow> keeps R a) \<Longrightarrow> (x = Lost \<Longrightarrow> keeps R b) \<Longrightarrow> (\<And>e. x = Thrown e \<Longrightarrow> keeps R (c e)) \<Longrightarrow> (\<And>s. x = PhaseBlocked s \<Longrightarrow> keeps R (d s)) \<Longrightarrow>
   (x = NoFuel \<Longrightarrow> keeps R f) \<Longrightarrow> keeps R (case x of Cut \<Rightarrow> a | Lost \<Rightarrow> b | Thrown e \<Rightarrow> c e | PhaseBlocked s \<Rightarrow> d s | NoFuel \<Rightarrow> f)"
  by (cases x) simp_all

lemma keeps_alter [keeps_rules]: "(\<And>m. R m (h m)) \<Longrightarrow> keeps R (alter h)"
  by (simp add: keeps_def alter_def)

lemma keeps_update_ctx [keeps_rules]: "(\<And>m. R m (m\<lparr>m_ctx := h (m_ctx m)\<rparr>)) \<Longrightarrow> keeps R (update_ctx h)"
  by (simp add: update_ctx_def keeps_alter)

lemma keeps_stored:
  assumes "\<And>m k. R m (m\<lparr>m_tick := Suc (m_tick m), m_db := oe_others env k (m_db m)\<rparr>)"
    and "\<And>m now uid x m'. body now uid m = Inr (x, m') \<Longrightarrow> R m m'" and "\<And>a b c. R a b \<Longrightarrow> R b c \<Longrightarrow> R a c"
  shows "R m (snd (tx env body m))" "keeps R (stored env body)"
proof -
  let ?m1 = "\<lambda>m. m\<lparr>m_tick := Suc (m_tick m), m_db := oe_others env (m_tick m) (m_db m)\<rparr>"
  show 1: "R m (snd (tx env body m))" for m
  proof (cases "body (oe_now env (m_tick m)) (oe_uid env (m_tick m)) (?m1 m)")
    case (Inr y)
    obtain x m2 where y: "y = (x, m2)" by fastforce
    have "R m m2" using assms(1) assms(2) [OF Inr [unfolded y]] assms(3) by blast
    then show ?thesis using assms(1) Inr y by (simp add: tx_def Let_def split: sum.split)
  qed (use assms(1) in \<open>simp add: tx_def Let_def\<close>)
  show "keeps R (stored env body)" unfolding keeps_def stored_def
  proof
    fix m show "R m (snd (case tx env body m of (Inl e, m') \<Rightarrow> (Inl (exc_of e), m') | (Inr x, m') \<Rightarrow> (Inr x, m')))"
      using 1 [of m] by (cases "tx env body m") (auto split: sum.splits)
  qed
qed

locale two_state =
  fixes R :: "machine \<Rightarrow> machine \<Rightarrow> bool"
  assumes same: "R m m" and after_both: "R a b \<Longrightarrow> R b c \<Longrightarrow> R a c"
begin

lemma keeps_ret [keeps_rules]: "keeps R (ret x)"
  by (simp add: keeps_def ret_def same)

lemma keeps_throw [keeps_rules]: "keeps R (throw e)" "keeps R (thrown e')"
  by (simp_all add: keeps_def throw_def thrown_def same)

lemma keeps_gets [keeps_rules]: "keeps R (gets h)"
  by (simp add: keeps_def gets_def same)

lemma keeps_or_throw [keeps_rules]: "keeps R (or_throw r)" "keeps R (or_os_error r')"
  by (auto simp: or_throw_def or_os_error_def intro!: keeps_rules)

lemma keeps_bnd [keeps_rules]:
  assumes "keeps R f" and "\<And>x. keeps R (g x)"
  shows "keeps R (bnd f g)"
  unfolding keeps_def bnd_def
proof
  fix m
  show "R m (snd (case f m of (Inl e, m') \<Rightarrow> (Inl e, m') | (Inr x, m') \<Rightarrow> g x m'))"
  proof (cases "f m")
    case (Pair r m')
    then have "R m m'" using assms(1) by (metis keepsD snd_conv)
    then show ?thesis using Pair after_both keepsD [OF assms(2)] by (cases r) auto
  qed
qed

lemma keeps_thn [keeps_rules]: "keeps R f \<Longrightarrow> keeps R g \<Longrightarrow> keeps R (thn f g)"
  by (simp add: thn_def keeps_bnd)

lemma keeps_rescue [keeps_rules]:
  assumes "keeps R f" and "\<And>e. keeps R (h e)"
  shows "keeps R (rescue f h)"
  unfolding keeps_def rescue_def
proof
  fix m
  show "R m (snd (case f m of (Inl e, m') \<Rightarrow> if e = Cut then (Inl e, m') else h e m' | (Inr x, m') \<Rightarrow> (Inr x, m')))"
  proof (cases "f m")
    case (Pair r m')
    then have "R m m'" using assms(1) by (metis keepsD snd_conv)
    then show ?thesis using Pair after_both keepsD [OF assms(2)] by (cases r) auto
  qed
qed

lemma keeps_ensure [keeps_rules]:
  assumes "keeps R f" and "keeps R g"
  shows "keeps R (ensure f g)"
  unfolding keeps_def ensure_def
proof
  fix m
  obtain r m' where f: "f m = (r, m')" by fastforce
  obtain s m'' where g: "g m' = (s, m'')" by fastforce
  have "R m m'" "R m' m''" using f g keepsD [OF assms(1), of m] keepsD [OF assms(2), of m'] by simp_all
  then show "R m (snd (case f m of (r, m') \<Rightarrow> (case g m' of (Inl e, m'') \<Rightarrow> (Inl e, m'') | (Inr _, m'') \<Rightarrow> (r, m''))))"
    using f g after_both by (cases s) auto
qed

lemma keeps_each [keeps_rules]: "(\<And>x. keeps R (f x)) \<Longrightarrow> keeps R (each f xs)"
  by (induction xs) (auto intro!: keeps_rules)

lemma keeps_interruptible:
  assumes "keeps R f" and "\<And>m b. R m (m\<lparr>m_inside := b\<rparr>)"
  shows "keeps R (interruptible f)"
  unfolding keeps_def interruptible_def
proof
  fix m :: machine
  obtain r m' where f: "f (m\<lparr>m_inside := True\<rparr>) = (r, m')" by fastforce
  have "R (m\<lparr>m_inside := True\<rparr>) m'" using f assms(1) by (metis keepsD snd_conv)
  then have "R m (m'\<lparr>m_inside := False\<rparr>)" using after_both assms(2) by blast
  then show "R m (snd (case f (m\<lparr>m_inside := True\<rparr>) of (r, m') \<Rightarrow>
      (case r of Inl Cut \<Rightarrow> Inl (Thrown (PatchQuestError USER_CANCELLED ''Run cancelled'' None)) | _ \<Rightarrow> r, m'\<lparr>m_inside := False\<rparr>)))"
    by (simp add: f)
qed

text \<open>The same for one state, when a step relies on what the one before it returned.\<close>

lemma bnd_step:
  assumes "R m (snd (f m))" and "\<And>x m1. f m = (Inr x, m1) \<Longrightarrow> R m1 (snd (g x m1))"
  shows "R m (snd (bnd f g m))"
proof (cases "f m")
  case (Pair r m1)
  then show ?thesis using assms(1) assms(2) [of _ m1] after_both by (cases r) (auto simp: bnd_def)
qed

lemma thn_step: "R m (snd (f m)) \<Longrightarrow> (\<And>x m1. f m = (Inr x, m1) \<Longrightarrow> R m1 (snd (g m1))) \<Longrightarrow> R m (snd (thn f g m))"
  unfolding thn_def by (rule bnd_step)

lemma keeps_in_thread:
  assumes "\<And>k. keeps R (f k)" and "keeps R (suspend env)"
  shows "keeps R (in_thread env f)"
  unfolding keeps_def in_thread_def
proof
  fix m
  obtain r m1 where f: "f (m_tick m) m = (r, m1)" by fastforce
  obtain s m2 where g: "suspend env m1 = (s, m2)" by fastforce
  have "R m m1" "R m1 m2" using f g keepsD [OF assms(1), of m "m_tick m"] keepsD [OF assms(2), of m1] by simp_all
  then show "R m (snd (case f (m_tick m) m of (r, m1) \<Rightarrow> (case suspend env m1 of (Inl e, m2) \<Rightarrow> (Inl e, m2) | (Inr _, m2) \<Rightarrow> (r, m2))))"
    using f g after_both by (cases s) auto
qed

end

section \<open>Steps that neither write files nor act outside\<close>

text \<open>Other processes do not take back grants and do not rewrite the ledger.\<close>

definition honest_others :: "orch_env \<Rightarrow> bool" where
  "honest_others env \<longleftrightarrow> (\<forall>k db. set (approval_grants db) \<subseteq> set (approval_grants (oe_others env k db)) \<and>
     set (run_events db) \<subseteq> set (run_events (oe_others env k db)))"

definition db_grows :: "run_db \<Rightarrow> run_db \<Rightarrow> bool" where
  "db_grows db db' \<longleftrightarrow> set (approval_grants db) \<subseteq> set (approval_grants db') \<and> set (run_events db) \<subseteq> set (run_events db')"

definition rounds :: "machine \<Rightarrow> nat" where
  "rounds m = c_repair_rounds (cx_counters (m_ctx m))"

lemma rounds_simps [simp]:
  "rounds (m\<lparr>m_ctx := cx\<rparr>) = c_repair_rounds (cx_counters cx)" "rounds (m\<lparr>m_db := db\<rparr>) = rounds m" "rounds (m\<lparr>m_fs := fs\<rparr>) = rounds m"
  "rounds (m\<lparr>m_ws := w\<rparr>) = rounds m" "rounds (m\<lparr>m_statuses := st\<rparr>) = rounds m" "rounds (m\<lparr>m_tick := k\<rparr>) = rounds m"
  "rounds (m\<lparr>m_deeds := ds\<rparr>) = rounds m" "rounds (m\<lparr>m_policies := ps\<rparr>) = rounds m" "rounds (m\<lparr>m_prefs := pr\<rparr>) = rounds m"
  "rounds (m\<lparr>m_phase_uid := u\<rparr>) = rounds m" "rounds (m\<lparr>m_cancelled := b\<rparr>) = rounds m" "rounds (m\<lparr>m_abandoned := b\<rparr>) = rounds m"
  "rounds (m\<lparr>m_inside := b\<rparr>) = rounds m" "rounds (m\<lparr>m_critical := b\<rparr>) = rounds m" "rounds (m\<lparr>m_blocked := b\<rparr>) = rounds m"
  "rounds (m\<lparr>m_patch_secret := b\<rparr>) = rounds m" "rounds (m\<lparr>m_no_patch := b\<rparr>) = rounds m" "rounds (m\<lparr>m_failure := f\<rparr>) = rounds m"
  "rounds (m\<lparr>m_phase := p\<rparr>) = rounds m" "rounds (m\<lparr>m_clock := c\<rparr>) = rounds m" "rounds (m\<lparr>m_reports := rs\<rparr>) = rounds m"
  "rounds (m\<lparr>m_checkpoints := cs\<rparr>) = rounds m"
  by (simp_all add: rounds_def)

definition calm :: "machine \<Rightarrow> machine \<Rightarrow> bool" where
  "calm m m' \<longleftrightarrow> m_fs m' = m_fs m \<and> m_deeds m' = m_deeds m \<and> m_policies m' = m_policies m \<and> m_ws m' = m_ws m \<and>
     m_patch_secret m' = m_patch_secret m \<and> (m_abandoned m \<longrightarrow> m_abandoned m') \<and>
     prefix (cx_approvals (m_ctx m)) (cx_approvals (m_ctx m')) \<and> db_grows (m_db m) (m_db m') \<and>
     cx_commands_run (m_ctx m') = cx_commands_run (m_ctx m) \<and> cx_read_only (m_ctx m') = cx_read_only (m_ctx m) \<and>
     cx_verdict (m_ctx m') = cx_verdict (m_ctx m) \<and> cx_review (m_ctx m') = cx_review (m_ctx m) \<and> rounds m' = rounds m"

lemma db_grows_refl [simp]: "db_grows db db"
  by (simp add: db_grows_def)

lemma db_grows_trans: "db_grows a b \<Longrightarrow> db_grows b c \<Longrightarrow> db_grows a c"
  by (auto simp: db_grows_def)

interpretation calm: two_state calm
  by unfold_locales (auto simp: calm_def intro: db_grows_trans prefix_order.trans)

lemma others_grow: "honest_others env \<Longrightarrow> db_grows db (oe_others env k db)"
  by (simp add: honest_others_def db_grows_def)

lemma append_event_grows: "append_event now uid db rid ty a = (r, db') \<Longrightarrow> db_grows db db'"
  by (auto simp: append_event_def db_grows_def Let_def)

lemma db_grows_fields: "approval_grants db' = approval_grants db \<Longrightarrow> run_events db' = run_events db \<Longrightarrow> db_grows db db'"
  by (simp add: db_grows_def)

lemma transition_grows:
  assumes "transition now uid db rid target a = Inr (t, db')"
  shows "db_grows db db'"
proof -
  have step: "db_grows db d" if "append_event now uid (db\<lparr>runs := rs\<rparr>) rid ty x = (r, d)" for rs ty x r d
    using db_grows_trans [OF db_grows_fields append_event_grows [OF that]] by simp
  show ?thesis using assms unfolding transition_def Let_def
    by (auto split: option.splits if_splits prod.splits intro: step)
qed

lemma request_grows: "db_grows db (request now i db rid a)" "db_grows db (snd (expire now db aid))"
  by (simp_all add: db_grows_def request_def expire_def)

lemma decide_grows:
  assumes "decide_approval shlex digest now uid db rid aid d who note' modified = Inr (o', db')"
  shows "db_grows db db'"
proof -
  let ?db1 = "write_decision now db aid d who note' modified"
  have one: "db_grows db ?db1" by (simp add: db_grows_def write_decision_def)
  have two: "db_grows db (write_grant now ?db1 rid sig e aid)" for sig e using one by (auto simp: db_grows_def write_grant_def)
  have fin: "db_grows db (snd (append_event now uid d' rid ty x))" if "db_grows db d'" for d' ty x
    using that append_event_grows [of now uid d' rid ty x] db_grows_trans by (metis prod.collapse)
  show ?thesis using assms one two unfolding decide_approval_def Let_def
    by (auto split: option.splits if_splits intro!: fin)
qed

lemma calm_others: "honest_others env \<Longrightarrow> calm m (m\<lparr>m_tick := n, m_db := oe_others env k (m_db m)\<rparr>)"
  by (simp add: calm_def others_grow)

lemma calm_db: "db_grows (m_db m) db \<Longrightarrow> calm m (m\<lparr>m_db := db, m_phase_uid := u\<rparr>)"
  by (simp add: calm_def)

lemma calm_tx:
  assumes "honest_others env" and "\<And>m now uid x m'. body now uid m = Inr (x, m') \<Longrightarrow> calm m m'"
  shows "calm m (snd (tx env body m))"
  by (rule keeps_stored(1), rule calm_others [OF assms(1)], erule assms(2), erule (1) calm.after_both)

lemma keeps_calm_stored:
  assumes "honest_others env" and "\<And>m now uid x m'. body now uid m = Inr (x, m') \<Longrightarrow> calm m m'"
  shows "keeps calm (stored env body)"
  by (rule keeps_stored(2), rule calm_others [OF assms(1)], erule assms(2), erule (1) calm.after_both)

lemma keeps_emit [keeps_rules]:
  assumes "honest_others env"
  shows "keeps calm (emit env ty p s payload)"
  unfolding keeps_def
proof
  fix m
  show "calm m (snd (emit env ty p s payload m))"
  proof (cases "m_abandoned m")
    case False
    show ?thesis unfolding emit_def if_not_P [OF False]
      by (rule keepsD, rule keeps_calm_stored [OF assms]) (auto intro!: calm_db dest: append_event_grows split: prod.splits)
  qed (simp add: emit_def calm.same)
qed

lemma keeps_move [keeps_rules]:
  assumes "honest_others env"
  shows "keeps calm (move env target why who flds)"
  unfolding keeps_def
proof
  fix m
  let ?body = "\<lambda>now uid m. bind_r (transition now uid (m_db m) (oe_run env) target
      \<lparr>ta_actor = who, ta_reason = why, ta_attempt = oe_attempt env, ta_correlation = Some (oe_correlation env), ta_causation = None, ta_fields = flds\<rparr>)
      (\<lambda>(t, db). Inr (t, m\<lparr>m_db := db\<rparr>))"
  have "calm m (snd (tx env ?body m))"
    by (rule calm_tx [OF assms]) (auto simp: result_simps calm_def dest: transition_grows)
  then show "calm m (snd (move env target why who flds m))"
    by (cases "tx env ?body m") (auto simp: move_def calm.same split: sum.split run_error.split)
qed

lemma keeps_cancel [keeps_rules]: "honest_others env \<Longrightarrow> keeps calm (cancel env)"
  unfolding cancel_def by (intro keeps_rules) (simp_all add: calm_def)

lemma calm_signalled: "honest_others env \<Longrightarrow> calm m (signalled env s m)"
  using keeps_cancel [THEN keepsD] by (auto simp: signalled_def abandon_def calm.same split: signal.split) (simp add: calm_def)

lemma keeps_suspend [keeps_rules]:
  assumes "honest_others env"
  shows "keeps calm (suspend env)"
  unfolding keeps_def suspend_def Let_def
  using calm.after_both [OF calm_others [OF assms] calm_signalled [OF assms]] by simp

lemmas keeps_in_thread_calm [keeps_rules] = calm.keeps_in_thread [OF _ keeps_suspend]

lemma calm_ctx [keeps_rules]:
  "prefix (cx_approvals (m_ctx m)) (cx_approvals cx) \<Longrightarrow> cx_commands_run cx = cx_commands_run (m_ctx m) \<Longrightarrow> cx_read_only cx = cx_read_only (m_ctx m) \<Longrightarrow>
   c_repair_rounds (cx_counters cx) = c_repair_rounds (cx_counters (m_ctx m)) \<Longrightarrow> cx_verdict cx = cx_verdict (m_ctx m) \<Longrightarrow>
   cx_review cx = cx_review (m_ctx m) \<Longrightarrow> calm m (m\<lparr>m_ctx := cx\<rparr>)"
  by (simp add: calm_def rounds_def)

lemma keeps_ask [keeps_rules]: "honest_others env \<Longrightarrow> keeps calm (ask env r)" "honest_others env \<Longrightarrow> keeps calm (ask_dict env r)"
proof -
  assume h: "honest_others env"
  show 1: "keeps calm (ask env r)" unfolding ask_def by (intro keeps_rules h) (simp_all add: charge_def)
  show "keeps calm (ask_dict env r)" unfolding ask_dict_def by (intro keeps_rules 1)
qed

lemma keeps_enforce [keeps_rules]: "keeps calm (charge_time env)" "keeps calm (enforce env kinds)"
proof -
  show 1: "keeps calm (charge_time env)" unfolding charge_time_def by (intro keeps_rules) (simp add: calm_def Let_def rounds_def)
  show "keeps calm (enforce env kinds)" unfolding enforce_def by (intro keeps_rules 1)
qed

lemma keeps_await_reply:
  assumes "honest_others env"
  shows "keeps calm (await_reply env aid)"
  unfolding keeps_def
proof
  fix m :: machine
  let ?m1 = "m\<lparr>m_tick := Suc (m_tick m), m_db := oe_others env (m_tick m) (m_db m)\<rparr>"
  let ?late = "bnd (stored env (\<lambda>now uid m. case expire now (m_db m) aid of (b, db) \<Rightarrow>
      Inr ((b, if b then None else outcome_from_db db aid), m\<lparr>m_db := db\<rparr>)))
    (\<lambda>(b, o'). thn (if b then emit env ''approval_expired'' None None [(''approval_id'', VStr aid)] else ret ()) (ret o'))"
  have base: "calm m ?m1" using calm_others [OF assms] .
  have "keeps calm (stored env (\<lambda>now uid m. case expire now (m_db m) aid of (b, db) \<Rightarrow>
      Inr ((b, if b then None else outcome_from_db db aid), m\<lparr>m_db := db\<rparr>)))"
  proof (rule keeps_calm_stored [OF assms])
    fix m m' :: machine and now uid x
    assume "(case expire now (m_db m) aid of (b, db) \<Rightarrow> Inr ((b, if b then None else outcome_from_db db aid), m\<lparr>m_db := db\<rparr>)) = Inr (x, m')"
    then have "m' = m\<lparr>m_db := snd (expire now (m_db m) aid)\<rparr>" by (auto split: prod.splits)
    then show "calm m m'" using request_grows(2) by (simp add: calm_def)
  qed
  then have "keeps calm ?late" by (intro keeps_rules assms)
  then have late: "calm m (snd (?late ?m1))" using base calm.after_both keepsD by blast
  show "calm m (snd (await_reply env aid m))"
  proof (cases "oe_reply env (m_tick m)")
    case TimedOut
    then show ?thesis using late by (simp add: await_reply_def Let_def)
  next
    case (Woken s)
    then show ?thesis using calm.after_both [OF base calm_signalled [OF assms]] by (simp add: await_reply_def Let_def)
  next
    case (Decided d who note' modified)
    show ?thesis
    proof (cases "decide_approval shlex_split (oe_digest env) (oe_now env (m_tick m)) (oe_uid env (m_tick m)) (m_db ?m1) (oe_run env) aid d who note' modified")
      case (Inl e)
      then show ?thesis using late Decided by (simp add: await_reply_def Let_def)
    next
      case (Inr x)
      then obtain o' db where "x = (o', db)" by fastforce
      then have "calm ?m1 (?m1\<lparr>m_db := db\<rparr>)" using decide_grows Inr by (fastforce simp: calm_def)
      then show ?thesis using calm.after_both [OF base] Inr Decided \<open>x = (o', db)\<close> by (simp add: await_reply_def Let_def)
    qed
  qed
qed

lemma keeps_request_approval [keeps_rules]:
  assumes "honest_others env"
  shows "keeps calm (request_approval env kind command why effect risk)"
  unfolding request_approval_def Let_def
  by (intro keeps_rules keeps_await_reply keeps_calm_stored assms) (auto simp: calm_def request_grows)

lemma keeps_preferences [keeps_rules]: "honest_others env \<Longrightarrow> keeps calm (preferences env)"
  unfolding preferences_def by (intro keeps_rules) (simp_all add: calm_def)

lemma keeps_permit [keeps_rules]:
  assumes "honest_others env"
  shows "keeps calm (permit env command d v effect prefs)"
  unfolding permit_def after_decision_def Let_def by (intro keeps_rules keeps_calm_stored assms) (simp add: calm_def)

section \<open>Lifting to the phases\<close>

definition steady :: "machine \<Rightarrow> machine \<Rightarrow> bool" where
  "steady m m' \<longleftrightarrow> m_fs m' = m_fs m \<and> m_deeds m' = m_deeds m \<and> (m_policies m = None \<or> m_policies m' = m_policies m) \<and>
     prefix (cx_approvals (m_ctx m)) (cx_approvals (m_ctx m')) \<and> db_grows (m_db m) (m_db m') \<and>
     cx_commands_run (m_ctx m') = cx_commands_run (m_ctx m) \<and> cx_read_only (m_ctx m') = cx_read_only (m_ctx m) \<and> rounds m' = rounds m"

lemma calm_steady: "calm m m' \<Longrightarrow> steady m m'"
  by (simp add: calm_def steady_def)

text \<open>
  A relation that all steady steps keep, and all steps of the run on the files of its workspace. The policies of the run are
  loaded once.
\<close>

locale workspace_frame = two_state R for R :: "machine \<Rightarrow> machine \<Rightarrow> bool" +
  fixes env :: orch_env
  assumes unless_honest: "\<not> honest_others env \<Longrightarrow> R m m'" and steady_R: "steady m m' \<Longrightarrow> R m m'"
    and copied: "oe_copy env k (m_fs m) = Inr fs \<Longrightarrow> R m (m\<lparr>m_fs := fs\<rparr>)"
    and restored: "ws_restore (oe_ws env) io st (m_fs m) = (ok, fs) \<Longrightarrow> R m (m\<lparr>m_fs := fs\<rparr>)"
    and patched: "apply_changes (oe_ws env) io (m_fs m) cs [] False = (fs, r) \<Longrightarrow> R m (m\<lparr>m_fs := fs\<rparr>)"
    and cleaned: "R m (m\<lparr>m_fs := oe_cleanup env k (m_fs m)\<rparr>)"
begin

lemma of_calm: "(honest_others env \<Longrightarrow> keeps calm f) \<Longrightarrow> keeps R f"
  using unless_honest by (cases "honest_others env") (simp_all add: keeps_def steady_R calm_steady)

lemmas steady_step [keeps_rules] = steady_R

lemmas suspend_R [keeps_rules] = of_calm [OF keeps_suspend]
lemmas calm_acts [keeps_rules] =
  of_calm [OF keeps_emit] of_calm [OF keeps_move] of_calm [OF keeps_cancel]
  of_calm [OF keeps_ask(1)] of_calm [OF keeps_ask(2)] of_calm [OF keeps_enforce(1)] of_calm [OF keeps_enforce(2)] of_calm [OF keeps_request_approval]
  of_calm [OF keeps_preferences] of_calm [OF keeps_permit]

lemma in_thread_R [keeps_rules]: "(\<And>k. keeps R (f k)) \<Longrightarrow> keeps R (in_thread env f)"
  by (rule keeps_in_thread [OF _ suspend_R])

lemma stored_R: "(\<And>m now uid x m'. body now uid m = Inr (x, m') \<Longrightarrow> calm m m') \<Longrightarrow> keeps R (stored env body)"
  by (rule of_calm, rule keeps_calm_stored)

lemma policy_chain_R [keeps_rules]: "keeps R (policy_chain env)"
  unfolding keeps_def
proof
  fix m :: machine
  consider (other) "\<not> honest_others env" | (known) chain where "m_policies m = Some chain" | (load) "honest_others env" "m_policies m = None"
    by (cases "m_policies m") auto
  then show "R m (snd (policy_chain env m))"
  proof cases
    case other
    then show ?thesis by (rule unless_honest)
  next
    case known
    then show ?thesis by (simp add: policy_chain_def bnd_def gets_def ret_def same)
  next
    case load
    note None = load(2)
    obtain r m' where t: "in_thread env (\<lambda>k. or_throw (oe_chain env k)) m = (r, m')" by fastforce
    have "keeps calm (in_thread env (\<lambda>k. or_throw (oe_chain env k)))" by (intro keeps_rules load(1))
    then have c: "calm m m'" using t by (metis keepsD snd_conv)
    have "steady m (m'\<lparr>m_policies := Some chain\<rparr>)" for chain using c None by (simp add: calm_def steady_def)
    then show ?thesis using None t c by (cases r) (auto simp: policy_chain_def bnd_def thn_def gets_def ret_def alter_def intro: steady_R calm_steady)
  qed
qed

lemma on_files: "(\<And>m. keeps R (g (h m)) \<or> R m (snd (g (h m) m))) \<Longrightarrow> keeps R (bnd (gets h) g)"
  by (auto simp: keeps_def bnd_def gets_def)

lemma ws_step_R:
  assumes "\<And>m ok fs. f m = (ok, fs) \<Longrightarrow> R m (m\<lparr>m_fs := fs\<rparr>)"
  shows "keeps R (bnd (gets f) ws_step)"
proof (rule on_files, rule disjI2)
  fix m show "R m (snd (ws_step (f m) m))"
    using assms [of m "fst (f m)" "snd (f m)"] by (simp add: ws_step_def thn_def bnd_def alter_def ret_def thrown_def throw_def)
qed

lemma get_ws_R [keeps_rules]: "keeps R (get_ws env)"
proof -
  have copy: "keeps R (bnd (gets m_fs) (\<lambda>fs. bnd (or_throw (oe_copy env k fs)) (\<lambda>fs'. alter (\<lambda>m. m\<lparr>m_fs := fs'\<rparr>))))" for k
  proof (rule on_files, rule disjI2)
    fix m show "R m (snd (bnd (or_throw (oe_copy env k (m_fs m))) (\<lambda>fs'. alter (\<lambda>m. m\<lparr>m_fs := fs'\<rparr>)) m))"
      by (cases "oe_copy env k (m_fs m)") (simp_all add: bnd_def or_throw_def thrown_def throw_def ret_def alter_def same copied)
  qed
  have base: "keeps R (bnd (gets m_fs) (\<lambda>fs. ws_step (ws_restore (oe_ws env) (oe_io env k) (oe_replay_base env) fs)))" for k
  proof (rule on_files, rule disjI2)
    fix m show "R m (snd (ws_step (ws_restore (oe_ws env) (oe_io env k) (oe_replay_base env) (m_fs m)) m))"
      using restored [of "oe_io env k" "oe_replay_base env" m] by (cases "ws_restore (oe_ws env) (oe_io env k) (oe_replay_base env) (m_fs m)")
        (simp add: ws_step_def thn_def bnd_def alter_def ret_def thrown_def throw_def)
  qed
  show ?thesis unfolding get_ws_def by (intro keeps_rules copy base) (simp add: steady_def rounds_def)
qed

lemma on_base_R [keeps_rules]: "keeps R (on_base f k)"
  unfolding on_base_def by (intro keeps_rules)

lemma apply_in_workspace_R: "keeps R (apply_in_workspace env cs k)"
  unfolding apply_in_workspace_def
proof (rule on_files, rule disjI2)
  fix m :: machine
  obtain fs r where "apply_changes (oe_ws env) (oe_io env k) (m_fs m) cs [] False = (fs, r)" by fastforce
  then show "R m (snd ((case apply_changes (oe_ws env) (oe_io env k) (m_fs m) cs [] False of (fs, r) \<Rightarrow>
      thn (alter (\<lambda>m. m\<lparr>m_fs := fs\<rparr>)) (case r of Inl x \<Rightarrow> thrown (OtherException ''OSError'') | Inr pr \<Rightarrow> ret pr)) m))"
    using patched by (cases r) (auto simp: thn_def bnd_def alter_def ret_def thrown_def throw_def)
qed

lemma apply_model_output_R [keeps_rules]: "keeps R (apply_model_output env output)"
  unfolding apply_model_output_def proposed_changes_def note_paths_def
  by (intro keeps_rules apply_in_workspace_R) (simp_all add: steady_def rounds_def)

lemma propose_R [keeps_rules]: "keeps R (propose env h)" "keeps R (ask_again env p)"
proof -
  show 1: "keeps R (propose env h)" for h unfolding propose_def by (intro keeps_rules) (simp_all add: add_attempt_def steady_def rounds_def)
  show "keeps R (ask_again env p)" unfolding ask_again_def by (intro keeps_rules 1) (simp_all add: steady_def rounds_def)
qed

lemma patch_retries_R [keeps_rules]: "keeps R (patch_retries env ns r)"
  by (induction ns arbitrary: r) (simp, intro keeps_rules, simp, intro keeps_rules)

lemma skip_phase_R [keeps_rules]: "keeps R (set_status p st)" "keeps R (skip_phase env p)"
proof -
  show 1: "keeps R (set_status p st)" for p st unfolding set_status_def by (intro keeps_rules) (simp add: steady_def rounds_def)
  show "keeps R (skip_phase env p)" unfolding skip_phase_def by (intro keeps_rules 1)
qed

lemma adapt_R [keeps_rules]: "keeps R (adapt env)"
  unfolding adapt_def by (intro keeps_rules) (simp_all add: steady_def rounds_def)

lemma scope_check_R: "keeps R f \<Longrightarrow> keeps R (case v of VDict p \<Rightarrow> if b p then f else ret () | _ \<Rightarrow> ret ())"
  by (cases v) (auto intro: keeps_rules)

lemma early_phases_R:
  "keeps R (phase_intake env)" "keeps R (phase_repo_scan env)" "keeps R (phase_planning env)" "keeps R (phase_research env)"
  "keeps R (phase_context_building env)" "keeps R (phase_analysis env)" "keeps R (phase_review env)"
  unfolding phase_intake_def phase_repo_scan_def phase_planning_def phase_research_def phase_context_building_def phase_analysis_def phase_review_def
  by (intro keeps_rules; simp add: steady_def rounds_def)+

lemma phase_patching_R: "keeps R (phase_patching env)"
  unfolding phase_patching_def by (intro keeps_rules scope_check_R) (simp_all add: steady_def rounds_def)

lemma phase_security_scan_R: "keeps R (phase_security_scan env)"
  unfolding phase_security_scan_def Let_def by (intro keeps_rules) (simp_all add: steady_def rounds_def)

end

text \<open>With the commands: every phase but the last, and everything around the phases.\<close>

locale run_frame = workspace_frame +
  assumes executed: "keeps R (exec env c)"
    and repaired: "int (rounds m) < l_max_repair_rounds (oe_limits env) \<Longrightarrow> R m (m\<lparr>m_ctx := add_round (m_ctx m)\<rparr>)"
begin

lemmas executed_R [keeps_rules] = executed

lemma run_commands_R [keeps_rules]: "keeps R (run_commands env cs)" "keeps R (test_round env cs)"
proof -
  show 1: "keeps R (run_commands env cs)" unfolding run_commands_def by (intro keeps_rules)
  show "keeps R (test_round env cs)" unfolding test_round_def by (intro keeps_rules 1) (simp_all add: steady_def rounds_def)
qed

lemma run_baseline_R [keeps_rules]: "keeps R (run_baseline env cs)"
proof -
  have a: "keeps R (bnd (gets (\<lambda>m. restore_base (oe_ws env) io (case m_ws m of Some b \<Rightarrow> b | None \<Rightarrow> []) (m_fs m))) ws_step)" for io
    by (rule ws_step_R) (simp add: restore_base_def restored)
  have b: "keeps R (bnd (gets (\<lambda>m. ws_restore (oe_ws env) io st (m_fs m))) ws_step)" for io st
    by (rule ws_step_R) (rule restored)
  show ?thesis unfolding run_baseline_def by (intro a b keeps_rules)
qed

lemma repair_turn_R:
  assumes that: "\<And>n. keeps R (f' n)"
  shows "keeps R (bnd (gets (\<lambda>m. c_repair_rounds (cx_counters (m_ctx m)))) (\<lambda>n.
    if int n \<ge> l_max_repair_rounds (oe_limits env) then ret failing else thn (update_ctx add_round) (f' n)))"
proof (rule on_files, rule disjI2)
  fix m :: machine
  show "R m (snd ((if int (c_repair_rounds (cx_counters (m_ctx m))) \<ge> l_max_repair_rounds (oe_limits env) then ret failing
      else thn (update_ctx add_round) (f' (c_repair_rounds (cx_counters (m_ctx m))))) m))"
  proof (cases "int (rounds m) < l_max_repair_rounds (oe_limits env)")
    case True
    have "R m (snd (thn (update_ctx add_round) (f' (rounds m)) m))"
      by (rule thn_step) (use repaired [OF True] keepsD [OF that] in \<open>simp_all add: update_ctx_def alter_def\<close>)
    then show ?thesis using True by (simp add: rounds_def)
  qed (simp add: rounds_def ret_def same)
qed

lemma repair_loop_R [keeps_rules]: "keeps R (repair_loop env cs fuel done failing)"
proof (induction fuel arbitrary: "done" failing)
  case 0
  show ?case by (subst repair_loop.simps) (auto intro: keeps_rules)
next
  case (Suc n)
  show ?case by (subst repair_loop.simps, simp only: nat.case) (intro repair_turn_R keeps_rules Suc; simp add: steady_def rounds_def)
qed

lemma phase_static_checks_R: "keeps R (phase_static_checks env)"
  unfolding phase_static_checks_def by (intro keeps_rules)

lemma phase_testing_R: "keeps R (phase_testing env)"
  unfolding phase_testing_def run_tests_def by (intro keeps_rules) (simp_all add: steady_def rounds_def)

end

section \<open>Lifting to the run\<close>

lemma keeps_report:
  assumes "honest_others env"
  shows "keeps calm (make_report env)" "keeps calm (insert_report env once t)"
  unfolding make_report_def insert_report_def by (intro keeps_rules keeps_calm_stored assms; auto simp: calm_def)+

lemma keeps_update_run_phase: "honest_others env \<Longrightarrow> keeps calm (update_run_phase env p)"
  unfolding update_run_phase_def by (rule keeps_calm_stored) (auto simp: calm_def db_grows_def)

lemma keeps_save_state: "honest_others env \<Longrightarrow> keeps calm (save_state env p st fp)"
  unfolding save_state_def by (rule keeps_calm_stored) (auto simp: calm_def split: sum.splits prod.splits)

lemma keeps_take_checkpoint: "honest_others env \<Longrightarrow> keeps calm (take_checkpoint env p)"
  unfolding take_checkpoint_def by (intro keeps_rules keeps_save_state)

lemma keeps_note_failure: "keeps calm (note_failure env e)"
  unfolding note_failure_def by (intro keeps_rules) (simp add: calm_def)

lemma keeps_failing: "honest_others env \<Longrightarrow> keeps calm (fail_run env why c)"
  unfolding fail_run_def Let_def by (intro keeps_rules keeps_report)

lemma keeps_complete_run: "honest_others env \<Longrightarrow> keeps calm (complete_run env)"
  unfolding complete_run_def by (intro keeps_rules)

context workspace_frame
begin

lemmas driver_R [keeps_rules] =
  of_calm [OF keeps_report(1)] of_calm [OF keeps_report(2)] of_calm [OF keeps_update_run_phase] of_calm [OF keeps_take_checkpoint]
  of_calm [OF keeps_note_failure] of_calm [OF keeps_failing] of_calm [OF keeps_complete_run]

lemma check_model_policy_R [keeps_rules]: "keeps R (check_model_policy env)"
  unfolding check_model_policy_def Let_def by (intro keeps_rules)

lemma clean_up_R [keeps_rules]: "keeps R (clean_up env)"
  unfolding clean_up_def by (intro cleaned keeps_rules)

lemma finalize_R:
  assumes "\<And>k. keeps R (do_promote env k)"
  shows "keeps R (phase_final_report env)"
  unfolding phase_final_report_def finalize_patch_def reject_def set_outcome_def already_applied_def land_def may_promote_def promote_journaled_def in_critical_def after_promotion_def Let_def
  by (intro keeps_rules assms) (simp_all add: steady_def rounds_def)

end

context run_frame
begin

lemma handler_R: "p \<noteq> ''final_report'' \<Longrightarrow> keeps R (handler env p)"
  unfolding handler_def by (intro keeps_if early_phases_R phase_patching_R phase_static_checks_R phase_testing_R phase_security_scan_R suspend_R) simp

lemma run_phase_R:
  assumes "keeps R (handler env p)"
  shows "keeps R (run_phase env p)"
  unfolding run_phase_def by (intro keeps_rules keeps_interruptible assms) (simp_all add: steady_def rounds_def)

lemma run_phases_R:
  assumes "\<And>p. p \<in> set ps \<Longrightarrow> keeps R (handler env p)"
  shows "keeps R (run_phases env ps)"
  using assms
proof (induction ps)
  case (Cons p ps)
  have "keeps R (run_phase env p)" "keeps R (run_phases env ps)" using Cons by (simp_all add: run_phase_R)
  then show ?case unfolding run_phases.simps by (intro keeps_rules) (simp_all add: steady_def rounds_def)
qed (simp add: keeps_ret)

text \<open>The whole execution, for a relation that the last phase keeps as well.\<close>

lemma execute_R:
  assumes "keeps R (phase_final_report env)"
  shows "keeps R (execute env resumed)"
proof -
  have "keeps R (handler env p)" for p using handler_R assms by (cases "p = ''final_report''") (simp_all add: handler_def)
  then have "keeps R (run_phases env PHASE_ORDER)" by (rule run_phases_R)
  then show ?thesis unfolding execute_def drive_def by (intro keeps_rules) (simp_all add: steady_def rounds_def abandon_def)
qed

end

section \<open>Every executed command was permitted\<close>

lemma bnd_Inr: "bnd f g m = (Inr y, m') \<longleftrightarrow> (\<exists>x m1. f m = (Inr x, m1) \<and> g x m1 = (Inr y, m'))"
  by (auto simp: bnd_def split: prod.splits sum.splits)

lemma thn_Inr: "thn f g m = (Inr y, m') \<longleftrightarrow> (\<exists>x m1. f m = (Inr x, m1) \<and> g m1 = (Inr y, m'))"
  by (simp add: thn_def bnd_Inr)

lemma simple_Inr:
  "ret x m = (Inr y, m') \<longleftrightarrow> y = x \<and> m' = m" "gets h m = (Inr z, m') \<longleftrightarrow> z = h m \<and> m' = m" "alter f m = (Inr u, m') \<longleftrightarrow> m' = f m"
  "update_ctx g m = (Inr u, m') \<longleftrightarrow> m' = m\<lparr>m_ctx := g (m_ctx m)\<rparr>" "thrown e m = (Inr w, m') \<longleftrightarrow> False" "throw e' m = (Inr w, m') \<longleftrightarrow> False"
  by (auto simp: ret_def gets_def alter_def update_ctx_def thrown_def throw_def)

lemmas act_Inr = bnd_Inr thn_Inr simple_Inr

definition risk_of :: "orch_env \<Rightarrow> string \<Rightarrow> risk_decision" where
  "risk_of env c = classify_command (oe_risk env) c (Some (oe_ws_path env))"

definition policy_on :: "policy list \<Rightarrow> risk_decision \<Rightarrow> policy_decision" where
  "policy_on chain d = evaluate_policy chain ''command.run'' (Some (command_effect d))"

text \<open>
  \<open>c\<close> may be executed: it is what was asked for, or what an approver made of it; the policies of the run do not deny what was asked for, and
  it is one the rules run unattended, one granted for the run, or one a person approved.
\<close>

definition permitted :: "orch_env \<Rightarrow> machine \<Rightarrow> string \<Rightarrow> bool" where
  "permitted env m c \<longleftrightarrow> rd_level (risk_of env c) \<noteq> BLOCKED \<and>
     (\<exists>asked chain. m_policies m = Some chain \<and> pd_result (policy_on chain (risk_of env asked)) \<noteq> DENY \<and>
       (c = asked \<and> auto_run (risk_of env c) \<and> \<not> approval_required (policy_on chain (risk_of env c)) \<or>
        c = asked \<and> has_grant shlex_split (oe_digest env) (m_db m) (oe_run env) c \<or>
        (\<exists>a \<in> set (cx_approvals (m_ctx m)). an_type a = ''command'' \<and> an_approved a \<and> an_command a = safe_command (Some asked) \<and>
           (c = asked \<or> an_decision a = MODIFY))))"

definition grows :: "machine \<Rightarrow> machine \<Rightarrow> bool" where
  "grows m m' \<longleftrightarrow> (m_policies m = None \<or> m_policies m' = m_policies m) \<and> prefix (cx_approvals (m_ctx m)) (cx_approvals (m_ctx m')) \<and>
     db_grows (m_db m) (m_db m')"

lemma grows_trans: "grows a b \<Longrightarrow> grows b c \<Longrightarrow> grows a c"
  by (auto simp: grows_def intro: db_grows_trans prefix_order.trans)

lemma calm_grows: "calm m m' \<Longrightarrow> grows m m'"
  by (simp add: calm_def grows_def)

lemma permitted_grows:
  assumes "permitted env m c" "grows m m'"
  shows "permitted env m' c"
proof -
  have a: "set (cx_approvals (m_ctx m)) \<subseteq> set (cx_approvals (m_ctx m'))" using assms(2) by (simp add: grows_def set_mono_prefix)
  have g: "has_grant shlex_split (oe_digest env) (m_db m) (oe_run env) c \<Longrightarrow> has_grant shlex_split (oe_digest env) (m_db m') (oe_run env) c"
    using assms(2) by (auto simp: grows_def db_grows_def has_grant_def list_ex_iff)
  have p: "m_policies m = Some chain \<Longrightarrow> m_policies m' = Some chain" for chain using assms(2) by (auto simp: grows_def)
  obtain asked chain where e: "rd_level (risk_of env c) \<noteq> BLOCKED" "m_policies m = Some chain" "pd_result (policy_on chain (risk_of env asked)) \<noteq> DENY"
      "c = asked \<and> auto_run (risk_of env c) \<and> \<not> approval_required (policy_on chain (risk_of env c)) \<or>
        c = asked \<and> has_grant shlex_split (oe_digest env) (m_db m) (oe_run env) c \<or>
        (\<exists>a \<in> set (cx_approvals (m_ctx m)). an_type a = ''command'' \<and> an_approved a \<and> an_command a = safe_command (Some asked) \<and>
           (c = asked \<or> an_decision a = MODIFY))"
    using assms(1) unfolding permitted_def by blast
  show ?thesis unfolding permitted_def
    by (rule conjI [OF e(1)], rule exI [of _ asked], rule exI [of _ chain], intro conjI, rule p [OF e(2)], rule e(3)) (use e(4) a g in blast)
qed

definition obeys :: "orch_env \<Rightarrow> machine \<Rightarrow> machine \<Rightarrow> bool" where
  "obeys env m m' \<longleftrightarrow> grows m m' \<and> (\<exists>ds. m_deeds m' = m_deeds m @ ds \<and> (\<forall>c. RanCommand c \<in> set ds \<longrightarrow> permitted env m' c))"

lemma obeys_trans: "obeys env a b \<Longrightarrow> obeys env b c \<Longrightarrow> obeys env a c"
  unfolding obeys_def
proof (elim conjE exE, intro conjI)
  fix ds es
  assume ab: "grows a b" "m_deeds b = m_deeds a @ ds" "\<forall>x. RanCommand x \<in> set ds \<longrightarrow> permitted env b x"
    and bc: "grows b c" "m_deeds c = m_deeds b @ es" "\<forall>x. RanCommand x \<in> set es \<longrightarrow> permitted env c x"
  show "grows a c" using ab(1) bc(1) by (rule grows_trans)
  show "\<exists>ds. m_deeds c = m_deeds a @ ds \<and> (\<forall>x. RanCommand x \<in> set ds \<longrightarrow> permitted env c x)"
    by (rule exI [of _ "ds @ es"]) (use ab bc permitted_grows [OF _ bc(1)] in auto)
qed

lemma obeys_quiet: "grows m m' \<Longrightarrow> m_deeds m' = m_deeds m \<Longrightarrow> obeys env m m'"
  by (simp add: obeys_def)

lemma obeys_refl: "obeys env m m"
  by (simp add: obeys_quiet grows_def)

interpretation obeys: two_state "obeys env" for env
  by unfold_locales (auto intro: obeys_trans obeys_refl)

definition obedient :: "orch_env \<Rightarrow> machine \<Rightarrow> machine \<Rightarrow> bool" where
  "obedient env m m' \<longleftrightarrow> honest_others env \<longrightarrow> obeys env m m'"

interpretation obedient: workspace_frame "obedient env" env for env
  by unfold_locales (auto simp: obedient_def steady_def grows_def intro: obeys_trans obeys_refl obeys_quiet)

lemma request_approval_noted:
  assumes "request_approval env kind command why effect risk m = (Inr o', m')"
  shows "\<exists>a \<in> set (cx_approvals (m_ctx m')). an_type a = kind \<and> an_command a = safe_command command \<and>
    an_approved a = approved o' \<and> an_decision a = oc_decision o'"
  using assms unfolding request_approval_def Let_def by (auto simp: act_Inr)

lemma calm_keeps_policies: "keeps calm f \<Longrightarrow> f m = (r, m') \<Longrightarrow> m_policies m' = m_policies m"
  using keeps_run [of calm f m] by (simp add: calm_def)

lemma policy_chain_loaded: "policy_chain env m = (Inr chain, m') \<Longrightarrow> m_policies m' = Some chain"
  by (auto simp: policy_chain_def act_Inr split: option.splits)

lemma permit_sound:
  assumes honest: "honest_others env"
    and run: "permit env command (risk_of env command) (policy_on chain (risk_of env command)) (command_effect (risk_of env command)) prefs m = (Inr (True, c), m')"
    and ok: "rd_level (risk_of env command) \<noteq> BLOCKED" "pd_result (policy_on chain (risk_of env command)) \<noteq> DENY" "m_policies m = Some chain"
  shows "permitted env m' c"
proof -
  have pol: "m_policies m' = Some chain" using calm_keeps_policies [OF keeps_permit [OF honest] run] ok(3) by simp
  show ?thesis
  proof (cases "needs_person (risk_of env command) (policy_on chain (risk_of env command)) prefs (command_effect (risk_of env command))")
    case False
    then have "c = command" "auto_run (risk_of env command)" using run by (auto simp: permit_def act_Inr)
    then show ?thesis using False ok pol unfolding permitted_def needs_person_def by blast
  next
    case person: True
    obtain granted m1 where g: "stored env (\<lambda>now uid m. Inr (has_grant shlex_split (oe_digest env) (m_db m) (oe_run env) command, m)) m = (Inr granted, m1)"
      using run person by (auto simp: permit_def act_Inr)
    have run_g: "bnd (stored env (\<lambda>now uid m. Inr (has_grant shlex_split (oe_digest env) (m_db m) (oe_run env) command, m))) G m = G granted m1"
      for G :: "bool \<Rightarrow> (bool \<times> string) act" by (simp add: bnd_def g)
    show ?thesis
    proof (cases granted)
      case True
      have "has_grant shlex_split (oe_digest env) (m_db m1) (oe_run env) command"
        using g True by (auto simp: stored_def tx_def Let_def split: sum.splits prod.splits)
      moreover have e: "c = command" "emit env ''approval_reused'' None None [(''command'', VStr (redact_secrets command))] m1 = (Inr (), m')"
        using run person True unfolding permit_def by (auto simp: run_g thn_Inr simple_Inr)
      moreover have "db_grows (m_db m1) (m_db m')" using keeps_run [OF keeps_emit [OF honest] e(2)] by (simp add: calm_def)
      ultimately have "has_grant shlex_split (oe_digest env) (m_db m') (oe_run env) c"
        by (auto simp: has_grant_def list_ex_iff db_grows_def)
      then show ?thesis using e(1) ok pol unfolding permitted_def by blast
    next
      case False
      obtain o' m2 where req: "request_approval env ''command'' (Some command) (ask_reason (risk_of env command) (policy_on chain (risk_of env command)))
          (command_effect (risk_of env command)) (Some (risk_value (rd_level (risk_of env command)))) m1 = (Inr o', m2)"
        and post: "after_decision env command o' m2 = (Inr (True, c), m')"
        using run person False unfolding permit_def by (auto simp only: run_g not_True_eq_False if_False bnd_Inr)
      have m2: "m' = m2" "approved o'" "rd_level (risk_of env c) \<noteq> BLOCKED" "c = command \<or> oc_decision o' = MODIFY"
        using post ok(1) by (auto simp: after_decision_def Let_def thn_Inr simple_Inr risk_of_def split: if_splits)
      from request_approval_noted [OF req] show ?thesis using m2 ok pol unfolding permitted_def by auto
    qed
  qed
qed

lemma run_in_runtime_obeys:
  assumes "permitted env m c"
  shows "obeys env m (snd (run_in_runtime env c ok k m))"
proof -
  have "obeys env m (snd (execute_command env c k m))"
  proof -
    obtain r fs where x: "oe_execute env k c (m_fs m) = (r, fs)" by fastforce
    let ?m = "m\<lparr>m_fs := fs, m_deeds := m_deeds m @ [RanCommand c]\<rparr>"
    have g: "grows m ?m" by (simp add: grows_def)
    have "obeys env m ?m" unfolding obeys_def using g permitted_grows [OF assms g] by simp
    then show ?thesis using x by (simp add: execute_command_def bnd_def gets_def thn_def alter_def ret_def)
  qed
  then show ?thesis by (auto simp: run_in_runtime_def run_command_safe_def Let_def ret_def obeys_refl)
qed

lemma quiet_obeys: "keeps calm f \<Longrightarrow> obeys env m (snd (f m))"
  using keepsD [of calm f m] by (auto simp: calm_def grows_def intro: obeys_quiet)

lemma permitted_calm: "keeps calm f \<Longrightarrow> f m = (r, m') \<Longrightarrow> permitted env m c \<Longrightarrow> permitted env m' c"
  by (rule permitted_grows) (assumption, rule calm_grows, rule keeps_run)

lemma perform_obeys:
  assumes honest: "honest_others env" and ok: "fst p \<Longrightarrow> permitted env m (snd p)"
  shows "obeys env m (snd (perform env effect p m))"
proof (cases "fst p")
  case True
  have run: "obeys env m1 (snd (in_thread env (run_in_runtime env (snd p) True) m1))" if "permitted env m1 (snd p)" for m1
  proof -
    obtain r m2 where r: "run_in_runtime env (snd p) True (m_tick m1) m1 = (r, m2)" by fastforce
    have "obeys env m1 m2" using run_in_runtime_obeys [OF that, of True "m_tick m1"] r by simp
    moreover have "obeys env m2 (snd (suspend env m2))" by (rule quiet_obeys, rule keeps_suspend [OF honest])
    ultimately have "obeys env m1 (snd (suspend env m2))" by (rule obeys_trans)
    then show ?thesis unfolding in_thread_def r prod.case by (cases "suspend env m2") (auto split: sum.split)
  qed
  have started: "obeys env m (snd (thn (emit env ''command_started'' None None pl) (bnd (in_thread env (run_in_runtime env (snd p) True)) g) m))"
    if "\<And>r m2. obeys env m2 (snd (g r m2))" for pl and g :: "cmd_result \<Rightarrow> cmd_entry act"
    by (rule obeys.thn_step, rule quiet_obeys [OF keeps_emit [OF honest]], rule obeys.bnd_step, rule run,
        rule permitted_calm [OF keeps_emit [OF honest]], assumption, rule ok [OF True], rule that)
  have "obeys env m2 (snd (thn (emit env ''command_executed'' None None pl) (ret (snd p, r)) m2))" for pl r m2
    by (rule quiet_obeys) (intro keeps_rules honest)
  then show ?thesis unfolding perform_def case_prod_beta using True by (simp only: not_True_eq_False if_False) (rule started)
next
  case False
  then show ?thesis unfolding perform_def case_prod_beta by (simp only: not_False_eq_True if_True) (rule quiet_obeys, intro keeps_rules honest)
qed

lemma gate_obeys:
  assumes honest: "honest_others env" and loaded: "m_policies m = Some chain"
  shows "obeys env m (snd (gate env c chain m))"
proof (cases "rd_level (risk_of env c) = BLOCKED \<or> pd_result (policy_on chain (risk_of env c)) = DENY")
  case True
  then show ?thesis unfolding gate_def Let_def risk_of_def [symmetric] policy_on_def [symmetric]
    by (auto intro!: quiet_obeys keeps_rules honest)
next
  case False
  let ?d = "risk_of env c"
  have "obeys env m (snd (bnd (preferences env) (\<lambda>prefs. bnd (permit env c ?d (policy_on chain ?d) (command_effect ?d) prefs)
      (perform env (command_effect ?d))) m))"
  proof (rule obeys.bnd_step, rule quiet_obeys [OF keeps_preferences [OF honest]], rule obeys.bnd_step, rule quiet_obeys [OF keeps_permit [OF honest]])
    fix prefs m1 p m2
    assume p: "preferences env m = (Inr prefs, m1)" "permit env c ?d (policy_on chain ?d) (command_effect ?d) prefs m1 = (Inr p, m2)"
    have "m_policies m1 = Some chain" using calm_keeps_policies [OF keeps_preferences [OF honest] p(1)] loaded by simp
    then have "fst p \<Longrightarrow> permitted env m2 (snd p)" using permit_sound [OF honest, of c chain prefs m1 "snd p" m2] p(2) False by (cases p) auto
    then show "obeys env m2 (snd (perform env (command_effect ?d) p m2))" by (rule perform_obeys [OF honest])
  qed
  then show ?thesis using False unfolding gate_def Let_def risk_of_def [symmetric] policy_on_def [symmetric] by simp
qed

lemma exec_obeys: "keeps (obedient env) (exec env c)"
proof (cases "honest_others env")
  case True
  have ws: "obeys env m (snd (get_ws env m))" "obeys env m (snd (policy_chain env m))" for m
    using keepsD [OF obedient.get_ws_R, of env m] keepsD [OF obedient.policy_chain_R, of env m] True by (simp_all add: obedient_def)
  have log: "obeys env m (snd (thn (update_ctx (\<lambda>cx. cx\<lparr>cx_commands_run := cx_commands_run cx @ [e]\<rparr>)) (ret e) m))" for m e
    by (simp add: thn_def bnd_def update_ctx_def alter_def ret_def obeys_quiet grows_def)
  have "obeys env m (snd (exec env c m))" for m
    unfolding exec_def
    by (rule obeys.thn_step, rule quiet_obeys [OF keeps_enforce(2)], rule obeys.thn_step, rule ws(1), rule obeys.bnd_step, rule ws(2),
        rule obeys.bnd_step, rule gate_obeys [OF True policy_chain_loaded], assumption, rule log)
  then show ?thesis by (simp add: obedient_def keeps_def)
qed (simp add: obedient_def keeps_def)

interpretation obedient: run_frame "obedient env" env for env
  by unfold_locales (rule exec_obeys, simp add: obedient_def obeys_quiet grows_def add_round_def)

lemma execute_obeys: "keeps (obedient env) (execute env resumed)"
proof -
  have "keeps (obedient env) (do_promote env k)" for k
  proof -
    have "obeys env m (snd (do_promote env k m))" for m
      by (auto simp: do_promote_def bnd_def gets_def thn_def alter_def ret_def thrown_def throw_def obeys_refl split: sum.split)
        (simp_all add: obeys_def grows_def)
    then show ?thesis by (simp add: keeps_def obedient_def)
  qed
  then show ?thesis by (intro obedient.execute_R obedient.finalize_R)
qed

text \<open>
  C2: The gate for commands. Whatever the models, the commands, the persons and the other workers do: every command that a run executes is none of the blocked
  ones, was asked for as a command that the run's policies do not deny, and ran because the rules run it unattended (and no policy asks
  for a person), because a person granted it for the run, or because a person approved it, possibly in other words.
\<close>

theorem executed_commands_are_permitted:
  assumes "honest_others env" and "execute env resumed m = (r, m')"
  shows "\<exists>ds. m_deeds m' = m_deeds m @ ds \<and> (\<forall>c. RanCommand c \<in> set ds \<longrightarrow> permitted env m' c)"
  using keeps_run [OF execute_obeys assms(2)] assms(1) by (simp add: obedient_def obeys_def)

section \<open>The budget for commands\<close>

definition executed_in :: "deed list \<Rightarrow> nat" where
  "executed_in ds = length (filter (\<lambda>d. case d of RanCommand c \<Rightarrow> True | Promoted t \<Rightarrow> False) ds)"

definition attempted :: "machine \<Rightarrow> nat" where
  "attempted m = length (cx_commands_run (m_ctx m))"

lemma executed_in_simps [simp]:
  "executed_in [] = 0" "executed_in (ds @ es) = executed_in ds + executed_in es" "executed_in [RanCommand c] = 1" "executed_in [Promoted t] = 0"
  by (simp_all add: executed_in_def)

text \<open>A step that executes no command and records none.\<close>

definition idle :: "orch_env \<Rightarrow> machine \<Rightarrow> machine \<Rightarrow> bool" where
  "idle env m m' \<longleftrightarrow> honest_others env \<longrightarrow> attempted m' = attempted m \<and> executed_in (m_deeds m') = executed_in (m_deeds m)"

interpretation idle: workspace_frame "idle env" env for env
  by unfold_locales (auto simp: idle_def steady_def attempted_def)

text \<open>
  A command is recorded after it was executed. In between the run may be cut off, so the invariant \<open>thrifty\<close> (every executed command is recorded,
  and there are no more than allowed) is kept by steps that return, and by those that block the phase; after any other exception
  only the bound \<open>bounded\<close> holds. \<open>n\<close> is what was executed before the run and is not recorded in it.
\<close>

definition bounded :: "orch_env \<Rightarrow> int \<Rightarrow> machine \<Rightarrow> bool" where
  "bounded env n m \<longleftrightarrow> l_max_commands (oe_limits env) > 0 \<longrightarrow> int (executed_in (m_deeds m)) - n \<le> l_max_commands (oe_limits env)"

definition thrifty :: "orch_env \<Rightarrow> int \<Rightarrow> machine \<Rightarrow> bool" where
  "thrifty env n m \<longleftrightarrow> int (executed_in (m_deeds m)) - n \<le> int (attempted m) \<and>
     (l_max_commands (oe_limits env) > 0 \<longrightarrow> int (attempted m) \<le> l_max_commands (oe_limits env))"

fun blocking :: "exc \<Rightarrow> bool" where
  "blocking (PhaseBlocked s) \<longleftrightarrow> True"
| "blocking e \<longleftrightarrow> False"

primrec orderly :: "exc + 'a \<Rightarrow> bool" where
  "orderly (Inl e) \<longleftrightarrow> blocking e"
| "orderly (Inr x) \<longleftrightarrow> True"

definition spends :: "orch_env \<Rightarrow> int \<Rightarrow> 'a act \<Rightarrow> bool" where
  "spends env n f \<longleftrightarrow> honest_others env \<longrightarrow> (\<forall>m. thrifty env n m \<longrightarrow> bounded env n (snd (f m)) \<and> (orderly (fst (f m)) \<longrightarrow> thrifty env n (snd (f m))))"

lemma thrifty_bounded: "thrifty env n m \<Longrightarrow> bounded env n m"
  by (auto simp: thrifty_def bounded_def)

lemma idle_keeps:
  assumes "idle env m m'" "honest_others env"
  shows "thrifty env n m' \<longleftrightarrow> thrifty env n m" "bounded env n m' \<longleftrightarrow> bounded env n m"
  using assms by (auto simp: idle_def thrifty_def bounded_def)

lemma spends_idle: "keeps (idle env) f \<Longrightarrow> spends env n f"
  unfolding spends_def keeps_def using idle_keeps thrifty_bounded by blast

lemma spendsD:
  assumes "spends env n f" "honest_others env" "thrifty env n m" "f m = (r, m')"
  shows "bounded env n m'" "orderly r \<Longrightarrow> thrifty env n m'"
  using assms unfolding spends_def by (metis fst_conv snd_conv)+

lemma spends_bnd:
  assumes f: "spends env n f" and g: "\<And>x. spends env n (g x)"
  shows "spends env n (bnd f g)"
  unfolding spends_def
proof (intro impI allI)
  fix m assume h: "honest_others env" and t: "thrifty env n m"
  obtain r m1 where r: "f m = (r, m1)" by fastforce
  note s = spendsD [OF f h t r]
  show "bounded env n (snd (bnd f g m)) \<and> (orderly (fst (bnd f g m)) \<longrightarrow> thrifty env n (snd (bnd f g m)))"
  proof (cases r)
    case (Inl e)
    then show ?thesis using s r by (cases e) (simp_all add: bnd_def)
  next
    case (Inr x)
    then have "thrifty env n m1" using s by simp
    then show ?thesis using g [of x] h r Inr by (simp add: bnd_def spends_def)
  qed
qed

lemma spends_thn: "spends env n f \<Longrightarrow> spends env n g \<Longrightarrow> spends env n (thn f g)"
  unfolding thn_def by (rule spends_bnd)

lemma spends_if: "(b \<Longrightarrow> spends env n f) \<Longrightarrow> (\<not> b \<Longrightarrow> spends env n g) \<Longrightarrow> spends env n (if b then f else g)"
  by simp

lemma spends_prod: "(\<And>a b. spends env n (f a b)) \<Longrightarrow> spends env n (case x of (a, b) \<Rightarrow> f a b)"
  by (cases x) simp

lemma spends_each: "(\<And>x. spends env n (f x)) \<Longrightarrow> spends env n (each f xs)"
  by (induction xs) (auto intro!: spends_bnd spends_idle [OF idle.keeps_ret])

definition unblocked :: "'a act \<Rightarrow> bool" where
  "unblocked f \<longleftrightarrow> (\<forall>m s. fst (f m) \<noteq> Inl (PhaseBlocked s))"

lemma unblockedD: "unblocked f \<Longrightarrow> f m = (Inl e, m') \<Longrightarrow> \<not> blocking e"
  by (cases e) (auto simp: unblocked_def dest: spec [of _ m])

lemma unblocked_bnd: "unblocked f \<Longrightarrow> (\<And>x. unblocked (g x)) \<Longrightarrow> unblocked (bnd f g)"
  unfolding unblocked_def bnd_def by (auto split: prod.splits sum.splits) (metis fst_conv)+

lemma unblocked_thn: "unblocked f \<Longrightarrow> unblocked g \<Longrightarrow> unblocked (thn f g)"
  unfolding thn_def by (rule unblocked_bnd)

lemma unblocked_steps:
  "unblocked (ret x)" "unblocked (gets h)" "unblocked (alter a)" "unblocked (thrown e)" "unblocked (stored env body)" "unblocked (emit env ty p st pl)"
  "unblocked (suspend env)"
  by (auto simp: unblocked_def ret_def gets_def alter_def thrown_def throw_def stored_def emit_def suspend_def exc_of_def Let_def
      split: prod.splits sum.splits run_error.splits)

lemma unblocked_in_thread:
  assumes "\<And>k. unblocked (f k)"
  shows "unblocked (in_thread env f)"
  using assms unblocked_steps(7) [of env] unfolding unblocked_def in_thread_def by (auto split: prod.splits sum.splits) (metis fst_conv)+

lemma unblocked_run: "unblocked (run_in_runtime env c ok k)" "unblocked (ws_step r)"
proof -
  have "unblocked (execute_command env c k)"
    unfolding execute_command_def case_prod_beta by (intro unblocked_bnd unblocked_thn unblocked_steps)
  then show "unblocked (run_in_runtime env c ok k)" by (simp add: run_in_runtime_def run_command_safe_def Let_def unblocked_steps)
  show "unblocked (ws_step r)" unfolding ws_step_def by (rule unblocked_thn) (simp_all add: unblocked_steps)
qed

lemma spends_ensure:
  assumes f: "spends env n f" and g: "keeps (idle env) g" "unblocked g"
  shows "spends env n (ensure f g)"
  unfolding spends_def
proof (intro impI allI)
  fix m assume h: "honest_others env" and t: "thrifty env n m"
  obtain r m1 where r: "f m = (r, m1)" by fastforce
  obtain u m2 where u: "g m1 = (u, m2)" by fastforce
  show "bounded env n (snd (ensure f g m)) \<and> (orderly (fst (ensure f g m)) \<longrightarrow> thrifty env n (snd (ensure f g m)))"
    using spendsD [OF f h t r] idle_keeps [OF keeps_run [OF g(1) u] h] unblockedD [OF g(2), of m1 _ m2] r u
    by (cases u) (simp_all add: ensure_def)
qed

text \<open>Past the gate at most one command is executed.\<close>

definition once :: "orch_env \<Rightarrow> machine \<Rightarrow> machine \<Rightarrow> bool" where
  "once env m m' \<longleftrightarrow> honest_others env \<longrightarrow> attempted m' = attempted m \<and> executed_in (m_deeds m') \<le> Suc (executed_in (m_deeds m))"

lemma idle_once: "idle env a b \<Longrightarrow> once env b c \<Longrightarrow> once env a c" "once env a b \<Longrightarrow> idle env b c \<Longrightarrow> once env a c"
  by (auto simp: idle_def once_def)

lemma run_once: "once env m (snd (in_thread env (run_in_runtime env c ok) m))"
proof -
  obtain r m1 where r: "run_in_runtime env c ok (m_tick m) m = (r, m1)" by fastforce
  have "once env m m1" using r
    by (auto simp: once_def attempted_def run_in_runtime_def run_command_safe_def execute_command_def Let_def bnd_def thn_def gets_def alter_def ret_def
        split: if_splits prod.splits)
  moreover obtain u m2 where u: "suspend env m1 = (u, m2)" by fastforce
  ultimately have "once env m m2" using keeps_run [OF idle.suspend_R u] idle_once(2) by blast
  then show ?thesis using r u by (cases u) (simp_all add: in_thread_def)
qed

lemma perform_once: "once env m (snd (perform env effect p m))" "unblocked (perform env effect p)"
proof -
  obtain ok c where p: "p = (ok, c)" by fastforce
  show "unblocked (perform env effect p)" unfolding perform_def p
    by (cases ok) (simp_all, (intro unblocked_bnd unblocked_thn unblocked_steps unblocked_in_thread unblocked_run)+)
  have tail: "keeps (idle env) (thn (emit env ty a b pl) (ret x))" for ty a b pl and x :: cmd_entry by (intro keeps_rules)
  have run: "once env m1 (snd (bnd (in_thread env (run_in_runtime env c True)) (\<lambda>r. thn (emit env ty a b (pl r)) (ret (g r))) m1))"
    for m1 ty a b pl and g :: "cmd_result \<Rightarrow> cmd_entry"
  proof -
    obtain r m2 where r: "in_thread env (run_in_runtime env c True) m1 = (r, m2)" by fastforce
    then have "once env m1 m2" using run_once [of env m1 c True] by simp
    then show ?thesis using r idle_once(2) [OF _ keepsD [OF tail]] by (cases r) (auto simp: bnd_def)
  qed
  show "once env m (snd (perform env effect p m))"
  proof (cases ok)
    case True
    obtain r m1 where r: "emit env ''command_started'' None None [(''command'', VStr (redact_secrets c)), (''side_effect'', VStr (side_effect_value effect))] m = (r, m1)"
      by fastforce
    have e: "idle env m m1" using keeps_run [OF idle.calm_acts(1) r] .
    show ?thesis using idle_once(1) [OF e run] idle_once(1) [OF e, of m1] r True by (cases r) (simp_all add: perform_def p thn_def [of "emit env ''command_started'' None None _"] bnd_def [of "emit env ''command_started'' None None _"] once_def)
  next
    case False
    have "idle env m (snd (perform env effect p m))" using False tail [THEN keepsD] by (simp add: perform_def p)
    then show ?thesis by (auto simp: idle_def once_def)
  qed
qed

lemma enforce_commands:
  assumes "enforce env [B_COMMANDS] m = (Inr u, m')"
  shows "l_max_commands (oe_limits env) \<le> 0 \<or> int (length (cx_commands_run (m_ctx m'))) < l_max_commands (oe_limits env)"
proof -
  have none: "exhausted (counters_of (m_ctx m')) (oe_limits env) [B_COMMANDS] = None" using assms by (auto simp: enforce_def act_Inr split: option.splits)
  show ?thesis
  proof (rule ccontr)
    assume "\<not> (l_max_commands (oe_limits env) \<le> 0 \<or> int (length (cx_commands_run (m_ctx m'))) < l_max_commands (oe_limits env))"
    then have lim: "l_max_commands (oe_limits env) \<le> int (length (cx_commands_run (m_ctx m')))" "0 < l_max_commands (oe_limits env)" by linarith+
    then have "(of_int (l_max_commands (oe_limits env)) :: rat) \<le> of_nat (length (cx_commands_run (m_ctx m')))"
      by (metis of_int_le_iff of_int_of_nat_eq)
    with lim(2) have "exhausted (counters_of (m_ctx m')) (oe_limits env) [B_COMMANDS] \<noteq> None"
      by (simp add: exhausted_def snapshot_def counters_of_def line_exhausted_def unlimited_def)
    then show False using none by simp
  qed
qed

lemma gate_once: "\<exists>m1. idle env m m1 \<and> (gate env c chain m = (r, m') \<longrightarrow> m' = m1 \<or> once env m1 m' \<and> (\<forall>e. r = Inl e \<longrightarrow> \<not> blocking e))"
  for r :: "exc + cmd_entry"
proof -
  note quiet = idle.calm_acts(9,10) [of env]
  have said: "keeps (idle env) (thn (emit env ty a b pl) (ret x))" for ty a b pl and x :: cmd_entry by (intro keeps_rules)
  let ?d = "classify_command (oe_risk env) c (Some (oe_ws_path env))"
  show ?thesis
  proof (cases "rd_level ?d = BLOCKED \<or> pd_result (evaluate_policy chain ''command.run'' (Some (command_effect ?d))) = DENY")
    case True
    then have "idle env m (snd (gate env c chain m))" using said [THEN keepsD] by (simp add: gate_def Let_def)
    then show ?thesis by (intro exI [of _ "snd (gate env c chain m)"]) auto
  next
    case False
    obtain r1 m1 where p: "preferences env m = (r1, m1)" by fastforce
    have i1: "idle env m m1" using keeps_run [OF quiet(1) p] .
    show ?thesis
    proof (cases r1)
      case (Inl e)
      then show ?thesis using i1 p False by (intro exI [of _ m1]) (auto simp: gate_def Let_def bnd_def)
    next
      case (Inr prefs)
      let ?v = "evaluate_policy chain ''command.run'' (Some (command_effect ?d))"
      obtain r2 m2 where q: "permit env c ?d ?v (command_effect ?d) prefs m1 = (r2, m2)" by fastforce
      have i2: "idle env m m2" using idle.after_both [OF i1 keeps_run [OF quiet(2) q]] .
      have run: "gate env c chain m = (case r2 of Inl e \<Rightarrow> (Inl e, m2) | Inr w \<Rightarrow> perform env (command_effect ?d) w m2)"
        using p q Inr False by (simp add: gate_def Let_def bnd_def)
      show ?thesis using i2 run perform_once(1) [of env m2 "command_effect ?d"] unblockedD [OF perform_once(2), of env "command_effect ?d" _ m2]
        by (intro exI [of _ m2]) (auto split: sum.splits, (metis snd_conv)+)
    qed
  qed
qed

lemma thrifty_once:
  assumes "thrifty env n m" "idle env m m1" "once env m1 m'" "honest_others env"
    and "l_max_commands (oe_limits env) \<le> 0 \<or> int (attempted m) < l_max_commands (oe_limits env)"
  shows "bounded env n m'" "thrifty env n (m'\<lparr>m_ctx := (m_ctx m')\<lparr>cx_commands_run := cx_commands_run (m_ctx m') @ [e]\<rparr>\<rparr>)"
proof -
  have a: "attempted m' = attempted m" "executed_in (m_deeds m') \<le> Suc (executed_in (m_deeds m))"
    using assms by (auto simp: idle_def once_def)
  show "bounded env n m'" using assms(1,5) a by (auto simp: thrifty_def bounded_def)
  have "attempted (m'\<lparr>m_ctx := (m_ctx m')\<lparr>cx_commands_run := cx_commands_run (m_ctx m') @ [e]\<rparr>\<rparr>) = Suc (attempted m)"
    using a(1) by (simp add: attempted_def)
  then show "thrifty env n (m'\<lparr>m_ctx := (m_ctx m')\<lparr>cx_commands_run := cx_commands_run (m_ctx m') @ [e]\<rparr>\<rparr>)"
    using assms(1,5) a(2) by (auto simp: thrifty_def)
qed

lemma exec_spends: "spends env n (exec env c)"
  unfolding spends_def
proof (intro impI allI)
  fix m assume h: "honest_others env" and t: "thrifty env n m"
  let ?ready = "thn (get_ws env) (policy_chain env)"
  let ?log = "\<lambda>e. thn (update_ctx (\<lambda>cx. cx\<lparr>cx_commands_run := cx_commands_run cx @ [e]\<rparr>)) (ret e)"
  have eq: "exec env c = thn (enforce env [B_COMMANDS]) (bnd ?ready (\<lambda>chain. bnd (gate env c chain) ?log))"
    by (auto simp: exec_def thn_def bnd_def fun_eq_iff split: prod.split sum.split)
  obtain r0 m0 where r0: "enforce env [B_COMMANDS] m = (r0, m0)" by fastforce
  have i0: "idle env m m0" using keeps_run [OF idle.of_calm [OF keeps_enforce(2)] r0] .
  note t0 = idle_keeps [OF i0 h, of n]
  obtain r1 m1 where r1: "?ready m0 = (r1, m1)" by fastforce
  have "keeps (idle env) ?ready" by (intro keeps_rules)
  then have i1: "idle env m0 m1" using keeps_run r1 by blast
  show "bounded env n (snd (exec env c m)) \<and> (orderly (fst (exec env c m)) \<longrightarrow> thrifty env n (snd (exec env c m)))"
  proof (cases "\<exists>u chain. r0 = Inr u \<and> r1 = Inr chain")
    case False
    then have "\<exists>r. exec env c m = (r, m0) \<or> exec env c m = (r, m1)"
      using r0 r1 by (cases r0; cases r1) (auto simp: eq thn_def [of "enforce env [B_COMMANDS]"] bnd_def)
    moreover have "thrifty env n m0" "thrifty env n m1" using t t0 idle_keeps [OF i1 h, of n] by simp_all
    ultimately show ?thesis using thrifty_bounded by fastforce
  next
    case True
    then obtain u chain where ok: "r0 = Inr u" "r1 = Inr chain" by blast
    obtain r2 m2 where r2: "gate env c chain m1 = (r2, m2)" by fastforce
    have lim: "l_max_commands (oe_limits env) \<le> 0 \<or> int (attempted m0) < l_max_commands (oe_limits env)"
      using enforce_commands r0 ok unfolding attempted_def by blast
    obtain m' where i2: "idle env m1 m'" "m2 = m' \<or> once env m' m2 \<and> (\<forall>e. r2 = Inl e \<longrightarrow> \<not> blocking e)"
      using gate_once [of env m1 c chain r2 m2] r2 by blast
    have i: "idle env m0 m'" using idle.after_both [OF i1 i2(1)] .
    have "once env m' m2" using i2(2) by (auto simp: once_def)
    note fin = thrifty_once [OF iffD2 [OF t0(1) t] i this h lim]
    have "m2 = m' \<Longrightarrow> thrifty env n m2" using idle_keeps [OF i h, of n] t t0 by simp
    then show ?thesis using fin i2(2) r0 r1 r2 ok
      by (cases r2) (auto simp: eq thn_def bnd_def update_ctx_def alter_def ret_def intro: thrifty_bounded)
  qed
qed

lemma run_commands_spend: "spends env n (run_commands env cs)" "spends env n (test_round env cs)" "spends env n (run_baseline env cs)"
proof -
  show 1: "spends env n (run_commands env cs)" unfolding run_commands_def by (intro spends_each exec_spends)
  show "spends env n (test_round env cs)" unfolding test_round_def
    by (rule spends_bnd [OF 1], rule spends_idle) (intro keeps_rules; simp add: steady_def rounds_def)
  have undo: "keeps (idle env) (in_thread env (\<lambda>k. bnd (gets (\<lambda>m. restore_base (oe_ws env) (oe_io env k) (case m_ws m of Some b \<Rightarrow> b | None \<Rightarrow> []) (m_fs m))) ws_step))"
    by (intro idle.in_thread_R idle.ws_step_R) (simp add: restore_base_def idle.restored)
  have redo: "keeps (idle env) (in_thread env (\<lambda>k. bnd (gets (\<lambda>m. ws_restore (oe_ws env) (oe_io env k) st (m_fs m))) ws_step))" for st
    by (intro idle.in_thread_R idle.ws_step_R) (rule idle.restored)
  have clear: "unblocked (in_thread env (\<lambda>k. bnd (gets (\<lambda>m. ws_restore (oe_ws env) (oe_io env k) st (m_fs m))) ws_step))" for st
    by (intro unblocked_in_thread unblocked_bnd unblocked_steps unblocked_run)
  have "keeps (idle env) (in_thread env (on_base (ws_checkpoint (oe_ws env))))" "keeps (idle env) (emit env ty p st pl)" for ty p st pl
    by (intro keeps_rules)+
  then show "spends env n (run_baseline env cs)" unfolding run_baseline_def
    by (intro spends_bnd spends_thn spends_ensure 1 clear redo spends_idle [OF undo] spends_idle [OF idle.get_ws_R] spends_idle)
qed

lemma idle_ctx: "(\<And>cx. cx_commands_run (h cx) = cx_commands_run cx) \<Longrightarrow> keeps (idle env) (update_ctx h)"
  by (rule keeps_update_ctx) (simp add: idle_def attempted_def)

lemma idle_verdict:
  "keeps (idle env) (update_ctx (\<lambda>cx. cx\<lparr>cx_verdict := v cx\<rparr>))" "keeps (idle env) (update_ctx (\<lambda>cx. cx\<lparr>cx_baseline := b\<rparr>))"
  by (rule idle_ctx, simp)+

lemmas quiet_acts = spends_idle [OF idle.keeps_ret] spends_idle [OF idle.keeps_gets] spends_idle [OF idle.calm_acts(1)] spends_idle [OF idle.calm_acts(5)]
  spends_idle [OF idle.calm_acts(9)] spends_idle [OF idle.apply_model_output_R] spends_idle [OF idle.get_ws_R] spends_idle [OF idle.skip_phase_R(2)]
  spends_idle [OF idle_verdict(1)] spends_idle [OF idle_verdict(2)]

lemma repair_loop_spends: "spends env n (repair_loop env cs fuel d failing)"
proof (induction fuel arbitrary: d failing)
  case 0
  show ?case by (subst repair_loop.simps) (auto intro!: spends_idle intro: keeps_rules)
next
  case (Suc k)
  have "keeps (idle env) (update_ctx add_round)" by (rule keeps_update_ctx) (simp add: idle_def attempted_def add_round_def)
  note quiet = this [THEN spends_idle] quiet_acts
  show ?case by (subst repair_loop.simps, simp only: nat.case)
      (intro spends_if spends_bnd spends_thn spends_prod quiet Suc run_commands_spend)
qed

lemma phases_spend: "spends env n (phase_static_checks env)" "spends env n (phase_testing env)"
proof -
  show "spends env n (phase_static_checks env)" unfolding phase_static_checks_def
    by (intro spends_if spends_bnd spends_thn quiet_acts run_commands_spend)
  show "spends env n (phase_testing env)" unfolding phase_testing_def run_tests_def
    by (intro spends_if spends_bnd spends_thn spends_prod quiet_acts run_commands_spend repair_loop_spends)
qed

lemma handler_spends: "spends env n (handler env p)"
proof -
  have "keeps (idle env) (do_promote env k)" for k
    by (auto simp: keeps_def do_promote_def bnd_def gets_def thn_def alter_def ret_def thrown_def throw_def idle.same split: sum.split)
      (simp_all add: idle_def attempted_def)
  then have "keeps (idle env) (phase_final_report env)" by (rule idle.finalize_R)
  then show ?thesis unfolding handler_def
    by (intro spends_if phases_spend; intro spends_idle idle.early_phases_R idle.phase_patching_R idle.phase_security_scan_R idle.suspend_R)
qed

lemma spends_interruptible:
  assumes "spends env n f"
  shows "spends env n (interruptible f)"
  unfolding spends_def
proof (intro impI allI)
  fix m assume h: "honest_others env" and t: "thrifty env n m"
  obtain r m1 where r: "f (m\<lparr>m_inside := True\<rparr>) = (r, m1)" by fastforce
  have same: "thrifty env n (m\<lparr>m_inside := b\<rparr>) = thrifty env n m" "bounded env n (m\<lparr>m_inside := b\<rparr>) = bounded env n m" for m b
    by (simp_all add: thrifty_def bounded_def attempted_def)
  note s = spendsD [OF assms h _ r]
  have "bounded env n m1" "orderly r \<Longrightarrow> thrifty env n m1" using s t same by simp_all
  then show "bounded env n (snd (interruptible f m)) \<and> (orderly (fst (interruptible f m)) \<longrightarrow> thrifty env n (snd (interruptible f m)))"
    using r same by (auto simp: interruptible_def split: sum.splits exc.splits)
qed

text \<open>A phase whose command was not recorded ends as failed, and the run ends with it.\<close>

lemma emit_statuses: "emit env ty p st pl m = (r, m') \<Longrightarrow> m_statuses m' = m_statuses m"
  by (auto simp: emit_def stored_def tx_def Let_def split: if_splits sum.splits prod.splits)

definition on_failure :: "orch_env \<Rightarrow> string \<Rightarrow> exc \<Rightarrow> unit act" where
  "on_failure env p e = (case e of
     PhaseBlocked why \<Rightarrow> thn (set_status p P_BLOCKED) (emit env ''phase_blocked'' (Some p) (Some ''blocked'') [])
   | _ \<Rightarrow> thn (set_status p P_FAILED)
       (thn (update_ctx (\<lambda>cx. cx\<lparr>cx_errors := cx_errors cx @ [p @ '': '' @ oe_describe env e]\<rparr>))
       (thn (note_failure env e) (emit env ''phase_failed'' (Some p) (Some ''failed'') []))))"

lemma on_failure_idle: "keeps (idle env) (on_failure env p e)"
  unfolding on_failure_def by (intro keeps_rules; simp add: steady_def rounds_def)

lemma on_failure_marks: "on_failure env p e m = (Inr u, m') \<Longrightarrow> \<not> blocking e \<Longrightarrow> m_statuses m' p = P_FAILED"
  by (cases e) (auto simp: on_failure_def act_Inr set_status_def note_failure_def dest!: emit_statuses)

definition phase_body :: "orch_env \<Rightarrow> string \<Rightarrow> unit act" where
  "phase_body env p = thn (interruptible (handler env p))
     (bnd (gets (\<lambda>m. m_statuses m p)) (\<lambda>st. if st = P_SKIPPED then ret ()
       else thn (set_status p P_COMPLETE) (emit env ''phase_completed'' (Some p) (Some ''complete'') [])))"

lemma phase_body_spends: "spends env n (phase_body env p)"
proof -
  have "keeps (idle env) (bnd (gets (\<lambda>m. m_statuses m p)) (\<lambda>st. if st = P_SKIPPED then ret ()
       else thn (set_status p P_COMPLETE) (emit env ''phase_completed'' (Some p) (Some ''complete'') [])))" by (intro keeps_rules)
  then show ?thesis unfolding phase_body_def by (intro spends_thn spends_interruptible handler_spends spends_idle)
qed

definition phase_opens :: "orch_env \<Rightarrow> string \<Rightarrow> unit act" where
  "phase_opens env p = thn (set_status p P_RUNNING) (thn (alter (\<lambda>m. m\<lparr>m_phase := Some p\<rparr>))
     (thn (emit env ''phase_started'' (Some p) (Some ''running'') []) (update_run_phase env p)))"

lemma run_phase_parts: "run_phase env p = thn (phase_opens env p) (rescue (phase_body env p) (on_failure env p))"
  by (auto simp: run_phase_def phase_opens_def phase_body_def on_failure_def [abs_def] thn_def bnd_def fun_eq_iff split: prod.split sum.split)

lemma run_phase_spends:
  assumes h: "honest_others env" and t: "thrifty env n m" and run: "run_phase env p m = (r, m')"
  shows "bounded env n m'" "r = Inr u \<Longrightarrow> thrifty env n m' \<or> m_statuses m' p = P_FAILED"
proof -
  obtain r0 m0 where r0: "phase_opens env p m = (r0, m0)" by fastforce
  have "keeps (idle env) (phase_opens env p)" unfolding phase_opens_def by (intro keeps_rules; simp add: steady_def)
  from keeps_run [OF this r0] have t0: "thrifty env n m0" using idle_keeps(1) [OF _ h] t by blast
  obtain r1 m1 where r1: "phase_body env p m0 = (r1, m1)" by fastforce
  note b = spendsD [OF phase_body_spends h t0 r1]
  have "bounded env n m' \<and> (r = Inr u \<longrightarrow> thrifty env n m' \<or> m_statuses m' p = P_FAILED)"
  proof (cases r0)
    case (Inl e)
    then show ?thesis using run r0 t0 by (simp add: run_phase_parts thn_def bnd_def thrifty_bounded)
  next
    case (Inr v)
    then have run1: "rescue (phase_body env p) (on_failure env p) m0 = (r, m')" using run r0 by (simp add: run_phase_parts thn_def bnd_def)
    show ?thesis
    proof (cases r1)
      case (Inl e)
      show ?thesis
      proof (cases "e = Cut")
        case False
        then have f: "on_failure env p e m1 = (r, m')" using run1 r1 Inl by (simp add: rescue_def)
        show ?thesis using idle_keeps [OF keeps_run [OF on_failure_idle f] h, of n] b on_failure_marks f Inl by (cases "blocking e") auto
      qed (use run1 r1 Inl b in \<open>simp add: rescue_def\<close>)
    qed (use run1 r1 b in \<open>auto simp: rescue_def\<close>)
  qed
  then show "bounded env n m'" "r = Inr u \<Longrightarrow> thrifty env n m' \<or> m_statuses m' p = P_FAILED" by simp_all
qed

text \<open>The bound after a sequence of steps: idle ones before the commands, idle ones after them.\<close>

lemma bounded_first:
  assumes "honest_others env" "keeps (idle env) f" "thrifty env n m" "\<And>m'. thrifty env n m' \<Longrightarrow> bounded env n (snd (g m'))"
  shows "bounded env n (snd (thn f g m))"
proof -
  obtain q m2 where q: "f m = (q, m2)" by fastforce
  have "thrifty env n m2" using idle_keeps [OF keeps_run [OF assms(2) q] assms(1)] assms(3) by blast
  then show ?thesis using q assms(4) thrifty_bounded by (cases q) (auto simp: thn_def bnd_def)
qed

lemma bounded_last:
  assumes "honest_others env"
  shows "keeps (idle env) f \<Longrightarrow> bounded env n m \<Longrightarrow> bounded env n (snd (f m))"
    and "bounded env n (snd (f m)) \<Longrightarrow> (\<And>x. keeps (idle env) (g x)) \<Longrightarrow> bounded env n (snd (bnd f g m))"
    and "bounded env n (snd (f m)) \<Longrightarrow> (\<And>e. keeps (idle env) (h e)) \<Longrightarrow> bounded env n (snd (rescue f h m))"
    and "bounded env n (snd (f m)) \<Longrightarrow> keeps (idle env) c \<Longrightarrow> bounded env n (snd (ensure f c m))"
proof -
  show 1: "bounded env n (snd (f m))" if "keeps (idle env) f" "bounded env n m" for f :: "'x act" and m
    using idle_keeps(2) [OF keepsD [OF that(1)] assms] that(2) by blast
  show "bounded env n (snd (bnd f g m))" if "bounded env n (snd (f m))" "\<And>x. keeps (idle env) (g x)"
    using that idle_keeps(2) [OF keepsD [OF that(2)] assms] by (auto simp: bnd_def split: prod.split sum.split)
  show "bounded env n (snd (rescue f h m))" if "bounded env n (snd (f m))" "\<And>e. keeps (idle env) (h e)"
    using that idle_keeps(2) [OF keepsD [OF that(2)] assms] by (auto simp: rescue_def split: prod.split sum.split)
  show "bounded env n (snd (ensure f c m))" if "bounded env n (snd (f m))" "keeps (idle env) c"
  proof -
    obtain r m1 where r: "f m = (r, m1)" by fastforce
    obtain u m2 where u: "c m1 = (u, m2)" by fastforce
    have "bounded env n m2" using idle_keeps(2) [OF keeps_run [OF that(2) u] assms] that(1) r by simp
    then show ?thesis using r u by (cases u) (simp_all add: ensure_def)
  qed
qed

lemma run_phases_bounded:
  assumes h: "honest_others env"
  shows "thrifty env n m \<Longrightarrow> bounded env n (snd (run_phases env ps m))"
proof (induction ps arbitrary: m)
  case Nil
  then show ?case by (simp add: ret_def thrifty_bounded)
next
  case (Cons p ps)
  note first = bounded_first [OF h]
  have mark: "keeps (idle env) (if c then alter (\<lambda>m. m\<lparr>m_blocked := True\<rparr>) else ret ())" for c by (intro keeps_rules; simp add: steady_def)
  have stop: "keeps (idle env) (thn (fail_run env why c) (ret False))" for why c by (intro keeps_rules)
  note stop_b = bounded_last(1) [OF h stop]
  have phase: "bounded env n (snd (thn (run_phase env p) (bnd (gets id) (\<lambda>m'.
      if m_cancelled m' \<and> m_statuses m' p = P_FAILED then thn (fail_run env ''Run cancelled'' True) (ret False)
      else if m_statuses m' p = P_FAILED then thn (fail_run env (''Phase '' @ p @ '' failed'') False) (ret False)
      else thn (if m_statuses m' p = P_BLOCKED then alter (\<lambda>m. m\<lparr>m_blocked := True\<rparr>) else ret ())
        (thn (take_checkpoint env p) (run_phases env ps)))) m1))" if t1: "thrifty env n m1" for m1
  proof -
    obtain q m2 where q: "run_phase env p m1 = (q, m2)" by fastforce
    note s = run_phase_spends [OF h t1 q]
    show ?thesis
    proof (cases q)
      case (Inl e)
      then show ?thesis using q s(1) by (simp add: thn_def bnd_def)
    next
      case (Inr u)
      then show ?thesis
        using q s stop_b first [OF mark _ first [OF idle.driver_R(4) _ Cons.IH]]
        by (cases "m_statuses m2 p = P_FAILED") (auto simp: thn_def [of "run_phase env p"] bnd_def [of "run_phase env p"] bnd_def [of "gets id"] gets_def)
    qed
  qed
  show ?case unfolding run_phases.simps
    using Cons thrifty_bounded [OF Cons.prems] stop_b first [OF idle.calm_acts(7) _ phase]
      first [OF idle.calm_acts(7) _ first [OF idle.skip_phase_R(1) _ first [OF idle.calm_acts(1) _ first [OF idle.calm_acts(1) _
        first [OF idle.driver_R(4) _ Cons.IH]]]]]
    by (simp add: bnd_def [of "gets id"] gets_def ret_def)
qed

lemma execute_bounded:
  assumes h: "honest_others env" and t: "thrifty env n m"
  shows "bounded env n (snd (execute env resumed m))"
proof -
  note last = bounded_last [OF h]
  have ends: "keeps (idle env) (if b then ret () else bnd (gets id) (\<lambda>m.
      if m_cancelled m \<and> cx_outcome (m_ctx m) \<noteq> Some ''applied'' then fail_run env ''Run cancelled'' True else complete_run env))" for b
    by (intro keeps_rules)
  have drive: "bounded env n (snd (drive env m1))" if "thrifty env n m1" for m1 unfolding drive_def
    by (rule bounded_first [OF h idle.check_model_policy_R that], rule last(2) [OF run_phases_bounded [OF h]], assumption, rule ends)
  have rescued: "keeps (idle env) (if e = Lost then alter abandon else thn (note_failure env e) (fail_run env (oe_describe env e) False))" for e
    by (intro keeps_rules) (simp add: steady_def abandon_def)
  have start: "keeps (idle env) (if resumed then ret () else thn (move env RUNNING ''execution started'' ''runtime'' []) (ret ()))"
    by (intro keeps_rules)
  show ?thesis unfolding execute_def
    by (rule bounded_first [OF h start t], rule last(4), rule last(3), erule drive, rule rescued, rule idle.clean_up_R)
qed

text \<open>
  C5: The budget for commands. Suppose other processes do not rewrite the ledger or take back grants, the limit is positive (otherwise there is none), and
  no more commands are recorded in the run's context than the limit allows. Then, whatever the models propose and however the run is interrupted,
  the commands the run executes and the commands recorded before it together are at most as many as the limit: the next one
  is not executed, also when an exception kept an executed command from being recorded.
\<close>

theorem command_budget_is_kept:
  assumes "honest_others env" and "0 < l_max_commands (oe_limits env)"
    and "int (length (cx_commands_run (m_ctx m))) \<le> l_max_commands (oe_limits env)" and "execute env resumed m = (r, m')"
  shows "\<exists>ds. m_deeds m' = m_deeds m @ ds \<and>
    int (length (cx_commands_run (m_ctx m)) + length (filter (\<lambda>d. case d of RanCommand c \<Rightarrow> True | Promoted t \<Rightarrow> False) ds)) \<le> l_max_commands (oe_limits env)"
proof -
  obtain ds where ds: "m_deeds m' = m_deeds m @ ds" using keeps_run [OF execute_obeys assms(4)] assms(1) by (auto simp: obedient_def obeys_def)
  have "thrifty env (int (executed_in (m_deeds m)) - int (attempted m)) m" using assms(3) by (simp add: thrifty_def attempted_def)
  from execute_bounded [OF assms(1) this, of resumed] show ?thesis
    using assms(2,4) ds by (auto simp: bounded_def attempted_def executed_in_def)
qed

section \<open>The repository\<close>

definition repo_files :: "orch_env \<Rightarrow> machine \<Rightarrow> string list \<Rightarrow> string option" where
  "repo_files env m p = (if is_within p (pe_follow (oe_repo env) (pe_repo (oe_repo env))) then file_at (m_fs m) p else None)"

text \<open>
  The workspace lies outside the repository; copying the repository, executing commands in the workspace and removing it do not change
  files of the repository.
\<close>

definition isolated_run :: "orch_env \<Rightarrow> bool" where
  "isolated_run env \<longleftrightarrow> honest_others env \<and>
     (\<forall>p. is_within p (pe_follow (oe_ws env) (pe_repo (oe_ws env))) \<longrightarrow> \<not> is_within p (pe_follow (oe_repo env) (pe_repo (oe_repo env)))) \<and>
     (\<forall>p fs. is_within p (pe_follow (oe_repo env) (pe_repo (oe_repo env))) \<longrightarrow>
        (\<forall>k fs'. oe_copy env k fs = Inr fs' \<longrightarrow> file_at fs' p = file_at fs p) \<and>
        (\<forall>k c. file_at (snd (oe_execute env k c fs)) p = file_at fs p) \<and> (\<forall>k. file_at (oe_cleanup env k fs) p = file_at fs p))"

definition untouched :: "orch_env \<Rightarrow> machine \<Rightarrow> machine \<Rightarrow> bool" where
  "untouched env m m' \<longleftrightarrow> isolated_run env \<longrightarrow> repo_files env m' = repo_files env m \<and> prefix (m_deeds m) (m_deeds m')"

lemma untouched_ws:
  assumes "\<And>p. file_at fs p \<noteq> file_at (m_fs m) p \<Longrightarrow> p \<in> targets (oe_ws env) rels"
  shows "untouched env m (m\<lparr>m_fs := fs\<rparr>)"
  using targets_within assms unfolding untouched_def isolated_run_def repo_files_def by (auto simp: fun_eq_iff) metis

interpretation untouched: workspace_frame "untouched env" env for env
proof
  fix env k m fs io st ok cs r m'
  show "untouched env m m'" if "\<not> honest_others env" using that by (simp add: untouched_def isolated_run_def)
  show "untouched env m m'" if "steady m m'" using that by (auto simp: untouched_def repo_files_def steady_def)
  show "untouched env m (m\<lparr>m_fs := fs\<rparr>)" if "oe_copy env k (m_fs m) = Inr fs"
    using that by (auto simp: untouched_def repo_files_def isolated_run_def fun_eq_iff)
  show "untouched env m (m\<lparr>m_fs := fs\<rparr>)" if "ws_restore (oe_ws env) io st (m_fs m) = (ok, fs)"
    using ws_restore_named [OF that] by (rule untouched_ws)
  show "untouched env m (m\<lparr>m_fs := fs\<rparr>)" if "apply_changes (oe_ws env) io (m_fs m) cs [] False = (fs, r)"
    using apply_changes_named [OF that] by (rule untouched_ws)
  show "untouched env m (m\<lparr>m_fs := oe_cleanup env k (m_fs m)\<rparr>)" by (auto simp: untouched_def repo_files_def isolated_run_def fun_eq_iff)
qed (auto simp: untouched_def)

lemma exec_untouched: "keeps (untouched env) (exec env c)"
proof -
  have step: "untouched env m (m\<lparr>m_fs := snd (oe_execute env k c' (m_fs m)), m_deeds := m_deeds m @ ds\<rparr>)" for m k c' ds
    by (auto simp: untouched_def repo_files_def isolated_run_def fun_eq_iff)
  have cmd: "keeps (untouched env) (execute_command env c' k)" for c' k
    unfolding execute_command_def
    by (rule untouched.on_files, rule disjI2) (use step in \<open>simp add: case_prod_beta thn_def bnd_def alter_def ret_def\<close>)
  have ctx: "untouched env m (m\<lparr>m_ctx := cx\<rparr>)" for m cx by (simp add: untouched_def repo_files_def fun_eq_iff)
  show ?thesis unfolding exec_def gate_def perform_def run_in_runtime_def run_command_safe_def Let_def by (intro cmd ctx keeps_rules)
qed

interpretation untouched: run_frame "untouched env" env for env
  by unfold_locales (rule exec_untouched, simp add: untouched_def repo_files_def fun_eq_iff)

text \<open>At the moment of a promotion: the journal names the file; the conditions of the gate hold.\<close>

definition journaled :: "orch_env \<Rightarrow> moment \<Rightarrow> string list \<Rightarrow> bool" where
  "journaled env t p \<longleftrightarrow> (\<exists>e mf. e \<in> set (at_events t) \<and> ev_run e = oe_run env \<and> ev_type e = ''promotion_started'' \<and>
     ev_payload e = Some [(''files'', manifest_value mf)] \<and> p \<in> targets (oe_repo env) (map fst mf))"

definition gate_open :: "orch_env \<Rightarrow> moment \<Rightarrow> bool" where
  "gate_open env t \<longleftrightarrow> \<not> cx_read_only (at_ctx t) \<and> \<not> at_secret t \<and> oe_promote_policy env \<noteq> ''never'' \<and>
     (oe_promote_policy env = ''always'' \<or> promotable env (at_ctx t) \<or>
      (\<exists>a \<in> set (cx_approvals (at_ctx t)). an_type a = ''promote_patch'' \<and> an_approved a))"

definition accounted :: "orch_env \<Rightarrow> machine \<Rightarrow> machine \<Rightarrow> bool" where
  "accounted env m m' \<longleftrightarrow> isolated_run env \<longrightarrow> (\<exists>ds. m_deeds m' = m_deeds m @ ds \<and>
     (\<forall>p. repo_files env m' p \<noteq> repo_files env m p \<longrightarrow> (\<exists>t. Promoted t \<in> set ds \<and> gate_open env t \<and> (at_abandoned t \<or> journaled env t p))))"

lemma accounted_trans: "accounted env a b \<Longrightarrow> accounted env b c \<Longrightarrow> accounted env a c"
  unfolding accounted_def
proof (intro impI, elim impE exE conjE)
  fix ds es
  let ?ok = "\<lambda>ds p. \<exists>t. Promoted t \<in> set ds \<and> gate_open env t \<and> (at_abandoned t \<or> journaled env t p)"
  assume b: "m_deeds b = m_deeds a @ ds" "\<forall>p. repo_files env b p \<noteq> repo_files env a p \<longrightarrow> ?ok ds p"
    and c: "m_deeds c = m_deeds b @ es" "\<forall>p. repo_files env c p \<noteq> repo_files env b p \<longrightarrow> ?ok es p"
  have "?ok (ds @ es) p" if d: "repo_files env c p \<noteq> repo_files env a p" for p
  proof -
    from d have "repo_files env b p \<noteq> repo_files env a p \<or> repo_files env c p \<noteq> repo_files env b p" by auto
    then have "?ok ds p \<or> ?ok es p" using b(2) c(2) by blast
    then show ?thesis by auto
  qed
  then show "\<exists>ds. m_deeds c = m_deeds a @ ds \<and> (\<forall>p. repo_files env c p \<noteq> repo_files env a p \<longrightarrow> ?ok ds p)"
    using b(1) c(1) by (intro exI [of _ "ds @ es"]) simp
qed

interpretation accounted: two_state "accounted env" for env
  by unfold_locales (simp add: accounted_def, erule (1) accounted_trans)

lemma untouched_accounted: "untouched env m m' \<Longrightarrow> accounted env m m'"
  by (auto simp: untouched_def accounted_def prefix_def)

lemma calm_accounted: "calm m m' \<Longrightarrow> accounted env m m'"
  by (simp add: accounted_def calm_def repo_files_def)

lemma of_calm_accounted: "(honest_others env \<Longrightarrow> keeps calm f) \<Longrightarrow> keeps (accounted env) f"
  by (cases "honest_others env") (auto simp: keeps_def calm_accounted, simp add: accounted_def isolated_run_def)

lemma calm_gate: "calm m m' \<Longrightarrow> gate_open env (moment_of m) \<Longrightarrow> gate_open env (moment_of m')"
  by (auto simp: calm_def gate_open_def moment_of_def promotable_def dest: set_mono_prefix)

section \<open>Promotion\<close>

definition tracked :: "machine \<Rightarrow> base_state" where
  "tracked m = (case m_ws m of Some b \<Rightarrow> b | None \<Rightarrow> [])"

lemma manifest_names_changes:
  assumes "promotion_changes ws fs base = Inr cs" "promotion_manifest ws fs base = Inr mf"
  shows "map change_path cs = map fst mf"
  using assms(1)
proof (rule promote_changes_of)
  fix now
  assume now: "map_r (read_pair ws fs) (touched base) = Inr now"
    and cs: "cs = map (\<lambda>(rel, new). case new of None \<Rightarrow> DeleteFile rel | Some c \<Rightarrow> WriteFile rel c) (filter (\<lambda>(rel, new). new \<noteq> dget base rel None) now)"
  have "mf = map (\<lambda>(rel, new). (rel, \<lparr>mf_base = sha256_bytes ws (dget base rel None), mf_new = sha256_bytes ws new\<rparr>))
      (filter (\<lambda>(rel, new). new \<noteq> dget base rel None) now)"
    using assms(2) now by (simp add: promotion_manifest_def)
  then show ?thesis unfolding cs by (simp add: case_prod_beta split: option.split)
qed

lemma do_promote_accounted:
  assumes gate: "gate_open env (moment_of m)" and mf: "promotion_manifest (oe_ws env) (m_fs m) (tracked m) = Inr mf"
    and noted: "m_abandoned m \<or> (\<exists>e \<in> set (run_events (m_db m)). ev_run e = oe_run env \<and> ev_type e = ''promotion_started'' \<and>
      ev_payload e = Some [(''files'', manifest_value mf)])"
  shows "accounted env m (snd (do_promote env k m))"
proof (cases "promote (oe_ws env) (oe_repo env) (oe_io env k) (m_fs m) (tracked m)")
  case (Inl e)
  then show ?thesis by (simp add: do_promote_def bnd_def gets_def thrown_def throw_def tracked_def accounted.same)
next
  case (Inr x)
  obtain fs out where x: "x = (fs, out)" by fastforce
  obtain cs where cs: "promotion_changes (oe_ws env) (m_fs m) (tracked m) = Inr cs"
      "apply_changes (oe_repo env) (oe_io env k) (m_fs m) cs (promotion_expected (oe_ws env) (tracked m)) False = (fs, out)"
    using Inr x by (auto simp: promote_def result_simps)
  let ?m = "m\<lparr>m_fs := fs, m_deeds := m_deeds m @ [Promoted (moment_of m)]\<rparr>"
  have "at_abandoned (moment_of m) \<or> journaled env (moment_of m) p" if "repo_files env ?m p \<noteq> repo_files env m p" for p
  proof -
    have "file_at fs p \<noteq> file_at (m_fs m) p" using that by (simp add: repo_files_def split: if_splits)
    from apply_changes_named [OF cs(2) this] show ?thesis
      using manifest_names_changes [OF cs(1) mf] noted unfolding journaled_def by (auto simp: moment_of_def)
  qed
  then have "accounted env m ?m" using gate by (auto simp: accounted_def)
  moreover have "snd (do_promote env k m) = ?m"
    using Inr x by (auto simp: do_promote_def bnd_def gets_def thn_def alter_def ret_def thrown_def throw_def tracked_def split: sum.split)
  ultimately show ?thesis by simp
qed

lemma emit_recorded:
  assumes "emit env ty ph st payload m = (Inr u, m')" "payload \<noteq> []"
  shows "m_abandoned m' \<or> (\<exists>e \<in> set (run_events (m_db m')). ev_run e = oe_run env \<and> ev_type e = ty \<and> ev_payload e = Some payload)"
  using assms by (auto simp: emit_def stored_def tx_def append_event_def Let_def event_defaults_def split: if_splits sum.splits)

lemma in_thread_Inr: "in_thread env f m = (Inr x, m') \<Longrightarrow> \<exists>m1 u. f (m_tick m) m = (Inr x, m1) \<and> suspend env m1 = (u, m')"
  by (auto simp: in_thread_def split: prod.splits sum.splits)

lemma manifest_read:
  assumes "honest_others env" "in_thread env (on_base (promotion_manifest (oe_ws env))) m = (Inr mf, m')"
  shows "promotion_manifest (oe_ws env) (m_fs m) (tracked m) = Inr mf"
proof -
  obtain m1 where "on_base (promotion_manifest (oe_ws env)) (m_tick m) m = (Inr mf, m1)" using in_thread_Inr [OF assms(2)] by blast
  then show ?thesis by (auto simp: on_base_def act_Inr or_os_error_def tracked_def split: sum.splits)
qed

lemma critical_accounted:
  assumes honest: "honest_others env" and gate: "gate_open env (moment_of m)" and mf: "promotion_manifest (oe_ws env) (m_fs m) (tracked m) = Inr mf"
    and noted: "m_abandoned m \<or> (\<exists>e \<in> set (run_events (m_db m)). ev_run e = oe_run env \<and> ev_type e = ''promotion_started'' \<and>
      ev_payload e = Some [(''files'', manifest_value mf)])"
  shows "accounted env m (snd (in_critical env m))"
proof -
  let ?m = "m\<lparr>m_critical := True\<rparr>"
  obtain r m1 where p: "do_promote env (m_tick m) ?m = (r, m1)" by fastforce
  obtain u m2 where s: "suspend env m1 = (u, m2)" by fastforce
  have "accounted env m ?m" by (rule calm_accounted) (simp add: calm_def)
  moreover have "moment_of ?m = moment_of m" "tracked ?m = tracked m" by (simp_all add: moment_of_def tracked_def)
  then have "accounted env ?m m1" using do_promote_accounted [of env ?m mf "m_tick m"] gate mf noted p by simp
  moreover have "accounted env m1 m2" using keeps_run [OF keeps_suspend [OF honest] s] by (rule calm_accounted)
  moreover have "accounted env m2 (m2\<lparr>m_critical := False\<rparr>)" by (rule calm_accounted) (simp add: calm_def)
  ultimately have "accounted env m (m2\<lparr>m_critical := False\<rparr>)" using accounted.after_both by blast
  moreover have "snd (in_critical env m) = m2\<lparr>m_critical := False\<rparr>"
    using p s by (cases u; cases r) (simp_all add: in_critical_def ensure_def thn_def bnd_def alter_def in_thread_def)
  ultimately show ?thesis by simp
qed

lemma promote_journaled_accounted:
  assumes honest: "honest_others env" and gate: "gate_open env (moment_of m)"
  shows "accounted env m (snd (promote_journaled env m))"
  unfolding promote_journaled_def
proof (rule accounted.bnd_step)
  have "keeps calm (in_thread env (on_base (promotion_manifest (oe_ws env))))"
    unfolding on_base_def by (intro keeps_rules honest)
  then show "accounted env m (snd (in_thread env (on_base (promotion_manifest (oe_ws env))) m))" by (rule calm_accounted [OF keepsD])
  fix mf m1
  assume read: "in_thread env (on_base (promotion_manifest (oe_ws env))) m = (Inr mf, m1)"
  have c1: "calm m m1" using keeps_run [OF \<open>keeps calm _\<close> read] .
  show "accounted env m1 (snd (thn (emit env ''promotion_started'' (Some ''final_report'') None [(''files'', manifest_value mf)])
      (bnd (in_critical env) (after_promotion env mf)) m1))"
  proof (rule accounted.thn_step, rule calm_accounted [OF keepsD [OF keeps_emit [OF honest]]], rule accounted.bnd_step)
    fix u m2
    assume e: "emit env ''promotion_started'' (Some ''final_report'') None [(''files'', manifest_value mf)] m1 = (Inr u, m2)"
    have c2: "calm m m2" using calm.after_both [OF c1 keeps_run [OF keeps_emit [OF honest] e]] .
    have "m_fs m2 = m_fs m" "tracked m2 = tracked m" using c2 by (simp_all add: calm_def tracked_def)
    then show "accounted env m2 (snd (in_critical env m2))"
      using critical_accounted [OF honest calm_gate [OF c2 gate], of mf] manifest_read [OF honest read] emit_recorded [OF e] by simp
  next
    fix pr m3
    show "accounted env m3 (snd (after_promotion env mf pr m3))"
      unfolding after_promotion_def by (rule calm_accounted, rule keepsD, intro keeps_rules honest) simp_all
  qed
qed

lemma may_promote_gate:
  assumes run: "may_promote env (m_ctx m) m = (Inr True, m')" and honest: "honest_others env"
    and m: "\<not> cx_read_only (m_ctx m)" "\<not> m_patch_secret m" "oe_promote_policy env \<noteq> ''never''"
  shows "gate_open env (moment_of m')"
proof (cases "oe_promote_policy env \<noteq> ''always'' \<and> \<not> promotable env (m_ctx m)")
  case True
  then obtain o' where r: "request_approval env ''promote_patch'' None ''Apply patch to the repository?'' REPOSITORY_WRITE (Some ''repository_write'') m = (Inr o', m')" "approved o'"
    using run by (auto simp: may_promote_def act_Inr)
  show ?thesis using request_approval_noted [OF r(1)] keeps_run [OF keeps_request_approval [OF honest] r(1)] r(2) m unfolding gate_open_def calm_def moment_of_def by auto
next
  case False
  then have "m' = m" using run by (auto simp: may_promote_def act_Inr)
  then show ?thesis using False m by (auto simp: gate_open_def moment_of_def)
qed

lemma keeps_outcomes:
  assumes "honest_others env"
  shows "keeps calm (set_outcome o')" "keeps calm (reject env)" "keeps calm (already_applied env)" "keeps calm (on_base h k)" "keeps calm (may_promote env cx)"
  unfolding reject_def set_outcome_def already_applied_def on_base_def may_promote_def by (intro keeps_rules assms; simp)+

lemma land_accounted:
  assumes honest: "honest_others env" and m: "\<not> cx_read_only (m_ctx m)" "\<not> m_patch_secret m"
  shows "accounted env m (snd (land env (m_ctx m) rc m))"
proof (cases "oe_promote_policy env = ''never''")
  case False
  show ?thesis unfolding land_def if_not_P [OF False]
  proof (rule accounted.bnd_step, rule calm_accounted [OF keepsD [OF keeps_outcomes(5) [OF honest]]])
    fix go m1
    assume go: "may_promote env (m_ctx m) m = (Inr go, m1)"
    show "accounted env m1 (snd ((if \<not> go then reject env else if rc = Some ''applied'' then already_applied env else promote_journaled env) m1))"
      using promote_journaled_accounted [OF honest may_promote_gate [OF _ honest m False]] go
        calm_accounted [OF keepsD [OF keeps_outcomes(2) [OF honest]]] calm_accounted [OF keepsD [OF keeps_outcomes(3) [OF honest]]] by simp
  qed
qed (simp add: land_def calm_accounted [OF keepsD [OF keeps_outcomes(2) [OF honest]]])

lemma finalize_accounted:
  assumes honest: "honest_others env"
  shows "accounted env m (snd (finalize_patch env m))"
proof -
  note quiet = keeps_outcomes [OF honest, THEN keepsD, THEN calm_accounted]
  have "accounted env m (snd (bnd (if m_ws m = None \<or> cx_diff (m_ctx m) = [] then ret [] else on_base (ws_summary (oe_lossy env) (oe_ws env)) 0) (\<lambda>s.
      if s = [] then set_outcome ''no_changes'' else land env (m_ctx m) (m_reconciled m)) m))"
    if "\<not> cx_read_only (m_ctx m)" "\<not> m_patch_secret m"
  proof (rule accounted.bnd_step)
    show "accounted env m (snd ((if m_ws m = None \<or> cx_diff (m_ctx m) = [] then ret [] else on_base (ws_summary (oe_lossy env) (oe_ws env)) 0) m))"
      by (simp add: ret_def accounted.same quiet(4))
    fix s m1
    assume "(if m_ws m = None \<or> cx_diff (m_ctx m) = [] then ret [] else on_base (ws_summary (oe_lossy env) (oe_ws env)) 0) m = (Inr s, m1)"
    then have "m1 = m" by (auto simp: act_Inr on_base_def or_os_error_def split: if_splits sum.splits)
    then show "accounted env m1 (snd ((if s = [] then set_outcome ''no_changes'' else land env (m_ctx m) (m_reconciled m)) m1))"
      using quiet(1) land_accounted [OF honest that] by simp
  qed
  then show ?thesis using quiet(1,2) by (simp add: finalize_patch_def bnd_def [of "gets id"] gets_def Let_def)
qed

section \<open>The whole run\<close>

lemmas accounted_acts = accounted.keeps_ret accounted.keeps_bnd accounted.keeps_thn accounted.keeps_gets accounted.keeps_rescue accounted.keeps_ensure
  accounted.keeps_interruptible keeps_if keeps_exc keeps_option

lemma final_phase_accounted: "keeps (accounted env) (phase_final_report env)"
proof -
  have "keeps (accounted env) (finalize_patch env)"
    using finalize_accounted by (cases "honest_others env") (simp_all add: keeps_def accounted_def isolated_run_def)
  moreover have "keeps (accounted env) (emit env ty p s pl)" "keeps (accounted env) (make_report env)" "keeps (accounted env) (insert_report env b t)" for ty p s pl b t
    by (rule of_calm_accounted; intro keeps_emit keeps_report; assumption)+
  ultimately show ?thesis unfolding phase_final_report_def by (intro accounted_acts)
qed

interpretation accounted: workspace_frame "accounted env" env for env
  by unfold_locales (simp add: accounted_def isolated_run_def, auto intro: untouched_accounted untouched.steady_R untouched.copied
      untouched.restored untouched.patched untouched.cleaned)

interpretation accounted: run_frame "accounted env" env for env
  by unfold_locales (use exec_untouched in \<open>auto simp: keeps_def intro: untouched_accounted untouched.repaired\<close>)

text \<open>
  C1: The repository is written only through the gate. Suppose commands, the copying of the repository and the removal of the workspace do not touch files of
  the repository, and other processes do not rewrite the ledger. Then, however a run goes (any behaviour of the models, the disk, the persons
  and the other workers, with cancellation, failing phases or loss of the lease at any point), a file of the repository differs
  afterwards only if a promotion of this run was carried out, and at the moment before that promotion: the task was not read-only, no
  secret had been found in the patch, the promotion policy was not \<open>never\<close>, and the policy was \<open>always\<close>, or the verdict was promotable and the
  reviewer did not object, or a person had approved the promotion; and the ledger already held a \<open>promotion_started\<close> event of this run whose
  manifest names the file, unless the run had been abandoned by then (a run that lost its lease writes no events).
\<close>

theorem repository_written_only_through_gate:
  assumes "isolated_run env" and "execute env resumed m = (r, m')" and "repo_files env m' p \<noteq> repo_files env m p"
  shows "\<exists>ds t. m_deeds m' = m_deeds m @ ds \<and> Promoted t \<in> set ds \<and>
    \<not> cx_read_only (at_ctx t) \<and> \<not> at_secret t \<and> oe_promote_policy env \<noteq> ''never'' \<and>
    (oe_promote_policy env = ''always'' \<or> promotable env (at_ctx t) \<or>
     (\<exists>a \<in> set (cx_approvals (at_ctx t)). an_type a = ''promote_patch'' \<and> an_approved a)) \<and>
    (at_abandoned t \<or> journaled env t p)"
proof -
  have "keeps (accounted env) (execute env resumed)" by (rule accounted.execute_R [OF final_phase_accounted])
  from keeps_run [OF this assms(2)] show ?thesis using assms(1,3) unfolding accounted_def gate_open_def by blast
qed

section \<open>The repair loop ends\<close>

named_theorems fuel_rules

definition fuelled :: "'a act \<Rightarrow> bool" where
  "fuelled f \<longleftrightarrow> (\<forall>m. fst (f m) \<noteq> Inl NoFuel)"

lemma fuelled_basic [fuel_rules]:
  "fuelled (ret x)" "fuelled (thrown e)" "fuelled (gets h)" "fuelled (alter g)" "fuelled (update_ctx c)" "fuelled (or_throw r)" "fuelled (or_os_error q)"
  by (simp_all add: fuelled_def ret_def thrown_def throw_def gets_def alter_def update_ctx_def or_throw_def or_os_error_def split: sum.split)

lemma fuelled_cases [fuel_rules]:
  "fuelled f \<Longrightarrow> fuelled g \<Longrightarrow> fuelled (if b then f else g)"
  "fuelled f \<Longrightarrow> (\<And>y. fuelled (h y)) \<Longrightarrow> fuelled (case x of None \<Rightarrow> f | Some y \<Rightarrow> h y)"
  "(\<And>y. fuelled (h y)) \<Longrightarrow> (\<And>z. fuelled (k z)) \<Longrightarrow> fuelled (case s of Inl y \<Rightarrow> h y | Inr z \<Rightarrow> k z)"
  "(\<And>a b. fuelled (w a b)) \<Longrightarrow> fuelled (case q of (a, b) \<Rightarrow> w a b)"
  by (auto split: option.split sum.split prod.split)

lemma fuelled_bnd [fuel_rules]: "fuelled f \<Longrightarrow> (\<And>x. fuelled (g x)) \<Longrightarrow> fuelled (bnd f g)"
  unfolding fuelled_def bnd_def by (auto split: prod.split sum.split) (metis fst_conv)

lemma fuelled_thn [fuel_rules]: "fuelled f \<Longrightarrow> fuelled g \<Longrightarrow> fuelled (thn f g)"
  by (simp add: thn_def fuelled_bnd)

lemma fuelled_rescue [fuel_rules]: "fuelled f \<Longrightarrow> (\<And>e. fuelled (h e)) \<Longrightarrow> fuelled (rescue f h)"
  unfolding fuelled_def rescue_def by (auto split: prod.split sum.split)

lemma fuelled_ensure [fuel_rules]: "fuelled f \<Longrightarrow> fuelled g \<Longrightarrow> fuelled (ensure f g)"
  unfolding fuelled_def ensure_def by (auto split: prod.split sum.split) (metis fst_conv)+

lemma fuelled_each [fuel_rules]: "(\<And>x. fuelled (f x)) \<Longrightarrow> fuelled (each f xs)"
  by (induction xs) (auto intro!: fuel_rules)

lemma fuelled_stored [fuel_rules]: "fuelled (stored env body)"
  unfolding fuelled_def stored_def by (auto simp: exc_of_def split: prod.split sum.split run_error.split)

lemma fuelled_emit [fuel_rules]: "fuelled (emit env ty p s pl)"
  unfolding fuelled_def emit_def using fuelled_stored [unfolded fuelled_def] by auto

lemma fuelled_move [fuel_rules]: "fuelled (move env target why who flds)"
  unfolding fuelled_def move_def by (auto simp: exc_of_def split: prod.split sum.split run_error.split)

lemma fuelled_suspend [fuel_rules]: "fuelled (suspend env)"
  by (simp add: fuelled_def suspend_def Let_def)

lemma fuelled_in_thread [fuel_rules]: "(\<And>k. fuelled (f k)) \<Longrightarrow> fuelled (in_thread env f)"
  unfolding fuelled_def in_thread_def using fuelled_suspend [unfolded fuelled_def] by (auto split: prod.split sum.split) (metis fst_conv)+

lemma fuelled_await [fuel_rules]: "fuelled (await_reply env aid)"
proof -
  have "fuelled (bnd (stored env (\<lambda>now uid m. case expire now (m_db m) aid of (b, db) \<Rightarrow> Inr ((b, if b then None else outcome_from_db db aid), m\<lparr>m_db := db\<rparr>)))
    (\<lambda>(b, o'). thn (if b then emit env ''approval_expired'' None None [(''approval_id'', VStr aid)] else ret ()) (ret o')))"
    by (intro fuel_rules)
  then show ?thesis unfolding fuelled_def await_reply_def Let_def by (auto split: reply.split sum.split)
qed

lemma fuelled_exec [fuel_rules]: "fuelled (exec env c)" "fuelled (get_ws env)" "fuelled (policy_chain env)" "fuelled (request_approval env k co w e r)"
  "fuelled (preferences env)" "fuelled (ask env ro)" "fuelled (ask_dict env ro)"
  unfolding exec_def gate_def perform_def permit_def after_decision_def run_in_runtime_def run_command_safe_def execute_command_def enforce_def charge_time_def
    get_ws_def ws_step_def policy_chain_def request_approval_def preferences_def ask_def ask_dict_def cancel_def Let_def
  by (intro fuel_rules)+

lemma fuelled_work [fuel_rules]:
  "fuelled (apply_model_output env output)" "fuelled (run_commands env cs)" "fuelled (test_round env cs)" "fuelled (run_baseline env cs)"
  "fuelled (on_base h k)" "fuelled (set_status p st)" "fuelled (skip_phase env p)" "fuelled (propose env hn)" "fuelled (ask_again env pr)"
  unfolding apply_model_output_def proposed_changes_def note_paths_def apply_in_workspace_def run_commands_def test_round_def run_baseline_def
    on_base_def ws_step_def set_status_def skip_phase_def propose_def ask_again_def
  by (intro fuel_rules)+

lemma fuelled_patch_retries [fuel_rules]: "fuelled (patch_retries env ns r)"
  by (induction ns arbitrary: r) (simp, intro fuel_rules, simp, intro fuel_rules)

definition later :: "orch_env \<Rightarrow> machine \<Rightarrow> machine \<Rightarrow> bool" where
  "later env m m' \<longleftrightarrow> honest_others env \<longrightarrow> rounds m \<le> rounds m'"

interpretation later: workspace_frame "later env" env for env
  by unfold_locales (auto simp: later_def steady_def)

lemma exec_later: "keeps (later env) (exec env c)"
proof -
  have step: "later env m (m\<lparr>m_fs := fs, m_deeds := ds\<rparr>)" "later env m (m\<lparr>m_ctx := (m_ctx m)\<lparr>cx_commands_run := cs\<rparr>\<rparr>)" for m fs ds cs
    by (simp_all add: later_def rounds_def)
  have cmd: "keeps (later env) (execute_command env c' k)" for c' k unfolding execute_command_def by (intro step keeps_rules)
  show ?thesis unfolding exec_def gate_def perform_def run_in_runtime_def run_command_safe_def Let_def by (intro cmd step keeps_rules)
qed

interpretation later: run_frame "later env" env for env
  by unfold_locales (rule exec_later, simp add: later_def rounds_def add_round_def)

lemma fuel_step:
  "fuelled f \<Longrightarrow> (\<And>x m1. f m = (Inr x, m1) \<Longrightarrow> fst (g x m1) \<noteq> Inl NoFuel) \<Longrightarrow> fst (bnd f g m) \<noteq> Inl NoFuel"
  "fuelled f \<Longrightarrow> (\<And>x m1. f m = (Inr x, m1) \<Longrightarrow> fst (h m1) \<noteq> Inl NoFuel) \<Longrightarrow> fst (thn f h m) \<noteq> Inl NoFuel"
  by (auto simp: fuelled_def bnd_def thn_def split: prod.split sum.split) (metis fst_conv)+

lemma repair_loop_fuel:
  assumes honest: "honest_others env"
  shows "nat (l_max_repair_rounds (oe_limits env)) - rounds m < fuel \<Longrightarrow> fst (repair_loop env cs fuel done failing m) \<noteq> Inl NoFuel"
proof (induction fuel arbitrary: "done" failing m)
  case (Suc n)
  let ?L = "l_max_repair_rounds (oe_limits env)"
  have mono: "rounds a \<le> rounds b" if "keeps (later env) f" "f a = (r, b)" for f :: "'x act" and a b r
    using keeps_run [OF that] honest by (simp add: later_def)
  let ?attribute = "if done then ret () else bnd (run_baseline env cs) (\<lambda>b. update_ctx (\<lambda>cx. cx\<lparr>cx_baseline := b\<rparr>))"
  have att: "keeps (later env) ?attribute" by (intro keeps_rules) (simp_all add: steady_def rounds_def)
  show ?case
  proof (cases "failing = []")
    case False
    show ?thesis unfolding repair_loop.simps [of env cs "Suc n"] if_not_P [OF False] nat.case
    proof (rule fuel_step(2), intro fuel_rules, rule fuel_step(1), intro fuel_rules)
      fix u m1 k m2
      assume "?attribute m = (Inr u, m1)" and g: "gets (\<lambda>m. c_repair_rounds (cx_counters (m_ctx m))) m1 = (Inr k, m2)"
      then have m1: "rounds m \<le> rounds m1" using mono [OF att] by blast
      have k: "k = rounds m1" "m2 = m1" using g by (simp_all add: simple_Inr rounds_def)
      let ?rest = "thn (emit env ''repair_started'' (Some ''testing'') None []) (bnd (ask_dict env (Repair failing (Suc k))) (\<lambda>outp.
          bnd (apply_model_output env outp) (\<lambda>(applied, issue).
            if issue \<noteq> NoIssue \<or> \<not> applied then thn (emit env ''patch_rejected'' (Some ''testing'') None []) (ret failing)
            else bnd (test_round env cs) (repair_loop env cs n True))))"
      have rest: "fst (?rest m3) \<noteq> Inl NoFuel" if "nat ?L - rounds m3 < n" for m3
      proof (rule fuel_step(2), intro fuel_rules, rule fuel_step(1), intro fuel_rules, rule fuel_step(1), intro fuel_rules)
        fix u4 m4 outp m5 ai m6
        assume e: "emit env ''repair_started'' (Some ''testing'') None [] m3 = (Inr u4, m4)" "ask_dict env (Repair failing (Suc k)) m4 = (Inr outp, m5)"
          "apply_model_output env outp m5 = (Inr ai, m6)"
        have "rounds m3 \<le> rounds m4" using e(1) by (rule mono [rotated]) (intro keeps_rules)
        moreover have "rounds m4 \<le> rounds m5" using e(2) by (rule mono [rotated]) (intro keeps_rules)
        moreover have "rounds m5 \<le> rounds m6" using e(3) by (rule mono [rotated]) (intro keeps_rules)
        ultimately have m6: "nat ?L - rounds m6 < n" using that by linarith
        have "fst (bnd (test_round env cs) (repair_loop env cs n True) m6) \<noteq> Inl NoFuel"
        proof (rule fuel_step(1), intro fuel_rules)
          fix f m7 assume "test_round env cs m6 = (Inr f, m7)"
          then have "rounds m6 \<le> rounds m7" by (rule mono [rotated]) (intro keeps_rules)
          then show "fst (repair_loop env cs n True f m7) \<noteq> Inl NoFuel" by (intro Suc.IH) (use m6 in linarith)
        qed
        moreover have "fuelled (thn (emit env ''patch_rejected'' (Some ''testing'') None []) (ret failing))" by (intro fuel_rules)
        ultimately show "fst ((case ai of (applied, issue) \<Rightarrow> if issue \<noteq> NoIssue \<or> \<not> applied then thn (emit env ''patch_rejected'' (Some ''testing'') None []) (ret failing)
            else bnd (test_round env cs) (repair_loop env cs n True)) m6) \<noteq> Inl NoFuel" by (cases ai) (simp add: fuelled_def)
      qed
      have eq: "thn (update_ctx add_round) f m1 = f (m1\<lparr>m_ctx := add_round (m_ctx m1)\<rparr>)" for f :: "cmd_entry list act"
        by (simp add: thn_def bnd_def update_ctx_def alter_def)
      have one: "rounds (m1\<lparr>m_ctx := add_round (m_ctx m1)\<rparr>) = Suc (rounds m1)" by (simp add: add_round_def rounds_def)
      have "fst (thn (update_ctx add_round) ?rest m1) \<noteq> Inl NoFuel" if "int (rounds m1) < ?L"
        unfolding eq by (rule rest) (unfold one, use that m1 Suc.prems in linarith)
      then show "fst ((if int k \<ge> ?L then ret failing else thn (update_ctx add_round) ?rest) m2) \<noteq> Inl NoFuel"
        using k by (simp add: ret_def)
    qed
  qed (simp add: repair_loop.simps ret_def)
qed simp

lemma fuelled_run_tests: "honest_others env \<Longrightarrow> fuelled (run_tests env cs)"
  unfolding fuelled_def run_tests_def
proof
  fix m
  assume honest: "honest_others env"
  show "fst (thn (emit env ''tests_started'' (Some ''testing'') None []) (bnd (test_round env cs) (\<lambda>failing0.
      bnd (gets (\<lambda>m. c_repair_rounds (cx_counters (m_ctx m)))) (\<lambda>rounds.
      bnd (repair_loop env cs (Suc (nat (l_max_repair_rounds (oe_limits env)) - rounds)) False failing0) (\<lambda>failing.
      thn (update_ctx (\<lambda>cx. cx\<lparr>cx_verdict := Some (verdict_of env failing (cx_baseline cx))\<rparr>))
        (emit env ''tests_completed'' (Some ''testing'') None []))))) m) \<noteq> Inl NoFuel"
  proof (rule fuel_step(2), intro fuel_rules, rule fuel_step(1), intro fuel_rules, rule fuel_step(1), intro fuel_rules)
    fix f m2 k m3
    assume "gets (\<lambda>m. c_repair_rounds (cx_counters (m_ctx m))) m2 = (Inr k, m3)"
    then have k: "k = rounds m3" by (simp add: simple_Inr rounds_def)
    have rest: "fuelled (thn (update_ctx (\<lambda>cx. cx\<lparr>cx_verdict := Some (verdict_of env failing (cx_baseline cx))\<rparr>))
        (emit env ''tests_completed'' (Some ''testing'') None []))" for failing by (intro fuel_rules)
    have "fst (repair_loop env cs (Suc (nat (l_max_repair_rounds (oe_limits env)) - k)) False f m3) \<noteq> Inl NoFuel"
      unfolding k by (rule repair_loop_fuel [OF honest]) simp
    then show "fst (bnd (repair_loop env cs (Suc (nat (l_max_repair_rounds (oe_limits env)) - k)) False f) (\<lambda>failing.
        thn (update_ctx (\<lambda>cx. cx\<lparr>cx_verdict := Some (verdict_of env failing (cx_baseline cx))\<rparr>)) (emit env ''tests_completed'' (Some ''testing'') None [])) m3) \<noteq> Inl NoFuel"
      using rest unfolding fuelled_def by (auto simp: bnd_def split: prod.split sum.split)
  qed
qed

text \<open>
  C7: The testing phase ends. Its loop (run the tests, let the model repair, run them again) is never given too few turns: every turn either stops or uses
  up one of the allowed repair rounds, so the phase returns a verdict or an exception of the code whatever the model proposes.
\<close>

theorem repair_rounds_end:
  assumes "honest_others env"
  shows "fst (phase_testing env m) \<noteq> Inl NoFuel"
proof -
  have "fuelled (phase_testing env)" unfolding phase_testing_def by (intro fuel_rules fuelled_run_tests assms)
  then show ?thesis by (simp add: fuelled_def)
qed

end
