(* ===== verification/Orchestrator_Runs.thy ===== *)
theory Orchestrator_Runs
  imports Orchestrator_Safety
begin

text \<open>
  Whole runs of the orchestrator, evaluated: an environment in which everything answers, on a repository with one file. They show that the
  premises of the safety theorems can hold, with the effects those theorems speak about, and they exhibit what the code does against its own comments.
\<close>

section \<open>An environment\<close>

definition copy_repo :: "filesys \<Rightarrow> filesys" where
  "copy_repo fs p = (case p of [] \<Rightarrow> fs [] | d # rest \<Rightarrow> if d = ''w'' then fs (''r'' # rest) else fs p)"

definition drop_copy :: "filesys \<Rightarrow> filesys" where
  "drop_copy fs p = (case p of [] \<Rightarrow> fs [] | d # rest \<Rightarrow> if d = ''w'' then None else fs p)"

definition new_file :: pyval where
  "new_file = VDict [(''create'', VList [VDict [(''path'', VStr ''g''), (''content'', VStr ''y'')]])]"

definition demo_agent :: "role \<Rightarrow> pyval" where
  "demo_agent r = (case r of Patcher h \<Rightarrow> new_file | Repair fs n \<Rightarrow> new_file | _ \<Rightarrow> VDict [])"

definition demo_limits :: limits where
  "demo_limits = \<lparr>l_max_model_calls = 0, l_max_total_tokens = 0, l_max_wall_seconds = 0, l_max_commands = 9, l_max_patch_attempts = 1,
     l_max_repair_rounds = 1, l_max_retries = 0\<rparr>"

definition demo_orch :: "(nat \<Rightarrow> signal) \<Rightarrow> orch_env" where
  "demo_orch signals = \<lparr>oe_run = ''r'', oe_fence = None, oe_attempt = 1, oe_correlation = ''c'', oe_ws = copy_env, oe_repo = demo_env,
     oe_ws_path = ''/w'', oe_risk = plain_home, oe_lossy = id, oe_limits = demo_limits, oe_max_test_commands = 2,
     oe_max_check_commands = 2, oe_promote_policy = ''on_green'', oe_approval_timeout = 60, oe_docker = False, oe_version = ''1'',
     oe_replay_base = [], oe_git = (\<lambda>_. None), oe_str = (\<lambda>_. []), oe_show_int = (\<lambda>_. ''1''), oe_describe = (\<lambda>_. ''error''),
     oe_parse_float = (\<lambda>_. None), oe_message = (\<lambda>_. []), oe_digest = concat, oe_checksum = (\<lambda>(h, s, t). s @ t), oe_dump = (\<lambda>_. ''{}''),
     oe_b64 = id, oe_extract = (\<lambda>_. []), oe_which = (\<lambda>_. True), oe_report = (\<lambda>_. Some ''report''), oe_now = int,
     oe_uid = (\<lambda>k. replicate k CHR ''u''), oe_monotonic = (\<lambda>_. 0), oe_io = (\<lambda>_. no_faults), oe_signal = signals, oe_others = (\<lambda>_. id),
     oe_chain = (\<lambda>_. Inr []), oe_preferences = (\<lambda>_. Inr []), oe_memory = (\<lambda>_. Inr (VList [], [])), oe_index = (\<lambda>_. None),
     oe_agent = (\<lambda>_ r _. \<lparr>ag_calls = 1, ag_tokens = 1, ag_retries = 0, ag_events = [], ag_result = Inr (demo_agent r)\<rparr>),
     oe_copy = (\<lambda>_ fs. Inr (copy_repo fs)), oe_cleanup = (\<lambda>_. drop_copy), oe_detect_tests = (\<lambda>_. [''make test'']), oe_detect_checks = (\<lambda>_. []),
     oe_docker_up = (\<lambda>_. False),
     oe_execute = (\<lambda>_ c fs. (\<lparr>cr_success = True, cr_returncode = 0, cr_stdout = [], cr_stderr = [], cr_refused = None\<rparr>, fs)),
     oe_reply = (\<lambda>_. TimedOut)\<rparr>"

definition demo_ctx :: run_context where
  "demo_ctx = \<lparr>cx_task = ''edit f'', cx_provider = ''mock'', cx_read_only = False, cx_analysis = VNone, cx_plan = [],
     cx_selected_files = VList [], cx_selected_context = VDict [], cx_provenance = VList [], cx_memory_notes = VList [], cx_test_commands = [],
     cx_diff = ''+y'', cx_summary = [], cx_applied_files = [], cx_commands_run = [], cx_test_results = [], cx_baseline = [], cx_secrets = [],
     cx_approvals = [], cx_errors = [], cx_verdict = Some ''no_tests'', cx_outcome = None, cx_review = VNone,
     cx_counters = \<lparr>c_model_calls = 0, c_tokens_used = 0, c_wall_seconds = 0, c_patch_attempts = 1, c_repair_rounds = 0, c_retries = 0,
       c_commands_run = 0\<rparr>\<rparr>"

text \<open>A run that is taken up again in the phase \<open>pending\<close>: its copy of the repository differs in the file \<open>f\<close>.\<close>

definition demo_machine :: "string list \<Rightarrow> machine" where
  "demo_machine pending = \<lparr>m_ctx = demo_ctx, m_db = empty_run_db\<lparr>runs := [(new_run 0 ''r'')\<lparr>run_status := RUNNING\<rparr>]\<rparr>, m_checkpoints = [], m_reports = [], m_fs = both_trees ''x'' ''y'',
     m_ws = Some [(''f'', Some ''x'')], m_statuses = (\<lambda>p. if p \<in> set pending then P_PENDING else P_COMPLETE), m_blocked = False,
     m_patch_secret = False, m_no_patch = False, m_reconciled = None, m_failure = None, m_cancelled = False, m_abandoned = False,
     m_critical = False, m_inside = False, m_phase = None, m_phase_uid = None, m_clock = 0, m_policies = None, m_prefs = None, m_tick = 0,
     m_deeds = []\<rparr>"

text \<open>The outcome, what was done (a promotion: whether the run had been abandoned by then), the file in the repository, whether the run was abandoned, and whether a promotion was journaled.\<close>

definition deed_facts :: "deed \<Rightarrow> string + bool" where
  "deed_facts d = (case d of RanCommand c \<Rightarrow> Inl c | Promoted t \<Rightarrow> Inr (at_abandoned t))"

definition facts_of :: "machine \<Rightarrow> string option \<times> (string + bool) list \<times> string option \<times> bool \<times> bool" where
  "facts_of m = (cx_outcome (m_ctx m), map deed_facts (m_deeds m), file_at (m_fs m) [''r'', ''f''], m_abandoned m,
     list_ex (\<lambda>e. ev_type e = ''promotion_started'') (run_events (m_db m)))"


lemma demo_sel:
  "oe_run (demo_orch signals) = ''r''"
  "oe_fence (demo_orch signals) = None"
  "oe_attempt (demo_orch signals) = 1"
  "oe_correlation (demo_orch signals) = ''c''"
  "oe_ws (demo_orch signals) = copy_env"
  "oe_repo (demo_orch signals) = demo_env"
  "oe_ws_path (demo_orch signals) = ''/w''"
  "oe_risk (demo_orch signals) = plain_home"
  "oe_lossy (demo_orch signals) = id"
  "oe_limits (demo_orch signals) = demo_limits"
  "oe_max_test_commands (demo_orch signals) = 2"
  "oe_max_check_commands (demo_orch signals) = 2"
  "oe_promote_policy (demo_orch signals) = ''on_green''"
  "oe_approval_timeout (demo_orch signals) = 60"
  "oe_docker (demo_orch signals) = False"
  "oe_version (demo_orch signals) = ''1''"
  "oe_replay_base (demo_orch signals) = []"
  "oe_git (demo_orch signals) = (\<lambda>_. None)"
  "oe_str (demo_orch signals) = (\<lambda>_. [])"
  "oe_show_int (demo_orch signals) = (\<lambda>_. ''1'')"
  "oe_describe (demo_orch signals) = (\<lambda>_. ''error'')"
  "oe_parse_float (demo_orch signals) = (\<lambda>_. None)"
  "oe_message (demo_orch signals) = (\<lambda>_. [])"
  "oe_digest (demo_orch signals) = concat"
  "oe_checksum (demo_orch signals) = (\<lambda>(h, s, t). s @ t)"
  "oe_dump (demo_orch signals) = (\<lambda>_. ''{}'')"
  "oe_b64 (demo_orch signals) = id"
  "oe_extract (demo_orch signals) = (\<lambda>_. [])"
  "oe_which (demo_orch signals) = (\<lambda>_. True)"
  "oe_report (demo_orch signals) = (\<lambda>_. Some ''report'')"
  "oe_now (demo_orch signals) = int"
  "oe_uid (demo_orch signals) = (\<lambda>k. replicate k CHR ''u'')"
  "oe_monotonic (demo_orch signals) = (\<lambda>_. 0)"
  "oe_io (demo_orch signals) = (\<lambda>_. no_faults)"
  "oe_signal (demo_orch signals) = signals"
  "oe_others (demo_orch signals) = (\<lambda>_. id)"
  "oe_chain (demo_orch signals) = (\<lambda>_. Inr [])"
  "oe_preferences (demo_orch signals) = (\<lambda>_. Inr [])"
  "oe_memory (demo_orch signals) = (\<lambda>_. Inr (VList [], []))"
  "oe_index (demo_orch signals) = (\<lambda>_. None)"
  "oe_agent (demo_orch signals) = (\<lambda>_ r _. \<lparr>ag_calls = 1, ag_tokens = 1, ag_retries = 0, ag_events = [], ag_result = Inr (demo_agent r)\<rparr>)"
  "oe_copy (demo_orch signals) = (\<lambda>_ fs. Inr (copy_repo fs))"
  "oe_cleanup (demo_orch signals) = (\<lambda>_. drop_copy)"
  "oe_detect_tests (demo_orch signals) = (\<lambda>_. [''make test''])"
  "oe_detect_checks (demo_orch signals) = (\<lambda>_. [])"
  "oe_docker_up (demo_orch signals) = (\<lambda>_. False)"
  "oe_execute (demo_orch signals) = (\<lambda>_ c fs. (\<lparr>cr_success = True, cr_returncode = 0, cr_stdout = [], cr_stderr = [], cr_refused = None\<rparr>, fs))"
  "oe_reply (demo_orch signals) = (\<lambda>_. TimedOut)"
  by (simp_all add: demo_orch_def)

definition landed :: filesys where
  "landed = (case promote copy_env demo_env no_faults (both_trees ''x'' ''y'') [(''f'', Some ''x'')] of Inr (fs, r) \<Rightarrow> fs | _ \<Rightarrow> both_trees ''x'' ''y'')"

definition landed_result :: patch_result where
  "landed_result = (case promote copy_env demo_env no_faults (both_trees ''x'' ''y'') [(''f'', Some ''x'')] of
     Inr (fs, Inr r) \<Rightarrow> r | _ \<Rightarrow> failed_result [])"

lemma landed: "promote copy_env demo_env no_faults (both_trees ''x'' ''y'') [(''f'', Some ''x'')] = Inr (landed, Inr landed_result)"
    "pr_success landed_result" "files_changed landed_result = [''f'']" "file_at landed [''r'', ''f''] = Some ''y''"
    "ws_checkpoint copy_env landed [(''f'', Some ''x'')] = Inr [(''f'', Some ''y'')]"
proof -
  show "pr_success landed_result" by code_simp
  show "files_changed landed_result = [''f'']" by code_simp
  show "file_at landed [''r'', ''f''] = Some ''y''" by code_simp
  show "ws_checkpoint copy_env landed [(''f'', Some ''x'')] = Inr [(''f'', Some ''y'')]" by code_simp
  show "promote copy_env demo_env no_faults (both_trees ''x'' ''y'') [(''f'', Some ''x'')] = Inr (landed, Inr landed_result)"
    using plain_promotion unfolding promoted_def landed_def landed_result_def by (auto split: sum.splits prod.splits)
qed

lemma stop_cong: "bnd f g m = bnd f g m" "thn a b m = thn a b m" "ensure a d m = ensure a d m" "rescue a h m = rescue a h m"
  "in_thread env c m = in_thread env c m" "interruptible d m = interruptible d m" "stored env e m = stored env e m" "tx env e m = tx env e m"
  by (rule refl)+

lemmas run_eqs = execute_def [THEN fun_cong] drive_def [THEN fun_cong] check_model_policy_def [THEN fun_cong] policy_chain_def [THEN fun_cong]
  charge_time_def [THEN fun_cong] enforce_def [THEN fun_cong] run_phase_def [THEN fun_cong] set_status_def [THEN fun_cong]
  update_run_phase_def [THEN fun_cong] interruptible_def handler_def [THEN fun_cong] phase_final_report_def [THEN fun_cong]
  finalize_patch_def [THEN fun_cong] land_def [THEN fun_cong] may_promote_def [THEN fun_cong] promote_journaled_def [THEN fun_cong]
  in_critical_def [THEN fun_cong] do_promote_def [THEN fun_cong] after_promotion_def [THEN fun_cong] make_report_def [THEN fun_cong]
  insert_report_def [THEN fun_cong] take_checkpoint_def [THEN fun_cong] complete_run_def [THEN fun_cong] clean_up_def [THEN fun_cong]
  emit_def move_def stored_def tx_def suspend_def in_thread_def bnd_def thn_def [THEN fun_cong] rescue_def ensure_def ret_def throw_def
  gets_def alter_def update_ctx_def [THEN fun_cong] thrown_def [THEN fun_cong] or_throw_def [THEN fun_cong] or_os_error_def [THEN fun_cong]
  on_base_def [THEN fun_cong]

lemma policy_demo: "pd_result (evaluate_policy [] ''model.use.mock'' None) \<noteq> DENY" by code_simp

lemma run_phases_demo:
  "run_phases env (p # ps) m = (if m_statuses m p \<noteq> P_PENDING then run_phases env ps m
       else if m_cancelled m then thn (fail_run env ''Run cancelled'' True) (ret False) m
       else if m_abandoned m then (Inr False, m)
       else thn (enforce env [B_WALL_TIME])
         (if m_blocked m \<and> p \<notin> set PHASES_AFTER_BLOCK
          then thn (set_status p P_SKIPPED)
            (thn (emit env ''phase_started'' (Some p) (Some ''running'') [])
            (thn (emit env ''phase_skipped'' (Some p) (Some ''skipped'') [])
            (thn (take_checkpoint env p) (run_phases env ps))))
          else thn (run_phase env p)
            (bnd (gets id) (\<lambda>m'.
              if m_cancelled m' \<and> m_statuses m' p = P_FAILED then thn (fail_run env ''Run cancelled'' True) (ret False)
              else if m_statuses m' p = P_FAILED then thn (fail_run env (''Phase '' @ p @ '' failed'') False) (ret False)
              else thn (if m_statuses m' p = P_BLOCKED then alter (\<lambda>m. m\<lparr>m_blocked := True\<rparr>) else ret ())
                (thn (take_checkpoint env p) (run_phases env ps))))) m)"
  by (simp add: bnd_def gets_def ret_def)

lemma drop_copy_keeps: "file_at (drop_copy fs) (''r'' # p) = file_at fs (''r'' # p)"
  by (simp add: file_at_def drop_copy_def)

lemma copy_saved: "ws_checkpoint copy_env (both_trees ''x'' ''y'') [(''f'', Some ''x'')] = Inr [(''f'', Some ''y'')]"
  by code_simp

lemma both_trees_at: "file_at (both_trees a b) [''r'', ''f''] = Some a"
  by (simp add: file_at_def both_trees_def)

lemma summary_demo: "ws_summary id copy_env (both_trees ''x'' ''y'') [(''f'', Some ''x'')] = Inr [\<lparr>su_path = ''f'', su_action = ''modify'', su_added = 1\<rparr>]"
  by code_simp

lemma run_phases_end: "run_phases env [] m = (Inr True, m)"
  by (simp add: ret_def)

lemma risk_demo:
  "rd_level (classify_command plain_home ''make test'' (Some ''/w'')) = CAREFUL_AUTO"
  "command_effect (classify_command plain_home ''make test'' (Some ''/w'')) = WORKSPACE_WRITE"
  "pd_result (evaluate_policy [] ''command.run'' (Some WORKSPACE_WRITE)) = ALLOW"
  "approval_required (evaluate_policy [] ''command.run'' (Some WORKSPACE_WRITE)) = False"
  "pick_test_commands (demo_orch signals) [] [''make test''] [] = ([''make test''], False)"
  by code_simp+

lemmas testing_eqs = needs_person_def auto_run_def phase_testing_def [THEN fun_cong] run_tests_def [THEN fun_cong] test_round_def [THEN fun_cong] run_commands_def [THEN fun_cong]
  each.simps [THEN fun_cong] exec_def [THEN fun_cong] get_ws_def [THEN fun_cong] gate_def [THEN fun_cong] preferences_def [THEN fun_cong]
  permit_def [THEN fun_cong] perform_def [THEN fun_cong] run_in_runtime_def [THEN fun_cong] run_command_safe_def [THEN fun_cong]
  execute_command_def [THEN fun_cong] risk_demo repair_loop.simps failing_of_def skip_phase_def [THEN fun_cong]

lemma at_moment: "at_abandoned (moment_of m) = m_abandoned m"
  by (simp add: moment_of_def)

lemmas demo_eqs = run_eqs demo_sel landed policy_demo LOCAL_PROVIDERS_def run_phases_demo run_phases_end PHASE_ORDER_def demo_machine_def 
     demo_ctx_def demo_limits_def signalled_def is_late_def Let_def snapshot_def exhausted_def counters_of_def append_event_def
     check_fence_def empty_run_db_def new_run_def update_row_def demo_manifest promotable_def PROMOTABLE_VERDICTS_def rejected_by_review_def transition_def
     deed_facts_def at_moment
     line_exhausted_def unlimited_def summary_demo capture_def watched_def names_in_def touched_def save_state_def [THEN fun_cong] save_checkpoint_def MAX_CHECKPOINT_BYTES_def can_transition_def find_row_Cons facts_of_def drop_copy_keeps both_trees_at copy_saved

lemma demo_promotion:
  "facts_of (snd (execute (demo_orch (\<lambda>_. Quiet)) True (demo_machine [''final_report'']))) = (Some ''applied'', [Inr False], Some ''y'', False, True)"
  by (simp add: demo_eqs del: run_phases.simps cong: stop_cong split del: if_split)

lemma demo_testing:
  "facts_of (snd (execute (demo_orch (\<lambda>_. Quiet)) True (demo_machine [''testing'']))) = (None, [Inl ''make test''], Some ''x'', False, False)"
  by (simp add: demo_eqs testing_eqs del: run_phases.simps each.simps cong: stop_cong split del: if_split)

section \<open>The premises hold\<close>

definition calm_env :: orch_env where
  "calm_env = demo_orch (\<lambda>_. Quiet)"

definition promoting :: machine where
  "promoting = snd (execute calm_env True (demo_machine [''final_report'']))"

definition testing :: machine where
  "testing = snd (execute calm_env True (demo_machine [''testing'']))"

lemma honest_demo: "honest_others calm_env"
  by (simp add: honest_others_def calm_env_def demo_sel)

lemma isolated_demo: "isolated_run calm_env"
  unfolding isolated_run_def calm_env_def demo_sel
  by (auto simp: honest_demo [unfolded calm_env_def] copy_env_def demo_env_def is_within_def file_at_def drop_copy_def copy_repo_def prefix_def)

lemma promoting:
  "execute calm_env True (demo_machine [''final_report'']) = (fst (execute calm_env True (demo_machine [''final_report''])), promoting)"
  "facts_of promoting = (Some ''applied'', [Inr False], Some ''y'', False, True)"
  unfolding promoting_def calm_env_def by (rule prod.collapse [symmetric], rule demo_promotion)

lemma testing:
  "execute calm_env True (demo_machine [''testing'']) = (fst (execute calm_env True (demo_machine [''testing''])), testing)"
  "facts_of testing = (None, [Inl ''make test''], Some ''x'', False, False)"
  unfolding testing_def calm_env_def by (rule prod.collapse [symmetric], rule demo_testing)

lemma tested: "m_deeds testing = [RanCommand ''make test'']"
  using testing(2) by (auto simp: facts_of_def deed_facts_def split: deed.splits)

theorem executed_commands_are_permitted_witness: "m_deeds testing = [RanCommand ''make test''] \<and> permitted calm_env testing ''make test''"
  using executed_commands_are_permitted [OF honest_demo testing(1)] tested by (auto simp: demo_machine_def)

theorem command_budget_is_kept_witness: "m_deeds testing = [RanCommand ''make test''] \<and> 1 \<le> l_max_commands (oe_limits calm_env)"
proof -
  have "0 < l_max_commands (oe_limits calm_env)" "int (length (cx_commands_run (m_ctx (demo_machine [''testing''])))) \<le> l_max_commands (oe_limits calm_env)"
    by (simp_all add: calm_env_def demo_sel demo_limits_def demo_machine_def demo_ctx_def)
  from command_budget_is_kept [OF honest_demo this testing(1)] show ?thesis using tested by (simp add: demo_machine_def demo_ctx_def)
qed

theorem repository_written_only_through_gate_witness:
  "file_at (m_fs (demo_machine [''final_report''])) [''r'', ''f''] = Some ''x'' \<and> file_at (m_fs promoting) [''r'', ''f''] = Some ''y'' \<and>
   list_ex (\<lambda>d. case d of RanCommand c \<Rightarrow> False | Promoted t \<Rightarrow> \<not> at_abandoned t \<and> journaled calm_env t [''r'', ''f'']) (m_deeds promoting)"
proof -
  have same: "file_at (m_fs (demo_machine [''final_report''])) [''r'', ''f''] = Some ''x''" by (simp add: demo_machine_def both_trees_at)
  have "repo_files calm_env promoting [''r'', ''f''] \<noteq> repo_files calm_env (demo_machine [''final_report'']) [''r'', ''f'']"
    using promoting(2) same by (simp add: repo_files_def calm_env_def demo_sel demo_env_def is_within_def facts_of_def)
  from repository_written_only_through_gate [OF isolated_demo promoting(1) this] obtain t where
    t: "Promoted t \<in> set (m_deeds promoting)" "at_abandoned t \<or> journaled calm_env t [''r'', ''f'']" by (auto simp: demo_machine_def)
  have "\<not> at_abandoned t" using t(1) promoting(2) by (auto simp: facts_of_def deed_facts_def)
  then show ?thesis using t promoting(2) same by (force simp: facts_of_def list_ex_iff)
qed

theorem repair_rounds_end_witness: "fst (phase_testing calm_env (demo_machine [''testing''])) \<noteq> Inl NoFuel"
  by (rule repair_rounds_end [OF honest_demo])

section \<open>Findings\<close>

text \<open>
  The journal has a hole: when the run loses its lease in the turn of the event loop in which the manifest is ready, the event is not written
  (an abandoned run writes no events), but the promotion goes on. A crash in the middle of it then looks like a run that never promoted.
\<close>

theorem abandoned_run_promotes_without_journal:
  "facts_of (snd (execute (demo_orch (\<lambda>k. if k = 4 then Abandon True else Quiet)) True (demo_machine [''final_report'']))) =
     (Some ''applied'', [Inr True], Some ''y'', True, False)"
  by (simp add: demo_eqs abandon_def del: run_phases.simps cong: stop_cong split del: if_split)

text \<open>
  A command that an approver rewrote is compared with the list of blocked commands only: the policies of the run, which the
  original command was checked against, are not asked about it.
\<close>

definition no_push :: policy where
  "no_push = \<lparr>pol_name = ''no-push'', pol_scope = WORKSPACE, pol_rules = [mk_rule ''command.run'' DENY ''nothing leaves'' {EXTERNAL_WRITE}],
     pol_limits = [], pol_scope_ref = [], pol_version = 1, is_malformed = False\<rparr>"

theorem modified_command_is_not_checked_against_policies:
  "pd_result (policy_on [no_push] (risk_of calm_env ''git push'')) = DENY \<and>
   pd_result (policy_on [no_push] (risk_of calm_env ''git commit'')) \<noteq> DENY \<and>
   fst (after_decision calm_env ''git commit''
     \<lparr>oc_approval = ''a'', oc_decision = MODIFY, oc_status = A_APPROVED, oc_command = Some ''git push''\<rparr> testing) = Inr (True, ''git push'')"
proof (intro conjI)
  show "pd_result (policy_on [no_push] (risk_of calm_env ''git push'')) = DENY" by code_simp
  show "pd_result (policy_on [no_push] (risk_of calm_env ''git commit'')) \<noteq> DENY" by code_simp
  have "rd_level (risk_of calm_env ''git push'') \<noteq> BLOCKED" by code_simp
  then show "fst (after_decision calm_env ''git commit''
     \<lparr>oc_approval = ''a'', oc_decision = MODIFY, oc_status = A_APPROVED, oc_command = Some ''git push''\<rparr> testing) = Inr (True, ''git push'')"
    by (simp add: after_decision_def risk_of_def approved_def APPROVING_def ret_def)
qed

text \<open>A limit on the scope of a task (it is listed as such in the source) makes the task read-only.\<close>

theorem scope_limit_makes_task_read_only: "detect_read_only ''fix the bug in a.py; do not edit any other files'' False"
  by code_simp

end
