(* ===== verification/Ssrf.thy ===== *)
theory Ssrf
  imports Failures "HOL-Library.Word"
begin

text \<open>
  The guard for outgoing requests, \<open>connectors/ssrf.py\<close>: a URL is checked before every request and again at every redirect. Modelled with
  it are the parts of the standard library that decide: \<open>ipaddress\<close> (the address ranges and the two text forms, as in Python 3.12),
  \<open>urlsplit\<close> and \<open>inet_aton\<close>. The resolver, \<open>urljoin\<close> and the transport are parameters, so every answer of a name server and every
  reply of a server is covered; a tick tells their calls apart.

  Shown: a request goes only to URLs that were checked, each with public addresses only; after a redirect to another host no
  credentials are sent; the number of requests and the size of a reply are bounded.
\<close>

section \<open>Addresses\<close>

datatype ip = V4 "32 word" | V6 "128 word"

type_synonym 'w net = "'w word \<times> nat"

definition in_net :: "'w::len word \<Rightarrow> 'w net \<Rightarrow> bool" where
  "in_net a n \<longleftrightarrow> drop_bit (LENGTH('w) - snd n) a = drop_bit (LENGTH('w) - snd n) (fst n)"

definition in_nets :: "'w::len word \<Rightarrow> 'w net list \<Rightarrow> bool" where
  "in_nets a ns \<longleftrightarrow> list_ex (in_net a) ns"

definition quad :: "int \<Rightarrow> int \<Rightarrow> int \<Rightarrow> int \<Rightarrow> 32 word" where
  "quad a b c d = word_of_int (a * 2 ^ 24 + b * 2 ^ 16 + c * 2 ^ 8 + d)"

text \<open>The first 64 bits as four groups; the rest is zero but for the last group.\<close>

definition groups :: "int \<Rightarrow> int \<Rightarrow> int \<Rightarrow> int \<Rightarrow> int \<Rightarrow> 128 word" where
  "groups a b c d z = word_of_int (((a * 2 ^ 16 + b) * 2 ^ 32 + c * 2 ^ 16 + d) * 2 ^ 64 + z)"

text \<open>The tables of \<open>ipaddress\<close>.\<close>

definition PRIVATE_V4 :: "32 net list" where
  "PRIVATE_V4 = [(quad 0 0 0 0, 8), (quad 10 0 0 0, 8), (quad 127 0 0 0, 8), (quad 169 254 0 0, 16), (quad 172 16 0 0, 12), (quad 192 0 0 0, 24),
     (quad 192 0 0 170, 31), (quad 192 0 2 0, 24), (quad 192 168 0 0, 16), (quad 198 18 0 0, 15), (quad 198 51 100 0, 24),
     (quad 203 0 113 0, 24), (quad 240 0 0 0, 4), (quad 255 255 255 255, 32)]"

definition PRIVATE_V4_EXCEPTIONS :: "32 net list" where
  "PRIVATE_V4_EXCEPTIONS = [(quad 192 0 0 9, 32), (quad 192 0 0 10, 32)]"

definition SHARED_V4 :: "32 net" where "SHARED_V4 = (quad 100 64 0 0, 10)"
definition MULTICAST_V4 :: "32 net" where "MULTICAST_V4 = (quad 224 0 0 0, 4)"
definition RESERVED_V4 :: "32 net" where "RESERVED_V4 = (quad 240 0 0 0, 4)"
definition LOOPBACK_V4 :: "32 net" where "LOOPBACK_V4 = (quad 127 0 0 0, 8)"
definition LINK_LOCAL_V4 :: "32 net" where "LINK_LOCAL_V4 = (quad 169 254 0 0, 16)"

definition PRIVATE_V6 :: "128 net list" where
  "PRIVATE_V6 = [(groups 0 0 0 0 1, 128), (groups 0 0 0 0 0, 128), (groups 0 0 0 0 0xFFFF00000000, 96), (groups 0x64 0xFF9B 1 0 0, 48),
     (groups 0x100 0 0 0 0, 64), (groups 0x2001 0 0 0 0, 23), (groups 0x2001 0xDB8 0 0 0, 32), (groups 0x2002 0 0 0 0, 16),
     (groups 0x3FFF 0 0 0 0, 20), (groups 0xFC00 0 0 0 0, 7), (groups 0xFE80 0 0 0 0, 10)]"

definition PRIVATE_V6_EXCEPTIONS :: "128 net list" where
  "PRIVATE_V6_EXCEPTIONS = [(groups 0x2001 1 0 0 1, 128), (groups 0x2001 1 0 0 2, 128), (groups 0x2001 3 0 0 0, 32), (groups 0x2001 4 0x112 0 0, 48),
     (groups 0x2001 0x20 0 0 0, 28), (groups 0x2001 0x30 0 0 0, 28)]"

definition RESERVED_V6 :: "128 net list" where
  "RESERVED_V6 = [(groups 0 0 0 0 0, 8), (groups 0x100 0 0 0 0, 8), (groups 0x200 0 0 0 0, 7), (groups 0x400 0 0 0 0, 6), (groups 0x800 0 0 0 0, 5),
     (groups 0x1000 0 0 0 0, 4), (groups 0x4000 0 0 0 0, 3), (groups 0x6000 0 0 0 0, 3), (groups 0x8000 0 0 0 0, 3), (groups 0xA000 0 0 0 0, 3),
     (groups 0xC000 0 0 0 0, 3), (groups 0xE000 0 0 0 0, 4), (groups 0xF000 0 0 0 0, 5), (groups 0xF800 0 0 0 0, 6), (groups 0xFE00 0 0 0 0, 9)]"

definition MULTICAST_V6 :: "128 net" where "MULTICAST_V6 = (groups 0xFF00 0 0 0 0, 8)"
definition LINK_LOCAL_V6 :: "128 net" where "LINK_LOCAL_V6 = (groups 0xFE80 0 0 0 0, 10)"

definition V6_BLOCKED :: "128 net list" where
  "V6_BLOCKED = [(groups 0 0 0 0 0, 96), (groups 0x64 0xFF9B 0 0 0, 96), (groups 0x2002 0 0 0 0, 16), (groups 0x2001 0 0 0 0, 32), (groups 0x100 0 0 0 0, 64)]"

definition global_v4 :: "32 word \<Rightarrow> bool" where
  "global_v4 a \<longleftrightarrow> \<not> in_net a SHARED_V4 \<and> \<not> (in_nets a PRIVATE_V4 \<and> \<not> in_nets a PRIVATE_V4_EXCEPTIONS)"

definition global_v6 :: "128 word \<Rightarrow> bool" where
  "global_v6 a \<longleftrightarrow> \<not> (in_nets a PRIVATE_V6 \<and> \<not> in_nets a PRIVATE_V6_EXCEPTIONS)"

definition public_v4 :: "32 word \<Rightarrow> bool" where
  "public_v4 a \<longleftrightarrow> global_v4 a \<and> \<not> (in_net a MULTICAST_V4 \<or> in_net a RESERVED_V4 \<or> a = 0 \<or> in_net a LOOPBACK_V4 \<or> in_net a LINK_LOCAL_V4)"

definition ipv4_mapped :: "128 word \<Rightarrow> 32 word option" where
  "ipv4_mapped a = (if drop_bit 32 a = 0xFFFF then Some (ucast a) else None)"

definition is_public :: "ip \<Rightarrow> bool" where
  "is_public x = (case x of V4 a \<Rightarrow> public_v4 a
     | V6 a \<Rightarrow> (case ipv4_mapped a of Some b \<Rightarrow> public_v4 b
         | None \<Rightarrow> \<not> in_nets a V6_BLOCKED \<and> global_v6 a \<and>
             \<not> (in_net a MULTICAST_V6 \<or> in_nets a RESERVED_V6 \<or> a = 0 \<or> a = 1 \<or> in_net a LINK_LOCAL_V6)))"

section \<open>Addresses as text\<close>

definition hex_value :: "char \<Rightarrow> int" where
  "hex_value c = (if is_digit c then of_char c - 48 else if is_lower c then of_char c - 87 else of_char c - 55)"

definition is_hex :: "char \<Rightarrow> bool" where
  "is_hex c \<longleftrightarrow> is_digit c \<or> (CHR ''a'' \<le> c \<and> c \<le> CHR ''f'') \<or> (CHR ''A'' \<le> c \<and> c \<le> CHR ''F'')"

definition number :: "int \<Rightarrow> string \<Rightarrow> int" where
  "number base s = foldl (\<lambda>n c. n * base + hex_value c) 0 s"

text \<open>The strict form of \<open>ip_address\<close>: four decimal numbers without leading zeros.\<close>

definition strict_octet :: "string \<Rightarrow> int option" where
  "strict_octet s = (if s \<noteq> [] \<and> list_all is_digit s \<and> length s \<le> 3 \<and> (s = ''0'' \<or> hd s \<noteq> CHR ''0'') \<and> number 10 s \<le> 255
     then Some (number 10 s) else None)"

definition parse_v4 :: "string \<Rightarrow> 32 word option" where
  "parse_v4 s = (case those (map strict_octet (split_on (CHR ''.'') s)) of Some [a, b, c, d] \<Rightarrow> Some (quad a b c d) | _ \<Rightarrow> None)"

definition hextet :: "string \<Rightarrow> int option" where
  "hextet s = (if s \<noteq> [] \<and> length s \<le> 4 \<and> list_all is_hex s then Some (number 16 s) else None)"

text \<open>A dotted quad at the end stands for two groups.\<close>

definition v6_parts :: "string \<Rightarrow> string list option" where
  "v6_parts s =
     (let ps = split_on (CHR '':'') s in
      if length ps < 3 then None
      else if CHR ''.'' \<notin> set (last ps) then Some ps
      else (case parse_v4 (last ps) of None \<Rightarrow> None
        | Some a \<Rightarrow> Some (butlast ps @ [''0'', ''0''])))"

definition v6_tail :: "string \<Rightarrow> int" where
  "v6_tail s = (let ps = split_on (CHR '':'') s in case parse_v4 (last ps) of Some a \<Rightarrow> uint a | None \<Rightarrow> 0)"

definition from_hextets :: "int list \<Rightarrow> int" where
  "from_hextets hs = foldl (\<lambda>n h. n * 2 ^ 16 + h) 0 hs"

definition parse_v6 :: "string \<Rightarrow> 128 word option" where
  "parse_v6 s =
     (case v6_parts s of None \<Rightarrow> None
      | Some ps \<Rightarrow>
        let gaps = filter (\<lambda>i. ps ! i = []) [1..<length ps - 1] in
        if length ps > 9 \<or> length gaps > 1 then None
        else (case gaps of
            [] \<Rightarrow> if length ps \<noteq> 8 then None
                  else (case those (map hextet ps) of None \<Rightarrow> None | Some hs \<Rightarrow> Some (word_of_int (from_hextets hs + v6_tail s)))
          | i # _ \<Rightarrow>
             let hi = take i ps; lo = drop (Suc i) ps;
                 hi' = (if hd ps = [] then tl hi else hi); lo' = (if last ps = [] then butlast lo else lo) in
             if (hd ps = [] \<and> hi' \<noteq> []) \<or> (last ps = [] \<and> lo' \<noteq> []) \<or> length hi' + length lo' > 7 then None
             else (case (those (map hextet hi'), those (map hextet lo')) of
                 (Some hs, Some ls) \<Rightarrow> Some (word_of_int (from_hextets (hs @ replicate (8 - length hs - length ls) 0 @ ls) + v6_tail s))
               | _ \<Rightarrow> None)))"

text \<open>\<open>ip_address\<close>: \<open>None\<close> where it raises \<open>ValueError\<close>. A scope (after a percent sign) is excluded before.\<close>

definition ip_address :: "string \<Rightarrow> ip option" where
  "ip_address s = (case parse_v4 s of Some a \<Rightarrow> Some (V4 a) | None \<Rightarrow> map_option V6 (parse_v6 s))"

text \<open>\<open>inet_aton\<close>: one to four numbers, decimal, octal or hexadecimal, the last one filling the remaining bytes.\<close>

definition aton_number :: "string \<Rightarrow> int option" where
  "aton_number s =
     (if prefix ''0x'' s \<or> prefix ''0X'' s then (if drop 2 s \<noteq> [] \<and> list_all is_hex (drop 2 s) then Some (number 16 (drop 2 s)) else None)
      else if prefix ''0'' s then (if list_all (\<lambda>c. is_digit c \<and> c < CHR ''8'') s then Some (number 8 s) else None)
      else if s \<noteq> [] \<and> list_all is_digit s then Some (number 10 s) else None)"

definition inet_aton :: "string \<Rightarrow> 32 word option" where
  "inet_aton s =
     (case those (map aton_number (split_on (CHR ''.'') s)) of
        Some [a] \<Rightarrow> if a < 2 ^ 32 then Some (word_of_int a) else None
      | Some [a, b] \<Rightarrow> if a < 256 \<and> b < 2 ^ 24 then Some (quad a 0 0 0 + word_of_int b) else None
      | Some [a, b, c] \<Rightarrow> if a < 256 \<and> b < 256 \<and> c < 2 ^ 16 then Some (quad a b 0 0 + word_of_int c) else None
      | Some [a, b, c, d] \<Rightarrow> if a < 256 \<and> b < 256 \<and> c < 256 \<and> d < 256 then Some (quad a b c d) else None
      | _ \<Rightarrow> None)"

section \<open>URLs\<close>

text \<open>\<open>urlsplit\<close>, \<open>netloc\<close>, \<open>hostname\<close> and \<open>port\<close>; leading white space and control characters, tabs and line ends are removed first.\<close>

definition clean_url :: "string \<Rightarrow> string" where
  "clean_url url = filter (\<lambda>c. c \<noteq> CHR 0x09 \<and> c \<noteq> CHR 0x0A \<and> c \<noteq> CHR 0x0D) (lstrip_by (\<lambda>c. (of_char c :: nat) \<le> 32) url)"

record url_parts =
  up_scheme :: string
  up_netloc :: string
  up_host :: "string option"
  up_port :: "int option"

definition is_alpha :: "char \<Rightarrow> bool" where
  "is_alpha c \<longleftrightarrow> is_lower c \<or> is_upper c"

definition split_scheme :: "string \<Rightarrow> string \<times> string" where
  "split_scheme url =
     (let s = before_char (CHR '':'') url in
      if CHR '':'' \<in> set url \<and> s \<noteq> [] \<and> is_alpha (hd s) \<and> list_all (\<lambda>c. is_alnum c \<or> c \<in> set ''+-.'') s
      then (str_lower s, after_char (CHR '':'') url) else ([], url))"

definition split_netloc :: "string \<Rightarrow> string" where
  "split_netloc rest = (if prefix ''//'' rest then takeWhile (\<lambda>c. c \<notin> set ''/?#'') (drop 2 rest) else [])"

text \<open>What follows the last \<open>@\<close>.\<close>

definition host_info :: "string \<Rightarrow> string" where
  "host_info netloc = last (split_on (CHR ''@'') netloc)"

definition bracketed_host_ok :: "string \<Rightarrow> bool" where
  "bracketed_host_ok host \<longleftrightarrow>
     (if prefix ''v'' host then (let rest = dropWhile is_hex (tl host) in takeWhile is_hex (tl host) \<noteq> [] \<and> prefix ''.'' rest \<and> length rest > 1)
      else parse_v6 (before_char (CHR ''%'') host) \<noteq> None \<and>
        (CHR ''%'' \<in> set host \<longrightarrow> after_char (CHR ''%'') host \<noteq> [] \<and> CHR ''%'' \<notin> set (after_char (CHR ''%'') host)))"

definition bracket_ok :: "string \<Rightarrow> bool" where
  "bracket_ok netloc \<longleftrightarrow>
     (let info = host_info netloc; inside = before_char (CHR '']'') (after_char (CHR ''['') info);
          rest = after_char (CHR '']'') (after_char (CHR ''['') info) in
      (CHR ''['' \<in> set netloc \<longleftrightarrow> CHR '']'' \<in> set netloc) \<and>
      (CHR ''['' \<in> set netloc \<longrightarrow>
         (if CHR ''['' \<in> set info
          then before_char (CHR ''['') info = [] \<and> (rest = [] \<or> prefix '':'' rest) \<and> bracketed_host_ok inside
          else bracketed_host_ok (before_char (CHR '':'') info))))"

definition raw_host :: "string \<Rightarrow> string" where
  "raw_host netloc = (let info = host_info netloc in
     if CHR ''['' \<in> set info then before_char (CHR '']'') (after_char (CHR ''['') info) else before_char (CHR '':'') info)"

definition raw_port :: "string \<Rightarrow> string" where
  "raw_port netloc = (let info = host_info netloc in
     if CHR ''['' \<in> set info then after_char (CHR '':'') (after_char (CHR '']'') (after_char (CHR ''['') info)) else after_char (CHR '':'') info)"

definition host_of :: "string \<Rightarrow> string option" where
  "host_of netloc = (let h = raw_host netloc in if h = [] then None
     else Some (str_lower (before_char (CHR ''%'') h) @ dropWhile (\<lambda>c. c \<noteq> CHR ''%'') h))"

text \<open>\<open>None\<close> where \<open>ValueError\<close> is raised.\<close>

definition port_of :: "string \<Rightarrow> int option option" where
  "port_of netloc = (let p = raw_port netloc in if p = [] then Some None
     else if list_all is_digit p \<and> number 10 p \<le> 65535 then Some (Some (number 10 p)) else None)"

definition urlsplit :: "string \<Rightarrow> url_parts option" where
  "urlsplit url =
     (let (scheme, rest) = split_scheme (clean_url url); netloc = split_netloc rest in
      if \<not> bracket_ok netloc then None
      else (case port_of netloc of None \<Rightarrow> None
        | Some p \<Rightarrow> Some \<lparr>up_scheme = scheme, up_netloc = netloc, up_host = host_of netloc, up_port = p\<rparr>))"

text \<open>The netloc alone, which the check of a redirect reads; a bad port does not make it fail.\<close>

definition netloc_of :: "string \<Rightarrow> string option" where
  "netloc_of url = (let netloc = split_netloc (snd (split_scheme (clean_url url))) in if bracket_ok netloc then Some (str_lower netloc) else None)"

section \<open>The check\<close>

record http_req =
  hq_method :: string
  hq_url :: string
  hq_headers :: "string dict"
  hq_content :: "string option"
  hq_params :: "string dict option"

record http_resp =
  hr_status :: nat
  hr_headers :: "string dict"
  hr_body :: string

record net_env =
  ne_resolve :: "nat \<Rightarrow> string \<Rightarrow> int \<Rightarrow> string list option"
  ne_join :: "string \<Rightarrow> string \<Rightarrow> string option"
  ne_send :: "nat \<Rightarrow> http_req \<Rightarrow> py_exception + nat \<times> string dict \<times> string list"
  ne_allowlist :: "string list option"
  ne_max_redirects :: nat

definition MAX_URL :: int where "MAX_URL = 2048"
definition MAX_RESPONSE_BYTES :: int where "MAX_RESPONSE_BYTES = 1048576"

definition STRIP_ON_HOST_CHANGE :: "string list" where
  "STRIP_ON_HOST_CHANGE = [''authorization'', ''cookie'', ''proxy-authorization'']"

definition SSRFBlocked :: "string \<Rightarrow> py_exception" where
  "SSRFBlocked why = PatchQuestError TOOL_FAILURE (''blocked URL: '' @ why) None"

definition host_allowed :: "string \<Rightarrow> string list \<Rightarrow> bool" where
  "host_allowed host allowlist =
     (let h = str_lower host in
      list_ex (\<lambda>entry. let e = str_lower entry in
        if prefix ''*.'' e then suffix (tl e) h \<and> length h > length e - 1 else h = e) allowlist)"

definition literal_ip :: "string \<Rightarrow> py_exception + ip option" where
  "literal_ip host =
     (if CHR '':'' \<in> set host then
        if CHR ''%'' \<in> set host then Inl (SSRFBlocked ''IPv6 zone identifiers are not allowed'')
        else (case parse_v6 host of None \<Rightarrow> Inl (SSRFBlocked ''malformed IPv6 host'') | Some a \<Rightarrow> Inr (Some (V6 a)))
      else if (case last (split_on (CHR ''.'') host) of [] \<Rightarrow> False | c # _ \<Rightarrow> is_digit c)
      then (case inet_aton host of None \<Rightarrow> Inl (SSRFBlocked ''malformed numeric host'') | Some a \<Rightarrow> Inr (Some (V4 a)))
      else Inr None)"

text \<open>A literal is written out and read back by the code; here it stays an address.\<close>

datatype address = Literal ip | Answer string

fun to_ip :: "address \<Rightarrow> ip option" where
  "to_ip (Literal x) = Some x"
| "to_ip (Answer s) = ip_address s"

definition addresses_of :: "net_env \<Rightarrow> nat \<Rightarrow> url_parts \<Rightarrow> string \<Rightarrow> py_exception + address list" where
  "addresses_of env k parts host =
     bind_r (literal_ip host) (\<lambda>l. case l of Some x \<Rightarrow> Inr [Literal x]
       | None \<Rightarrow> (case ne_resolve env k host (case up_port parts of Some p \<Rightarrow> if p = 0 then (if up_scheme parts = ''https'' then 443 else 80) else p
                     | None \<Rightarrow> if up_scheme parts = ''https'' then 443 else 80) of
           None \<Rightarrow> Inl (PatchQuestError CONNECTOR_UNAVAILABLE ''DNS resolution failed'' None)
         | Some [] \<Rightarrow> Inl (PatchQuestError CONNECTOR_UNAVAILABLE ''DNS returned no addresses'' None)
         | Some texts \<Rightarrow> Inr (map Answer texts)))"

definition check_address :: "string \<Rightarrow> address \<Rightarrow> py_exception + unit" where
  "check_address host a =
     (if (case a of Literal x \<Rightarrow> False | Answer s \<Rightarrow> CHR ''%'' \<in> set s) then Inl (SSRFBlocked ''resolved to a scoped address'')
      else (case to_ip a of None \<Rightarrow> Inl (OtherException ''ValueError'')
        | Some x \<Rightarrow> if is_public x then Inr () else Inl (SSRFBlocked (host @ '' resolves to a non-public address''))))"

definition bad_char :: "char \<Rightarrow> bool" where
  "bad_char c \<longleftrightarrow> is_space c \<or> c = CHR 0x5C \<or> (of_char c :: nat) < 32"

definition check_url :: "net_env \<Rightarrow> nat \<Rightarrow> string \<Rightarrow> py_exception + address list" where
  "check_url env k url =
     (if url = [] \<or> int (length url) > MAX_URL \<or> list_ex bad_char url then Inl (SSRFBlocked ''empty, oversized or contains control characters'')
      else (case urlsplit url of None \<Rightarrow> Inl (SSRFBlocked ''unparseable URL'')
        | Some parts \<Rightarrow>
          if up_scheme parts \<noteq> ''http'' \<and> up_scheme parts \<noteq> ''https'' then Inl (SSRFBlocked ''scheme is not allowed'')
          else if CHR ''@'' \<in> set (up_netloc parts) then Inl (SSRFBlocked ''credentials / userinfo in the URL'')
          else (case up_host parts of None \<Rightarrow> Inl (SSRFBlocked ''no host'')
            | Some h \<Rightarrow>
              let host = rstrip_by (\<lambda>c. c = CHR ''.'') h in
              if host = [] \<or> host = ''localhost'' \<or> suffix ''.localhost'' host then Inl (SSRFBlocked ''host is local'')
              else if (case ne_allowlist env of None \<Rightarrow> False | Some al \<Rightarrow> \<not> host_allowed host al)
              then Inl (SSRFBlocked ''host is not on the workspace allowlist'')
              else bind_r (addresses_of env k parts host) (\<lambda>as. bind_r (map_r (check_address host) as) (\<lambda>_. Inr as)))))"

section \<open>Requests\<close>

text \<open>The body is read in chunks; one chunk too many raises.\<close>

primrec read_body :: "string \<Rightarrow> string list \<Rightarrow> py_exception + string" where
  "read_body acc [] = Inr acc"
| "read_body acc (c # cs) =
     (if int (length (acc @ c)) > MAX_RESPONSE_BYTES then Inl (PatchQuestError TOOL_FAILURE ''response body too large'' None) else read_body (acc @ c) cs)"

definition drop_headers :: "string list \<Rightarrow> string dict \<Rightarrow> string dict" where
  "drop_headers names hs = filter (\<lambda>(k, v). str_lower k \<notin> set names) hs"

definition send_once :: "net_env \<Rightarrow> nat \<Rightarrow> http_req \<Rightarrow> py_exception + http_resp" where
  "send_once env k q =
     bind_r (ne_send env k q) (\<lambda>(status, hs, chunks). bind_r (read_body [] chunks) (\<lambda>body.
       Inr \<lparr>hr_status = status, hr_headers = drop_headers [''content-encoding'', ''content-length'', ''transfer-encoding''] hs, hr_body = body\<rparr>))"

text \<open>\<open>raise_for_status\<close> carries the body and the \<open>Retry-After\<close> header, which the classification reads.\<close>

definition header :: "string dict \<Rightarrow> string \<Rightarrow> string option" where
  "header hs name = map_option snd (find (\<lambda>(k, v). str_lower k = name) hs)"

definition ensure_ok :: "http_resp \<Rightarrow> py_exception + http_resp" where
  "ensure_ok r =
     (if 200 \<le> hr_status r \<and> hr_status r < 300 then Inr r
      else if hr_status r \<in> {401, 403, 408, 409, 425, 429} \<or> hr_status r \<ge> 500
      then Inl (HTTPStatusError (hr_status r) (hr_body r) (header (hr_headers r) ''retry-after''))
      else Inl (PatchQuestError TOOL_FAILURE ''HTTP error'' None))"

definition redirects :: "http_resp \<Rightarrow> string option" where
  "redirects r = (if hr_status r \<in> {301, 302, 303, 307, 308} then (case header (hr_headers r) ''location'' of Some [] \<Rightarrow> None | l \<Rightarrow> l) else None)"

text \<open>The request after a redirect; \<open>None\<close> where \<open>urljoin\<close> or \<open>urlsplit\<close> raises \<open>ValueError\<close>.\<close>

definition next_request :: "net_env \<Rightarrow> http_req \<Rightarrow> nat \<Rightarrow> string \<Rightarrow> http_req option" where
  "next_request env q status location =
     (case ne_join env (hq_url q) location of None \<Rightarrow> None
      | Some target \<Rightarrow> (case (netloc_of target, netloc_of (hq_url q)) of
          (Some a, Some b) \<Rightarrow>
            Some \<lparr>hq_method = (if status \<in> {301, 302, 303} then if hq_method q \<noteq> ''HEAD'' then ''GET'' else ''HEAD'' else hq_method q),
              hq_url = target,
              hq_headers = (if a \<noteq> b then drop_headers STRIP_ON_HOST_CHANGE (hq_headers q) else hq_headers q),
              hq_content = (if status \<in> {301, 302, 303} then None else hq_content q), hq_params = None\<rparr>
        | _ \<Rightarrow> None))"

text \<open>The loop over the hops, with the list of requests that were sent.\<close>

primrec hops :: "net_env \<Rightarrow> bool \<Rightarrow> nat \<Rightarrow> nat \<Rightarrow> http_req \<Rightarrow> (py_exception + http_resp) \<times> http_req list" where
  "hops env check 0 k q = (Inl (PatchQuestError TOOL_FAILURE ''too many redirects'' None), [])"
| "hops env check (Suc n) k q =
     (case check_url env k (hq_url q) of Inl e \<Rightarrow> (Inl e, [])
      | Inr as \<Rightarrow> (case send_once env (Suc k) q of Inl e \<Rightarrow> (Inl e, [q])
        | Inr r \<Rightarrow> (case redirects r of None \<Rightarrow> (if check then ensure_ok r else Inr r, [q])
          | Some location \<Rightarrow> (case next_request env q (hr_status r) location of None \<Rightarrow> (Inl (OtherException ''ValueError''), [q])
            | Some q' \<Rightarrow> (case hops env check n (Suc (Suc k)) q' of (res, sent) \<Rightarrow> (res, q # sent))))))"

definition safe_request :: "net_env \<Rightarrow> bool \<Rightarrow> nat \<Rightarrow> http_req \<Rightarrow> (py_exception + http_resp) \<times> http_req list" where
  "safe_request env check k q = hops env check (Suc (ne_max_redirects env)) k q"

section \<open>Public addresses are not internal\<close>

text \<open>What must not be reached, independently of the tables: private, shared, loopback, link-local and unspecified addresses, and IPv6 addresses that
  stand for one (mapped, compatible, NAT64 and 6to4).\<close>

definition internal_v4 :: "32 word \<Rightarrow> bool" where
  "internal_v4 a \<longleftrightarrow> in_nets a [(quad 10 0 0 0, 8), (quad 172 16 0 0, 12), (quad 192 168 0 0, 16), (quad 127 0 0 0, 8), (quad 169 254 0 0, 16),
     (quad 100 64 0 0, 10), (quad 0 0 0 0, 8)]"

definition stands_for :: "128 word \<Rightarrow> 32 word list" where
  "stands_for a = (if drop_bit 32 a \<in> {0xFFFF, 0, 0x64FF9B0000000000000000} then [ucast a] else []) @
     (if drop_bit 112 a = 0x2002 then [ucast (drop_bit 80 a)] else [])"

definition internal :: "ip \<Rightarrow> bool" where
  "internal x = (case x of V4 a \<Rightarrow> internal_v4 a
     | V6 a \<Rightarrow> a = 0 \<or> a = 1 \<or> in_nets a [(groups 0xFC00 0 0 0 0, 7), (groups 0xFE80 0 0 0 0, 10)] \<or> list_ex internal_v4 (stands_for a))"

lemma in_net_overlap:
  fixes a :: "'w::len word"
  assumes "in_net a (p, m)" "in_net a (q, n)" "m \<le> n" "n \<le> LENGTH('w)"
  shows "in_net q (p, m)"
proof -
  have "drop_bit (LENGTH('w) - m) x = drop_bit (n - m) (drop_bit (LENGTH('w) - n) x)" for x :: "'w word"
    using assms(3,4) by (simp add: drop_bit_drop_bit)
  then show ?thesis using assms(1,2) by (simp only: in_net_def fst_conv snd_conv)
qed

lemma internal_not_public_v4:
  assumes "internal_v4 a"
  shows "\<not> public_v4 a"
proof
  assume pub: "public_v4 a"
  obtain p m where pm: "(p, m) \<in> set [(quad 10 0 0 0, 8), (quad 172 16 0 0, 12), (quad 192 168 0 0, 16), (quad 127 0 0 0, 8), (quad 169 254 0 0, 16),
     (quad 100 64 0 0, 10), (quad 0 0 0 0, 8)]" "in_net a (p, m)"
    using assms by (auto simp: internal_v4_def in_nets_def)
  have "(p, m) = SHARED_V4 \<or> (p, m) \<in> set PRIVATE_V4" using pm(1) by (auto simp: SHARED_V4_def PRIVATE_V4_def)
  then have "in_net a SHARED_V4 \<or> in_nets a PRIVATE_V4" using pm(2) by (auto simp: in_nets_def list_ex_iff)
  then have "in_nets a PRIVATE_V4_EXCEPTIONS" using pub by (auto simp: public_v4_def global_v4_def)
  then obtain q where q: "q \<in> {quad 192 0 0 9, quad 192 0 0 10}" "in_net a (q, 32)"
    by (auto simp: in_nets_def PRIVATE_V4_EXCEPTIONS_def)
  have "in_net q (p, m)" by (rule in_net_overlap [OF pm(2) q(2)]) (use pm(1) in auto)
  moreover have "list_all (\<lambda>q. \<not> in_nets q [(quad 10 0 0 0, 8), (quad 172 16 0 0, 12), (quad 192 168 0 0, 16), (quad 127 0 0 0, 8), (quad 169 254 0 0, 16),
     (quad 100 64 0 0, 10), (quad 0 0 0 0, 8)]) [quad 192 0 0 9, quad 192 0 0 10]" by code_simp
  ultimately show False using pm(1) q(1) by (auto simp: in_nets_def list_ex_iff list_all_iff)
qed

lemma blocked_prefixes:
  "drop_bit 32 a = 0 \<Longrightarrow> in_nets a V6_BLOCKED"
  "drop_bit 32 a = 0x64FF9B0000000000000000 \<Longrightarrow> in_nets a V6_BLOCKED"
  "drop_bit 112 a = 0x2002 \<Longrightarrow> in_nets a V6_BLOCKED"
  by (simp_all add: in_nets_def in_net_def groups_def V6_BLOCKED_def)

lemma mapped_high_bits: "drop_bit 32 a = (0xFFFF :: 128 word) \<Longrightarrow> n \<ge> 48 \<Longrightarrow> drop_bit n a = 0"
proof -
  assume "drop_bit 32 a = 0xFFFF" "n \<ge> 48"
  moreover from this(2) have "drop_bit n a = drop_bit (n - 48) (drop_bit 16 (drop_bit 32 a))" by (simp add: drop_bit_drop_bit)
  ultimately show ?thesis by simp
qed

text \<open>Unique-local and link-local addresses are in no exception of the table.\<close>

lemma local_v6_private:
  assumes "in_nets a [(groups 0xFC00 0 0 0 0, 7), (groups 0xFE80 0 0 0 0, 10)]"
  shows "\<not> global_v6 a"
proof
  assume "global_v6 a"
  obtain p m where pm: "(p, m) \<in> set [(groups 0xFC00 0 0 0 0, 7), (groups 0xFE80 0 0 0 0, 10)]" "in_net a (p, m)"
    using assms by (auto simp: in_nets_def)
  then have "in_nets a PRIVATE_V6" by (auto simp: in_nets_def PRIVATE_V6_def)
  then have "in_nets a PRIVATE_V6_EXCEPTIONS" using \<open>global_v6 a\<close> by (simp add: global_v6_def)
  then obtain q n where q: "(q, n) \<in> set PRIVATE_V6_EXCEPTIONS" "in_net a (q, n)" by (auto simp: in_nets_def list_ex_iff)
  have "in_net q (p, m)" by (rule in_net_overlap [OF pm(2) q(2)]) (use pm(1) q(1) in \<open>auto simp: PRIVATE_V6_EXCEPTIONS_def\<close>)
  moreover have "list_all (\<lambda>(q, n). \<not> in_nets q [(groups 0xFC00 0 0 0 0, 7), (groups 0xFE80 0 0 0 0, 10)]) PRIVATE_V6_EXCEPTIONS" by code_simp
  ultimately show False using pm(1) q(1) by (auto simp: in_nets_def list_ex_iff list_all_iff)
qed

lemma internal_not_public: "internal x \<Longrightarrow> \<not> is_public x"
proof (cases x)
  case (V4 a)
  then show "internal x \<Longrightarrow> \<not> is_public x" using internal_not_public_v4 by (simp add: internal_def is_public_def)
next
  case (V6 a)
  assume "internal x"
  show "\<not> is_public x"
  proof (cases "drop_bit 32 a = 0xFFFF")
    case True
    have "\<not> in_nets a [(groups 0xFC00 0 0 0 0, 7), (groups 0xFE80 0 0 0 0, 10)]"
      by (simp add: in_nets_def in_net_def groups_def mapped_high_bits [OF True])
    then have "internal_v4 (ucast a)"
      using \<open>internal x\<close> True V6 mapped_high_bits [OF True, of 112] by (auto simp: internal_def stands_for_def)
    then show ?thesis using V6 True internal_not_public_v4 by (simp add: is_public_def ipv4_mapped_def)
  next
    case False
    then show ?thesis
      using \<open>internal x\<close> V6 local_v6_private blocked_prefixes by (auto simp: internal_def is_public_def ipv4_mapped_def stands_for_def split: if_splits)
  qed
qed

section \<open>Requests stay public\<close>

definition vetted :: "net_env \<Rightarrow> string \<Rightarrow> bool" where
  "vetted env url \<longleftrightarrow> (\<exists>k as. check_url env k url = Inr as \<and> as \<noteq> [] \<and> (\<forall>a \<in> set as. \<exists>x. to_ip a = Some x \<and> is_public x \<and> \<not> internal x))"

lemma check_address_ok: "check_address host a = Inr u \<Longrightarrow> \<exists>x. to_ip a = Some x \<and> is_public x \<and> \<not> internal x"
  using internal_not_public by (auto simp: check_address_def split: if_splits option.splits)

lemma addresses_nonempty: "addresses_of env k parts host = Inr as \<Longrightarrow> as \<noteq> []"
  by (auto simp: addresses_of_def bind_r_Inr split: option.splits list.splits)

lemma check_url_vets: "check_url env k url = Inr as \<Longrightarrow> vetted env url"
proof -
  assume ok: "check_url env k url = Inr as"
  then obtain parts h where p: "addresses_of env k parts h = Inr as" "\<exists>us. map_r (check_address h) as = Inr us"
    by (auto simp: check_url_def bind_r_Inr Let_def split: if_splits option.splits)
  have "\<exists>u. check_address h a = Inr u" if "a \<in> set as" for a
    using p(2) that by (auto simp: map_r_Inr list_all2_conv_all_nth in_set_conv_nth)
  then show ?thesis using ok check_address_ok addresses_nonempty [OF p(1)] unfolding vetted_def by blast
qed

lemma read_body_bounded: "int (length acc) \<le> MAX_RESPONSE_BYTES \<Longrightarrow> read_body acc cs = Inr body \<Longrightarrow> int (length body) \<le> MAX_RESPONSE_BYTES"
proof (induction cs arbitrary: acc)
  case (Cons c cs)
  then show ?case using Cons.IH [of "acc @ c"] by (simp split: if_splits)
qed simp

lemma send_once_bounded: "send_once env k q = Inr r \<Longrightarrow> int (length (hr_body r)) \<le> MAX_RESPONSE_BYTES"
  using read_body_bounded [of "[]"] by (auto simp: send_once_def bind_r_Inr MAX_RESPONSE_BYTES_def)

definition bare :: "http_req \<Rightarrow> bool" where
  "bare q \<longleftrightarrow> (\<forall>(k, v) \<in> set (hq_headers q). str_lower k \<notin> set STRIP_ON_HOST_CHANGE)"

lemma next_request_bare:
  assumes "next_request env q status location = Some q'"
  shows "bare q \<Longrightarrow> bare q'" and "netloc_of (hq_url q') \<noteq> netloc_of (hq_url q) \<Longrightarrow> bare q'"
  using assms by (auto simp: next_request_def bare_def drop_headers_def split: option.splits if_splits)

lemma hops_ok:
  assumes "hops env check n k q = (r, sent)" and "netloc_of (hq_url q) = home \<or> bare q"
  shows "length sent \<le> n \<and> (\<forall>q' \<in> set sent. vetted env (hq_url q') \<and> (netloc_of (hq_url q') = home \<or> bare q')) \<and>
    (\<forall>resp. r = Inr resp \<longrightarrow> int (length (hr_body resp)) \<le> MAX_RESPONSE_BYTES)"
  using assms
proof (induction n arbitrary: k q r sent)
  case (Suc n)
  consider (refused) e where "check_url env k (hq_url q) = Inl e"
    | (unsent) as e where "check_url env k (hq_url q) = Inr as" "send_once env (Suc k) q = Inl e"
    | (last) as a where "check_url env k (hq_url q) = Inr as" "send_once env (Suc k) q = Inr a" "redirects a = None"
    | (stray) as a l where "check_url env k (hq_url q) = Inr as" "send_once env (Suc k) q = Inr a" "redirects a = Some l"
        "next_request env q (hr_status a) l = None"
    | (hop) as a l q' where "check_url env k (hq_url q) = Inr as" "send_once env (Suc k) q = Inr a" "redirects a = Some l"
        "next_request env q (hr_status a) l = Some q'"
    by (meson not_None_eq sum.exhaust)
  then show ?case
  proof cases
    case (last as a)
    then show ?thesis using Suc.prems check_url_vets [OF last(1)] send_once_bounded [OF last(2)]
      by (auto simp: ensure_ok_def split: if_splits)
  next
    case (hop as a l q')
    obtain res more where rest: "hops env check n (Suc (Suc k)) q' = (res, more)" by fastforce
    have "netloc_of (hq_url q') = home \<or> bare q'" using next_request_bare [OF hop(4)] Suc.prems(2) by metis
    from Suc.IH [OF rest this] show ?thesis using Suc.prems hop rest check_url_vets [OF hop(1)] by auto
  qed (use Suc.prems check_url_vets in auto)
qed simp

lemma requests_ok: "safe_request env check k q = (r, sent) \<Longrightarrow> q' \<in> set sent \<Longrightarrow> vetted env (hq_url q')"
  unfolding safe_request_def using hops_ok [of env check _ k q r sent "netloc_of (hq_url q)"] by blast

text \<open>
  C8: Whatever the name servers and the servers answer, a request of the connectors goes only to URLs that were checked before it was sent, with
  every address public and none private, local or standing for such an address; it makes at most one request more than
  the allowed redirects; a request to another host carries no credentials; and a reply is never larger than the limit.
\<close>

theorem requests_stay_public:
  assumes "safe_request env check k q = (r, sent)"
  shows "length sent \<le> Suc (ne_max_redirects env) \<and>
    (\<forall>q' \<in> set sent. vetted env (hq_url q') \<and> (netloc_of (hq_url q') = netloc_of (hq_url q) \<or> bare q')) \<and>
    (\<forall>resp. r = Inr resp \<longrightarrow> int (length (hr_body resp)) \<le> MAX_RESPONSE_BYTES)"
  using hops_ok [OF assms [unfolded safe_request_def]] by blast

section \<open>A redirect\<close>

definition hop_env :: net_env where
  "hop_env = \<lparr>ne_resolve = (\<lambda>k h p. Some [if h = ''a.example'' then ''8.8.8.8'' else if h = ''b.example'' \<or> h = ''c.example'' then ''9.9.9.9'' else ''10.0.0.1'']),
     ne_join = (\<lambda>u l. Some l),
     ne_send = (\<lambda>k q. if hq_url q = ''https://a.example/'' then Inr (302, [(''Location'', ''https://b.example/'')], [])
       else if hq_url q = ''https://c.example/'' then Inr (302, [(''Location'', ''http://[::1'')], []) else Inr (200, [], [''ok''])),
     ne_allowlist = None, ne_max_redirects = 3\<rparr>"

definition get_with_token :: "string \<Rightarrow> http_req" where
  "get_with_token url = \<lparr>hq_method = ''GET'', hq_url = url, hq_headers = [(''Authorization'', ''t''), (''Accept'', ''x'')], hq_content = None, hq_params = None\<rparr>"

definition sent_by :: "string \<Rightarrow> (string \<times> string dict) list" where
  "sent_by url = map (\<lambda>q. (hq_url q, hq_headers q)) (snd (safe_request hop_env True 0 (get_with_token url)))"

lemma redirect_followed:
  "sent_by ''https://a.example/'' = [(''https://a.example/'', [(''Authorization'', ''t''), (''Accept'', ''x'')]), (''https://b.example/'', [(''Accept'', ''x'')])]"
  by code_simp

theorem requests_stay_public_witness:
  "sent_by ''https://a.example/'' \<noteq> [] \<and> list_all (\<lambda>(url, hs). vetted hop_env url) (sent_by ''https://a.example/'')"
  using requests_stay_public [of hop_env True 0 "get_with_token ''https://a.example/''"] redirect_followed
  unfolding sent_by_def list_all_iff by (cases "safe_request hop_env True 0 (get_with_token ''https://a.example/'')") auto

lemma private_answer_refused: "sent_by ''https://internal.example/'' = []"
  by code_simp

text \<open>Other spellings of a local address are recognised.\<close>

lemma odd_spellings_refused:
  "list_all (\<lambda>u. sent_by u = []) [''http://0x7f000001/'', ''http://0177.0.0.1/'', ''http://127.1/'', ''http://2130706433/'', ''http://[::ffff:10.0.0.1]/'',
     ''http://[64:ff9b::7f00:1]/'', ''http://localhost./'', ''http://u@8.8.8.8/'', ''ftp://8.8.8.8/'']"
  by code_simp

end
