(* ===== verification/Connectors.thy ===== *)
theory Connectors
  imports Ssrf Secret_Guard Memory
begin

text \<open>
  Connectors: the contract for actions (\<open>connectors/base.py\<close>), inbound events (\<open>connectors/webhooks.py\<close>, \<open>connectors/envelope.py\<close>) and outgoing
  deliveries (\<open>connectors/outbound.py\<close>). The concrete services behind a connector are parameters: what it says about a signature, how it reads a
  body, whether an object exists already and what an action returns. Keyed hashes, JSON and the clock are parameters too; times are
  microseconds, which the fixed-width UTC texts of the code order in the same way.

  Shown: an action that needs an approval contacts the service only with a grant for it, and one with an effect is executed only if
  reconciliation found nothing; an event is accepted at most once and only with a valid signature; however workers interleave and die, each
  sending of a delivery was counted before, and with workers that keep their leases the attempts stay within the limit of the retry policy. And
  what the code does not prevent.
\<close>

section \<open>Actions\<close>

definition SAFE_EFFECTS :: "side_effect list" where
  "SAFE_EFFECTS = [PURE, READ_ONLY, NETWORK_READ]"

definition KEY :: rx where
  "KEY = Sq (Rep 1 (Some 128) (Cls (\<lambda>c. is_alnum c \<or> c \<in> set ''._:-''))) AtEnd"

definition NAME :: rx where
  "NAME = Sq (Cls is_lower) (Sq (Rep 0 (Some 63) (Cls (\<lambda>c. is_lower c \<or> is_digit c \<or> c \<in> set ''_.-''))) AtEnd)"

text \<open>\<open>pattern.match\<close>: a match at the start.\<close>

definition matches_start :: "rx \<Rightarrow> string \<Rightarrow> bool" where
  "matches_start r s \<longleftrightarrow> matches r (None, s) \<noteq> []"

record action_spec =
  as_name :: string
  as_effect :: side_effect
  as_requires_approval :: bool

record connector_spec =
  cs_name :: string
  cs_version :: string
  cs_triggers :: "string list"
  cs_actions :: "action_spec list"
  cs_scopes :: "string list"

text \<open>The two \<open>__post_init__\<close>: \<open>None\<close> where they raise.\<close>

definition make_action_spec :: "string \<Rightarrow> side_effect \<Rightarrow> bool \<Rightarrow> action_spec option" where
  "make_action_spec name eff req =
     (if \<not> req \<and> eff \<notin> set SAFE_EFFECTS then None else Some \<lparr>as_name = name, as_effect = eff, as_requires_approval = req\<rparr>)"

definition make_connector_spec :: "string \<Rightarrow> string \<Rightarrow> string list \<Rightarrow> action_spec list \<Rightarrow> string list \<Rightarrow> connector_spec option" where
  "make_connector_spec name version triggers actions scopes =
     (if \<not> matches_start NAME name \<or> \<not> distinct (map as_name actions) then None
      else Some \<lparr>cs_name = name, cs_version = version, cs_triggers = triggers, cs_actions = actions, cs_scopes = scopes\<rparr>)"

definition find_action :: "connector_spec \<Rightarrow> string \<Rightarrow> action_spec option" where
  "find_action s name = find (\<lambda>a. as_name a = name) (cs_actions s)"

record approval_grant =
  gr_action :: string
  gr_key :: string
  gr_decided_by :: string
  gr_expires_at :: "int option"

text \<open>\<open>gr_expires_at\<close> is \<open>None\<close> for a time without a zone.\<close>

definition check_grant :: "action_spec \<Rightarrow> string \<Rightarrow> approval_grant option \<Rightarrow> int \<Rightarrow> py_exception + unit" where
  "check_grant s key grant now =
     (case grant of None \<Rightarrow> Inl (PatchQuestError COMMAND_DENIED (as_name s @ '' needs an approval grant'') None)
      | Some g \<Rightarrow>
         if gr_action g \<noteq> as_name s \<or> gr_key g \<noteq> key then Inl (PatchQuestError COMMAND_DENIED ''grant is not for this action'' None)
         else if gr_decided_by g = [] then Inl (PatchQuestError COMMAND_DENIED ''grant has no approver'' None)
         else if (case gr_expires_at g of None \<Rightarrow> True | Some t \<Rightarrow> t \<le> now)
         then Inl (PatchQuestError COMMAND_DENIED ''grant is expired or has no timezone'' None)
         else Inr ())"

record action_result =
  ar_external_id :: string
  ar_url :: "string option"
  ar_created :: bool
  ar_data :: "pyval dict"

datatype contact = Looked string | Executed string string

record connector =
  cn_spec :: connector_spec
  cn_check :: "string \<Rightarrow> pyval dict \<Rightarrow> py_exception option"
  cn_find_existing :: "string \<Rightarrow> py_exception + action_result option"
  cn_execute :: "string \<Rightarrow> pyval dict \<Rightarrow> string \<Rightarrow> py_exception + action_result"

text \<open>\<open>perform\<close>, with the calls to the service that it made.\<close>

definition perform_action :: "connector \<Rightarrow> int \<Rightarrow> string \<Rightarrow> pyval dict \<Rightarrow> string \<Rightarrow> approval_grant option
    \<Rightarrow> (py_exception + action_result) \<times> contact list" where
  "perform_action c now name args key grant =
     (case find_action (cn_spec c) name of None \<Rightarrow> (Inl (OtherException ''ValueError''), [])
      | Some s \<Rightarrow>
        if \<not> matches_start KEY key then (Inl (OtherException ''ValueError''), [])
        else (case (if as_requires_approval s then check_grant s key grant now else Inr ()) of Inl e \<Rightarrow> (Inl e, [])
          | Inr _ \<Rightarrow> (case cn_check c name args of Some e \<Rightarrow> (Inl e, [])
            | None \<Rightarrow>
              if as_effect s \<in> set SAFE_EFFECTS then (cn_execute c name args key, [Executed name key])
              else (case cn_find_existing c key of Inl e \<Rightarrow> (Inl e, [Looked key])
                | Inr (Some r) \<Rightarrow> (Inr \<lparr>ar_external_id = ar_external_id r, ar_url = ar_url r, ar_created = False, ar_data = []\<rparr>, [Looked key])
                | Inr None \<Rightarrow> (cn_execute c name args key, [Looked key, Executed name key])))))"

section \<open>Inbound events\<close>

datatype signature_status = S_VERIFIED | S_UNVERIFIED | S_INVALID | S_NOT_APPLICABLE

record envelope =
  en_source :: string
  en_type :: string
  en_external_id :: string
  en_timestamp :: int
  en_workspace :: string
  en_actor :: "string option"
  en_payload :: "pyval dict"
  en_signature :: signature_status

definition MAX_PAYLOAD_BYTES :: int where "MAX_PAYLOAD_BYTES = 262144"
definition MAX_BODY_BYTES :: int where "MAX_BODY_BYTES = 1048576"
definition SLACK_TOLERANCE_S :: rat where "SLACK_TOLERANCE_S = 300"

text \<open>The constraints on the fields; \<open>dump\<close> is the compact JSON of a payload, \<open>None\<close> where it cannot be written.\<close>

definition envelope_ok :: "(pyval dict \<Rightarrow> string option) \<Rightarrow> envelope \<Rightarrow> bool" where
  "envelope_ok dump e \<longleftrightarrow>
     1 \<le> length (en_source e) \<and> length (en_source e) \<le> 64 \<and> list_all (\<lambda>c. is_lower c \<or> is_digit c \<or> c \<in> set ''_.-'') (en_source e) \<and>
     1 \<le> length (en_type e) \<and> length (en_type e) \<le> 128 \<and> 1 \<le> length (en_external_id e) \<and> length (en_external_id e) \<le> 256 \<and>
     1 \<le> length (en_workspace e) \<and> length (en_workspace e) \<le> 128 \<and> (case en_actor e of None \<Rightarrow> True | Some a \<Rightarrow> length a \<le> 256) \<and>
     (case dump (en_payload e) of None \<Rightarrow> False | Some s \<Rightarrow> int (length s) \<le> MAX_PAYLOAD_BYTES)"

definition hmac_hex :: "(string \<Rightarrow> string \<Rightarrow> string) \<Rightarrow> string \<Rightarrow> string \<Rightarrow> py_exception + string" where
  "hmac_hex mac secret message = (if secret = [] then Inl (OtherException ''ValueError'') else Inr (mac secret message))"

text \<open>The headers with names in lower case; of two that only differ in case the later one counts.\<close>

definition lowered :: "string dict \<Rightarrow> string dict" where
  "lowered hs = foldl (\<lambda>d (k, v). AList.update (str_lower k) v d) [] hs"

definition compare_mac :: "(string \<Rightarrow> string \<Rightarrow> string) \<Rightarrow> string \<Rightarrow> string \<Rightarrow> string \<Rightarrow> py_exception + signature_status" where
  "compare_mac mac secret message presented =
     bind_r (hmac_hex mac secret message) (\<lambda>h. Inr (if h = presented then S_VERIFIED else S_INVALID))"

definition verify_github_signature :: "(string \<Rightarrow> string \<Rightarrow> string) \<Rightarrow> string \<Rightarrow> string dict \<Rightarrow> string \<Rightarrow> py_exception + signature_status" where
  "verify_github_signature mac secret headers body =
     (case map_of (lowered headers) ''x-hub-signature-256'' of None \<Rightarrow> Inr S_UNVERIFIED
      | Some p \<Rightarrow> if \<not> prefix ''sha256='' p then Inr S_INVALID else compare_mac mac secret body (drop 7 p))"

definition verify_slack_signature :: "(string \<Rightarrow> string \<Rightarrow> string) \<Rightarrow> (string \<Rightarrow> int option) \<Rightarrow> string \<Rightarrow> string dict \<Rightarrow> string \<Rightarrow> rat \<Rightarrow> rat
    \<Rightarrow> py_exception + signature_status" where
  "verify_slack_signature mac parse_int secret headers body now tolerance =
     (case (map_of (lowered headers) ''x-slack-request-timestamp'', map_of (lowered headers) ''x-slack-signature'') of
        (Some stamp, Some p) \<Rightarrow>
          (case parse_int stamp of None \<Rightarrow> Inr S_INVALID
           | Some t \<Rightarrow> if \<bar>now - of_int t\<bar> > tolerance \<or> \<not> prefix ''v0='' p then Inr S_INVALID
               else compare_mac mac secret (''v0:'' @ stamp @ '':'' @ body) (drop 3 p))
      | _ \<Rightarrow> Inr S_UNVERIFIED)"

record inbound_row =
  ew_workspace :: string
  ew_source :: string
  ew_external_id :: string
  ew_received_at :: int
  ew_status :: string
  ew_run :: "string option"

definition event_key :: "inbound_row \<Rightarrow> string \<times> string \<times> string" where
  "event_key r = (ew_workspace r, ew_source r, ew_external_id r)"

datatype received = Accepted envelope | Duplicate string string string "string option" | Rejected string

datatype normalize_error = Unsupported | Malformed

record source_env =
  so_verify :: "string dict \<Rightarrow> string \<Rightarrow> py_exception + signature_status"
  so_normalize :: "string \<Rightarrow> string dict \<Rightarrow> normalize_error + envelope"

definition envelope_key :: "envelope \<Rightarrow> string \<times> string \<times> string" where
  "envelope_key e = (en_workspace e, en_source e, en_external_id e)"

definition receive :: "source_env \<Rightarrow> int \<Rightarrow> int \<Rightarrow> inbound_row list \<Rightarrow> string dict \<Rightarrow> string \<Rightarrow> (py_exception + received) \<times> inbound_row list" where
  "receive so max_body now rows headers body =
     (if int (length body) > max_body then (Inr (Rejected ''body_too_large''), rows)
      else (case so_verify so headers body of Inl e \<Rightarrow> (Inl e, rows)
        | Inr st \<Rightarrow>
          if st = S_UNVERIFIED then (Inr (Rejected ''unverified_signature''), rows)
          else if st = S_INVALID then (Inr (Rejected ''invalid_signature''), rows)
          else (case so_normalize so body headers of
              Inl Unsupported \<Rightarrow> (Inr (Rejected ''unsupported_event''), rows)
            | Inl Malformed \<Rightarrow> (Inr (Rejected ''malformed''), rows)
            | Inr e \<Rightarrow> (case find_row event_key (envelope_key e) rows of
                None \<Rightarrow> (Inr (Accepted e), rows @ [\<lparr>ew_workspace = en_workspace e, ew_source = en_source e, ew_external_id = en_external_id e,
                    ew_received_at = now, ew_status = ''RECEIVED'', ew_run = None\<rparr>])
              | Some r \<Rightarrow> (Inr (Duplicate (en_source e) (en_external_id e) (ew_status r) (ew_run r)), rows)))))"

definition EVENT_STATUSES :: "string list" where
  "EVENT_STATUSES = [''RECEIVED'', ''STARTED'', ''IGNORED'']"

text \<open>An unknown event raises \<open>KeyError\<close>.\<close>

definition record_event_outcome :: "inbound_row list \<Rightarrow> string \<times> string \<times> string \<Rightarrow> string \<Rightarrow> string option \<Rightarrow> py_exception + inbound_row list" where
  "record_event_outcome rows k status run =
     (if status \<notin> set EVENT_STATUSES then Inl (OtherException ''ValueError'')
      else if \<not> has_row event_key k rows then Inl (OtherException ''KeyError'')
      else Inr (update_row event_key k (\<lambda>r. r\<lparr>ew_status := status, ew_run := run\<rparr>) rows))"

section \<open>Outgoing deliveries\<close>

datatype delivery_status = D_PENDING | D_DELIVERED | D_DEAD

record delivery =
  dl_id :: string
  dl_url :: string
  dl_event :: string
  dl_body :: string
  dl_attempts :: nat
  dl_next :: int
  dl_status :: delivery_status
  dl_error :: "string option"
  dl_created :: int

record out_env =
  ob_net :: net_env
  ob_secret :: "nat \<Rightarrow> string option"
  ob_policy :: retry_policy
  ob_uniform :: "nat \<Rightarrow> rat \<Rightarrow> rat"
  ob_clock :: "nat \<Rightarrow> int"
  ob_mac :: "string \<Rightarrow> string \<Rightarrow> string"
  ob_stamp :: "int \<Rightarrow> string"
  ob_parse_float :: "string \<Rightarrow> pyfloat option"
  ob_show_status :: "nat \<Rightarrow> string"
  ob_describe :: "failure \<Rightarrow> string"

definition CLAIM_LEASE :: int where "CLAIM_LEASE = 300000000"
definition MAX_DELIVERY_BYTES :: int where "MAX_DELIVERY_BYTES = 262144"

definition new_delivery :: "string \<Rightarrow> string \<Rightarrow> string \<Rightarrow> string \<Rightarrow> int \<Rightarrow> delivery" where
  "new_delivery i url ty body now = \<lparr>dl_id = i, dl_url = url, dl_event = ty, dl_body = body, dl_attempts = 0, dl_next = now,
     dl_status = D_PENDING, dl_error = None, dl_created = now\<rparr>"

text \<open>\<open>enqueue\<close>: the URL and the secret are checked first. \<open>i\<close> is the new uuid.\<close>

definition enqueue_delivery :: "out_env \<Rightarrow> nat \<Rightarrow> string \<Rightarrow> delivery list \<Rightarrow> string \<Rightarrow> string \<Rightarrow> string \<Rightarrow> py_exception + delivery list" where
  "enqueue_delivery env k i rows url ty body =
     bind_r (check_url (ob_net env) k url) (\<lambda>as.
       case ob_secret env k of None \<Rightarrow> Inl (PatchQuestError ENVIRONMENT_FAILURE ''credential is not set'' None)
       | Some s \<Rightarrow> if int (length body) > MAX_DELIVERY_BYTES then Inl (OtherException ''ValueError'')
           else Inr (rows @ [new_delivery i url ty body (ob_clock env k)]))"

definition signed_request :: "out_env \<Rightarrow> nat \<Rightarrow> string \<Rightarrow> delivery \<Rightarrow> http_req" where
  "signed_request env k secret d =
     (let stamp = ob_stamp env (ob_clock env k) in
      \<lparr>hq_method = ''POST'', hq_url = dl_url d,
       hq_headers = [(''Content-Type'', ''application/json''), (''X-PatchQuest-Delivery'', dl_id d), (''X-PatchQuest-Event'', dl_event d),
         (''X-PatchQuest-Timestamp'', stamp), (''X-PatchQuest-Signature'', ''sha256='' @ ob_mac env secret (stamp @ ''.'' @ dl_body d))],
       hq_content = Some (dl_body d), hq_params = None\<rparr>)"

definition send_delivery :: "out_env \<Rightarrow> nat \<Rightarrow> delivery \<Rightarrow> (py_exception + unit) \<times> http_req list" where
  "send_delivery env k d =
     (case ob_secret env k of None \<Rightarrow> (Inl (PatchQuestError ENVIRONMENT_FAILURE ''credential is not set'' None), [])
      | Some s \<Rightarrow> (case safe_request (ob_net env) True k (signed_request env k s d) of
          (Inl e, sent) \<Rightarrow> (Inl e, sent) | (Inr r, sent) \<Rightarrow> (Inr (), sent)))"

text \<open>The \<open>UPDATE\<close> that claims a due delivery counts the attempt.\<close>

definition due :: "int \<Rightarrow> delivery \<Rightarrow> bool" where
  "due now d \<longleftrightarrow> dl_status d = D_PENDING \<and> dl_next d \<le> now"

definition claim_one :: "int \<Rightarrow> delivery \<Rightarrow> delivery" where
  "claim_one now d = (if due now d then d\<lparr>dl_attempts := Suc (dl_attempts d), dl_next := now + CLAIM_LEASE\<rparr> else d)"

definition claim_delivery :: "int \<Rightarrow> delivery list \<Rightarrow> string \<Rightarrow> bool \<times> delivery list" where
  "claim_delivery now rows i =
     (list_ex (\<lambda>d. dl_id d = i \<and> due now d) rows, update_row dl_id i (claim_one now) rows)"

definition finish_one :: "delivery_status \<times> string option \<times> int option \<Rightarrow> delivery \<Rightarrow> delivery" where
  "finish_one f d = (case f of (st, err, nxt) \<Rightarrow>
     d\<lparr>dl_status := st, dl_error := err, dl_next := (case nxt of None \<Rightarrow> dl_next d | Some t \<Rightarrow> t)\<rparr>)"

definition finish_delivery :: "delivery list \<Rightarrow> string \<Rightarrow> delivery_status \<times> string option \<times> int option \<Rightarrow> delivery list" where
  "finish_delivery rows i f = update_row dl_id i (finish_one f) rows"

text \<open>\<open>except (httpx.HTTPError, PatchQuestError)\<close>.\<close>

definition caught :: "py_exception \<Rightarrow> bool" where
  "caught e = (case e of PatchQuestError k d r \<Rightarrow> True | HTTPStatusError s b h \<Rightarrow> True | TimeoutException d \<Rightarrow> True | TransportError d \<Rightarrow> True | _ \<Rightarrow> False)"

text \<open>\<open>timedelta(seconds=...)\<close>: \<open>None\<close> where it raises, for an infinite delay or one that is not a number.\<close>

definition micros :: "pyfloat \<Rightarrow> int option" where
  "micros x = (case x of Fin r \<Rightarrow> Some (round_even (r * 1000000)) | _ \<Rightarrow> None)"

text \<open>What is stored after an exception of the \<open>n\<close>-th attempt; \<open>None\<close>: another exception is raised before anything is stored.\<close>

definition after_failure :: "out_env \<Rightarrow> nat \<Rightarrow> nat \<Rightarrow> py_exception \<Rightarrow> (delivery_status \<times> string option \<times> int option) option" where
  "after_failure env k n e =
     (let fl = classify_exception (ob_parse_float env) (ob_show_status env) O_CONNECTOR e;
          d = decide_retry (ob_uniform env k) fl n (ob_policy env) True False None;
          err = take 500 (redact_secrets (ob_describe env fl)) in
      if \<not> caught e then None
      else if rd_retry d then map_option (\<lambda>t. (D_PENDING, Some err, Some (ob_clock env (Suc k) + t))) (micros (rd_delay d))
      else Some (D_DEAD, Some err, None))"

text \<open>
  \<open>_attempt\<close> uses two transactions with the request between them. \<open>claim_row\<close>: the claim, and the row as it is read back when the claim was
  won; \<open>settlement\<close>: what the last transaction stores, \<open>None\<close> if an exception escapes before it.
\<close>

definition claim_row :: "out_env \<Rightarrow> nat \<Rightarrow> delivery list \<Rightarrow> string \<Rightarrow> delivery option \<times> delivery list" where
  "claim_row env k rows i =
     (case claim_delivery (ob_clock env k) rows i of (won, rows1) \<Rightarrow> (if won then find_row dl_id i rows1 else None, rows1))"

definition settlement :: "out_env \<Rightarrow> nat \<Rightarrow> delivery \<Rightarrow> py_exception + unit \<Rightarrow> (delivery_status \<times> string option \<times> int option) option" where
  "settlement env k d res = (case res of Inr _ \<Rightarrow> Some (D_DELIVERED, None, None) | Inl e \<Rightarrow> after_failure env k (dl_attempts d) e)"

text \<open>The attempt of one worker that no other one interferes with: whether the delivery was claimed (or the exception that escapes), the
  table, and the requests that were sent.\<close>

definition attempt :: "out_env \<Rightarrow> nat \<Rightarrow> delivery list \<Rightarrow> string \<Rightarrow> (py_exception + bool) \<times> delivery list \<times> http_req list" where
  "attempt env k rows i =
     (case claim_row env k rows i of (None, rows1) \<Rightarrow> (Inr False, rows1, [])
      | (Some d, rows1) \<Rightarrow> (case send_delivery env k d of (res, sent) \<Rightarrow>
          (case settlement env k d res of Some f \<Rightarrow> (Inr True, finish_delivery rows1 i f, sent)
           | None \<Rightarrow> (map_sum id (\<lambda>_. True) res, rows1, sent))))"

definition due_ids :: "int \<Rightarrow> nat \<Rightarrow> delivery list \<Rightarrow> string list" where
  "due_ids now limit rows = map dl_id (take limit (sort_key dl_next (filter (due now) rows)))"

text \<open>The loop of \<open>deliver_due\<close>; an exception ends it.\<close>

primrec deliver_all :: "out_env \<Rightarrow> (nat \<Rightarrow> nat) \<Rightarrow> nat \<Rightarrow> delivery list \<Rightarrow> string list \<Rightarrow> (py_exception + string list) \<times> delivery list" where
  "deliver_all env tick n rows [] = (Inr [], rows)"
| "deliver_all env tick n rows (i # is) =
     (case attempt env (tick n) rows i of (Inl e, rows', sent) \<Rightarrow> (Inl e, rows')
      | (Inr b, rows', sent) \<Rightarrow> (case deliver_all env tick (Suc n) rows' is of (r, rows'') \<Rightarrow>
          (map_sum id (\<lambda>done. if b then i # done else done) r, rows'')))"

definition deliver_due :: "out_env \<Rightarrow> (nat \<Rightarrow> nat) \<Rightarrow> nat \<Rightarrow> delivery list \<Rightarrow> (py_exception + string list) \<times> delivery list" where
  "deliver_due env tick limit rows = deliver_all env tick 1 rows (due_ids (ob_clock env (tick 0)) limit rows)"

section \<open>Effects need a grant\<close>

text \<open>
  C9: Whenever an action contacts the service at all (to look for an earlier result or to execute), the action is declared by the connector, the
  idempotency key is well formed and the connector's own check passed. If the action is declared to require an approval, and every action with an
  effect outside \<open>SAFE_EFFECTS\<close> has to be, then there is a grant for this action and this key, with an approver and not yet expired. An action with
  such an effect first looks, and executes only if the look-up found nothing.
\<close>

theorem external_effects_need_a_grant:
  assumes "perform_action c now name args key grant = (r, calls)" and "calls \<noteq> []"
    and "\<forall>s \<in> set (cs_actions (cn_spec c)). make_action_spec (as_name s) (as_effect s) (as_requires_approval s) = Some s"
  shows "\<exists>s. find_action (cn_spec c) name = Some s \<and> matches_start KEY key \<and> cn_check c name args = None \<and>
    (as_requires_approval s \<or> as_effect s \<notin> set SAFE_EFFECTS \<longrightarrow>
      (\<exists>g t. grant = Some g \<and> gr_action g = name \<and> gr_key g = key \<and> gr_decided_by g \<noteq> [] \<and> gr_expires_at g = Some t \<and> now < t)) \<and>
    (as_effect s \<notin> set SAFE_EFFECTS \<longrightarrow> calls = Looked key # (if cn_find_existing c key = Inr None then [Executed name key] else [])) \<and>
    (as_effect s \<in> set SAFE_EFFECTS \<longrightarrow> calls = [Executed name key])"
proof -
  obtain s where s: "find_action (cn_spec c) name = Some s" using assms(1,2) by (auto simp: perform_action_def split: option.splits)
  then have "as_name s = name" "s \<in> set (cs_actions (cn_spec c))" by (auto simp: find_action_def find_Some_iff)
  moreover have "as_effect s \<notin> set SAFE_EFFECTS \<Longrightarrow> as_requires_approval s"
    using assms(3) calculation(2) by (auto simp: make_action_spec_def split: if_splits dest!: bspec)
  ultimately show ?thesis using assms(1,2) s
    by (auto simp: perform_action_def check_grant_def split: if_splits option.splits sum.splits)
qed

definition comment_spec :: action_spec where
  "comment_spec = \<lparr>as_name = ''comment'', as_effect = EXTERNAL_WRITE, as_requires_approval = True\<rparr>"

definition demo_connector :: connector where
  "demo_connector = \<lparr>cn_spec = \<lparr>cs_name = ''github'', cs_version = ''1'', cs_triggers = [], cs_actions = [comment_spec], cs_scopes = []\<rparr>,
     cn_check = (\<lambda>_ _. None), cn_find_existing = (\<lambda>k. Inr None),
     cn_execute = (\<lambda>_ _ _. Inr \<lparr>ar_external_id = ''1'', ar_url = None, ar_created = True, ar_data = []\<rparr>)\<rparr>"

definition demo_grant :: approval_grant where
  "demo_grant = \<lparr>gr_action = ''comment'', gr_key = ''k1'', gr_decided_by = ''user:u'', gr_expires_at = Some 10\<rparr>"

theorem external_effects_need_a_grant_witness:
  "snd (perform_action demo_connector 5 ''comment'' [] ''k1'' (Some demo_grant)) = [Looked ''k1'', Executed ''comment'' ''k1''] \<and>
   cn_check demo_connector ''comment'' [] = None \<and> gr_expires_at demo_grant = Some 10 \<and> matches_start KEY ''k1''"
proof -
  have calls: "snd (perform_action demo_connector 5 ''comment'' [] ''k1'' (Some demo_grant)) = [Looked ''k1'', Executed ''comment'' ''k1'']" by code_simp
  have "\<forall>s \<in> set (cs_actions (cn_spec demo_connector)). make_action_spec (as_name s) (as_effect s) (as_requires_approval s) = Some s"
    by (simp add: demo_connector_def comment_spec_def make_action_spec_def)
  from external_effects_need_a_grant [OF prod.collapse [symmetric] _ this, of 5 "''comment''" "[]" "''k1''" "Some demo_grant"]
  show ?thesis using calls by (auto simp: demo_grant_def)
qed

text \<open>The pattern for keys ends in a dollar sign, which also matches before a final newline.\<close>

theorem key_may_end_in_newline: "matches_start KEY [CHR ''k'', CHR 0x0A]"
  by code_simp

section \<open>Events are accepted once\<close>

datatype event_op = Receive source_env int int "string dict" string | Outcome "string \<times> string \<times> string" string "string option"

fun accepted :: "inbound_row list \<Rightarrow> event_op \<Rightarrow> envelope option \<times> inbound_row list" where
  "accepted rows (Receive so max_body now headers body) =
     (case receive so max_body now rows headers body of (Inr (Accepted e), rows') \<Rightarrow> (Some e, rows') | (_, rows') \<Rightarrow> (None, rows'))"
| "accepted rows (Outcome k st run) = (None, case record_event_outcome rows k st run of Inl e \<Rightarrow> rows | Inr rows' \<Rightarrow> rows')"

fun event_run :: "inbound_row list \<Rightarrow> event_op list \<Rightarrow> (event_op \<times> envelope) list \<times> inbound_row list" where
  "event_run rows [] = ([], rows)"
| "event_run rows (o' # ops) =
     (case accepted rows o' of (got, rows1) \<Rightarrow> (case event_run rows1 ops of (acc, rows2) \<Rightarrow>
        ((case got of None \<Rightarrow> acc | Some e \<Rightarrow> (o', e) # acc), rows2)))"

fun authentic :: "event_op \<Rightarrow> envelope \<Rightarrow> bool" where
  "authentic (Receive so max_body now headers body) e \<longleftrightarrow> int (length body) \<le> max_body \<and>
     so_verify so headers body \<in> {Inr S_VERIFIED, Inr S_NOT_APPLICABLE} \<and> so_normalize so body headers = Inr e"
| "authentic (Outcome k st run) e \<longleftrightarrow> False"

interpretation outcomes: row_update event_key "\<lambda>(st, run) r. r\<lparr>ew_status := st, ew_run := run\<rparr>"
  by unfold_locales (auto simp: event_key_def)

lemma accepted_keys:
  assumes "accepted rows o' = (got, rows')"
  shows "event_key ` set rows' = event_key ` set rows \<union> envelope_key ` set_option got"
    and "got = Some e \<Longrightarrow> authentic o' e \<and> envelope_key e \<notin> event_key ` set rows"
proof -
  have "event_key ` set rows' = event_key ` set rows \<union> envelope_key ` set_option got \<and>
    (got = Some e \<longrightarrow> authentic o' e \<and> envelope_key e \<notin> event_key ` set rows)"
  proof (cases o')
    case (Receive so mb now hs body)
    show ?thesis
      using assms Receive
      by (auto simp: receive_def event_key_def envelope_key_def find_row_def find_None_iff
          split: if_splits sum.splits option.splits normalize_error.splits)
        (metis signature_status.exhaust)
  next
    case (Outcome k st run)
    have "map event_key (update_row event_key k (\<lambda>r. r\<lparr>ew_status := st, ew_run := run\<rparr>) rows) = map event_key rows"
      using outcomes.keys_update [of k "(st, run)" rows] by simp
    then have "event_key ` set (update_row event_key k (\<lambda>r. r\<lparr>ew_status := st, ew_run := run\<rparr>) rows) = event_key ` set rows"
      by (metis list.set_map)
    then show ?thesis using assms Outcome by (auto simp: record_event_outcome_def split: if_splits)
  qed
  then show "event_key ` set rows' = event_key ` set rows \<union> envelope_key ` set_option got"
    and "got = Some e \<Longrightarrow> authentic o' e \<and> envelope_key e \<notin> event_key ` set rows" by auto
qed

text \<open>
  C37: However deliveries of events and records of their outcome follow each other, redeliveries included, an event of a source is accepted at most
  once, never if it was stored before, and only if the source's check of the signature did not refuse it and its body could be
  read.
\<close>

theorem events_are_accepted_once:
  assumes "event_run rows ops = (acc, rows')"
  shows "distinct (map (\<lambda>(o', e). envelope_key e) acc) \<and>
    (\<forall>(o', e) \<in> set acc. o' \<in> set ops \<and> authentic o' e \<and> envelope_key e \<notin> event_key ` set rows)"
  using assms
proof (induction ops arbitrary: rows acc rows')
  case (Cons o' ops)
  obtain got rows1 acc1 where r: "accepted rows o' = (got, rows1)" "event_run rows1 ops = (acc1, rows')"
      "acc = (case got of None \<Rightarrow> acc1 | Some e \<Rightarrow> (o', e) # acc1)"
    using Cons.prems by (auto split: prod.splits)
  have rest: "distinct (map (\<lambda>(o', e). envelope_key e) acc1) \<and>
      (\<forall>(o'', e) \<in> set acc1. o'' \<in> set ops \<and> authentic o'' e \<and> envelope_key e \<notin> event_key ` set rows \<union> envelope_key ` set_option got)"
    using Cons.IH [OF r(2)] unfolding accepted_keys(1) [OF r(1)] .
  show ?case
  proof (cases got)
    case (Some e)
    then show ?thesis using rest r(3) accepted_keys(2) [OF r(1) Some] by fastforce
  qed (use rest r(3) in auto)
qed simp

definition push_source :: source_env where
  "push_source = \<lparr>so_verify = verify_github_signature (\<lambda>s m. s @ m) ''k'',
     so_normalize = (\<lambda>body hs. Inr \<lparr>en_source = ''github'', en_type = ''push'', en_external_id = body, en_timestamp = 0, en_workspace = ''w'',
       en_actor = None, en_payload = [], en_signature = S_VERIFIED\<rparr>)\<rparr>"

definition deliveries_of :: "(string \<times> string) list \<Rightarrow> event_op list" where
  "deliveries_of = map (\<lambda>(sig, body). Receive push_source MAX_BODY_BYTES 0 [(''X-Hub-Signature-256'', ''sha256='' @ sig)] body)"

text \<open>The same event three times, the first with a wrong signature: it is accepted once.\<close>

theorem events_are_accepted_once_witness:
  "map (\<lambda>(o', e). envelope_key e) (fst (event_run [] (deliveries_of [(''bad'', ''1''), (''k1'', ''1''), (''k1'', ''1'')]))) = [(''w'', ''github'', ''1'')] \<and>
   list_all (\<lambda>(o', e). authentic o' e) (fst (event_run [] (deliveries_of [(''bad'', ''1''), (''k1'', ''1''), (''k1'', ''1'')])))"
proof
  show "map (\<lambda>(o', e). envelope_key e) (fst (event_run [] (deliveries_of [(''bad'', ''1''), (''k1'', ''1''), (''k1'', ''1'')]))) = [(''w'', ''github'', ''1'')]"
    by code_simp
  show "list_all (\<lambda>(o', e). authentic o' e) (fst (event_run [] (deliveries_of [(''bad'', ''1''), (''k1'', ''1''), (''k1'', ''1'')])))"
    unfolding list_all_iff using events_are_accepted_once [OF prod.collapse [symmetric]] by fast
qed

section \<open>Deliveries of several workers\<close>

interpretation claims: row_update dl_id claim_one
  by unfold_locales (simp add: claim_one_def)

interpretation finishes: row_update dl_id finish_one
  by unfold_locales (simp add: finish_one_def split: prod.splits)

definition limit_of :: "out_env \<Rightarrow> nat" where
  "limit_of env = max 1 (max_attempts (ob_policy env))"

text \<open>
  Workers side by side. Each attempt is three steps (claim, send, finish), between which the steps of other workers may come; a worker may
  die at any moment. \<open>ox_log\<close> records every sending with its outcome and its requests. With \<open>timely\<close> no worker dies and every attempt is over
  before its lease is, so that no other worker claims the delivery in between.
\<close>

datatype job = Claimed nat delivery | Sent nat delivery "py_exception + unit"

primrec job_row :: "job \<Rightarrow> delivery" where
  "job_row (Claimed k d) = d"
| "job_row (Sent k d res) = d"

abbreviation job_id :: "job \<Rightarrow> string" where
  "job_id j \<equiv> dl_id (job_row j)"

record outbox =
  ox_rows :: "delivery list"
  ox_jobs :: "job list"
  ox_log :: "(string \<times> (py_exception + unit) \<times> http_req list) list"

definition empty_outbox :: outbox where
  "empty_outbox = \<lparr>ox_rows = [], ox_jobs = [], ox_log = []\<rparr>"

inductive out_step :: "out_env \<Rightarrow> bool \<Rightarrow> outbox \<Rightarrow> outbox \<Rightarrow> bool" for env timely where
  o_enqueue: "enqueue_delivery env k i (ox_rows s) url ty body = Inr rows \<Longrightarrow> \<not> has_row dl_id i (ox_rows s) \<Longrightarrow>
    out_step env timely s (s\<lparr>ox_rows := rows\<rparr>)"
| o_claim: "claim_row env k (ox_rows s) i = (Some d, rows) \<Longrightarrow> \<not> timely \<or> i \<notin> job_id ` set (ox_jobs s) \<Longrightarrow>
    out_step env timely s (s\<lparr>ox_rows := rows, ox_jobs := Claimed k d # ox_jobs s\<rparr>)"
| o_send: "Claimed k d \<in> set (ox_jobs s) \<Longrightarrow> send_delivery env k d = (res, sent) \<Longrightarrow>
    out_step env timely s (s\<lparr>ox_jobs := Sent k d res # remove1 (Claimed k d) (ox_jobs s), ox_log := ox_log s @ [(dl_id d, res, sent)]\<rparr>)"
| o_finish: "Sent k d res \<in> set (ox_jobs s) \<Longrightarrow> settlement env k d res = Some f \<Longrightarrow>
    out_step env timely s (s\<lparr>ox_rows := finish_delivery (ox_rows s) (dl_id d) f, ox_jobs := remove1 (Sent k d res) (ox_jobs s)\<rparr>)"
| o_die: "\<not> timely \<Longrightarrow> j \<in> set (ox_jobs s) \<Longrightarrow> out_step env timely s (s\<lparr>ox_jobs := remove1 j (ox_jobs s)\<rparr>)"

definition sendings :: "outbox \<Rightarrow> string \<Rightarrow> nat" where
  "sendings s i = length (filter (\<lambda>(j, x). j = i) (ox_log s))"

definition unsent :: "outbox \<Rightarrow> string \<Rightarrow> nat" where
  "unsent s i = length (filter (\<lambda>j. case j of Claimed k d \<Rightarrow> dl_id d = i | Sent k d res \<Rightarrow> False) (ox_jobs s))"

definition attempts_of :: "delivery list \<Rightarrow> string \<Rightarrow> nat" where
  "attempts_of rows i = (case find_row dl_id i rows of None \<Rightarrow> 0 | Some d \<Rightarrow> dl_attempts d)"

text \<open>The invariant: every sending was counted before, and what is stored was seen.\<close>

definition outbox_ok :: "out_env \<Rightarrow> outbox \<Rightarrow> bool" where
  "outbox_ok env s \<longleftrightarrow> distinct (map dl_id (ox_rows s)) \<and>
     (\<forall>i. sendings s i + unsent s i \<le> attempts_of (ox_rows s) i) \<and>
     (\<forall>k d res. Sent k d res \<in> set (ox_jobs s) \<longrightarrow> (\<exists>reqs. (dl_id d, res, reqs) \<in> set (ox_log s))) \<and>
     (\<forall>d \<in> set (ox_rows s). (dl_status d = D_DELIVERED \<longrightarrow> (\<exists>reqs. (dl_id d, Inr (), reqs) \<in> set (ox_log s))) \<and>
       (dl_status d = D_DEAD \<longrightarrow> (\<exists>e reqs. (dl_id d, Inl e, reqs) \<in> set (ox_log s)))) \<and>
     (\<forall>i res reqs. (i, res, reqs) \<in> set (ox_log s) \<longrightarrow> (\<forall>q \<in> set reqs. vetted (ob_net env) (hq_url q)))"

text \<open>With timely workers: one attempt at a time, and the limit.\<close>

definition one_at_a_time :: "out_env \<Rightarrow> outbox \<Rightarrow> bool" where
  "one_at_a_time env s \<longleftrightarrow> distinct (map job_id (ox_jobs s)) \<and>
     (\<forall>j \<in> set (ox_jobs s). \<exists>d. find_row dl_id (job_id j) (ox_rows s) = Some d \<and> dl_status d = D_PENDING \<and> dl_attempts d = dl_attempts (job_row j)) \<and>
     (\<forall>d \<in> set (ox_rows s). dl_attempts d \<le> limit_of env \<and>
       (dl_status d = D_PENDING \<and> dl_id d \<notin> job_id ` set (ox_jobs s) \<longrightarrow> dl_attempts d < limit_of env))"

lemma after_failure_pending:
  "after_failure env k n e = Some (D_PENDING, err, nxt) \<Longrightarrow> n < limit_of env"
  by (auto simp: after_failure_def decide_retry_def no_retry_def limit_of_def Let_def split: if_splits)

lemma settled_cases:
  assumes "settlement env k d res = Some (st, err, nxt)"
  shows "st = D_DELIVERED \<Longrightarrow> res = Inr ()" "st = D_DEAD \<Longrightarrow> \<exists>e. res = Inl e" "st = D_PENDING \<Longrightarrow> dl_attempts d < limit_of env"
  using assms after_failure_pending [of env k "dl_attempts d"]
  by (auto simp: settlement_def after_failure_def Let_def split: sum.splits if_splits)

lemma enqueued: "enqueue_delivery env k i rows url ty body = Inr rows' \<Longrightarrow> rows' = rows @ [new_delivery i url ty body (ob_clock env k)]"
  by (auto simp: enqueue_delivery_def bind_r_Inr split: option.splits if_splits)

lemma claim_row_won:
  assumes "claim_row env k rows i = (Some d, rows')" "distinct (map dl_id rows)"
  shows "rows' = update_row dl_id i (claim_one (ob_clock env k)) rows"
    and "\<exists>d0. find_row dl_id i rows = Some d0 \<and> due (ob_clock env k) d0 \<and> d = claim_one (ob_clock env k) d0"
    and "dl_id d = i"
  using assms by (auto simp: claim_row_def claim_delivery_def ex_row_cond claims.find_update claim_one_def dest: find_row_SomeD split: if_splits)

lemma attempts_of_update:
  "attempts_of (update_row dl_id i (finish_one f) rows) j = attempts_of rows j"
  "find_row dl_id i rows = Some d \<Longrightarrow> due now d \<Longrightarrow>
     attempts_of (update_row dl_id i (claim_one now) rows) j = attempts_of rows j + (if j = i then 1 else 0)"
  by (auto simp: attempts_of_def finishes.find_update claims.find_update finish_one_def claim_one_def split: option.split prod.split)

lemma send_vetted: "send_delivery env k d = (res, sent) \<Longrightarrow> q \<in> set sent \<Longrightarrow> vetted (ob_net env) (hq_url q)"
  by (auto simp: send_delivery_def dest!: requests_ok split: option.splits prod.splits sum.splits)

lemma unsent_remove1: "unsent (s\<lparr>ox_jobs := remove1 j (ox_jobs s)\<rparr>) i \<le> unsent s i"
  "Claimed k d \<in> set (ox_jobs s) \<Longrightarrow> unsent s i = unsent (s\<lparr>ox_jobs := remove1 (Claimed k d) (ox_jobs s)\<rparr>) i + (if dl_id d = i then 1 else 0)"
proof -
  have "length (filter P (remove1 j xs)) \<le> length (filter P xs)" for P and xs :: "job list" by (induction xs) auto
  then show "unsent (s\<lparr>ox_jobs := remove1 j (ox_jobs s)\<rparr>) i \<le> unsent s i" by (simp add: unsent_def)
  have "x \<in> set xs \<Longrightarrow> length (filter P xs) = length (filter P (remove1 x xs)) + (if P x then 1 else 0)" for P x and xs :: "job list" by (induction xs) auto
  from this [of "Claimed k d" "ox_jobs s"] show "Claimed k d \<in> set (ox_jobs s) \<Longrightarrow>
      unsent s i = unsent (s\<lparr>ox_jobs := remove1 (Claimed k d) (ox_jobs s)\<rparr>) i + (if dl_id d = i then 1 else 0)"
    by (simp add: unsent_def)
qed

lemma outbox_ok_step: "out_step env timely s s' \<Longrightarrow> outbox_ok env s \<Longrightarrow> outbox_ok env s'"
proof (induction rule: out_step.induct)
  case (o_enqueue k i s url ty body rows)
  let ?d = "new_delivery i url ty body (ob_clock env k)"
  have rows: "rows = ox_rows s @ [?d]" using enqueued [OF o_enqueue(1)] .
  have fresh: "\<not> has_row dl_id (dl_id ?d) (ox_rows s)" using o_enqueue(2) by (simp add: new_delivery_def)
  have "attempts_of rows j = attempts_of (ox_rows s) j" for j
    using find_row_insert [OF fresh, of j] fresh unfolding rows by (auto simp: attempts_of_def has_row_iff new_delivery_def)
  moreover have "distinct (map dl_id rows)" using distinct_insert [OF fresh] o_enqueue(3) by (simp add: rows outbox_ok_def)
  ultimately show ?case using o_enqueue(3) unfolding rows by (auto simp: outbox_ok_def sendings_def unsent_def new_delivery_def)
next
  case (o_claim k s i d rows)
  have dist: "distinct (map dl_id (ox_rows s))" using o_claim(3) by (simp add: outbox_ok_def)
  note won = claim_row_won [OF o_claim(1) dist]
  have "attempts_of rows j = attempts_of (ox_rows s) j + (if j = i then 1 else 0)" for j using won(2) attempts_of_update(2) unfolding won(1) by blast
  then have "sendings s j + unsent (s\<lparr>ox_rows := rows, ox_jobs := Claimed k d # ox_jobs s\<rparr>) j \<le> attempts_of rows j" for j
    using o_claim(3) won(3) by (auto simp: outbox_ok_def unsent_def)
  moreover have "dl_status (claim_one (ob_clock env k) x) = dl_status x" "dl_id (claim_one (ob_clock env k) x) = dl_id x" for x by (simp_all add: claim_one_def)
  ultimately show ?case using o_claim(3) claims.distinct_update [OF dist] unfolding won(1)
    by (auto simp: outbox_ok_def sendings_def update_row_def split: if_splits)
next
  case (o_send k d s res sent)
  let ?s = "s\<lparr>ox_jobs := Sent k d res # remove1 (Claimed k d) (ox_jobs s), ox_log := ox_log s @ [(dl_id d, res, sent)]\<rparr>"
  have "sendings ?s i + unsent ?s i \<le> sendings s i + unsent s i" for i
    using unsent_remove1(2) [OF o_send(1), of i] by (auto simp: sendings_def unsent_def)
  then have "sendings ?s i + unsent ?s i \<le> attempts_of (ox_rows s) i" for i using o_send(3) by (meson outbox_ok_def order.trans)
  then show ?case using o_send(3) send_vetted [OF o_send(2)] unfolding outbox_ok_def by (auto dest: subsetD [OF set_remove1_subset]) blast+
next
  case (o_finish k d res s f)
  obtain st err nxt where f: "f = (st, err, nxt)" by (metis prod_cases3)
  note fin = settled_cases [OF o_finish(2) [unfolded f]]
  obtain reqs where log: "(dl_id d, res, reqs) \<in> set (ox_log s)" using o_finish(1,3) unfolding outbox_ok_def by blast
  let ?s = "s\<lparr>ox_rows := finish_delivery (ox_rows s) (dl_id d) f, ox_jobs := remove1 (Sent k d res) (ox_jobs s)\<rparr>"
  have "sendings ?s i + unsent ?s i \<le> attempts_of (ox_rows ?s) i" for i
    using o_finish(3) unsent_remove1(1) [of "Sent k d res" s i]
    by (auto simp: outbox_ok_def sendings_def unsent_def finish_delivery_def attempts_of_update(1) intro: order.trans add_left_mono)
  moreover have "(dl_status x = D_DELIVERED \<longrightarrow> (\<exists>reqs. (dl_id x, Inr (), reqs) \<in> set (ox_log s))) \<and>
      (dl_status x = D_DEAD \<longrightarrow> (\<exists>e reqs. (dl_id x, Inl e, reqs) \<in> set (ox_log s)))" if "x \<in> set (ox_rows ?s)" for x
    using that o_finish(3) fin log unfolding outbox_ok_def finish_delivery_def update_row_def f by (auto simp: finish_one_def split: if_splits) blast+
  ultimately show ?case using o_finish(3) finishes.distinct_update unfolding outbox_ok_def
    by (auto simp: finish_delivery_def dest: subsetD [OF set_remove1_subset])
next
  case (o_die j s)
  have "sendings s i + unsent (s\<lparr>ox_jobs := remove1 j (ox_jobs s)\<rparr>) i \<le> attempts_of (ox_rows s) i" for i
    using o_die(3) unsent_remove1(1) [of j s i] unfolding outbox_ok_def by (meson add_left_mono order.trans)
  then show ?case using o_die(3) unfolding outbox_ok_def by (auto simp: sendings_def dest: subsetD [OF set_remove1_subset])
qed

interpretation outbox: state_machine "out_step env timely" "outbox_ok env" for env timely
  by unfold_locales (rule outbox_ok_step)

lemma keys_remove1:
  "distinct (map f xs) \<Longrightarrow> x \<in> set xs \<Longrightarrow> distinct (map f (remove1 x xs)) \<and> f ` set (remove1 x xs) = f ` set xs - {f x}"
  by (induction xs) auto

lemma one_at_a_time_step:
  assumes "out_step env True s s'" and "outbox_ok env s" and ok: "one_at_a_time env s"
  shows "one_at_a_time env s'"
  using assms(1)
proof cases
  case (o_enqueue k i url ty body rows)
  let ?d = "new_delivery i url ty body (ob_clock env k)"
  have rows: "rows = ox_rows s @ [?d]" using enqueued [OF o_enqueue(2)] .
  have "find_row dl_id j (ox_rows s) = Some x \<Longrightarrow> find_row dl_id j rows = Some x" for j x by (simp add: rows find_row_append)
  then show ?thesis using ok unfolding one_at_a_time_def o_enqueue(1) by (fastforce simp: rows new_delivery_def limit_of_def)
next
  case (o_claim k i d rows)
  have dist: "distinct (map dl_id (ox_rows s))" using assms(2) by (simp add: outbox_ok_def)
  note won = claim_row_won [OF o_claim(2) dist]
  obtain d0 where d0: "find_row dl_id i (ox_rows s) = Some d0" "due (ob_clock env k) d0" "d = claim_one (ob_clock env k) d0" using won(2) by blast
  have new: "i \<notin> job_id ` set (ox_jobs s)" using o_claim(3) by simp
  have "dl_attempts d0 < limit_of env" using ok new d0 find_row_SomeD [OF d0(1)] by (auto simp: one_at_a_time_def due_def)
  then have d: "dl_attempts d \<le> limit_of env" "dl_status d = D_PENDING" using d0(2,3) by (simp_all add: claim_one_def due_def)
  have find: "find_row dl_id j rows = (if j = i then Some d else find_row dl_id j (ox_rows s))" for j
    using d0 unfolding won(1) by (simp add: claims.find_update)
  have old: "x = d \<or> x \<in> set (ox_rows s) \<and> dl_id x \<noteq> i" if "x \<in> set rows" for x
    using find_row_distinct [OF claims.distinct_update [OF dist, of i "ob_clock env k"], of x] that find [of i]
    unfolding won(1) by (auto simp: update_row_def claim_one_def split: if_splits)
  have "\<exists>x. find_row dl_id (job_id j) rows = Some x \<and> dl_status x = D_PENDING \<and> dl_attempts x = dl_attempts (job_row j)"
    if "j \<in> set (ox_jobs s)" for j using that ok new find [of "job_id j"] unfolding one_at_a_time_def by auto
  moreover have "dl_attempts x \<le> limit_of env \<and> (dl_status x = D_PENDING \<and> dl_id x \<notin> insert i (job_id ` set (ox_jobs s)) \<longrightarrow> dl_attempts x < limit_of env)"
    if "x \<in> set rows" for x using old [OF that] ok d won(3) unfolding one_at_a_time_def by auto
  ultimately show ?thesis using ok new d won(3) find [of i] unfolding one_at_a_time_def o_claim(1) by auto
next
  case (o_send k d res sent)
  have "distinct (map job_id (ox_jobs s))" using ok by (simp add: one_at_a_time_def)
  note k = keys_remove1 [OF this o_send(2)]
  have "dl_id d \<in> job_id ` set (ox_jobs s)" using o_send(2) by force
  then have ids: "insert (dl_id d) (job_id ` set (remove1 (Claimed k d) (ox_jobs s))) = job_id ` set (ox_jobs s)" using k by auto
  have "\<exists>x. find_row dl_id (job_id j) (ox_rows s) = Some x \<and> dl_status x = D_PENDING \<and> dl_attempts x = dl_attempts (job_row j)"
    if "j \<in> set (Sent k d res # remove1 (Claimed k d) (ox_jobs s))" for j
    using that o_send(2) ok notin_set_remove1 [of j "ox_jobs s" "Claimed k d"] unfolding one_at_a_time_def by fastforce
  then show ?thesis using ok k ids unfolding one_at_a_time_def o_send(1) by auto
next
  case (o_finish k d res f)
  have dist: "distinct (map dl_id (ox_rows s))" using assms(2) by (simp add: outbox_ok_def)
  have "distinct (map job_id (ox_jobs s))" using ok by (simp add: one_at_a_time_def)
  note k = keys_remove1 [OF this o_finish(2)]
  obtain st err nxt where f: "f = (st, err, nxt)" by (metis prod_cases3)
  have pending: "st = D_PENDING \<Longrightarrow> dl_attempts d < limit_of env" using settled_cases(3) [OF o_finish(3) [unfolded f]] .
  obtain x0 where x0: "find_row dl_id (dl_id d) (ox_rows s) = Some x0" "dl_attempts x0 = dl_attempts d" using ok o_finish(2) unfolding one_at_a_time_def by fastforce
  let ?rows = "finish_delivery (ox_rows s) (dl_id d) f" let ?jobs = "remove1 (Sent k d res) (ox_jobs s)"
  have "\<exists>x. find_row dl_id (job_id j) ?rows = Some x \<and> dl_status x = D_PENDING \<and> dl_attempts x = dl_attempts (job_row j)" if "j \<in> set ?jobs" for j
  proof -
    have "job_id j \<noteq> dl_id d" "j \<in> set (ox_jobs s)" using that k notin_set_remove1 [of j "ox_jobs s"] by auto
    then show ?thesis using ok unfolding one_at_a_time_def finish_delivery_def by (simp add: finishes.find_update)
  qed
  moreover have "dl_attempts x \<le> limit_of env \<and> (dl_status x = D_PENDING \<and> dl_id x \<notin> job_id ` set ?jobs \<longrightarrow> dl_attempts x < limit_of env)"
    if x: "x \<in> set ?rows" for x
  proof -
    consider (hit) y where "y \<in> set (ox_rows s)" "dl_id y = dl_id d" "x = finish_one f y" | (other) "x \<in> set (ox_rows s)" "dl_id x \<noteq> dl_id d"
      using x by (auto simp: finish_delivery_def update_row_def split: if_splits)
    then show ?thesis
    proof cases
      case hit
      then have "y = x0" using find_row_distinct [OF dist hit(1)] x0 by simp
      then show ?thesis using hit ok x0 pending by (auto simp: f finish_one_def one_at_a_time_def)
    next
      case other
      then show ?thesis using ok k unfolding one_at_a_time_def by auto
    qed
  qed
  ultimately show ?thesis using k unfolding one_at_a_time_def o_finish(1) by auto
qed simp

lemma one_at_a_time_steps:
  assumes "(out_step env True)\<^sup>*\<^sup>* empty_outbox s"
  shows "one_at_a_time env s \<and> outbox_ok env s"
  using assms
proof (induction rule: rtranclp_induct)
  case base
  show ?case by (auto simp: one_at_a_time_def outbox_ok_def empty_outbox_def sendings_def unsent_def attempts_of_def find_row_def)
next
  case (step s s')
  then show ?case using one_at_a_time_step outbox_ok_step by blast
qed

text \<open>With timely workers a delivery that is delivered or dead is not touched again.\<close>

lemma finished_rows_stay:
  assumes ok: "one_at_a_time env s" "outbox_ok env s" and step: "out_step env True s s'" and d: "d \<in> set (ox_rows s)" "dl_status d \<noteq> D_PENDING"
  shows "d \<in> set (ox_rows s')"
proof -
  have dist: "distinct (map dl_id (ox_rows s))" using ok(2) by (simp add: outbox_ok_def)
  have kept: "d \<in> set (update_row dl_id i h (ox_rows s))" if "dl_id d \<noteq> i" for i h using that d(1) by (force simp: update_row_def)
  from step show ?thesis
  proof cases
    case (o_enqueue k i url ty body rows)
    then show ?thesis using d(1) enqueued [OF o_enqueue(2)] by simp
  next
    case (o_claim k i d' rows)
    note won = claim_row_won [OF o_claim(2) dist]
    have "dl_id d \<noteq> i" using won(2) d find_row_distinct [OF dist d(1)] by (auto simp: due_def)
    then show ?thesis using kept won(1) o_claim(1) by simp
  next
    case (o_finish k d' res f)
    have "dl_id d \<noteq> dl_id d'" using ok(1) o_finish(2) d find_row_distinct [OF dist d(1)] unfolding one_at_a_time_def by fastforce
    then show ?thesis using kept o_finish(1) by (simp add: finish_delivery_def)
  qed (use d in simp_all)
qed


text \<open>\<open>_attempt\<close> of one worker is these steps one after the other.\<close>

theorem attempt_refines_steps:
  assumes "attempt env k rows i = (r, rows', sent)" and "i \<notin> job_id ` set jobs" and "distinct (map dl_id rows)"
  shows "\<exists>jobs' lg'. (out_step env timely)\<^sup>*\<^sup>* \<lparr>ox_rows = rows, ox_jobs = jobs, ox_log = lg\<rparr> \<lparr>ox_rows = rows', ox_jobs = jobs', ox_log = lg'\<rparr>"
proof (cases "claim_row env k rows i")
  case (Pair won rows1)
  show ?thesis
  proof (cases won)
    case None
    then have "\<not> list_ex (\<lambda>d. dl_id d = i \<and> due (ob_clock env k) d) rows"
      using Pair assms(3) by (auto simp: claim_row_def claim_delivery_def ex_row_cond claims.find_update split: if_splits)
    then have "rows1 = rows" using Pair
      by (auto simp: claim_row_def claim_delivery_def list_ex_iff update_row_def claim_one_def intro!: map_idI)
    then show ?thesis using assms(1) Pair None by (auto simp: attempt_def)
  next
    case (Some d)
    let ?s = "\<lambda>rs js l. \<lparr>ox_rows = rs, ox_jobs = js, ox_log = l\<rparr>"
    obtain res reqs where send: "send_delivery env k d = (res, reqs)" by fastforce
    have id: "dl_id d = i" using claim_row_won(3) [OF Pair [unfolded Some] assms(3)] .
    have "out_step env timely (?s rows jobs lg) (?s rows1 (Claimed k d # jobs) lg)"
      using o_claim [of env k "?s rows jobs lg" i d rows1 timely] Pair Some assms(2) by simp
    moreover have "out_step env timely (?s rows1 (Claimed k d # jobs) lg) (?s rows1 (Sent k d res # jobs) (lg @ [(i, res, reqs)]))"
      using o_send [of k d "?s rows1 (Claimed k d # jobs) lg" env res reqs timely] send id by simp
    moreover have "out_step env timely (?s rows1 (Sent k d res # jobs) l) (?s (finish_delivery rows1 i f) jobs l)" if "settlement env k d res = Some f" for f l
      using o_finish [of k d res "?s rows1 (Sent k d res # jobs) l" env f timely] that id by simp
    ultimately show ?thesis using assms(1) Pair Some send
      by (cases "settlement env k d res") (auto simp: attempt_def intro: rtranclp.rtrancl_into_rtrancl r_into_rtranclp, (meson rtranclp.rtrancl_into_rtrancl r_into_rtranclp)+)
  qed
qed

definition demo_out :: out_env where
  "demo_out = \<lparr>ob_net = hop_env, ob_secret = (\<lambda>_. Some ''s''), ob_policy = DEFAULT_POLICY, ob_uniform = (\<lambda>_ c. 0), ob_clock = (\<lambda>k. int k * CLAIM_LEASE),
     ob_mac = (\<lambda>s m. s), ob_stamp = (\<lambda>_. ''0''), ob_parse_float = (\<lambda>_. None), ob_show_status = (\<lambda>_. []), ob_describe = (\<lambda>_. [])\<rparr>"

definition outbox_with :: "string \<Rightarrow> delivery list" where
  "outbox_with url = [new_delivery ''d'' url ''e'' ''{}'' 0]"

definition attempt_facts :: "string \<Rightarrow> py_exception option \<times> (nat \<times> delivery_status) list \<times> string list" where
  "attempt_facts url = (case attempt demo_out 0 (outbox_with url) ''d'' of (r, rows, sent) \<Rightarrow>
     (case r of Inl e \<Rightarrow> Some e | Inr b \<Rightarrow> None, map (\<lambda>d. (dl_attempts d, dl_status d)) rows, map hq_url sent))"

lemma good_attempt: "attempt_facts ''https://b.example/'' = (None, [(1, D_DELIVERED)], [''https://b.example/''])"
  by code_simp


text \<open>
  The count of attempts is compared with the limit only after an attempt has failed in an expected way. A delivery whose worker dies while sending is
  claimed again after every lease, without end.
\<close>

definition crashes :: "nat \<Rightarrow> delivery list" where
  "crashes n = fold (\<lambda>j rows. snd (claim_delivery (int j * CLAIM_LEASE) rows ''d'')) [0..<n] (outbox_with ''https://b.example/'')"

theorem crashing_delivery_is_claimed_forever:
  "\<exists>d. crashes n = [d] \<and> dl_attempts d = n \<and> dl_status d = D_PENDING \<and> fst (claim_delivery (int n * CLAIM_LEASE) (crashes n) ''d'')"
proof (induction n)
  case 0
  then show ?case by (simp add: crashes_def outbox_with_def new_delivery_def claim_delivery_def due_def)
next
  case (Suc n)
  then obtain d where d: "crashes n = [d]" "dl_attempts d = n" "dl_status d = D_PENDING" "dl_id d = ''d''" "due (int n * CLAIM_LEASE) d"
    by (auto simp: claim_delivery_def)
  have "crashes (Suc n) = snd (claim_delivery (int n * CLAIM_LEASE) (crashes n) ''d'')" by (simp add: crashes_def)
  then have "crashes (Suc n) = [claim_one (int n * CLAIM_LEASE) d]" using d by (simp add: claim_delivery_def update_row_def)
  then show ?case using d by (simp add: claim_one_def claim_delivery_def due_def algebra_simps)
qed

text \<open>
  A receiver brings this about without a crash: if it answers with a redirect to a malformed address, \<open>ValueError\<close> escapes from the
  attempt, which stays pending, and the remaining deliveries of the batch are not attempted.
\<close>

theorem malformed_redirect_escapes:
  "attempt_facts ''https://c.example/'' = (Some (OtherException ''ValueError''), [(1, D_PENDING)], [''https://c.example/''])"
  by code_simp

text \<open>
  A worker that is slower than its lease overwrites what the next one stored: the delivered event becomes pending and due again.
\<close>

definition overtaken :: "delivery list" where
  "overtaken =
     (let rows = snd (claim_delivery 0 (outbox_with ''https://b.example/'') ''d'');
          rows' = finish_delivery (snd (claim_delivery CLAIM_LEASE rows ''d'')) ''d'' (D_DELIVERED, None, None) in
      finish_delivery rows' ''d'' (D_PENDING, Some [], Some CLAIM_LEASE))"

theorem slow_worker_reopens_delivery: "map (due CLAIM_LEASE) overtaken = [True]"
  by code_simp

end
