(* ===== verification/Plugins.thy ===== *)
theory Plugins
  imports Connectors Policy_Store Workflow_Check
begin

text \<open>
  Plugins: \<open>domain/plugins.py\<close> (manifests, settings, grants), \<open>persistence/plugins.py\<close> (their state and failures), \<open>plugins/host.py\<close> (discovery,
  enabling, calls, quarantine, restart) and \<open>plugins/process.py\<close> (the command of an external plugin and its reply). Plugin code, processes,
  the file system, YAML, JSON and the environment are parameters. Durations, times and the details of events are left out.

  Shown: an accepted manifest is well formed; plugin code runs only for an enabled plugin and a declared capability that the policies (or a person) let
  through; secrets reach only plugins that declare the permission; a plugin that fails repeatedly is quarantined. And where the code
  departs from its documentation.
\<close>

section \<open>Manifests\<close>

datatype plugin_kind = K_TOOL | K_CONNECTOR | K_PROVIDER | K_CONTEXT_SOURCE | K_EVALUATOR | K_WORKFLOW_NODE

definition plugin_kinds :: "(string \<times> plugin_kind) list" where
  "plugin_kinds = [(''tool'', K_TOOL), (''connector'', K_CONNECTOR), (''provider'', K_PROVIDER), (''context_source'', K_CONTEXT_SOURCE),
     (''evaluator'', K_EVALUATOR), (''workflow_node'', K_WORKFLOW_NODE)]"

datatype trust = TRUSTED | EXTERNAL_PROCESS

definition trusts :: "(string \<times> trust) list" where
  "trusts = [(''trusted'', TRUSTED), (''external_process'', EXTERNAL_PROCESS)]"

datatype plugin_state = P_DISCOVERED | P_ENABLED | P_DISABLED | P_QUARANTINED | P_INVALID

definition PERMISSIONS :: "string list" where
  "PERMISSIONS = [''fs.read'', ''fs.write'', ''net.http'', ''process.spawn'', ''secrets.read'', ''repo.read'', ''repo.write'']"

definition PLUGIN_NAME :: rx where
  "PLUGIN_NAME = sq [Cls is_lower, Rep 1 (Some 40) (Cls (\<lambda>c. is_lower c \<or> is_digit c \<or> c \<in> set ''_-'')), AtEnd]"

definition CAP_NAME :: rx where
  "CAP_NAME = sq [Cls is_lower, Rep 0 (Some 40) (Cls (\<lambda>c. is_lower c \<or> is_digit c \<or> c = CHR ''_'')), AtEnd]"

definition VERSION :: rx where
  "VERSION = sq [plus (Cls is_digit), lit ''.'', plus (Cls is_digit), lit ''.'', plus (Cls is_digit),
     opt (sq [chars ''.+-'', star (Cls (\<lambda>c. is_alnum c \<or> c \<in> set ''.+-''))]), AtEnd]"

definition FIELD_TYPES :: "string list" where
  "FIELD_TYPES = [''string'', ''integer'', ''number'', ''boolean'']"

definition MAX_ARGS_BYTES :: int where "MAX_ARGS_BYTES = 256000"

text \<open>\<open>PluginError\<close> is the refusal the callers expect; the others are exceptions of the language and of the plugin.\<close>

datatype plugin_exc =
    PluginError string
  | PluginDenied string
  | PluginApprovalRequired string
  | ProcessFailure string bool
  | TimedOut
  | Misbehaved failure_kind string
  | Escaped string

record capability =
  cp_name :: string
  cp_effect :: side_effect
  cp_idempotent :: bool
  cp_description :: string

record config_field =
  cf_name :: string
  cf_type :: string
  cf_required :: bool
  cf_default :: pyval
  cf_secret :: bool

record manifest =
  mf_name :: string
  mf_version :: string
  mf_kind :: plugin_kind
  mf_trust :: trust
  mf_capabilities :: "capability dict"
  mf_permissions :: "string list"
  mf_config :: "config_field list"
  mf_min_runtime :: string
  mf_command :: "string list"
  mf_description :: string

definition refuse :: "string \<Rightarrow> plugin_exc + 'a" where
  "refuse msg = Inl (PluginError msg)"

definition parse_kinds :: "(pyval \<Rightarrow> string) \<Rightarrow> pyval dict \<Rightarrow> plugin_exc + plugin_kind \<times> trust" where
  "parse_kinds show_val doc =
     (case map_of plugin_kinds (py_str show_val (dget doc ''kind'' VNone)) of None \<Rightarrow> refuse ''not a valid PluginKind''
      | Some kd \<Rightarrow> (case map_of trusts (py_str show_val (dget doc ''trust'' (VStr ''external_process''))) of None \<Rightarrow> refuse ''not a valid Trust''
        | Some tr \<Rightarrow> Inr (kd, tr)))"

text \<open>A list all of whose entries are strings.\<close>

definition strings_of :: "pyval \<Rightarrow> string list option" where
  "strings_of v = (case v of VList xs \<Rightarrow> if list_all (\<lambda>x. as_str x \<noteq> None) xs then Some (map (the \<circ> as_str) xs) else None | _ \<Rightarrow> None)"

definition parse_permissions :: "pyval dict \<Rightarrow> plugin_exc + string list" where
  "parse_permissions doc =
     (case strings_of (dget doc ''permissions'' (VList [])) of None \<Rightarrow> refuse ''permissions must be a list of names''
      | Some ps \<Rightarrow> if list_all (\<lambda>p. p \<in> set PERMISSIONS) ps then Inr ps else refuse ''unknown permission(s)'')"

definition parse_capability :: "(pyval \<Rightarrow> string) \<Rightarrow> string \<times> pyval \<Rightarrow> plugin_exc + string \<times> capability" where
  "parse_capability show_val = (\<lambda>(cname, c).
     if \<not> matches_start CAP_NAME cname then refuse ''capability name is not valid''
     else (case as_dict (or_val c (VDict [])) of None \<Rightarrow> refuse ''expected side_effect/idempotent/description''
       | Some d \<Rightarrow>
         if extra_keys d [''side_effect'', ''idempotent'', ''description''] \<noteq> [] then refuse ''expected side_effect/idempotent/description''
         else (case map_of d ''side_effect'' of None \<Rightarrow> refuse ''declare its side_effect (unsure? UNKNOWN)''
           | Some v \<Rightarrow> (case side_effect_of (str_upper (py_str show_val v)) of None \<Rightarrow> refuse ''unknown side_effect''
             | Some e \<Rightarrow> Inr (cname, \<lparr>cp_name = cname, cp_effect = e, cp_idempotent = truthy (dget d ''idempotent'' (VBool True)),
                 cp_description = take 200 (py_str show_val (dget d ''description'' (VStr [])))\<rparr>)))))"

definition parse_capabilities :: "(pyval \<Rightarrow> string) \<Rightarrow> pyval dict \<Rightarrow> plugin_exc + capability dict" where
  "parse_capabilities show_val doc =
     (case as_dict (dget doc ''capabilities'' VNone) of None \<Rightarrow> refuse ''capabilities must name 1-50 things the plugin can do''
      | Some d \<Rightarrow> if d = [] \<or> length d > 50 then refuse ''capabilities must name 1-50 things the plugin can do'' else map_r (parse_capability show_val) d)"

text \<open>The type is looked up in a dictionary: a list or dictionary there raises \<open>TypeError\<close>.\<close>

definition parse_field :: "string list \<Rightarrow> string \<times> pyval \<Rightarrow> plugin_exc + config_field" where
  "parse_field perms = (\<lambda>(fname, f).
     case as_dict (or_val f (VDict [])) of None \<Rightarrow> refuse ''config field: expected type, required, default, secret''
     | Some d \<Rightarrow>
       if extra_keys d [''type'', ''required'', ''default'', ''secret''] \<noteq> [] then refuse ''config field: expected type, required, default, secret''
       else (case dget d ''type'' (VStr ''string'') of
           VStr ty \<Rightarrow>
             if ty \<notin> set FIELD_TYPES then refuse ''config field: expected type, required, default, secret''
             else if truthy (dget d ''secret'' (VBool False)) \<and> ty \<noteq> ''string'' then refuse ''a secret must be a string''
             else if truthy (dget d ''secret'' (VBool False)) \<and> ''secrets.read'' \<notin> set perms then refuse ''reading a secret requires the secrets.read permission''
             else Inr \<lparr>cf_name = fname, cf_type = ty, cf_required = truthy (dget d ''required'' (VBool False)), cf_default = dget d ''default'' VNone,
               cf_secret = truthy (dget d ''secret'' (VBool False))\<rparr>
         | VList _ \<Rightarrow> Inl (Escaped ''TypeError'') | VDict _ \<Rightarrow> Inl (Escaped ''TypeError'')
         | _ \<Rightarrow> refuse ''config field: expected type, required, default, secret''))"

text \<open>\<open>(doc.get("config") or {}).items()\<close> raises \<open>AttributeError\<close> on what is not a mapping.\<close>

definition parse_fields :: "string list \<Rightarrow> pyval dict \<Rightarrow> plugin_exc + config_field list" where
  "parse_fields perms doc =
     (case as_dict (or_val (dget doc ''config'' VNone) (VDict [])) of None \<Rightarrow> Inl (Escaped ''AttributeError'') | Some d \<Rightarrow> map_r (parse_field perms) d)"

text \<open>\<open>tuple(command)\<close> of a trusted plugin: what is falsy and cannot be iterated raises \<open>TypeError\<close>, but only at the end of the function.\<close>

definition parse_command :: "trust \<Rightarrow> pyval dict \<Rightarrow> plugin_exc + string list option" where
  "parse_command tr doc =
     (let command = dget doc ''command'' (VList []) in
      if tr = EXTERNAL_PROCESS then (case strings_of command of None \<Rightarrow> refuse ''an external_process plugin needs a command (a list of strings)''
        | Some cs \<Rightarrow> if cs = [] \<or> [] \<in> set cs then refuse ''an external_process plugin needs a command (a list of strings)'' else Inr (Some cs))
      else if truthy command then refuse ''a trusted plugin is loaded from an entry point and takes no command''
      else Inr (if py_iter command = None then None else Some []))"

definition MANIFEST_FIELDS :: "string list" where
  "MANIFEST_FIELDS = [''name'', ''version'', ''kind'', ''trust'', ''capabilities'', ''permissions'', ''config'', ''runtime'', ''command'', ''description'']"

definition parse_manifest :: "(pyval \<Rightarrow> string) \<Rightarrow> pyval \<Rightarrow> plugin_exc + manifest" where
  "parse_manifest show_val v =
     (case v of VDict doc \<Rightarrow>
        if extra_keys doc MANIFEST_FIELDS \<noteq> [] then refuse ''unknown manifest field(s)''
        else (case dget doc ''name'' VNone of VStr name \<Rightarrow>
          if \<not> matches_start PLUGIN_NAME name then refuse ''name must be 2-41 lowercase letters, digits, - or _, starting with a letter''
          else (case dget doc ''version'' VNone of VStr version \<Rightarrow>
            if \<not> matches_start VERSION version then refuse ''version must look like 1.2.3''
            else bind_r (parse_kinds show_val doc) (\<lambda>(kd, tr). bind_r (parse_permissions doc) (\<lambda>perms. bind_r (parse_capabilities show_val doc) (\<lambda>caps.
              bind_r (parse_fields perms doc) (\<lambda>fs. bind_r (parse_command tr doc) (\<lambda>command.
                let runtime = py_str show_val (dget doc ''runtime'' (VStr ''>=0.0'')) in
                if \<not> prefix ''>='' runtime then refuse ''runtime must be a minimum version''
                else (case command of None \<Rightarrow> Inl (Escaped ''TypeError'')
                  | Some cs \<Rightarrow> Inr \<lparr>mf_name = name, mf_version = version, mf_kind = kd, mf_trust = tr, mf_capabilities = caps, mf_permissions = perms,
                      mf_config = fs, mf_min_runtime = drop 2 runtime, mf_command = cs,
                      mf_description = take 300 (py_str show_val (dget doc ''description'' (VStr [])))\<rparr>))))))
          | _ \<Rightarrow> refuse ''version must look like 1.2.3'')
        | _ \<Rightarrow> refuse ''name must be 2-41 lowercase letters, digits, - or _, starting with a letter'')
      | _ \<Rightarrow> refuse ''a manifest must be a mapping'')"

section \<open>Compatibility, settings and grants\<close>

definition digits_of :: "string \<Rightarrow> nat" where
  "digits_of s = foldl (\<lambda>a c. 10 * a + (of_char c - 48)) 0 s"

definition version_tuple :: "string \<Rightarrow> nat \<times> nat \<times> nat" where
  "version_tuple s =
     (let a = takeWhile is_digit s; r = drop (length a) s; b = takeWhile is_digit (drop 1 r); r2 = drop (1 + length b) r; c = takeWhile is_digit (drop 1 r2) in
      if a \<noteq> [] \<and> prefix ''.'' r \<and> b \<noteq> [] then (digits_of a, digits_of b, if prefix ''.'' r2 \<and> c \<noteq> [] then digits_of c else 0) else (0, 0, 0))"

definition version_less :: "nat \<times> nat \<times> nat \<Rightarrow> nat \<times> nat \<times> nat \<Rightarrow> bool" where
  "version_less = (\<lambda>(a, b, c) (d, e, f). a < d \<or> a = d \<and> (b < e \<or> b = e \<and> c < f))"

definition check_compatible :: "manifest \<Rightarrow> string \<Rightarrow> plugin_exc + unit" where
  "check_compatible m version = (if version_less (version_tuple version) (version_tuple (mf_min_runtime m)) then refuse ''needs a newer PatchQuest'' else Inr ())"

definition has_type :: "string \<Rightarrow> pyval \<Rightarrow> bool" where
  "has_type ty v \<longleftrightarrow> (case v of VBool _ \<Rightarrow> ty = ''boolean'' | VStr _ \<Rightarrow> ty = ''string'' | VInt _ \<Rightarrow> ty = ''integer'' \<or> ty = ''number''
     | VFloat _ \<Rightarrow> ty = ''number'' | _ \<Rightarrow> False)"

definition ENV_REF :: rx where
  "ENV_REF = sq [lit ''env:'', Cls (\<lambda>c. is_upper c \<or> c = CHR ''_''), Rep 0 (Some 63) (Cls (\<lambda>c. is_upper c \<or> is_digit c \<or> c = CHR ''_''))]"

text \<open>\<open>re.fullmatch\<close>.\<close>

definition full_match :: "rx \<Rightarrow> string \<Rightarrow> bool" where
  "full_match r s \<longleftrightarrow> list_ex (\<lambda>q. snd q = []) (matches r (None, s))"

definition setting_of :: "pyval dict \<Rightarrow> config_field \<Rightarrow> plugin_exc + string \<times> pyval" where
  "setting_of values f =
     (case map_of values (cf_name f) of
        None \<Rightarrow> if cf_required f \<and> cf_default f = VNone then refuse ''setting is required'' else Inr (cf_name f, cf_default f)
      | Some v \<Rightarrow>
        if \<not> has_type (cf_type f) v then refuse ''setting has the wrong type''
        else if cf_secret f \<and> \<not> (case v of VStr s \<Rightarrow> full_match ENV_REF s | _ \<Rightarrow> False) then refuse ''setting is a secret: give it as env:VARIABLE_NAME, not the value''
        else Inr (cf_name f, v))"

definition validate_config :: "manifest \<Rightarrow> pyval dict \<Rightarrow> plugin_exc + pyval dict" where
  "validate_config m values =
     (if extra_keys values (map cf_name (mf_config m)) \<noteq> [] then refuse ''unknown setting(s)'' else map_r (setting_of values) (mf_config m))"

definition check_plugin_grant :: "manifest \<Rightarrow> string list \<Rightarrow> plugin_exc + unit" where
  "check_plugin_grant m granted = (if set granted \<noteq> set (mf_permissions m) then refuse ''grant must match the declared permissions'' else Inr ())"

section \<open>The host\<close>

definition QUARANTINE_AFTER :: nat where "QUARANTINE_AFTER = 3"
definition MAX_RESULT_BYTES :: int where "MAX_RESULT_BYTES = 256000"
definition MAX_OUTPUT_BYTES :: int where "MAX_OUTPUT_BYTES = 2048 * 1024"

record plugin_row =
  pg_name :: string
  pg_version :: string
  pg_state :: plugin_state
  pg_granted :: "string list"
  pg_config :: "pyval dict"
  pg_failures :: nat
  pg_error :: "string option"
  pg_by :: string

record plugin_event =
  pe_plugin :: string
  pe_type :: string
  pe_capability :: "string option"
  pe_outcome :: string

record discovered =
  dc_name :: string
  dc_source :: string
  dc_manifest :: "manifest option"
  dc_error :: "string option"
  dc_dir :: "string option"
  dc_instance :: "nat option"

text \<open>Every time code of a plugin is executed: a process started, an instance initialised, a capability entered.\<close>

datatype plugin_call = Spawned "string list" string "pyval dict" | Initialized nat "pyval dict" | Entered nat string "pyval dict" | Probed nat

text \<open>The tables, the host's own memory (the discovered plugins and the running instances), and the executed calls.\<close>

record plugin_world =
  pw_rows :: "plugin_row list"
  pw_events :: "plugin_event list"
  pw_found :: "discovered list"
  pw_live :: "(string \<times> nat) list"
  pw_calls :: "plugin_call list"

text \<open>Reading \<open>plugin.yaml\<close>: the errors that discovery expects, and others (a text that does not decode).\<close>

datatype read_error = Expected string | Unexpected string

text \<open>What a process did: it was stopped by the timeout, or it ended with a status, output, and error output.\<close>

datatype process_end = Timeout | Ended int string string

record plugin_env =
  px_show :: "pyval \<Rightarrow> string"
  px_version :: string
  px_in_process :: "(string \<times> string \<times> (string + nat \<times> pyval)) list"
  px_dirs :: "(string \<times> (read_error + pyval)) list"
  px_resolve :: "string \<Rightarrow> string \<Rightarrow> string list"
  px_spawn :: "nat \<Rightarrow> string list \<Rightarrow> string \<Rightarrow> pyval dict \<Rightarrow> process_end"
  px_init :: "nat \<Rightarrow> nat \<Rightarrow> pyval dict \<Rightarrow> plugin_exc option"
  px_enter :: "nat \<Rightarrow> nat \<Rightarrow> string \<Rightarrow> pyval dict \<Rightarrow> plugin_exc + pyval"
  px_health :: "nat \<Rightarrow> nat \<Rightarrow> plugin_exc + pyval dict"
  px_stop :: "nat \<Rightarrow> nat \<Rightarrow> bool"
  px_environ :: "string \<Rightarrow> string option"
  px_size :: "pyval \<Rightarrow> int"
  px_dumps :: "pyval \<Rightarrow> string option"
  px_loads :: "string \<Rightarrow> pyval option"

text \<open>\<open>str(exc)\<close> and the name of its class.\<close>

fun exc_text :: "plugin_exc \<Rightarrow> string" where
  "exc_text (PluginError s) = s"
| "exc_text (PluginDenied s) = s"
| "exc_text (PluginApprovalRequired s) = s"
| "exc_text (ProcessFailure s _) = s"
| "exc_text TimedOut = []"
| "exc_text (Misbehaved _ s) = s"
| "exc_text (Escaped s) = s"

subsection \<open>External processes\<close>

definition resolve_command :: "plugin_env \<Rightarrow> string list \<Rightarrow> string \<Rightarrow> plugin_exc + string list" where
  "resolve_command env command dir =
     (case command of [] \<Rightarrow> Inl (Escaped ''IndexError'')
      | head # rest \<Rightarrow>
        if CHR ''/'' \<in> set head \<or> prefix ''.'' head
        then (let target = px_resolve env dir head in
          if \<not> is_within target (px_resolve env dir []) then Inl (ProcessFailure ''command points outside the plugin directory'' False)
          else Inr ((CHR ''/'' # join ''/'' target) # rest))
        else Inr command)"

text \<open>The last line of the output, as a JSON object. The quoting of the words for the shell is \<open>shlex.quote\<close>'s; the limits bound the process.\<close>

definition last_line :: "string \<Rightarrow> string option" where
  "last_line out =
     (let breaks = (\<lambda>c. if c \<in> {CHR 0x0B, CHR 0x0C, CHR 0x0D, CHR 0x1C, CHR 0x1D, CHR 0x1E} then CHR 0x0A else c); s = str_strip out in
      if s = [] then None else Some (drop (length s - length (last (split_on (CHR 0x0A) (map breaks s)))) s))"

definition process_reply :: "plugin_env \<Rightarrow> process_end \<Rightarrow> plugin_exc + pyval dict" where
  "process_reply env r =
     (case r of Timeout \<Rightarrow> Inl (ProcessFailure ''timed out'' True)
      | Ended status out err \<Rightarrow>
        if status \<noteq> 0 then Inl (ProcessFailure (''exited with a status'' @ (if err = [] then [] else '': '' @ drop (length err - 300) err)) False)
        else if int (length out) > MAX_OUTPUT_BYTES then Inl (ProcessFailure ''produced more output than allowed'' False)
        else (case Option.bind (last_line out) (px_loads env) of None \<Rightarrow> Inl (ProcessFailure ''did not answer with a JSON line'' False)
          | Some (VDict d) \<Rightarrow> Inr d
          | Some _ \<Rightarrow> Inl (ProcessFailure ''answered with something other than a JSON object'' False)))"

definition process_call :: "plugin_env \<Rightarrow> nat \<Rightarrow> string list \<Rightarrow> string \<Rightarrow> pyval dict \<Rightarrow> plugin_world \<Rightarrow> (plugin_exc + pyval dict) \<times> plugin_world" where
  "process_call env k command dir request w =
     (case resolve_command env command dir of Inl e \<Rightarrow> (Inl e, w)
      | Inr argv \<Rightarrow> (process_reply env (px_spawn env k argv dir request), w\<lparr>pw_calls := pw_calls w @ [Spawned argv dir request]\<rparr>))"

subsection \<open>Tables\<close>

definition log_event :: "string \<Rightarrow> string \<Rightarrow> string option \<Rightarrow> string \<Rightarrow> plugin_world \<Rightarrow> plugin_world" where
  "log_event name ty cap res w = w\<lparr>pw_events := pw_events w @ [\<lparr>pe_plugin = name, pe_type = ty, pe_capability = cap, pe_outcome = res\<rparr>]\<rparr>"

definition save_plugin :: "string \<Rightarrow> string \<Rightarrow> string list \<Rightarrow> pyval dict \<Rightarrow> string \<Rightarrow> plugin_world \<Rightarrow> plugin_world" where
  "save_plugin name version granted config by_whom w =
     (let r = \<lparr>pg_name = name, pg_version = version, pg_state = P_ENABLED, pg_granted = granted, pg_config = config, pg_failures = 0, pg_error = None, pg_by = by_whom\<rparr> in
      w\<lparr>pw_rows := if has_row pg_name name (pw_rows w) then update_row pg_name name (\<lambda>_. r) (pw_rows w) else pw_rows w @ [r]\<rparr>)"

definition mark_row :: "plugin_state \<times> string \<Rightarrow> plugin_row \<Rightarrow> plugin_row" where
  "mark_row = (\<lambda>(st, by_whom) r. r\<lparr>pg_state := st, pg_by := by_whom\<rparr>)"

definition set_plugin_state :: "string \<Rightarrow> plugin_state \<Rightarrow> string \<Rightarrow> plugin_world \<Rightarrow> plugin_world" where
  "set_plugin_state name st by_whom w = w\<lparr>pw_rows := update_row pg_name name (mark_row (st, by_whom)) (pw_rows w)\<rparr>"

text \<open>\<open>record_outcome\<close>: a success clears the count; a failure raises it and may quarantine an enabled plugin.\<close>

definition outcome_row :: "string option \<Rightarrow> plugin_row \<Rightarrow> plugin_row" where
  "outcome_row err r =
     (case err of None \<Rightarrow> r\<lparr>pg_failures := 0\<rparr>
      | Some e \<Rightarrow> r\<lparr>pg_failures := Suc (pg_failures r), pg_error := Some (take 300 e),
          pg_state := if Suc (pg_failures r) \<ge> QUARANTINE_AFTER \<and> pg_state r = P_ENABLED then P_QUARANTINED else pg_state r\<rparr>)"

definition quarantines :: "plugin_row \<Rightarrow> bool" where
  "quarantines r \<longleftrightarrow> Suc (pg_failures r) \<ge> QUARANTINE_AFTER \<and> pg_state r = P_ENABLED"

definition record_plugin_outcome :: "string \<Rightarrow> string option \<Rightarrow> plugin_world \<Rightarrow> bool \<times> plugin_world" where
  "record_plugin_outcome name err w =
     (err \<noteq> None \<and> (case find_row pg_name name (pw_rows w) of None \<Rightarrow> False | Some r \<Rightarrow> quarantines r),
      w\<lparr>pw_rows := update_row pg_name name (outcome_row err) (pw_rows w)\<rparr>)"

subsection \<open>Discovery\<close>

definition broken :: "string \<Rightarrow> string \<Rightarrow> string \<Rightarrow> discovered" where
  "broken name source msg = \<lparr>dc_name = name, dc_source = source, dc_manifest = None, dc_error = Some (take 300 msg), dc_dir = None, dc_instance = None\<rparr>"

definition from_instance :: "plugin_env \<Rightarrow> string \<times> string \<times> (string + nat \<times> pyval) \<Rightarrow> discovered" where
  "from_instance env = (\<lambda>(name, source, made). case made of Inl msg \<Rightarrow> broken name source msg
     | Inr (i, doc) \<Rightarrow> (case parse_manifest (px_show env) doc of Inl e \<Rightarrow> broken name source (''PluginError: '' @ exc_text e)
       | Inr m \<Rightarrow> if mf_trust m \<noteq> TRUSTED then broken name source ''PluginError: a plugin loaded in-process must declare trust: trusted''
           else \<lparr>dc_name = mf_name m, dc_source = source, dc_manifest = Some m, dc_error = None, dc_dir = None, dc_instance = Some i\<rparr>))"

text \<open>Only \<open>OSError\<close>, \<open>YAMLError\<close>, \<open>PluginError\<close> and \<open>ProcessFailure\<close> are caught here.\<close>

definition from_directory :: "plugin_env \<Rightarrow> string \<times> (read_error + pyval) \<Rightarrow> plugin_exc + discovered" where
  "from_directory env = (\<lambda>(dir, r). let source = ''dir:'' @ dir in
     case r of Inl (Expected msg) \<Rightarrow> Inr (broken dir source msg) | Inl (Unexpected msg) \<Rightarrow> Inl (Escaped msg)
     | Inr doc \<Rightarrow>
       (case bind_r (parse_manifest (px_show env) doc) (\<lambda>m.
           if mf_trust m \<noteq> EXTERNAL_PROCESS then refuse ''a plugin found in the plugin directory cannot run in-process; install it as a package''
           else if mf_name m \<noteq> dir then refuse ''the directory name must match the plugin name''
           else bind_r (resolve_command env (mf_command m) dir) (\<lambda>_. Inr m)) of
          Inl (Escaped s) \<Rightarrow> Inl (Escaped s)
        | Inl e \<Rightarrow> Inr (broken dir source (exc_text e))
        | Inr m \<Rightarrow> Inr \<lparr>dc_name = mf_name m, dc_source = source, dc_manifest = Some m, dc_error = None, dc_dir = Some dir, dc_instance = None\<rparr>))"

definition add_discovered :: "discovered list \<Rightarrow> discovered \<Rightarrow> discovered list" where
  "add_discovered found d =
     (if has_row dc_name (dc_name d) found
      then update_row dc_name (dc_name d) (\<lambda>o'. o'\<lparr>dc_error := Some (case dc_error o' of Some e \<Rightarrow> (if e = [] then ''another plugin has this name'' else e)
        | None \<Rightarrow> ''another plugin has this name'')\<rparr>) found
      else found @ [d])"

definition discover :: "plugin_env \<Rightarrow> plugin_world \<Rightarrow> (plugin_exc + unit) \<times> plugin_world" where
  "discover env w =
     (case map_r (from_directory env) (px_dirs env) of Inl e \<Rightarrow> (Inl e, w)
      | Inr ds \<Rightarrow> (Inr (), w\<lparr>pw_found := foldl add_discovered [] (map (from_instance env) (px_in_process env) @ ds)\<rparr>))"

definition get_plugin :: "plugin_env \<Rightarrow> string \<Rightarrow> plugin_world \<Rightarrow> (plugin_exc + discovered) \<times> plugin_world" where
  "get_plugin env name w =
     (case (if has_row dc_name name (pw_found w) then (Inr (), w) else discover env w) of (Inl e, w1) \<Rightarrow> (Inl e, w1)
      | (Inr _, w1) \<Rightarrow> ((case find_row dc_name name (pw_found w1) of None \<Rightarrow> refuse ''no such plugin'' | Some d \<Rightarrow> Inr d), w1))"

subsection \<open>Lifecycle\<close>

text \<open>References \<open>env:NAME\<close> of secret fields are replaced by the value of the variable.\<close>

definition secret_value :: "plugin_env \<Rightarrow> pyval dict \<Rightarrow> config_field \<Rightarrow> plugin_exc + (string \<times> pyval) option" where
  "secret_value env settings f =
     (if \<not> cf_secret f then Inr None
      else (case map_of settings (cf_name f) of
          Some (VStr s) \<Rightarrow> if prefix ''env:'' s then (case px_environ env (drop 4 s) of None \<Rightarrow> refuse ''environment variable is not set''
              | Some v \<Rightarrow> Inr (Some (cf_name f, VStr v))) else Inr None
        | _ \<Rightarrow> Inr None))"

definition put_secret :: "pyval dict \<Rightarrow> (string \<times> pyval) option \<Rightarrow> pyval dict" where
  "put_secret out v = (case v of None \<Rightarrow> out | Some (n, x) \<Rightarrow> AList.update n x out)"

definition resolve_secrets :: "plugin_env \<Rightarrow> manifest \<Rightarrow> pyval dict \<Rightarrow> plugin_exc + pyval dict" where
  "resolve_secrets env m settings =
     bind_r (map_r (secret_value env settings) (mf_config m)) (\<lambda>vs.
       Inr (foldl put_secret settings vs))"

text \<open>What a started plugin answers to a health request.\<close>

definition health_request :: "plugin_env \<Rightarrow> nat \<Rightarrow> discovered \<Rightarrow> manifest \<Rightarrow> pyval dict \<Rightarrow> plugin_world \<Rightarrow> (plugin_exc + pyval dict) \<times> plugin_world" where
  "health_request env k d m settings w =
     (case dc_dir d of None \<Rightarrow> (refuse ''no directory to run from'', w)
      | Some dir \<Rightarrow> (case resolve_secrets env m settings of Inl e \<Rightarrow> (Inl e, w)
        | Inr cfg \<Rightarrow> process_call env k (mf_command m) dir [(''op'', VStr ''health''), (''config'', VDict cfg)] w))"

text \<open>\<open>_start\<close>: whatever goes wrong is a \<open>PluginError\<close>.\<close>

definition wrap_start :: "plugin_exc \<Rightarrow> plugin_exc" where
  "wrap_start e = (case e of PluginError s \<Rightarrow> PluginError s | _ \<Rightarrow> PluginError (''did not start: '' @ take 200 (redact_secrets (exc_text e))))"

definition start_plugin :: "plugin_env \<Rightarrow> nat \<Rightarrow> discovered \<Rightarrow> manifest \<Rightarrow> pyval dict \<Rightarrow> plugin_world \<Rightarrow> (plugin_exc + unit) \<times> plugin_world" where
  "start_plugin env k d m settings w =
     (case (mf_trust m, dc_instance d) of
        (TRUSTED, Some i) \<Rightarrow>
          (let w1 = w\<lparr>pw_calls := pw_calls w @ [Initialized i settings]\<rparr> in
           case px_init env k i settings of Some e \<Rightarrow> (Inl (wrap_start e), w1)
           | None \<Rightarrow> (Inr (), w1\<lparr>pw_live := AList.update (dc_name d) i (pw_live w1)\<rparr>))
      | _ \<Rightarrow>
          (case health_request env k d m settings w of (Inl e, w1) \<Rightarrow> (Inl (wrap_start e), w1)
           | (Inr reply, w1) \<Rightarrow>
             if truthy (dget reply ''ok'' VNone) then (Inr (), w1)
             else (refuse (py_str (px_show env) (dget reply ''error'' (VStr ''health check failed''))), w1)))"

definition enable_plugin :: "plugin_env \<Rightarrow> nat \<Rightarrow> string \<Rightarrow> string list \<Rightarrow> pyval dict \<Rightarrow> string \<Rightarrow> plugin_world \<Rightarrow> (plugin_exc + unit) \<times> plugin_world" where
  "enable_plugin env k name grant config by_whom w =
     (case get_plugin env name w of (Inl e, w1) \<Rightarrow> (Inl e, w1)
      | (Inr d, w1) \<Rightarrow> (case dc_manifest d of None \<Rightarrow> (refuse ''the manifest is not valid'', w1)
        | Some m \<Rightarrow> (case bind_r (check_compatible m (px_version env)) (\<lambda>_. bind_r (check_plugin_grant m grant) (\<lambda>_. validate_config m config)) of
            Inl e \<Rightarrow> (Inl e, w1)
          | Inr settings \<Rightarrow> (case start_plugin env k d m settings w1 of (Inl e, w2) \<Rightarrow> (Inl e, w2)
            | (Inr _, w2) \<Rightarrow> (Inr (), log_event name ''enabled'' None ''ok'' (save_plugin name (mf_version m) grant settings by_whom w2))))))"

definition stop_plugin :: "plugin_env \<Rightarrow> nat \<Rightarrow> string \<Rightarrow> plugin_world \<Rightarrow> plugin_world" where
  "stop_plugin env k name w =
     (case map_of (pw_live w) name of None \<Rightarrow> w
      | Some i \<Rightarrow> (let w1 = w\<lparr>pw_live := AList.delete name (pw_live w)\<rparr> in
          if px_stop env k i then w1 else log_event name ''shutdown_failed'' None ''error'' w1))"

definition disable_plugin :: "plugin_env \<Rightarrow> nat \<Rightarrow> string \<Rightarrow> string \<Rightarrow> plugin_world \<Rightarrow> (plugin_exc + unit) \<times> plugin_world" where
  "disable_plugin env k name by_whom w =
     (if \<not> has_row pg_name name (pw_rows w) then (refuse ''is not enabled'', w)
      else (Inr (), stop_plugin env k name (log_event name ''disabled'' None ''ok'' (set_plugin_state name P_DISABLED by_whom w))))"

text \<open>\<open>restore\<close>: the plugins that were enabled, in the order of their names; one that does not start is quarantined. Other exceptions end the loop.\<close>

definition restore_one :: "plugin_env \<Rightarrow> nat \<Rightarrow> plugin_row \<Rightarrow> plugin_world \<Rightarrow> (plugin_exc + unit) \<times> plugin_world" where
  "restore_one env k row w =
     (case get_plugin env (pg_name row) w of (Inl e, w1) \<Rightarrow> (Inl e, w1)
      | (Inr d, w1) \<Rightarrow> (case dc_manifest d of None \<Rightarrow> (refuse ''installed version differs from the version that was enabled'', w1)
        | Some m \<Rightarrow> if mf_version m \<noteq> pg_version row then (refuse ''installed version differs from the version that was enabled'', w1)
            else start_plugin env k d m (pg_config row) w1))"

primrec restore_rows :: "plugin_env \<Rightarrow> nat \<Rightarrow> plugin_row list \<Rightarrow> plugin_world \<Rightarrow> (plugin_exc + string list) \<times> plugin_world" where
  "restore_rows env k [] w = (Inr [], w)"
| "restore_rows env k (row # rows) w =
     (case restore_one env k row w of
        (Inr _, w1) \<Rightarrow> restore_rows env (Suc k) rows w1
      | (Inl e, w1) \<Rightarrow> (case e of
            PluginError s \<Rightarrow> (case restore_rows env (Suc k) rows (log_event (pg_name row) ''restore_failed'' None ''error''
                (set_plugin_state (pg_name row) P_QUARANTINED ''restore'' w1)) of
                (Inl e2, w2) \<Rightarrow> (Inl e2, w2) | (Inr names, w2) \<Rightarrow> (Inr (pg_name row # names), w2))
          | _ \<Rightarrow> (Inl e, w1)))"

definition restore_plugins :: "plugin_env \<Rightarrow> nat \<Rightarrow> plugin_world \<Rightarrow> (plugin_exc + string list) \<times> plugin_world" where
  "restore_plugins env k w = restore_rows env k (filter (\<lambda>r. pg_state r = P_ENABLED) (sort_key pg_name (pw_rows w))) w"

text \<open>A new process has neither discovered plugins nor running instances.\<close>

definition restart_host :: "plugin_world \<Rightarrow> plugin_world" where
  "restart_host w = w\<lparr>pw_found := [], pw_live := []\<rparr>"

definition is_enabled :: "string \<Rightarrow> plugin_world \<Rightarrow> bool" where
  "is_enabled name w \<longleftrightarrow> (case find_row pg_name name (pw_rows w) of None \<Rightarrow> False | Some r \<Rightarrow> pg_state r = P_ENABLED)"

text \<open>The workflow actions of enabled tool plugins.\<close>

definition tool_actions :: "plugin_world \<Rightarrow> action_info dict" where
  "tool_actions w = concat (map (\<lambda>d. case dc_manifest d of None \<Rightarrow> []
     | Some m \<Rightarrow> if is_enabled (dc_name d) w \<and> mf_kind m = K_TOOL
         then map (\<lambda>(n, c). (''plugin.'' @ dc_name d @ ''.'' @ cp_name c, \<lparr>ai_effect = cp_effect c, ai_idempotent = cp_idempotent c, ai_discloses = [''artifact''],
           ai_network_host = []\<rparr>)) (mf_capabilities m) else []) (pw_found w))"

text \<open>\<open>health\<close>: whether the plugin says it is well, and what it says.\<close>

definition health_report :: "plugin_env \<Rightarrow> plugin_exc + pyval dict \<Rightarrow> bool \<times> string" where
  "health_report env r =
     (case r of Inl e \<Rightarrow> (False, take 200 (redact_secrets (exc_text e)))
      | Inr d \<Rightarrow> (truthy (dget d ''ok'' (VBool True)), take 200 (py_str (px_show env) (dget d ''detail'' (dget d ''error'' (VStr []))))))"

definition plugin_health :: "plugin_env \<Rightarrow> nat \<Rightarrow> string \<Rightarrow> plugin_world \<Rightarrow> (plugin_exc + bool \<times> string) \<times> plugin_world" where
  "plugin_health env k name w =
     (case get_plugin env name w of (Inl e, w1) \<Rightarrow> (Inl e, w1)
      | (Inr d, w1) \<Rightarrow>
        (case (find_row pg_name name (pw_rows w1), dc_manifest d) of
           (Some row, Some m) \<Rightarrow>
             if pg_state row \<noteq> P_ENABLED then (Inr (False, ''not enabled''), w1)
             else (case (mf_trust m, dc_instance d) of
                 (TRUSTED, Some i) \<Rightarrow> (Inr (health_report env (px_health env k i)), w1\<lparr>pw_calls := pw_calls w1 @ [Probed i]\<rparr>)
               | _ \<Rightarrow> (case health_request env k d m (pg_config row) w1 of (r, w2) \<Rightarrow> (Inr (health_report env r), w2)))
         | _ \<Rightarrow> (Inr (False, ''not enabled''), w1)))"

subsection \<open>Calls\<close>

definition enter_trusted :: "plugin_env \<Rightarrow> nat \<Rightarrow> discovered \<Rightarrow> string \<Rightarrow> pyval dict \<Rightarrow> plugin_world \<Rightarrow> (plugin_exc + pyval) \<times> plugin_world" where
  "enter_trusted env k d cap args w =
     (case map_of (pw_live w) (dc_name d) of None \<Rightarrow> (refuse ''is not running; restart or re-enable it'', w)
      | Some i \<Rightarrow> (px_enter env k i cap args, w\<lparr>pw_calls := pw_calls w @ [Entered i cap args]\<rparr>))"

definition enter_external :: "plugin_env \<Rightarrow> nat \<Rightarrow> discovered \<Rightarrow> manifest \<Rightarrow> pyval dict \<Rightarrow> string \<Rightarrow> pyval dict \<Rightarrow> plugin_world
    \<Rightarrow> (plugin_exc + pyval) \<times> plugin_world" where
  "enter_external env k d m settings cap args w =
     (case dc_dir d of None \<Rightarrow> (refuse ''no directory to run from'', w)
      | Some dir \<Rightarrow> (case resolve_secrets env m settings of Inl e \<Rightarrow> (Inl e, w)
        | Inr cfg \<Rightarrow>
          (case process_call env k (mf_command m) dir
              [(''op'', VStr ''invoke''), (''capability'', VStr cap), (''args'', VDict args), (''config'', VDict cfg)] w of
             (Inl e, w1) \<Rightarrow> (Inl e, w1)
           | (Inr answer, w1) \<Rightarrow>
             if truthy (dget answer ''ok'' VNone) then (Inr (dget answer ''result'' VNone), w1)
             else (refuse (py_str (px_show env) (dget answer ''error'' (VStr ''the plugin reported an error''))), w1))))"

definition check_reply :: "plugin_env \<Rightarrow> pyval \<Rightarrow> plugin_exc + pyval" where
  "check_reply env reply =
     (if as_dict reply = None then refuse ''the plugin must answer with an object''
      else if px_size env reply > MAX_RESULT_BYTES then refuse ''the answer is larger than allowed'' else Inr reply)"

definition run_plugin :: "plugin_env \<Rightarrow> nat \<Rightarrow> discovered \<Rightarrow> manifest \<Rightarrow> pyval dict \<Rightarrow> string \<Rightarrow> pyval dict \<Rightarrow> plugin_world
    \<Rightarrow> (plugin_exc + pyval) \<times> plugin_world" where
  "run_plugin env k d m settings cap args w =
     (case (if mf_trust m = TRUSTED then enter_trusted env k d cap args w else enter_external env k d m settings cap args w) of
        (r, w1) \<Rightarrow> (bind_r r (check_reply env), w1))"

text \<open>The result without secrets: \<open>json.loads(redact_secrets(json.dumps(result)))\<close>.\<close>

definition redact_result :: "plugin_env \<Rightarrow> pyval \<Rightarrow> plugin_exc + pyval" where
  "redact_result env v =
     (case px_dumps env v of None \<Rightarrow> Inl (Escaped ''TypeError'')
      | Some s \<Rightarrow> (case px_loads env (redact_secrets s) of None \<Rightarrow> Inl (Escaped ''JSONDecodeError'') | Some x \<Rightarrow> Inr x))"

definition plugin_failure :: "string \<Rightarrow> plugin_exc \<Rightarrow> failure_kind \<times> string" where
  "plugin_failure name e =
     (case e of Misbehaved kd s \<Rightarrow> (kd, s)
      | TimedOut \<Rightarrow> (TOOL_TIMEOUT, ''plugin '' @ name @ '' timed out'')
      | ProcessFailure s True \<Rightarrow> (TOOL_TIMEOUT, ''plugin '' @ name @ '' timed out'')
      | _ \<Rightarrow> (PLUGIN_FAILURE, ''plugin '' @ name @ '' failed: '' @ take 200 (redact_secrets (exc_text e))))"

definition after_call :: "string \<Rightarrow> string \<Rightarrow> plugin_exc + pyval \<Rightarrow> plugin_world \<Rightarrow> (plugin_exc + pyval) \<times> plugin_world" where
  "after_call name cap r w =
     (case r of
        Inr v \<Rightarrow> (Inr v, log_event name ''invoked'' (Some cap) ''ok'' (snd (record_plugin_outcome name None w)))
      | Inl e \<Rightarrow>
        (case plugin_failure name e of (kd, detail) \<Rightarrow>
           (case record_plugin_outcome name (Some detail) w of (quarantined, w1) \<Rightarrow>
              let w2 = log_event name ''invoke_failed'' (Some cap) ''error'' w1 in
              (Inl (Misbehaved kd detail), if quarantined then log_event name ''quarantined'' None ''error'' w2 else w2))))"

definition invoke_plugin :: "plugin_env \<Rightarrow> nat \<Rightarrow> string \<Rightarrow> string \<Rightarrow> pyval dict \<Rightarrow> policy list \<Rightarrow> bool \<Rightarrow> plugin_world \<Rightarrow> (plugin_exc + pyval) \<times> plugin_world" where
  "invoke_plugin env k name cap args chain approved w =
     (case get_plugin env name w of (Inl e, w1) \<Rightarrow> (Inl e, w1)
      | (Inr d, w1) \<Rightarrow>
        (case (find_row pg_name name (pw_rows w1), dc_manifest d) of
           (Some row, Some m) \<Rightarrow>
             if pg_state row \<noteq> P_ENABLED then (refuse ''is not enabled'', w1)
             else (case map_of (mf_capabilities m) cap of None \<Rightarrow> (refuse ''has no such capability'', w1)
               | Some c \<Rightarrow>
                 if px_size env (VDict args) > MAX_ARGS_BYTES then (refuse ''arguments must be an object of at most 256 KB'', w1)
                 else (let verdict = evaluate_policy chain (''plugin.'' @ name @ ''.'' @ cap) (Some (cp_effect c)) in
                   if pd_result verdict = DENY then (Inl (PluginDenied (pd_reason verdict)), log_event name ''denied'' (Some cap) ''denied'' w1)
                   else if approval_required verdict \<and> \<not> approved
                     then (Inl (PluginApprovalRequired (pd_reason verdict)), log_event name ''needs_approval'' (Some cap) ''denied'' w1)
                   else (case run_plugin env k d m (pg_config row) cap args w1 of (r, w2) \<Rightarrow> after_call name cap (bind_r r (redact_result env)) w2)))
         | _ \<Rightarrow> (refuse ''is not enabled'', w1)))"

section \<open>Accepted manifests\<close>

definition field_ok :: "string list \<Rightarrow> config_field \<Rightarrow> bool" where
  "field_ok perms f \<longleftrightarrow> cf_type f \<in> set FIELD_TYPES \<and> (cf_secret f \<longrightarrow> cf_type f = ''string'' \<and> ''secrets.read'' \<in> set perms)"

definition manifest_ok :: "manifest \<Rightarrow> bool" where
  "manifest_ok m \<longleftrightarrow> matches_start PLUGIN_NAME (mf_name m) \<and> matches_start VERSION (mf_version m) \<and>
     mf_capabilities m \<noteq> [] \<and> length (mf_capabilities m) \<le> 50 \<and> list_all (\<lambda>(n, c). cp_name c = n \<and> matches_start CAP_NAME n) (mf_capabilities m) \<and>
     set (mf_permissions m) \<subseteq> set PERMISSIONS \<and> list_all (field_ok (mf_permissions m)) (mf_config m) \<and>
     (if mf_trust m = TRUSTED then mf_command m = [] else mf_command m \<noteq> [] \<and> [] \<notin> set (mf_command m))"

lemma parse_field_ok: "parse_field perms nf = Inr f \<Longrightarrow> field_ok perms f"
  by (cases nf) (auto simp: parse_field_def field_ok_def refuse_def split: option.splits if_splits pyval.splits)

lemma parse_fields_ok:
  assumes "parse_fields perms doc = Inr fs"
  shows "list_all (field_ok perms) fs"
proof -
  obtain d where "map_r (parse_field perms) d = Inr fs" using assms by (auto simp: parse_fields_def split: option.splits)
  then show ?thesis using map_r_all parse_field_ok unfolding list_all_iff by blast
qed

lemma parse_capability_ok: "parse_capability show_val nc = Inr (n, c) \<Longrightarrow> cp_name c = n \<and> matches_start CAP_NAME n"
  by (cases nc) (auto simp: parse_capability_def refuse_def split: option.splits if_splits)

lemma parse_capabilities_ok:
  assumes "parse_capabilities show_val doc = Inr cs"
  shows "cs \<noteq> [] \<and> length cs \<le> 50 \<and> list_all (\<lambda>(n, c). cp_name c = n \<and> matches_start CAP_NAME n) cs"
proof -
  obtain d where d: "d \<noteq> []" "length d \<le> 50" "map_r (parse_capability show_val) d = Inr cs"
    using assms by (auto simp: parse_capabilities_def refuse_def split: option.splits if_splits)
  have "\<forall>nc \<in> set cs. cp_name (snd nc) = fst nc \<and> matches_start CAP_NAME (fst nc)"
    by (rule map_r_all [OF d(3)]) (metis parse_capability_ok prod.collapse)
  then show ?thesis using d(1,2) map_r_length [OF d(3)] by (auto simp: list_all_iff)
qed

lemma parse_command_ok:
  "parse_command tr doc = Inr (Some cs) \<Longrightarrow> if tr = TRUSTED then cs = [] else cs \<noteq> [] \<and> [] \<notin> set cs"
  by (cases tr) (auto simp: parse_command_def Let_def refuse_def split: option.splits if_splits)

text \<open>An accepted manifest is well formed: every secret setting comes with the permission to read secrets, and a command belongs exactly to plugins that run as processes.\<close>

lemma accepted_manifest:
  assumes "parse_manifest show_val v = Inr m"
  shows "manifest_ok m"
proof -
  obtain doc name version kd tr perms caps fs cs where d: "v = VDict doc" "matches_start PLUGIN_NAME name" "matches_start VERSION version"
    "parse_permissions doc = Inr perms" "parse_capabilities show_val doc = Inr caps" "parse_fields perms doc = Inr fs"
    "parse_command tr doc = Inr (Some cs)"
    and m: "mf_name m = name" "mf_version m = version" "mf_trust m = tr" "mf_capabilities m = caps" "mf_permissions m = perms" "mf_config m = fs" "mf_command m = cs"
    using assms unfolding parse_manifest_def refuse_def
    by (auto simp: bind_r_Inr Let_def split: pyval.splits if_splits option.splits)
  have "set perms \<subseteq> set PERMISSIONS" using d(4) by (auto simp: parse_permissions_def refuse_def list_all_iff split: option.splits if_splits)
  then show ?thesis using d parse_capabilities_ok [OF d(5)] parse_fields_ok [OF d(6)] parse_command_ok [OF d(7)] unfolding manifest_ok_def m by simp
qed

text \<open>
  C13: A manifest that is accepted is well formed: name and version have their form; there are between one and fifty capabilities, each under its own well-formed
  name; only known permissions are asked for; every setting has a known type, and one that is declared secret is a string and comes with the permission to read
  secrets; a command, with no empty word, belongs exactly to the plugins that run as processes of their own.
\<close>

theorem accepted_manifest_well_formed:
  assumes "parse_manifest show_val v = Inr m"
  shows "matches_start PLUGIN_NAME (mf_name m) \<and> matches_start VERSION (mf_version m) \<and>
    1 \<le> length (mf_capabilities m) \<and> length (mf_capabilities m) \<le> 50 \<and>
    (\<forall>(n, c) \<in> set (mf_capabilities m). cp_name c = n \<and> matches_start CAP_NAME n) \<and> set (mf_permissions m) \<subseteq> set PERMISSIONS \<and>
    (\<forall>f \<in> set (mf_config m). cf_type f \<in> set FIELD_TYPES \<and> (cf_secret f \<longrightarrow> cf_type f = ''string'' \<and> ''secrets.read'' \<in> set (mf_permissions m))) \<and>
    (mf_trust m = TRUSTED \<longleftrightarrow> mf_command m = []) \<and> [] \<notin> set (mf_command m)"
  using accepted_manifest [OF assms] unfolding manifest_ok_def field_ok_def list_all_iff
  by (cases "mf_trust m = TRUSTED") (simp_all add: Suc_le_eq)

section \<open>What the host keeps true\<close>

interpretation marked_plugins: row_update pg_name mark_row
  by unfold_locales (simp add: mark_row_def split: prod.splits)

interpretation counted_plugins: row_update pg_name outcome_row
  by unfold_locales (simp add: outcome_row_def split: option.splits)

text \<open>The failures of a plugin in a row, as the events (newest first) tell them: a success or a new grant ends the row.\<close>

fun streak :: "string \<Rightarrow> plugin_event list \<Rightarrow> nat" where
  "streak n [] = 0"
| "streak n (e # es) =
     (if pe_plugin e \<noteq> n then streak n es
      else if pe_type e = ''invoke_failed'' then Suc (streak n es)
      else if pe_type e = ''invoked'' \<or> pe_type e = ''enabled'' then 0 else streak n es)"

definition row_ok :: "plugin_event list \<Rightarrow> plugin_row \<Rightarrow> bool" where
  "row_ok es r \<longleftrightarrow> pg_failures r = streak (pg_name r) (rev es) \<and> (pg_state r = P_ENABLED \<longrightarrow> pg_failures r < QUARANTINE_AFTER)"

definition found_ok :: "discovered list \<Rightarrow> bool" where
  "found_ok ds \<longleftrightarrow> (\<forall>d \<in> set ds. \<forall>m. dc_manifest d = Some m \<longrightarrow> manifest_ok m)"

definition plugin_world_ok :: "plugin_world \<Rightarrow> bool" where
  "plugin_world_ok w \<longleftrightarrow> distinct (map pg_name (pw_rows w)) \<and> (\<forall>r \<in> set (pw_rows w). row_ok (pw_events w) r) \<and> found_ok (pw_found w)"

lemma world_ok_frame:
  "plugin_world_ok w \<Longrightarrow> pw_rows w' = pw_rows w \<Longrightarrow> pw_events w' = pw_events w \<Longrightarrow> found_ok (pw_found w') \<Longrightarrow> plugin_world_ok w'"
  by (simp add: plugin_world_ok_def)

lemma log_ok:
  assumes "plugin_world_ok w" "ty \<notin> {''invoke_failed'', ''invoked'', ''enabled''}"
  shows "plugin_world_ok (log_event n ty c res w)"
  using assms by (auto simp: plugin_world_ok_def log_event_def row_ok_def)

lemma mark_ok:
  assumes "plugin_world_ok w" "st \<noteq> P_ENABLED"
  shows "plugin_world_ok (set_plugin_state n st b w)"
proof -
  have "row_ok (pw_events w) r" if "r \<in> set (update_row pg_name n (mark_row (st, b)) (pw_rows w))" for r
    using marked_plugins.mem_update [OF that] assms by (auto simp: plugin_world_ok_def mark_row_def row_ok_def)
  then show ?thesis using assms by (simp add: plugin_world_ok_def set_plugin_state_def marked_plugins.keys_update)
qed

lemma row_ok_other: "row_ok es r \<Longrightarrow> pg_name r \<noteq> pe_plugin e \<Longrightarrow> row_ok (es @ [e]) r"
  by (auto simp: row_ok_def)

lemma save_ok:
  assumes "plugin_world_ok w"
  shows "plugin_world_ok (log_event n ''enabled'' c res (save_plugin n v g s b w))"
proof -
  let ?new = "\<lparr>pg_name = n, pg_version = v, pg_state = P_ENABLED, pg_granted = g, pg_config = s, pg_failures = 0, pg_error = None, pg_by = b\<rparr>"
  let ?w = "log_event n ''enabled'' c res (save_plugin n v g s b w)"
  have names: "distinct (map pg_name (pw_rows ?w))"
    using assms distinct_insert [of pg_name ?new "pw_rows w"] by (auto simp: plugin_world_ok_def log_event_def save_plugin_def Let_def update_row_def comp_def if_distrib cong: if_cong)
  have rows: "r = ?new \<or> r \<in> set (pw_rows w) \<and> pg_name r \<noteq> n" if "r \<in> set (pw_rows ?w)" for r
    using that by (auto simp: log_event_def save_plugin_def Let_def update_row_def has_row_def list_ex_iff split: if_splits)
  have "row_ok (pw_events ?w) r" if "r \<in> set (pw_rows ?w)" for r
    using rows [OF that] assms unfolding plugin_world_ok_def by (auto simp: log_event_def save_plugin_def Let_def row_ok_def QUARANTINE_AFTER_def)
  then show ?thesis using names assms by (simp add: plugin_world_ok_def log_event_def save_plugin_def Let_def)
qed

lemma outcome_ok:
  assumes "plugin_world_ok w"
  shows "plugin_world_ok (log_event n (if err = None then ''invoked'' else ''invoke_failed'') c res (snd (record_plugin_outcome n err w)))"
proof -
  let ?rows = "update_row pg_name n (outcome_row err) (pw_rows w)"
  let ?e = "\<lparr>pe_plugin = n, pe_type = if err = None then ''invoked'' else ''invoke_failed'', pe_capability = c, pe_outcome = res\<rparr>"
  have "row_ok (pw_events w @ [?e]) r" if "r \<in> set ?rows" for r
    using counted_plugins.mem_update [OF that]
  proof
    assume "r \<in> set (pw_rows w) \<and> pg_name r \<noteq> n"
    then show ?thesis using assms row_ok_other by (simp add: plugin_world_ok_def)
  next
    assume "\<exists>o' \<in> set (pw_rows w). pg_name o' = n \<and> r = outcome_row err o'"
    then obtain o' where "pg_name o' = n" "r = outcome_row err o'" "row_ok (pw_events w) o'" using assms unfolding plugin_world_ok_def by blast
    then show ?thesis by (cases err) (simp add: row_ok_def outcome_row_def QUARANTINE_AFTER_def, auto simp add: row_ok_def outcome_row_def QUARANTINE_AFTER_def)
  qed
  then show ?thesis
    using assms by (simp add: plugin_world_ok_def log_event_def record_plugin_outcome_def counted_plugins.keys_update)
qed

subsection \<open>What each operation leaves alone\<close>

lemma from_instance_ok: "dc_manifest (from_instance env x) = Some m \<Longrightarrow> manifest_ok m"
  by (auto simp: from_instance_def broken_def split: prod.splits sum.splits if_splits dest: accepted_manifest)

lemma process_call_frame:
  assumes "process_call env k command dir request w = (r, w')"
  shows "pw_rows w' = pw_rows w \<and> pw_events w' = pw_events w \<and> pw_found w' = pw_found w \<and> pw_live w' = pw_live w"
  using assms by (auto simp: process_call_def split: sum.splits)

lemma from_directory_ok:
  assumes "from_directory env x = Inr d" "dc_manifest d = Some m"
  shows "manifest_ok m"
proof -
  obtain dir doc where "parse_manifest (px_show env) doc = Inr m"
    using assms by (cases x) (auto simp: from_directory_def Let_def broken_def bind_r_Inr refuse_def split: sum.splits read_error.splits plugin_exc.splits if_splits)
  then show ?thesis by (rule accepted_manifest)
qed

lemma add_discovered_ok: "found_ok ds \<Longrightarrow> (\<And>m. dc_manifest d = Some m \<Longrightarrow> manifest_ok m) \<Longrightarrow> found_ok (add_discovered ds d)"
  by (auto simp: found_ok_def add_discovered_def update_row_def split: if_splits)

lemma add_all_ok:
  "found_ok ds \<Longrightarrow> (\<And>d m. d \<in> set es \<Longrightarrow> dc_manifest d = Some m \<Longrightarrow> manifest_ok m) \<Longrightarrow> found_ok (foldl add_discovered ds es)"
proof (induction es arbitrary: ds)
  case (Cons e es)
  have "found_ok (add_discovered ds e)" using Cons.prems by (intro add_discovered_ok) auto
  moreover have "\<And>d m. d \<in> set es \<Longrightarrow> dc_manifest d = Some m \<Longrightarrow> manifest_ok m" by (meson Cons.prems(2) list.set_intros(2))
  ultimately show ?case using Cons.IH by simp
qed simp

lemma discover_frame:
  assumes "discover env w = (r, w')"
  shows "pw_rows w' = pw_rows w \<and> pw_events w' = pw_events w \<and> pw_live w' = pw_live w \<and> pw_calls w' = pw_calls w \<and> (found_ok (pw_found w) \<longrightarrow> found_ok (pw_found w'))"
proof (cases "map_r (from_directory env) (px_dirs env)")
  case (Inl e)
  then show ?thesis using assms by (simp add: discover_def)
next
  case (Inr ds)
  have "\<forall>d \<in> set ds. \<forall>m. dc_manifest d = Some m \<longrightarrow> manifest_ok m" by (rule map_r_all [OF Inr]) (blast intro: from_directory_ok)
  then have "found_ok (foldl add_discovered [] (map (from_instance env) (px_in_process env) @ ds))"
    by (intro add_all_ok) (auto simp: found_ok_def dest: from_instance_ok)
  then show ?thesis using assms Inr by (auto simp: discover_def)
qed

lemma get_plugin_frame:
  assumes "get_plugin env n w = (r, w')"
  shows "pw_rows w' = pw_rows w \<and> pw_events w' = pw_events w \<and> pw_live w' = pw_live w \<and> pw_calls w' = pw_calls w \<and>
    (found_ok (pw_found w) \<longrightarrow> found_ok (pw_found w') \<and> (\<forall>d m. r = Inr d \<and> dc_manifest d = Some m \<longrightarrow> manifest_ok m))"
proof -
  obtain r1 w1 where 1: "(if has_row dc_name n (pw_found w) then (Inr (), w) else discover env w) = (r1, w1)" by fastforce
  have f: "pw_rows w1 = pw_rows w \<and> pw_events w1 = pw_events w \<and> pw_live w1 = pw_live w \<and> pw_calls w1 = pw_calls w \<and> (found_ok (pw_found w) \<longrightarrow> found_ok (pw_found w1))"
    using 1 discover_frame by (auto split: if_splits)
  have w': "w' = w1" using assms unfolding get_plugin_def 1 by (auto split: sum.splits)
  have "\<exists>d \<in> set (pw_found w1). r = Inr d" if "r = Inr d" for d
    using assms that unfolding get_plugin_def 1 by (auto simp: refuse_def split: sum.splits option.splits dest: find_row_SomeD)
  then show ?thesis using f unfolding w' found_ok_def by blast
qed

lemma health_request_frame:
  assumes "health_request env k d m settings w = (r, w')"
  shows "pw_rows w' = pw_rows w \<and> pw_events w' = pw_events w \<and> pw_found w' = pw_found w \<and> pw_live w' = pw_live w"
  using assms process_call_frame by (auto simp: health_request_def split: option.splits sum.splits)

lemma start_plugin_frame:
  assumes "start_plugin env k d m settings w = (r, w')"
  shows "pw_rows w' = pw_rows w \<and> pw_events w' = pw_events w \<and> pw_found w' = pw_found w"
proof (cases "mf_trust m = TRUSTED \<and> dc_instance d \<noteq> None")
  case True
  then show ?thesis using assms by (auto simp: start_plugin_def Let_def split: option.splits)
next
  case False
  obtain r1 w1 where 1: "health_request env k d m settings w = (r1, w1)" by fastforce
  have "w' = w1" using assms False 1 by (cases "mf_trust m") (auto simp: start_plugin_def split: option.splits sum.splits if_splits)
  then show ?thesis using health_request_frame [OF 1] by simp
qed

lemma run_plugin_frame:
  assumes "run_plugin env k d m settings cap args w = (r, w')"
  shows "pw_rows w' = pw_rows w \<and> pw_events w' = pw_events w \<and> pw_found w' = pw_found w"
proof (cases "mf_trust m = TRUSTED")
  case True
  then show ?thesis using assms by (auto simp: run_plugin_def enter_trusted_def split: option.splits)
next
  case False
  show ?thesis
  proof (cases "dc_dir d = None \<or> (\<exists>e. resolve_secrets env m settings = Inl e)")
    case True
    then show ?thesis using assms False by (auto simp: run_plugin_def enter_external_def split: option.splits)
  next
    case inner: False
    then obtain dir cfg where "dc_dir d = Some dir" "resolve_secrets env m settings = Inr cfg"
      by (metis not_Some_eq sum.exhaust)
    moreover obtain r1 w1 where 1: "process_call env k (mf_command m) dir
        [(''op'', VStr ''invoke''), (''capability'', VStr cap), (''args'', VDict args), (''config'', VDict cfg)] w = (r1, w1)" by fastforce
    ultimately have "w' = w1" using assms False by (auto simp: run_plugin_def enter_external_def split: sum.splits if_splits)
    then show ?thesis using process_call_frame [OF 1] by simp
  qed
qed

subsection \<open>Histories\<close>

text \<open>Everything that may happen to the host, in any environment: plugins may be replaced on disk between two operations, and the process may start anew.\<close>

inductive host_step :: "plugin_world \<Rightarrow> plugin_world \<Rightarrow> bool" where
  h_restart: "host_step w (restart_host w)"
| h_discover: "discover env w = (r, w') \<Longrightarrow> host_step w w'"
| h_enable: "enable_plugin env k name grant config b w = (r, w') \<Longrightarrow> host_step w w'"
| h_disable: "disable_plugin env k name b w = (r, w') \<Longrightarrow> host_step w w'"
| h_restore: "restore_plugins env k w = (r, w') \<Longrightarrow> host_step w w'"
| h_health: "plugin_health env k name w = (r, w') \<Longrightarrow> host_step w w'"
| h_invoke: "invoke_plugin env k name cap args chain approved w = (r, w') \<Longrightarrow> host_step w w'"

lemma enable_ok:
  assumes "enable_plugin env k name grant config b w = (r, w')" "plugin_world_ok w"
  shows "plugin_world_ok w'"
proof -
  obtain r1 w1 where 1: "get_plugin env name w = (r1, w1)" by fastforce
  have ok1: "plugin_world_ok w1" using get_plugin_frame [OF 1] assms(2) by (auto intro: world_ok_frame simp: plugin_world_ok_def)
  have ok2: "plugin_world_ok w2" if "start_plugin env k d m s w1 = (r2, w2)" for d m s r2 w2
    using start_plugin_frame [OF that] ok1 by (auto intro: world_ok_frame simp: plugin_world_ok_def)
  show ?thesis
    using assms(1) ok1 ok2 unfolding enable_plugin_def 1 by (auto intro!: save_ok split: sum.splits option.splits prod.splits)
qed

lemma disable_ok:
  assumes "disable_plugin env k name b w = (r, w')" "plugin_world_ok w"
  shows "plugin_world_ok w'"
proof -
  have stop: "plugin_world_ok (stop_plugin env k name u)" if "plugin_world_ok u" for u
  proof -
    have "plugin_world_ok (u\<lparr>pw_live := l\<rparr>)" for l using that by (simp add: plugin_world_ok_def)
    then show ?thesis using that by (auto simp: stop_plugin_def Let_def intro!: log_ok split: option.splits)
  qed
  show ?thesis using assms by (auto simp: disable_plugin_def intro!: stop log_ok mark_ok split: if_splits)
qed

lemma restore_one_ok:
  assumes "restore_one env k row w = (r, w')" "plugin_world_ok w"
  shows "plugin_world_ok w'"
proof -
  obtain r1 w1 where 1: "get_plugin env (pg_name row) w = (r1, w1)" by fastforce
  have ok1: "plugin_world_ok w1" using get_plugin_frame [OF 1] assms(2) by (auto intro: world_ok_frame simp: plugin_world_ok_def)
  have ok2: "plugin_world_ok w2" if "start_plugin env k d m s w1 = (r2, w2)" for d m s r2 w2
    using start_plugin_frame [OF that] ok1 by (auto intro: world_ok_frame simp: plugin_world_ok_def)
  show ?thesis using assms(1) ok1 ok2 unfolding restore_one_def 1 by (auto split: sum.splits option.splits if_splits)
qed

lemma restore_rows_ok: "restore_rows env k rows w = (r, w') \<Longrightarrow> plugin_world_ok w \<Longrightarrow> plugin_world_ok w'"
proof (induction rows arbitrary: k w r)
  case (Cons row rows)
  obtain r1 w1 where 1: "restore_one env k row w = (r1, w1)" by fastforce
  have ok1: "plugin_world_ok w1" using restore_one_ok [OF 1] Cons.prems(2) .
  then have ok2: "plugin_world_ok (log_event (pg_name row) ''restore_failed'' None ''error'' (set_plugin_state (pg_name row) P_QUARANTINED ''restore'' w1))"
    by (intro log_ok mark_ok) simp_all
  show ?case using Cons.prems(1) Cons.IH ok1 ok2 1 by (auto split: sum.splits plugin_exc.splits prod.splits)
qed simp

lemma health_ok:
  assumes "plugin_health env k name w = (r, w')" "plugin_world_ok w"
  shows "plugin_world_ok w'"
proof -
  obtain r1 w1 where 1: "get_plugin env name w = (r1, w1)" by fastforce
  have ok1: "plugin_world_ok w1" using get_plugin_frame [OF 1] assms(2) by (auto intro: world_ok_frame simp: plugin_world_ok_def)
  have ok2: "plugin_world_ok w2" if "health_request env k d m s w1 = (r2, w2)" for d m s r2 w2
    using health_request_frame [OF that] ok1 by (auto intro: world_ok_frame simp: plugin_world_ok_def)
  have ok3: "plugin_world_ok (w1\<lparr>pw_calls := c\<rparr>)" for c using ok1 by (simp add: plugin_world_ok_def)
  show ?thesis
    using assms(1) ok1 ok2 ok3 unfolding plugin_health_def 1 by (auto split: sum.splits option.splits if_splits trust.splits prod.splits)
qed

text \<open>A call either stops before any code of the plugin runs, or everything it needs was there.\<close>

definition let_through :: "policy list \<Rightarrow> bool \<Rightarrow> string \<Rightarrow> string \<Rightarrow> capability \<Rightarrow> bool" where
  "let_through chain approved name cap c \<longleftrightarrow>
     (let v = evaluate_policy chain (''plugin.'' @ name @ ''.'' @ cap) (Some (cp_effect c)) in pd_result v \<noteq> DENY \<and> (pd_result v = REQUIRE_APPROVAL \<longrightarrow> approved))"

lemma invoke_cases:
  assumes "invoke_plugin env k name cap args chain approved w = (r, w')"
  obtains (stopped) w1 where "\<exists>x. get_plugin env name w = (x, w1)" "w' = w1 \<or> (\<exists>ty. ty \<in> {''denied'', ''needs_approval''} \<and> w' = log_event name ty (Some cap) ''denied'' w1)"
      "\<And>v. r \<noteq> Inr v"
  | (ran) d m row c w1 r2 w2 where "get_plugin env name w = (Inr d, w1)" "find_row pg_name name (pw_rows w) = Some row" "pg_state row = P_ENABLED"
      "dc_manifest d = Some m" "map_of (mf_capabilities m) cap = Some c" "let_through chain approved name cap c"
      "run_plugin env k d m (pg_config row) cap args w1 = (r2, w2)" "after_call name cap (bind_r r2 (redact_result env)) w2 = (r, w')"
proof -
  obtain x w1 where 1: "get_plugin env name w = (x, w1)" by fastforce
  note rows = get_plugin_frame [OF 1]
  show thesis
  proof (cases "\<exists>d m row c. x = Inr d \<and> find_row pg_name name (pw_rows w) = Some row \<and> pg_state row = P_ENABLED \<and> dc_manifest d = Some m \<and>
      map_of (mf_capabilities m) cap = Some c \<and> \<not> px_size env (VDict args) > MAX_ARGS_BYTES \<and> let_through chain approved name cap c")
    case True
    then obtain d m row c where t: "x = Inr d" "find_row pg_name name (pw_rows w) = Some row" "pg_state row = P_ENABLED" "dc_manifest d = Some m"
      "map_of (mf_capabilities m) cap = Some c" "\<not> px_size env (VDict args) > MAX_ARGS_BYTES" "let_through chain approved name cap c" by blast
    obtain r2 w2 where 2: "run_plugin env k d m (pg_config row) cap args w1 = (r2, w2)" by fastforce
    have "after_call name cap (bind_r r2 (redact_result env)) w2 = (r, w')"
      using assms t 1 2 rows by (auto simp: invoke_plugin_def let_through_def Let_def approval_required_def)
    then show thesis using ran t 1 2 by blast
  next
    case False
    have "w' = w1 \<or> (\<exists>ty. ty \<in> {''denied'', ''needs_approval''} \<and> w' = log_event name ty (Some cap) ''denied'' w1)" "\<And>v. r \<noteq> Inr v"
      using assms False 1 rows
      by (auto simp: invoke_plugin_def let_through_def Let_def approval_required_def refuse_def split: sum.splits option.splits if_splits)
    then show thesis using stopped 1 by blast
  qed
qed

lemma after_call_ok:
  assumes "after_call name cap x w = (r, w')" "plugin_world_ok w"
  shows "plugin_world_ok w'"
proof (cases x)
  case (Inl e)
  obtain kd detail where f: "plugin_failure name e = (kd, detail)" by fastforce
  obtain q w1 where o: "record_plugin_outcome name (Some detail) w = (q, w1)" by fastforce
  have "plugin_world_ok (log_event name ''invoke_failed'' (Some cap) ''error'' w1)"
    using outcome_ok [OF assms(2), of name "Some detail"] o by simp
  then show ?thesis using assms(1) Inl f o log_ok by (auto simp: after_call_def Let_def split: if_splits)
next
  case (Inr v)
  then show ?thesis using assms outcome_ok [OF assms(2), of name None] by (auto simp: after_call_def)
qed

lemma invoke_ok:
  assumes "invoke_plugin env k name cap args chain approved w = (r, w')" "plugin_world_ok w"
  shows "plugin_world_ok w'"
  using assms(1)
proof (cases rule: invoke_cases)
  case (stopped w1)
  then have "plugin_world_ok w1" using get_plugin_frame assms(2) by (auto intro: world_ok_frame simp: plugin_world_ok_def)
  then show ?thesis using stopped log_ok by auto
next
  case (ran d m row c w1 r2 w2)
  have "plugin_world_ok w1" using get_plugin_frame [OF ran(1)] assms(2) by (auto intro: world_ok_frame simp: plugin_world_ok_def)
  then have "plugin_world_ok w2" using run_plugin_frame [OF ran(7)] by (auto intro: world_ok_frame simp: plugin_world_ok_def)
  then show ?thesis using after_call_ok ran(8) by blast
qed

lemma host_step_ok: "host_step w w' \<Longrightarrow> plugin_world_ok w \<Longrightarrow> plugin_world_ok w'"
proof (induction rule: host_step.induct)
  case (h_restart w)
  then show ?case by (simp add: restart_host_def plugin_world_ok_def found_ok_def)
next
  case (h_discover env w r w')
  then show ?case using discover_frame [OF h_discover(1)] by (auto intro: world_ok_frame simp: plugin_world_ok_def)
next
  case (h_restore env k w r w')
  then show ?case using restore_rows_ok unfolding restore_plugins_def by blast
qed (rule enable_ok disable_ok health_ok invoke_ok, assumption, assumption)+

interpretation plugin_host: state_machine host_step plugin_world_ok
  by unfold_locales (rule host_step_ok)

definition new_host :: plugin_world where
  "new_host = \<lparr>pw_rows = [], pw_events = [], pw_found = [], pw_live = [], pw_calls = []\<rparr>"

lemma new_host_ok: "plugin_world_ok new_host"
  by (simp add: new_host_def plugin_world_ok_def found_ok_def)

lemma reachable_plugins: "host_step\<^sup>*\<^sup>* new_host w \<Longrightarrow> plugin_world_ok w"
  by (rule plugin_host.ok_steps [OF _ new_host_ok])

section \<open>Plugin code runs only when it may\<close>

text \<open>
  The command of an external plugin: a bare name, which the system looks up on its path, or a path that is resolved against the plugin's directory and
  must lie in it; the further words are those of the manifest.
\<close>

definition confined :: "plugin_env \<Rightarrow> string list \<Rightarrow> string list \<Rightarrow> string \<Rightarrow> bool" where
  "confined env command argv dir \<longleftrightarrow> command \<noteq> [] \<and>
     (CHR ''/'' \<notin> set (hd command) \<and> argv = command \<or>
      (\<exists>t. argv = (CHR ''/'' # join ''/'' t) # tl command \<and> t = px_resolve env dir (hd command) \<and> is_within t (px_resolve env dir [])))"

text \<open>The settings a plugin is given are the stored ones, but that a reference stored in a secret setting is replaced by the variable it names; this needs
  the permission to read secrets.\<close>

definition own_secrets :: "plugin_env \<Rightarrow> manifest \<Rightarrow> pyval dict \<Rightarrow> pyval dict \<Rightarrow> bool" where
  "own_secrets env m settings cfg \<longleftrightarrow> (\<forall>n. map_of cfg n \<noteq> map_of settings n \<longrightarrow> ''secrets.read'' \<in> set (mf_permissions m) \<and>
     (\<exists>f \<in> set (mf_config m). cf_name f = n \<and> cf_secret f) \<and>
     (\<exists>x v. map_of settings n = Some (VStr (''env:'' @ x)) \<and> px_environ env x = Some v \<and> map_of cfg n = Some (VStr v)))"

text \<open>One execution of the code of the discovered plugin \<open>d\<close> with manifest \<open>m\<close>.\<close>

definition lawful_call :: "plugin_env \<Rightarrow> (string \<times> nat) list \<Rightarrow> discovered \<Rightarrow> manifest \<Rightarrow> pyval dict \<Rightarrow> string \<Rightarrow> pyval dict \<Rightarrow> plugin_call \<Rightarrow> bool" where
  "lawful_call env live d m settings cap args call \<longleftrightarrow>
     (case call of Entered i cap' args' \<Rightarrow> mf_trust m = TRUSTED \<and> map_of live (dc_name d) = Some i \<and> cap' = cap \<and> args' = args
      | Spawned argv dir request \<Rightarrow> mf_trust m = EXTERNAL_PROCESS \<and> dc_dir d = Some dir \<and> confined env (mf_command m) argv dir \<and>
          (\<exists>cfg. own_secrets env m settings cfg \<and>
             request = [(''op'', VStr ''invoke''), (''capability'', VStr cap), (''args'', VDict args), (''config'', VDict cfg)])
      | _ \<Rightarrow> False)"

lemma resolve_command_confined: "resolve_command env command dir = Inr argv \<Longrightarrow> confined env command argv dir"
  by (auto simp: resolve_command_def confined_def Let_def split: list.splits if_splits)

lemma update_secrets:
  "map_of (foldl put_secret settings vs) n \<noteq> map_of settings n \<Longrightarrow> \<exists>x. Some (n, x) \<in> set vs \<and> map_of (foldl put_secret settings vs) n = Some x"
proof (induction vs rule: rev_induct)
  case (snoc v vs)
  show ?case
  proof (cases "\<exists>x. v = Some (n, x)")
    case True
    then show ?thesis by (auto simp: put_secret_def dict_simps)
  next
    case False
    then have "map_of (foldl put_secret settings (vs @ [v])) n = map_of (foldl put_secret settings vs) n" by (cases v) (auto simp: put_secret_def dict_simps)
    then show ?thesis using snoc by auto
  qed
qed simp

lemma list_all2_set2: "list_all2 P xs ys \<Longrightarrow> y \<in> set ys \<Longrightarrow> \<exists>x \<in> set xs. P x y"
  by (induction rule: list_all2_induct) auto

lemma secret_value_Some:
  assumes "secret_value env settings f = Inr (Some (n, x))"
  shows "cf_secret f \<and> cf_name f = n \<and> (\<exists>y v. map_of settings n = Some (VStr (''env:'' @ y)) \<and> px_environ env y = Some v \<and> x = VStr v)"
proof -
  obtain s v where s: "cf_secret f" "cf_name f = n" "map_of settings n = Some (VStr s)" "prefix ''env:'' s" "px_environ env (drop 4 s) = Some v" "x = VStr v"
    using assms by (auto simp: secret_value_def refuse_def split: if_splits option.splits pyval.splits)
  then have "s = ''env:'' @ drop 4 s" by (auto simp: prefix_def)
  then show ?thesis using s by metis
qed

lemma resolve_secrets_own:
  assumes "resolve_secrets env m settings = Inr cfg" "manifest_ok m"
  shows "own_secrets env m settings cfg"
  unfolding own_secrets_def
proof (intro allI impI)
  fix n assume n: "map_of cfg n \<noteq> map_of settings n"
  obtain vs where vs: "map_r (secret_value env settings) (mf_config m) = Inr vs"
    and cfg: "cfg = foldl put_secret settings vs"
    using assms(1) by (auto simp: resolve_secrets_def bind_r_Inr)
  obtain x where x: "Some (n, x) \<in> set vs" "map_of cfg n = Some x" using update_secrets n unfolding cfg by blast
  then obtain f where f: "f \<in> set (mf_config m)" "secret_value env settings f = Inr (Some (n, x))"
    using vs unfolding map_r_Inr by (auto dest: list_all2_set2)
  note sv = secret_value_Some [OF f(2)]
  then have "''secrets.read'' \<in> set (mf_permissions m)" using f(1) assms(2) by (auto simp: manifest_ok_def field_ok_def list_all_iff)
  then show "''secrets.read'' \<in> set (mf_permissions m) \<and> (\<exists>f \<in> set (mf_config m). cf_name f = n \<and> cf_secret f) \<and>
      (\<exists>x v. map_of settings n = Some (VStr (''env:'' @ x)) \<and> px_environ env x = Some v \<and> map_of cfg n = Some (VStr v))"
    using sv f(1) x(2) by metis
qed

lemma run_plugin_calls:
  assumes "run_plugin env k d m settings cap args w = (r, w')" "manifest_ok m"
  shows "pw_calls w' = pw_calls w \<and> (\<forall>v. r \<noteq> Inr v) \<or> (\<exists>call. pw_calls w' = pw_calls w @ [call] \<and> lawful_call env (pw_live w) d m settings cap args call)"
proof (cases "mf_trust m")
  case TRUSTED
  then show ?thesis using assms(1) by (auto simp: run_plugin_def enter_trusted_def lawful_call_def refuse_def split: option.splits)
next
  case EXTERNAL_PROCESS
  show ?thesis
  proof (cases "\<exists>dir cfg argv. dc_dir d = Some dir \<and> resolve_secrets env m settings = Inr cfg \<and> resolve_command env (mf_command m) dir = Inr argv")
    case True
    then obtain dir cfg argv where c: "dc_dir d = Some dir" "resolve_secrets env m settings = Inr cfg" "resolve_command env (mf_command m) dir = Inr argv" by blast
    let ?request = "[(''op'', VStr ''invoke''), (''capability'', VStr cap), (''args'', VDict args), (''config'', VDict cfg)]"
    have "pw_calls w' = pw_calls w @ [Spawned argv dir ?request]"
      using assms(1) EXTERNAL_PROCESS c by (auto simp: run_plugin_def enter_external_def process_call_def split: sum.splits if_splits)
    moreover have "lawful_call env (pw_live w) d m settings cap args (Spawned argv dir ?request)"
      using EXTERNAL_PROCESS c(1) resolve_command_confined [OF c(3)] resolve_secrets_own [OF c(2) assms(2)] by (auto simp: lawful_call_def)
    ultimately show ?thesis by blast
  next
    case False
    then show ?thesis using assms(1) EXTERNAL_PROCESS
      by (auto simp: run_plugin_def enter_external_def process_call_def refuse_def split: option.splits sum.splits)
  qed
qed

lemma get_plugin_named: "get_plugin env name w = (Inr d, w1) \<Longrightarrow> dc_name d = name"
  by (auto simp: get_plugin_def refuse_def dest: find_row_SomeD split: prod.splits sum.splits option.splits)

lemma after_call_calls: "after_call name cap x w = (r, w') \<Longrightarrow> pw_calls w' = pw_calls w \<and> (\<forall>v. r = Inr v \<longrightarrow> x = Inr v)"
  by (auto simp: after_call_def record_plugin_outcome_def log_event_def Let_def split: sum.splits prod.splits if_splits)


lemma invoke_disabled:
  assumes "\<not> is_enabled name w" "invoke_plugin env k name cap args chain approved w = (r, w')"
  shows "pw_calls w' = pw_calls w"
  using assms(2)
proof (cases rule: invoke_cases)
  case (stopped w1)
  then show ?thesis using get_plugin_frame by (auto simp: log_event_def)
qed (use assms(1) in \<open>simp add: is_enabled_def\<close>)

lemma health_disabled:
  assumes "\<not> is_enabled name w" "plugin_health env k name w = (r, w')"
  shows "pw_calls w' = pw_calls w"
proof -
  obtain x w1 where 1: "get_plugin env name w = (x, w1)" by fastforce
  show ?thesis using assms get_plugin_frame [OF 1] unfolding plugin_health_def 1 is_enabled_def
    by (auto split: sum.splits option.splits if_splits)
qed


section \<open>Examples\<close>

definition ticket_doc :: "string \<Rightarrow> string list \<Rightarrow> pyval \<Rightarrow> pyval" where
  "ticket_doc version perms config = VDict [(''name'', VStr ''ticket''), (''version'', VStr version), (''kind'', VStr ''tool''), (''command'', VList [VStr ''run'']),
     (''permissions'', VList (map VStr perms)), (''config'', config), (''capabilities'', VDict [(''find'', VDict [(''side_effect'', VStr ''NETWORK_READ'')])])]"

definition token_field :: "pyval \<Rightarrow> pyval" where
  "token_field v = VDict [(''token'', VDict [(''secret'', VBool True), (''default'', v)])]"

text \<open>One external plugin, found in a directory; its process answers one line.\<close>

definition demo_plugins :: "pyval \<Rightarrow> string \<Rightarrow> plugin_env" where
  "demo_plugins doc line = \<lparr>px_show = (\<lambda>_. []), px_version = ''0.1'', px_in_process = [], px_dirs = [(''ticket'', Inr doc)], px_resolve = (\<lambda>d h. [d, h]),
     px_spawn = (\<lambda>k argv d q. Ended 0 line []), px_init = (\<lambda>k i s. None), px_enter = (\<lambda>k i c a. Inr (VDict [])), px_health = (\<lambda>k i. Inr []), px_stop = (\<lambda>k i. True),
     px_environ = (\<lambda>_. Some ''value''), px_size = (\<lambda>_. 2), px_dumps = (\<lambda>_. Some ''{}''),
     px_loads = (\<lambda>s. if s = ''good'' then Some (VDict [(''ok'', VBool True), (''result'', VDict [])]) else if s = ''{}'' then Some (VDict []) else None)\<rparr>"

definition ticket :: pyval where
  "ticket = ticket_doc ''1.0.0'' [''secrets.read''] (token_field VNone)"

theorem accepted_manifest_well_formed_witness:
  "\<exists>m. parse_manifest (\<lambda>_. []) ticket = Inr m \<and> mf_name m = ''ticket'' \<and> map cf_secret (mf_config m) = [True] \<and> mf_command m = [''run''] \<and>
     ''secrets.read'' \<in> set (mf_permissions m)"
proof -
  have p: "(case parse_manifest (\<lambda>_. []) ticket of Inl e \<Rightarrow> None | Inr m \<Rightarrow> Some (mf_name m, map cf_secret (mf_config m), mf_command m)) = Some (''ticket'', [True], [''run''])"
    by code_simp
  then obtain m where m: "parse_manifest (\<lambda>_. []) ticket = Inr m" by (auto split: sum.splits)
  moreover from this p have "mf_name m = ''ticket''" "map cf_secret (mf_config m) = [True]" "mf_command m = [''run'']" by simp_all
  moreover from this(2) obtain f where "f \<in> set (mf_config m)" "cf_secret f" by (auto simp: map_eq_Cons_conv)
  ultimately show ?thesis using accepted_manifest_well_formed [OF m] by auto
qed

definition ticket_enabled :: plugin_world where
  "ticket_enabled = snd (enable_plugin (demo_plugins ticket ''good'') 0 ''ticket'' [''secrets.read''] [(''token'', VStr ''env:TOKEN'')] ''op'' new_host)"

definition find_ticket :: "plugin_env \<Rightarrow> plugin_world \<Rightarrow> (plugin_exc + pyval) \<times> plugin_world" where
  "find_ticket env w = invoke_plugin env 1 ''ticket'' ''find'' [] [] False w"

lemma ticket_history: "host_step\<^sup>*\<^sup>* new_host ticket_enabled"
  unfolding ticket_enabled_def by (rule r_into_rtranclp, rule h_enable, rule prod.collapse [symmetric])


text \<open>Three failures in a row.\<close>

definition fail_once :: "plugin_world \<Rightarrow> plugin_world" where
  "fail_once w = snd (find_ticket (demo_plugins ticket ''bad'') w)"

definition ticket_failed :: plugin_world where
  "ticket_failed = fail_once (fail_once (fail_once ticket_enabled))"

lemma fail_once_step: "host_step w (fail_once w)"
  unfolding fail_once_def find_ticket_def by (rule h_invoke, rule prod.collapse [symmetric])


section \<open>Findings\<close>

text \<open>A manifest whose settings are not a mapping raises out of discovery, so that no plugin is found at all.\<close>

lemma broken_config_escapes_discovery:
  "fst (discover (demo_plugins (ticket_doc ''1.0.0'' [] (VList [VStr ''token''])) ''good'') new_host) = Inl (Escaped ''AttributeError'')"
  by code_simp

text \<open>The default of a secret setting is stored as it is; only a value that is given must be a reference.\<close>

lemma secret_default_is_stored:
  "map pg_config (pw_rows (snd (enable_plugin (demo_plugins (ticket_doc ''1.0.0'' [''secrets.read''] (token_field (VStr ''hunter2''))) ''good'') 0
     ''ticket'' [''secrets.read''] [] ''op'' new_host))) = [[(''token'', VStr ''hunter2'')]]"
  by code_simp

text \<open>A call does not compare the installed plugin with the one that was enabled: after a restart a new version with more permissions runs under the old grant.\<close>

definition ticket_v1 :: plugin_world where
  "ticket_v1 = restart_host (snd (enable_plugin (demo_plugins (ticket_doc ''1.0.0'' [] VNone) ''good'') 0 ''ticket'' [] [] ''op'' new_host))"

lemma changed_plugin_keeps_its_grant:
  "map (\<lambda>r. (pg_version r, pg_granted r)) (pw_rows ticket_v1) = [(''1.0.0'', [])] \<and>
   fst (find_ticket (demo_plugins (ticket_doc ''2.0.0'' [''repo.write''] VNone) ''good'') ticket_v1) = Inr (VDict [])"
  by code_simp

text \<open>A trusted plugin is not running after a restart, and nothing in the program starts it again; three calls then quarantine it.\<close>

definition trusted_plugins :: plugin_env where
  "trusted_plugins = (demo_plugins ticket ''good'')\<lparr>px_dirs := [], px_in_process := [(''ticket'', ''factory'', Inr (7,
     VDict [(''name'', VStr ''ticket''), (''version'', VStr ''1.0.0''), (''kind'', VStr ''tool''), (''trust'', VStr ''trusted''),
       (''capabilities'', VDict [(''find'', VDict [(''side_effect'', VStr ''NETWORK_READ'')])])]))]\<rparr>"

definition trusted_enabled :: plugin_world where
  "trusted_enabled = snd (enable_plugin trusted_plugins 0 ''ticket'' [] [] ''op'' new_host)"

definition find_trusted :: "plugin_world \<Rightarrow> plugin_world" where
  "find_trusted w = snd (find_ticket trusted_plugins w)"

lemma restart_quarantines_trusted_plugin:
  "map pg_state (pw_rows (find_trusted (find_trusted (find_trusted (restart_host trusted_enabled))))) = [P_QUARANTINED]"
  by code_simp

end
