(* ===== verification/Scheduler.thy ===== *)
theory Scheduler
  imports Failures Runs
begin

text \<open>
  The scheduler: \<open>scheduler/schedule_calculator.py\<close> (when a task runs next) and \<open>scheduler/scheduler.py\<close> (the tasks, their history, and the poll that starts
  due tasks). A local time is a count of microseconds of the wall clock; a zone gives the local time of an instant and the offset that is
  printed. Times are stored as ISO texts and compared as texts, as the code does. \<open>croniter\<close>, the zone database, \<open>int()\<close>, the list of
  configured providers and the clock are parameters.

  Shown: the poll starts only tasks that are enabled, active, due and not running, each once, after which a one-shot task is completed and disabled; repeated schedules move
  forward. And where the code departs from that: comparison of texts across zones, tasks brought back after deletion, runs that
  died.
\<close>

section \<open>Dates\<close>

record zone =
  z_local :: "int \<Rightarrow> int"
  z_offset :: "int \<Rightarrow> int"

definition DAY :: int where "DAY = 86400000000"
definition HOUR :: int where "HOUR = 3600000000"
definition MINUTE :: int where "MINUTE = 60000000"

text \<open>Year, month and day of a count of days since 1970-01-01 in the Gregorian calendar.\<close>

definition civil :: "int \<Rightarrow> int \<times> int \<times> int" where
  "civil days =
     (let z = days + 719468; era = z div 146097; doe = z mod 146097;
          yoe = (doe - doe div 1460 + doe div 36524 - doe div 146096) div 365;
          doy = doe - (365 * yoe + yoe div 4 - yoe div 100); mp = (5 * doy + 2) div 153;
          d = doy - (153 * mp + 2) div 5 + 1; m = (if mp < 10 then mp + 3 else mp - 9) in
      (yoe + era * 400 + (if m \<le> 2 then 1 else 0), m, d))"

definition digit :: "int \<Rightarrow> char" where
  "digit n = char_of (48 + n mod 10)"

definition two :: "int \<Rightarrow> string" where
  "two n = [digit (n div 10), digit n]"

text \<open>\<open>datetime.isoformat()\<close>: microseconds are printed only if there are any.\<close>

definition isoformat :: "zone \<Rightarrow> int \<Rightarrow> string" where
  "isoformat z wall =
     (let (y, mo, d) = civil (wall div DAY); t = wall mod DAY; us = t mod 1000000; s = t div 1000000; off = z_offset z wall in
      two (y div 100) @ two y @ ''-'' @ two mo @ ''-'' @ two d @ ''T'' @ two (s div 3600) @ '':'' @ two (s div 60 mod 60) @ '':'' @ two (s mod 60) @
      (if us = 0 then [] else ''.'' @ two (us div 10000) @ two (us div 100) @ two us) @
      (if off < 0 then ''-'' else ''+'') @ two (\<bar>off\<bar> div 60) @ '':'' @ two (\<bar>off\<bar> mod 60))"

text \<open>Comparison of texts, character by character, as the database does it.\<close>

fun text_le :: "string \<Rightarrow> string \<Rightarrow> bool" where
  "text_le [] t = True"
| "text_le (c # s) [] = False"
| "text_le (c # s) (d # t) = (if c = d then text_le s t else (of_char c :: nat) < of_char d)"

section \<open>When a task runs next\<close>

record sched_env =
  se_int :: "string \<Rightarrow> int option"
  se_zone :: "string \<Rightarrow> zone option"
  se_clock :: "nat \<Rightarrow> int"
  se_cron :: "(string \<Rightarrow> zone \<Rightarrow> int \<Rightarrow> py_exception + int) option"
  se_uid :: "nat \<Rightarrow> string"
  se_catalog :: "(string \<times> string option) list"
  se_environ :: "string \<Rightarrow> string"
  se_outcome :: "string \<Rightarrow> (string option) option"

text \<open>The outcome of the run with an id, when it was run to its end at once (\<open>asyncio.run\<close>): \<open>Some None\<close> if it returned, \<open>Some (Some msg)\<close> if it raised,
  and \<open>None\<close> if it was left in the background.\<close>

definition value_error :: py_exception where
  "value_error = OtherException ''ValueError''"

definition int_of :: "sched_env \<Rightarrow> string \<Rightarrow> py_exception + int" where
  "int_of env s = (case se_int env s of None \<Rightarrow> Inl value_error | Some n \<Rightarrow> Inr n)"

definition parse_interval_minutes :: "sched_env \<Rightarrow> string \<Rightarrow> py_exception + int" where
  "parse_interval_minutes env expr =
     (let e = str_lower (str_strip expr) in
      if suffix ''h'' e then bind_r (int_of env (butlast e)) (\<lambda>n. Inr (n * 60))
      else if suffix ''d'' e then bind_r (int_of env (butlast e)) (\<lambda>n. Inr (n * 1440))
      else if suffix ''m'' e then int_of env (butlast e) else int_of env e)"

definition parse_time :: "sched_env \<Rightarrow> string \<Rightarrow> py_exception + int \<times> int" where
  "parse_time env s =
     (case split_on (CHR '':'') (str_strip s) of
        h # m # _ \<Rightarrow> bind_r (int_of env h) (\<lambda>a. bind_r (int_of env m) (\<lambda>b. Inr (a, b)))
      | [h] \<Rightarrow> bind_r (int_of env h) (\<lambda>a. Inr (a, 0))
      | [] \<Rightarrow> Inl value_error)"

definition WEEKDAYS :: "(string \<times> int) list" where
  "WEEKDAYS = [(''mon'', 0), (''tue'', 1), (''wed'', 2), (''thu'', 3), (''fri'', 4), (''sat'', 5), (''sun'', 6)]"

definition weekdays_of :: "sched_env \<Rightarrow> string \<Rightarrow> int list" where
  "weekdays_of env part =
     (let p = str_lower (str_strip part) in
      case map_of WEEKDAYS p of Some d \<Rightarrow> [d]
      | None \<Rightarrow> if p = ''weekday'' \<or> p = ''weekdays'' then [0, 1, 2, 3, 4] else if p = ''weekend'' then [5, 6]
          else if p \<noteq> [] \<and> list_all is_digit p then (case se_int env p of Some n \<Rightarrow> [n mod 7] | None \<Rightarrow> []) else [])"

definition parse_weekdays :: "sched_env \<Rightarrow> string \<Rightarrow> int list" where
  "parse_weekdays env s = (let ds = concat (map (weekdays_of env) (split_on (CHR ''+'') s)) in if ds = [] then [0] else ds)"

text \<open>\<open>now.replace(hour=h, minute=m, second=0, microsecond=0)\<close>; it raises outside the ranges.\<close>

definition at_time :: "int \<Rightarrow> int \<Rightarrow> int \<Rightarrow> py_exception + int" where
  "at_time wall h m = (if 0 \<le> h \<and> h \<le> 23 \<and> 0 \<le> m \<and> m \<le> 59 then Inr (wall - wall mod DAY + h * HOUR + m * MINUTE) else Inl value_error)"

definition weekday :: "int \<Rightarrow> int" where
  "weekday wall = (wall div DAY + 3) mod 7"

definition today_or_tomorrow :: "int \<Rightarrow> int \<Rightarrow> int \<Rightarrow> py_exception + int" where
  "today_or_tomorrow now h m = bind_r (at_time now h m) (\<lambda>t. Inr (if t \<le> now then t + DAY else t))"

text \<open>The fallback without \<open>croniter\<close>; \<open>except ValueError\<close> leads to the default.\<close>

definition cron_fallback :: "sched_env \<Rightarrow> string \<Rightarrow> int \<Rightarrow> int" where
  "cron_fallback env expr now =
     (case filter (\<lambda>p. p \<noteq> []) (split_on (CHR '' '') (map (\<lambda>c. if is_space c then CHR '' '' else c) expr)) of
        m # h # _ \<Rightarrow> (case bind_r (if m = ''*'' then Inr 0 else int_of env m) (\<lambda>mi. bind_r (if h = ''*'' then Inr 9 else int_of env h) (\<lambda>ho.
            today_or_tomorrow now ho mi)) of Inr t \<Rightarrow> t | Inl e \<Rightarrow> now + HOUR)
      | _ \<Rightarrow> now + HOUR)"

definition compute_cron_next :: "sched_env \<Rightarrow> zone \<Rightarrow> string \<Rightarrow> int \<Rightarrow> py_exception + int" where
  "compute_cron_next env z expr now = (case se_cron env of Some cron \<Rightarrow> cron expr z now | None \<Rightarrow> Inr (cron_fallback env expr now))"

definition or_default :: "string option \<Rightarrow> string \<Rightarrow> string" where
  "or_default e d = (case e of None \<Rightarrow> d | Some s \<Rightarrow> if s = [] then d else s)"

definition weekly_next :: "sched_env \<Rightarrow> string \<Rightarrow> int \<Rightarrow> py_exception + int" where
  "weekly_next env expr now =
     (let parts = split_on (CHR '','') expr; days = parse_weekdays env (str_strip (hd parts));
          t = (if length parts > 1 then str_strip (parts ! 1) else ''09:00'') in
      bind_r (parse_time env t) (\<lambda>(h, m).
        at_time (case find (\<lambda>k. weekday (now + k * DAY) \<in> set days) [1, 2, 3, 4, 5, 6, 7] of Some k \<Rightarrow> now + k * DAY | None \<Rightarrow> now + 7 * DAY) h m))"

text \<open>The next local time; a one-shot expression is passed through as text.\<close>

definition next_wall :: "sched_env \<Rightarrow> zone \<Rightarrow> string \<Rightarrow> string option \<Rightarrow> int \<Rightarrow> py_exception + int" where
  "next_wall env z ty expr now =
     (if ty = ''one_shot'' then Inr (now + MINUTE)
      else if ty = ''interval'' then bind_r (parse_interval_minutes env (or_default expr ''60'')) (\<lambda>n. Inr (now + n * MINUTE))
      else if ty = ''daily'' then bind_r (parse_time env (or_default expr ''09:00'')) (\<lambda>(h, m). today_or_tomorrow now h m)
      else if ty = ''weekly'' then weekly_next env (or_default expr ''1,09:00'') now
      else if ty = ''cron'' then compute_cron_next env z (or_default expr ''0 9 * * *'') now
      else Inr (now + HOUR))"

text \<open>A date must lie in the years 1 to 9999.\<close>

definition date_of :: "int \<Rightarrow> py_exception + int" where
  "date_of w = (if -719162 * DAY \<le> w \<and> w < 2932897 * DAY then Inr w else Inl (OtherException ''OverflowError''))"

definition compute_next_run :: "sched_env \<Rightarrow> nat \<Rightarrow> string \<Rightarrow> string option \<Rightarrow> string \<Rightarrow> py_exception + string" where
  "compute_next_run env k ty expr tz =
     (case se_zone env tz of None \<Rightarrow> Inl (OtherException ''ZoneInfoNotFoundError'')
      | Some z \<Rightarrow>
        if ty = ''one_shot'' \<and> or_default expr [] \<noteq> [] then Inr (the expr)
        else bind_r (bind_r (next_wall env z ty expr (z_local z (se_clock env k))) date_of) (\<lambda>w. Inr (isoformat z w)))"

section \<open>Tasks\<close>

record task_row =
  tk_id :: nat
  tk_title :: string
  tk_prompt :: string
  tk_repo :: string
  tk_type :: string
  tk_expr :: "string option"
  tk_tz :: string
  tk_next :: "string option"
  tk_last :: "string option"
  tk_enabled :: bool
  tk_status :: string
  tk_provider :: "string option"
  tk_model :: "string option"
  tk_runtime :: string
  tk_profile :: "string option"
  tk_memory :: string
  tk_created :: string
  tk_updated :: string

record history_row =
  hi_task :: nat
  hi_run :: "string option"
  hi_started :: string
  hi_finished :: "string option"
  hi_status :: string
  hi_message :: "string option"

record sched_db =
  sd_tasks :: "task_row list"
  sd_history :: "history_row list"
  sd_runs :: "(string \<times> string) list"
  sd_next_id :: nat

definition utc :: zone where
  "utc = \<lparr>z_local = (\<lambda>t. t), z_offset = (\<lambda>_. 0)\<rparr>"

definition now_text :: "sched_env \<Rightarrow> nat \<Rightarrow> string" where
  "now_text env k = isoformat utc (se_clock env k)"

definition validate_timezone :: "sched_env \<Rightarrow> string \<Rightarrow> py_exception + unit" where
  "validate_timezone env tz = (if str_strip tz = [] \<or> se_zone env (str_strip tz) = None then Inl value_error else Inr ())"

text \<open>The arguments of \<open>create_task\<close>.\<close>

record task_request =
  tr_title :: string
  tr_prompt :: string
  tr_repo :: string
  tr_type :: string
  tr_expr :: "string option"
  tr_tz :: string
  tr_provider :: "string option"
  tr_model :: "string option"
  tr_runtime :: string
  tr_profile :: "string option"
  tr_memory :: string
  tr_next :: "string option"

definition new_task :: "nat \<Rightarrow> string \<Rightarrow> string \<Rightarrow> task_request \<Rightarrow> task_row" where
  "new_task i now nxt q =
     \<lparr>tk_id = i, tk_title = tr_title q, tk_prompt = tr_prompt q, tk_repo = tr_repo q, tk_type = tr_type q, tk_expr = tr_expr q, tk_tz = tr_tz q,
      tk_next = Some nxt, tk_last = None, tk_enabled = True, tk_status = ''active'', tk_provider = tr_provider q, tk_model = tr_model q,
      tk_runtime = tr_runtime q, tk_profile = tr_profile q, tk_memory = tr_memory q, tk_created = now, tk_updated = now\<rparr>"

definition create_task :: "sched_env \<Rightarrow> nat \<Rightarrow> sched_db \<Rightarrow> task_request \<Rightarrow> py_exception + nat \<times> sched_db" where
  "create_task env k db q =
     bind_r (validate_timezone env (tr_tz q)) (\<lambda>_.
     bind_r (if or_default (tr_next q) [] = [] then compute_next_run env k (tr_type q) (tr_expr q) (tr_tz q) else Inr (the (tr_next q))) (\<lambda>nxt.
       Inr (sd_next_id db, db\<lparr>sd_tasks := sd_tasks db @ [new_task (sd_next_id db) (now_text env k) nxt q], sd_next_id := Suc (sd_next_id db)\<rparr>)))"

definition set_tasks :: "nat \<Rightarrow> (task_row \<Rightarrow> task_row) \<Rightarrow> sched_db \<Rightarrow> sched_db" where
  "set_tasks i f db = db\<lparr>sd_tasks := update_row tk_id i f (sd_tasks db)\<rparr>"

text \<open>\<open>update_task(**fields)\<close>: the columns that may be changed, \<open>None\<close> for one that is not given.\<close>

record task_patch =
  tp_title :: "string option"
  tp_prompt :: "string option"
  tp_repo :: "string option"
  tp_type :: "string option"
  tp_expr :: "string option"
  tp_tz :: "string option"
  tp_provider :: "string option"
  tp_model :: "string option"
  tp_runtime :: "string option"
  tp_profile :: "string option"
  tp_memory :: "string option"
  tp_next :: "string option"
  tp_enabled :: "bool option"

definition no_patch :: task_patch where
  "no_patch = \<lparr>tp_title = None, tp_prompt = None, tp_repo = None, tp_type = None, tp_expr = None, tp_tz = None, tp_provider = None, tp_model = None,
     tp_runtime = None, tp_profile = None, tp_memory = None, tp_next = None, tp_enabled = None\<rparr>"

definition newer :: "'a option \<Rightarrow> 'a option \<Rightarrow> 'a option" where
  "newer v d = (case v of None \<Rightarrow> d | Some x \<Rightarrow> Some x)"

definition patch_row :: "string \<times> task_patch \<Rightarrow> task_row \<Rightarrow> task_row" where
  "patch_row = (\<lambda>(now, p) t. t\<lparr>
     tk_title := case_option (tk_title t) id (tp_title p), tk_prompt := case_option (tk_prompt t) id (tp_prompt p),
     tk_repo := case_option (tk_repo t) id (tp_repo p), tk_type := case_option (tk_type t) id (tp_type p), tk_expr := newer (tp_expr p) (tk_expr t),
     tk_tz := case_option (tk_tz t) id (tp_tz p), tk_provider := newer (tp_provider p) (tk_provider t), tk_model := newer (tp_model p) (tk_model t),
     tk_runtime := case_option (tk_runtime t) id (tp_runtime p), tk_profile := newer (tp_profile p) (tk_profile t),
     tk_memory := case_option (tk_memory t) id (tp_memory p), tk_next := newer (tp_next p) (tk_next t),
     tk_enabled := case_option (tk_enabled t) id (tp_enabled p), tk_updated := now\<rparr>)"

definition update_task :: "sched_env \<Rightarrow> nat \<Rightarrow> sched_db \<Rightarrow> nat \<Rightarrow> task_patch \<Rightarrow> py_exception + bool \<times> sched_db" where
  "update_task env k db i p =
     (if p = no_patch then Inr (False, db)
      else bind_r (case tp_tz p of None \<Rightarrow> Inr () | Some tz \<Rightarrow> validate_timezone env tz) (\<lambda>_.
        Inr (has_row tk_id i (sd_tasks db), set_tasks i (patch_row (now_text env k, p)) db)))"

definition pause_task :: "sched_env \<Rightarrow> nat \<Rightarrow> sched_db \<Rightarrow> nat \<Rightarrow> bool \<times> sched_db" where
  "pause_task env k db i =
     (let hit = (\<lambda>t. tk_status t = ''active'' \<or> tk_status t = ''running'') in
      (list_ex (\<lambda>t. tk_id t = i \<and> hit t) (sd_tasks db),
       set_tasks i (\<lambda>t. if hit t then t\<lparr>tk_status := ''paused'', tk_enabled := False, tk_updated := now_text env k\<rparr> else t) db))"

definition resume_task :: "sched_env \<Rightarrow> nat \<Rightarrow> sched_db \<Rightarrow> nat \<Rightarrow> py_exception + bool \<times> sched_db" where
  "resume_task env k db i =
     (case find_row tk_id i (sd_tasks db) of None \<Rightarrow> Inr (False, db)
      | Some t \<Rightarrow> bind_r (compute_next_run env k (tk_type t) (tk_expr t) (tk_tz t)) (\<lambda>nxt.
          Inr (True, set_tasks i (\<lambda>t. t\<lparr>tk_status := ''active'', tk_enabled := True, tk_next := Some nxt, tk_updated := now_text env k\<rparr>) db)))"

definition delete_task :: "sched_env \<Rightarrow> nat \<Rightarrow> sched_db \<Rightarrow> nat \<Rightarrow> bool \<times> sched_db" where
  "delete_task env k db i =
     (has_row tk_id i (sd_tasks db), set_tasks i (\<lambda>t. t\<lparr>tk_status := ''deleted'', tk_enabled := False, tk_updated := now_text env k\<rparr>) db)"

definition provider_of :: "task_row \<Rightarrow> string" where
  "provider_of t = or_default (tk_provider t) ''mock''"

definition provider_ok :: "sched_env \<Rightarrow> string \<Rightarrow> bool" where
  "provider_ok env p \<longleftrightarrow> p \<in> {''mock'', ''ollama'', ''openai_compatible''} \<or>
     (case map_of (se_catalog env) p of None \<Rightarrow> False | Some None \<Rightarrow> True | Some (Some v) \<Rightarrow> v = [] \<or> se_environ env v \<noteq> [])"

definition record_history :: "string \<Rightarrow> nat \<Rightarrow> string \<Rightarrow> string \<Rightarrow> string option \<Rightarrow> sched_db \<Rightarrow> sched_db" where
  "record_history now i run st msg db = db\<lparr>sd_history := sd_history db @
     [\<lparr>hi_task = i, hi_run = Some run, hi_started = now, hi_finished = None, hi_status = st, hi_message = msg\<rparr>]\<rparr>"

text \<open>The row when a run was created for it, and the row with its next time; a one-shot task has none and ends.\<close>

definition start_row :: "string \<times> bool \<Rightarrow> task_row \<Rightarrow> task_row" where
  "start_row = (\<lambda>(now, ok) r. r\<lparr>tk_last := Some now, tk_status := (if ok then ''running'' else tk_status r), tk_updated := now\<rparr>)"

definition next_row :: "string \<times> string option \<Rightarrow> task_row \<Rightarrow> task_row" where
  "next_row = (\<lambda>(now, nxt) r. case nxt of Some n \<Rightarrow> r\<lparr>tk_next := Some n, tk_status := ''active'', tk_updated := now\<rparr>
     | None \<Rightarrow> r\<lparr>tk_status := ''completed'', tk_enabled := False, tk_next := None, tk_updated := now\<rparr>)"

definition advance_task_schedule :: "sched_env \<Rightarrow> nat \<Rightarrow> task_row \<Rightarrow> sched_db \<Rightarrow> py_exception + sched_db" where
  "advance_task_schedule env k t db =
     bind_r (if tk_type t \<noteq> ''one_shot'' then map_sum id Some (compute_next_run env k (tk_type t) (tk_expr t) (tk_tz t)) else Inr None) (\<lambda>nxt.
       Inr (set_tasks (tk_id t) (next_row (now_text env k, nxt)) db))"

definition update_history_status :: "string \<Rightarrow> string \<Rightarrow> string \<Rightarrow> string option \<Rightarrow> sched_db \<Rightarrow> sched_db" where
  "update_history_status now run st msg db = db\<lparr>sd_history := update_row hi_run (Some run)
     (\<lambda>h. h\<lparr>hi_status := st, hi_finished := Some now, hi_message := msg\<rparr>) (sd_history db)\<rparr>"

text \<open>\<open>_run_and_record\<close>.\<close>

definition run_and_record :: "string \<Rightarrow> string \<Rightarrow> (string option) option \<Rightarrow> sched_db \<Rightarrow> sched_db" where
  "run_and_record now run res db = (case res of None \<Rightarrow> db
     | Some None \<Rightarrow> update_history_status now run ''completed'' None db
     | Some (Some msg) \<Rightarrow> update_history_status now run ''failed'' (Some msg) db)"

text \<open>\<open>_execute_task\<close>: the run (or the failed run of a provider that is not configured), the history, and the next time. The tables keep what was written
  before an exception.\<close>

definition record_run :: "string \<Rightarrow> string \<Rightarrow> bool \<Rightarrow> nat \<Rightarrow> sched_db \<Rightarrow> sched_db" where
  "record_run now run ok i db =
     record_history now i run (if ok then ''started'' else ''failed'') (if ok then None else Some ''provider is not configured'')
       (set_tasks i (start_row (now, ok)) (db\<lparr>sd_runs := sd_runs db @ [(run, if ok then ''created'' else ''failed'')]\<rparr>))"

definition execute_task :: "sched_env \<Rightarrow> nat \<Rightarrow> sched_db \<Rightarrow> task_row \<Rightarrow> (py_exception + string) \<times> sched_db" where
  "execute_task env k db t =
     (let run = se_uid env k; now = now_text env k; ok = provider_ok env (provider_of t); db1 = record_run now run ok (tk_id t) db in
      case advance_task_schedule env k t db1 of Inl e \<Rightarrow> (Inl e, db1)
      | Inr db2 \<Rightarrow> (Inr run, if ok then run_and_record now run (se_outcome env run) db2 else db2))"

definition run_task_now :: "sched_env \<Rightarrow> nat \<Rightarrow> sched_db \<Rightarrow> nat \<Rightarrow> (py_exception + string option) \<times> sched_db" where
  "run_task_now env k db i =
     (case find_row tk_id i (sd_tasks db) of None \<Rightarrow> (Inr None, db)
      | Some t \<Rightarrow> (case execute_task env k db t of (Inl e, db') \<Rightarrow> (Inl e, db') | (Inr r, db') \<Rightarrow> (Inr (Some r), db')))"

definition task_due :: "string \<Rightarrow> task_row \<Rightarrow> bool" where
  "task_due now t \<longleftrightarrow> tk_enabled t \<and> tk_status t = ''active'' \<and> (case tk_next t of None \<Rightarrow> False | Some n \<Rightarrow> text_le n now)"

fun insert_task :: "task_row \<Rightarrow> task_row list \<Rightarrow> task_row list" where
  "insert_task t [] = [t]"
| "insert_task t (u # us) = (if text_le (the (tk_next t)) (the (tk_next u)) then t # u # us else u # insert_task t us)"

definition get_due_tasks :: "string \<Rightarrow> sched_db \<Rightarrow> task_row list" where
  "get_due_tasks now db = foldr insert_task (filter (task_due now) (sd_tasks db)) []"

definition already_running :: "sched_db \<Rightarrow> nat \<Rightarrow> bool" where
  "already_running db i \<longleftrightarrow> list_ex (\<lambda>h. hi_task h = i \<and> hi_status h = ''started'') (sd_history db)"

primrec run_tasks :: "sched_env \<Rightarrow> nat \<Rightarrow> sched_db \<Rightarrow> task_row list \<Rightarrow> (py_exception + string list) \<times> sched_db" where
  "run_tasks env k db [] = (Inr [], db)"
| "run_tasks env k db (t # ts) =
     (if already_running db (tk_id t) then run_tasks env (Suc k) db ts
      else (case execute_task env k db t of (Inl e, db') \<Rightarrow> (Inl e, db')
        | (Inr r, db') \<Rightarrow> (case run_tasks env (Suc k) db' ts of (Inl e, db'') \<Rightarrow> (Inl e, db'') | (Inr rs, db'') \<Rightarrow> (Inr (r # rs), db''))))"

definition run_due_tasks :: "sched_env \<Rightarrow> nat \<Rightarrow> sched_db \<Rightarrow> (py_exception + string list) \<times> sched_db" where
  "run_due_tasks env k db = run_tasks env (Suc k) db (get_due_tasks (now_text env k) db)"

section \<open>The next time lies ahead\<close>

lemmas clock_defs = DAY_def HOUR_def MINUTE_def

lemma at_time_day:
  assumes "at_time w h m = Inr t"
  shows "t div DAY = w div DAY \<and> t mod DAY = h * HOUR + m * MINUTE"
proof -
  have t: "t = w div DAY * DAY + (h * HOUR + m * MINUTE)" and b: "0 \<le> h * HOUR + m * MINUTE" "h * HOUR + m * MINUTE < DAY"
    using assms by (auto simp: at_time_def clock_defs minus_mod_eq_div_mult split: if_splits)
  have d: "0 < DAY" by (simp add: DAY_def)
  show ?thesis unfolding t using b d by simp
qed

lemma today_or_tomorrow_next:
  assumes "today_or_tomorrow now h m = Inr w"
  shows "now < w \<and> w \<le> now + DAY \<and> w mod DAY = h * HOUR + m * MINUTE"
proof -
  obtain t where t: "at_time now h m = Inr t" and w: "w = (if t \<le> now then t + DAY else t)"
    using assms by (auto simp: today_or_tomorrow_def bind_r_Inr)
  have d: "0 < DAY" by (simp add: DAY_def)
  have q: "t = now div DAY * DAY + t mod DAY" "now = now div DAY * DAY + now mod DAY"
    using at_time_day [OF t] div_mult_mod_eq [of t DAY] by simp_all
  have "0 \<le> now mod DAY" "now mod DAY < DAY" "0 \<le> t mod DAY" "t mod DAY < DAY" using d by simp_all
  then have "t \<le> now \<Longrightarrow> now < t + DAY" "t \<le> now + DAY" using q by linarith+
  then have "now < w" "w \<le> now + DAY" unfolding w by simp_all
  then show ?thesis using w at_time_day [OF t] by auto
qed

lemma WEEKDAYS_range: "map_of WEEKDAYS p = Some d \<Longrightarrow> 0 \<le> d \<and> d < 7"
  by (drule map_of_SomeD) (auto simp: WEEKDAYS_def)

lemma weekdays_of_range: "d \<in> set (weekdays_of env p) \<Longrightarrow> 0 \<le> d \<and> d < 7"
  by (cases "map_of WEEKDAYS (str_lower (str_strip p))")
    (auto simp: weekdays_of_def Let_def dest: WEEKDAYS_range split: option.splits if_splits)

lemma weekdays_range: "d \<in> set (parse_weekdays env s) \<Longrightarrow> 0 \<le> d \<and> d < 7"
  by (auto simp: parse_weekdays_def Let_def dest: weekdays_of_range split: if_splits)

lemma parse_weekdays_ne: "parse_weekdays env s \<noteq> []"
  by (auto simp: parse_weekdays_def Let_def)

lemma weekday_add: "weekday (now + k * DAY) = (weekday now + k) mod 7"
proof -
  have "(now + k * DAY) div DAY = now div DAY + k" by (simp add: DAY_def)
  then show ?thesis by (simp add: weekday_def algebra_simps mod_add_right_eq)
qed

lemma some_weekday:
  assumes "0 \<le> d" "d < 7"
  shows "\<exists>k \<in> {1, 2, 3, 4, 5, 6, 7}. weekday (now + k * DAY) = d"
proof -
  have "0 \<le> weekday now" "weekday now < 7" by (simp_all add: weekday_def)
  then have "weekday now \<in> {0, 1, 2, 3, 4, 5, 6}" "d \<in> {0, 1, 2, 3, 4, 5, 6}" using assms by auto
  then show ?thesis unfolding weekday_add by auto
qed

definition week_offset :: "int list \<Rightarrow> int \<Rightarrow> int \<Rightarrow> bool" where
  "week_offset days now k \<longleftrightarrow> 1 \<le> k \<and> k \<le> 7 \<and> weekday (now + k * DAY) \<in> set days \<and> (\<forall>j. 1 \<le> j \<and> j < k \<longrightarrow> weekday (now + j * DAY) \<notin> set days)"

lemma find_offset:
  assumes "days = parse_weekdays env s"
  obtains k where "find (\<lambda>k. weekday (now + k * DAY) \<in> set days) [1, 2, 3, 4, 5, 6, 7] = Some k" "week_offset days now k"
proof -
  obtain d where "d \<in> set days" using assms parse_weekdays_ne [of env s] by (meson list.set_sel(1))
  then obtain k where "k \<in> {1, 2, 3, 4, 5, 6, 7}" "weekday (now + k * DAY) \<in> set days" using some_weekday weekdays_range assms by metis
  then have "find (\<lambda>k. weekday (now + k * DAY) \<in> set days) [1, 2, 3, 4, 5, 6, 7] \<noteq> None" unfolding find_None_iff by auto
  then obtain k' where f: "find (\<lambda>k. weekday (now + k * DAY) \<in> set days) [1, 2, 3, 4, 5, 6, 7] = Some k'" by blast
  have k': "1 \<le> k'" "k' \<le> 7" "weekday (now + k' * DAY) \<in> set days" using f by (auto split: if_splits)
  have "weekday (now + j * DAY) \<notin> set days" if "j \<in> {1, 2, 3, 4, 5, 6}" "j < k'" for j using f that by (auto split: if_splits)
  moreover have "j \<in> {1, 2, 3, 4, 5, 6}" if "1 \<le> j" "j < k'" for j using that k' by auto
  ultimately have "week_offset days now k'" using k' unfolding week_offset_def by blast
  with f that show thesis by blast
qed

lemma weekly_next_offset:
  assumes "weekly_next env expr now = Inr w"
  obtains k where "week_offset (parse_weekdays env (str_strip (hd (split_on (CHR '','') expr)))) now k" "w div DAY = now div DAY + k"
proof -
  let ?days = "parse_weekdays env (str_strip (hd (split_on (CHR '','') expr)))"
  obtain k where f: "find (\<lambda>k. weekday (now + k * DAY) \<in> set ?days) [1, 2, 3, 4, 5, 6, 7] = Some k" and k: "week_offset ?days now k"
    using find_offset [OF refl] by blast
  obtain h m where "at_time (now + k * DAY) h m = Inr w" using assms f by (auto simp: weekly_next_def Let_def bind_r_Inr)
  then have "w div DAY = (now + k * DAY) div DAY" using at_time_day by blast
  then have "w div DAY = now div DAY + k" by (simp add: DAY_def)
  with k that show thesis by blast
qed

definition first_weekday_after :: "int \<Rightarrow> int \<Rightarrow> int list \<Rightarrow> bool" where
  "first_weekday_after now w days \<longleftrightarrow> now div DAY < w div DAY \<and> weekday w \<in> set days \<and>
     (\<forall>d. now div DAY < d \<and> d < w div DAY \<longrightarrow> weekday (d * DAY) \<notin> set days)"

lemma weekday_div: "weekday w = (w div DAY + 3) mod 7" "d * DAY div DAY = d" "(now + k * DAY) div DAY = now div DAY + k"
  by (simp_all add: weekday_def DAY_def)

lemma weekly_next_first:
  assumes "weekly_next env expr now = Inr w"
  shows "first_weekday_after now w (parse_weekdays env (str_strip (hd (split_on (CHR '','') expr))))"
proof -
  obtain k where k: "week_offset (parse_weekdays env (str_strip (hd (split_on (CHR '','') expr)))) now k" and w: "w div DAY = now div DAY + k"
    using assms by (rule weekly_next_offset)
  have "weekday (d * DAY) = weekday (now + (d - now div DAY) * DAY)" for d unfolding weekday_div by simp
  moreover have "weekday w = weekday (now + k * DAY)" unfolding weekday_div w by simp
  ultimately show ?thesis using k w unfolding week_offset_def first_weekday_after_def by auto
qed

lemma cron_fallback_next: "now < cron_fallback env expr now \<and> cron_fallback env expr now \<le> now + DAY"
  by (auto simp: cron_fallback_def clock_defs split: list.splits sum.splits dest!: today_or_tomorrow_next
      simp: bind_r_Inr)

text \<open>
  a repeated schedule moves forward on the wall clock of its zone. A daily task runs next within a day, at the minute it names; a weekly task on
  one of its weekdays, on the first such day after today; a cron expression without \<open>croniter\<close> within a day; and an interval after exactly its minutes.
\<close>

theorem next_time_moves_forward:
  assumes "next_wall env z ty expr now = Inr w"
  shows "(ty = ''daily'' \<longrightarrow> (\<exists>h m. parse_time env (or_default expr ''09:00'') = Inr (h, m) \<and> now < w \<and> w \<le> now + DAY \<and> w mod DAY = h * HOUR + m * MINUTE)) \<and>
    (ty = ''weekly'' \<longrightarrow> first_weekday_after now w (parse_weekdays env (str_strip (hd (split_on (CHR '','') (or_default expr ''1,09:00'')))))) \<and>
    (ty = ''cron'' \<and> se_cron env = None \<longrightarrow> now < w \<and> w \<le> now + DAY) \<and>
    (ty = ''interval'' \<longrightarrow> (\<exists>n. parse_interval_minutes env (or_default expr ''60'') = Inr n \<and> w = now + n * MINUTE))"
proof (intro conjI impI)
  show "\<exists>h m. parse_time env (or_default expr ''09:00'') = Inr (h, m) \<and> now < w \<and> w \<le> now + DAY \<and> w mod DAY = h * HOUR + m * MINUTE"
    if "ty = ''daily''"
    using assms that today_or_tomorrow_next unfolding next_wall_def by (fastforce simp: bind_r_Inr)
  show "first_weekday_after now w (parse_weekdays env (str_strip (hd (split_on (CHR '','') (or_default expr ''1,09:00'')))))" if "ty = ''weekly''"
    using assms that unfolding next_wall_def by (simp add: weekly_next_first)
  show "\<exists>n. parse_interval_minutes env (or_default expr ''60'') = Inr n \<and> w = now + n * MINUTE" if "ty = ''interval''"
    using assms that unfolding next_wall_def by (auto simp: bind_r_Inr)
qed (use assms cron_fallback_next in \<open>auto simp: next_wall_def compute_cron_next_def\<close>)

section \<open>The poll\<close>

interpretation started_rows: row_update tk_id start_row
  by unfold_locales (auto simp: start_row_def split: prod.splits)

interpretation next_rows: row_update tk_id next_row
  by unfold_locales (auto simp: next_row_def split: prod.splits option.splits)

interpretation patched_rows: row_update tk_id patch_row
  by unfold_locales (auto simp: patch_row_def split: prod.splits)

text \<open>What starting a task does to the tables: one run, one row of history, the task's own row and no other.\<close>

definition same_task :: "nat \<Rightarrow> sched_db \<Rightarrow> sched_db \<Rightarrow> bool" where
  "same_task j db db' \<longleftrightarrow> find_row tk_id j (sd_tasks db') = find_row tk_id j (sd_tasks db) \<and> (already_running db' j \<longleftrightarrow> already_running db j)"

definition fresh_runs :: "sched_env \<Rightarrow> nat \<Rightarrow> sched_db \<Rightarrow> bool" where
  "fresh_runs env k db \<longleftrightarrow> (\<forall>n \<ge> k. \<forall>h \<in> set (sd_history db). hi_run h \<noteq> Some (se_uid env n))"

lemma run_and_record_runs [simp]: "sd_runs (run_and_record now run res db) = sd_runs db" "sd_tasks (run_and_record now run res db) = sd_tasks db"
  by (auto simp: run_and_record_def update_history_status_def split: option.splits)

lemma map_update_row: "(\<And>r. g (f r) = g r) \<Longrightarrow> map g (update_row key k f rows) = map g rows"
  by (auto simp: update_row_def)

lemma run_and_record_history [simp]:
  "map hi_task (sd_history (run_and_record now run res db)) = map hi_task (sd_history db)"
  "map hi_run (sd_history (run_and_record now run res db)) = map hi_run (sd_history db)"
  by (auto simp: run_and_record_def update_history_status_def map_update_row split: option.splits)

lemma advance_tables:
  assumes "advance_task_schedule env k t db = Inr db'"
  obtains nxt where "db' = set_tasks (tk_id t) (next_row (now_text env k, nxt)) db" "tk_type t = ''one_shot'' \<longrightarrow> nxt = None"
  using assms by (auto simp: advance_task_schedule_def bind_r_Inr split: if_splits)

lemma already_running_update:
  assumes "\<And>h. h \<in> set (sd_history db) \<Longrightarrow> hi_run h = Some run \<Longrightarrow> hi_task h = i" "j \<noteq> i"
  shows "already_running (run_and_record now run res db) j \<longleftrightarrow> already_running db j"
  using assms by (auto simp: already_running_def run_and_record_def update_history_status_def update_row_def list_ex_iff split: option.splits)

lemmas table_defs = record_run_def record_history_def set_tasks_def

lemma execute_task_cases:
  assumes "execute_task env k db t = (r, db')"
  obtains (stops) e where "r = Inl e" "db' = record_run (now_text env k) (se_uid env k) (provider_ok env (provider_of t)) (tk_id t) db"
  | (runs) nxt res where "r = Inr (se_uid env k)" "tk_type t = ''one_shot'' \<longrightarrow> nxt = None"
      "db' = run_and_record (now_text env k) (se_uid env k) res (set_tasks (tk_id t) (next_row (now_text env k, nxt))
         (record_run (now_text env k) (se_uid env k) (provider_ok env (provider_of t)) (tk_id t) db))"
proof -
  let ?db1 = "record_run (now_text env k) (se_uid env k) (provider_ok env (provider_of t)) (tk_id t) db"
  have quiet: "db2 = run_and_record (now_text env k) (se_uid env k) None db2" for db2 by (simp add: run_and_record_def)
  show thesis
  proof (cases "advance_task_schedule env k t ?db1")
    case (Inl e)
    then show ?thesis using assms stops by (auto simp: execute_task_def Let_def)
  next
    case (Inr db2)
    then obtain nxt where "db2 = set_tasks (tk_id t) (next_row (now_text env k, nxt)) ?db1" "tk_type t = ''one_shot'' \<longrightarrow> nxt = None"
      by (rule advance_tables)
    moreover have "r = Inr (se_uid env k)" "\<exists>res. db' = run_and_record (now_text env k) (se_uid env k) res db2"
      using assms Inr quiet [of db2] by (auto simp: execute_task_def Let_def split: if_splits)
    ultimately show ?thesis using runs by blast
  qed
qed

lemma execute_task_tables:
  assumes "execute_task env k db t = (r, db')"
  shows "map hi_task (sd_history db') = map hi_task (sd_history db) @ [tk_id t]"
    and "map hi_run (sd_history db') = map hi_run (sd_history db) @ [Some (se_uid env k)]"
    and "map fst (sd_runs db') = map fst (sd_runs db) @ [se_uid env k]"
    and "map tk_id (sd_tasks db') = map tk_id (sd_tasks db)"
  using assms by (cases rule: execute_task_cases; simp add: table_defs started_rows.keys_update next_rows.keys_update)+

lemma execute_task_other:
  assumes "execute_task env k db t = (r, db')" "fresh_runs env k db" "j \<noteq> tk_id t"
  shows "same_task j db db'"
  using assms(1)
proof (cases rule: execute_task_cases)
  case stops
  then show ?thesis using assms(3) by (simp add: same_task_def table_defs started_rows.find_update already_running_def)
next
  case (runs nxt res)
  let ?db2 = "set_tasks (tk_id t) (next_row (now_text env k, nxt))
     (record_run (now_text env k) (se_uid env k) (provider_ok env (provider_of t)) (tk_id t) db)"
  have "hi_task h = tk_id t" if "h \<in> set (sd_history ?db2)" "hi_run h = Some (se_uid env k)" for h
    using that assms(2) by (auto simp: table_defs fresh_runs_def)
  then have "already_running db' j \<longleftrightarrow> already_running ?db2 j" using runs already_running_update assms(3) by blast
  moreover have "same_task j db ?db2"
    using assms(3) by (simp add: same_task_def table_defs next_rows.find_update started_rows.find_update already_running_def)
  ultimately show ?thesis using runs unfolding same_task_def by simp
qed

lemma execute_task_fresh:
  assumes "execute_task env k db t = (r, db')" "fresh_runs env k db" "inj (se_uid env)"
  shows "fresh_runs env (Suc k) db'"
proof -
  have "hi_run ` set (sd_history db') = hi_run ` set (sd_history db) \<union> {Some (se_uid env k)}"
    using arg_cong [OF execute_task_tables(2) [OF assms(1)], of set] by (simp only: set_map [symmetric] set_append) simp
  then have "hi_run h \<in> hi_run ` set (sd_history db) \<or> hi_run h = Some (se_uid env k)" if "h \<in> set (sd_history db')" for h using that by blast
  then show ?thesis using assms(2,3) unfolding fresh_runs_def by (fastforce dest: injD)
qed

text \<open>The due tasks, in the order of their times, each once.\<close>

lemma set_insert_task [simp]: "set (insert_task t us) = insert t (set us)"
  by (induction us) auto

lemma distinct_insert_task: "distinct (map tk_id (insert_task t us)) \<longleftrightarrow> tk_id t \<notin> tk_id ` set us \<and> distinct (map tk_id us)"
  by (induction us) auto

lemma set_due_tasks: "set (get_due_tasks now db) = {t \<in> set (sd_tasks db). task_due now t}"
proof -
  have "set (foldr insert_task ts []) = set ts" for ts by (induction ts) auto
  then show ?thesis by (auto simp: get_due_tasks_def)
qed

lemma distinct_due_tasks: "distinct (map tk_id (sd_tasks db)) \<Longrightarrow> distinct (map tk_id (get_due_tasks now db))"
proof -
  have s: "set (foldr insert_task ts []) = set ts" for ts by (induction ts) auto
  have "distinct (map tk_id (foldr insert_task ts [])) \<longleftrightarrow> distinct (map tk_id ts)" for ts by (induction ts) (auto simp: distinct_insert_task s)
  then show "distinct (map tk_id (sd_tasks db)) \<Longrightarrow> ?thesis" by (simp add: get_due_tasks_def distinct_map_filter)
qed

text \<open>What a poll over a list of tasks does: the tasks that are not running are started, in order, until one of them raises; a one-shot task that was
  started is over.\<close>

definition polled :: "sched_env \<Rightarrow> sched_db \<Rightarrow> task_row list \<Rightarrow> py_exception + string list \<Rightarrow> sched_db \<Rightarrow> bool" where
  "polled env db ts r db' \<longleftrightarrow> (\<exists>ids runs.
     map hi_task (sd_history db') = map hi_task (sd_history db) @ ids \<and> map fst (sd_runs db') = map fst (sd_runs db) @ runs \<and> length runs = length ids \<and>
     prefix ids (filter (\<lambda>i. \<not> already_running db i) (map tk_id ts)) \<and>
     (\<forall>rs. r = Inr rs \<longrightarrow> rs = runs \<and> ids = filter (\<lambda>i. \<not> already_running db i) (map tk_id ts)))"

lemma run_tasks_other:
  assumes "run_tasks env k db ts = (r, db')" "fresh_runs env k db" "inj (se_uid env)" "j \<notin> tk_id ` set ts"
  shows "same_task j db db'"
  using assms
proof (induction ts arbitrary: k db r)
  case Nil
  then show ?case by (simp add: same_task_def)
next
  case (Cons t ts)
  show ?case
  proof (cases "already_running db (tk_id t)")
    case True
    then show ?thesis using Cons by (auto simp: fresh_runs_def)
  next
    case False
    obtain r1 db1 where e: "execute_task env k db t = (r1, db1)" by fastforce
    have "same_task j db db1" using execute_task_other [OF e] Cons.prems by simp
    moreover have "same_task j db1 db'" using Cons.prems Cons.IH [of "Suc k" db1] False e execute_task_fresh [OF e]
      by (auto simp: same_task_def split: sum.splits prod.splits)
    ultimately show ?thesis unfolding same_task_def by simp
  qed
qed

lemma run_tasks_polled:
  assumes "run_tasks env k db ts = (r, db')" "fresh_runs env k db" "inj (se_uid env)" "distinct (map tk_id ts)"
  shows "polled env db ts r db'"
  using assms
proof (induction ts arbitrary: k db r)
  case Nil
  then show ?case by (auto simp: polled_def)
next
  case (Cons t ts)
  show ?case
  proof (cases "already_running db (tk_id t)")
    case True
    then have "polled env db ts r db'" using Cons by (auto simp: fresh_runs_def)
    then show ?thesis using True unfolding polled_def by simp
  next
    case False
    obtain r1 db1 where e: "execute_task env k db t = (r1, db1)" by fastforce
    note tables = execute_task_tables [OF e]
    show ?thesis
    proof (cases r1)
      case (Inl x)
      then have "r = Inl x" "db' = db1" using Cons.prems(1) False e by simp_all
      then show ?thesis using False tables unfolding polled_def
        by (intro exI [of _ "[tk_id t]"] exI [of _ "[se_uid env k]"]) simp
    next
      case (Inr run)
      then have run: "run = se_uid env k" using e by (auto elim: execute_task_cases)
      obtain r2 where r2: "run_tasks env (Suc k) db1 ts = (r2, db')" and r: "r = map_sum id (Cons run) r2"
        using Cons.prems(1) False e Inr by (auto split: prod.splits sum.splits)
      have "polled env db1 ts r2 db'" using Cons.IH [OF r2] execute_task_fresh [OF e] Cons.prems by simp
      moreover have "filter (\<lambda>i. \<not> already_running db1 i) (map tk_id ts) = filter (\<lambda>i. \<not> already_running db i) (map tk_id ts)"
      proof (rule filter_cong [OF refl])
        show "(\<not> already_running db1 j) = (\<not> already_running db j)" if "j \<in> set (map tk_id ts)" for j
          using execute_task_other [OF e Cons.prems(2), of j] Cons.prems(4) that unfolding same_task_def by (cases "j = tk_id t") simp_all
      qed
      ultimately obtain ids runs where "map hi_task (sd_history db') = map hi_task (sd_history db1) @ ids"
        "map fst (sd_runs db') = map fst (sd_runs db1) @ runs" "length runs = length ids"
        "prefix ids (filter (\<lambda>i. \<not> already_running db i) (map tk_id ts))"
        "\<forall>rs. r2 = Inr rs \<longrightarrow> rs = runs \<and> ids = filter (\<lambda>i. \<not> already_running db i) (map tk_id ts)"
        unfolding polled_def by auto
      then show ?thesis using False tables r run unfolding polled_def
        by (intro exI [of _ "tk_id t # ids"] exI [of _ "run # runs"]) (cases r2; simp)
    qed
  qed
qed

definition over :: "sched_db \<Rightarrow> nat \<Rightarrow> bool" where
  "over db i \<longleftrightarrow> (\<exists>t. find_row tk_id i (sd_tasks db) = Some t \<and> tk_status t = ''completed'' \<and> \<not> tk_enabled t \<and> tk_next t = None)"

lemma execute_task_over:
  assumes "execute_task env k db t = (Inr r, db')" "find_row tk_id (tk_id t) (sd_tasks db) \<noteq> None" "tk_type t = ''one_shot''"
  shows "over db' (tk_id t)"
  using assms(1)
proof (cases rule: execute_task_cases)
  case stops
  then show ?thesis by simp
next
  case (runs nxt res)
  have ended: "tk_status (next_row (now, None) u) = ''completed'' \<and> \<not> tk_enabled (next_row (now, None) u) \<and> tk_next (next_row (now, None) u) = None" for now u
    by (simp add: next_row_def)
  show ?thesis using runs assms(2,3) ended by (auto simp: over_def table_defs next_rows.find_update started_rows.find_update)
qed

lemma run_tasks_over:
  assumes "run_tasks env k db ts = (Inr rs, db')" "fresh_runs env k db" "inj (se_uid env)" "distinct (map tk_id ts)"
    "t \<in> set ts" "\<not> already_running db (tk_id t)" "find_row tk_id (tk_id t) (sd_tasks db) \<noteq> None" "tk_type t = ''one_shot''"
  shows "over db' (tk_id t)"
  using assms
proof (induction ts arbitrary: k db rs)
  case (Cons u ts)
  show ?case
  proof (cases "already_running db (tk_id u)")
    case True
    then show ?thesis using Cons by (auto simp: fresh_runs_def)
  next
    case False
    then obtain run db1 rs1 where e: "execute_task env k db u = (Inr run, db1)" and r: "run_tasks env (Suc k) db1 ts = (Inr rs1, db')"
      using Cons.prems(1) by (auto split: prod.splits sum.splits)
    have f: "fresh_runs env (Suc k) db1" using execute_task_fresh [OF e] Cons.prems by simp
    show ?thesis
    proof (cases "t = u")
      case True
      then have "over db1 (tk_id t)" using execute_task_over [OF e] Cons.prems by simp
      moreover have "same_task (tk_id t) db1 db'" using run_tasks_other [OF r f] Cons.prems True by auto
      ultimately show ?thesis unfolding over_def same_task_def by simp
    next
      case other: False
      then have "tk_id t \<in> set (map tk_id ts)" "tk_id u \<notin> set (map tk_id ts)" using Cons.prems(4,5) by simp_all
      then have "tk_id t \<noteq> tk_id u" by metis
      then have "same_task (tk_id t) db db1" using execute_task_other [OF e] Cons.prems by blast
      then show ?thesis using Cons.IH [OF r f] Cons.prems other unfolding same_task_def by auto
    qed
  qed
qed simp

text \<open>
  C39: one poll. Call a task ready when it is enabled and active, the text of its stored next time is not greater than the text of the present
  time (the code compares the texts, which for a zone other than UTC is not the order of the times: \<open>daily_task_runs_hours_early\<close>), and no run of it is
  under way. The poll starts only ready tasks, each at most once and with one run. When no task raises, it starts every ready task, and each
  one-shot task among them is afterwards completed, disabled and without a next time. Such a row is not ready; a person may still resume
  it or run it by hand.
\<close>

theorem poll_starts_due_tasks_once:
  assumes "run_due_tasks env k db = (r, db')" "distinct (map tk_id (sd_tasks db))"
    and "inj (se_uid env)" "fresh_runs env (Suc k) db"
  shows "\<exists>ids. map hi_task (sd_history db') = map hi_task (sd_history db) @ ids \<and> length (sd_runs db') = length (sd_runs db) + length ids \<and> distinct ids \<and>
    (\<forall>i \<in> set ids. \<exists>t. find_row tk_id i (sd_tasks db) = Some t \<and> task_due (now_text env k) t \<and> \<not> already_running db i) \<and>
    (\<forall>rs. r = Inr rs \<longrightarrow> length rs = length ids \<and>
      (\<forall>t \<in> set (sd_tasks db). task_due (now_text env k) t \<and> \<not> already_running db (tk_id t) \<longrightarrow>
         tk_id t \<in> set ids \<and> (tk_type t = ''one_shot'' \<longrightarrow> over db' (tk_id t))))"
proof -
  let ?ts = "get_due_tasks (now_text env k) db"
  have run: "run_tasks env (Suc k) db ?ts = (r, db')" using assms(1) by (simp add: run_due_tasks_def)
  have d: "distinct (map tk_id ?ts)" using assms(2) by (rule distinct_due_tasks)
  obtain ids runs where h: "map hi_task (sd_history db') = map hi_task (sd_history db) @ ids"
    "map fst (sd_runs db') = map fst (sd_runs db) @ runs" "length runs = length ids"
    and p: "prefix ids (filter (\<lambda>i. \<not> already_running db i) (map tk_id ?ts))"
    and all: "\<forall>rs. r = Inr rs \<longrightarrow> rs = runs \<and> ids = filter (\<lambda>i. \<not> already_running db i) (map tk_id ?ts)"
    using run_tasks_polled [OF run assms(4,3) d] unfolding polled_def by blast
  have row: "find_row tk_id (tk_id t) (sd_tasks db) = Some t" if "t \<in> set (sd_tasks db)" for t using find_row_distinct [OF assms(2) that] .
  have "length (sd_runs db') = length (sd_runs db) + length ids" using arg_cong [OF h(2), of length] h(3) by simp
  moreover have "distinct ids" using p d by (auto simp: prefix_def distinct_append dest!: arg_cong [of _ _ distinct])
  moreover have "\<exists>t. find_row tk_id i (sd_tasks db) = Some t \<and> task_due (now_text env k) t \<and> \<not> already_running db i" if "i \<in> set ids" for i
    using set_mono_prefix [OF p] that row by (auto simp: set_due_tasks)
  moreover have "tk_id t \<in> set ids \<and> (tk_type t = ''one_shot'' \<longrightarrow> over db' (tk_id t))"
    if "r = Inr rs" "t \<in> set (sd_tasks db)" "task_due (now_text env k) t" "\<not> already_running db (tk_id t)" for rs t
    using all that run_tasks_over [OF run [unfolded that(1)] assms(4,3) d] row by (simp add: set_due_tasks)
  ultimately show ?thesis using h all by blast
qed

section \<open>Examples\<close>

text \<open>A clock that stands at 10:00 UTC on 2024-10-04, and a zone eight hours behind. Every run ends at once.\<close>

definition ascii_int :: "string \<Rightarrow> int option" where
  "ascii_int s = (if s \<noteq> [] \<and> list_all is_digit s then Some (foldl (\<lambda>a c. 10 * a + (of_char c - 48)) 0 s) else None)"

definition pacific :: zone where
  "pacific = \<lparr>z_local = (\<lambda>t. t - 28800000000), z_offset = (\<lambda>_. -480)\<rparr>"

definition demo_sched :: sched_env where
  "demo_sched = \<lparr>se_int = ascii_int, se_zone = (\<lambda>s. if s = ''UTC'' then Some utc else if s = ''Pacific'' then Some pacific else None),
     se_clock = (\<lambda>_. 1728036000000000), se_cron = None, se_uid = (\<lambda>n. replicate n (CHR ''r'')), se_catalog = [], se_environ = (\<lambda>_. []),
     se_outcome = (\<lambda>_. Some None)\<rparr>"

definition demo_request :: "string \<Rightarrow> string option \<Rightarrow> string \<Rightarrow> task_request" where
  "demo_request ty expr tz = \<lparr>tr_title = ''t'', tr_prompt = ''fix'', tr_repo = ''/r'', tr_type = ty, tr_expr = expr, tr_tz = tz, tr_provider = None, tr_model = None,
     tr_runtime = ''local'', tr_profile = None, tr_memory = ''repo'', tr_next = None\<rparr>"

definition empty_sched :: sched_db where
  "empty_sched = \<lparr>sd_tasks = [], sd_history = [], sd_runs = [], sd_next_id = 1\<rparr>"

definition demo_tasks :: sched_db where
  "demo_tasks = snd (projr (create_task demo_sched 0 empty_sched (demo_request ''one_shot'' (Some ''2024-10-04T08:00:00+00:00'') ''UTC'')))"

lemma demo_uids: "inj (se_uid demo_sched)" "fresh_runs demo_sched k empty_sched" "fresh_runs demo_sched k demo_tasks"
proof -
  show "inj (se_uid demo_sched)" by (rule injI) (simp add: demo_sched_def replicate_eq_replicate)
  have "sd_history demo_tasks = []" by code_simp
  then show "fresh_runs demo_sched k demo_tasks" "fresh_runs demo_sched k empty_sched" by (simp_all add: fresh_runs_def empty_sched_def)
qed

theorem next_time_moves_forward_witness:
  "next_wall demo_sched utc ''weekly'' (Some ''fri+sun,09:30'') 1728036000000000 = Inr 1728207000000000 \<and>
   first_weekday_after 1728036000000000 1728207000000000 (parse_weekdays demo_sched (str_strip (hd (split_on (CHR '','') (or_default (Some ''fri+sun,09:30'') ''1,09:00'')))))"
proof -
  have "next_wall demo_sched utc ''weekly'' (Some ''fri+sun,09:30'') 1728036000000000 = Inr 1728207000000000" by code_simp
  with next_time_moves_forward [OF this] show ?thesis by simp
qed

definition demo_poll :: "(py_exception + string list) \<times> sched_db" where
  "demo_poll = run_due_tasks demo_sched 0 demo_tasks"

theorem poll_starts_due_tasks_once_witness:
  "fst demo_poll = Inr [''r''] \<and> (\<exists>ids. map hi_task (sd_history (snd demo_poll)) = map hi_task (sd_history demo_tasks) @ ids \<and> distinct ids \<and> 1 \<in> set ids) \<and>
   over (snd demo_poll) 1"
proof -
  obtain r db' where p: "run_due_tasks demo_sched 0 demo_tasks = (r, db')" by fastforce
  have r: "fst demo_poll = Inr [''r'']" by code_simp
  have d: "distinct (map tk_id (sd_tasks demo_tasks))" by code_simp
  have t: "list_ex (\<lambda>t. tk_id t = 1 \<and> task_due (now_text demo_sched 0) t \<and> \<not> already_running demo_tasks 1 \<and> tk_type t = ''one_shot'') (sd_tasks demo_tasks)"
    by code_simp
  show ?thesis
    using poll_starts_due_tasks_once [OF p d demo_uids(1) demo_uids(3)] r t p unfolding demo_poll_def list_ex_iff by fastforce
qed

text \<open>Stored times carry the offset of their zone and are compared with the time in UTC as texts: a daily task for 09:00 eight hours behind UTC is due at
  02:00 of its zone, and after its run it is due again at once.\<close>

definition zone_task :: sched_db where
  "zone_task = snd (projr (create_task demo_sched 0 empty_sched (demo_request ''daily'' (Some ''09:00'') ''Pacific'')))"

lemma zone_next: "compute_next_run demo_sched k ''daily'' (Some ''09:00'') ''Pacific'' = Inr ''2024-10-04T09:00:00-08:00''"
proof -
  have "compute_next_run demo_sched 0 ''daily'' (Some ''09:00'') ''Pacific'' = Inr ''2024-10-04T09:00:00-08:00''" by code_simp
  then show ?thesis by (simp add: compute_next_run_def demo_sched_def)
qed

lemma demo_now: "now_text demo_sched k = ''2024-10-04T10:00:00+00:00''"
proof -
  have "now_text demo_sched 0 = ''2024-10-04T10:00:00+00:00''" by code_simp
  then show ?thesis by (simp add: now_text_def demo_sched_def)
qed

lemma zone_tasks: "zone_task = \<lparr>sd_tasks = [new_task 1 ''2024-10-04T10:00:00+00:00'' ''2024-10-04T09:00:00-08:00'' (demo_request ''daily'' (Some ''09:00'') ''Pacific'')],
    sd_history = [], sd_runs = [], sd_next_id = 2\<rparr>"
proof -
  have "validate_timezone demo_sched ''Pacific'' = Inr ()" by code_simp
  then show ?thesis by (simp add: zone_task_def create_task_def demo_request_def or_default_def zone_next demo_now empty_sched_def)
qed

lemma zone_due: "text_le ''2024-10-04T09:00:00-08:00'' ''2024-10-04T10:00:00+00:00''"
  by code_simp

lemma demo_env: "se_uid demo_sched n = replicate n (CHR ''r'')" "se_outcome demo_sched r = Some None"
  by (simp_all add: demo_sched_def)

lemmas poll_eval = run_due_tasks_def get_due_tasks_def task_due_def already_running_def execute_task_def advance_task_schedule_def table_defs
  start_row_def next_row_def run_and_record_def update_history_status_def update_row_def provider_ok_def provider_of_def or_default_def
  new_task_def demo_request_def zone_next zone_due demo_now demo_env Let_def

lemma daily_task_runs_hours_early:
  "map tk_next (sd_tasks zone_task) = [Some ''2024-10-04T09:00:00-08:00''] \<and> now_text demo_sched 0 = ''2024-10-04T10:00:00+00:00'' \<and>
   fst (run_due_tasks demo_sched 0 zone_task) = Inr [''r''] \<and>
   fst (run_due_tasks demo_sched 9 (snd (run_due_tasks demo_sched 0 zone_task))) = Inr [replicate 10 (CHR ''r'')]"
  by (simp add: zone_tasks poll_eval)

text \<open>Resuming does not look at the status: a deleted task is active again.\<close>

lemma deleted_task_resumes:
  "map tk_status (sd_tasks (snd (delete_task demo_sched 1 zone_task 1))) = [''deleted''] \<and>
   map tk_status (sd_tasks (snd (projr (resume_task demo_sched 2 (snd (delete_task demo_sched 1 zone_task 1)) 1)))) = [''active'']"
  by (simp add: zone_tasks delete_task_def resume_task_def find_row_Cons poll_eval)

text \<open>A run that was left in the background when its process ended leaves the row of history at \<open>started\<close>; no later poll starts the task again.\<close>

lemma orphaned_history_blocks_task:
  assumes "\<forall>t \<in> set (sd_tasks db). already_running db (tk_id t)"
  shows "run_due_tasks env k db = (Inr [], db)"
proof -
  have "run_tasks env n db ts = (Inr [], db)" if "set ts \<subseteq> set (sd_tasks db)" for n ts
    using that assms by (induction ts arbitrary: n) auto
  then show ?thesis by (simp add: run_due_tasks_def set_due_tasks)
qed

end
