(* ===== verification/Spec2Isabelle.thy ===== *)
theory Spec2Isabelle
  imports Policy_Store Identity Tenancy Failures Queue Checkpoints Workspace Command_Risk Workflow_Safety Resume Memory Orchestrator_Runs Plugins Scheduler
begin

text \<open>
  PatchQuest runs coding agents on a repository: a run plans a change, edits a shadow copy of the repository, tests it, and writes it back
  only when policies, approvals and checks let it. This development models the parts of the Python backend (\<open>src/backend/patchquest\<close>) that decide
  what may happen and that keep its state, and proves what makes them correct.

  \<^bold>\<open>How the parts work together.\<close> A run is a row of the runs table; its status moves along a fixed table and every move is an event of an
  append-only ledger. Workers claim queued runs under leases, and a worker that lost its lease is fenced off. A run works in a shadow
  workspace; commands it wants to execute are classified by risk, and what needs a person becomes an approval. Changes go
  through the patch engine, which checks preconditions, scans for secrets and rolls back on failure; promotion to the repository goes
  through the same engine and is journaled. After every phase a checkpoint is saved, and an interrupted run is resumed from the newest checkpoint that
  verifies, if the repository did not change underneath. Policies of every scope are combined strictest first and bound what a run, a
  workflow action or a disclosure of data may do. Workflows are graphs of such steps, validated before they are stored and executed by a
  durable engine. Connectors receive signed events and contact services through a guard, plugins add capabilities under the same policies, and a scheduler starts runs. Identities, teams, workspaces and repositories say who may do this where.

  \<^bold>\<open>Theories.\<close> Each theory opens with what it models; definitions keep the names of the code where HOL allows it.

  \<^item> \<open>Prelude\<close>: the JSON-like Python values, dictionaries as association lists, strings, result values, tables of rows, and the two generic
    locales: \<open>state_machine\<close> (steps that keep an invariant) and \<open>row_update\<close> (an \<open>UPDATE\<close> that keeps the key).
  \<^item> \<open>Effects\<close>, \<open>Fnmatch\<close>, \<open>Policy\<close>, \<open>Policy_Store\<close>: \<open>domain/effects.py\<close>, \<open>fnmatch\<close>, \<open>domain/policy.py\<close>, \<open>domain/egress.py\<close>, \<open>persistence/policies.py\<close>,
    \<open>runtime/policy.py\<close>. Shown: evaluation is the strictest answer, policies only tighten, the floor cannot be lowered, secrets are never disclosed,
    corrupt policies deny, ceilings hold.
  \<^item> \<open>Identity\<close>, \<open>Tenancy\<close>, \<open>Paths\<close>: \<open>domain/identity.py\<close>, \<open>persistence/identity.py\<close>, \<open>persistence/tenancy.py\<close>, \<open>paths.py\<close>. Shown: permissions stay
    within an organisation, revoked tokens stay refused, workspaces never share a path, paths stay in the repository.
  \<^item> \<open>Failures\<close>: \<open>domain/failures.py\<close>, \<open>runtime/retry.py\<close>, \<open>domain/budget.py\<close>. Shown: the retry loop ends within its attempts and never repeats what may have happened.
  \<^item> \<open>Runs\<close>, \<open>Approvals\<close>, \<open>Queue\<close>, \<open>Checkpoints\<close>: \<open>domain/runs.py\<close>, \<open>persistence/runs.py\<close>, \<open>persistence/ledger.py\<close>, \<open>domain/approvals.py\<close>,
    \<open>persistence/approvals.py\<close>, \<open>runtime/queue.py\<close>, \<open>recovery.py\<close>, \<open>persistence/checkpoints.py\<close>. All operations on the runs database are the rules of one
    step relation, \<open>runtime_step\<close>; its invariant and the locales \<open>status_machine\<close> and \<open>lease_table\<close> give the properties of every history.
  \<^item> \<open>Unified\<close>, \<open>Edits\<close>, \<open>Regex\<close>, \<open>Secret_Guard\<close>, \<open>Patch_Engine\<close>, \<open>Workspace\<close>: \<open>patching/*.py\<close>, \<open>tools/secret_guard.py\<close>, \<open>runtime/workspace.py\<close>. The
    disk may fail at any write (\<open>io\<close>). The contract the writers rely on is the locale \<open>guarded_writer\<close>, interpreted on \<open>apply_changes\<close> and
    used by promotion and by the reversal of a promotion.
  \<^item> \<open>Resume\<close>: \<open>runtime/resume.py\<close>, \<open>runtime/fingerprint.py\<close>.
  \<^item> \<open>Memory\<close>: \<open>domain/memory.py\<close>, \<open>domain/preferences.py\<close>, \<open>persistence/memories.py\<close>, \<open>runtime/memory_service.py\<close>, \<open>runtime/repo_profile.py\<close>. Shown: a value of
    higher authority is never replaced by one of lower, records come only from sources that may write them, tenants do not see or change
    each other's records, and the notes chosen for a prompt keep to their budget.
  \<^item> \<open>Orchestrator\<close>: \<open>orchestrator/state_machine.py\<close>, \<open>orchestrator/run_context.py\<close>, \<open>orchestrator/phases.py\<close>, \<open>orchestrator/snapshot.py\<close>,
    \<open>validation/failures.py\<close>, \<open>tools/command_runner.py\<close>. A coroutine of the code is a function from the machine to a result or exception and the machine;
    every \<open>await\<close> on a thread is a point at which the run may be cancelled or abandoned and other workers may write. Model replies, processes, the disk,
    signals and persons are functions of a record \<open>orch_env\<close>, indexed by a tick that never repeats.
    \<open>Orchestrator_Safety\<close>: a relation between states that every primitive step keeps is kept by a run (locales \<open>two_state\<close>, \<open>workspace_frame\<close>,
    \<open>run_frame\<close>). Shown for all environments: the repository is written only through the gate, executed commands were permitted, no
    more commands are executed than the budget allows, the repair loop ends. \<open>Orchestrator_Runs\<close>: evaluated runs, and the findings.
  \<^item> \<open>Ssrf\<close>: \<open>connectors/ssrf.py\<close> with what it uses of \<open>ipaddress\<close>, \<open>inet_aton\<close> and \<open>urlsplit\<close>, addresses as machine words. Shown: every URL requested,
    redirects included, was checked before, and every address of its host was public then. \<open>Connectors\<close>: \<open>connectors/base.py\<close>, \<open>connectors/webhooks.py\<close>, \<open>connectors/envelope.py\<close>, \<open>connectors/outbound.py\<close>. Shown: an
    action that needs approval contacts its service only under a grant, events are accepted once, and the requests of a delivery are counted under any interleaving of
    the transactions of the workers; and where a crash or a slow worker leaves a delivery unfinished or reopens it.
  \<^item> \<open>Scheduler\<close>: \<open>scheduler/schedule_calculator.py\<close>, \<open>scheduler/scheduler.py\<close>. Shown: a poll starts the tasks whose stored time compares as due, each once, schedules move forward; and the times
    that are compared as texts.
  \<^item> \<open>Plugins\<close>: \<open>domain/plugins.py\<close>, \<open>persistence/plugins.py\<close>, \<open>plugins/host.py\<close>, \<open>plugins/process.py\<close>. The histories of the host, restarts and replaced
    plugins included, are a step relation. Shown: plugin code runs only when it may, and a plugin that keeps failing is quarantined.
  \<^item> \<open>Command_Risk\<close>: \<open>tools/command_risk.py\<close>, \<open>tools/command_effects.py\<close>.
  \<^item> \<open>Workflow_Def\<close>, \<open>Workflow_Expr\<close>, \<open>Workflow_Check\<close>: \<open>domain/workflows.py\<close>; \<open>Workflow_Engine\<close>, \<open>Workflow_Safety\<close>: \<open>workflows/store.py\<close>, \<open>workflows/catalog.py\<close>,
    \<open>workflows/engine.py\<close>. The histories of the engine, crashes included, are an inductive set; every operation is a sequence of atomic moves. Every request
    to a connector, lookups and repeated attempts included, is recorded, so that the theorems count and judge requests and not intentions.

  \<^bold>\<open>Conventions.\<close> Tables are lists of records in insertion order; a transaction that raises leaves the database as it was. Errors are the left
  side of a sum. Times are integers (microseconds) or rationals; uuids and clocks are arguments. Hashes, JSON codecs, \<open>str()\<close> of a
  value, symbolic links, \<open>git\<close> and the services a component calls are parameters, and theorems name what they need of them. Recursions are structural
  or have termination proofs. Numbers that are not finite (NaN and infinities in JSON documents) are outside the model, file texts are their UTF-8 bytes, and other strings
  have code points below 256. A retry loop may raise between two attempts, but the cancellation of its pause is not told apart from other exceptions.
  Operations of the workflow engine on one run are serialised by its lock. Fuel appears only where the code bounds a loop itself: \<open>advance\<close> of the workflow engine makes at most 1000 rounds and
  then raises, as in the source. The loop of tests and repairs of the orchestrator is given one turn more than the repair rounds left; that it never
  needs another (the exception \<open>NoFuel\<close> of the model) is a theorem.

  \<^bold>\<open>Not modelled.\<close> The command line, the HTTP routes, the dashboard and the demo only call or present what is modelled. The agents' prompts and the model
  providers, search, calendar and the connectors of single services (their requests and the parsing of their events) exchange texts with outside services. Extraction of symbols rests
  on tree-sitter. The sandbox runtimes start processes. Migrations and the two database drivers are SQL text. The text of a report and of event messages, the
  patterns that read test output, and the restoring of a snapshot (which assigns untyped values) are left out. Metrics, reports,
  traces and evaluation read the state and do not change it.
\<close>

end
